(* ===== verification/Gwf_Prelude.thy ===== *)
theory Gwf_Prelude
  imports Main "HOL-Library.Signed_Division"
begin

text \<open>
  The shared vocabulary of the development.

  \<^item> Go's 64-bit \<open>int\<close>/\<open>int64\<close>/\<open>time.Duration\<close> is an \<^typ>\<open>int\<close> whose arithmetic is passed
    through \<open>i64\<close> wherever the code could leave the range; \<open>is_i64\<close> says a value is in range.
  \<^item> A \<open>time.Time\<close> is its Unix nanosecond count (\<^typ>\<open>int\<close>); \<open>time_Sub\<close> saturates as
    \<open>Time.Sub\<close> does.
  \<^item> A Go string is a \<^typ>\<open>string\<close>; \<open>Itoa\<close>, \<open>ParseInt\<close> and \<open>Cut\<close> are the parts of
    \<open>strconv\<close> and \<open>strings\<close> the components use, with their round trips.
  \<^item> A Go map is a HOL map; a fallible call returns \<open>'e + 'a\<close>, the error on the left.
\<close>

named_theorems gwf_defs \<open>definitions a component's proofs unfold\<close>
named_theorems gwf_inv \<open>preservation of a component's invariant, one fact per operation\<close>

type_synonym time = int
type_synonym duration = int
type_synonym ('e, 'a) result = "'e + 'a"

section \<open>64-bit integers and time\<close>

definition is_i64 :: "int \<Rightarrow> bool" where
  "is_i64 x \<longleftrightarrow> - (2 ^ 63) \<le> x \<and> x < 2 ^ 63"

definition i64 :: "int \<Rightarrow> int" where
  "i64 x = (x + 2 ^ 63) mod 2 ^ 64 - 2 ^ 63"

lemma i64_id [simp]: "is_i64 x \<Longrightarrow> i64 x = x"
  by (simp add: is_i64_def i64_def)

lemma is_i64_i64 [simp]: "is_i64 (i64 x)"
proof -
  have "0 \<le> (x + 2 ^ 63) mod 2 ^ 64" "(x + 2 ^ 63) mod 2 ^ 64 < (2 ^ 64 :: int)"
    by (rule pos_mod_sign pos_mod_bound; simp)+
  then show ?thesis by (simp add: is_i64_def i64_def)
qed

lemma is_i64_between: "is_i64 a \<Longrightarrow> is_i64 b \<Longrightarrow> a \<le> x \<Longrightarrow> x \<le> b \<Longrightarrow> is_i64 x"
  by (simp add: is_i64_def)

lemma is_i64_0 [simp]: "is_i64 0" by (simp add: is_i64_def)

definition time_Second :: duration where "time_Second = 1000000000"

definition time_Sub :: "time \<Rightarrow> time \<Rightarrow> duration" where
  "time_Sub a b = max (- (2 ^ 63)) (min (2 ^ 63 - 1) (a - b))"

lemma is_i64_time_Sub [simp]: "is_i64 (time_Sub a b)"
  by (auto simp: time_Sub_def is_i64_def)

lemma time_Sub_exact [simp]: "is_i64 (a - b) \<Longrightarrow> time_Sub a b = a - b"
  by (auto simp: time_Sub_def is_i64_def)

lemma time_Sub_le: "0 \<le> a - b \<Longrightarrow> time_Sub a b \<le> a - b"
  by (auto simp: time_Sub_def)

lemma time_Sub_nonneg_iff [simp]: "0 \<le> time_Sub a b \<longleftrightarrow> b \<le> a"
  by (auto simp: time_Sub_def)

text \<open>Go's \<open>/\<close> truncates; on the non-negative dividends of the code it is HOL's \<open>div\<close>.\<close>

lemma sdiv_nonneg [simp]: "0 \<le> a \<Longrightarrow> 0 < b \<Longrightarrow> a sdiv b = a div (b::int)"
  by (cases "a = 0") (simp_all add: signed_divide_int_def)

lemma div_mult_le: "0 < b \<Longrightarrow> a div b * b \<le> (a::int)"
  using pos_mod_sign [of b a] by (simp add: minus_mod_eq_div_mult [symmetric])

section \<open>Decimal text\<close>

definition digit_char :: "nat \<Rightarrow> char" where
  "digit_char d = char_of (48 + d)"

definition digit_val :: "char \<Rightarrow> nat option" where
  "digit_val c = (let k = of_char c in if 48 \<le> k \<and> k \<le> (57::nat) then Some (k - 48) else None)"

fun nat_digits :: "nat \<Rightarrow> string" where
  "nat_digits n = (if n < 10 then [digit_char n] else nat_digits (n div 10) @ [digit_char (n mod 10)])"

declare nat_digits.simps [simp del]

definition Itoa :: "int \<Rightarrow> string" where
  "Itoa i = (if i < 0 then CHR ''-'' # nat_digits (nat (- i)) else nat_digits (nat i))"

fun parse_digits :: "nat \<Rightarrow> string \<Rightarrow> nat option" where
  "parse_digits acc [] = Some acc"
| "parse_digits acc (c # cs) =
     (case digit_val c of None \<Rightarrow> None | Some d \<Rightarrow> parse_digits (10 * acc + d) cs)"

definition ParseUint10 :: "string \<Rightarrow> nat option" where
  "ParseUint10 s = (if s = [] then None else parse_digits 0 s)"

definition ParseInt :: "string \<Rightarrow> int option" where
  "ParseInt s =
     (let neg = (s \<noteq> [] \<and> hd s = CHR ''-'');
          body = (if s \<noteq> [] \<and> (hd s = CHR ''-'' \<or> hd s = CHR ''+'') then tl s else s)
      in case ParseUint10 body of
           None \<Rightarrow> None
         | Some n \<Rightarrow> (let v = (if neg then - int n else int n) in if is_i64 v then Some v else None))"

lemma digit_val_char [simp]: "d < 10 \<Longrightarrow> digit_val (digit_char d) = Some d"
  by (simp add: digit_val_def digit_char_def Let_def)

lemma digit_val_range: "digit_val c = Some d \<Longrightarrow> d < 10 \<and> c = digit_char d"
  by (auto simp: digit_val_def digit_char_def Let_def split: if_splits)

lemma parse_digits_append:
  "parse_digits acc (xs @ ys) = Option.bind (parse_digits acc xs) (\<lambda>a. parse_digits a ys)"
  by (induction xs arbitrary: acc) (auto split: option.splits)

lemma parse_nat_digits [simp]: "parse_digits 0 (nat_digits n) = Some n"
proof (induction n rule: nat_digits.induct)
  case (1 n)
  show ?case
  proof (cases "n < 10")
    case True then show ?thesis by (simp add: nat_digits.simps [of n])
  next
    case False
    then show ?thesis using 1
      by (simp add: nat_digits.simps [of n] parse_digits_append)
  qed
qed

lemma nat_digits_not_Nil [simp]: "nat_digits n \<noteq> []"
  by (subst nat_digits.simps) simp

lemma ParseUint10_nat_digits [simp]: "ParseUint10 (nat_digits n) = Some n"
  by (simp add: ParseUint10_def)

lemma nat_digits_digits: "c \<in> set (nat_digits n) \<Longrightarrow> \<exists>d<10. c = digit_char d"
proof (induction n rule: nat_digits.induct)
  case (1 n)
  show ?case
  proof (cases "n < 10")
    case True then show ?thesis using 1(2) by (auto simp: nat_digits.simps [of n])
  next
    case False
    then have "c \<in> set (nat_digits (n div 10)) \<or> c = digit_char (n mod 10)"
      using 1(2) by (auto simp: nat_digits.simps [of n])
    moreover have "n mod 10 < 10" by simp
    ultimately show ?thesis using 1(1) [OF False] by blast
  qed
qed

lemma digit_char_neq [simp]:
  "d < 10 \<Longrightarrow> digit_char d \<noteq> CHR ''-''" "d < 10 \<Longrightarrow> digit_char d \<noteq> CHR ''+''"
  "d < 10 \<Longrightarrow> digit_char d \<noteq> CHR ''|''" "d < 10 \<Longrightarrow> digit_char d \<noteq> CHR '':''"
  by (auto simp: digit_char_def dest!: arg_cong [where f = "of_char :: char \<Rightarrow> nat"])

lemmas digit_char_neq_sym [simp] = digit_char_neq [THEN not_sym]

lemma hd_nat_digits: "hd (nat_digits n) \<noteq> CHR ''-''" "hd (nat_digits n) \<noteq> CHR ''+''"
  using nat_digits_digits [OF hd_in_set [OF nat_digits_not_Nil [of n]]] by auto

lemma Itoa_not_Nil [simp]: "Itoa i \<noteq> []" by (simp add: Itoa_def)

lemma ParseInt_Itoa [simp]: "is_i64 i \<Longrightarrow> ParseInt (Itoa i) = Some i"
  by (auto simp: ParseInt_def Itoa_def Let_def hd_nat_digits)

lemma Itoa_inj: "Itoa i = Itoa j \<Longrightarrow> i = j"
proof -
  assume e: "Itoa i = Itoa j"
  have neg: "Itoa k = CHR ''-'' # t \<Longrightarrow> k < 0" for k t
    using hd_nat_digits(1) [of "nat k"] by (auto simp: Itoa_def split: if_splits)
  have "(i < 0) = (j < 0)" using e neg by (metis Itoa_def)
  moreover have "m = n" if "nat_digits m = nat_digits n" for m n
    using that parse_nat_digits by (metis option.inject)
  ultimately show "i = j" using e by (fastforce simp: Itoa_def split: if_splits)
qed

lemma Itoa_no_sep [simp]: "CHR ''|'' \<notin> set (Itoa i)" "CHR '':'' \<notin> set (Itoa i)"
  by (auto simp: Itoa_def dest: nat_digits_digits)

section \<open>Strings and maps\<close>

definition Cut :: "char \<Rightarrow> string \<Rightarrow> (string \<times> string) option" where
  "Cut c s = (if c \<in> set s then Some (takeWhile (\<lambda>x. x \<noteq> c) s, tl (dropWhile (\<lambda>x. x \<noteq> c) s)) else None)"

lemma Cut_append [simp]: "c \<notin> set a \<Longrightarrow> Cut c (a @ c # b) = Some (a, b)"
proof -
  assume "c \<notin> set a"
  then have "\<forall>x\<in>set a. x \<noteq> c" by auto
  then show ?thesis by (simp add: Cut_def takeWhile_append2 dropWhile_append2)
qed

lemma Cut_SomeD: "Cut c s = Some (a, b) \<Longrightarrow> s = a @ c # b \<and> c \<notin> set a"
proof -
  assume h: "Cut c s = Some (a, b)"
  then have c: "c \<in> set s" and a: "a = takeWhile (\<lambda>x. x \<noteq> c) s" and b: "b = tl (dropWhile (\<lambda>x. x \<noteq> c) s)"
    by (auto simp: Cut_def split: if_splits)
  have "dropWhile (\<lambda>x. x \<noteq> c) s \<noteq> []" using c by simp
  moreover have "hd (dropWhile (\<lambda>x. x \<noteq> c) s) = c"
    using hd_dropWhile [OF calculation] by simp
  ultimately have "dropWhile (\<lambda>x. x \<noteq> c) s = c # b" by (metis b list.collapse)
  then have "s = a @ c # b" using takeWhile_dropWhile_id [of "\<lambda>x. x \<noteq> c" s] a by simp
  moreover have "c \<notin> set a" unfolding a by (auto dest: set_takeWhileD)
  ultimately show ?thesis by blast
qed

lemma last_sep_inj:
  fixes a :: string
  assumes "a @ c # b = a' @ c # b'" "c \<notin> set b" "c \<notin> set b'"
  shows "a = a' \<and> b = b'"
proof -
  have "rev b @ c # rev a = rev b' @ c # rev a'" using arg_cong [OF assms(1), of rev] by simp
  then have "Cut c (rev b @ c # rev a) = Cut c (rev b' @ c # rev a')" by simp
  then show ?thesis using assms(2,3) by simp
qed

section \<open>Reachability\<close>

text \<open>
  The states a component can be in: the initial ones, and those one step away from a
  reachable one. Components instantiate it with the steps of their own operations.
\<close>

inductive reach :: "('s \<Rightarrow> bool) \<Rightarrow> ('s \<Rightarrow> 's \<Rightarrow> bool) \<Rightarrow> 's \<Rightarrow> bool" for init step where
  reach_init: "init s \<Longrightarrow> reach init step s"
| reach_step: "reach init step s \<Longrightarrow> step s s' \<Longrightarrow> reach init step s'"

lemma reach_invariant [consumes 1, case_names init step]:
  assumes "reach init step s"
    and "\<And>s. init s \<Longrightarrow> P s"
    and "\<And>s s'. P s \<Longrightarrow> step s s' \<Longrightarrow> P s'"
  shows "P s"
  using assms(1) by (induction rule: reach.induct) (auto intro: assms)

lemma rtranclp_invariant [consumes 1, case_names init step]:
  assumes "step\<^sup>*\<^sup>* s t" and "P s" and "\<And>x y. P x \<Longrightarrow> step x y \<Longrightarrow> P y"
  shows "P t"
  using assms(1) by (induction rule: rtranclp_induct) (auto intro: assms)

end
