(* ===== verification/Svc_Lifecycle.thy ===== *)
theory Svc_Lifecycle
  imports Gwf_Prelude
begin

text \<open>
  The service lifecycle of \<open>gw/svc\<close>: the four states, the contract every service promises the
  framework (locale \<open>service\<close>, from the documentation of \<open>svc.Service\<close>), and the lifecycle
  machine the services with a run goroutine share line by line
  (\<open>throttle.LimiterInMemBuckets\<close>, \<open>jobsched.Service\<close>, \<open>sse.Service\<close>, \<open>web.Service\<close>, \<open>uds.Service\<close>).

  \<open>Start\<close>, \<open>Stop\<close> and \<open>Terminate\<close> are not called concurrently (the code says so), but they do
  run concurrently with the run goroutine, whose progress is the relation \<open>lc_background\<close>. The
  outcome of a \<open>select\<close> between the stopped channel and the caller's deadline is an argument.
\<close>

section \<open>States and errors\<close>

datatype State = StateREADY | StateRUNNING | StateSTOPPING | StateTERMINATING

datatype svc_error =
    CannotStart State
  | CannotStop State
  | StopDeadline
  | StartFailed string

text \<open>Which case a \<open>select\<close> of \<open>waitStopped\<close> takes.\<close>

datatype wait_case = SeesStopped | SeesDeadline

section \<open>The contract\<close>

locale service =
  fixes State_of :: "'s \<Rightarrow> State"
    and Start :: "'b \<Rightarrow> 's \<Rightarrow> svc_error option \<times> 's"
    and Stop :: "wait_case \<Rightarrow> 's \<Rightarrow> svc_error option \<times> 's"
    and Terminate :: "wait_case \<Rightarrow> 's \<Rightarrow> svc_error option \<times> 's"
    and background :: "'s \<Rightarrow> 's \<Rightarrow> bool"
    and terminated :: "'s \<Rightarrow> svc_error option list"
  assumes start_running: "State_of s = StateRUNNING \<Longrightarrow> Start b s = (None, s)"
    and start_refused: "State_of s \<in> {StateSTOPPING, StateTERMINATING} \<Longrightarrow>
          Start b s = (Some (CannotStart (State_of s)), s)"
    and start_ready: "State_of s = StateREADY \<Longrightarrow> Start b s = (r, s') \<Longrightarrow>
          State_of s' = (if r = None then StateRUNNING else StateREADY) \<and> terminated s' = terminated s"
    and stop_ready: "State_of s = StateREADY \<Longrightarrow> Stop w s = (None, s)"
    and stop_refused: "State_of s \<in> {StateSTOPPING, StateTERMINATING} \<Longrightarrow>
          Stop w s = (Some (CannotStop (State_of s)), s)"
    and stop_running: "State_of s = StateRUNNING \<Longrightarrow> Stop w s = (r, s') \<Longrightarrow>
          State_of s' \<in> {StateSTOPPING, StateREADY} \<and> terminated s' = terminated s"
    and terminate_again: "State_of s = StateTERMINATING \<Longrightarrow> Terminate w s = (None, s)"
    and terminate_first: "State_of s \<noteq> StateTERMINATING \<Longrightarrow> Terminate w s = (r, s') \<Longrightarrow>
          State_of s' = StateTERMINATING \<and> terminated s' = terminated s @ [r]"
    and background_state: "background s s' \<Longrightarrow>
          State_of s' = State_of s \<or> State_of s = StateSTOPPING \<and> State_of s' = StateREADY"
    and background_terminated: "background s s' \<Longrightarrow> terminated s' = terminated s"
begin

text \<open>One event of a service's life: a lifecycle call, or progress of its own goroutine.\<close>

definition life_step :: "'s \<Rightarrow> 's \<Rightarrow> bool" where
  "life_step s s' \<longleftrightarrow> (\<exists>b. s' = snd (Start b s)) \<or> (\<exists>w. s' = snd (Stop w s))
     \<or> (\<exists>w. s' = snd (Terminate w s)) \<or> background s s'"

lemma start_cases: "Start b s = (r, s') \<Longrightarrow>
    State_of s' = State_of s \<or> State_of s = StateREADY \<and> State_of s' = StateRUNNING"
  using start_running [of s b] start_refused [of s b] start_ready [of s b r s']
  by (cases "State_of s") (auto split: if_splits)

lemma start_terminated: "terminated (snd (Start b s)) = terminated s"
  using start_running [of s b] start_refused [of s b] start_ready [of s b "fst (Start b s)" "snd (Start b s)"]
  by (cases "State_of s") auto

lemma stop_terminated: "terminated (snd (Stop w s)) = terminated s"
  using stop_ready [of s w] stop_refused [of s w] stop_running [of s w "fst (Stop w s)" "snd (Stop w s)"]
  by (cases "State_of s") auto

lemma terminating_start: "State_of s = StateTERMINATING \<Longrightarrow> snd (Start b s) = s"
  using start_refused [of s b] by simp

lemma terminating_stop: "State_of s = StateTERMINATING \<Longrightarrow> snd (Stop w s) = s"
  using stop_refused [of s w] by simp

text \<open>TERMINATING is irreversible.\<close>

lemma life_step_terminating: "State_of s = StateTERMINATING \<Longrightarrow> life_step s s' \<Longrightarrow> State_of s' = StateTERMINATING"
  using background_state [of s s'] unfolding life_step_def
  by (elim disjE exE) (simp_all add: terminating_start terminating_stop terminate_again)

lemma terminating_forever:
  "life_step\<^sup>*\<^sup>* s s' \<Longrightarrow> State_of s = StateTERMINATING \<Longrightarrow> State_of s' = StateTERMINATING"
  by (induction rule: rtranclp_induct) (auto intro: life_step_terminating)

text \<open>
  The \<open>Terminated\<close> channel, of capacity one, is sent to exactly when the service becomes
  TERMINATING: the only send never blocks, and the framework's count of receives is exact.
\<close>

definition sent_once :: "'s \<Rightarrow> bool" where
  "sent_once s \<longleftrightarrow> length (terminated s) = (if State_of s = StateTERMINATING then 1 else 0)"

lemma sent_once_terminate: "sent_once s \<Longrightarrow> sent_once (snd (Terminate w s))"
  using terminate_again [of s w] terminate_first [of s w "fst (Terminate w s)" "snd (Terminate w s)"]
  by (cases "State_of s = StateTERMINATING") (auto simp: sent_once_def)

lemma sent_once_start: "sent_once s \<Longrightarrow> sent_once (snd (Start b s))"
  using start_cases [of b s "fst (Start b s)" "snd (Start b s)"] start_terminated [of b s]
  by (auto simp: sent_once_def)

lemma sent_once_stop: "sent_once s \<Longrightarrow> sent_once (snd (Stop w s))"
  using stop_ready [of s w] stop_refused [of s w] stop_terminated [of w s]
    stop_running [of s w "fst (Stop w s)" "snd (Stop w s)"]
  by (cases "State_of s") (auto simp: sent_once_def)

lemma sent_once_background: "sent_once s \<Longrightarrow> background s s' \<Longrightarrow> sent_once s'"
  using background_state [of s s'] background_terminated [of s s'] by (auto simp: sent_once_def)

lemma sent_once_step: "sent_once s \<Longrightarrow> life_step s s' \<Longrightarrow> sent_once s'"
  unfolding life_step_def
  by (elim disjE exE) (simp_all add: sent_once_start sent_once_stop sent_once_terminate sent_once_background)

lemma reach_sent_once:
  assumes "reach (\<lambda>s. State_of s = StateREADY \<and> terminated s = []) life_step s"
  shows "sent_once s"
  using assms
proof (induction rule: reach_invariant)
  case (init s) then show ?case by (simp add: sent_once_def)
next
  case (step s s') then show ?case by (rule sent_once_step)
qed

end

section \<open>The lifecycle of a service with a run goroutine\<close>

text \<open>
  How far the run goroutine of the current cycle has come: in its loop, past
  \<open>transitionAfterRun\<close>, or past \<open>close(s.stopped)\<close> (the deferred calls run in that order).
\<close>

datatype run_phase = Looping | Departed | Closed

record lifecycle =
  lc_state :: State
  lc_cancelled :: bool
  lc_run :: "run_phase option"
  lc_terminated :: "svc_error option list"

definition lc_new :: lifecycle where
  "lc_new = \<lparr>lc_state = StateREADY, lc_cancelled = False, lc_run = None, lc_terminated = []\<rparr>"

text \<open>\<open>parent_done\<close>: whether the context handed to \<open>Start\<close> is already cancelled.\<close>

definition lc_Start :: "bool \<Rightarrow> lifecycle \<Rightarrow> svc_error option \<times> lifecycle" where
  "lc_Start parent_done s =
     (if lc_state s = StateRUNNING then (None, s)
      else if lc_state s \<noteq> StateREADY then (Some (CannotStart (lc_state s)), s)
      else (None, s\<lparr>lc_cancelled := parent_done, lc_run := Some Looping, lc_state := StateRUNNING\<rparr>))"

definition lc_transitionAfterRun :: "lifecycle \<Rightarrow> lifecycle" where
  "lc_transitionAfterRun s = (if lc_state s = StateSTOPPING then s\<lparr>lc_state := StateREADY\<rparr> else s)"

definition lc_leave :: "lifecycle \<Rightarrow> lifecycle" where
  "lc_leave s = (if lc_run s = Some Looping then (lc_transitionAfterRun s)\<lparr>lc_run := Some Departed\<rparr> else s)"

definition lc_close :: "lifecycle \<Rightarrow> lifecycle" where
  "lc_close s = (if lc_run s = Some Departed then s\<lparr>lc_run := Some Closed\<rparr> else s)"

text \<open>Taking the stopped case means the goroutine ran to its end during the wait.\<close>

definition lc_waitStopped :: "wait_case \<Rightarrow> lifecycle \<Rightarrow> svc_error option \<times> lifecycle" where
  "lc_waitStopped w s =
     (case w of SeesStopped \<Rightarrow> (None, lc_close (lc_leave s)) | SeesDeadline \<Rightarrow> (Some StopDeadline, s))"

definition lc_stop :: "wait_case \<Rightarrow> lifecycle \<Rightarrow> svc_error option \<times> lifecycle" where
  "lc_stop w s = lc_waitStopped w (s\<lparr>lc_cancelled := True\<rparr>)"

definition lc_Stop :: "wait_case \<Rightarrow> lifecycle \<Rightarrow> svc_error option \<times> lifecycle" where
  "lc_Stop w s =
     (if lc_state s = StateREADY then (None, s)
      else if lc_state s \<noteq> StateRUNNING then (Some (CannotStop (lc_state s)), s)
      else lc_stop w (s\<lparr>lc_state := StateSTOPPING\<rparr>))"

definition lc_Terminate :: "wait_case \<Rightarrow> lifecycle \<Rightarrow> svc_error option \<times> lifecycle" where
  "lc_Terminate w s =
     (if lc_state s = StateTERMINATING then (None, s)
      else let prevState = lc_state s;
               s1 = s\<lparr>lc_state := StateTERMINATING\<rparr>;
               (err, s2) = (case prevState of
                   StateRUNNING \<Rightarrow> lc_stop w s1
                 | StateSTOPPING \<Rightarrow> lc_waitStopped w s1
                 | _ \<Rightarrow> (None, s1))
           in (err, s2\<lparr>lc_terminated := lc_terminated s2 @ [err]\<rparr>))"

text \<open>
  Progress besides the lifecycle calls: the parent context is cancelled, a cancelled goroutine
  leaves its loop, a goroutine ends on its own (a web server whose \<open>Serve\<close> fails), and the
  stopped channel is closed.
\<close>

inductive lc_background :: "lifecycle \<Rightarrow> lifecycle \<Rightarrow> bool" where
  parent_cancelled: "lc_background s (s\<lparr>lc_cancelled := True\<rparr>)"
| run_leaves: "lc_background s (lc_leave s)"
| run_closes: "lc_background s (lc_close s)"

inductive_cases lc_backgroundE: "lc_background s s'"

lemmas lc_defs = lc_Start_def lc_Stop_def lc_Terminate_def lc_stop_def lc_waitStopped_def
  lc_close_def lc_leave_def lc_transitionAfterRun_def

interpretation lcs: service lc_state lc_Start lc_Stop lc_Terminate lc_background lc_terminated
  by unfold_locales
    (auto simp: lc_defs Let_def split: if_splits wait_case.splits State.splits prod.splits elim!: lc_backgroundE)

text \<open>A cycle exists whenever a wait on its channel is possible, and READY means the goroutine has left.\<close>

definition lc_inv :: "lifecycle \<Rightarrow> bool" where
  "lc_inv s \<longleftrightarrow>
     (lc_state s \<in> {StateRUNNING, StateSTOPPING} \<longrightarrow> lc_run s \<noteq> None) \<and>
     (lc_state s = StateREADY \<longrightarrow> lc_run s \<noteq> Some Looping)"

lemma lc_inv_new [simp]: "lc_inv lc_new" by (simp add: lc_inv_def lc_new_def)

lemma lc_inv_ops [gwf_inv]:
  "lc_inv s \<Longrightarrow> lc_inv (snd (lc_Start b s))"
  "lc_inv s \<Longrightarrow> lc_inv (snd (lc_Stop w s))"
  "lc_inv s \<Longrightarrow> lc_inv (snd (lc_Terminate w s))"
  "lc_inv s \<Longrightarrow> lc_background s s' \<Longrightarrow> lc_inv s'"
  by (auto simp: lc_inv_def lc_defs Let_def split: if_splits wait_case.splits State.splits elim!: lc_backgroundE)

lemma lc_inv_step: "lc_inv s \<Longrightarrow> lcs.life_step s s' \<Longrightarrow> lc_inv s'"
  by (auto simp: lcs.life_step_def intro: lc_inv_ops)

text \<open>The steps of such a service: a lifecycle call with any outcome, or the goroutine's own progress.\<close>

inductive lc_step :: "lifecycle \<Rightarrow> lifecycle \<Rightarrow> bool" where
  step_Start: "lc_step s (snd (lc_Start b s))"
| step_Stop: "lc_step s (snd (lc_Stop w s))"
| step_Terminate: "lc_step s (snd (lc_Terminate w s))"
| step_background: "lc_background s s' \<Longrightarrow> lc_step s s'"

inductive_cases lc_stepE: "lc_step s s'"

lemma lc_step_life: "lc_step s s' \<Longrightarrow> lcs.life_step s s'"
  by (auto simp: lcs.life_step_def elim!: lc_stepE)

lemma reach_lc_life:
  "reach (\<lambda>s. s = lc_new) lc_step s \<Longrightarrow>
    reach (\<lambda>s. lc_state s = StateREADY \<and> lc_terminated s = []) lcs.life_step s"
  by (induction rule: reach.induct) (auto intro: reach.intros lc_step_life simp: lc_new_def)

lemma reach_lc_inv: "reach (\<lambda>s. s = lc_new) lc_step s \<Longrightarrow> lc_inv s"
  by (induction rule: reach.induct) (auto intro: lc_inv_step lc_step_life)

text \<open>
  Once the goroutine of a cycle is gone while the state still says RUNNING, only \<open>Terminate\<close>
  leads anywhere: the transition back to READY belonged to the goroutine.
\<close>

definition wedged :: "lifecycle \<Rightarrow> bool" where
  "wedged s \<longleftrightarrow> lc_state s \<in> {StateSTOPPING, StateTERMINATING} \<and> lc_run s \<noteq> Some Looping"

lemma wedged_step: "wedged s \<Longrightarrow> lc_step s s' \<Longrightarrow> wedged s'"
  by (elim lc_stepE lc_backgroundE)
    (auto simp: wedged_def lc_defs Let_def split: wait_case.splits State.splits)

lemma wedged_forever: "lc_step\<^sup>*\<^sup>* s s' \<Longrightarrow> wedged s \<Longrightarrow> wedged s'"
  by (induction rule: rtranclp_induct) (auto intro: wedged_step)

text \<open>
  A service keeps its lifecycle in its own record, beside its passive state: the lifecycle calls
  act on that part and leave the rest alone. Any such record is a service.
\<close>

definition lifted :: "('s \<Rightarrow> lifecycle) \<Rightarrow> (lifecycle \<Rightarrow> 's \<Rightarrow> 's) \<Rightarrow>
    (lifecycle \<Rightarrow> svc_error option \<times> lifecycle) \<Rightarrow> 's \<Rightarrow> svc_error option \<times> 's" where
  "lifted get put op s = map_prod id (\<lambda>l. put l s) (op (get s))"

locale lifecycle_part =
  fixes get :: "'s \<Rightarrow> lifecycle" and put :: "lifecycle \<Rightarrow> 's \<Rightarrow> 's"
  assumes get_put [simp]: "get (put l s) = l" and put_get [simp]: "put (get s) s = s"

sublocale lifecycle_part \<subseteq> service "\<lambda>s. lc_state (get s)" "\<lambda>b. lifted get put (lc_Start b)"
    "\<lambda>w. lifted get put (lc_Stop w)" "\<lambda>w. lifted get put (lc_Terminate w)"
    "\<lambda>s s'. lc_background (get s) (get s')" "\<lambda>s. lc_terminated (get s)"
proof unfold_locales
  fix s b assume "lc_state (get s) = StateRUNNING"
  then show "lifted get put (lc_Start b) s = (None, s)" by (simp add: lifted_def lcs.start_running)
next
  fix s b assume "lc_state (get s) \<in> {StateSTOPPING, StateTERMINATING}"
  then show "lifted get put (lc_Start b) s = (Some (CannotStart (lc_state (get s))), s)"
    by (simp add: lifted_def lcs.start_refused)
next
  fix s b r s' assume "lc_state (get s) = StateREADY" "lifted get put (lc_Start b) s = (r, s')"
  then show "lc_state (get s') = (if r = None then StateRUNNING else StateREADY) \<and> lc_terminated (get s') = lc_terminated (get s)"
    using lcs.start_ready [of "get s" b "fst (lc_Start b (get s))" "snd (lc_Start b (get s))"]
    by (auto simp: lifted_def map_prod_def split: prod.splits)
next
  fix s w assume "lc_state (get s) = StateREADY"
  then show "lifted get put (lc_Stop w) s = (None, s)" by (simp add: lifted_def lcs.stop_ready)
next
  fix s w assume "lc_state (get s) \<in> {StateSTOPPING, StateTERMINATING}"
  then show "lifted get put (lc_Stop w) s = (Some (CannotStop (lc_state (get s))), s)"
    by (simp add: lifted_def lcs.stop_refused)
next
  fix s w r s' assume "lc_state (get s) = StateRUNNING" "lifted get put (lc_Stop w) s = (r, s')"
  then show "lc_state (get s') \<in> {StateSTOPPING, StateREADY} \<and> lc_terminated (get s') = lc_terminated (get s)"
    using lcs.stop_running [of "get s" w "fst (lc_Stop w (get s))" "snd (lc_Stop w (get s))"]
    by (auto simp: lifted_def map_prod_def split: prod.splits)
next
  fix s w assume "lc_state (get s) = StateTERMINATING"
  then show "lifted get put (lc_Terminate w) s = (None, s)" by (simp add: lifted_def lcs.terminate_again)
next
  fix s w r s' assume "lc_state (get s) \<noteq> StateTERMINATING" "lifted get put (lc_Terminate w) s = (r, s')"
  then show "lc_state (get s') = StateTERMINATING \<and> lc_terminated (get s') = lc_terminated (get s) @ [r]"
    using lcs.terminate_first [of "get s" w "fst (lc_Terminate w (get s))" "snd (lc_Terminate w (get s))"]
    by (auto simp: lifted_def map_prod_def split: prod.splits)
qed (use lcs.background_state lcs.background_terminated in blast)+

section \<open>The lifecycle of a service that runs nothing\<close>

text \<open>
  \<open>throttle.LimiterKVDBBuckets\<close> and \<open>session.Service\<close> have no goroutine: the lifecycle is the
  admission gate only, and every transition is immediate.
\<close>

record gate =
  gt_state :: State
  gt_terminated :: "svc_error option list"

definition gate_new :: gate where
  "gate_new = \<lparr>gt_state = StateREADY, gt_terminated = []\<rparr>"

definition gate_Start :: "unit \<Rightarrow> gate \<Rightarrow> svc_error option \<times> gate" where
  "gate_Start _ g =
     (if gt_state g = StateRUNNING then (None, g)
      else if gt_state g \<noteq> StateREADY then (Some (CannotStart (gt_state g)), g)
      else (None, g\<lparr>gt_state := StateRUNNING\<rparr>))"

definition gate_Stop :: "wait_case \<Rightarrow> gate \<Rightarrow> svc_error option \<times> gate" where
  "gate_Stop _ g =
     (if gt_state g = StateREADY then (None, g)
      else if gt_state g \<noteq> StateRUNNING then (Some (CannotStop (gt_state g)), g)
      else (None, g\<lparr>gt_state := StateREADY\<rparr>))"

definition gate_Terminate :: "wait_case \<Rightarrow> gate \<Rightarrow> svc_error option \<times> gate" where
  "gate_Terminate _ g =
     (if gt_state g = StateTERMINATING then (None, g)
      else (None, g\<lparr>gt_state := StateTERMINATING, gt_terminated := gt_terminated g @ [None]\<rparr>))"

lemmas gate_defs = gate_Start_def gate_Stop_def gate_Terminate_def

interpretation gts: service gt_state gate_Start gate_Stop gate_Terminate "\<lambda>_ _. False" gt_terminated
  by unfold_locales (auto simp: gate_defs split: if_splits)

section \<open>Properties\<close>

text \<open>In every reachable state of a service with a run goroutine, whatever lifecycle calls,
  deadlines and goroutine progress led there, the capacity-one \<open>terminated\<close> channel has been sent
  to exactly once if the service is TERMINATING and never otherwise, so the send of \<open>Terminate\<close>
  cannot block and the framework counts each service once.\<close>

theorem lc_terminated_sent_once:
  assumes "reach (\<lambda>s. s = lc_new) lc_step s"
  shows "length (lc_terminated s) = (if lc_state s = StateTERMINATING then 1 else 0)"
  using lcs.reach_sent_once [OF reach_lc_life [OF assms]] by (simp add: lcs.sent_once_def)

theorem lc_terminated_sent_once_witness:
  "length (lc_terminated (snd (lc_Terminate SeesStopped (snd (lc_Start False lc_new))))) = 1"
proof -
  have "reach (\<lambda>s. s = lc_new) lc_step (snd (lc_Terminate SeesStopped (snd (lc_Start False lc_new))))"
    by (rule reach_step [where s = "snd (lc_Start False lc_new)"],
        rule reach_step [where s = lc_new], rule reach_init)
      (auto intro: lc_step.intros)
  from lc_terminated_sent_once [OF this] show ?thesis
    by (simp add: lc_defs lc_new_def)
qed

text \<open>\<open>Stop\<close> of a running service whose goroutine is still in its loop, when it returns nil,
  has brought the service back to READY with the goroutine at its end, and a following \<open>Start\<close>
  resumes it.\<close>

theorem lc_Stop_pauses:
  assumes "lc_state s = StateRUNNING" and "lc_run s = Some Looping" and "lc_Stop w s = (None, s')"
  shows "lc_state s' = StateREADY \<and> lc_run s' = Some Closed \<and> lc_cancelled s' \<and>
         fst (lc_Start b s') = None \<and> lc_state (snd (lc_Start b s')) = StateRUNNING"
  using assms by (auto simp: lc_defs split: wait_case.splits)

theorem lc_Stop_pauses_witness:
  "lc_state (snd (lc_Stop SeesStopped (snd (lc_Start False lc_new)))) = StateREADY"
  using lc_Stop_pauses [of "snd (lc_Start False lc_new)" SeesStopped
      "snd (lc_Stop SeesStopped (snd (lc_Start False lc_new)))" False]
  by (simp add: lc_defs lc_new_def)

text \<open>A service whose run goroutine has ended while its state is RUNNING (its parent context was
  cancelled, or the HTTP server died on its own) is wedged by \<open>Stop\<close>: the call returns nil with
  the state left at STOPPING, and no later sequence of lifecycle calls and background progress
  makes the service READY or RUNNING again.\<close>

theorem lc_Stop_wedges_after_run_exit:
  assumes "lc_state s = StateRUNNING" and "lc_run s \<in> {Some Departed, Some Closed}"
    and "lc_step\<^sup>*\<^sup>* (snd (lc_Stop SeesStopped s)) s'"
  shows "fst (lc_Stop SeesStopped s) = None \<and> lc_state (snd (lc_Stop SeesStopped s)) = StateSTOPPING \<and>
         lc_state s' \<notin> {StateREADY, StateRUNNING}"
proof -
  have "wedged (snd (lc_Stop SeesStopped s))" using assms(1,2) by (auto simp: wedged_def lc_defs)
  then have "wedged s'" using assms(3) wedged_forever by blast
  then show ?thesis using assms(1,2) by (auto simp: wedged_def lc_defs)
qed

theorem lc_Stop_wedges_after_run_exit_witness:
  "let s = lc_close (lc_leave (snd (lc_Start False lc_new)));
       stopped = snd (lc_Stop SeesStopped s)
   in fst (lc_Stop SeesStopped s) = None \<and> lc_state (snd (lc_Start False stopped)) \<notin> {StateREADY, StateRUNNING}"
proof -
  let ?s = "lc_close (lc_leave (snd (lc_Start False lc_new)))"
  have "lc_step\<^sup>*\<^sup>* (snd (lc_Stop SeesStopped ?s)) (snd (lc_Start False (snd (lc_Stop SeesStopped ?s))))"
    by (intro r_into_rtranclp step_Start)
  from lc_Stop_wedges_after_run_exit [OF _ _ this] show ?thesis
    unfolding Let_def by (auto simp: lc_defs lc_new_def)
qed

end
