(* ===== verification/Throttle_InMem.thy ===== *)
theory Throttle_InMem
  imports Svc_Lifecycle
begin

text \<open>
  \<open>gw/throttle\<close>: token buckets, their configuration, and the limiter that keeps them in the
  process's memory (\<open>bucket.go\<close>, \<open>bucketgroup.go\<close>, \<open>conf.go\<close>, \<open>limiterinmembuckets.go\<close>). The
  arithmetic is Go's: 64-bit and wrapping, the quotient truncated; \<open>None\<close> is the run-time panic
  of a division by zero.
\<close>

section \<open>Buckets\<close>

record BucketConf =
  Burst :: int
  Increment :: int
  IncrPeriod :: duration

record Bucket =
  tokens :: int
  lastCheck :: time

definition refill :: "BucketConf \<Rightarrow> time \<Rightarrow> Bucket \<Rightarrow> Bucket option" where
  "refill conf now b =
     (let elapsed = time_Sub now (lastCheck b)
      in if elapsed \<ge> IncrPeriod conf then
           (if IncrPeriod conf = 0 then None
            else let times = i64 (elapsed sdiv IncrPeriod conf);
                     t = i64 (tokens b + i64 (times * Increment conf));
                     t' = (if t > Burst conf then Burst conf else t)
                 in Some (b\<lparr>tokens := t', lastCheck := lastCheck b + i64 (times * IncrPeriod conf)\<rparr>))
         else Some b)"

definition Bucket_TryAdmit :: "BucketConf \<Rightarrow> time \<Rightarrow> Bucket \<Rightarrow> (bool \<times> Bucket) option" where
  "Bucket_TryAdmit conf now b = (case refill conf now b of
      None \<Rightarrow> None
    | Some b' \<Rightarrow> if tokens b' \<le> 0 then Some (False, b') else Some (True, b'\<lparr>tokens := i64 (tokens b' - 1)\<rparr>))"

text \<open>
  What \<open>Conf.Validate\<close> establishes of a group, and that its numbers stay clear of the 64-bit range:
  the tokens of the longest measurable pause still fit.
\<close>

definition conf_ok :: "BucketConf \<Rightarrow> bool" where
  "conf_ok c \<longleftrightarrow> 0 < Burst c \<and> 0 < Increment c \<and> 0 < IncrPeriod c \<and> IncrPeriod c < 2 ^ 63 \<and>
     Burst c + ((2 ^ 63 - 1) div IncrPeriod c) * Increment c < 2 ^ 63"

definition bucket_ok :: "BucketConf \<Rightarrow> Bucket \<Rightarrow> bool" where
  "bucket_ok c b \<longleftrightarrow> 0 \<le> tokens b \<and> tokens b \<le> Burst c"

definition periods :: "BucketConf \<Rightarrow> time \<Rightarrow> Bucket \<Rightarrow> int" where
  "periods c now b = max 0 (time_Sub now (lastCheck b)) div IncrPeriod c"

lemma periods_nonneg [simp]: "conf_ok c \<Longrightarrow> 0 \<le> periods c now b"
  by (simp add: periods_def conf_ok_def pos_imp_zdiv_nonneg_iff)

lemma periods_le:
  assumes "conf_ok c" shows "periods c now b \<le> (2 ^ 63 - 1) div IncrPeriod c"
proof -
  have "max 0 (time_Sub now (lastCheck b)) \<le> 2 ^ 63 - 1"
    using is_i64_time_Sub [of now "lastCheck b"] by (simp add: is_i64_def)
  then show ?thesis using assms by (simp add: periods_def conf_ok_def zdiv_mono1)
qed

text \<open>The time of the periods counted has passed.\<close>

lemma periods_elapsed:
  assumes "conf_ok c" "lastCheck b \<le> now"
  shows "periods c now b * IncrPeriod c \<le> now - lastCheck b"
proof -
  have "periods c now b * IncrPeriod c \<le> max 0 (time_Sub now (lastCheck b))"
    using assms(1) unfolding periods_def by (intro div_mult_le) (simp add: conf_ok_def)
  also have "\<dots> \<le> now - lastCheck b" using assms(2) time_Sub_le [of now "lastCheck b"] by simp
  finally show ?thesis .
qed

lemma periods_past [simp]: "conf_ok c \<Longrightarrow> now < lastCheck b \<Longrightarrow> periods c now b = 0"
  by (auto simp: periods_def time_Sub_def max_def)

text \<open>Within the bounds of \<open>conf_ok\<close> nothing wraps: refill is the arithmetic it reads as.\<close>

lemma refill_eq:
  assumes c: "conf_ok c" and b: "bucket_ok c b"
  shows "refill c now b = Some (b\<lparr>tokens := min (Burst c) (tokens b + periods c now b * Increment c),
                                   lastCheck := lastCheck b + periods c now b * IncrPeriod c\<rparr>)"
proof (cases "time_Sub now (lastCheck b) \<ge> IncrPeriod c")
  case False
  then have "periods c now b = 0" using c by (auto simp: periods_def conf_ok_def max_def)
  then show ?thesis using False b by (simp add: refill_def bucket_ok_def)
next
  case True
  have P: "0 < IncrPeriod c" and I: "0 < Increment c" and B: "0 < Burst c" using c by (auto simp: conf_ok_def)
  have e: "0 \<le> time_Sub now (lastCheck b)" using True P by linarith
  then have q: "time_Sub now (lastCheck b) sdiv IncrPeriod c = periods c now b"
    using P by (simp add: periods_def max_def)
  have n: "0 \<le> periods c now b" using c by simp
  have m: "periods c now b * Increment c \<le> (2 ^ 63 - 1) div IncrPeriod c * Increment c"
    using periods_le [OF c] I by (simp add: mult_right_mono)
  have r: "is_i64 (periods c now b * Increment c)" "is_i64 (tokens b + periods c now b * Increment c)"
  proof -
    have "0 \<le> periods c now b * Increment c" using n I by simp
    moreover have "Burst c + (2 ^ 63 - 1) div IncrPeriod c * Increment c < 2 ^ 63" using c unfolding conf_ok_def by blast
    ultimately show "is_i64 (periods c now b * Increment c)" "is_i64 (tokens b + periods c now b * Increment c)"
      using m b B unfolding is_i64_def bucket_ok_def by linarith+
  qed
  have "periods c now b * IncrPeriod c \<le> time_Sub now (lastCheck b)"
    using e P unfolding periods_def by (simp add: max_def div_mult_le)
  then have r2: "is_i64 (periods c now b * IncrPeriod c)"
    using n P by (intro is_i64_between [OF is_i64_0 is_i64_time_Sub [of now "lastCheck b"]]) auto
  have "is_i64 (periods c now b)" using r2 n P
    by (intro is_i64_between [OF is_i64_0 r2]) (auto simp: mult_le_cancel_left1)
  then show ?thesis using True P r r2
    by (simp add: refill_def q Let_def min_def)
qed

lemma conf_ok_burst: "conf_ok c \<Longrightarrow> is_i64 (Burst c)"
proof -
  assume c: "conf_ok c"
  have "0 \<le> (2 ^ 63 - 1) div IncrPeriod c * Increment c"
    using c by (intro mult_nonneg_nonneg) (simp_all add: conf_ok_def pos_imp_zdiv_nonneg_iff)
  then show ?thesis using c unfolding conf_ok_def is_i64_def by linarith
qed

lemma Bucket_TryAdmit_eq:
  assumes "conf_ok c" "bucket_ok c b"
  shows "Bucket_TryAdmit c now b =
    (let t = min (Burst c) (tokens b + periods c now b * Increment c);
         l = lastCheck b + periods c now b * IncrPeriod c
     in if t \<le> 0 then Some (False, b\<lparr>tokens := t, lastCheck := l\<rparr>)
        else Some (True, b\<lparr>tokens := t - 1, lastCheck := l\<rparr>))"
proof -
  have "i64 (min (Burst c) x - 1) = min (Burst c) x - 1" if "\<not> min (Burst c) x \<le> 0" for x
    using that conf_ok_burst [OF assms(1)] by (intro i64_id) (unfold is_i64_def, linarith)
  then show ?thesis using refill_eq [OF assms] by (simp add: Bucket_TryAdmit_def Let_def)
qed

lemma Bucket_TryAdmit_total: "conf_ok c \<Longrightarrow> bucket_ok c b \<Longrightarrow> \<exists>v b'. Bucket_TryAdmit c now b = Some (v, b')"
  by (auto simp: Bucket_TryAdmit_eq Let_def)

lemma bucket_ok_TryAdmit [gwf_inv]:
  assumes "conf_ok c" "bucket_ok c b" "Bucket_TryAdmit c now b = Some (v, b')"
  shows "bucket_ok c b'"
proof -
  have "0 \<le> periods c now b * Increment c" using assms(1) by (simp add: conf_ok_def)
  then show ?thesis using assms(2,3) unfolding Bucket_TryAdmit_eq [OF assms(1,2)]
    by (auto simp: bucket_ok_def Let_def split: if_splits)
qed

text \<open>
  What a bucket can still admit until \<open>t1\<close>: its tokens, and an increment per period to come. Refilling
  never raises it, and an admission costs one.
\<close>

definition potential :: "BucketConf \<Rightarrow> time \<Rightarrow> Bucket \<Rightarrow> int" where
  "potential c t1 b = tokens b + Increment c * ((t1 - lastCheck b) div IncrPeriod c)"

lemma potential_TryAdmit:
  assumes c: "conf_ok c" "bucket_ok c b" and r: "Bucket_TryAdmit c now b = Some (v, b')"
  shows "potential c t1 b' + (if v then 1 else 0) \<le> potential c t1 b"
proof -
  let ?k = "periods c now b"
  have P: "0 < IncrPeriod c" using c by (simp add: conf_ok_def)
  have "(t1 - (lastCheck b + ?k * IncrPeriod c)) div IncrPeriod c = (t1 - lastCheck b + (- ?k) * IncrPeriod c) div IncrPeriod c"
    by (simp add: algebra_simps)
  also have "\<dots> = (t1 - lastCheck b) div IncrPeriod c - ?k" using P by (simp only: div_mult_self1 [of "IncrPeriod c"])
  finally have d: "(t1 - (lastCheck b + ?k * IncrPeriod c)) div IncrPeriod c = (t1 - lastCheck b) div IncrPeriod c - ?k" .
  have m: "Increment c * ?k = ?k * Increment c" by simp
  show ?thesis using r unfolding Bucket_TryAdmit_eq [OF c]
    by (auto simp: potential_def d m Let_def right_diff_distrib split: if_splits)
qed

lemma lastCheck_TryAdmit:
  assumes "conf_ok c" "bucket_ok c b" "Bucket_TryAdmit c now b = Some (v, b')"
  shows "lastCheck b \<le> lastCheck b'" "lastCheck b' \<le> max now (lastCheck b)"
proof -
  have "lastCheck b' = lastCheck b + periods c now b * IncrPeriod c"
    using assms(3) unfolding Bucket_TryAdmit_eq [OF assms(1,2)] by (auto simp: Let_def split: if_splits)
  moreover have "0 \<le> periods c now b * IncrPeriod c" using assms(1) by (simp add: conf_ok_def)
  moreover have "periods c now b * IncrPeriod c \<le> max 0 (now - lastCheck b)"
    using periods_elapsed [OF assms(1), of b now] periods_past [OF assms(1), of now b] by (cases "lastCheck b \<le> now") auto
  ultimately show "lastCheck b \<le> lastCheck b'" "lastCheck b' \<le> max now (lastCheck b)" by auto
qed

text \<open>How long an empty bucket takes to fill; a bucket untouched for that long is full again.\<close>

definition fill_time :: "BucketConf \<Rightarrow> duration" where
  "fill_time c = ((Burst c + Increment c - 1) div Increment c) * IncrPeriod c"

lemma fill_periods:
  assumes "conf_ok c" shows "Burst c \<le> Increment c * ((Burst c + Increment c - 1) div Increment c)"
proof -
  have "(Burst c + Increment c - 1) mod Increment c < Increment c" using assms by (simp add: conf_ok_def)
  then show ?thesis using minus_mod_eq_mult_div [of "Burst c + Increment c - 1" "Increment c"] by linarith
qed

lemma refill_full_after_fill_time:
  assumes c: "conf_ok c" "bucket_ok c b" and t: "is_i64 (now - lastCheck b)" "fill_time c \<le> now - lastCheck b"
  shows "\<exists>b'. refill c now b = Some b' \<and> tokens b' = Burst c"
proof -
  let ?n = "(Burst c + Increment c - 1) div Increment c"
  have P: "0 < IncrPeriod c" and I: "0 < Increment c" and B: "0 < Burst c" using c by (auto simp: conf_ok_def)
  have "0 \<le> fill_time c" using P I B by (simp add: fill_time_def pos_imp_zdiv_nonneg_iff)
  then have "periods c now b = (now - lastCheck b) div IncrPeriod c" using t by (simp add: periods_def max_def)
  moreover have "?n \<le> (now - lastCheck b) div IncrPeriod c"
    using t(2) P zdiv_mono1 [of "?n * IncrPeriod c" "now - lastCheck b" "IncrPeriod c"] by (simp add: fill_time_def)
  ultimately have "Increment c * ?n \<le> Increment c * periods c now b" using I by simp
  then have "Burst c \<le> tokens b + periods c now b * Increment c"
    using fill_periods [OF c(1)] c(2) by (simp add: bucket_ok_def mult.commute)
  then show ?thesis by (simp add: refill_eq [OF c])
qed

section \<open>Configuration\<close>

record GroupConf =
  gc_Burst :: int
  gc_Increment :: int
  gc_IncrPeriodSecs :: int

text \<open>\<open>Groups\<close> lists the map's entries in the order a \<open>range\<close> visits them.\<close>

record Conf =
  CleanupCycleSecs :: int
  CleanupOlderThanSecs :: int
  Groups :: "(string \<times> GroupConf) list"

datatype conf_error = NoGroup | EmptyGroupId | BadGroup string | BadCleanup

fun validate_groups :: "(string \<times> GroupConf) list \<Rightarrow> conf_error option" where
  "validate_groups [] = None"
| "validate_groups ((i, g) # gs) =
     (if i = [] then Some EmptyGroupId
      else if gc_Burst g < 1 \<or> gc_Increment g < 1 \<or> gc_IncrPeriodSecs g < 1 then Some (BadGroup i)
      else validate_groups gs)"

definition Validate :: "Conf \<Rightarrow> conf_error option" where
  "Validate c =
     (if Groups c = [] then Some NoGroup
      else case validate_groups (Groups c) of
        Some e \<Rightarrow> Some e
      | None \<Rightarrow> if CleanupCycleSecs c < 1 \<or> CleanupOlderThanSecs c < 1 then Some BadCleanup else None)"

definition BucketConfs :: "Conf \<Rightarrow> string \<Rightarrow> BucketConf option" where
  "BucketConfs c = map_of (map (\<lambda>(i, g).
      (i, \<lparr>Burst = gc_Burst g, Increment = gc_Increment g, IncrPeriod = i64 (gc_IncrPeriodSecs g * time_Second)\<rparr>)) (Groups c))"

definition CleanupCycle :: "Conf \<Rightarrow> duration" where
  "CleanupCycle c = i64 (CleanupCycleSecs c * time_Second)"

definition CleanupOlderThan :: "Conf \<Rightarrow> duration" where
  "CleanupOlderThan c = i64 (CleanupOlderThanSecs c * time_Second)"

lemma validate_groups_ok:
  "validate_groups gs = None \<Longrightarrow> (i, g) \<in> set gs \<Longrightarrow>
     i \<noteq> [] \<and> 1 \<le> gc_Burst g \<and> 1 \<le> gc_Increment g \<and> 1 \<le> gc_IncrPeriodSecs g"
  by (induction gs rule: validate_groups.induct) (auto split: if_splits)

section \<open>The in-memory limiter\<close>

type_synonym bucketMap = "string \<Rightarrow> Bucket option"

definition bm_load :: "bucketMap \<Rightarrow> string \<Rightarrow> Bucket option" where
  "bm_load m i = m i"

definition bm_loadOrStore :: "bucketMap \<Rightarrow> string \<Rightarrow> Bucket \<Rightarrow> Bucket \<times> bucketMap" where
  "bm_loadOrStore m i b = (case m i of Some b' \<Rightarrow> (b', m) | None \<Rightarrow> (b, m(i \<mapsto> b)))"

definition bm_remove :: "bucketMap \<Rightarrow> string \<Rightarrow> bucketMap" where
  "bm_remove m i = m(i := None)"

record BucketGroup =
  grp_conf :: BucketConf
  grp_buckets :: bucketMap

definition loadOrCreateBucket :: "BucketGroup \<Rightarrow> string \<Rightarrow> time \<Rightarrow> Bucket \<times> BucketGroup" where
  "loadOrCreateBucket g i now = (case bm_load (grp_buckets g) i of
      Some b \<Rightarrow> (b, g)
    | None \<Rightarrow>
        (let (b, m) = bm_loadOrStore (grp_buckets g) i \<lparr>tokens = Burst (grp_conf g), lastCheck = now\<rparr>
         in (b, g\<lparr>grp_buckets := m\<rparr>)))"

record LimiterInMemBuckets =
  lim_name :: string
  lim_lc :: lifecycle
  lim_cleanupCycle :: duration
  lim_cleanupOlderThan :: duration
  lim_groups :: "string \<Rightarrow> BucketGroup option"

definition NewLimiterInMemBucketsAs :: "string \<Rightarrow> duration \<Rightarrow> duration \<Rightarrow> LimiterInMemBuckets" where
  "NewLimiterInMemBucketsAs name cycle olderThan =
     \<lparr>lim_name = name, lim_lc = lc_new, lim_cleanupCycle = cycle, lim_cleanupOlderThan = olderThan,
      lim_groups = (\<lambda>_. None)\<rparr>"

definition lim_Start :: "bool \<Rightarrow> LimiterInMemBuckets \<Rightarrow> svc_error option \<times> LimiterInMemBuckets" where
  "lim_Start parent_done = lifted lim_lc (\<lambda>l s. s\<lparr>lim_lc := l\<rparr>) (lc_Start parent_done)"

definition lim_Stop :: "wait_case \<Rightarrow> LimiterInMemBuckets \<Rightarrow> svc_error option \<times> LimiterInMemBuckets" where
  "lim_Stop w = lifted lim_lc (\<lambda>l s. s\<lparr>lim_lc := l\<rparr>) (lc_Stop w)"

definition lim_Terminate :: "wait_case \<Rightarrow> LimiterInMemBuckets \<Rightarrow> svc_error option \<times> LimiterInMemBuckets" where
  "lim_Terminate w = lifted lim_lc (\<lambda>l s. s\<lparr>lim_lc := l\<rparr>) (lc_Terminate w)"

interpretation lims: lifecycle_part lim_lc "\<lambda>l s. s\<lparr>lim_lc := l\<rparr>"
  by unfold_locales simp_all

datatype throttle_error = NotReady State | ConfRequired | ConfNotPositive

definition HasGroup :: "LimiterInMemBuckets \<Rightarrow> string \<Rightarrow> bool" where
  "HasGroup s i = (lim_groups s i \<noteq> None)"

definition SetBucketGroup ::
    "string \<Rightarrow> BucketConf \<Rightarrow> LimiterInMemBuckets \<Rightarrow> throttle_error option \<times> LimiterInMemBuckets" where
  "SetBucketGroup i conf s =
     (if lc_state (lim_lc s) \<noteq> StateREADY then (Some (NotReady (lc_state (lim_lc s))), s)
      else (None, s\<lparr>lim_groups := (lim_groups s)(i \<mapsto> \<lparr>grp_conf = conf, grp_buckets = (\<lambda>_. None)\<rparr>)\<rparr>))"

text \<open>\<open>None\<close> is the panic of \<open>refill\<close>.\<close>

definition InMem_TryAdmit ::
    "string \<Rightarrow> string \<Rightarrow> time \<Rightarrow> LimiterInMemBuckets \<Rightarrow> (bool \<times> LimiterInMemBuckets) option" where
  "InMem_TryAdmit groupID bucketID now s = (case lim_groups s groupID of
      None \<Rightarrow> Some (False, s)
    | Some g \<Rightarrow>
        (let (b, g') = loadOrCreateBucket g bucketID now
         in case Bucket_TryAdmit (grp_conf g) now b of
              None \<Rightarrow> None
            | Some (v, b') \<Rightarrow>
                Some (v, s\<lparr>lim_groups := (lim_groups s)(groupID \<mapsto>
                   g'\<lparr>grp_buckets := (grp_buckets g')(bucketID \<mapsto> b')\<rparr>)\<rparr>)))"

definition Inspect :: "LimiterInMemBuckets \<Rightarrow> string \<Rightarrow> string set option" where
  "Inspect s gid = map_option (\<lambda>g. dom (grp_buckets g)) (lim_groups s gid)"

text \<open>The sweep looks at every bucket of every group; the removals are taken bucketwise.\<close>

definition sweep :: "duration \<Rightarrow> time \<Rightarrow> bucketMap \<Rightarrow> bucketMap" where
  "sweep olderThan now m = (\<lambda>i. case m i of
      None \<Rightarrow> None
    | Some b \<Rightarrow> if time_Sub now (lastCheck b) > olderThan then bm_remove m i i else m i)"

definition cleanup :: "time \<Rightarrow> LimiterInMemBuckets \<Rightarrow> LimiterInMemBuckets" where
  "cleanup now s = s\<lparr>lim_groups := (\<lambda>gid. map_option
      (\<lambda>g. g\<lparr>grp_buckets := sweep (lim_cleanupOlderThan s) now (grp_buckets g)\<rparr>) (lim_groups s gid))\<rparr>"

section \<open>The invariant and the rate\<close>

definition limiter_inv :: "LimiterInMemBuckets \<Rightarrow> bool" where
  "limiter_inv s \<longleftrightarrow> (\<forall>gid g. lim_groups s gid = Some g \<longrightarrow>
     conf_ok (grp_conf g) \<and> (\<forall>i b. grp_buckets g i = Some b \<longrightarrow> bucket_ok (grp_conf g) b))"

lemma limiter_invD:
  "limiter_inv s \<Longrightarrow> lim_groups s gid = Some g \<Longrightarrow> conf_ok (grp_conf g)"
  "limiter_inv s \<Longrightarrow> lim_groups s gid = Some g \<Longrightarrow> grp_buckets g i = Some b \<Longrightarrow> bucket_ok (grp_conf g) b"
  by (auto simp: limiter_inv_def)

definition bucket_or_full :: "BucketGroup \<Rightarrow> string \<Rightarrow> time \<Rightarrow> Bucket" where
  "bucket_or_full g i now = (case grp_buckets g i of
      Some b \<Rightarrow> b | None \<Rightarrow> \<lparr>tokens = Burst (grp_conf g), lastCheck = now\<rparr>)"

lemma bucket_or_full_ok: "limiter_inv s \<Longrightarrow> lim_groups s gid = Some g \<Longrightarrow> bucket_ok (grp_conf g) (bucket_or_full g i now)"
  using limiter_invD [of s gid g] by (auto simp: bucket_or_full_def bucket_ok_def conf_ok_def split: option.splits)

text \<open>The verdict is the bucket's, and only that bucket changes.\<close>

lemma InMem_TryAdmit_known:
  assumes "limiter_inv s" "lim_groups s gid = Some g"
  obtains v b' where "Bucket_TryAdmit (grp_conf g) now (bucket_or_full g i now) = Some (v, b')"
    "InMem_TryAdmit gid i now s =
       Some (v, s\<lparr>lim_groups := (lim_groups s)(gid \<mapsto> g\<lparr>grp_buckets := (grp_buckets g)(i \<mapsto> b')\<rparr>)\<rparr>)"
proof -
  obtain v b' where "Bucket_TryAdmit (grp_conf g) now (bucket_or_full g i now) = Some (v, b')"
    using Bucket_TryAdmit_total [OF limiter_invD(1) bucket_or_full_ok, OF assms assms] by blast
  with assms(2) that show thesis
    by (auto simp: InMem_TryAdmit_def loadOrCreateBucket_def bm_load_def bm_loadOrStore_def bucket_or_full_def
        split: option.splits)
qed

lemma InMem_TryAdmit_unknown: "lim_groups s gid = None \<Longrightarrow> InMem_TryAdmit gid i now s = Some (False, s)"
  by (simp add: InMem_TryAdmit_def)

lemma InMem_TryAdmit_total: "limiter_inv s \<Longrightarrow> \<exists>v s'. InMem_TryAdmit gid i now s = Some (v, s')"
  by (metis InMem_TryAdmit_known InMem_TryAdmit_unknown option.exhaust)

lemma limiter_inv_TryAdmit [gwf_inv]:
  assumes "limiter_inv s" "InMem_TryAdmit gid i now s = Some (v, s')"
  shows "limiter_inv s'"
proof (cases "lim_groups s gid")
  case None then show ?thesis using assms by (simp add: InMem_TryAdmit_unknown)
next
  case (Some g)
  obtain w b' where r: "Bucket_TryAdmit (grp_conf g) now (bucket_or_full g i now) = Some (w, b')"
      "InMem_TryAdmit gid i now s =
         Some (w, s\<lparr>lim_groups := (lim_groups s)(gid \<mapsto> g\<lparr>grp_buckets := (grp_buckets g)(i \<mapsto> b')\<rparr>)\<rparr>)"
    using InMem_TryAdmit_known [OF assms(1) Some] .
  have "bucket_ok (grp_conf g) b'"
    using bucket_ok_TryAdmit [OF limiter_invD(1) bucket_or_full_ok r(1)] assms(1) Some by blast
  then show ?thesis using assms r(2) Some by (auto simp: limiter_inv_def split: if_splits)
qed

lemma InMem_TryAdmit_other_group:
  "InMem_TryAdmit gid' i now s = Some (v, s') \<Longrightarrow> gid' \<noteq> gid \<Longrightarrow> lim_groups s' gid = lim_groups s gid"
  by (auto simp: InMem_TryAdmit_def Let_def split: option.splits prod.splits)

lemma sweep_subset: "sweep d now m i = Some b \<Longrightarrow> m i = Some b"
  by (auto simp: sweep_def bm_remove_def split: option.splits if_splits)

lemma limiter_inv_cleanup [gwf_inv]: "limiter_inv s \<Longrightarrow> limiter_inv (cleanup now s)"
  unfolding limiter_inv_def cleanup_def by (fastforce dest: sweep_subset)

lemma limiter_inv_SetBucketGroup [gwf_inv]:
  "limiter_inv s \<Longrightarrow> conf_ok c \<Longrightarrow> limiter_inv (snd (SetBucketGroup i c s))"
  by (auto simp: limiter_inv_def SetBucketGroup_def)

text \<open>A run of the limiter: admission requests and sweeps, counting the admissions of one bucket.\<close>

datatype lim_event = EAdmit string string time | ESweep time

fun event_time :: "lim_event \<Rightarrow> time" where
  "event_time (EAdmit _ _ t) = t"
| "event_time (ESweep t) = t"

fun lim_run :: "string \<Rightarrow> string \<Rightarrow> lim_event list \<Rightarrow> LimiterInMemBuckets \<Rightarrow> (nat \<times> LimiterInMemBuckets) option" where
  "lim_run gid i [] s = Some (0, s)"
| "lim_run gid i (EAdmit g j now # es) s = (case InMem_TryAdmit g j now s of
      None \<Rightarrow> None
    | Some (v, s') \<Rightarrow> (case lim_run gid i es s' of
        None \<Rightarrow> None
      | Some (n, s'') \<Rightarrow> Some (if v \<and> g = gid \<and> j = i then n + 1 else n, s'')))"
| "lim_run gid i (ESweep now # es) s = lim_run gid i es (cleanup now s)"

text \<open>What a bucket, present or not, can admit until \<open>t1\<close> when the time is \<open>t\<close>.\<close>

definition room :: "BucketConf \<Rightarrow> time \<Rightarrow> time \<Rightarrow> Bucket option \<Rightarrow> int" where
  "room c t1 t b = (case b of
      None \<Rightarrow> Burst c + Increment c * ((t1 - t) div IncrPeriod c)
    | Some b \<Rightarrow> potential c t1 b)"

lemma room_later: "conf_ok c \<Longrightarrow> t \<le> t' \<Longrightarrow> room c t1 t' b \<le> room c t1 t b"
  by (auto simp: room_def conf_ok_def intro: zdiv_mono1 split: option.splits)

lemma room_nonneg:
  assumes "conf_ok c" "t \<le> t1" "\<And>b'. b = Some b' \<Longrightarrow> bucket_ok c b' \<and> lastCheck b' \<le> t1"
  shows "0 \<le> room c t1 t b"
proof -
  have P: "0 < IncrPeriod c" "0 < Increment c" "0 < Burst c" using assms(1) by (auto simp: conf_ok_def)
  then have "0 \<le> Increment c * ((t1 - l) div IncrPeriod c)" if "l \<le> t1" for l
    using that by (simp add: pos_imp_zdiv_nonneg_iff)
  then show ?thesis using assms(2,3) P
    by (auto simp: room_def potential_def bucket_ok_def split: option.splits intro: add_nonneg_nonneg)
qed

text \<open>Dropping a bucket that has been idle for its fill time gives nobody more than it already had.\<close>

lemma room_sweep:
  assumes c: "conf_ok c" and b: "bucket_ok c b" and old: "fill_time c \<le> olderThan" "olderThan < time_Sub now (lastCheck b)"
  shows "room c t1 now None \<le> room c t1 now (Some b)"
proof -
  let ?n = "(Burst c + Increment c - 1) div Increment c"
  have P: "0 < IncrPeriod c" and I: "0 < Increment c" and B: "0 < Burst c" using c by (auto simp: conf_ok_def)
  have "0 \<le> fill_time c" using P I B by (simp add: fill_time_def pos_imp_zdiv_nonneg_iff)
  then have "0 \<le> time_Sub now (lastCheck b)" using old by linarith
  then have "?n * IncrPeriod c \<le> now - lastCheck b"
    using old time_Sub_le [of now "lastCheck b"] by (simp add: fill_time_def)
  then have "(t1 - now + ?n * IncrPeriod c) div IncrPeriod c \<le> (t1 - lastCheck b) div IncrPeriod c"
    using P by (intro zdiv_mono1) auto
  then have "(t1 - now) div IncrPeriod c + ?n \<le> (t1 - lastCheck b) div IncrPeriod c" using P by simp
  then have "Increment c * ((t1 - now) div IncrPeriod c) + Increment c * ?n \<le> Increment c * ((t1 - lastCheck b) div IncrPeriod c)"
    using I by (metis distrib_left mult_left_mono order_less_imp_le)
  then show ?thesis using fill_periods [OF c] b by (simp add: room_def potential_def bucket_ok_def)
qed

definition lim_bucket :: "LimiterInMemBuckets \<Rightarrow> string \<Rightarrow> string \<Rightarrow> Bucket option" where
  "lim_bucket s gid i = Option.bind (lim_groups s gid) (\<lambda>g. grp_buckets g i)"

lemma lim_bucket_cleanup:
  "lim_bucket (cleanup now s) gid i = Option.bind (lim_bucket s gid i)
     (\<lambda>b. if time_Sub now (lastCheck b) > lim_cleanupOlderThan s then None else Some b)"
  by (cases "lim_groups s gid") (auto simp: lim_bucket_def cleanup_def sweep_def bm_remove_def split: option.splits)

text \<open>One request: it costs its own bucket one token's worth of room when admitted, and no other bucket anything.\<close>

lemma room_TryAdmit:
  assumes inv: "limiter_inv s" and g: "lim_groups s gid = Some g" and c: "grp_conf g = c"
    and r: "InMem_TryAdmit gid' j now s = Some (v, s')" and t: "t \<le> now" "now \<le> t1"
    and last: "\<And>b. lim_bucket s gid i = Some b \<Longrightarrow> lastCheck b \<le> t1"
  shows "room c t1 now (lim_bucket s' gid i) + (if v \<and> gid' = gid \<and> j = i then 1 else 0) \<le> room c t1 t (lim_bucket s gid i)"
    and "\<And>b. lim_bucket s' gid i = Some b \<Longrightarrow> lastCheck b \<le> t1"
    and "\<exists>g'. lim_groups s' gid = Some g' \<and> grp_conf g' = c"
proof -
  have ok: "conf_ok c" using limiter_invD(1) [OF inv g] c by simp
  show "room c t1 now (lim_bucket s' gid i) + (if v \<and> gid' = gid \<and> j = i then 1 else 0) \<le> room c t1 t (lim_bucket s gid i)"
    and "\<And>b. lim_bucket s' gid i = Some b \<Longrightarrow> lastCheck b \<le> t1"
    and "\<exists>g'. lim_groups s' gid = Some g' \<and> grp_conf g' = c"
  proof (atomize (full), cases "gid' = gid")
    case True
    let ?b = "bucket_or_full g j now"
    obtain w b' where w: "Bucket_TryAdmit c now ?b = Some (w, b')"
        "InMem_TryAdmit gid j now s =
           Some (w, s\<lparr>lim_groups := (lim_groups s)(gid \<mapsto> g\<lparr>grp_buckets := (grp_buckets g)(j \<mapsto> b')\<rparr>)\<rparr>)"
      using InMem_TryAdmit_known [OF inv g, of now j] c by metis
    have b: "bucket_ok c ?b" using bucket_or_full_ok [OF inv g] c by simp
    have s': "v = w" "lim_bucket s' gid i = (if j = i then Some b' else lim_bucket s gid i)"
        "\<exists>g'. lim_groups s' gid = Some g' \<and> grp_conf g' = c"
      using r True w(2) g c by (auto simp: lim_bucket_def)
    show "(room c t1 now (lim_bucket s' gid i) + (if v \<and> gid' = gid \<and> j = i then 1 else 0) \<le> room c t1 t (lim_bucket s gid i))
       \<and> (\<forall>b. lim_bucket s' gid i = Some b \<longrightarrow> lastCheck b \<le> t1) \<and> (\<exists>g'. lim_groups s' gid = Some g' \<and> grp_conf g' = c)"
    proof (cases "j = i")
      case False then show ?thesis using s' last room_later [OF ok t(1)] by simp
    next
      case ji: True
      have "potential c t1 ?b \<le> room c t1 now (lim_bucket s gid i)"
        using ji g c by (auto simp: bucket_or_full_def room_def lim_bucket_def potential_def split: option.splits)
      also have "\<dots> \<le> room c t1 t (lim_bucket s gid i)" using room_later [OF ok t(1)] .
      finally have "potential c t1 b' + (if v then 1 else 0) \<le> room c t1 t (lim_bucket s gid i)"
        using potential_TryAdmit [OF ok b w(1), of t1] s'(1) by simp
      moreover have "lastCheck ?b \<le> t1"
        using last g t(2) ji by (auto simp: bucket_or_full_def lim_bucket_def split: option.splits)
      then have "lastCheck b' \<le> t1" using lastCheck_TryAdmit(2) [OF ok b w(1)] t(2) by auto
      ultimately show ?thesis using s' ji True by (simp add: room_def)
    qed
  next
    case False
    have "lim_groups s' gid = lim_groups s gid" using InMem_TryAdmit_other_group [OF r False] .
    then show "(room c t1 now (lim_bucket s' gid i) + (if v \<and> gid' = gid \<and> j = i then 1 else 0) \<le> room c t1 t (lim_bucket s gid i))
       \<and> (\<forall>b. lim_bucket s' gid i = Some b \<longrightarrow> lastCheck b \<le> t1) \<and> (\<exists>g'. lim_groups s' gid = Some g' \<and> grp_conf g' = c)"
      using last room_later [OF ok t(1)] False g c by (simp add: lim_bucket_def)
  qed
qed

lemma lim_run_room:
  assumes "limiter_inv s" "\<exists>g. lim_groups s gid = Some g \<and> grp_conf g = c" "fill_time c \<le> lim_cleanupOlderThan s"
    and "sorted (t # map event_time es)" "\<forall>e\<in>set es. event_time e \<le> t1" "t \<le> t1"
    and "\<And>b. lim_bucket s gid i = Some b \<Longrightarrow> lastCheck b \<le> t1"
  shows "\<exists>n s'. lim_run gid i es s = Some (n, s') \<and> int n \<le> room c t1 t (lim_bucket s gid i)"
  using assms
proof (induction es arbitrary: s t)
  case Nil
  then obtain g where g: "lim_groups s gid = Some g" "grp_conf g = c" by blast
  have "conf_ok c" using limiter_invD(1) [OF Nil.prems(1) g(1)] g(2) by simp
  moreover have "bucket_ok c b" if "lim_bucket s gid i = Some b" for b
    using that g limiter_invD(2) [OF Nil.prems(1) g(1)] by (simp add: lim_bucket_def)
  ultimately show ?case using room_nonneg [of c t t1 "lim_bucket s gid i"] Nil.prems(6,7) by simp
next
  case (Cons e es)
  obtain g where g: "lim_groups s gid = Some g" "grp_conf g = c" using Cons.prems(2) by blast
  have ok: "conf_ok c" using limiter_invD(1) [OF Cons.prems(1) g(1)] g(2) by simp
  show ?case
  proof (cases e)
    case (EAdmit gid' j now)
    have t: "t \<le> now" "now \<le> t1" "sorted (now # map event_time es)" using Cons.prems(4,5) EAdmit by auto
    obtain v s' where r: "InMem_TryAdmit gid' j now s = Some (v, s')"
      using InMem_TryAdmit_total [OF Cons.prems(1)] by blast
    have older: "lim_cleanupOlderThan s' = lim_cleanupOlderThan s"
      using r by (auto simp: InMem_TryAdmit_def Let_def split: option.splits prod.splits)
    note step = room_TryAdmit [OF Cons.prems(1) g r t(1,2), of i, OF Cons.prems(7)]
    obtain n s'' where "lim_run gid i es s' = Some (n, s'')" "int n \<le> room c t1 now (lim_bucket s' gid i)"
      using Cons.IH [OF limiter_inv_TryAdmit [OF Cons.prems(1) r] step(3) _ t(3) _ t(2) step(2)] Cons.prems(3,5) older
      by auto
    then show ?thesis using step(1) EAdmit r by (auto split: if_splits)
  next
    case (ESweep now)
    have t: "t \<le> now" "now \<le> t1" "sorted (now # map event_time es)" using Cons.prems(4,5) ESweep by auto
    have b: "bucket_ok c b" if "lim_bucket s gid i = Some b" for b
      using that g limiter_invD(2) [OF Cons.prems(1) g(1)] by (simp add: lim_bucket_def)
    have "room c t1 now (lim_bucket (cleanup now s) gid i) \<le> room c t1 now (lim_bucket s gid i)"
      using room_sweep [OF ok b Cons.prems(3)] by (auto simp: lim_bucket_cleanup split: option.splits bind_splits)
    also have "\<dots> \<le> room c t1 t (lim_bucket s gid i)" using room_later [OF ok t(1)] .
    finally have le: "room c t1 now (lim_bucket (cleanup now s) gid i) \<le> room c t1 t (lim_bucket s gid i)" .
    have "\<exists>n s'. lim_run gid i es (cleanup now s) = Some (n, s') \<and> int n \<le> room c t1 now (lim_bucket (cleanup now s) gid i)"
    proof (rule Cons.IH [OF limiter_inv_cleanup [OF Cons.prems(1)] _ _ t(3) _ t(2)])
      show "\<exists>g. lim_groups (cleanup now s) gid = Some g \<and> grp_conf g = c" using g by (simp add: cleanup_def)
      show "lastCheck b \<le> t1" if "lim_bucket (cleanup now s) gid i = Some b" for b
        using that Cons.prems(7) by (auto simp: lim_bucket_cleanup split: bind_splits if_splits)
    qed (use Cons.prems(3,5) in \<open>auto simp: cleanup_def\<close>)
    then show ?thesis using le ESweep by fastforce
  qed
qed

section \<open>Properties\<close>



text \<open>The bound of the group is lost when sweeps come sooner than the fill time, which
  \<open>Conf.Validate\<close> allows: with one token per hour and buckets swept after a minute, a caller who
  spent its token is admitted again 62 seconds later, since the sweep looks at the refill moment,
  which does not move while the bucket is in use.\<close>

theorem inmem_cleanup_forgets_spent_tokens:
  "let conf = \<lparr>CleanupCycleSecs = 60, CleanupOlderThanSecs = 60,
               Groups = [(''login'', \<lparr>gc_Burst = 1, gc_Increment = 1, gc_IncrPeriodSecs = 3600\<rparr>)]\<rparr>;
       c = the (BucketConfs conf ''login'');
       s = snd (SetBucketGroup ''login'' c (NewLimiterInMemBucketsAs ''T'' (CleanupCycle conf) (CleanupOlderThan conf)));
       t = 62 * time_Second
   in Validate conf = None \<and>
      map_option fst (lim_run ''login'' ''ip''
        [EAdmit ''login'' ''ip'' 0, ESweep (61 * time_Second), EAdmit ''login'' ''ip'' t] s) = Some 2 \<and>
      Burst c + Increment c * (t div IncrPeriod c) = 1"
  by (simp add: Let_def Validate_def BucketConfs_def CleanupOlderThan_def CleanupCycle_def time_Second_def i64_def
      SetBucketGroup_def NewLimiterInMemBucketsAs_def lc_new_def InMem_TryAdmit_def loadOrCreateBucket_def bm_load_def
      bm_loadOrStore_def Bucket_TryAdmit_def refill_def time_Sub_def cleanup_def sweep_def bm_remove_def)

text \<open>A bucket untouched for its group's fill time is full again, so forgetting it then and
  creating it full on the next request are the same thing.\<close>

theorem bucket_full_after_fill_time:
  assumes "conf_ok c" and "bucket_ok c b" and "is_i64 (now - lastCheck b)" and "fill_time c \<le> now - lastCheck b"
  shows "\<exists>b'. refill c now b = Some b' \<and> tokens b' = Burst c"
  using assms by (rule refill_full_after_fill_time)

theorem bucket_full_after_fill_time_witness:
  "\<exists>b'. refill \<lparr>Burst = 5, Increment = 2, IncrPeriod = 10\<rparr> 30 \<lparr>tokens = 0, lastCheck = 0\<rparr> = Some b' \<and> tokens b' = 5"
  using bucket_full_after_fill_time [of "\<lparr>Burst = 5, Increment = 2, IncrPeriod = 10\<rparr>" "\<lparr>tokens = 0, lastCheck = 0\<rparr>" 30]
  by (simp add: conf_ok_def bucket_ok_def is_i64_def fill_time_def)

end
