(* ===== verification/Clock.thy ===== *)
theory Clock
  imports Gwf_Prelude
begin

text \<open>
  \<open>gw/clock\<close>: a clock that advances in ticks of a fixed precision. \<open>time_Truncate\<close> is
  \<open>Time.Truncate\<close>, which rounds down to a multiple of the tick counted from Go's zero time.
\<close>

definition time_zero :: time where "time_zero = - 62135596800 * time_Second"

definition time_Truncate :: "time \<Rightarrow> duration \<Rightarrow> time" where
  "time_Truncate t d = (if d \<le> 0 then t else t - (t - time_zero) mod d)"

lemma time_Truncate_bounds:
  "0 < p \<Longrightarrow> time_Truncate t p \<le> t" "0 < p \<Longrightarrow> t < time_Truncate t p + p"
  using pos_mod_bound [of p "t - time_zero"] by (simp_all add: time_Truncate_def)

lemma time_Truncate_eq: "0 < p \<Longrightarrow> time_Truncate t p = time_zero + p * ((t - time_zero) div p)"
  by (simp add: time_Truncate_def minus_mult_div_eq_mod [symmetric])

lemma time_Truncate_mono: "0 < p \<Longrightarrow> s \<le> t \<Longrightarrow> time_Truncate s p \<le> time_Truncate t p"
  by (simp add: time_Truncate_eq zdiv_mono1)

lemma time_Truncate_dvd: "0 < p \<Longrightarrow> p dvd time_Truncate t p - time_Truncate s p"
  by (simp add: time_Truncate_eq right_diff_distrib [symmetric])


record Clock = precision :: duration

text \<open>\<open>None\<close> is the panic of \<open>New\<close>.\<close>

definition New :: "duration \<Rightarrow> Clock option" where
  "New p = (if p \<le> 0 then None else Some \<lparr>precision = p\<rparr>)"

definition Read :: "Clock \<Rightarrow> time \<Rightarrow> time" where
  "Read c t = time_Truncate t (precision c)"

definition ReadBetween :: "Clock \<Rightarrow> time \<Rightarrow> time \<Rightarrow> duration" where
  "ReadBetween c t0 t1 = time_Sub (Read c t1) (Read c t0)"

definition ReadDurationFrom :: "Clock \<Rightarrow> time \<Rightarrow> duration \<Rightarrow> duration" where
  "ReadDurationFrom c t0 d = ReadBetween c t0 (t0 + d)"

text \<open>
  What a stretch of \<open>d\<close> reads as on a clock of precision \<open>P\<close>, wherever it starts: whole ticks,
  less than one tick away from \<open>d\<close>, none for the empty stretch.
\<close>

definition span_ok :: "duration \<Rightarrow> duration \<Rightarrow> duration \<Rightarrow> bool" where
  "span_ok P d L \<longleftrightarrow> 0 \<le> L \<and> P dvd L \<and> d - P < L \<and> L < d + P \<and> (d = 0 \<longrightarrow> L = 0)"

lemma ReadDurationFrom_eq:
  assumes "0 < precision c" "0 \<le> d" "is_i64 (d + precision c)"
  shows "ReadDurationFrom c t d = Read c (t + d) - Read c t"
proof -
  let ?P = "precision c"
  have "0 \<le> Read c (t + d) - Read c t"
    using time_Truncate_mono [OF assms(1), of t "t + d"] assms(2) by (simp add: Read_def)
  moreover have "Read c (t + d) - Read c t < d + ?P"
    using time_Truncate_bounds [OF assms(1), of "t + d"] time_Truncate_bounds [OF assms(1), of t] by (simp add: Read_def)
  ultimately have "is_i64 (Read c (t + d) - Read c t)" using assms(3) by (simp add: is_i64_def)
  then show ?thesis by (simp add: ReadDurationFrom_def ReadBetween_def)
qed

lemma span_ok_ReadDurationFrom:
  assumes "0 < precision c" "0 \<le> d" "is_i64 (d + precision c)"
  shows "span_ok (precision c) d (ReadDurationFrom c t d)"
proof -
  note b = time_Truncate_bounds [OF assms(1)]
  have "0 \<le> Read c (t + d) - Read c t"
    using time_Truncate_mono [OF assms(1), of t "t + d"] assms(2) by (simp add: Read_def)
  moreover have "precision c dvd Read c (t + d) - Read c t"
    using time_Truncate_dvd [OF assms(1)] by (simp add: Read_def)
  moreover have "d - precision c < Read c (t + d) - Read c t" "Read c (t + d) - Read c t < d + precision c"
    using b [of "t + d"] b [of t] by (simp_all add: Read_def)
  ultimately show ?thesis by (simp add: span_ok_def ReadDurationFrom_eq [OF assms])
qed

lemma span_ok_pos: "span_ok P d L \<Longrightarrow> 0 < P \<Longrightarrow> P \<le> d \<Longrightarrow> P \<le> L"
  by (auto simp: span_ok_def zdvd_imp_le)

end
