(* ===== verification/KVDB_Contract.thy ===== *)
theory KVDB_Contract
  imports Clock "HOL-Library.AList"
begin

text \<open>
  \<open>gw/kvdbs/db.go\<close>: what a key-value database promises its callers. A store is a clock reading
  and the entries it holds, each a value with the last clock mark it is held for; \<open>kv_get\<close> is
  the entry a caller can see. For every method of the interface there is one function \<open>eff_m\<close>
  saying what its one atomic act does to the store and answers. A method with a lifetime takes
  the span \<open>L\<close> the implementation's clock gives the requested duration.

  \<open>'st kvdb\<close> is the interface as its clients hold it. The locale \<open>kvdb_store\<close> is the promise: each
  call runs its act at one moment between call and return, on whatever store the other clients
  have left (\<open>env\<close>), and a call that returns an error ran its act or did not.
\<close>

section \<open>Stores\<close>

datatype kv_value =
    VStr string
  | VList "string list"
  | VHash "(string \<times> string) list"

type_synonym kv_entry = "kv_value \<times> time option"

record kvst =
  kv_clock :: time
  kv_data :: "string \<Rightarrow> kv_entry option"

datatype kv_error =
    NegativeLifetime
  | SpansNothing
  | BadCap
  | WrongType
  | NotInteger
  | BadArguments
  | Unreachable

datatype TTLState = TTLKeyNotFound | TTLPersistent | TTLExpiring

definition kv_get :: "kvst \<Rightarrow> string \<Rightarrow> kv_entry option" where
  "kv_get s k = (case kv_data s k of
      None \<Rightarrow> None
    | Some (v, None) \<Rightarrow> Some (v, None)
    | Some (v, Some mark) \<Rightarrow> if kv_clock s \<le> mark then Some (v, Some mark) else None)"

definition kv_put :: "string \<Rightarrow> kv_entry \<Rightarrow> kvst \<Rightarrow> kvst" where
  "kv_put k e s = s\<lparr>kv_data := (kv_data s)(k \<mapsto> e)\<rparr>"

definition kv_del :: "string \<Rightarrow> kvst \<Rightarrow> kvst" where
  "kv_del k s = s\<lparr>kv_data := (kv_data s)(k := None)\<rparr>"

definition kv_mark :: "kvst \<Rightarrow> duration \<Rightarrow> time option" where
  "kv_mark s L = Some (kv_clock s + L)"

lemma kv_get_put [simp]:
  "kv_get (kv_put k (v, m) s) k' =
     (if k' = k then (case m of None \<Rightarrow> Some (v, m) | Some d \<Rightarrow> if kv_clock s \<le> d then Some (v, m) else None)
      else kv_get s k')"
  by (auto simp: kv_get_def kv_put_def split: option.splits)

lemma kv_get_del [simp]: "kv_get (kv_del k s) k' = (if k' = k then None else kv_get s k')"
  by (auto simp: kv_get_def kv_del_def split: option.splits)

lemma kv_put_put [simp]: "kv_put k e (kv_put k e' s) = kv_put k e s"
  by (simp add: kv_put_def)

lemma kv_put_same: "kv_get s k = Some e \<Longrightarrow> kv_put k e s = s"
  by (cases s) (auto simp: kv_get_def kv_put_def split: option.splits if_splits)

lemma kv_mark_put [simp]: "kv_mark (kv_put k e s) L = kv_mark s L"
  by (simp add: kv_mark_def kv_put_def)

lemma kv_clock_upd [simp]: "kv_clock (kv_put k e s) = kv_clock s" "kv_clock (kv_del k s) = kv_clock s"
  by (simp_all add: kv_put_def kv_del_def)

text \<open>An entry that was read is not past its mark.\<close>

lemma kv_get_mark: "kv_get s k = Some (v, Some d) \<Longrightarrow> kv_clock s \<le> d"
  by (auto simp: kv_get_def split: option.splits if_splits)

text \<open>The value under a key, without its lifetime.\<close>

definition kv_val :: "kvst \<Rightarrow> string \<Rightarrow> kv_value option" where
  "kv_val s k = map_option fst (kv_get s k)"

lemma kv_val_NoneI [simp]: "kv_get s k = None \<Longrightarrow> kv_val s k = None"
  by (simp add: kv_val_def)

lemma kv_val_SomeD: "kv_val s k = Some x \<Longrightarrow> \<exists>m. kv_get s k = Some (x, m)"
  by (auto simp: kv_val_def)

lemma kv_val_Some: "kv_get s k = Some (x, m) \<Longrightarrow> kv_val s k = Some x"
  by (simp add: kv_val_def)

lemma kv_val_put_keep: "kv_get s k = Some (y, m) \<Longrightarrow> kv_val (kv_put k (x, m) s) k = Some x"
  by (auto simp: kv_val_def split: option.splits dest: kv_get_mark)

lemma kv_val_put_mark: "0 \<le> L \<Longrightarrow> kv_val (kv_put k (x, kv_mark s L) s) k = Some x"
  by (simp add: kv_val_def kv_mark_def)

section \<open>The acts of the interface\<close>

type_synonym 'a kv_out = "(kv_error + 'a) \<times> kvst"

subsection \<open>Key operations\<close>

definition eff_Exists :: "string \<Rightarrow> kvst \<Rightarrow> bool kv_out" where
  "eff_Exists k s = (Inr (kv_get s k \<noteq> None), s)"

definition eff_TTL :: "string \<Rightarrow> kvst \<Rightarrow> (duration \<times> TTLState) kv_out" where
  "eff_TTL k s = (Inr (case kv_get s k of
      None \<Rightarrow> (0, TTLKeyNotFound)
    | Some (_, None) \<Rightarrow> (0, TTLPersistent)
    | Some (_, Some mark) \<Rightarrow> (mark - kv_clock s, TTLExpiring)), s)"

fun eff_Delete :: "string list \<Rightarrow> kvst \<Rightarrow> int kv_out" where
  "eff_Delete [] s = (Inr 0, s)"
| "eff_Delete (k # ks) s =
     (case eff_Delete ks (kv_del k s) of
        (Inr n, s') \<Rightarrow> (Inr (if kv_get s k \<noteq> None then n + 1 else n), s')
      | (Inl e, s') \<Rightarrow> (Inl e, s'))"

definition eff_Expire :: "string \<Rightarrow> duration \<Rightarrow> kvst \<Rightarrow> bool kv_out" where
  "eff_Expire k L s = (case kv_get s k of
      None \<Rightarrow> (Inr False, s)
    | Some (v, _) \<Rightarrow> (Inr True, if L \<le> 0 then kv_del k s else kv_put k (v, kv_mark s L) s))"

definition eff_Persist :: "string \<Rightarrow> kvst \<Rightarrow> bool kv_out" where
  "eff_Persist k s = (case kv_get s k of
      Some (v, Some _) \<Rightarrow> (Inr True, kv_put k (v, None) s)
    | _ \<Rightarrow> (Inr False, s))"

subsection \<open>Single values\<close>

definition eff_GetValue :: "string \<Rightarrow> kvst \<Rightarrow> string option kv_out" where
  "eff_GetValue k s = (case kv_get s k of
      None \<Rightarrow> (Inr None, s)
    | Some (VStr x, _) \<Rightarrow> (Inr (Some x), s)
    | Some _ \<Rightarrow> (Inl WrongType, s))"

definition eff_SetValue :: "string \<Rightarrow> string \<Rightarrow> duration \<Rightarrow> kvst \<Rightarrow> unit kv_out" where
  "eff_SetValue k x L s = (Inr (), if L \<le> 0 then kv_del k s else kv_put k (VStr x, kv_mark s L) s)"

definition eff_SetValuePersistent :: "string \<Rightarrow> string \<Rightarrow> kvst \<Rightarrow> unit kv_out" where
  "eff_SetValuePersistent k x s = (Inr (), kv_put k (VStr x, None) s)"

definition eff_SetValueIfNotExists :: "string \<Rightarrow> string \<Rightarrow> duration \<Rightarrow> kvst \<Rightarrow> bool kv_out" where
  "eff_SetValueIfNotExists k x L s =
     (if L \<le> 0 then (Inl SpansNothing, s)
      else if kv_get s k \<noteq> None then (Inr False, s)
      else (Inr True, kv_put k (VStr x, kv_mark s L) s))"

definition eff_SetValuePersistentIfNotExists :: "string \<Rightarrow> string \<Rightarrow> kvst \<Rightarrow> bool kv_out" where
  "eff_SetValuePersistentIfNotExists k x s =
     (if kv_get s k \<noteq> None then (Inr False, s) else (Inr True, kv_put k (VStr x, None) s))"

definition eff_DeleteValueIfEquals :: "string \<Rightarrow> string \<Rightarrow> kvst \<Rightarrow> bool kv_out" where
  "eff_DeleteValueIfEquals k expected s = (case kv_get s k of
      None \<Rightarrow> (Inr False, s)
    | Some (VStr x, _) \<Rightarrow> if x = expected then (Inr True, kv_del k s) else (Inr False, s)
    | Some _ \<Rightarrow> (Inl WrongType, s))"

definition eff_SetValueIfEquals :: "string \<Rightarrow> string \<Rightarrow> string \<Rightarrow> kvst \<Rightarrow> bool kv_out" where
  "eff_SetValueIfEquals k expected x' s = (case kv_get s k of
      None \<Rightarrow> (Inr False, s)
    | Some (VStr x, m) \<Rightarrow> if x = expected then (Inr True, kv_put k (VStr x', m) s) else (Inr False, s)
    | Some _ \<Rightarrow> (Inl WrongType, s))"

definition eff_IncrementValuePersistent :: "string \<Rightarrow> int \<Rightarrow> kvst \<Rightarrow> int kv_out" where
  "eff_IncrementValuePersistent k delta s = (case kv_get s k of
      None \<Rightarrow> (Inr delta, kv_put k (VStr (Itoa delta), None) s)
    | Some (VStr x, m) \<Rightarrow> (case ParseInt x of
          Some n \<Rightarrow> if is_i64 (n + delta) then (Inr (n + delta), kv_put k (VStr (Itoa (n + delta)), m) s)
                    else (Inl NotInteger, s)
        | None \<Rightarrow> (Inl NotInteger, s))
    | Some _ \<Rightarrow> (Inl WrongType, s))"

definition eff_IncrementValue :: "string \<Rightarrow> int \<Rightarrow> duration \<Rightarrow> kvst \<Rightarrow> int kv_out" where
  "eff_IncrementValue k delta L s =
     (if L \<le> 0 then (Inl SpansNothing, s)
      else case eff_IncrementValuePersistent k delta s of
        (Inl e, s') \<Rightarrow> (Inl e, s')
      | (Inr n, s') \<Rightarrow> (case kv_get s' k of
            Some (v, None) \<Rightarrow> (Inr n, kv_put k (v, kv_mark s' L) s')
          | _ \<Rightarrow> (Inr n, s')))"

definition eff_GetValueAsInt64 :: "string \<Rightarrow> kvst \<Rightarrow> int option kv_out" where
  "eff_GetValueAsInt64 k s = (case kv_get s k of
      None \<Rightarrow> (Inr None, s)
    | Some (VStr x, _) \<Rightarrow> (case ParseInt x of Some n \<Rightarrow> (Inr (Some n), s) | None \<Rightarrow> (Inl NotInteger, s))
    | Some _ \<Rightarrow> (Inl WrongType, s))"

subsection \<open>Lists\<close>

text \<open>A list or hash that becomes empty is a key that is gone.\<close>

definition kv_put_list :: "string \<Rightarrow> string list \<Rightarrow> time option \<Rightarrow> kvst \<Rightarrow> kvst" where
  "kv_put_list k xs m s = (if xs = [] then kv_del k s else kv_put k (VList xs, m) s)"

definition as_list :: "kv_entry option \<Rightarrow> (kv_error, string list \<times> time option) result" where
  "as_list e = (case e of None \<Rightarrow> Inr ([], None) | Some (VList xs, m) \<Rightarrow> Inr (xs, m) | Some _ \<Rightarrow> Inl WrongType)"

text \<open>0-based, inclusive ends; a negative index counts from the tail.\<close>

definition list_slice :: "int \<Rightarrow> int \<Rightarrow> 'a list \<Rightarrow> 'a list" where
  "list_slice start stop xs =
     (let n = int (length xs);
          a = max 0 (if start < 0 then start + n else start);
          b = min (n - 1) (if stop < 0 then stop + n else stop)
      in if a > b then [] else take (nat (b - a + 1)) (drop (nat a) xs))"

fun list_remove :: "nat \<Rightarrow> 'a \<Rightarrow> 'a list \<Rightarrow> 'a list" where
  "list_remove 0 x ys = ys"
| "list_remove (Suc n) x [] = []"
| "list_remove (Suc n) x (y # ys) = (if y = x then list_remove n x ys else y # list_remove (Suc n) x ys)"

definition eff_ListPush :: "string \<Rightarrow> string \<Rightarrow> kvst \<Rightarrow> unit kv_out" where
  "eff_ListPush k x s = (case as_list (kv_get s k) of
      Inl e \<Rightarrow> (Inl e, s)
    | Inr (xs, m) \<Rightarrow> (Inr (), kv_put_list k (xs @ [x]) m s))"

definition eff_ListPop :: "string \<Rightarrow> kvst \<Rightarrow> string option kv_out" where
  "eff_ListPop k s = (case as_list (kv_get s k) of
      Inl e \<Rightarrow> (Inl e, s)
    | Inr ([], m) \<Rightarrow> (Inr None, s)
    | Inr (x # xs, m) \<Rightarrow> (Inr (Some x), kv_put_list k xs m s))"

definition eff_ListLen :: "string \<Rightarrow> kvst \<Rightarrow> int kv_out" where
  "eff_ListLen k s = (case as_list (kv_get s k) of Inl e \<Rightarrow> (Inl e, s) | Inr (xs, m) \<Rightarrow> (Inr (int (length xs)), s))"

definition eff_ListRange :: "string \<Rightarrow> int \<Rightarrow> int \<Rightarrow> kvst \<Rightarrow> string list kv_out" where
  "eff_ListRange k start stop s = (case as_list (kv_get s k) of
      Inl e \<Rightarrow> (Inl e, s)
    | Inr (xs, m) \<Rightarrow> (Inr (list_slice start stop xs), s))"

text \<open>\<open>cnt = 0\<close> removes every duplicate, a positive \<open>cnt\<close> that many from the head, a negative one from the tail.\<close>

definition eff_ListRemove :: "string \<Rightarrow> int \<Rightarrow> string \<Rightarrow> kvst \<Rightarrow> int kv_out" where
  "eff_ListRemove k cnt x s = (case as_list (kv_get s k) of
      Inl e \<Rightarrow> (Inl e, s)
    | Inr (xs, m) \<Rightarrow>
        (let ys = (if cnt = 0 then removeAll x xs
                   else if cnt > 0 then list_remove (nat cnt) x xs
                   else rev (list_remove (nat (- cnt)) x (rev xs)))
         in (Inr (int (length xs) - int (length ys)), if xs = [] then s else kv_put_list k ys m s)))"

definition eff_ListTrim :: "string \<Rightarrow> int \<Rightarrow> int \<Rightarrow> kvst \<Rightarrow> unit kv_out" where
  "eff_ListTrim k start stop s = (case as_list (kv_get s k) of
      Inl e \<Rightarrow> (Inl e, s)
    | Inr (xs, m) \<Rightarrow> (Inr (), if xs = [] then s else kv_put_list k (list_slice start stop xs) m s))"

definition eff_ListPushTrimOverCap :: "string \<Rightarrow> string \<Rightarrow> int \<Rightarrow> duration \<Rightarrow> kvst \<Rightarrow> string list kv_out" where
  "eff_ListPushTrimOverCap k x capMax L s =
     (if capMax \<le> 0 then (Inl BadCap, s)
      else if L \<le> 0 then (Inl SpansNothing, s)
      else case as_list (kv_get s k) of
        Inl e \<Rightarrow> (Inl e, s)
      | Inr (xs, _) \<Rightarrow>
          (let ys = xs @ [x]; over = length ys - nat capMax
           in (Inr (take over ys), kv_put k (VList (drop over ys), kv_mark s L) s)))"

subsection \<open>Hashes\<close>

definition as_hash :: "kv_entry option \<Rightarrow> (kv_error, (string \<times> string) list \<times> time option) result" where
  "as_hash e = (case e of None \<Rightarrow> Inr ([], None) | Some (VHash h, m) \<Rightarrow> Inr (h, m) | Some _ \<Rightarrow> Inl WrongType)"

definition kv_put_hash :: "string \<Rightarrow> (string \<times> string) list \<Rightarrow> time option \<Rightarrow> kvst \<Rightarrow> kvst" where
  "kv_put_hash k h m s = (if h = [] then kv_del k s else kv_put k (VHash h, m) s)"

definition hash_set :: "(string \<times> string) list \<Rightarrow> (string \<times> string) list \<Rightarrow> (string \<times> string) list" where
  "hash_set fvs h = fold (\<lambda>(f, v). AList.update f v) fvs h"

text \<open>
  A write naming no field is an error of the caller. On a key of another type
  \<open>HashSetFieldsWithKeyTTL\<close> fails with the lifetime assigned all the same.
\<close>

definition eff_HashSetFields :: "string \<Rightarrow> (string \<times> string) list \<Rightarrow> kvst \<Rightarrow> unit kv_out" where
  "eff_HashSetFields k fvs s =
     (if fvs = [] then (Inl BadArguments, s)
      else case as_hash (kv_get s k) of
        Inl e \<Rightarrow> (Inl e, s)
      | Inr (h, m) \<Rightarrow> (Inr (), kv_put k (VHash (hash_set fvs h), m) s))"

definition eff_HashSetFieldsWithKeyTTL :: "string \<Rightarrow> (string \<times> string) list \<Rightarrow> duration \<Rightarrow> kvst \<Rightarrow> unit kv_out" where
  "eff_HashSetFieldsWithKeyTTL k fvs L s =
     (if L \<le> 0 then (Inr (), kv_del k s)
      else if fvs = [] then (Inl BadArguments, s)
      else case as_hash (kv_get s k) of
        Inl e \<Rightarrow> (Inl e, snd (eff_Expire k L s))
      | Inr (h, _) \<Rightarrow> (Inr (), kv_put k (VHash (hash_set fvs h), kv_mark s L) s))"

definition eff_HashSetFieldsIfExists :: "string \<Rightarrow> (string \<times> string) list \<Rightarrow> kvst \<Rightarrow> bool kv_out" where
  "eff_HashSetFieldsIfExists k fvs s =
     (if kv_get s k = None then (Inr False, s)
      else case as_hash (kv_get s k) of
        Inl e \<Rightarrow> (Inl e, s)
      | Inr (h, m) \<Rightarrow> (Inr True, kv_put k (VHash (hash_set fvs h), m) s))"

definition eff_HashSetFieldsWithKeyTTLIfExists ::
    "string \<Rightarrow> (string \<times> string) list \<Rightarrow> duration \<Rightarrow> kvst \<Rightarrow> bool kv_out" where
  "eff_HashSetFieldsWithKeyTTLIfExists k fvs L s =
     (if kv_get s k = None then (Inr False, s)
      else if L \<le> 0 then (Inr True, kv_del k s)
      else case as_hash (kv_get s k) of
        Inl e \<Rightarrow> (Inl e, s)
      | Inr (h, _) \<Rightarrow> (Inr True, kv_put k (VHash (hash_set fvs h), kv_mark s L) s))"

definition eff_HashSetFieldsWithKeyTTLIfFieldEquals ::
    "string \<Rightarrow> string \<Rightarrow> string \<Rightarrow> (string \<times> string) list \<Rightarrow> duration \<Rightarrow> kvst \<Rightarrow> bool kv_out" where
  "eff_HashSetFieldsWithKeyTTLIfFieldEquals k field expected fvs L s = (case as_hash (kv_get s k) of
      Inl e \<Rightarrow> (Inl e, s)
    | Inr (h, _) \<Rightarrow>
        if map_of h field \<noteq> Some expected then (Inr False, s)
        else if L \<le> 0 then (Inr True, kv_del k s)
        else (Inr True, kv_put k (VHash (hash_set fvs h), kv_mark s L) s))"

definition eff_HashGetField :: "string \<Rightarrow> string \<Rightarrow> kvst \<Rightarrow> string option kv_out" where
  "eff_HashGetField k field s = (case as_hash (kv_get s k) of
      Inl e \<Rightarrow> (Inl e, s) | Inr (h, _) \<Rightarrow> (Inr (map_of h field), s))"

definition eff_HashGetFields :: "string \<Rightarrow> string list \<Rightarrow> kvst \<Rightarrow> (string \<rightharpoonup> string) kv_out" where
  "eff_HashGetFields k fvs s = (case as_hash (kv_get s k) of
      Inl e \<Rightarrow> (Inl e, s)
    | Inr (h, _) \<Rightarrow> (Inr (\<lambda>f. if f \<in> set fvs then map_of h f else None), s))"

definition eff_HashRemoveFields :: "string \<Rightarrow> string list \<Rightarrow> kvst \<Rightarrow> int kv_out" where
  "eff_HashRemoveFields k fvs s = (case as_hash (kv_get s k) of
      Inl e \<Rightarrow> (Inl e, s)
    | Inr (h, m) \<Rightarrow>
        (let h' = filter (\<lambda>(f, _). f \<notin> set fvs) h
         in (Inr (int (length h) - int (length h')), if h = [] then s else kv_put_hash k h' m s)))"

definition eff_HashGetAll :: "string \<Rightarrow> kvst \<Rightarrow> (string \<rightharpoonup> string) kv_out" where
  "eff_HashGetAll k s = (case as_hash (kv_get s k) of
      Inl e \<Rightarrow> (Inl e, s) | Inr (h, _) \<Rightarrow> (Inr (map_of h), s))"

section \<open>The interface and its promise\<close>

type_synonym ('st, 'a) io = "'st \<Rightarrow> (kv_error + 'a) \<times> 'st"

record 'st kvdb =
  Exists :: "string \<Rightarrow> ('st, bool) io"
  TTL :: "string \<Rightarrow> ('st, duration \<times> TTLState) io"
  Delete :: "string list \<Rightarrow> ('st, int) io"
  Expire :: "string \<Rightarrow> duration \<Rightarrow> ('st, bool) io"
  Persist :: "string \<Rightarrow> ('st, bool) io"
  SetValue :: "string \<Rightarrow> string \<Rightarrow> duration \<Rightarrow> ('st, unit) io"
  SetValuePersistent :: "string \<Rightarrow> string \<Rightarrow> ('st, unit) io"
  GetValue :: "string \<Rightarrow> ('st, string option) io"
  SetValueIfNotExists :: "string \<Rightarrow> string \<Rightarrow> duration \<Rightarrow> ('st, bool) io"
  SetValuePersistentIfNotExists :: "string \<Rightarrow> string \<Rightarrow> ('st, bool) io"
  DeleteValueIfEquals :: "string \<Rightarrow> string \<Rightarrow> ('st, bool) io"
  SetValueIfEquals :: "string \<Rightarrow> string \<Rightarrow> string \<Rightarrow> ('st, bool) io"
  IncrementValue :: "string \<Rightarrow> int \<Rightarrow> duration \<Rightarrow> ('st, int) io"
  IncrementValuePersistent :: "string \<Rightarrow> int \<Rightarrow> ('st, int) io"
  GetValueAsInt64 :: "string \<Rightarrow> ('st, int option) io"
  ListPush :: "string \<Rightarrow> string \<Rightarrow> ('st, unit) io"
  ListPop :: "string \<Rightarrow> ('st, string option) io"
  ListLen :: "string \<Rightarrow> ('st, int) io"
  ListRange :: "string \<Rightarrow> int \<Rightarrow> int \<Rightarrow> ('st, string list) io"
  ListRemove :: "string \<Rightarrow> int \<Rightarrow> string \<Rightarrow> ('st, int) io"
  ListTrim :: "string \<Rightarrow> int \<Rightarrow> int \<Rightarrow> ('st, unit) io"
  ListPushTrimOverCap :: "string \<Rightarrow> string \<Rightarrow> int \<Rightarrow> duration \<Rightarrow> ('st, string list) io"
  HashSetFields :: "string \<Rightarrow> (string \<times> string) list \<Rightarrow> ('st, unit) io"
  HashSetFieldsWithKeyTTL :: "string \<Rightarrow> (string \<times> string) list \<Rightarrow> duration \<Rightarrow> ('st, unit) io"
  HashSetFieldsIfExists :: "string \<Rightarrow> (string \<times> string) list \<Rightarrow> ('st, bool) io"
  HashSetFieldsWithKeyTTLIfExists :: "string \<Rightarrow> (string \<times> string) list \<Rightarrow> duration \<Rightarrow> ('st, bool) io"
  HashSetFieldsWithKeyTTLIfFieldEquals ::
    "string \<Rightarrow> string \<Rightarrow> string \<Rightarrow> (string \<times> string) list \<Rightarrow> duration \<Rightarrow> ('st, bool) io"
  HashGetField :: "string \<Rightarrow> string \<Rightarrow> ('st, string option) io"
  HashGetFields :: "string \<Rightarrow> string list \<Rightarrow> ('st, string \<rightharpoonup> string) io"
  HashRemoveFields :: "string \<Rightarrow> string list \<Rightarrow> ('st, int) io"
  HashGetAll :: "string \<Rightarrow> ('st, string \<rightharpoonup> string) io"

text \<open>
  \<open>act\<close> gives the outcomes an act may have on a store: one for an operation without a lifetime,
  one per span the clock may give for an operation with one (a negative lifetime is refused).
\<close>

definition act :: "(kvst \<Rightarrow> 'a kv_out) \<Rightarrow> kvst \<Rightarrow> 'a kv_out \<Rightarrow> bool" where
  "act eff v out \<longleftrightarrow> out = eff v"

definition act_ttl :: "duration \<Rightarrow> duration \<Rightarrow> (duration \<Rightarrow> kvst \<Rightarrow> 'a kv_out) \<Rightarrow> kvst \<Rightarrow> 'a kv_out \<Rightarrow> bool" where
  "act_ttl P d eff v out \<longleftrightarrow>
     (if d < 0 then out = (Inl NegativeLifetime, v) else \<exists>L. span_ok P d L \<and> out = eff L v)"

definition implements ::
    "(kvst \<Rightarrow> kvst \<Rightarrow> bool) \<Rightarrow> ('st \<Rightarrow> kvst) \<Rightarrow> (kvst \<Rightarrow> 'a kv_out \<Rightarrow> bool) \<Rightarrow> ('st, 'a) io \<Rightarrow> bool" where
  "implements env view R op \<longleftrightarrow>
     (\<forall>st r st'. op st = (r, st') \<longrightarrow>
        (\<exists>v. env (view st) v \<and>
          (case r of Inr x \<Rightarrow> R v (Inr x, view st')
                   | Inl e \<Rightarrow> view st' = v \<or> (\<exists>y. R v (y, view st')))))"

lemma implementsD:
  assumes "implements env view R op" "op st = (Inr x, st')"
  obtains v where "env (view st) v" "R v (Inr x, view st')"
  using assms by (fastforce simp: implements_def)

text \<open>A call that fails has left the store as its act would, or as it found it.\<close>

lemma implements_errorD:
  assumes "implements env view R op" "op st = (Inl e, st')"
  obtains v where "env (view st) v" "view st' = v \<or> (\<exists>y. R v (y, view st'))"
  using assms by (fastforce simp: implements_def)

locale kvdb_store =
  fixes db :: "'st kvdb" and view :: "'st \<Rightarrow> kvst" and env :: "kvst \<Rightarrow> kvst \<Rightarrow> bool" and P :: duration
  assumes precision_pos: "0 < P"
    and GetValue_law: "implements env view (act (eff_GetValue k)) (GetValue db k)"
    and SetValue_law: "is_i64 (d + P) \<Longrightarrow> implements env view (act_ttl P d (eff_SetValue k x)) (SetValue db k x d)"
    and SetValueIfNotExists_law: "is_i64 (d + P) \<Longrightarrow>
      implements env view (act_ttl P d (eff_SetValueIfNotExists k x)) (SetValueIfNotExists db k x d)"
    and SetValuePersistentIfNotExists_law:
      "implements env view (act (eff_SetValuePersistentIfNotExists k x)) (SetValuePersistentIfNotExists db k x)"
    and DeleteValueIfEquals_law: "implements env view (act (eff_DeleteValueIfEquals k x)) (DeleteValueIfEquals db k x)"
    and SetValueIfEquals_law: "implements env view (act (eff_SetValueIfEquals k x y)) (SetValueIfEquals db k x y)"
    and Expire_law: "is_i64 (d + P) \<Longrightarrow> implements env view (act_ttl P d (eff_Expire k)) (Expire db k d)"
    and Delete_law: "implements env view (act (eff_Delete ks)) (Delete db ks)"
    and ListPushTrimOverCap_law: "is_i64 (d + P) \<Longrightarrow>
      implements env view (act_ttl P d (eff_ListPushTrimOverCap k x n)) (ListPushTrimOverCap db k x n d)"
    and ListRemove_law: "implements env view (act (eff_ListRemove k n x)) (ListRemove db k n x)"
    and HashSetFieldsWithKeyTTL_law: "is_i64 (d + P) \<Longrightarrow>
      implements env view (act_ttl P d (eff_HashSetFieldsWithKeyTTL k fvs)) (HashSetFieldsWithKeyTTL db k fvs d)"
    and HashSetFieldsIfExists_law:
      "fvs \<noteq> [] \<Longrightarrow> implements env view (act (eff_HashSetFieldsIfExists k fvs)) (HashSetFieldsIfExists db k fvs)"
    and HashSetFieldsWithKeyTTLIfExists_law: "fvs \<noteq> [] \<Longrightarrow> is_i64 (d + P) \<Longrightarrow>
      implements env view (act_ttl P d (eff_HashSetFieldsWithKeyTTLIfExists k fvs))
        (HashSetFieldsWithKeyTTLIfExists db k fvs d)"
    and HashSetFieldsWithKeyTTLIfFieldEquals_law: "fvs \<noteq> [] \<Longrightarrow> is_i64 (d + P) \<Longrightarrow>
      implements env view (act_ttl P d (eff_HashSetFieldsWithKeyTTLIfFieldEquals k f x fvs))
        (HashSetFieldsWithKeyTTLIfFieldEquals db k f x fvs d)"
    and HashGetFields_law: "implements env view (act (eff_HashGetFields k fs)) (HashGetFields db k fs)"
    and HashGetAll_law: "implements env view (act (eff_HashGetAll k)) (HashGetAll db k)"
begin

text \<open>The conditional writes answer true only by writing, at one moment, what they were asked to write.\<close>

lemma SetValueIfEquals_true:
  assumes "SetValueIfEquals db k x y st = (Inr True, st')"
  obtains v m where "env (view st) v" "kv_get v k = Some (VStr x, m)" "view st' = kv_put k (VStr y, m) v"
proof -
  obtain v where "env (view st) v" "act (eff_SetValueIfEquals k x y) v (Inr True, view st')"
    using implementsD [OF SetValueIfEquals_law assms] .
  then show thesis using that
    by (auto simp: act_def eff_SetValueIfEquals_def split: option.splits kv_value.splits prod.splits if_splits)
qed

lemma SetValueIfNotExists_true:
  assumes "SetValueIfNotExists db k x d st = (Inr True, st')" "is_i64 (d + P)"
  obtains v L where "env (view st) v" "span_ok P d L" "0 < L" "kv_get v k = None"
    "view st' = kv_put k (VStr x, kv_mark v L) v"
proof -
  obtain v where "env (view st) v" "act_ttl P d (eff_SetValueIfNotExists k x) v (Inr True, view st')"
    using implementsD [OF SetValueIfNotExists_law [OF assms(2)] assms(1)] .
  then show thesis using that
    by (auto simp: act_ttl_def eff_SetValueIfNotExists_def simp del: not_None_eq split: if_splits)
qed

lemma SetValuePersistentIfNotExists_true:
  assumes "SetValuePersistentIfNotExists db k x st = (Inr True, st')"
  obtains v where "env (view st) v" "kv_get v k = None" "view st' = kv_put k (VStr x, None) v"
proof -
  obtain v where "env (view st) v" "act (eff_SetValuePersistentIfNotExists k x) v (Inr True, view st')"
    using implementsD [OF SetValuePersistentIfNotExists_law assms] .
  then show thesis using that
    by (auto simp: act_def eff_SetValuePersistentIfNotExists_def simp del: not_None_eq split: if_splits)
qed

lemma GetValue_ok:
  assumes "GetValue db k st = (Inr r, st')"
  obtains "env (view st) (view st')" "case r of None \<Rightarrow> kv_get (view st') k = None
    | Some x \<Rightarrow> \<exists>m. kv_get (view st') k = Some (VStr x, m)"
proof -
  obtain v where "env (view st) v" "act (eff_GetValue k) v (Inr r, view st')"
    using implementsD [OF GetValue_law assms] .
  then show thesis using that
    by (auto simp: act_def eff_GetValue_def split: option.splits kv_value.splits prod.splits)
qed

end

end
