(* ===== verification/KVDB_Redis.thy ===== *)
theory KVDB_Redis
  imports KVDB_Contract
begin

text \<open>
  \<open>kvdbs/redis\<close>: the driver that serves \<open>kvdbs.DB\<close> from Redis. The Redis server is not part of the
  repository: its commands are the fields of \<open>redis_cmds\<close>, and what the driver relies on is
  the locale \<open>redis_server\<close>, one law per command, from the Redis documentation. Commands work
  on the store of \<open>KVDB_Contract\<close>; spans of time are whole milliseconds. A Lua script is one
  act of the server: the function of its body.

  The round trip is the parameter \<open>send\<close>: it runs one command or script on the server at one
  moment, after whatever the other clients did, or fails (before or after the command ran).
\<close>

section \<open>The server's commands\<close>

datatype reply = RErr kv_error | ROk | RInt int | RNil | RStr string | RList "string list" | ROpts "string option list" | RHash "(string \<times> string) list"

type_synonym command = "kvst \<Rightarrow> reply \<times> kvst"

definition millis :: duration where "millis = 1000000"

record redis_cmds =
  EXISTS :: "string \<Rightarrow> command"
  PTTL :: "string \<Rightarrow> command"
  DEL :: "string list \<Rightarrow> command"
  PEXPIRE :: "string \<Rightarrow> int \<Rightarrow> command"
  PERSIST :: "string \<Rightarrow> command"
  EXPIRENX :: "string \<Rightarrow> int \<Rightarrow> command"
  GET :: "string \<Rightarrow> command"
  SET :: "string \<Rightarrow> string \<Rightarrow> int option \<Rightarrow> command"
  SETNX :: "string \<Rightarrow> string \<Rightarrow> int option \<Rightarrow> command"
  SETKEEPTTL :: "string \<Rightarrow> string \<Rightarrow> command"
  INCRBY :: "string \<Rightarrow> int \<Rightarrow> command"
  RPUSH :: "string \<Rightarrow> string \<Rightarrow> command"
  LPOP :: "string \<Rightarrow> command"
  LLEN :: "string \<Rightarrow> command"
  LRANGE :: "string \<Rightarrow> int \<Rightarrow> int \<Rightarrow> command"
  LREM :: "string \<Rightarrow> int \<Rightarrow> string \<Rightarrow> command"
  LTRIM :: "string \<Rightarrow> int \<Rightarrow> int \<Rightarrow> command"
  HSET :: "string \<Rightarrow> (string \<times> string) list \<Rightarrow> command"
  HGET :: "string \<Rightarrow> string \<Rightarrow> command"
  HMGET :: "string \<Rightarrow> string list \<Rightarrow> command"
  HDEL :: "string \<Rightarrow> string list \<Rightarrow> command"
  HGETALL :: "string \<Rightarrow> command"

text \<open>What the documentation of each command says it does and replies.\<close>

definition reply_of :: "('a \<Rightarrow> reply) \<Rightarrow> 'a kv_out \<Rightarrow> reply \<times> kvst" where
  "reply_of f out = (case out of (Inr x, s) \<Rightarrow> (f x, s) | (Inl e, s) \<Rightarrow> (RErr e, s))"

definition RBool :: "bool \<Rightarrow> reply" where "RBool b = RInt (if b then 1 else 0)"

definition ROpt :: "string option \<Rightarrow> reply" where "ROpt x = (case x of None \<Rightarrow> RNil | Some v \<Rightarrow> RStr v)"

definition doc_PTTL :: "string \<Rightarrow> command" where
  "doc_PTTL k s = (RInt (case kv_get s k of
      None \<Rightarrow> - 2 | Some (_, None) \<Rightarrow> - 1 | Some (_, Some mark) \<Rightarrow> (mark - kv_clock s) div millis), s)"

definition doc_PEXPIRE :: "string \<Rightarrow> int \<Rightarrow> command" where
  "doc_PEXPIRE k ms s = reply_of RBool (eff_Expire k (ms * millis) s)"

definition doc_EXPIRENX :: "string \<Rightarrow> int \<Rightarrow> command" where
  "doc_EXPIRENX k secs s = (case kv_get s k of
      Some (v, None) \<Rightarrow> (RInt 1, if secs \<le> 0 then kv_del k s else kv_put k (v, kv_mark s (secs * time_Second)) s)
    | _ \<Rightarrow> (RInt 0, s))"

definition doc_SET :: "string \<Rightarrow> string \<Rightarrow> int option \<Rightarrow> command" where
  "doc_SET k x px s = (ROk, kv_put k (VStr x, Option.bind px (\<lambda>ms. kv_mark s (ms * millis))) s)"

definition doc_SETNX :: "string \<Rightarrow> string \<Rightarrow> int option \<Rightarrow> command" where
  "doc_SETNX k x px s =
     (if kv_get s k \<noteq> None then (RInt 0, s)
      else (RInt 1, kv_put k (VStr x, Option.bind px (\<lambda>ms. kv_mark s (ms * millis))) s))"

definition doc_SETKEEPTTL :: "string \<Rightarrow> string \<Rightarrow> command" where
  "doc_SETKEEPTTL k x s = (ROk, kv_put k (VStr x, Option.bind (kv_get s k) snd) s)"

definition doc_RPUSH :: "string \<Rightarrow> string \<Rightarrow> command" where
  "doc_RPUSH k x s = (case as_list (kv_get s k) of
      Inl e \<Rightarrow> (RErr e, s)
    | Inr (xs, m) \<Rightarrow> (RInt (int (length xs) + 1), kv_put k (VList (xs @ [x]), m) s))"

definition doc_HSET :: "string \<Rightarrow> (string \<times> string) list \<Rightarrow> command" where
  "doc_HSET k fvs s =
     (if fvs = [] then (RErr BadArguments, s)
      else case as_hash (kv_get s k) of
        Inl e \<Rightarrow> (RErr e, s)
      | Inr (h, m) \<Rightarrow>
          (RInt (int (length (hash_set fvs h)) - int (length h)), kv_put k (VHash (hash_set fvs h), m) s))"

definition doc_HMGET :: "string \<Rightarrow> string list \<Rightarrow> command" where
  "doc_HMGET k fs s = (case as_hash (kv_get s k) of
      Inl e \<Rightarrow> (RErr e, s) | Inr (h, _) \<Rightarrow> (ROpts (map (map_of h) fs), s))"

definition doc_HGETALL :: "string \<Rightarrow> command" where
  "doc_HGETALL k s = (case as_hash (kv_get s k) of Inl e \<Rightarrow> (RErr e, s) | Inr (h, _) \<Rightarrow> (RHash h, s))"

locale redis_server =
  fixes R :: redis_cmds
  assumes EXISTS_doc: "EXISTS R k s = reply_of RBool (eff_Exists k s)"
    and PTTL_doc: "PTTL R k s = doc_PTTL k s"
    and DEL_doc: "DEL R ks s = reply_of RInt (eff_Delete ks s)"
    and PEXPIRE_doc: "PEXPIRE R k ms s = doc_PEXPIRE k ms s"
    and PERSIST_doc: "PERSIST R k s = reply_of RBool (eff_Persist k s)"
    and EXPIRENX_doc: "EXPIRENX R k secs s = doc_EXPIRENX k secs s"
    and GET_doc: "GET R k s = reply_of ROpt (eff_GetValue k s)"
    and SET_doc: "SET R k x px s = doc_SET k x px s"
    and SETNX_doc: "SETNX R k x px s = doc_SETNX k x px s"
    and SETKEEPTTL_doc: "SETKEEPTTL R k x s = doc_SETKEEPTTL k x s"
    and INCRBY_doc: "INCRBY R k n s = reply_of RInt (eff_IncrementValuePersistent k n s)"
    and RPUSH_doc: "RPUSH R k x s = doc_RPUSH k x s"
    and LPOP_doc: "LPOP R k s = reply_of ROpt (eff_ListPop k s)"
    and LLEN_doc: "LLEN R k s = reply_of RInt (eff_ListLen k s)"
    and LRANGE_doc: "LRANGE R k a b s = reply_of RList (eff_ListRange k a b s)"
    and LREM_doc: "LREM R k n x s = reply_of RInt (eff_ListRemove k n x s)"
    and LTRIM_doc: "LTRIM R k a b s = reply_of (\<lambda>_. ROk) (eff_ListTrim k a b s)"
    and HSET_doc: "HSET R k fvs s = doc_HSET k fvs s"
    and HGET_doc: "HGET R k f s = reply_of ROpt (eff_HashGetField k f s)"
    and HMGET_doc: "HMGET R k fs s = doc_HMGET k fs s"
    and HDEL_doc: "HDEL R k fs s = reply_of RInt (eff_HashRemoveFields k fs s)"
    and HGETALL_doc: "HGETALL R k s = doc_HGETALL k s"

definition redis_ref :: redis_cmds where
  "redis_ref = \<lparr>
     EXISTS = \<lambda>k s. reply_of RBool (eff_Exists k s),
     PTTL = doc_PTTL,
     DEL = \<lambda>ks s. reply_of RInt (eff_Delete ks s),
     PEXPIRE = doc_PEXPIRE,
     PERSIST = \<lambda>k s. reply_of RBool (eff_Persist k s),
     EXPIRENX = doc_EXPIRENX,
     GET = \<lambda>k s. reply_of ROpt (eff_GetValue k s),
     SET = doc_SET,
     SETNX = doc_SETNX,
     SETKEEPTTL = doc_SETKEEPTTL,
     INCRBY = \<lambda>k n s. reply_of RInt (eff_IncrementValuePersistent k n s),
     RPUSH = doc_RPUSH,
     LPOP = \<lambda>k s. reply_of ROpt (eff_ListPop k s),
     LLEN = \<lambda>k s. reply_of RInt (eff_ListLen k s),
     LRANGE = \<lambda>k a b s. reply_of RList (eff_ListRange k a b s),
     LREM = \<lambda>k n x s. reply_of RInt (eff_ListRemove k n x s),
     LTRIM = \<lambda>k a b s. reply_of (\<lambda>_. ROk) (eff_ListTrim k a b s),
     HSET = doc_HSET,
     HGET = \<lambda>k f s. reply_of ROpt (eff_HashGetField k f s),
     HMGET = doc_HMGET,
     HDEL = \<lambda>k fs s. reply_of RInt (eff_HashRemoveFields k fs s),
     HGETALL = doc_HGETALL\<rparr>"

interpretation refserver: redis_server redis_ref
  by unfold_locales (simp_all add: redis_ref_def)

section \<open>Scripts\<close>

text \<open>\<open>redis.call\<close> aborts the script on an error reply, with what the script did so far kept.\<close>

definition redis_call :: "command \<Rightarrow> kvst \<Rightarrow> (reply \<Rightarrow> command) \<Rightarrow> reply \<times> kvst" where
  "redis_call c s cont = (case c s of (RErr e, s') \<Rightarrow> (RErr e, s') | (r, s') \<Rightarrow> cont r s')"

fun lua_hset_each :: "redis_cmds \<Rightarrow> string \<Rightarrow> (string \<times> string) list \<Rightarrow> command \<Rightarrow> command" where
  "lua_hset_each R k [] rest s = rest s"
| "lua_hset_each R k (fv # fvs) rest s = redis_call (HSET R k [fv]) s (\<lambda>_. lua_hset_each R k fvs rest)"

definition luaSetFieldsIfExists :: "redis_cmds \<Rightarrow> string \<Rightarrow> (string \<times> string) list \<Rightarrow> command" where
  "luaSetFieldsIfExists R k fvs s =
     redis_call (EXISTS R k) s (\<lambda>r s1.
       if r = RInt 0 then (RInt 0, s1)
       else lua_hset_each R k fvs (\<lambda>s2. (RInt 1, s2)) s1)"

definition luaSetFieldsWithTTLIfExists :: "redis_cmds \<Rightarrow> string \<Rightarrow> int \<Rightarrow> (string \<times> string) list \<Rightarrow> command" where
  "luaSetFieldsWithTTLIfExists R k ttl fvs s =
     redis_call (EXISTS R k) s (\<lambda>r s1.
       if r = RInt 0 then (RInt 0, s1)
       else if ttl \<le> 0 then redis_call (DEL R [k]) s1 (\<lambda>_ s2. (RInt 1, s2))
       else lua_hset_each R k fvs (\<lambda>s2. redis_call (PEXPIRE R k ttl) s2 (\<lambda>_ s3. (RInt 1, s3))) s1)"

definition luaDeleteValueIfEquals :: "redis_cmds \<Rightarrow> string \<Rightarrow> string \<Rightarrow> command" where
  "luaDeleteValueIfEquals R k expected s =
     redis_call (GET R k) s (\<lambda>r s1.
       if r = RStr expected then redis_call (DEL R [k]) s1 (\<lambda>n s2. (n, s2)) else (RInt 0, s1))"

definition luaSetValueIfEquals :: "redis_cmds \<Rightarrow> string \<Rightarrow> string \<Rightarrow> string \<Rightarrow> command" where
  "luaSetValueIfEquals R k expected x s =
     redis_call (GET R k) s (\<lambda>r s1.
       if r = RStr expected then redis_call (SETKEEPTTL R k x) s1 (\<lambda>_ s2. (RInt 1, s2)) else (RInt 0, s1))"

definition luaListPushTrimOverCap :: "redis_cmds \<Rightarrow> string \<Rightarrow> string \<Rightarrow> int \<Rightarrow> int \<Rightarrow> command" where
  "luaListPushTrimOverCap R k x cap ttl s =
     redis_call (RPUSH R k x) s (\<lambda>r s1.
       redis_call (PEXPIRE R k ttl) s1 (\<lambda>_ s2.
         let over = (case r of RInt n \<Rightarrow> n - cap | _ \<Rightarrow> 0)
         in if over \<le> 0 then (RList [], s2)
            else redis_call (LRANGE R k 0 (over - 1)) s2 (\<lambda>evicted s3.
              redis_call (LTRIM R k over (- 1)) s3 (\<lambda>_ s4. (evicted, s4)))))"

definition luaSetFieldsWithTTLIfFieldEquals ::
    "redis_cmds \<Rightarrow> string \<Rightarrow> string \<Rightarrow> string \<Rightarrow> int \<Rightarrow> (string \<times> string) list \<Rightarrow> command" where
  "luaSetFieldsWithTTLIfFieldEquals R k field expected ttl fvs s =
     redis_call (HGET R k field) s (\<lambda>cur s1.
       if cur = RNil \<or> cur \<noteq> RStr expected then (RInt 0, s1)
       else if ttl \<le> 0 then redis_call (DEL R [k]) s1 (\<lambda>_ s2. (RInt 1, s2))
       else lua_hset_each R k fvs (\<lambda>s2. redis_call (PEXPIRE R k ttl) s2 (\<lambda>_ s3. (RInt 1, s3))) s1)"

lemmas reply_defs = reply_of_def RBool_def ROpt_def

lemma list_slice_prefix: "0 < n \<Longrightarrow> n \<le> int (length xs) \<Longrightarrow> list_slice 0 (n - 1) xs = take (nat n) xs"
  by (auto simp: list_slice_def Let_def)

lemma list_slice_suffix: "0 \<le> n \<Longrightarrow> n < int (length xs) \<Longrightarrow> list_slice n (- 1) xs = drop (nat n) xs"
  by (auto simp: list_slice_def Let_def)

context redis_server
begin

text \<open>Writing the fields one by one on an existing hash.\<close>

lemma hset_each_hash:
  "kv_get s k = Some (VHash h, m) \<Longrightarrow>
     lua_hset_each R k fvs rest s = rest (kv_put k (VHash (hash_set fvs h), m) s)"
proof (induction fvs arbitrary: h s)
  case Nil then show ?case by (simp add: hash_set_def kv_put_same)
next
  case (Cons fv fvs)
  have alive: "kv_get (kv_put k (VHash (hash_set [fv] h), m) s) k = Some (VHash (hash_set [fv] h), m)"
    using Cons.prems by (auto split: option.splits dest: kv_get_mark)
  have "hash_set fvs (hash_set [fv] h) = hash_set (fv # fvs) h" by (simp add: hash_set_def)
  with Cons.IH [OF alive] Cons.prems show ?case
    by (simp add: redis_call_def HSET_doc doc_HSET_def as_hash_def)
qed

lemma hset_each_wrong_type:
  "as_hash (kv_get s k) = Inl e \<Longrightarrow> fvs \<noteq> [] \<Longrightarrow> lua_hset_each R k fvs rest s = (RErr e, s)"
  by (cases fvs) (simp_all add: redis_call_def HSET_doc doc_HSET_def)

lemma as_hash_cases:
  assumes "kv_get s k = Some e"
  obtains (hash) h m where "e = (VHash h, m)" "as_hash (kv_get s k) = Inr (h, m)"
    | (other) "as_hash (kv_get s k) = Inl WrongType"
  using assms by (cases e; cases "fst e") (auto simp: as_hash_def)

lemma luaSetFieldsIfExists_spec:
  "fvs \<noteq> [] \<Longrightarrow> luaSetFieldsIfExists R k fvs s = reply_of RBool (eff_HashSetFieldsIfExists k fvs s)"
proof (cases "kv_get s k")
  case None
  then show ?thesis
    by (simp add: luaSetFieldsIfExists_def redis_call_def EXISTS_doc eff_Exists_def reply_defs eff_HashSetFieldsIfExists_def)
next
  case (Some e)
  assume "fvs \<noteq> []"
  from Some show ?thesis
    by (cases rule: as_hash_cases)
      (simp_all add: Some \<open>fvs \<noteq> []\<close> luaSetFieldsIfExists_def redis_call_def EXISTS_doc eff_Exists_def reply_defs
        eff_HashSetFieldsIfExists_def hset_each_hash hset_each_wrong_type)
qed

lemma pexpire_hash:
  "kv_get s k = Some (VHash h, m) \<Longrightarrow> 0 < ttl \<Longrightarrow>
     PEXPIRE R k ttl (kv_put k (VHash h', m) s) = (RInt 1, kv_put k (VHash h', kv_mark s (ttl * millis)) s)"
  by (auto simp: PEXPIRE_doc doc_PEXPIRE_def eff_Expire_def reply_defs millis_def mult_le_0_iff
      split: option.splits dest: kv_get_mark)

lemma eff_Delete_one [simp]: "eff_Delete [k] s = (Inr (if kv_get s k \<noteq> None then 1 else 0), kv_del k s)"
  by simp

lemma luaSetFieldsWithTTLIfExists_spec:
  assumes "fvs \<noteq> []"
  shows "luaSetFieldsWithTTLIfExists R k ttl fvs s =
           reply_of RBool (eff_HashSetFieldsWithKeyTTLIfExists k fvs (ttl * millis) s)"
proof (cases "kv_get s k")
  case None
  then show ?thesis
    by (simp add: luaSetFieldsWithTTLIfExists_def redis_call_def EXISTS_doc eff_Exists_def reply_defs
        eff_HashSetFieldsWithKeyTTLIfExists_def)
next
  case (Some e)
  have m: "(ttl * millis \<le> 0) = (ttl \<le> 0)" by (simp add: millis_def mult_le_0_iff)
  from Some show ?thesis
    by (cases rule: as_hash_cases)
      (simp_all add: Some assms m luaSetFieldsWithTTLIfExists_def redis_call_def EXISTS_doc DEL_doc eff_Exists_def reply_defs
        eff_HashSetFieldsWithKeyTTLIfExists_def hset_each_hash hset_each_wrong_type pexpire_hash)
qed

lemma luaSetFieldsWithTTLIfFieldEquals_spec:
  assumes "fvs \<noteq> []"
  shows "luaSetFieldsWithTTLIfFieldEquals R k f x ttl fvs s =
           reply_of RBool (eff_HashSetFieldsWithKeyTTLIfFieldEquals k f x fvs (ttl * millis) s)"
proof (cases "kv_get s k")
  case None
  then show ?thesis
    by (simp add: luaSetFieldsWithTTLIfFieldEquals_def redis_call_def HGET_doc eff_HashGetField_def reply_defs
        eff_HashSetFieldsWithKeyTTLIfFieldEquals_def as_hash_def)
next
  case (Some e)
  have m: "(ttl * millis \<le> 0) = (ttl \<le> 0)" by (simp add: millis_def mult_le_0_iff)
  from Some show ?thesis
    by (cases rule: as_hash_cases)
      (auto simp: Some assms m luaSetFieldsWithTTLIfFieldEquals_def redis_call_def HGET_doc DEL_doc eff_HashGetField_def reply_defs
        eff_HashSetFieldsWithKeyTTLIfFieldEquals_def hset_each_hash hset_each_wrong_type pexpire_hash split: option.splits)
qed

lemma luaDeleteValueIfEquals_spec:
  "luaDeleteValueIfEquals R k x s = reply_of RBool (eff_DeleteValueIfEquals k x s)"
  by (auto simp: luaDeleteValueIfEquals_def redis_call_def GET_doc DEL_doc eff_GetValue_def reply_defs
      eff_DeleteValueIfEquals_def split: option.splits kv_value.splits prod.splits)

lemma luaSetValueIfEquals_spec:
  "luaSetValueIfEquals R k x y s = reply_of RBool (eff_SetValueIfEquals k x y s)"
  by (auto simp: luaSetValueIfEquals_def redis_call_def GET_doc SETKEEPTTL_doc doc_SETKEEPTTL_def eff_GetValue_def reply_defs
      eff_SetValueIfEquals_def split: option.splits kv_value.splits prod.splits)

lemma luaListPushTrimOverCap_spec:
  assumes "0 < cap" "0 < ttl"
  shows "luaListPushTrimOverCap R k x cap ttl s = reply_of RList (eff_ListPushTrimOverCap k x cap (ttl * millis) s)"
proof (cases "as_list (kv_get s k)")
  case (Inl e)
  then show ?thesis using assms
    by (simp add: luaListPushTrimOverCap_def redis_call_def RPUSH_doc doc_RPUSH_def reply_defs eff_ListPushTrimOverCap_def millis_def)
next
  case (Inr p)
  obtain xs m where p: "p = (xs, m)" by (cases p)
  let ?ys = "xs @ [x]"
  let ?over = "int (length xs) + 1 - cap"
  have m: "m = None \<or> (\<exists>d. m = Some d \<and> kv_clock s \<le> d)"
    using Inr p kv_get_mark [of s k] by (auto simp: as_list_def split: option.splits prod.splits kv_value.splits)
  have rp: "RPUSH R k x s = (RInt (int (length xs) + 1), kv_put k (VList ?ys, m) s)"
    using Inr p by (simp add: RPUSH_doc doc_RPUSH_def)
  have pe: "PEXPIRE R k ttl (kv_put k (VList ?ys, m) s) = (RInt 1, kv_put k (VList ?ys, kv_mark s (ttl * millis)) s)"
    using m assms(2) by (auto simp: PEXPIRE_doc doc_PEXPIRE_def eff_Expire_def reply_defs millis_def mult_le_0_iff)
  let ?s2 = "kv_put k (VList ?ys, kv_mark s (ttl * millis)) s"
  have g: "as_list (kv_get ?s2 k) = Inr (?ys, kv_mark s (ttl * millis))"
    using assms(2) by (simp add: as_list_def kv_mark_def millis_def)
  have spec: "eff_ListPushTrimOverCap k x cap (ttl * millis) s =
      (Inr (take (length ?ys - nat cap) ?ys), kv_put k (VList (drop (length ?ys - nat cap) ?ys), kv_mark s (ttl * millis)) s)"
    using assms Inr p by (simp add: eff_ListPushTrimOverCap_def millis_def Let_def)
  show ?thesis
  proof (cases "?over \<le> 0")
    case True
    then have "length ?ys - nat cap = 0" by simp
    then show ?thesis using True
      unfolding spec by (simp add: luaListPushTrimOverCap_def redis_call_def rp pe reply_defs)
  next
    case False
    define over where "over = ?over"
    have n: "nat over = length ?ys - nat cap" "\<not> over \<le> 0" "over \<le> int (length xs)"
      using assms(1) False by (simp_all add: over_def)
    have "list_slice 0 (over - 1) ?ys = take (nat over) ?ys" using n(2,3) by (intro list_slice_prefix) auto
    then have lr: "LRANGE R k 0 (over - 1) ?s2 = (RList (take (nat over) ?ys), ?s2)"
      unfolding LRANGE_doc eff_ListRange_def g by (simp add: reply_defs)
    have "list_slice over (- 1) ?ys = drop (nat over) ?ys" using n(2,3) by (intro list_slice_suffix) auto
    moreover have "drop (nat over) ?ys \<noteq> []" using n(2,3) by simp
    ultimately have lt: "LTRIM R k over (- 1) ?s2 = (ROk, kv_put k (VList (drop (nat over) ?ys), kv_mark s (ttl * millis)) s)"
      unfolding LTRIM_doc eff_ListTrim_def g
      by (simp add: reply_defs kv_put_list_def del: drop_append drop_eq_Nil)
    show ?thesis
      unfolding spec n(1) [symmetric]
      by (simp add: luaListPushTrimOverCap_def redis_call_def rp pe over_def [symmetric] Let_def n(2) lr lt reply_defs
          del: drop_append take_append)
  qed
qed

end

section \<open>The driver\<close>

text \<open>
  Every method takes the commands \<open>R\<close>, the round trip \<open>send\<close> and the process's reading of
  \<open>time.Now\<close>. \<open>roundtrip\<close> sends one command and decodes its reply as the method does.
\<close>

type_synonym 'st transport = "command \<Rightarrow> 'st \<Rightarrow> (kv_error + reply) \<times> 'st"

definition roundtrip :: "'st transport \<Rightarrow> command \<Rightarrow> (reply \<Rightarrow> kv_error + 'a) \<Rightarrow> ('st, 'a) io" where
  "roundtrip send c dec st = (case send c st of (Inl e, st') \<Rightarrow> (Inl e, st') | (Inr r, st') \<Rightarrow> (dec r, st'))"

definition dec_bool :: "reply \<Rightarrow> kv_error + bool" where
  "dec_bool r = (case r of RInt n \<Rightarrow> Inr (n = 1) | RErr e \<Rightarrow> Inl e | _ \<Rightarrow> Inl WrongType)"

definition dec_int :: "reply \<Rightarrow> kv_error + int" where
  "dec_int r = (case r of RInt n \<Rightarrow> Inr n | RErr e \<Rightarrow> Inl e | _ \<Rightarrow> Inl WrongType)"

definition dec_unit :: "reply \<Rightarrow> kv_error + unit" where
  "dec_unit r = (case r of RErr e \<Rightarrow> Inl e | _ \<Rightarrow> Inr ())"

definition dec_opt :: "reply \<Rightarrow> kv_error + string option" where
  "dec_opt r = (case r of RNil \<Rightarrow> Inr None | RStr x \<Rightarrow> Inr (Some x) | RErr e \<Rightarrow> Inl e | _ \<Rightarrow> Inl WrongType)"

definition dec_list :: "reply \<Rightarrow> kv_error + string list" where
  "dec_list r = (case r of RList xs \<Rightarrow> Inr xs | RErr e \<Rightarrow> Inl e | _ \<Rightarrow> Inl WrongType)"

lemmas dec_defs = dec_bool_def dec_int_def dec_unit_def dec_opt_def dec_list_def

definition TimePrecision :: duration where "TimePrecision = millis"

definition redis_clock :: Clock where "redis_clock = \<lparr>precision = TimePrecision\<rparr>"

definition redis_lifetime :: "time \<Rightarrow> duration \<Rightarrow> duration" where
  "redis_lifetime now ttl = ReadDurationFrom redis_clock now ttl"

subsection \<open>Key operations\<close>

definition redis_Exists :: "redis_cmds \<Rightarrow> 'st transport \<Rightarrow> string \<Rightarrow> ('st, bool) io" where
  "redis_Exists R send k = roundtrip send (EXISTS R k)
     (\<lambda>r. case dec_int r of Inl e \<Rightarrow> Inl e | Inr n \<Rightarrow> Inr (n > 0))"

definition redis_TTL :: "redis_cmds \<Rightarrow> 'st transport \<Rightarrow> string \<Rightarrow> ('st, duration \<times> TTLState) io" where
  "redis_TTL R send k = roundtrip send (PTTL R k)
     (\<lambda>r. case dec_int r of
        Inl e \<Rightarrow> Inl e
      | Inr n \<Rightarrow> Inr (if n = - 1 then (0, TTLPersistent)
                      else if n < 0 then (0, TTLKeyNotFound)
                      else (n * millis, TTLExpiring)))"

definition redis_Delete :: "redis_cmds \<Rightarrow> 'st transport \<Rightarrow> string list \<Rightarrow> ('st, int) io" where
  "redis_Delete R send ks = roundtrip send (DEL R ks) dec_int"

definition redis_Expire :: "redis_cmds \<Rightarrow> 'st transport \<Rightarrow> ('st \<Rightarrow> time) \<Rightarrow> string \<Rightarrow> duration \<Rightarrow> ('st, bool) io" where
  "redis_Expire R send now k d st =
     (if d < 0 then (Inl NegativeLifetime, st)
      else roundtrip send (PEXPIRE R k (redis_lifetime (now st) d div millis)) dec_bool st)"

definition redis_Persist :: "redis_cmds \<Rightarrow> 'st transport \<Rightarrow> string \<Rightarrow> ('st, bool) io" where
  "redis_Persist R send k = roundtrip send (PERSIST R k) dec_bool"

subsection \<open>Single values\<close>

definition redis_GetValue :: "redis_cmds \<Rightarrow> 'st transport \<Rightarrow> string \<Rightarrow> ('st, string option) io" where
  "redis_GetValue R send k = roundtrip send (GET R k) dec_opt"

definition redis_SetValue ::
    "redis_cmds \<Rightarrow> 'st transport \<Rightarrow> ('st \<Rightarrow> time) \<Rightarrow> string \<Rightarrow> string \<Rightarrow> duration \<Rightarrow> ('st, unit) io" where
  "redis_SetValue R send now k x d st =
     (if d < 0 then (Inl NegativeLifetime, st)
      else let ttl = redis_lifetime (now st) d
           in if ttl > 0 then roundtrip send (SET R k x (Some (ttl div millis))) dec_unit st
              else roundtrip send (DEL R [k]) dec_unit st)"

definition redis_SetValuePersistent :: "redis_cmds \<Rightarrow> 'st transport \<Rightarrow> string \<Rightarrow> string \<Rightarrow> ('st, unit) io" where
  "redis_SetValuePersistent R send k x = roundtrip send (SET R k x None) dec_unit"

definition redis_SetValueIfNotExists ::
    "redis_cmds \<Rightarrow> 'st transport \<Rightarrow> ('st \<Rightarrow> time) \<Rightarrow> string \<Rightarrow> string \<Rightarrow> duration \<Rightarrow> ('st, bool) io" where
  "redis_SetValueIfNotExists R send now k x d st =
     (if d < 0 then (Inl NegativeLifetime, st)
      else let ttl = redis_lifetime (now st) d
           in if ttl \<le> 0 then (Inl SpansNothing, st)
              else roundtrip send (SETNX R k x (Some (ttl div millis))) dec_bool st)"

definition redis_SetValuePersistentIfNotExists :: "redis_cmds \<Rightarrow> 'st transport \<Rightarrow> string \<Rightarrow> string \<Rightarrow> ('st, bool) io" where
  "redis_SetValuePersistentIfNotExists R send k x = roundtrip send (SETNX R k x None) dec_bool"

definition redis_DeleteValueIfEquals :: "redis_cmds \<Rightarrow> 'st transport \<Rightarrow> string \<Rightarrow> string \<Rightarrow> ('st, bool) io" where
  "redis_DeleteValueIfEquals R send k x = roundtrip send (luaDeleteValueIfEquals R k x) dec_bool"

definition redis_SetValueIfEquals :: "redis_cmds \<Rightarrow> 'st transport \<Rightarrow> string \<Rightarrow> string \<Rightarrow> string \<Rightarrow> ('st, bool) io" where
  "redis_SetValueIfEquals R send k x y = roundtrip send (luaSetValueIfEquals R k x y) dec_bool"

text \<open>\<open>secs_of\<close> is how the client library writes a duration for EXPIRE, which takes whole seconds.\<close>

definition redis_IncrementValue ::
    "redis_cmds \<Rightarrow> 'st transport \<Rightarrow> ('st \<Rightarrow> time) \<Rightarrow> (duration \<Rightarrow> int) \<Rightarrow> string \<Rightarrow> int \<Rightarrow> duration \<Rightarrow> ('st, int) io" where
  "redis_IncrementValue R send now secs_of k delta d st =
     (if d < 0 then (Inl NegativeLifetime, st)
      else let ttl = redis_lifetime (now st) d
           in if ttl \<le> 0 then (Inl SpansNothing, st)
              else case roundtrip send (INCRBY R k delta) dec_int st of
                (Inl e, st1) \<Rightarrow> (Inl e, st1)
              | (Inr tot, st1) \<Rightarrow>
                  (case roundtrip send (EXPIRENX R k (secs_of ttl)) dec_unit st1 of
                     (Inl e, st2) \<Rightarrow> (Inl e, st2)
                   | (Inr _, st2) \<Rightarrow> (Inr tot, st2)))"

definition redis_IncrementValuePersistent :: "redis_cmds \<Rightarrow> 'st transport \<Rightarrow> string \<Rightarrow> int \<Rightarrow> ('st, int) io" where
  "redis_IncrementValuePersistent R send k delta = roundtrip send (INCRBY R k delta) dec_int"

definition redis_GetValueAsInt64 :: "redis_cmds \<Rightarrow> 'st transport \<Rightarrow> string \<Rightarrow> ('st, int option) io" where
  "redis_GetValueAsInt64 R send k = roundtrip send (GET R k)
     (\<lambda>r. case dec_opt r of
        Inl e \<Rightarrow> Inl e
      | Inr None \<Rightarrow> Inr None
      | Inr (Some x) \<Rightarrow> (case ParseInt x of Some n \<Rightarrow> Inr (Some n) | None \<Rightarrow> Inl NotInteger))"

subsection \<open>Lists\<close>

definition redis_ListPush :: "redis_cmds \<Rightarrow> 'st transport \<Rightarrow> string \<Rightarrow> string \<Rightarrow> ('st, unit) io" where
  "redis_ListPush R send k x = roundtrip send (RPUSH R k x) dec_unit"

definition redis_ListPop :: "redis_cmds \<Rightarrow> 'st transport \<Rightarrow> string \<Rightarrow> ('st, string option) io" where
  "redis_ListPop R send k = roundtrip send (LPOP R k) dec_opt"

definition redis_ListLen :: "redis_cmds \<Rightarrow> 'st transport \<Rightarrow> string \<Rightarrow> ('st, int) io" where
  "redis_ListLen R send k = roundtrip send (LLEN R k) dec_int"

definition redis_ListRange :: "redis_cmds \<Rightarrow> 'st transport \<Rightarrow> string \<Rightarrow> int \<Rightarrow> int \<Rightarrow> ('st, string list) io" where
  "redis_ListRange R send k start stop = roundtrip send (LRANGE R k start stop) dec_list"

definition redis_ListRemove :: "redis_cmds \<Rightarrow> 'st transport \<Rightarrow> string \<Rightarrow> int \<Rightarrow> string \<Rightarrow> ('st, int) io" where
  "redis_ListRemove R send k cnt x = roundtrip send (LREM R k cnt x) dec_int"

definition redis_ListTrim :: "redis_cmds \<Rightarrow> 'st transport \<Rightarrow> string \<Rightarrow> int \<Rightarrow> int \<Rightarrow> ('st, unit) io" where
  "redis_ListTrim R send k start stop = roundtrip send (LTRIM R k start stop) dec_unit"

definition redis_ListPushTrimOverCap ::
    "redis_cmds \<Rightarrow> 'st transport \<Rightarrow> ('st \<Rightarrow> time) \<Rightarrow> string \<Rightarrow> string \<Rightarrow> int \<Rightarrow> duration \<Rightarrow> ('st, string list) io" where
  "redis_ListPushTrimOverCap R send now k x capMax d st =
     (if capMax \<le> 0 then (Inl BadCap, st)
      else if d < 0 then (Inl NegativeLifetime, st)
      else let ttl = redis_lifetime (now st) d
           in if ttl \<le> 0 then (Inl SpansNothing, st)
              else roundtrip send (luaListPushTrimOverCap R k x capMax (ttl div millis)) dec_list st)"

subsection \<open>Hashes\<close>

definition redis_HashSetFields :: "redis_cmds \<Rightarrow> 'st transport \<Rightarrow> string \<Rightarrow> (string \<times> string) list \<Rightarrow> ('st, unit) io" where
  "redis_HashSetFields R send k fvs = roundtrip send (HSET R k fvs) dec_unit"

text \<open>
  MULTI/EXEC around HSET and PEXPIRE: one act of the server; a queued command that fails does not
  stop the next one, and \<open>Exec\<close> returns the first error.
\<close>

definition tx_HSET_PEXPIRE :: "redis_cmds \<Rightarrow> string \<Rightarrow> (string \<times> string) list \<Rightarrow> int \<Rightarrow> command" where
  "tx_HSET_PEXPIRE R k fvs ms s =
     (if fvs = [] then (RErr BadArguments, s)
      else let (r1, s1) = HSET R k fvs s; (r2, s2) = PEXPIRE R k ms s1
           in (case (r1, r2) of (RErr e, _) \<Rightarrow> RErr e | (_, RErr e) \<Rightarrow> RErr e | _ \<Rightarrow> ROk, s2))"

definition redis_HashSetFieldsWithKeyTTL ::
    "redis_cmds \<Rightarrow> 'st transport \<Rightarrow> ('st \<Rightarrow> time) \<Rightarrow> string \<Rightarrow> (string \<times> string) list \<Rightarrow> duration \<Rightarrow> ('st, unit) io" where
  "redis_HashSetFieldsWithKeyTTL R send now k fvs d st =
     (if d < 0 then (Inl NegativeLifetime, st)
      else let span = redis_lifetime (now st) d
           in if span \<le> 0 then roundtrip send (DEL R [k]) dec_unit st
              else roundtrip send (tx_HSET_PEXPIRE R k fvs (span div millis)) dec_unit st)"

definition redis_HashSetFieldsIfExists ::
    "redis_cmds \<Rightarrow> 'st transport \<Rightarrow> string \<Rightarrow> (string \<times> string) list \<Rightarrow> ('st, bool) io" where
  "redis_HashSetFieldsIfExists R send k fvs = roundtrip send (luaSetFieldsIfExists R k fvs) dec_bool"

definition redis_HashSetFieldsWithKeyTTLIfExists ::
    "redis_cmds \<Rightarrow> 'st transport \<Rightarrow> ('st \<Rightarrow> time) \<Rightarrow> string \<Rightarrow> (string \<times> string) list \<Rightarrow> duration \<Rightarrow> ('st, bool) io" where
  "redis_HashSetFieldsWithKeyTTLIfExists R send now k fvs d st =
     (if d < 0 then (Inl NegativeLifetime, st)
      else roundtrip send (luaSetFieldsWithTTLIfExists R k (redis_lifetime (now st) d div millis) fvs) dec_bool st)"

definition redis_HashSetFieldsWithKeyTTLIfFieldEquals ::
    "redis_cmds \<Rightarrow> 'st transport \<Rightarrow> ('st \<Rightarrow> time) \<Rightarrow> string \<Rightarrow> string \<Rightarrow> string \<Rightarrow> (string \<times> string) list \<Rightarrow> duration
      \<Rightarrow> ('st, bool) io" where
  "redis_HashSetFieldsWithKeyTTLIfFieldEquals R send now k f x fvs d st =
     (if d < 0 then (Inl NegativeLifetime, st)
      else roundtrip send (luaSetFieldsWithTTLIfFieldEquals R k f x (redis_lifetime (now st) d div millis) fvs) dec_bool st)"

definition redis_HashGetField :: "redis_cmds \<Rightarrow> 'st transport \<Rightarrow> string \<Rightarrow> string \<Rightarrow> ('st, string option) io" where
  "redis_HashGetField R send k f = roundtrip send (HGET R k f) dec_opt"

text \<open>The loop over the reply slice: field \<open>i\<close> is entered unless its value is nil.\<close>

fun found_fields :: "string list \<Rightarrow> string option list \<Rightarrow> (string \<rightharpoonup> string)" where
  "found_fields (f # fs) (Some v # vs) = (found_fields fs vs)(f \<mapsto> v)"
| "found_fields (f # fs) (None # vs) = found_fields fs vs"
| "found_fields _ _ = Map.empty"

definition redis_HashGetFields :: "redis_cmds \<Rightarrow> 'st transport \<Rightarrow> string \<Rightarrow> string list \<Rightarrow> ('st, string \<rightharpoonup> string) io" where
  "redis_HashGetFields R send k fs = roundtrip send (HMGET R k fs)
     (\<lambda>r. case r of ROpts vs \<Rightarrow> Inr (found_fields fs vs) | RErr e \<Rightarrow> Inl e | _ \<Rightarrow> Inl WrongType)"

definition redis_HashRemoveFields :: "redis_cmds \<Rightarrow> 'st transport \<Rightarrow> string \<Rightarrow> string list \<Rightarrow> ('st, int) io" where
  "redis_HashRemoveFields R send k fs = roundtrip send (HDEL R k fs) dec_int"

definition redis_HashGetAll :: "redis_cmds \<Rightarrow> 'st transport \<Rightarrow> string \<Rightarrow> ('st, string \<rightharpoonup> string) io" where
  "redis_HashGetAll R send k = roundtrip send (HGETALL R k)
     (\<lambda>r. case r of RHash h \<Rightarrow> Inr (map_of h) | RErr e \<Rightarrow> Inl e | _ \<Rightarrow> Inl WrongType)"

definition redis_DB :: "redis_cmds \<Rightarrow> 'st transport \<Rightarrow> ('st \<Rightarrow> time) \<Rightarrow> (duration \<Rightarrow> int) \<Rightarrow> 'st kvdb" where
  "redis_DB R send now secs_of = \<lparr>
     Exists = redis_Exists R send,
     TTL = redis_TTL R send,
     Delete = redis_Delete R send,
     Expire = redis_Expire R send now,
     Persist = redis_Persist R send,
     SetValue = redis_SetValue R send now,
     SetValuePersistent = redis_SetValuePersistent R send,
     GetValue = redis_GetValue R send,
     SetValueIfNotExists = redis_SetValueIfNotExists R send now,
     SetValuePersistentIfNotExists = redis_SetValuePersistentIfNotExists R send,
     DeleteValueIfEquals = redis_DeleteValueIfEquals R send,
     SetValueIfEquals = redis_SetValueIfEquals R send,
     IncrementValue = redis_IncrementValue R send now secs_of,
     IncrementValuePersistent = redis_IncrementValuePersistent R send,
     GetValueAsInt64 = redis_GetValueAsInt64 R send,
     ListPush = redis_ListPush R send,
     ListPop = redis_ListPop R send,
     ListLen = redis_ListLen R send,
     ListRange = redis_ListRange R send,
     ListRemove = redis_ListRemove R send,
     ListTrim = redis_ListTrim R send,
     ListPushTrimOverCap = redis_ListPushTrimOverCap R send now,
     HashSetFields = redis_HashSetFields R send,
     HashSetFieldsWithKeyTTL = redis_HashSetFieldsWithKeyTTL R send now,
     HashSetFieldsIfExists = redis_HashSetFieldsIfExists R send,
     HashSetFieldsWithKeyTTLIfExists = redis_HashSetFieldsWithKeyTTLIfExists R send now,
     HashSetFieldsWithKeyTTLIfFieldEquals = redis_HashSetFieldsWithKeyTTLIfFieldEquals R send now,
     HashGetField = redis_HashGetField R send,
     HashGetFields = redis_HashGetFields R send,
     HashRemoveFields = redis_HashRemoveFields R send,
     HashGetAll = redis_HashGetAll R send\<rparr>"

end
