(* ===== verification/KVDB_Redis_Correct.thy ===== *)
theory KVDB_Redis_Correct
  imports KVDB_Redis
begin

text \<open>
  The Redis driver keeps the promise of \<open>kvdbs.DB\<close>: given a server that does what its
  documentation says and a round trip that runs a command at one moment (locale \<open>redis_driver\<close>),
  every method runs the act the interface documents (\<open>sublocale redis_driver \<subseteq> kvdb_store\<close>). A
  network with other clients and lost round trips instantiates it.
\<close>

section \<open>Decoding a round trip\<close>

definition decodes :: "(kvst \<Rightarrow> 'a kv_out \<Rightarrow> bool) \<Rightarrow> command \<Rightarrow> (reply \<Rightarrow> kv_error + 'a) \<Rightarrow> bool" where
  "decodes Rel c dec \<longleftrightarrow>
     (\<forall>v. case dec (fst (c v)) of
        Inr x \<Rightarrow> Rel v (Inr x, snd (c v))
      | Inl e \<Rightarrow> snd (c v) = v \<or> (\<exists>y. Rel v (y, snd (c v))))"

lemma decodes_effect: "decodes Rel c dec \<Longrightarrow> snd (c v) = v \<or> (\<exists>y. Rel v (y, snd (c v)))"
  unfolding decodes_def by (drule spec [of _ v]) (auto split: sum.splits)

lemma decodes_reply_of:
  assumes "\<And>v. c v = reply_of enc (eff v)" and "\<And>x. dec (enc x) = Inr x" and "\<And>e. dec (RErr e) = Inl e"
  shows "decodes (act eff) c dec"
  unfolding decodes_def act_def
  by (auto simp: assms reply_of_def split: prod.splits sum.splits)

lemma act_ttl_eq: "0 \<le> d \<Longrightarrow> span_ok P d L \<Longrightarrow> act (eff L) v out \<Longrightarrow> act_ttl P d eff v out"
  by (auto simp: act_def act_ttl_def)

lemma implements_weaken:
  assumes "implements env view Rel op" and "\<And>v out. Rel v out \<Longrightarrow> Rel' v out"
  shows "implements env view Rel' op"
  unfolding implements_def
proof (intro allI impI)
  fix st r st' assume "op st = (r, st')"
  then obtain v where v: "env (view st) v"
      "case r of Inr x \<Rightarrow> Rel v (Inr x, view st') | Inl e \<Rightarrow> view st' = v \<or> (\<exists>y. Rel v (y, view st'))"
    using assms(1) unfolding implements_def by blast
  show "\<exists>v. env (view st) v \<and>
      (case r of Inr x \<Rightarrow> Rel' v (Inr x, view st') | Inl e \<Rightarrow> view st' = v \<or> (\<exists>y. Rel' v (y, view st')))"
    by (rule exI [of _ v]) (use v assms(2) in \<open>auto split: sum.splits\<close>)
qed

locale redis_driver = redis_server R for R :: redis_cmds +
  fixes send :: "'st transport" and view :: "'st \<Rightarrow> kvst" and env :: "kvst \<Rightarrow> kvst \<Rightarrow> bool" and now :: "'st \<Rightarrow> time"
    and secs_of :: "duration \<Rightarrow> int"
  assumes env_refl: "env v v"
    and send_ok: "send c st = (Inr r, st') \<Longrightarrow> \<exists>v. env (view st) v \<and> c v = (r, view st')"
    and send_error: "send c st = (Inl e, st') \<Longrightarrow> \<exists>v. env (view st) v \<and> (view st' = v \<or> view st' = snd (c v))"
begin

lemma roundtrip_implements:
  assumes "decodes Rel c dec"
  shows "implements env view Rel (roundtrip send c dec)"
proof -
  have "\<exists>v. env (view st) v \<and>
      (case r of Inr x \<Rightarrow> Rel v (Inr x, view st') | Inl e \<Rightarrow> view st' = v \<or> (\<exists>y. Rel v (y, view st')))"
    if h: "roundtrip send c dec st = (r, st')" for st r st'
  proof (cases "send c st")
    case (Pair a st1)
    show ?thesis
    proof (cases a)
      case (Inl e)
      then obtain v where v: "env (view st) v" "view st1 = v \<or> view st1 = snd (c v)"
        using send_error Pair by blast
      then have "view st1 = v \<or> (\<exists>y. Rel v (y, view st1))" using decodes_effect [OF assms, of v] by auto
      then show ?thesis using h Pair Inl v(1) by (auto simp: roundtrip_def intro!: exI [of _ v])
    next
      case (Inr y)
      then obtain v where v: "env (view st) v" "c v = (y, view st1)" using send_ok Pair by blast
      have "case dec (fst (c v)) of Inr x \<Rightarrow> Rel v (Inr x, snd (c v)) | Inl e \<Rightarrow> snd (c v) = v \<or> (\<exists>y. Rel v (y, snd (c v)))"
        using assms by (simp add: decodes_def)
      then show ?thesis using h Pair Inr v by (auto simp: roundtrip_def split: sum.splits intro!: exI [of _ v])
    qed
  qed
  then show ?thesis by (auto simp: implements_def)
qed

text \<open>A refusal before anything is sent leaves the store alone.\<close>

lemma refuse_implements: "(\<And>st. op st = (Inl e, st)) \<Longrightarrow> implements env view Rel op"
  using env_refl by (auto simp: implements_def)

lemma redis_clock_span: "0 \<le> d \<Longrightarrow> is_i64 (d + millis) \<Longrightarrow> span_ok millis d (redis_lifetime t d)"
  using span_ok_ReadDurationFrom [of redis_clock d t]
  by (simp add: redis_lifetime_def redis_clock_def TimePrecision_def millis_def)

lemma span_millis: "span_ok millis d L \<Longrightarrow> L div millis * millis = L" "span_ok millis d L \<Longrightarrow> 0 < L \<Longrightarrow> 0 < L div millis"
  by (auto simp: span_ok_def millis_def)

text \<open>An operation with a lifetime: whatever span the clock gives, its body runs the act for that span.\<close>

lemma ttl_implements:
  assumes "is_i64 (d + millis)"
    and "\<And>st. d < 0 \<Longrightarrow> op st = (Inl e, st)"
    and "\<And>st. 0 \<le> d \<Longrightarrow> op st = body (redis_lifetime (now st) d) st"
    and "\<And>L. 0 \<le> d \<Longrightarrow> span_ok millis d L \<Longrightarrow> implements env view (act (eff L)) (body L)"
  shows "implements env view (act_ttl millis d eff) op"
proof (cases "d < 0")
  case True then show ?thesis using assms(2) refuse_implements by blast
next
  case False
  have "\<exists>v. env (view st) v \<and> (case r of Inr x \<Rightarrow> act_ttl millis d eff v (Inr x, view st')
      | Inl e \<Rightarrow> view st' = v \<or> (\<exists>y. act_ttl millis d eff v (y, view st')))"
    if "op st = (r, st')" for st r st'
  proof -
    let ?L = "redis_lifetime (now st) d"
    have L: "span_ok millis d ?L" using redis_clock_span False assms(1) by simp
    then have "implements env view (act_ttl millis d eff) (body ?L)"
      using False assms(4) by (intro implements_weaken [OF assms(4) act_ttl_eq]) auto
    moreover have "body ?L st = (r, st')" using that False assms(3) by simp
    ultimately show ?thesis unfolding implements_def by blast
  qed
  then show ?thesis by (simp add: implements_def)
qed

lemmas decode_simps = dec_defs reply_defs redis_call_def

lemma Delete_correct: "implements env view (act (eff_Delete ks)) (redis_Delete R send ks)"
  unfolding redis_Delete_def
  by (rule roundtrip_implements, rule decodes_reply_of [where enc = RInt]) (simp_all add: DEL_doc dec_int_def)

lemma GetValue_correct: "implements env view (act (eff_GetValue k)) (redis_GetValue R send k)"
  unfolding redis_GetValue_def
  by (rule roundtrip_implements, rule decodes_reply_of [where enc = ROpt])
    (simp_all add: GET_doc dec_opt_def ROpt_def split: option.splits)

lemma Expire_correct:
  "is_i64 (d + millis) \<Longrightarrow> implements env view (act_ttl millis d (eff_Expire k)) (redis_Expire R send now k d)"
proof (rule ttl_implements [where body = "\<lambda>L. roundtrip send (PEXPIRE R k (L div millis)) dec_bool"])
  fix L assume "span_ok millis d L"
  then show "implements env view (act (eff_Expire k L)) (roundtrip send (PEXPIRE R k (L div millis)) dec_bool)"
    by (intro roundtrip_implements decodes_reply_of [where enc = RBool])
      (simp_all add: PEXPIRE_doc doc_PEXPIRE_def span_millis dec_bool_def RBool_def)
qed (simp_all add: redis_Expire_def)

lemma SetValue_correct:
  "is_i64 (d + millis) \<Longrightarrow> implements env view (act_ttl millis d (eff_SetValue k x)) (redis_SetValue R send now k x d)"
proof (rule ttl_implements [where body = "\<lambda>L. if L > 0 then roundtrip send (SET R k x (Some (L div millis))) dec_unit
      else roundtrip send (DEL R [k]) dec_unit"])
  fix L assume "span_ok millis d L"
  then show "implements env view (act (eff_SetValue k x L))
      (if L > 0 then roundtrip send (SET R k x (Some (L div millis))) dec_unit else roundtrip send (DEL R [k]) dec_unit)"
    by (auto intro!: roundtrip_implements
        simp: decodes_def act_def SET_doc doc_SET_def DEL_doc reply_of_def dec_unit_def eff_SetValue_def span_millis)
qed (simp_all add: redis_SetValue_def Let_def)

lemma SetValueIfNotExists_correct:
  "is_i64 (d + millis) \<Longrightarrow>
     implements env view (act_ttl millis d (eff_SetValueIfNotExists k x)) (redis_SetValueIfNotExists R send now k x d)"
proof (rule ttl_implements [where body = "\<lambda>L st. if L \<le> 0 then (Inl SpansNothing, st)
      else roundtrip send (SETNX R k x (Some (L div millis))) dec_bool st"])
  fix L assume L: "span_ok millis d L"
  show "implements env view (act (eff_SetValueIfNotExists k x L))
      (\<lambda>st. if L \<le> 0 then (Inl SpansNothing, st) else roundtrip send (SETNX R k x (Some (L div millis))) dec_bool st)"
  proof (cases "L \<le> 0")
    case True then show ?thesis by (intro refuse_implements) simp
  next
    case False
    then show ?thesis using L
      by (auto intro!: roundtrip_implements
          simp: decodes_def act_def SETNX_doc doc_SETNX_def dec_bool_def eff_SetValueIfNotExists_def span_millis)
  qed
qed (simp_all add: redis_SetValueIfNotExists_def Let_def)

lemma SetValuePersistentIfNotExists_correct:
  "implements env view (act (eff_SetValuePersistentIfNotExists k x)) (redis_SetValuePersistentIfNotExists R send k x)"
  unfolding redis_SetValuePersistentIfNotExists_def
  by (rule roundtrip_implements)
    (auto simp: decodes_def act_def SETNX_doc doc_SETNX_def dec_bool_def eff_SetValuePersistentIfNotExists_def)

lemma DeleteValueIfEquals_correct:
  "implements env view (act (eff_DeleteValueIfEquals k x)) (redis_DeleteValueIfEquals R send k x)"
  unfolding redis_DeleteValueIfEquals_def
  by (rule roundtrip_implements, rule decodes_reply_of [where enc = RBool])
    (simp_all add: luaDeleteValueIfEquals_spec dec_bool_def RBool_def)

lemma SetValueIfEquals_correct:
  "implements env view (act (eff_SetValueIfEquals k x y)) (redis_SetValueIfEquals R send k x y)"
  unfolding redis_SetValueIfEquals_def
  by (rule roundtrip_implements, rule decodes_reply_of [where enc = RBool])
    (simp_all add: luaSetValueIfEquals_spec dec_bool_def RBool_def)

lemma ListRemove_correct: "implements env view (act (eff_ListRemove k n x)) (redis_ListRemove R send k n x)"
  unfolding redis_ListRemove_def
  by (rule roundtrip_implements, rule decodes_reply_of [where enc = RInt]) (simp_all add: LREM_doc dec_int_def)

lemma ListPushTrimOverCap_correct:
  assumes "is_i64 (d + millis)"
  shows "implements env view (act_ttl millis d (eff_ListPushTrimOverCap k x n)) (redis_ListPushTrimOverCap R send now k x n d)"
proof (cases "n \<le> 0")
  case True then show ?thesis by (intro refuse_implements) (simp add: redis_ListPushTrimOverCap_def)
next
  case False
  show ?thesis
  proof (rule ttl_implements [OF assms, where body = "\<lambda>L st. if L \<le> 0 then (Inl SpansNothing, st)
        else roundtrip send (luaListPushTrimOverCap R k x n (L div millis)) dec_list st"])
    fix L assume L: "span_ok millis d L"
    show "implements env view (act (eff_ListPushTrimOverCap k x n L)) (\<lambda>st. if L \<le> 0 then (Inl SpansNothing, st)
        else roundtrip send (luaListPushTrimOverCap R k x n (L div millis)) dec_list st)"
    proof (cases "L \<le> 0")
      case True then show ?thesis by (intro refuse_implements) simp
    next
      case pos: False
      have "implements env view (act (eff_ListPushTrimOverCap k x n L))
          (roundtrip send (luaListPushTrimOverCap R k x n (L div millis)) dec_list)"
        using False pos L by (intro roundtrip_implements decodes_reply_of [where enc = RList])
          (simp_all add: luaListPushTrimOverCap_spec span_millis dec_list_def)
      then show ?thesis using pos by simp
    qed
  qed (use False in \<open>simp_all add: redis_ListPushTrimOverCap_def Let_def\<close>)
qed

lemma found_fields_map: "found_fields fs (map h fs) = (\<lambda>f. if f \<in> set fs then h f else None)"
  by (induction fs) (auto split: option.splits simp: fun_eq_iff, (case_tac "h a"; auto)+)

lemma HashGetFields_correct: "implements env view (act (eff_HashGetFields k fs)) (redis_HashGetFields R send k fs)"
  unfolding redis_HashGetFields_def
  by (rule roundtrip_implements)
    (auto simp: decodes_def act_def HMGET_doc doc_HMGET_def eff_HashGetFields_def found_fields_map
      split: sum.splits prod.splits)

lemma HashGetAll_correct: "implements env view (act (eff_HashGetAll k)) (redis_HashGetAll R send k)"
  unfolding redis_HashGetAll_def
  by (rule roundtrip_implements)
    (auto simp: decodes_def act_def HGETALL_doc doc_HGETALL_def eff_HashGetAll_def split: sum.splits prod.splits)

lemma tx_HSET_PEXPIRE_spec:
  assumes "0 < ms"
  shows "tx_HSET_PEXPIRE R k fvs ms s = reply_of (\<lambda>_. ROk) (eff_HashSetFieldsWithKeyTTL k fvs (ms * millis) s)"
proof (cases "as_hash (kv_get s k)")
  case (Inl e)
  then show ?thesis using assms
    by (auto simp: tx_HSET_PEXPIRE_def HSET_doc doc_HSET_def PEXPIRE_doc doc_PEXPIRE_def eff_HashSetFieldsWithKeyTTL_def
        reply_defs millis_def split: sum.splits prod.splits)
next
  case (Inr p)
  obtain h m where p: "p = (h, m)" by (cases p)
  have m: "m = None \<or> (\<exists>d. m = Some d \<and> kv_clock s \<le> d)"
    using Inr p kv_get_mark [of s k] by (auto simp: as_hash_def split: option.splits prod.splits kv_value.splits)
  then show ?thesis using Inr p assms
    by (auto simp: tx_HSET_PEXPIRE_def HSET_doc doc_HSET_def PEXPIRE_doc doc_PEXPIRE_def eff_HashSetFieldsWithKeyTTL_def
        eff_Expire_def reply_defs millis_def mult_le_0_iff)
qed

lemma HashSetFieldsWithKeyTTL_correct:
  "is_i64 (d + millis) \<Longrightarrow>
     implements env view (act_ttl millis d (eff_HashSetFieldsWithKeyTTL k fvs)) (redis_HashSetFieldsWithKeyTTL R send now k fvs d)"
proof (rule ttl_implements [where body = "\<lambda>L. if L \<le> 0 then roundtrip send (DEL R [k]) dec_unit
      else roundtrip send (tx_HSET_PEXPIRE R k fvs (L div millis)) dec_unit"])
  fix L assume L: "span_ok millis d L"
  show "implements env view (act (eff_HashSetFieldsWithKeyTTL k fvs L)) (if L \<le> 0 then roundtrip send (DEL R [k]) dec_unit
      else roundtrip send (tx_HSET_PEXPIRE R k fvs (L div millis)) dec_unit)"
  proof (cases "L \<le> 0")
    case True
    then show ?thesis
      by (auto intro!: roundtrip_implements simp: decodes_def act_def DEL_doc reply_of_def dec_unit_def eff_HashSetFieldsWithKeyTTL_def)
  next
    case False
    have "implements env view (act (eff_HashSetFieldsWithKeyTTL k fvs L))
        (roundtrip send (tx_HSET_PEXPIRE R k fvs (L div millis)) dec_unit)"
      using L False by (intro roundtrip_implements decodes_reply_of [where enc = "\<lambda>_. ROk"])
        (simp_all add: tx_HSET_PEXPIRE_spec span_millis dec_unit_def)
    then show ?thesis using False by simp
  qed
qed (simp_all add: redis_HashSetFieldsWithKeyTTL_def Let_def)

lemma HashSetFieldsIfExists_correct:
  "fvs \<noteq> [] \<Longrightarrow> implements env view (act (eff_HashSetFieldsIfExists k fvs)) (redis_HashSetFieldsIfExists R send k fvs)"
  unfolding redis_HashSetFieldsIfExists_def
  by (rule roundtrip_implements, rule decodes_reply_of [where enc = RBool])
    (simp_all add: luaSetFieldsIfExists_spec dec_bool_def RBool_def)

lemma HashSetFieldsWithKeyTTLIfExists_correct:
  "fvs \<noteq> [] \<Longrightarrow> is_i64 (d + millis) \<Longrightarrow>
     implements env view (act_ttl millis d (eff_HashSetFieldsWithKeyTTLIfExists k fvs))
       (redis_HashSetFieldsWithKeyTTLIfExists R send now k fvs d)"
  by (rule ttl_implements [where
        body = "\<lambda>L. roundtrip send (luaSetFieldsWithTTLIfExists R k (L div millis) fvs) dec_bool"])
    (auto intro!: roundtrip_implements decodes_reply_of [where enc = RBool]
      simp: redis_HashSetFieldsWithKeyTTLIfExists_def luaSetFieldsWithTTLIfExists_spec span_millis dec_bool_def RBool_def)

lemma HashSetFieldsWithKeyTTLIfFieldEquals_correct:
  "fvs \<noteq> [] \<Longrightarrow> is_i64 (d + millis) \<Longrightarrow>
     implements env view (act_ttl millis d (eff_HashSetFieldsWithKeyTTLIfFieldEquals k f x fvs))
       (redis_HashSetFieldsWithKeyTTLIfFieldEquals R send now k f x fvs d)"
  by (rule ttl_implements [where
        body = "\<lambda>L. roundtrip send (luaSetFieldsWithTTLIfFieldEquals R k f x (L div millis) fvs) dec_bool"])
    (auto intro!: roundtrip_implements decodes_reply_of [where enc = RBool]
      simp: redis_HashSetFieldsWithKeyTTLIfFieldEquals_def luaSetFieldsWithTTLIfFieldEquals_spec span_millis dec_bool_def RBool_def)

lemmas driver_correct = Delete_correct GetValue_correct Expire_correct SetValue_correct SetValueIfNotExists_correct
  SetValuePersistentIfNotExists_correct DeleteValueIfEquals_correct SetValueIfEquals_correct ListRemove_correct
  ListPushTrimOverCap_correct HashGetFields_correct HashGetAll_correct HashSetFieldsWithKeyTTL_correct
  HashSetFieldsIfExists_correct HashSetFieldsWithKeyTTLIfExists_correct HashSetFieldsWithKeyTTLIfFieldEquals_correct

end

sublocale redis_driver \<subseteq> kvdb_store "redis_DB R send now secs_of" view env millis
proof unfold_locales
  show "0 < millis" by (simp add: millis_def)
qed (simp_all add: redis_DB_def driver_correct)

section \<open>A network of clients\<close>

text \<open>
  A concrete world: the server's store, the process clock, for every coming round trip what the
  other clients do first (actions interpreted by \<open>other\<close>), and which round trips are lost,
  before the command ran or after.
\<close>

datatype fault = NoFault | LostRequest | LostReply

record 'a net =
  nt_store :: kvst
  nt_now :: time
  nt_moves :: "'a list list"
  nt_faults :: "fault list"

definition net_send :: "('a \<Rightarrow> kvst \<Rightarrow> kvst) \<Rightarrow> 'a net transport" where
  "net_send other c w =
     (let v = fold other (case nt_moves w of [] \<Rightarrow> [] | ms # _ \<Rightarrow> ms) (nt_store w);
          f = (case nt_faults w of [] \<Rightarrow> NoFault | f # _ \<Rightarrow> f);
          (r, v') = c v;
          w' = w\<lparr>nt_moves := tl (nt_moves w), nt_faults := tl (nt_faults w)\<rparr>
      in case f of
           NoFault \<Rightarrow> (Inr r, w'\<lparr>nt_store := v'\<rparr>)
         | LostRequest \<Rightarrow> (Inl Unreachable, w'\<lparr>nt_store := v\<rparr>)
         | LostReply \<Rightarrow> (Inl Unreachable, w'\<lparr>nt_store := v'\<rparr>))"

definition env_of :: "('a \<Rightarrow> kvst \<Rightarrow> kvst) \<Rightarrow> kvst \<Rightarrow> kvst \<Rightarrow> bool" where
  "env_of other v v' \<longleftrightarrow> (\<exists>ms. v' = fold other ms v)"

definition net_DB :: "('a \<Rightarrow> kvst \<Rightarrow> kvst) \<Rightarrow> 'a net kvdb" where
  "net_DB other = redis_DB redis_ref (net_send other) nt_now (\<lambda>d. d div time_Second)"

lemma net_send_result:
  assumes "net_send other c w = (r, w')"
  shows "\<exists>v. env_of other (nt_store w) v \<and>
    (case r of Inr y \<Rightarrow> c v = (y, nt_store w') | Inl e \<Rightarrow> nt_store w' = v \<or> nt_store w' = snd (c v))"
proof -
  let ?v = "fold other (case nt_moves w of [] \<Rightarrow> [] | ms # _ \<Rightarrow> ms) (nt_store w)"
  have "env_of other (nt_store w) ?v" by (auto simp: env_of_def)
  then show ?thesis using assms
    by (intro exI [of _ ?v]) (auto simp: net_send_def Let_def split: prod.splits fault.splits list.splits)
qed

interpretation netdrv: redis_driver redis_ref "net_send other" nt_store "env_of other" nt_now "\<lambda>d. d div time_Second"
  for other
proof unfold_locales
  show "env_of other v v" for v by (auto simp: env_of_def intro: exI [of _ "[]"])
  show "\<exists>v. env_of other (nt_store w) v \<and> c v = (r, nt_store w')" if "net_send other c w = (Inr r, w')" for c w r w'
    using net_send_result [OF that] by simp
  show "\<exists>v. env_of other (nt_store w) v \<and> (nt_store w' = v \<or> nt_store w' = snd (c v))"
    if "net_send other c w = (Inl e, w')" for c w e w'
    using net_send_result [OF that] by simp
qed

text \<open>With no other clients, the store between two calls does not move.\<close>

lemma env_of_quiet [simp]: "env_of (\<lambda>_ s. s) v v' \<longleftrightarrow> v' = v"
proof -
  have "fold (\<lambda>_ s. s) ms v = v" for ms :: "'a list" by (induction ms) auto
  then show ?thesis by (auto simp: env_of_def)
qed

lemma quiet_driver: "redis_driver redis_ref (net_send (\<lambda>(_::unit) s. s)) nt_store (=)"
proof -
  have "env_of (\<lambda>(_::unit) s. s) = (=)" by (auto simp: fun_eq_iff)
  then show ?thesis using netdrv.redis_driver_axioms [of "\<lambda>(_::unit) s. s"] by (simp only:)
qed

lemma kvdb_store_net: "kvdb_store (net_DB other) nt_store (env_of other) millis"
  unfolding net_DB_def by (rule netdrv.kvdb_store_axioms)

section \<open>Properties\<close>

text \<open>
  An entry placed for the span a stretch \<open>d\<close> starting at \<open>t0\<close> reads as is visible on the whole of
  that stretch, and gone one tick after its end.
\<close>

lemma placed_lifetime:
  assumes P: "0 < precision c" and d: "0 \<le> d" "is_i64 (d + precision c)"
    and s: "kv_clock s = Read c t0"
    and s': "s' = kv_put k (v, kv_mark s (ReadDurationFrom c t0 d)) s"
  shows "t \<le> t0 + d \<Longrightarrow> kv_get (s'\<lparr>kv_clock := Read c t\<rparr>) k = Some (v, Some (Read c (t0 + d)))"
    and "t0 + d + precision c \<le> t \<Longrightarrow> kv_get (s'\<lparr>kv_clock := Read c t\<rparr>) k = None"
proof -
  have m: "kv_mark s (ReadDurationFrom c t0 d) = Some (Read c (t0 + d))"
    using ReadDurationFrom_eq [OF P d] s by (simp add: kv_mark_def)
  have "Read c t \<le> Read c (t0 + d)" if "t \<le> t0 + d"
    using time_Truncate_mono [OF P that] by (simp add: Read_def)
  then show "t \<le> t0 + d \<Longrightarrow> kv_get (s'\<lparr>kv_clock := Read c t\<rparr>) k = Some (v, Some (Read c (t0 + d)))"
    by (simp add: s' m kv_get_def kv_put_def)
  have "Read c (t0 + d) < Read c t" if "t0 + d + precision c \<le> t"
    using time_Truncate_bounds [OF P, of "t0 + d"] time_Truncate_bounds [OF P, of t] that by (simp add: Read_def)
  then show "t0 + d + precision c \<le> t \<Longrightarrow> kv_get (s'\<lparr>kv_clock := Read c t\<rparr>) k = None"
    by (simp add: s' m kv_get_def kv_put_def)
qed

context redis_driver
begin

lemma driver_is_store: "kvdb_store (redis_DB R send now secs_of) view env millis"
  by unfold_locales

lemma roundtrip_ok:
  assumes "roundtrip send c dec st = (Inr x, st')"
  obtains v r where "env (view st) v" "c v = (r, view st')" "dec r = Inr x"
  using assms send_ok by (fastforce simp: roundtrip_def split: prod.splits sum.splits)

lemma IncrementValue_fresh:
  assumes "env = (=)" "\<And>t. secs_of t = t div time_Second" "kv_get (view st) k = None"
    and "redis_IncrementValue R send now secs_of k 1 (1900 * millis) st = (Inr n, st')"
  shows "view st' = kv_put k (VStr (Itoa 1), kv_mark (view st) time_Second) (view st)"
proof -
  define L where "L = redis_lifetime (now st) (1900 * millis)"
  have "span_ok millis (1900 * millis) L" unfolding L_def by (intro redis_clock_span) (simp_all add: millis_def is_i64_def)
  then have L: "0 < L" "L div time_Second = 1" by (auto simp: span_ok_def millis_def time_Second_def)
  then obtain st1 m where i: "roundtrip send (INCRBY R k 1) dec_int st = (Inr m, st1)"
      and e: "roundtrip send (EXPIRENX R k 1) dec_unit st1 = (Inr (), st')"
    using assms(4) unfolding redis_IncrementValue_def Let_def L_def [symmetric]
    by (auto simp: assms(2) millis_def split: prod.splits sum.splits)
  from i have v1: "view st1 = kv_put k (VStr (Itoa 1), None) (view st)"
    using assms(3) by (elim roundtrip_ok) (auto simp: assms(1) INCRBY_doc eff_IncrementValuePersistent_def reply_of_def)
  from e show ?thesis
    by (rule roundtrip_ok) (auto simp: assms(1) v1 EXPIRENX_doc doc_EXPIRENX_def)
qed

lemma SetValue_placed:
  assumes "env = (=)" "kv_clock (view st) = Read redis_clock (now st)"
    and "millis \<le> d" "is_i64 (d + millis)" "redis_SetValue R send now k x d st = (Inr (), st')"
  shows "view st' = kv_put k (VStr x, kv_mark (view st) (ReadDurationFrom redis_clock (now st) d)) (view st)"
proof -
  have sp: "span_ok millis d (redis_lifetime (now st) d)" using assms(3,4) by (intro redis_clock_span) (auto simp: millis_def)
  then have L: "millis \<le> redis_lifetime (now st) d" using assms(3) span_ok_pos by (auto simp: millis_def)
  then have "roundtrip send (SET R k x (Some (redis_lifetime (now st) d div millis))) dec_unit st = (Inr (), st')"
    using assms(3,5) by (simp add: redis_SetValue_def Let_def millis_def split: if_splits)
  then obtain r where "send (SET R k x (Some (redis_lifetime (now st) d div millis))) st = (Inr r, st')"
    by (auto simp: roundtrip_def split: prod.splits sum.splits)
  from send_ok [OF this] show ?thesis
    using assms(1) span_millis(1) [OF sp] by (simp add: SET_doc doc_SET_def redis_lifetime_def)
qed

end



text \<open>A lifetime stored by the Redis driver covers the one asked for: a value set for \<open>d\<close> (one
  millisecond or more) at \<open>now\<close> is readable at every instant up to \<open>now + d\<close>, and at no instant
  from one clock tick after that.\<close>

theorem redis_SetValue_lifetime_covers:
  assumes "redis_driver R send view (=)"
    and "kv_clock (view st) = Read redis_clock (now st)"
    and "millis \<le> d" and "is_i64 (d + millis)"
    and "redis_SetValue R send now k x d st = (Inr (), st')"
  shows "\<forall>t. (t \<le> now st + d \<longrightarrow> (\<exists>m. kv_get (view st'\<lparr>kv_clock := Read redis_clock t\<rparr>) k = Some (VStr x, m)))
       \<and> (now st + d + millis \<le> t \<longrightarrow> kv_get (view st'\<lparr>kv_clock := Read redis_clock t\<rparr>) k = None)"
proof -
  have p: "precision redis_clock = millis" "0 < millis" by (simp_all add: redis_clock_def TimePrecision_def millis_def)
  show ?thesis
    using placed_lifetime [of redis_clock d "view st" "now st" "view st'" k "VStr x"]
      redis_driver.SetValue_placed [OF assms(1) refl assms(2-5)] assms(2-4) p
    by auto
qed

theorem redis_SetValue_lifetime_covers_witness:
  "let w = \<lparr>nt_store = \<lparr>kv_clock = 5000000, kv_data = \<lambda>_. None\<rparr>, nt_now = 5400000, nt_moves = [], nt_faults = []\<rparr>;
       (r, w') = redis_SetValue redis_ref (net_send (\<lambda>(_::unit) s. s)) nt_now ''k'' ''v'' 1700000 w
   in r = Inr () \<and> (\<exists>m. kv_get (nt_store w'\<lparr>kv_clock := Read redis_clock 7050000\<rparr>) ''k'' = Some (VStr ''v'', m))"
proof -
  let ?w = "\<lparr>nt_store = \<lparr>kv_clock = 5000000, kv_data = \<lambda>_. None\<rparr>, nt_now = 5400000, nt_moves = [], nt_faults = []\<rparr> :: unit net"
  let ?op = "redis_SetValue redis_ref (net_send (\<lambda>(_::unit) s. s)) nt_now ''k'' ''v'' 1700000 ?w"
  have ok: "?op = (Inr (), snd ?op)"
    by (simp add: redis_SetValue_def redis_lifetime_def ReadDurationFrom_def ReadBetween_def Read_def redis_clock_def
        TimePrecision_def millis_def time_Truncate_def time_zero_def time_Second_def time_Sub_def roundtrip_def net_send_def
        redis_ref_def doc_SET_def dec_unit_def Let_def)
  have c: "kv_clock (nt_store ?w) = Read redis_clock (nt_now ?w)"
    by (simp add: Read_def redis_clock_def TimePrecision_def millis_def time_Truncate_def time_zero_def time_Second_def)
  show ?thesis
    using redis_SetValue_lifetime_covers [OF quiet_driver c _ _ ok] ok
    by (auto simp: millis_def is_i64_def split: prod.splits)
qed

text \<open>\<open>IncrementValue\<close> of the Redis driver breaks the lifetime guarantee it shares: on a fresh
  counter, with EXPIRE writing a duration as whole seconds rounded down, a lifetime of 1.9 s ends
  at most one second after the server's reading, while the contract's act keeps the counter for 1.9 s.\<close>

theorem redis_IncrementValue_falls_short:
  assumes "redis_driver R send view (=)" and "\<forall>t. secs_of t = t div time_Second"
    and "kv_get (view st) k = None"
    and "redis_IncrementValue R send now secs_of k 1 (1900 * millis) st = (Inr n, st')"
  shows "\<exists>v m. kv_get (view st') k = Some (v, Some m) \<and> m \<le> kv_clock (view st) + time_Second"
  using redis_driver.IncrementValue_fresh [OF assms(1) refl _ assms(3,4)] assms(2)
  by (simp add: kv_mark_def time_Second_def)

theorem redis_IncrementValue_falls_short_witness:
  "let w = \<lparr>nt_store = \<lparr>kv_clock = 0, kv_data = \<lambda>_. None\<rparr>, nt_now = 0, nt_moves = [], nt_faults = []\<rparr>;
       (r, w') = redis_IncrementValue redis_ref (net_send (\<lambda>(_::unit) s. s)) nt_now (\<lambda>d. d div time_Second)
                   ''n'' 1 (1900 * millis) w
   in r = Inr 1 \<and> (\<exists>v m. kv_get (nt_store w') ''n'' = Some (v, Some m) \<and> m \<le> time_Second)"
proof -
  let ?w = "\<lparr>nt_store = \<lparr>kv_clock = 0, kv_data = \<lambda>_. None\<rparr>, nt_now = 0, nt_moves = [], nt_faults = []\<rparr> :: unit net"
  let ?op = "redis_IncrementValue redis_ref (net_send (\<lambda>(_::unit) s. s)) nt_now (\<lambda>d. d div time_Second) ''n'' 1 (1900 * millis) ?w"
  have ok: "?op = (Inr 1, snd ?op)"
    by (simp add: redis_IncrementValue_def redis_lifetime_def ReadDurationFrom_def ReadBetween_def Read_def redis_clock_def
        TimePrecision_def millis_def time_Truncate_def time_zero_def time_Second_def time_Sub_def roundtrip_def net_send_def
        redis_ref_def doc_EXPIRENX_def reply_of_def eff_IncrementValuePersistent_def kv_get_def kv_put_def dec_int_def dec_unit_def Let_def)
  obtain w' where w': "?op = (Inr 1, w')" using ok by blast
  have "kv_get (nt_store ?w) ''n'' = None" by (simp add: kv_get_def)
  from redis_IncrementValue_falls_short [OF quiet_driver _ this w'] show ?thesis
    by (simp add: w')
qed

end
