(* ===== verification/Throttle_KVDB.thy ===== *)
theory Throttle_KVDB
  imports Throttle_InMem KVDB_Redis_Correct
begin

text \<open>
  \<open>gw/throttle/limiterkvdbbuckets.go\<close>: the limiter whose buckets live in a key-value database, one
  value "tokens|nanos" per bucket, spent with conditional writes. The database is a parameter
  (\<open>'st kvdb\<close>); what the limiter relies on is \<open>kvdb_store\<close>. The remembered refusals are an association
  list, since the code looks at how many there are.
\<close>

section \<open>The stored form of a bucket\<close>

definition parseBucket :: "string option \<Rightarrow> (int \<times> time) option" where
  "parseBucket raw = (case raw of
      None \<Rightarrow> None
    | Some r \<Rightarrow> (case Cut (CHR ''|'') r of
        None \<Rightarrow> None
      | Some (rawTokens, rawLast) \<Rightarrow> (case ParseInt rawTokens of
          None \<Rightarrow> None
        | Some t \<Rightarrow> (case ParseInt rawLast of None \<Rightarrow> None | Some nanos \<Rightarrow> Some (t, nanos)))))"

definition formatBucket :: "int \<Rightarrow> time \<Rightarrow> string" where
  "formatBucket t l = Itoa t @ ''|'' @ Itoa (i64 l)"

definition refilled :: "int \<Rightarrow> time \<Rightarrow> BucketConf \<Rightarrow> time \<Rightarrow> (int \<times> time) option" where
  "refilled t l conf now =
     (let elapsed = time_Sub now l
      in if elapsed < IncrPeriod conf then Some (t, l)
         else if IncrPeriod conf = 0 then None
         else let times = i64 (elapsed sdiv IncrPeriod conf);
                  t' = i64 (t + i64 (times * Increment conf));
                  t'' = (if t' > Burst conf then Burst conf else t')
              in Some (t'', l + i64 (times * IncrPeriod conf)))"

definition idleTTL :: "BucketConf \<Rightarrow> duration option" where
  "idleTTL conf =
     (if Increment conf = 0 then None
      else Some (i64 (i64 (i64 (i64 (Burst conf + Increment conf) - 1) sdiv Increment conf) * IncrPeriod conf)))"

lemma parse_format [simp]: "is_i64 t \<Longrightarrow> is_i64 l \<Longrightarrow> parseBucket (Some (formatBucket t l)) = Some (t, l)"
  by (simp add: parseBucket_def formatBucket_def)

lemma formatBucket_inj:
  "is_i64 t \<Longrightarrow> is_i64 l \<Longrightarrow> is_i64 t' \<Longrightarrow> is_i64 l' \<Longrightarrow> formatBucket t l = formatBucket t' l' \<Longrightarrow> t = t' \<and> l = l'"
  using parse_format by (metis Pair_inject option.inject)

text \<open>The same refill as in memory.\<close>

lemma refilled_refill:
  "refilled t l conf now = map_option (\<lambda>b. (tokens b, lastCheck b)) (refill conf now \<lparr>tokens = t, lastCheck = l\<rparr>)"
  by (simp add: refilled_def refill_def Let_def)

section \<open>The limiter\<close>

record LimiterKVDBBuckets =
  kl_name :: string
  kl_gate :: gate
  kl_prefix :: string
  kl_groups :: "string \<Rightarrow> BucketConf option"
  kl_askAfter :: "(string \<times> time) list"

definition NewLimiterKVDBBucketsAs :: "string \<Rightarrow> string \<Rightarrow> LimiterKVDBBuckets" where
  "NewLimiterKVDBBucketsAs name prefix =
     \<lparr>kl_name = name, kl_gate = gate_new, kl_prefix = prefix, kl_groups = (\<lambda>_. None), kl_askAfter = []\<rparr>"

text \<open>\<open>conf\<close> is the pointer the caller hands in; \<open>None\<close> is nil.\<close>

definition KV_SetBucketGroup ::
    "string \<Rightarrow> BucketConf option \<Rightarrow> LimiterKVDBBuckets \<Rightarrow> throttle_error option \<times> LimiterKVDBBuckets" where
  "KV_SetBucketGroup i conf l = (case conf of
      None \<Rightarrow> (Some ConfRequired, l)
    | Some c \<Rightarrow>
        if Burst c < 1 \<or> Increment c < 1 \<or> IncrPeriod c \<le> 0 then (Some ConfNotPositive, l)
        else (None, l\<lparr>kl_groups := (kl_groups l)(i \<mapsto> c)\<rparr>))"

definition KV_HasGroup :: "LimiterKVDBBuckets \<Rightarrow> string \<Rightarrow> bool" where
  "KV_HasGroup l i = (kl_groups l i \<noteq> None)"

definition casAttempts :: nat where "casAttempts = 3"

definition denySweepAt :: nat where "denySweepAt = 1024"

definition refusalStands :: "string \<Rightarrow> time \<Rightarrow> LimiterKVDBBuckets \<Rightarrow> bool" where
  "refusalStands key now l = (case map_of (kl_askAfter l) key of None \<Rightarrow> False | Some until \<Rightarrow> now < until)"

definition rememberRefusal :: "string \<Rightarrow> time \<Rightarrow> time \<Rightarrow> LimiterKVDBBuckets \<Rightarrow> LimiterKVDBBuckets" where
  "rememberRefusal key until now l =
     (let m = (if length (kl_askAfter l) \<ge> denySweepAt then filter (\<lambda>(k, u). now < u) (kl_askAfter l) else kl_askAfter l)
      in l\<lparr>kl_askAfter := AList.update key until m\<rparr>)"

datatype admit_error = StoreError kv_error | Unsettled | AdmitPanic

text \<open>
  The two ways one turn of the loop ends, as the answer to return (\<open>None\<close>: take another turn). First
  sight of a bucket: create it full, minus the token this call takes.
\<close>

definition first_sight :: "'st kvdb \<Rightarrow> BucketConf \<Rightarrow> string \<Rightarrow> time \<Rightarrow> 'st \<Rightarrow> (admit_error + bool) option \<times> 'st" where
  "first_sight db conf key now st = (case idleTTL conf of
      None \<Rightarrow> (Some (Inl AdmitPanic), st)
    | Some ttl \<Rightarrow> (case SetValueIfNotExists db key (formatBucket (i64 (Burst conf - 1)) now) ttl st of
          (Inl e, st') \<Rightarrow> (Some (Inl (StoreError e)), st')
        | (Inr created, st') \<Rightarrow> (if created then Some (Inr True) else None, st')))"

text \<open>A bucket with a token: swap it for one less, then push its expiry out.\<close>

definition spend_token ::
    "'st kvdb \<Rightarrow> BucketConf \<Rightarrow> string \<Rightarrow> string \<Rightarrow> int \<Rightarrow> time \<Rightarrow> 'st \<Rightarrow> (admit_error + bool) option \<times> 'st" where
  "spend_token db conf key raw t l st =
     (case SetValueIfEquals db key raw (formatBucket (i64 (t - 1)) l) st of
        (Inl e, st') \<Rightarrow> (Some (Inl (StoreError e)), st')
      | (Inr swapped, st') \<Rightarrow>
          if swapped then (case idleTTL conf of
              None \<Rightarrow> (Some (Inl AdmitPanic), st')
            | Some ttl \<Rightarrow> (case Expire db key ttl st' of
                  (Inl e, st'') \<Rightarrow> (Some (Inl (StoreError e)), st'')
                | (Inr _, st'') \<Rightarrow> (Some (Inr True), st'')))
          else (None, st'))"

fun admit_loop :: "nat \<Rightarrow> 'st kvdb \<Rightarrow> BucketConf \<Rightarrow> string \<Rightarrow> time \<Rightarrow> LimiterKVDBBuckets \<Rightarrow> 'st
    \<Rightarrow> (admit_error + bool) \<times> LimiterKVDBBuckets \<times> 'st" where
  "admit_loop 0 db conf key now l st = (Inl Unsettled, l, st)"
| "admit_loop (Suc n) db conf key now l st = (case GetValue db key st of
      (Inl e, st1) \<Rightarrow> (Inl (StoreError e), l, st1)
    | (Inr raw, st1) \<Rightarrow> (case parseBucket raw of
        None \<Rightarrow> (case first_sight db conf key now st1 of
            (Some r, st2) \<Rightarrow> (r, l, st2)
          | (None, st2) \<Rightarrow> admit_loop n db conf key now l st2)
      | Some (t, lst) \<Rightarrow> (case refilled t lst conf now of
            None \<Rightarrow> (Inl AdmitPanic, l, st1)
          | Some (t', lst') \<Rightarrow>
              if t' \<le> 0 then (Inr False, rememberRefusal key (lst' + IncrPeriod conf) now l, st1)
              else (case spend_token db conf key (the raw) t' lst' st1 of
                  (Some r, st2) \<Rightarrow> (r, l, st2)
                | (None, st2) \<Rightarrow> admit_loop n db conf key now l st2))))"

definition bucket_key :: "LimiterKVDBBuckets \<Rightarrow> string \<Rightarrow> string \<Rightarrow> string" where
  "bucket_key l groupID bucketID = kl_prefix l @ groupID @ '':'' @ bucketID"

definition KV_TryAdmit :: "'st kvdb \<Rightarrow> string \<Rightarrow> string \<Rightarrow> time \<Rightarrow> LimiterKVDBBuckets \<Rightarrow> 'st
    \<Rightarrow> (admit_error + bool) \<times> LimiterKVDBBuckets \<times> 'st" where
  "KV_TryAdmit db groupID bucketID now l st = (case kl_groups l groupID of
      None \<Rightarrow> (Inr False, l, st)
    | Some conf \<Rightarrow>
        (let key = bucket_key l groupID bucketID
         in if refusalStands key now l then (Inr False, l, st)
            else admit_loop casAttempts db conf key now l st))"

lemma idleTTL_fill_time:
  assumes c: "conf_ok c" and f: "is_i64 (fill_time c)"
  shows "idleTTL c = Some (fill_time c)"
proof -
  let ?n = "(Burst c + Increment c - 1) div Increment c"
  have pos: "0 < Burst c" "0 < Increment c" "0 < IncrPeriod c" using c by (auto simp: conf_ok_def)
  have "1 \<le> (2 ^ 63 - 1) div IncrPeriod c" using c by (simp add: conf_ok_def pos_imp_zdiv_pos_iff int_one_le_iff_zero_less)
  then have "Increment c \<le> (2 ^ 63 - 1) div IncrPeriod c * Increment c" using pos by simp
  then have s: "is_i64 (Burst c + Increment c)" "is_i64 (Burst c + Increment c - 1)"
    using c pos unfolding conf_ok_def is_i64_def by linarith+
  have n: "0 \<le> ?n" using pos by (simp add: pos_imp_zdiv_nonneg_iff)
  then have "?n \<le> ?n * Increment c" using pos by (simp add: mult_le_cancel_left1)
  then have "?n \<le> Burst c + Increment c - 1" using div_mult_le [OF pos(2), of "Burst c + Increment c - 1"] by linarith
  with n have "is_i64 ?n" by (intro is_i64_between [OF is_i64_0 s(2)])
  then show ?thesis using pos s f by (simp add: idleTTL_def fill_time_def)
qed

section \<open>Every verdict is the store's\<close>

text \<open>
  One token spent in the store: at one moment the bucket was absent and is now one short of full,
  or it held a token after its refill and now holds one less.
\<close>

inductive spends :: "BucketConf \<Rightarrow> time \<Rightarrow> string \<Rightarrow> kvst \<Rightarrow> kvst \<Rightarrow> bool" for c now key where
  spends_fresh: "kv_get v key = None \<Longrightarrow> 0 < L \<Longrightarrow>
     spends c now key v (kv_put key (VStr (formatBucket (i64 (Burst c - 1)) now), kv_mark v L) v)"
| spends_held: "kv_get v key = Some (VStr raw, m) \<Longrightarrow> parseBucket (Some raw) = Some (t, l) \<Longrightarrow>
     refilled t l c now = Some (t', l') \<Longrightarrow> 0 < t' \<Longrightarrow>
     spends c now key v (kv_put key (VStr (formatBucket (i64 (t' - 1)) l'), m) v)"

text \<open>The store as this call leaves it after spending: others may act, and the lifetime is pushed out.\<close>

definition expiry_pushed :: "(kvst \<Rightarrow> kvst \<Rightarrow> bool) \<Rightarrow> string \<Rightarrow> kvst \<Rightarrow> kvst \<Rightarrow> bool" where
  "expiry_pushed env key v' v'' \<longleftrightarrow> v'' = v' \<or> (\<exists>w L. env v' w \<and> v'' = snd (eff_Expire key L w))"

text \<open>The bucket in the store has no token at \<open>now\<close>, and its next refill moment is \<open>until\<close>.\<close>

definition store_empty :: "BucketConf \<Rightarrow> time \<Rightarrow> string \<Rightarrow> kvst \<Rightarrow> time \<Rightarrow> bool" where
  "store_empty c now key v until \<longleftrightarrow> (\<exists>raw m t l t' l'. kv_get v key = Some (VStr raw, m) \<and>
     parseBucket (Some raw) = Some (t, l) \<and> refilled t l c now = Some (t', l') \<and> t' \<le> 0 \<and> until = l' + IncrPeriod c)"

text \<open>
  What a call may do to the store (from \<open>w\<close> to \<open>w'\<close>) for each answer: an admission is one token spent,
  a refusal is an empty bucket read and nothing written, an unsettled race has written nothing.
\<close>

definition admit_outcome ::
    "(kvst \<Rightarrow> kvst \<Rightarrow> bool) \<Rightarrow> BucketConf \<Rightarrow> string \<Rightarrow> time \<Rightarrow> LimiterKVDBBuckets \<Rightarrow> kvst \<Rightarrow>
      (admit_error + bool) \<Rightarrow> LimiterKVDBBuckets \<Rightarrow> kvst \<Rightarrow> bool" where
  "admit_outcome env c key now l w r l' w' \<longleftrightarrow> (case r of
      Inr True \<Rightarrow> l' = l \<and> (\<exists>v v'. env\<^sup>*\<^sup>* w v \<and> spends c now key v v' \<and> expiry_pushed env key v' w')
    | Inr False \<Rightarrow> env\<^sup>*\<^sup>* w w' \<and> (\<exists>until. store_empty c now key w' until \<and> l' = rememberRefusal key until now l)
    | Inl Unsettled \<Rightarrow> l' = l \<and> env\<^sup>*\<^sup>* w w'
    | Inl _ \<Rightarrow> l' = l)"

context kvdb_store
begin

lemma SetValueIfEquals_false: "SetValueIfEquals db k x y st = (Inr False, st') \<Longrightarrow> env (view st) (view st')"
  by (erule implementsD [OF SetValueIfEquals_law])
    (auto simp: act_def eff_SetValueIfEquals_def split: option.splits kv_value.splits prod.splits if_splits)

lemma SetValueIfNotExists_false:
  "SetValueIfNotExists db k x d st = (Inr False, st') \<Longrightarrow> is_i64 (d + P) \<Longrightarrow> env (view st) (view st')"
  by (erule implementsD [OF SetValueIfNotExists_law])
    (auto simp: act_ttl_def eff_SetValueIfNotExists_def split: if_splits)

lemma Expire_ok:
  assumes "Expire db k d st = (Inr r, st')" "is_i64 (d + P)"
  obtains v L where "env (view st) v" "view st' = snd (eff_Expire k L v)"
proof -
  obtain v where "env (view st) v" "act_ttl P d (eff_Expire k) v (Inr r, view st')"
    using implementsD [OF Expire_law [OF assms(2)] assms(1)] .
  then show thesis using that by (auto simp: act_ttl_def split: if_splits dest: arg_cong [where f = snd])
qed

lemma admit_outcome_shift:
  "env\<^sup>*\<^sup>* w0 w \<Longrightarrow> admit_outcome env c key now l w r l' w' \<Longrightarrow> admit_outcome env c key now l w0 r l' w'"
  by (auto simp: admit_outcome_def split: sum.splits bool.splits admit_error.splits intro: rtranclp_trans)

lemma admit_outcome_TrueI:
  "env w v \<Longrightarrow> spends c now key v v' \<Longrightarrow> expiry_pushed env key v' w' \<Longrightarrow> admit_outcome env c key now l w (Inr True) l w'"
  by (auto simp: admit_outcome_def)

lemma admit_outcome_error [simp]: "admit_outcome env c key now l w (Inl (StoreError e)) l w'"
  by (simp add: admit_outcome_def)

lemma first_sight_outcome:
  assumes ttl: "\<And>ttl. idleTTL c = Some ttl \<Longrightarrow> is_i64 (ttl + P)"
    and run: "first_sight db c key now st = (a, st')"
  shows "case a of Some r \<Rightarrow> r \<noteq> Inr False \<and> r \<noteq> Inl Unsettled \<and> admit_outcome env c key now l (view st) r l (view st')
                 | None \<Rightarrow> env (view st) (view st')"
proof (cases "idleTTL c")
  case None then show ?thesis using run by (auto simp: first_sight_def admit_outcome_def)
next
  case (Some d)
  let ?x = "formatBucket (i64 (Burst c - 1)) now"
  obtain b st2 where w: "SetValueIfNotExists db key ?x d st = (b, st2)" by (cases "SetValueIfNotExists db key ?x d st")
  consider (err) e where "b = Inl e" | (won) "b = Inr True" | (lost) "b = Inr False" by (cases b) auto
  then show ?thesis
  proof cases
    case err then show ?thesis using run Some w by (auto simp: first_sight_def admit_outcome_def)
  next
    case won
    obtain v L where "env (view st) v" "0 < L" "kv_get v key = None" "view st2 = kv_put key (VStr ?x, kv_mark v L) v"
      using SetValueIfNotExists_true [OF w [unfolded won] ttl [OF Some]] .
    then have "admit_outcome env c key now l (view st) (Inr True) l (view st2)"
      using spends_fresh [of v key L c now] by (auto simp: expiry_pushed_def intro: admit_outcome_TrueI)
    then show ?thesis using run Some w won by (auto simp: first_sight_def)
  next
    case lost
    then show ?thesis using run Some w SetValueIfNotExists_false [OF w [unfolded lost] ttl [OF Some]]
      by (auto simp: first_sight_def)
  qed
qed

lemma spend_token_outcome:
  assumes ttl: "\<And>ttl. idleTTL c = Some ttl \<Longrightarrow> is_i64 (ttl + P)"
    and tok: "parseBucket (Some x) = Some (t0, l0)" "refilled t0 l0 c now = Some (t, l1)" "0 < t"
    and run: "spend_token db c key x t l1 st = (a, st')"
  shows "case a of Some r \<Rightarrow> r \<noteq> Inr False \<and> r \<noteq> Inl Unsettled \<and> admit_outcome env c key now l (view st) r l (view st')
                 | None \<Rightarrow> env (view st) (view st')"
proof -
  let ?y = "formatBucket (i64 (t - 1)) l1"
  obtain b st2 where w: "SetValueIfEquals db key x ?y st = (b, st2)" by (cases "SetValueIfEquals db key x ?y st")
  consider (err) e where "b = Inl e" | (won) "b = Inr True" | (lost) "b = Inr False" by (cases b) auto
  then show ?thesis
  proof cases
    case err then show ?thesis using run w by (auto simp: spend_token_def admit_outcome_def)
  next
    case lost then show ?thesis using run w SetValueIfEquals_false [OF w [unfolded lost]] by (auto simp: spend_token_def)
  next
    case won
    obtain v m where v: "env (view st) v" "kv_get v key = Some (VStr x, m)" "view st2 = kv_put key (VStr ?y, m) v"
      using SetValueIfEquals_true [OF w [unfolded won]] .
    have sp: "spends c now key v (view st2)" unfolding v(3) using tok by (intro spends_held [OF v(2)]) auto
    show ?thesis
    proof (cases "idleTTL c")
      case None then show ?thesis using run w won by (auto simp: spend_token_def admit_outcome_def)
    next
      case (Some d)
      obtain e st3 where ex: "Expire db key d st2 = (e, st3)" by (cases "Expire db key d st2")
      have "expiry_pushed env key (view st2) (view st3)" if "e = Inr y" for y
        using Expire_ok [OF ex [unfolded that] ttl [OF Some]] by (auto simp: expiry_pushed_def)
      then have "admit_outcome env c key now l (view st) (Inr True) l (view st3)" if "e = Inr y" for y
        using that sp v(1) by (auto intro: admit_outcome_TrueI)
      then show ?thesis using run w won Some ex
        by (cases e) (auto simp: spend_token_def)
    qed
  qed
qed

lemma admit_loop_outcome:
  assumes ttl: "\<And>ttl. idleTTL c = Some ttl \<Longrightarrow> is_i64 (ttl + P)"
  shows "admit_loop n db c key now l st = (r, l', st') \<Longrightarrow> admit_outcome env c key now l (view st) r l' (view st')"
proof (induction n arbitrary: st)
  case 0 then show ?case by (auto simp: admit_outcome_def)
next
  case (Suc n)
  note run = Suc.prems [unfolded admit_loop.simps]
  obtain a st1 where g: "GetValue db key st = (a, st1)" by (cases "GetValue db key st")
  show ?case
  proof (cases a)
    case (Inl e) then show ?thesis using run g by (auto simp: admit_outcome_def)
  next
    case (Inr raw)
    have get: "env (view st) (view st1)" "case raw of None \<Rightarrow> kv_get (view st1) key = None
        | Some x \<Rightarrow> \<exists>m. kv_get (view st1) key = Some (VStr x, m)"
      using GetValue_ok [of key st raw st1] g Inr by auto
    have from1: "admit_outcome env c key now l (view st) r l' (view st')"
      if "admit_outcome env c key now l (view st1) r l' (view st')"
      by (rule admit_outcome_shift [OF _ that]) (use get(1) in auto)
    have again: "admit_outcome env c key now l (view st1) r l' (view st')"
      if "env (view st1) (view st2)" "admit_loop n db c key now l st2 = (r, l', st')" for st2
      by (rule admit_outcome_shift [OF _ Suc.IH [OF that(2)]]) (use that(1) in auto)
    show ?thesis
    proof (rule from1, cases "parseBucket raw")
      case None
      obtain b st2 where f: "first_sight db c key now st1 = (b, st2)" by (cases "first_sight db c key now st1")
      show "admit_outcome env c key now l (view st1) r l' (view st')"
        using run g Inr None f first_sight_outcome [OF ttl f, of l] again by (cases b) auto
    next
      case (Some p)
      obtain t l0 where p: "p = (t, l0)" by (cases p)
      obtain x m where x: "raw = Some x" "kv_get (view st1) key = Some (VStr x, m)"
        using Some get(2) by (cases raw) (auto simp: parseBucket_def)
      consider (panic) "refilled t l0 c now = None" | (empty) t' l1 where "refilled t l0 c now = Some (t', l1)" "t' \<le> 0"
        | (token) t' l1 where "refilled t l0 c now = Some (t', l1)" "0 < t'" by (metis not_less option.exhaust surj_pair)
      then show "admit_outcome env c key now l (view st1) r l' (view st')"
      proof cases
        case panic then show ?thesis using run g Inr Some p by (auto simp: admit_outcome_def)
      next
        case empty
        then have "store_empty c now key (view st1) (l1 + IncrPeriod c)" unfolding store_empty_def using x Some p by blast
        then show ?thesis using run g Inr Some p empty by (auto simp: admit_outcome_def)
      next
        case token
        obtain b st2 where f: "spend_token db c key x t' l1 st1 = (b, st2)" by (cases "spend_token db c key x t' l1 st1")
        have "parseBucket (Some x) = Some (t, l0)" using Some p x by simp
        note out = spend_token_outcome [OF ttl this token f, of l]
        show ?thesis using run g Inr Some p x token f out again by (cases b) auto
      qed
    qed
  qed
qed

end

section \<open>The rate across instances\<close>

text \<open>
  Any number of instances over one bucket: a step is a token spent by one of them, at its own
  reading of the time, or anything that leaves the bucket's value as it is.
\<close>

inductive bucket_step :: "BucketConf \<Rightarrow> string \<Rightarrow> time \<Rightarrow> time \<Rightarrow> kvst \<times> nat \<Rightarrow> kvst \<times> nat \<Rightarrow> bool" for c key t0 t1 where
  bs_spend: "spends c now key v v' \<Longrightarrow> t0 \<le> now \<Longrightarrow> now \<le> t1 \<Longrightarrow> bucket_step c key t0 t1 (v, n) (v', Suc n)"
| bs_other: "kv_val v' key = kv_val v key \<Longrightarrow> bucket_step c key t0 t1 (v, n) (v', n)"

inductive_cases spendsE: "spends c now key v v'"

definition budget_inv :: "BucketConf \<Rightarrow> string \<Rightarrow> time \<Rightarrow> time \<Rightarrow> kvst \<times> nat \<Rightarrow> bool" where
  "budget_inv c key t0 t1 s \<longleftrightarrow> (case kv_val (fst s) key of
      None \<Rightarrow> snd s = 0
    | Some x \<Rightarrow> \<exists>b. x = VStr (formatBucket (tokens b) (lastCheck b)) \<and> bucket_ok c b \<and> t0 \<le> lastCheck b \<and> lastCheck b \<le> t1 \<and>
        potential c t1 b + int (snd s) \<le> Burst c + Increment c * ((t1 - t0) div IncrPeriod c))"

lemma bucket_ok_i64: "conf_ok c \<Longrightarrow> bucket_ok c b \<Longrightarrow> is_i64 (tokens b)"
  using conf_ok_burst [of c] by (auto simp: bucket_ok_def is_i64_def)

lemma spends_value:
  assumes "spends c now key v v'" "kv_get v key = Some (VStr x, m)"
  obtains t l t' l' where "parseBucket (Some x) = Some (t, l)" "refilled t l c now = Some (t', l')" "0 < t'"
    "kv_val v' key = Some (VStr (formatBucket (i64 (t' - 1)) l'))"
proof -
  obtain t l t' l' where "parseBucket (Some x) = Some (t, l)" "refilled t l c now = Some (t', l')" "0 < t'"
      "v' = kv_put key (VStr (formatBucket (i64 (t' - 1)) l'), m) v"
    using assms by (auto elim!: spendsE)
  then show thesis using that kv_val_put_keep [OF assms(2)] by auto
qed

lemma Bucket_TryAdmit_refilled:
  assumes "conf_ok c" "bucket_ok c b" "refilled (tokens b) (lastCheck b) c now = Some (t', l')"
  shows "Bucket_TryAdmit c now b = (if 0 < t' then Some (True, \<lparr>tokens = i64 (t' - 1), lastCheck = l'\<rparr>)
           else Some (False, \<lparr>tokens = t', lastCheck = l'\<rparr>))"
  using assms(3) by (cases b) (auto simp: Bucket_TryAdmit_def refilled_refill)

lemma budget_inv_step:
  assumes c: "conf_ok c" and t: "is_i64 t0" "is_i64 t1"
    and inv: "budget_inv c key t0 t1 s" and step: "bucket_step c key t0 t1 s s'"
  shows "budget_inv c key t0 t1 s'"
  using step
proof cases
  case (bs_other v' v n) then show ?thesis using inv by (simp add: budget_inv_def split: option.splits)
next
  case (bs_spend now v v' n)
  show ?thesis
  proof (cases "kv_get v key")
    case None
    obtain L where L: "0 < L" "v' = kv_put key (VStr (formatBucket (i64 (Burst c - 1)) now), kv_mark v L) v"
      using bs_spend(3) None by (auto elim: spendsE)
    have g: "kv_val v' key = Some (VStr (formatBucket (i64 (Burst c - 1)) now))"
      using L kv_val_put_mark by simp
    have b: "i64 (Burst c - 1) = Burst c - 1"
      using conf_ok_burst [OF c] c by (intro i64_id) (auto simp: is_i64_def conf_ok_def)
    have "Increment c * ((t1 - now) div IncrPeriod c) \<le> Increment c * ((t1 - t0) div IncrPeriod c)"
      using c bs_spend(4) by (simp add: conf_ok_def zdiv_mono1)
    then show ?thesis unfolding budget_inv_def
      using inv None bs_spend g b c
      by (auto simp: budget_inv_def bucket_ok_def potential_def conf_ok_def
          intro!: exI [of _ "\<lparr>tokens = Burst c - 1, lastCheck = now\<rparr>"])
  next
    case (Some e)
    have v: "kv_val v key = Some (fst e)" using Some by (simp add: kv_val_def)
    obtain b where b: "fst e = VStr (formatBucket (tokens b) (lastCheck b))" "bucket_ok c b" "t0 \<le> lastCheck b" "lastCheck b \<le> t1"
        "potential c t1 b + int n \<le> Burst c + Increment c * ((t1 - t0) div IncrPeriod c)"
      using inv bs_spend(1) v by (auto simp: budget_inv_def)
    have "is_i64 (lastCheck b)" using b(3,4) t by (intro is_i64_between [OF t])
    then have p: "parseBucket (Some (formatBucket (tokens b) (lastCheck b))) = Some (tokens b, lastCheck b)"
      using bucket_ok_i64 [OF c b(2)] by simp
    have e: "kv_get v key = Some (VStr (formatBucket (tokens b) (lastCheck b)), snd e)" using Some b(1) by (cases e) auto
    obtain t' l' where r: "refilled (tokens b) (lastCheck b) c now = Some (t', l')" "0 < t'"
        "kv_val v' key = Some (VStr (formatBucket (i64 (t' - 1)) l'))"
      by (rule spends_value [OF bs_spend(3) e]) (auto simp: p)
    let ?b = "\<lparr>tokens = i64 (t' - 1), lastCheck = l'\<rparr>"
    have ad: "Bucket_TryAdmit c now b = Some (True, ?b)" using Bucket_TryAdmit_refilled [OF c b(2) r(1)] r(2) by simp
    show ?thesis unfolding budget_inv_def
      using bs_spend r(3) bucket_ok_TryAdmit [OF c b(2) ad] potential_TryAdmit [OF c b(2) ad, of t1] lastCheck_TryAdmit [OF c b(2) ad] b(3-5)
      by (auto intro!: exI [of _ ?b])
  qed
qed

lemma budget_inv_bound:
  assumes c: "conf_ok c" and t: "t0 \<le> t1" and inv: "budget_inv c key t0 t1 (v, n)"
  shows "int n \<le> Burst c + Increment c * ((t1 - t0) div IncrPeriod c)"
proof (cases "kv_val v key")
  case None
  then have "n = 0" using inv by (simp add: budget_inv_def)
  moreover have "0 \<le> room c t1 t0 None" using room_nonneg [OF c t, of None] by simp
  ultimately show ?thesis by (simp add: room_def)
next
  case (Some x)
  then obtain b where b: "bucket_ok c b" "lastCheck b \<le> t1"
      "potential c t1 b + int n \<le> Burst c + Increment c * ((t1 - t0) div IncrPeriod c)"
    using inv by (auto simp: budget_inv_def)
  have "0 \<le> room c t1 t1 (Some b)" using b by (intro room_nonneg [OF c]) auto
  then show ?thesis using b(3) by (simp add: room_def)
qed

section \<open>Refusals and the in-memory limiter\<close>

lemma empty_until:
  assumes c: "conf_ok c" and b: "bucket_ok c b"
    and r: "refilled (tokens b) (lastCheck b) c now = Some (t', l')" "t' \<le> 0" and n: "now2 < l' + IncrPeriod c"
  shows "refilled (tokens b) (lastCheck b) c now2 = Some (0, lastCheck b) \<and> l' = lastCheck b"
proof -
  have I: "0 < Increment c" and P: "0 < IncrPeriod c" and B: "0 < Burst c" using c by (auto simp: conf_ok_def)
  have e: "refilled (tokens b) (lastCheck b) c x =
      Some (min (Burst c) (tokens b + periods c x b * Increment c), lastCheck b + periods c x b * IncrPeriod c)" for x
    using refill_eq [OF c, of b x] b by (cases b) (simp add: refilled_refill)
  have "0 \<le> periods c now b * Increment c" using I c by simp
  moreover have "tokens b + periods c now b * Increment c \<le> 0" using e [of now] r B by (simp add: min_def split: if_splits)
  ultimately have "tokens b = 0" "periods c now b * Increment c = 0" using b unfolding bucket_ok_def by linarith+
  then have k: "tokens b = 0" "periods c now b = 0" using I by auto
  then have l': "l' = lastCheck b" using e [of now] r by simp
  have "max 0 (time_Sub now2 (lastCheck b)) < IncrPeriod c" using n l' P by (auto simp: time_Sub_def)
  then have "periods c now2 b = 0" using P by (simp add: periods_def)
  then show ?thesis using e [of now2] k l' B by simp
qed

lemma refusalStands_remembered: "refusalStands key now2 (rememberRefusal key until now l) \<Longrightarrow> now2 < until"
  by (simp add: refusalStands_def rememberRefusal_def Let_def update_Some_unfold split: option.splits)

lemma KV_TryAdmit_outcome:
  assumes "kvdb_store db view env P" and "kl_groups l gid = Some c"
    and "\<not> refusalStands (bucket_key l gid i) now l" and "idleTTL c = Some ttl" "is_i64 (ttl + P)"
    and "KV_TryAdmit db gid i now l st = (r, l', st')"
  shows "admit_outcome env c (bucket_key l gid i) now l (view st) r l' (view st')"
  using kvdb_store.admit_loop_outcome [OF assms(1), of c casAttempts "bucket_key l gid i" now l st r l' st'] assms(2-6)
  by (simp add: KV_TryAdmit_def)

text \<open>A store that only this call touches moves as the in-memory bucket does.\<close>

lemma quiet_outcome:
  assumes c: "conf_ok c" and b: "bucket_ok c b" "is_i64 (lastCheck b)"
    and out: "admit_outcome (=) c key now l v (Inr ok) l' v'"
    and held: "kv_val v key = Some (VStr (formatBucket (tokens b) (lastCheck b)))"
  shows "\<exists>b'. Bucket_TryAdmit c now b = Some (ok, b') \<and>
    (if ok then \<exists>w L. kv_val w key = Some (VStr (formatBucket (tokens b') (lastCheck b'))) \<and> (v' = w \<or> v' = snd (eff_Expire key L w))
     else v' = v)"
proof -
  obtain m where g: "kv_get v key = Some (VStr (formatBucket (tokens b) (lastCheck b)), m)" using held kv_val_SomeD by blast
  have p: "parseBucket (Some (formatBucket (tokens b) (lastCheck b))) = Some (tokens b, lastCheck b)"
    using bucket_ok_i64 [OF c b(1)] b(2) by simp
  have eq: "((=)\<^sup>*\<^sup>*) x y \<longleftrightarrow> x = y" for x y :: kvst by (auto elim: rtranclp_induct)
  show ?thesis
  proof (cases ok)
    case True
    then obtain w where w: "spends c now key v w" "expiry_pushed (=) key w v'" using out by (auto simp: admit_outcome_def eq)
    obtain t' l1 where r: "refilled (tokens b) (lastCheck b) c now = Some (t', l1)" "0 < t'"
        "kv_val w key = Some (VStr (formatBucket (i64 (t' - 1)) l1))"
      by (rule spends_value [OF w(1) g]) (auto simp: p)
    have "Bucket_TryAdmit c now b = Some (True, \<lparr>tokens = i64 (t' - 1), lastCheck = l1\<rparr>)"
      using Bucket_TryAdmit_refilled [OF c b(1) r(1)] r(2) by simp
    then show ?thesis using True w(2) r(3) by (auto simp: expiry_pushed_def)
  next
    case False
    then have v: "v' = v" and "\<exists>until. store_empty c now key v until" using out by (auto simp: admit_outcome_def eq)
    then obtain t' l1 where "refilled (tokens b) (lastCheck b) c now = Some (t', l1)" "t' \<le> 0"
      using g p by (auto simp: store_empty_def)
    then show ?thesis using Bucket_TryAdmit_refilled [OF c b(1)] False v by auto
  qed
qed

section \<open>Properties\<close>



text \<open>C22: Every verdict of the limiter over a database comes from the store, whatever the other
  clients do between its round trips: an admission is exactly one token spent by one conditional
  write (the bucket created one short of full, or swapped from the value read to one token less
  after its refill), followed only by the push of its expiry; a refusal has written nothing and
  leaves a store whose bucket is empty, remembering its next refill moment; a call that gives up
  unsettled has written nothing.\<close>

theorem kvdb_verdict_from_store:
  assumes "kvdb_store db view env P" and "kl_groups l gid = Some c"
    and "\<not> refusalStands (bucket_key l gid i) now l" and "idleTTL c = Some ttl" and "is_i64 (ttl + P)"
    and "KV_TryAdmit db gid i now l st = (r, l', st')"
  shows "(r = Inr True \<longrightarrow> l' = l \<and> (\<exists>v v'. env\<^sup>*\<^sup>* (view st) v \<and> spends c now (bucket_key l gid i) v v' \<and>
            expiry_pushed env (bucket_key l gid i) v' (view st')))
       \<and> (r = Inr False \<longrightarrow> env\<^sup>*\<^sup>* (view st) (view st') \<and>
            (\<exists>until. store_empty c now (bucket_key l gid i) (view st') until \<and> l' = rememberRefusal (bucket_key l gid i) until now l))
       \<and> (r = Inl Unsettled \<longrightarrow> l' = l \<and> env\<^sup>*\<^sup>* (view st) (view st'))"
  using KV_TryAdmit_outcome [OF assms] by (auto simp: admit_outcome_def)

definition sample_limiter :: LimiterKVDBBuckets where
  "sample_limiter = snd (KV_SetBucketGroup ''login'' (Some \<lparr>Burst = 2, Increment = 1, IncrPeriod = time_Second\<rparr>)
     (NewLimiterKVDBBucketsAs ''T'' ''app:''))"

definition sample_net :: "string option \<Rightarrow> unit net" where
  "sample_net v = \<lparr>nt_store = \<lparr>kv_clock = 0, kv_data = (\<lambda>k. if k = ''app:login:ip'' then map_option (\<lambda>x. (VStr x, None)) v else None)\<rparr>,
     nt_now = 0, nt_moves = [], nt_faults = []\<rparr>"

lemma sample_facts:
  "kl_groups sample_limiter ''login'' = Some \<lparr>Burst = 2, Increment = 1, IncrPeriod = time_Second\<rparr>"
  "bucket_key sample_limiter ''login'' ''ip'' = ''app:login:ip''"
  "\<not> refusalStands k now sample_limiter"
  "idleTTL \<lparr>Burst = 2, Increment = 1, IncrPeriod = time_Second\<rparr> = Some (2 * time_Second)"
  "is_i64 (2 * time_Second + millis)"
  "conf_ok \<lparr>Burst = 2, Increment = 1, IncrPeriod = time_Second\<rparr>"
  by (simp_all add: sample_limiter_def KV_SetBucketGroup_def NewLimiterKVDBBucketsAs_def bucket_key_def refusalStands_def
      idleTTL_def i64_def time_Second_def is_i64_def millis_def conf_ok_def)

lemma sample_run:
  "fst (KV_TryAdmit (net_DB (\<lambda>(_::unit) s. s)) ''login'' ''ip'' 5 sample_limiter (sample_net None)) = Inr True"
  "fst (KV_TryAdmit (net_DB (\<lambda>(_::unit) s. s)) ''login'' ''ip'' 5 sample_limiter (sample_net (Some ''0|0''))) = Inr False"
  "fst (KV_TryAdmit (net_DB (\<lambda>(_::unit) s. s)) ''login'' ''ip'' 5 sample_limiter (sample_net (Some ''1|0''))) = Inr True"
  "fst (KV_TryAdmit (net_DB (\<lambda>(_::unit) s. s)) ''login'' ''ip'' 5 sample_limiter (sample_net (Some ''x''))) = Inl Unsettled"
  by code_simp+

theorem kvdb_verdict_from_store_witness:
  "let (r, l', w') = KV_TryAdmit (net_DB (\<lambda>(_::unit) s. s)) ''login'' ''ip'' 5 sample_limiter (sample_net None)
   in r = Inr True \<and> (\<exists>v v'. (env_of (\<lambda>(_::unit) s. s))\<^sup>*\<^sup>* (nt_store (sample_net None)) v \<and>
        spends \<lparr>Burst = 2, Increment = 1, IncrPeriod = time_Second\<rparr> 5 ''app:login:ip'' v v')"
  using kvdb_verdict_from_store [OF kvdb_store_net sample_facts(1) sample_facts(3) sample_facts(4,5),
      of "\<lambda>(_::unit) s. s" "''ip''" 5 "sample_net None"] sample_run(1)
  by (auto simp: sample_facts split: prod.splits) blast


lemma kvdb_store_quiet: "kvdb_store (net_DB (\<lambda>(_::unit) s. s)) nt_store (=) millis"
proof -
  have "env_of (\<lambda>(_::unit) s. s) = (=)" by (auto simp: fun_eq_iff)
  then show ?thesis using kvdb_store_net [of "\<lambda>(_::unit) s. s"] by simp
qed

lemma sample_net_val: "kv_val (nt_store (sample_net (Some x))) ''app:login:ip'' = Some (VStr x)"
  by (simp add: sample_net_def kv_val_def kv_get_def)


text \<open>A remembered refusal never refuses what the store would have admitted: after a refusal on a
  stored bucket, for as long as the memory stands, that bucket is still empty in any store that
  holds the same value.\<close>

theorem kvdb_refusal_memory_sound:
  assumes "kvdb_store db view env P" and "kl_groups l gid = Some c"
    and "\<not> refusalStands (bucket_key l gid i) now l" and "idleTTL c = Some ttl" and "is_i64 (ttl + P)"
    and "conf_ok c" and "bucket_ok c b" and "is_i64 (lastCheck b)"
    and "KV_TryAdmit db gid i now l st = (Inr False, l', st')"
    and "kv_val (view st') (bucket_key l gid i) = Some (VStr (formatBucket (tokens b) (lastCheck b)))"
    and "refusalStands (bucket_key l gid i) now2 l'"
    and "kv_val w (bucket_key l gid i) = kv_val (view st') (bucket_key l gid i)"
  shows "\<exists>until. store_empty c now2 (bucket_key l gid i) w until"
proof -
  let ?k = "bucket_key l gid i"
  obtain until where u: "store_empty c now ?k (view st') until" "l' = rememberRefusal ?k until now l"
    using KV_TryAdmit_outcome [OF assms(1-5,9)] by (auto simp: admit_outcome_def)
  have p: "parseBucket (Some (formatBucket (tokens b) (lastCheck b))) = Some (tokens b, lastCheck b)"
    using bucket_ok_i64 [OF assms(6,7)] assms(8) by simp
  obtain t' l1 where r: "refilled (tokens b) (lastCheck b) c now = Some (t', l1)" "t' \<le> 0" "until = l1 + IncrPeriod c"
    using u(1) assms(10) p by (auto simp: store_empty_def kv_val_def)
  have "now2 < until" using refusalStands_remembered assms(11) u(2) by blast
  then have "refilled (tokens b) (lastCheck b) c now2 = Some (0, lastCheck b)"
    using empty_until [OF assms(6,7) r(1,2)] r(3) by blast
  moreover obtain m where "kv_get w ?k = Some (VStr (formatBucket (tokens b) (lastCheck b)), m)"
    using assms(10,12) kv_val_SomeD by metis
  ultimately show ?thesis using p unfolding store_empty_def by blast
qed

lemma sample_refused:
  "let (r, l', w') = KV_TryAdmit (net_DB (\<lambda>(_::unit) s. s)) ''login'' ''ip'' 5 sample_limiter (sample_net (Some ''0|0''))
   in r = Inr False \<and> refusalStands ''app:login:ip'' 999999999 l'
      \<and> kv_data (nt_store w') ''app:login:ip'' = Some (VStr ''0|0'', None)"
  by code_simp

theorem kvdb_refusal_memory_sound_witness:
  "\<exists>until. store_empty \<lparr>Burst = 2, Increment = 1, IncrPeriod = time_Second\<rparr> 999999999 ''app:login:ip''
     (nt_store (sample_net (Some ''0|0''))) until"
proof -
  have f: "formatBucket 0 0 = ''0|0''" by code_simp
  obtain l' w' where run: "KV_TryAdmit (net_DB (\<lambda>(_::unit) s. s)) ''login'' ''ip'' 5 sample_limiter (sample_net (Some ''0|0'')) =
      (Inr False, l', w')" "refusalStands ''app:login:ip'' 999999999 l'" "kv_data (nt_store w') ''app:login:ip'' = Some (VStr ''0|0'', None)"
    using sample_refused by (auto split: prod.splits)
  have "kv_val (nt_store w') ''app:login:ip'' = Some (VStr ''0|0'')" using run(3) by (simp add: kv_val_def kv_get_def)
  then show ?thesis
    using kvdb_refusal_memory_sound [OF kvdb_store_quiet sample_facts(1,3,4,5,6) _ _ run(1), of "\<lparr>tokens = 0, lastCheck = 0\<rparr>" 999999999
        "nt_store (sample_net (Some ''0|0''))"] run(2)
    by (auto simp: sample_facts sample_net_val f bucket_ok_def)
qed

context kvdb_store
begin

lemma GetValue_keeps: "GetValue db k st = (r, st') \<Longrightarrow> env (view st) (view st')"
proof (cases r)
  case (Inl e)
  assume "GetValue db k st = (r, st')"
  then obtain v where "env (view st) v" "view st' = v \<or> (\<exists>y. act (eff_GetValue k) v (y, view st'))"
    using implements_errorD [OF GetValue_law] Inl by blast
  then show ?thesis by (auto simp: act_def eff_GetValue_def split: option.splits prod.splits kv_value.splits)
qed (auto elim: GetValue_ok)

lemma SetValueIfNotExists_present:
  assumes "env = (=)" "kv_get (view st) k \<noteq> None" "SetValueIfNotExists db k x d st = (r, st')" "is_i64 (d + P)"
  shows "view st' = view st \<and> r \<noteq> Inr True"
proof (cases r)
  case (Inl e)
  obtain v where "env (view st) v" "view st' = v \<or> (\<exists>y. act_ttl P d (eff_SetValueIfNotExists k x) v (y, view st'))"
    using implements_errorD [OF SetValueIfNotExists_law [OF assms(4)] assms(3) [unfolded Inl]] .
  then show ?thesis using assms(1,2) Inl
    by (auto simp: act_ttl_def eff_SetValueIfNotExists_def split: if_splits)
next
  case (Inr b)
  obtain v where "env (view st) v" "act_ttl P d (eff_SetValueIfNotExists k x) v (Inr b, view st')"
    using implementsD [OF SetValueIfNotExists_law [OF assms(4)] assms(3) [unfolded Inr]] .
  then show ?thesis using assms(1,2) Inr
    by (auto simp: act_ttl_def eff_SetValueIfNotExists_def split: if_splits)
qed

lemma admit_loop_unreadable:
  assumes "env = (=)" "kv_get (view st) key = Some (VStr raw, m)" "parseBucket (Some raw) = None"
    and ttl: "idleTTL c = Some ttl" "is_i64 (ttl + P)"
  shows "admit_loop n db c key now l st = (r, l', st') \<Longrightarrow> (\<exists>e. r = Inl e) \<and> view st' = view st"
  using assms(2)
proof (induction n arbitrary: st)
  case (Suc n)
  obtain a st1 where g: "GetValue db key st = (a, st1)" by (cases "GetValue db key st")
  have v1: "view st1 = view st" using GetValue_keeps [OF g] assms(1) by simp
  have none: "parseBucket raw' = None" if "a = Inr raw'" for raw'
    by (rule GetValue_ok [OF g [unfolded that]]) (use v1 Suc.prems(2) assms(3) in \<open>auto split: option.splits\<close>)
  let ?x = "formatBucket (i64 (Burst c - 1)) now"
  obtain b st2 where w: "SetValueIfNotExists db key ?x ttl st1 = (b, st2)" by (cases "SetValueIfNotExists db key ?x ttl st1")
  have v2: "view st2 = view st" "b \<noteq> Inr True"
    using SetValueIfNotExists_present [OF assms(1) _ w ttl(2)] v1 Suc.prems(2) by auto
  have again: "(\<exists>e. r = Inl e) \<and> view st' = view st" if "admit_loop n db c key now l st2 = (r, l', st')"
    using Suc.IH [OF that] v2(1) Suc.prems(2) by simp
  show ?case
  proof (cases a)
    case (Inl e) then show ?thesis using Suc.prems(1) g v1 by auto
  next
    case (Inr raw')
    then show ?thesis using Suc.prems(1) g v2 none [OF Inr] w ttl(1) again
      by (cases b) (auto simp: first_sight_def)
  qed
qed auto

end

text \<open>A stored value this build cannot read is never replaced: on a store no other client
  touches, every call for that bucket ends in an error and leaves the store as it was, while the
  comment in \<open>TryAdmit\<close> says the set-if-absent write replaces it.\<close>

theorem kvdb_unreadable_bucket_stuck:
  assumes "kvdb_store db view (=) P" and "kl_groups l gid = Some c"
    and "\<not> refusalStands (bucket_key l gid i) now l" and "idleTTL c = Some ttl" and "is_i64 (ttl + P)"
    and "kv_get (view st) (bucket_key l gid i) = Some (VStr raw, m)" and "parseBucket (Some raw) = None"
    and "KV_TryAdmit db gid i now l st = (r, l', st')"
  shows "(\<exists>e. r = Inl e) \<and> view st' = view st"
  using kvdb_store.admit_loop_unreadable [OF assms(1) refl assms(6,7,4,5), of casAttempts now l r l' st'] assms(2,3,8)
  by (simp add: KV_TryAdmit_def)

theorem kvdb_unreadable_bucket_stuck_witness:
  "nt_store (snd (snd (KV_TryAdmit (net_DB (\<lambda>(_::unit) s. s)) ''login'' ''ip'' 5 sample_limiter (sample_net (Some ''x''))))) =
     nt_store (sample_net (Some ''x''))"
proof -
  obtain r l' w' where run: "KV_TryAdmit (net_DB (\<lambda>(_::unit) s. s)) ''login'' ''ip'' 5 sample_limiter (sample_net (Some ''x'')) = (r, l', w')"
    by (metis surj_pair)
  have "kv_get (nt_store (sample_net (Some ''x''))) ''app:login:ip'' = Some (VStr ''x'', None)"
    by (simp add: sample_net_def kv_get_def)
  moreover have "parseBucket (Some ''x'') = None" by code_simp
  ultimately show ?thesis
    using kvdb_unreadable_bucket_stuck [OF kvdb_store_quiet sample_facts(1,3,4,5) _ _ run] run by (simp add: sample_facts)
qed

end
