(* ===== verification/Locking.thy ===== *)
theory Locking
  imports KVDB_Redis_Correct
begin

text \<open>
  \<open>gw/locking\<close>: named locks. \<open>ManagerLocalLedgerOnly\<close> keeps them in its internal ledger;
  \<open>ManagerKVDBLedger\<close> also takes each name in an external ledger, one row without lifetime per
  standing grant in a key-value database, so that the instances of an app exclude each other.

  The caller's function is a parameter \<open>fn\<close>: it runs on the manager and the database it shares
  with others, and returns, fails or panics; deferred calls run on each of the three. The managers are record
  schemes: what extends the record is the memory around the manager, which only \<open>fn\<close> touches. The end of
  the file is the system of all instances, one step per atomic act of the handlers.
\<close>

section \<open>The internal ledger\<close>

type_synonym 'v ledger = "string \<Rightarrow> 'v option"

definition reserve :: "string \<Rightarrow> 'v \<Rightarrow> 'v ledger \<Rightarrow> bool \<times> 'v ledger" where
  "reserve name v held = (if held name \<noteq> None then (False, held) else (True, held(name \<mapsto> v)))"

definition release :: "string \<Rightarrow> 'v ledger \<Rightarrow> 'v ledger" where
  "release name held = held(name := None)"

definition names :: "'v ledger \<Rightarrow> string set" where
  "names held = dom held"

datatype fn_out = FnOk | FnErr string | FnPanic string

datatype lock_result =
    Done
  | FnFailed string
  | Panicked string
  | CtxEnded
  | ActionLocked string
  | LedgerError kv_error

fun fn_result :: "fn_out \<Rightarrow> lock_result" where
  "fn_result FnOk = Done"
| "fn_result (FnErr e) = FnFailed e"
| "fn_result (FnPanic p) = Panicked p"

section \<open>One instance\<close>

record ManagerLocal =
  ml_name :: string
  ml_held :: "unit ledger"

definition NewManagerLocalLedgerOnly :: "string \<Rightarrow> ManagerLocal option" where
  "NewManagerLocalLedgerOnly name = (if name = [] then None else Some \<lparr>ml_name = name, ml_held = (\<lambda>_. None)\<rparr>)"

definition local_AcquireDoRelease ::
    "bool \<Rightarrow> string \<Rightarrow> ('m ManagerLocal_scheme \<Rightarrow> fn_out \<times> 'm ManagerLocal_scheme) \<Rightarrow> 'm ManagerLocal_scheme \<Rightarrow> lock_result \<times> 'm ManagerLocal_scheme" where
  "local_AcquireDoRelease ctx_ended name fn m =
     (if ctx_ended then (CtxEnded, m)
      else case reserve name () (ml_held m) of
        (False, _) \<Rightarrow> (ActionLocked name, m)
      | (True, h) \<Rightarrow>
          (let (out, m') = fn (m\<lparr>ml_held := h\<rparr>)
           in (fn_result out, m'\<lparr>ml_held := release name (ml_held m')\<rparr>)))"

text \<open>Taking the names in order: the names taken, and the first refused if any.\<close>

fun local_take_all :: "string list \<Rightarrow> string list \<Rightarrow> unit ledger \<Rightarrow> string option \<times> string list \<times> unit ledger" where
  "local_take_all [] taken h = (None, taken, h)"
| "local_take_all (n # ns) taken h = (case reserve n () h of
      (False, _) \<Rightarrow> (Some n, taken, h)
    | (True, h') \<Rightarrow> local_take_all ns (taken @ [n]) h')"

definition release_all :: "string list \<Rightarrow> 'v ledger \<Rightarrow> 'v ledger" where
  "release_all taken h = fold release (rev taken) h"

definition local_AcquireDoReleaseAll ::
    "bool \<Rightarrow> string list \<Rightarrow> ('m ManagerLocal_scheme \<Rightarrow> fn_out \<times> 'm ManagerLocal_scheme) \<Rightarrow> 'm ManagerLocal_scheme \<Rightarrow> lock_result \<times> 'm ManagerLocal_scheme" where
  "local_AcquireDoReleaseAll ctx_ended ns fn m =
     (if ctx_ended then (CtxEnded, m)
      else case local_take_all ns [] (ml_held m) of
        (Some refused, taken, h) \<Rightarrow> (ActionLocked refused, m\<lparr>ml_held := release_all taken h\<rparr>)
      | (None, taken, h) \<Rightarrow>
          (let (out, m') = fn (m\<lparr>ml_held := h\<rparr>)
           in (fn_result out, m'\<lparr>ml_held := release_all taken (ml_held m')\<rparr>)))"

section \<open>Several instances over one database\<close>

record ManagerKVDB =
  km_name :: string
  km_held :: "string ledger"
  km_prefix :: string
  km_id :: string
  km_seq :: nat

definition NewManagerKVDBLedger :: "string \<Rightarrow> string \<Rightarrow> string \<Rightarrow> ManagerKVDB option" where
  "NewManagerKVDBLedger name prefix boot_id =
     (if name = [] \<or> prefix = [] then None
      else Some \<lparr>km_name = name, km_held = (\<lambda>_. None), km_prefix = prefix, km_id = boot_id, km_seq = 0\<rparr>)"

definition newProof :: "'m ManagerKVDB_scheme \<Rightarrow> string \<times> 'm ManagerKVDB_scheme" where
  "newProof m = (let s = (km_seq m + 1) mod 2 ^ 64 in (km_id m @ '':'' @ Itoa (int s), m\<lparr>km_seq := s\<rparr>))"

definition ledger_take :: "'st kvdb \<Rightarrow> string \<Rightarrow> string \<Rightarrow> string \<Rightarrow> ('st, bool) io" where
  "ledger_take db prefix name proof = SetValuePersistentIfNotExists db (prefix @ name) proof"

definition ledger_retire :: "'st kvdb \<Rightarrow> string \<Rightarrow> string \<Rightarrow> string \<Rightarrow> ('st, bool) io" where
  "ledger_retire db prefix name proof = DeleteValueIfEquals db (prefix @ name) proof"

definition Standing :: "'st kvdb \<Rightarrow> string \<Rightarrow> string \<Rightarrow> ('st, string option) io" where
  "Standing db prefix name = GetValue db (prefix @ name)"

definition acquire :: "'st kvdb \<Rightarrow> string \<Rightarrow> 'm ManagerKVDB_scheme \<Rightarrow> 'st \<Rightarrow> (lock_result + string) \<times> 'm ManagerKVDB_scheme \<times> 'st" where
  "acquire db name m st =
     (let (proof, m1) = newProof m
      in case reserve name proof (km_held m1) of
           (False, _) \<Rightarrow> (Inl (ActionLocked name), m1, st)
         | (True, h) \<Rightarrow>
             (let m2 = m1\<lparr>km_held := h\<rparr>; m3 = m2\<lparr>km_held := release name (km_held m2)\<rparr>
              in case ledger_take db (km_prefix m) name proof st of
                   (Inl e, st') \<Rightarrow> (Inl (LedgerError e), m3, st')
                 | (Inr won, st') \<Rightarrow>
                     if won then (Inr proof, m2, st') else (Inl (ActionLocked name), m3, st')))"

datatype give_back_log = Released | RowMayStand kv_error | NotOurGrant

definition giveBack :: "'st kvdb \<Rightarrow> string \<Rightarrow> string \<Rightarrow> 'm ManagerKVDB_scheme \<Rightarrow> 'st \<Rightarrow> give_back_log \<times> 'm ManagerKVDB_scheme \<times> 'st" where
  "giveBack db name proof m st =
     (let (r, st') = ledger_retire db (km_prefix m) name proof st
      in (case r of Inl e \<Rightarrow> RowMayStand e | Inr ok \<Rightarrow> if ok then Released else NotOurGrant,
          m\<lparr>km_held := release name (km_held m)\<rparr>, st'))"

type_synonym ('m, 'st) lock_fn = "'m ManagerKVDB_scheme \<Rightarrow> 'st \<Rightarrow> fn_out \<times> 'm ManagerKVDB_scheme \<times> 'st"

definition AcquireDoRelease ::
    "'st kvdb \<Rightarrow> bool \<Rightarrow> string \<Rightarrow> ('m, 'st) lock_fn \<Rightarrow> 'm ManagerKVDB_scheme \<Rightarrow> 'st \<Rightarrow> lock_result \<times> 'm ManagerKVDB_scheme \<times> 'st" where
  "AcquireDoRelease db ctx_ended name fn m st =
     (if ctx_ended then (CtxEnded, m, st)
      else case acquire db name m st of
        (Inl e, m1, st1) \<Rightarrow> (e, m1, st1)
      | (Inr proof, m1, st1) \<Rightarrow>
          (let (out, m2, st2) = fn m1 st1; (_, m3, st3) = giveBack db name proof m2 st2
           in (fn_result out, m3, st3)))"

fun giveBackAll :: "'st kvdb \<Rightarrow> (string \<times> string) list \<Rightarrow> 'm ManagerKVDB_scheme \<Rightarrow> 'st \<Rightarrow> 'm ManagerKVDB_scheme \<times> 'st" where
  "giveBackAll db [] m st = (m, st)"
| "giveBackAll db ((n, p) # nps) m st = (let (_, m1, st1) = giveBack db n p m st in giveBackAll db nps m1 st1)"

fun acquire_all :: "'st kvdb \<Rightarrow> string list \<Rightarrow> (string \<times> string) list \<Rightarrow> 'm ManagerKVDB_scheme \<Rightarrow> 'st
    \<Rightarrow> lock_result option \<times> (string \<times> string) list \<times> 'm ManagerKVDB_scheme \<times> 'st" where
  "acquire_all db [] got m st = (None, got, m, st)"
| "acquire_all db (n # ns) got m st = (case acquire db n m st of
      (Inl e, m1, st1) \<Rightarrow> (Some e, got, m1, st1)
    | (Inr proof, m1, st1) \<Rightarrow> acquire_all db ns (got @ [(n, proof)]) m1 st1)"

definition AcquireDoReleaseAll ::
    "'st kvdb \<Rightarrow> bool \<Rightarrow> string list \<Rightarrow> ('m, 'st) lock_fn \<Rightarrow> 'm ManagerKVDB_scheme \<Rightarrow> 'st \<Rightarrow> lock_result \<times> 'm ManagerKVDB_scheme \<times> 'st" where
  "AcquireDoReleaseAll db ctx_ended ns fn m st =
     (if ctx_ended then (CtxEnded, m, st)
      else case acquire_all db ns [] m st of
        (Some e, got, m1, st1) \<Rightarrow> (let (m2, st2) = giveBackAll db (rev got) m1 st1 in (e, m2, st2))
      | (None, got, m1, st1) \<Rightarrow>
          (let (out, m2, st2) = fn m1 st1; (m3, st3) = giveBackAll db (rev got) m2 st2
           in (fn_result out, m3, st3)))"

section \<open>Administration of the external ledger\<close>

definition cleanupBatch :: nat where "cleanupBatch = 500"

text \<open>The count, the error that stopped it if any, and the database.\<close>

function deleteKeys :: "'st kvdb \<Rightarrow> string list \<Rightarrow> 'st \<Rightarrow> int \<times> kv_error option \<times> 'st" where
  "deleteKeys db keys st =
     (if keys = [] then (0, None, st)
      else let batch = (if length keys > cleanupBatch then take cleanupBatch keys else keys)
           in case Delete db batch st of
                (Inl e, st1) \<Rightarrow> (0, Some e, st1)
              | (Inr n, st1) \<Rightarrow> (let (k, e, st2) = deleteKeys db (drop (length batch) keys) st1 in (n + k, e, st2)))"
  by pat_completeness auto
termination deleteKeys
  by (relation "measure (\<lambda>(_, keys, _). length keys)") (auto simp: cleanupBatch_def)

declare deleteKeys.simps [simp del]

definition CleanupNames :: "'st kvdb \<Rightarrow> string \<Rightarrow> string list \<Rightarrow> 'st \<Rightarrow> int \<times> kv_error option \<times> 'st" where
  "CleanupNames db prefix ns st = deleteKeys db (map (\<lambda>n. prefix @ n) ns) st"

text \<open>
  \<open>scan\<close> is \<open>ScanKeys\<close> of the database: a batch of keys and the next cursor, \<open>None\<close> at the end. A scan
  need not end, so the loop has fuel, its number of batches; \<open>None\<close> is out of fuel.
\<close>

fun Cleanup :: "nat \<Rightarrow> 'st kvdb \<Rightarrow> ('c option \<Rightarrow> nat \<Rightarrow> ('st, string list \<times> 'c option) io) \<Rightarrow> string \<Rightarrow> 'c option \<Rightarrow> 'st
    \<Rightarrow> (int \<times> kv_error option \<times> 'st) option" where
  "Cleanup 0 db scan prefix cursor st = None"
| "Cleanup (Suc fuel) db scan prefix cursor st = (case scan cursor cleanupBatch st of
      (Inl e, st1) \<Rightarrow> Some (0, Some e, st1)
    | (Inr (keys, next), st1) \<Rightarrow>
        (let ours = filter (\<lambda>k. take (length prefix) k = prefix) keys
         in case deleteKeys db ours st1 of
              (n, Some e, st2) \<Rightarrow> Some (n, Some e, st2)
            | (n, None, st2) \<Rightarrow>
                if next = None then Some (n, None, st2)
                else map_option (\<lambda>(k, e, st3). (n + k, e, st3)) (Cleanup fuel db scan prefix next st2)))"

section \<open>All names or none\<close>

lemma reserve_simps [simp]:
  "held name = None \<Longrightarrow> reserve name v held = (True, held(name \<mapsto> v))"
  "held name = Some w \<Longrightarrow> reserve name v held = (False, held)"
  by (simp_all add: reserve_def)

definition hold_all :: "string list \<Rightarrow> unit ledger \<Rightarrow> unit ledger" where
  "hold_all ns h = (\<lambda>n. if n \<in> set ns then Some () else h n)"

lemma release_all_apply: "release_all ns h n = (if n \<in> set ns then None else h n)"
proof -
  have "fold release ms h n = (if n \<in> set ms then None else h n)" for ms
    by (induction ms arbitrary: h) (auto simp: release_def)
  then show ?thesis by (simp add: release_all_def)
qed

lemma release_hold_all: "(\<And>n. n \<in> set ns \<Longrightarrow> h n = None) \<Longrightarrow> release_all ns (hold_all ns h) = h"
  by (auto simp: release_all_apply hold_all_def)

lemma local_take_all_free:
  "distinct ns \<Longrightarrow> (\<And>n. n \<in> set ns \<Longrightarrow> h n = None) \<Longrightarrow> local_take_all ns taken h = (None, taken @ ns, hold_all ns h)"
proof (induction ns arbitrary: taken h)
  case Nil then show ?case by (simp add: hold_all_def)
next
  case (Cons n ns)
  have "local_take_all ns (taken @ [n]) (h(n \<mapsto> ())) = (None, (taken @ [n]) @ ns, hold_all ns (h(n \<mapsto> ())))"
    using Cons.prems by (intro Cons.IH) auto
  moreover have "hold_all ns (h(n \<mapsto> ())) = hold_all (n # ns) h" by (auto simp: hold_all_def)
  ultimately show ?case using Cons.prems by simp
qed

lemma local_take_all_refused:
  "\<not> (distinct ns \<and> (\<forall>n\<in>set ns. h n = None)) \<Longrightarrow>
     \<exists>pre x. local_take_all ns taken h = (Some x, taken @ pre, hold_all pre h) \<and> x \<in> set ns \<and> (\<forall>n\<in>set pre. h n = None)"
proof (induction ns arbitrary: taken h)
  case (Cons n ns)
  show ?case
  proof (cases "h n")
    case (Some u)
    then show ?thesis by - (rule exI [of _ "[]"], rule exI [of _ n], simp add: hold_all_def)
  next
    case None
    have "\<not> (distinct ns \<and> (\<forall>m\<in>set ns. (h(n \<mapsto> ())) m = None))" using Cons.prems None by auto
    from Cons.IH [OF this, of "taken @ [n]"] obtain pre x where
      "local_take_all ns (taken @ [n]) (h(n \<mapsto> ())) = (Some x, (taken @ [n]) @ pre, hold_all pre (h(n \<mapsto> ())))"
      "x \<in> set ns" "\<forall>m\<in>set pre. (h(n \<mapsto> ())) m = None" by blast
    moreover have "hold_all pre (h(n \<mapsto> ())) = hold_all (n # pre) h" by (auto simp: hold_all_def)
    moreover have "\<forall>m\<in>set (n # pre). h m = None" using calculation(3) None by (metis fun_upd_other set_ConsD fun_upd_same option.distinct(1))
    ultimately show ?thesis using None by - (rule exI [of _ "n # pre"], rule exI [of _ x], simp)
  qed
qed simp

lemma fn_result_not_refusal [simp]: "fn_result out \<noteq> ActionLocked n" "fn_result out \<noteq> CtxEnded" "fn_result out \<noteq> LedgerError e"
  by (cases out; simp)+

lemmas fn_result_not_refusal_sym [simp] = fn_result_not_refusal [THEN not_sym]
section \<open>What every manager promises\<close>

text \<open>
  \<open>locking.Manager\<close>, on the manager and whatever it shares: an ask for a name this instance holds is
  refused without running \<open>fn\<close>; \<open>fn\<close> runs only while the name is held; the name is not held afterwards,
  however \<open>fn\<close> ended.
\<close>

locale lock_manager =
  fixes holds :: "'s \<Rightarrow> string \<Rightarrow> bool"
    and do_under :: "bool \<Rightarrow> string \<Rightarrow> ('s \<Rightarrow> fn_out \<times> 's) \<Rightarrow> 's \<Rightarrow> lock_result \<times> 's"
  assumes ended_refused: "do_under True n fn s = (CtxEnded, s)"
    and held_refused: "holds s n \<Longrightarrow> \<exists>s'. do_under False n fn s = (ActionLocked n, s') \<and> (\<forall>k. holds s' k = holds s k)"
    and refused_or_ran: "do_under False n fn s = (r, s') \<Longrightarrow>
      (\<forall>k. holds s' k = holds s k) \<and> (\<forall>out. r \<noteq> fn_result out) \<or>
      (\<exists>s1. \<not> holds s n \<and> holds s1 n \<and> (\<forall>k. k \<noteq> n \<longrightarrow> holds s1 k = holds s k) \<and>
        r = fn_result (fst (fn s1)) \<and> (\<forall>k. holds s' k = (k \<noteq> n \<and> holds (snd (fn s1)) k)))"
begin

text \<open>Locks are not reentrant: an ask for the name from under it is refused.\<close>

lemma nested_refused:
  assumes "do_under False n (\<lambda>s1. let (r, s2) = do_under False n g s1 in (if r = ActionLocked n then FnErr ''locked'' else FnOk, s2)) s = (r, s')"
  shows "r \<noteq> Done"
proof -
  let ?fn = "\<lambda>s1. let (r, s2) = do_under False n g s1 in (if r = ActionLocked n then FnErr ''locked'' else FnOk, s2)"
  have "fst (?fn s1) = FnErr ''locked''" if "holds s1 n" for s1
    using held_refused [OF that, of g] by (auto simp: Let_def split: prod.splits)
  then show ?thesis using refused_or_ran [OF assms] by (metis fn_result.simps(1,2) lock_result.distinct(1))
qed

lemma released_after:
  assumes "do_under b n fn s = (r, s')" "\<not> holds s n"
  shows "\<not> holds s' n"
proof (cases b)
  case True then show ?thesis using assms ended_refused by simp
next
  case False then show ?thesis using refused_or_ran [of n fn s r s'] assms by auto
qed

end

interpretation lml: lock_manager "\<lambda>m n. ml_held m n \<noteq> None" local_AcquireDoRelease
proof unfold_locales
  fix n fn and s s' :: "'a ManagerLocal_scheme" and r
  show "local_AcquireDoRelease True n fn s = (CtxEnded, s)" by (simp add: local_AcquireDoRelease_def)
  show "ml_held s n \<noteq> None \<Longrightarrow> \<exists>s'. local_AcquireDoRelease False n fn s = (ActionLocked n, s') \<and>
      (\<forall>k. (ml_held s' k \<noteq> None) = (ml_held s k \<noteq> None))"
    by (auto simp: local_AcquireDoRelease_def)
  assume run: "local_AcquireDoRelease False n fn s = (r, s')"
  show "(\<forall>k. (ml_held s' k \<noteq> None) = (ml_held s k \<noteq> None)) \<and> (\<forall>out. r \<noteq> fn_result out) \<or>
      (\<exists>s1. \<not> ml_held s n \<noteq> None \<and> ml_held s1 n \<noteq> None \<and> (\<forall>k. k \<noteq> n \<longrightarrow> (ml_held s1 k \<noteq> None) = (ml_held s k \<noteq> None)) \<and>
        r = fn_result (fst (fn s1)) \<and> (\<forall>k. (ml_held s' k \<noteq> None) = (k \<noteq> n \<and> ml_held (snd (fn s1)) k \<noteq> None)))"
  proof (cases "ml_held s n")
    case (Some u) then show ?thesis using run by (auto simp: local_AcquireDoRelease_def)
  next
    case None
    then show ?thesis using run
      by (intro disjI2 exI [of _ "s\<lparr>ml_held := (ml_held s)(n \<mapsto> ())\<rparr>"])
        (auto simp: local_AcquireDoRelease_def release_def split: prod.splits if_splits)
  qed
qed

definition kv_do_under :: "'st kvdb \<Rightarrow> bool \<Rightarrow> string \<Rightarrow> ('m ManagerKVDB_scheme \<times> 'st \<Rightarrow> fn_out \<times> 'm ManagerKVDB_scheme \<times> 'st)
    \<Rightarrow> 'm ManagerKVDB_scheme \<times> 'st \<Rightarrow> lock_result \<times> 'm ManagerKVDB_scheme \<times> 'st" where
  "kv_do_under db b n fn s = AcquireDoRelease db b n (\<lambda>m st. fn (m, st)) (fst s) (snd s)"

lemma newProof_held [simp]: "km_held (snd (newProof m)) = km_held m" "km_prefix (snd (newProof m)) = km_prefix m"
    "km_id (snd (newProof m)) = km_id m"
  by (simp_all add: newProof_def Let_def)

lemma acquire_held:
  assumes "acquire db name m st = (r, m', st')"
  shows "case r of Inl e \<Rightarrow> km_held m' = km_held m \<and> (\<forall>out. e \<noteq> fn_result out) \<and> (km_held m name \<noteq> None \<longrightarrow> e = ActionLocked name)
                 | Inr p \<Rightarrow> km_held m name = None \<and> km_held m' = (km_held m)(name \<mapsto> p)"
proof -
  obtain p m1 where p: "newProof m = (p, m1)" by (cases "newProof m")
  have h: "km_held m1 = km_held m" using newProof_held(1) [of m] p by simp
  obtain a st1 where t: "ledger_take db (km_prefix m) name p st = (a, st1)" by (cases "ledger_take db (km_prefix m) name p st")
  show ?thesis
  proof (cases "km_held m name")
    case (Some q) then show ?thesis using assms p h by (auto simp: acquire_def)
  next
    case None
    then have "release name ((km_held m)(name \<mapsto> p)) = km_held m" by (auto simp: release_def)
    then show ?thesis using assms p h None t
      by (cases a) (auto simp: acquire_def Let_def split: if_splits)
  qed
qed

interpretation lmk: lock_manager "\<lambda>s n. km_held (fst s) n \<noteq> None" "kv_do_under db" for db
proof unfold_locales
  fix n fn and s s' :: "'a ManagerKVDB_scheme \<times> 'b" and r
  show "kv_do_under db True n fn s = (CtxEnded, s)" by (simp add: kv_do_under_def AcquireDoRelease_def)
  show "km_held (fst s) n \<noteq> None \<Longrightarrow> \<exists>s'. kv_do_under db False n fn s = (ActionLocked n, s') \<and>
      (\<forall>k. (km_held (fst s') k \<noteq> None) = (km_held (fst s) k \<noteq> None))"
    using acquire_held [of db n "fst s" "snd s"]
    by (cases "acquire db n (fst s) (snd s)"; cases "fst (acquire db n (fst s) (snd s))")
      (fastforce simp: kv_do_under_def AcquireDoRelease_def)+
  assume run: "kv_do_under db False n fn s = (r, s')"
  obtain a m1 st1 where ac: "acquire db n (fst s) (snd s) = (a, m1, st1)" by (cases "acquire db n (fst s) (snd s)") auto
  show "(\<forall>k. (km_held (fst s') k \<noteq> None) = (km_held (fst s) k \<noteq> None)) \<and> (\<forall>out. r \<noteq> fn_result out) \<or>
      (\<exists>s1. \<not> km_held (fst s) n \<noteq> None \<and> km_held (fst s1) n \<noteq> None \<and>
        (\<forall>k. k \<noteq> n \<longrightarrow> (km_held (fst s1) k \<noteq> None) = (km_held (fst s) k \<noteq> None)) \<and>
        r = fn_result (fst (fn s1)) \<and> (\<forall>k. (km_held (fst s') k \<noteq> None) = (k \<noteq> n \<and> km_held (fst (snd (fn s1))) k \<noteq> None)))"
  proof (cases a)
    case (Inl e) then show ?thesis using run ac acquire_held [OF ac] by (auto simp: kv_do_under_def AcquireDoRelease_def)
  next
    case (Inr p)
    then show ?thesis using run ac acquire_held [OF ac]
      by (intro disjI2 exI [of _ "(m1, st1)"])
        (auto simp: kv_do_under_def AcquireDoRelease_def giveBack_def release_def Let_def split: prod.splits if_splits)
  qed
qed

section \<open>Several names\<close>

text \<open>
  What a caller of \<open>AcquireDoReleaseAll\<close> may rely on. The manager's record is extended with the memory around it
  (\<open>rest\<close>), which only \<open>fn\<close> changes: a refusal leaves it and the names held as they were; otherwise \<open>fn\<close> ran with every
  name held on top of what was held, and afterwards none of them is.
\<close>

locale lock_all_manager =
  fixes holds :: "'s \<Rightarrow> string \<Rightarrow> bool"
    and rest :: "'s \<Rightarrow> 'x"
    and do_all :: "bool \<Rightarrow> string list \<Rightarrow> ('s \<Rightarrow> fn_out \<times> 's) \<Rightarrow> 's \<Rightarrow> lock_result \<times> 's"
  assumes ended_refused: "do_all True ns fn s = (CtxEnded, s)"
    and refused_or_ran: "do_all False ns fn s = (r, s') \<Longrightarrow>
      (\<forall>out. r \<noteq> fn_result out) \<and> (\<forall>k. holds s' k = holds s k) \<and> rest s' = rest s \<or>
      (\<exists>s1. distinct ns \<and> (\<forall>n\<in>set ns. \<not> holds s n) \<and> (\<forall>k. holds s1 k = (k \<in> set ns \<or> holds s k)) \<and>
        rest s1 = rest s \<and> r = fn_result (fst (fn s1)) \<and>
        (\<forall>k. holds s' k = (k \<notin> set ns \<and> holds (snd (fn s1)) k)) \<and> rest s' = rest (snd (fn s1)))"
begin

text \<open>A name that is held keeps the function from running.\<close>

lemma held_keeps_out:
  assumes "do_all b ns fn s = (r, s')" "n \<in> set ns" "holds s n"
  shows "(\<forall>out. r \<noteq> fn_result out) \<and> (\<forall>k. holds s' k = holds s k) \<and> rest s' = rest s"
proof (cases b)
  case True
  have "CtxEnded \<noteq> fn_result out" for out by (cases out) simp_all
  then show ?thesis using assms(1) ended_refused [of ns fn s] True by auto
next
  case False then show ?thesis using refused_or_ran [of ns fn s r s'] assms by auto
qed

lemma free_after:
  assumes "do_all b ns fn s = (r, s')" "n \<in> set ns" "\<not> holds s n"
  shows "\<not> holds s' n"
  using assms ended_refused [of ns fn s] refused_or_ran [of ns fn s r s'] by (cases b) auto

end

lemma local_all_eq:
  "local_AcquireDoReleaseAll False ns fn m =
     (if distinct ns \<and> (\<forall>n\<in>set ns. ml_held m n = None)
      then let (out, m') = fn (m\<lparr>ml_held := hold_all ns (ml_held m)\<rparr>)
           in (fn_result out, m'\<lparr>ml_held := release_all ns (ml_held m')\<rparr>)
      else (ActionLocked (the (fst (local_take_all ns [] (ml_held m)))), m))"
proof (cases "distinct ns \<and> (\<forall>n\<in>set ns. ml_held m n = None)")
  case True
  then show ?thesis using local_take_all_free [of ns "ml_held m" "[]"] by (simp add: local_AcquireDoReleaseAll_def)
next
  case False
  then obtain pre x where "local_take_all ns [] (ml_held m) = (Some x, pre, hold_all pre (ml_held m))" "\<forall>n\<in>set pre. ml_held m n = None"
    using local_take_all_refused [OF False, of "[]"] by auto
  moreover from this have "release_all pre (hold_all pre (ml_held m)) = ml_held m" using release_hold_all by blast
  ultimately show ?thesis using False by (auto simp: local_AcquireDoReleaseAll_def)
qed

interpretation lal: lock_all_manager "\<lambda>m n. ml_held m n \<noteq> None" ManagerLocal.more local_AcquireDoReleaseAll
proof unfold_locales
  fix ns fn and s s' :: "'a ManagerLocal_scheme" and r
  show "local_AcquireDoReleaseAll True ns fn s = (CtxEnded, s)" by (simp add: local_AcquireDoReleaseAll_def)
  assume run: "local_AcquireDoReleaseAll False ns fn s = (r, s')"
  let ?s1 = "s\<lparr>ml_held := hold_all ns (ml_held s)\<rparr>"
  show "(\<forall>out. r \<noteq> fn_result out) \<and> (\<forall>k. (ml_held s' k \<noteq> None) = (ml_held s k \<noteq> None)) \<and> ManagerLocal.more s' = ManagerLocal.more s \<or>
      (\<exists>s1. distinct ns \<and> (\<forall>n\<in>set ns. \<not> ml_held s n \<noteq> None) \<and> (\<forall>k. (ml_held s1 k \<noteq> None) = (k \<in> set ns \<or> ml_held s k \<noteq> None)) \<and>
        ManagerLocal.more s1 = ManagerLocal.more s \<and> r = fn_result (fst (fn s1)) \<and>
        (\<forall>k. (ml_held s' k \<noteq> None) = (k \<notin> set ns \<and> ml_held (snd (fn s1)) k \<noteq> None)) \<and>
        ManagerLocal.more s' = ManagerLocal.more (snd (fn s1)))"
  proof (cases "distinct ns \<and> (\<forall>n\<in>set ns. ml_held s n = None)")
    case True
    then show ?thesis using run
      by (intro disjI2 exI [of _ ?s1]) (auto simp: local_all_eq hold_all_def release_all_apply split: prod.splits if_splits)
  next
    case False
    then show ?thesis using run local_all_eq [of ns fn s] by (metis (no_types, lifting) fn_result_not_refusal(1) prod.inject)
  qed
qed

lemma acquire_more: "acquire db n m st = (r, m', st') \<Longrightarrow> ManagerKVDB.more m' = ManagerKVDB.more m"
  by (auto simp: acquire_def newProof_def reserve_def Let_def split: prod.splits sum.splits if_splits)

text \<open>The names taken so far, and what the ledger holds on top of them.\<close>

lemma acquire_all_held:
  assumes "acquire_all db ns got m st = (r, got', m', st')"
  shows "\<exists>ps. got' = got @ ps \<and> (\<forall>n\<in>fst ` set ps. km_held m n = None) \<and>
     (\<forall>k. (km_held m' k \<noteq> None) = (k \<in> fst ` set ps \<or> km_held m k \<noteq> None)) \<and>
     (\<forall>k. k \<notin> fst ` set ps \<longrightarrow> km_held m' k = km_held m k) \<and>
     ManagerKVDB.more m' = ManagerKVDB.more m \<and>
     (case r of None \<Rightarrow> map fst ps = ns \<and> distinct ns | Some e \<Rightarrow> \<forall>out. e \<noteq> fn_result out)"
  using assms
proof (induction ns arbitrary: got m st)
  case (Cons n ns)
  obtain a m1 st1 where ac: "acquire db n m st = (a, m1, st1)" by (cases "acquire db n m st") auto
  show ?case
  proof (cases a)
    case (Inl e)
    then show ?thesis using Cons.prems ac acquire_held [OF ac] acquire_more [OF ac] by auto
  next
    case (Inr p)
    note h = acquire_held [OF ac]
    obtain ps where ps: "got' = (got @ [(n, p)]) @ ps" "\<forall>k\<in>fst ` set ps. km_held m1 k = None"
        "\<forall>k. (km_held m' k \<noteq> None) = (k \<in> fst ` set ps \<or> km_held m1 k \<noteq> None)"
        "\<forall>k. k \<notin> fst ` set ps \<longrightarrow> km_held m' k = km_held m1 k"
        "ManagerKVDB.more m' = ManagerKVDB.more m1"
        "case r of None \<Rightarrow> map fst ps = ns \<and> distinct ns | Some e \<Rightarrow> \<forall>out. e \<noteq> fn_result out"
      using Cons.IH [of "got @ [(n, p)]" m1 st1] Cons.prems ac Inr by auto
    have n: "km_held m n = None" "km_held m1 = (km_held m)(n \<mapsto> p)" using h Inr by auto
    have "n \<notin> fst ` set ps" using ps(2) n by force
    then show ?thesis
      using ps n acquire_more [OF ac]
      by (intro exI [of _ "(n, p) # ps"]) (auto split: option.splits if_splits)
  qed
qed simp

lemma giveBackAll_held:
  "giveBackAll db nps m st = (m', st') \<Longrightarrow>
     km_held m' = (\<lambda>k. if k \<in> fst ` set nps then None else km_held m k) \<and> ManagerKVDB.more m' = ManagerKVDB.more m"
proof (induction nps arbitrary: m st)
  case (Cons np nps)
  then show ?case
    by (cases np) (fastforce simp: giveBack_def release_def Let_def split: prod.splits)
qed auto

definition kv_do_all :: "'st kvdb \<Rightarrow> bool \<Rightarrow> string list \<Rightarrow> ('m ManagerKVDB_scheme \<times> 'st \<Rightarrow> fn_out \<times> 'm ManagerKVDB_scheme \<times> 'st)
    \<Rightarrow> 'm ManagerKVDB_scheme \<times> 'st \<Rightarrow> lock_result \<times> 'm ManagerKVDB_scheme \<times> 'st" where
  "kv_do_all db b ns fn s = AcquireDoReleaseAll db b ns (\<lambda>m st. fn (m, st)) (fst s) (snd s)"

interpretation lak: lock_all_manager "\<lambda>s n. km_held (fst s) n \<noteq> None" "\<lambda>s. ManagerKVDB.more (fst s)" "kv_do_all db" for db
proof unfold_locales
  fix ns fn and s s' :: "'a ManagerKVDB_scheme \<times> 'b" and r
  show "kv_do_all db True ns fn s = (CtxEnded, s)" by (simp add: kv_do_all_def AcquireDoReleaseAll_def)
  assume run: "kv_do_all db False ns fn s = (r, s')"
  obtain a got m1 st1 where ac: "acquire_all db ns [] (fst s) (snd s) = (a, got, m1, st1)"
    by (cases "acquire_all db ns [] (fst s) (snd s)") auto
  note h = acquire_all_held [OF ac]
  show "(\<forall>out. r \<noteq> fn_result out) \<and> (\<forall>k. (km_held (fst s') k \<noteq> None) = (km_held (fst s) k \<noteq> None)) \<and>
      ManagerKVDB.more (fst s') = ManagerKVDB.more (fst s) \<or>
      (\<exists>s1. distinct ns \<and> (\<forall>n\<in>set ns. \<not> km_held (fst s) n \<noteq> None) \<and>
        (\<forall>k. (km_held (fst s1) k \<noteq> None) = (k \<in> set ns \<or> km_held (fst s) k \<noteq> None)) \<and>
        ManagerKVDB.more (fst s1) = ManagerKVDB.more (fst s) \<and> r = fn_result (fst (fn s1)) \<and>
        (\<forall>k. (km_held (fst s') k \<noteq> None) = (k \<notin> set ns \<and> km_held (fst (snd (fn s1))) k \<noteq> None)) \<and>
        ManagerKVDB.more (fst s') = ManagerKVDB.more (fst (snd (fn s1))))"
  proof (cases a)
    case None
    obtain out m2 st2 where f: "fn (m1, st1) = (out, m2, st2)" by (cases "fn (m1, st1)") auto
    obtain m3 st3 where g: "giveBackAll db (rev got) m2 st2 = (m3, st3)" by (cases "giveBackAll db (rev got) m2 st2")
    have "r = fn_result out" "s' = (m3, st3)"
      using run ac None f g by (auto simp: kv_do_all_def AcquireDoReleaseAll_def)
    moreover have "map fst got = ns" "distinct ns" using h None by auto
    moreover from this have "fst ` set got = set ns" by (metis set_map)
    ultimately show ?thesis using h giveBackAll_held [OF g] f None
      by (intro disjI2 exI [of _ "(m1, st1)"]) auto
  next
    case (Some e)
    obtain m3 st3 where g: "giveBackAll db (rev got) m1 st1 = (m3, st3)" by (cases "giveBackAll db (rev got) m1 st1")
    have "r = e" "s' = (m3, st3)" using run ac Some g by (auto simp: kv_do_all_def AcquireDoReleaseAll_def)
    then show ?thesis using h giveBackAll_held [OF g] Some by auto
  qed
qed

section \<open>The instances of an app\<close>

text \<open>
  Where the goroutine working on a name is: between the two asks of \<open>acquire\<close>, running the caller's
  function, or between the two releases of \<open>giveBack\<close>.
\<close>

datatype phase = Asking | Holding | Leaving

record lock_sys =
  ls_store :: kvst
  ls_inst :: "nat \<Rightarrow> ManagerKVDB"
  ls_pc :: "nat \<Rightarrow> string \<Rightarrow> phase option"

definition set_inst :: "nat \<Rightarrow> ManagerKVDB \<Rightarrow> lock_sys \<Rightarrow> lock_sys" where
  "set_inst i m s = s\<lparr>ls_inst := (ls_inst s)(i := m)\<rparr>"

definition set_pc :: "nat \<Rightarrow> string \<Rightarrow> phase option \<Rightarrow> lock_sys \<Rightarrow> lock_sys" where
  "set_pc i n p s = s\<lparr>ls_pc := (ls_pc s)(i := (ls_pc s i)(n := p))\<rparr>"

definition forget :: "nat \<Rightarrow> string \<Rightarrow> lock_sys \<Rightarrow> lock_sys" where
  "forget i n s = set_pc i n None (set_inst i (ls_inst s i\<lparr>km_held := release n (km_held (ls_inst s i))\<rparr>) s)"

inductive lock_step :: "lock_sys \<Rightarrow> lock_sys \<Rightarrow> bool" where
  ask: "newProof (ls_inst s i) = (p, m1) \<Longrightarrow> reserve n p (km_held m1) = (True, h) \<Longrightarrow>
    lock_step s (set_pc i n (Some Asking) (set_inst i (m1\<lparr>km_held := h\<rparr>) s))"
| ask_refused: "newProof (ls_inst s i) = (p, m1) \<Longrightarrow> reserve n p (km_held m1) = (False, h) \<Longrightarrow> lock_step s (set_inst i m1 s)"
| take_won: "ls_pc s i n = Some Asking \<Longrightarrow> km_held (ls_inst s i) n = Some p \<Longrightarrow>
    eff_SetValuePersistentIfNotExists (km_prefix (ls_inst s i) @ n) p (ls_store s) = (Inr True, v) \<Longrightarrow>
    lock_step s (set_pc i n (Some Holding) (s\<lparr>ls_store := v\<rparr>))"
| take_lost: "ls_pc s i n = Some Asking \<Longrightarrow> km_held (ls_inst s i) n = Some p \<Longrightarrow>
    eff_SetValuePersistentIfNotExists (km_prefix (ls_inst s i) @ n) p (ls_store s) = (Inr False, v) \<Longrightarrow>
    lock_step s (forget i n (s\<lparr>ls_store := v\<rparr>))"
| take_failed: "ls_pc s i n = Some Asking \<Longrightarrow> km_held (ls_inst s i) n = Some p \<Longrightarrow>
    v \<in> {ls_store s, snd (eff_SetValuePersistentIfNotExists (km_prefix (ls_inst s i) @ n) p (ls_store s))} \<Longrightarrow>
    lock_step s (forget i n (s\<lparr>ls_store := v\<rparr>))"
| retire: "ls_pc s i n = Some Holding \<Longrightarrow> km_held (ls_inst s i) n = Some p \<Longrightarrow>
    v \<in> {ls_store s, snd (eff_DeleteValueIfEquals (km_prefix (ls_inst s i) @ n) p (ls_store s))} \<Longrightarrow>
    lock_step s (set_pc i n (Some Leaving) (s\<lparr>ls_store := v\<rparr>))"
| left: "ls_pc s i n = Some Leaving \<Longrightarrow> lock_step s (forget i n s)"
| crash: "lock_step s (set_inst i (ls_inst s i\<lparr>km_held := (\<lambda>_. None)\<rparr>) (s\<lparr>ls_pc := (ls_pc s)(i := (\<lambda>_. None))\<rparr>))"
| elsewhere: "\<forall>i n. kv_get v (km_prefix (ls_inst s i) @ n) = kv_get (ls_store s) (km_prefix (ls_inst s i) @ n) \<Longrightarrow>
    lock_step s (s\<lparr>ls_store := v\<rparr>)"

text \<open>Instances of one app: the same region of the keyspace, boot ids of their own (hexadecimal, so without a colon).\<close>

definition one_app :: "string \<Rightarrow> lock_sys \<Rightarrow> bool" where
  "one_app px s \<longleftrightarrow> (\<forall>i. km_prefix (ls_inst s i) = px \<and> CHR '':'' \<notin> set (km_id (ls_inst s i))) \<and>
     inj (\<lambda>i. km_id (ls_inst s i))"

definition fresh_sys :: "string \<Rightarrow> lock_sys \<Rightarrow> bool" where
  "fresh_sys px s \<longleftrightarrow> one_app px s \<and> (\<forall>i. km_held (ls_inst s i) = (\<lambda>_. None)) \<and> ls_pc s = (\<lambda>_ _. None)"

definition proof_of :: "string \<Rightarrow> string \<Rightarrow> bool" where
  "proof_of i p \<longleftrightarrow> (\<exists>s. p = i @ '':'' @ Itoa s)"

lemma proof_of_Cut: "proof_of i p \<Longrightarrow> CHR '':'' \<notin> set i \<Longrightarrow> map_option fst (Cut (CHR '':'') p) = Some i"
  by (auto simp: proof_of_def)

lemma proof_of_unique: "proof_of i p \<Longrightarrow> proof_of j p \<Longrightarrow> CHR '':'' \<notin> set i \<Longrightarrow> CHR '':'' \<notin> set j \<Longrightarrow> i = j"
  using proof_of_Cut by (metis option.inject)

text \<open>A ledger entry is an own proof, in use by one goroutine; a name held stands under it in the external ledger.\<close>

definition lock_inv :: "string \<Rightarrow> lock_sys \<Rightarrow> bool" where
  "lock_inv px s \<longleftrightarrow> one_app px s \<and>
     (\<forall>i n. (ls_pc s i n = None) = (km_held (ls_inst s i) n = None)) \<and>
     (\<forall>i n p. km_held (ls_inst s i) n = Some p \<longrightarrow> proof_of (km_id (ls_inst s i)) p) \<and>
     (\<forall>i n p. ls_pc s i n = Some Holding \<longrightarrow> km_held (ls_inst s i) n = Some p \<longrightarrow> kv_get (ls_store s) (px @ n) = Some (VStr p, None))"

lemma newProof_proof_of: "newProof m = (p, m1) \<Longrightarrow> proof_of (km_id m) p"
  by (auto simp: newProof_def Let_def proof_of_def)

lemmas sys_defs = set_inst_def set_pc_def forget_def release_def

lemma one_app_keep:
  assumes "one_app px s" and "\<And>i. km_prefix (ls_inst s' i) = km_prefix (ls_inst s i)" "\<And>i. km_id (ls_inst s' i) = km_id (ls_inst s i)"
  shows "one_app px s'"
  using assms(1) by (simp add: one_app_def assms(2,3))

lemma lock_invI:
  assumes "lock_inv px s" and "\<And>i. km_prefix (ls_inst s' i) = km_prefix (ls_inst s i)" "\<And>i. km_id (ls_inst s' i) = km_id (ls_inst s i)"
    and "\<And>i n. (ls_pc s' i n = None) = (km_held (ls_inst s' i) n = None)"
    and "\<And>i n p. km_held (ls_inst s' i) n = Some p \<Longrightarrow> proof_of (km_id (ls_inst s i)) p"
    and "\<And>i n p. ls_pc s' i n = Some Holding \<Longrightarrow> km_held (ls_inst s' i) n = Some p \<Longrightarrow> kv_get (ls_store s') (px @ n) = Some (VStr p, None)"
  shows "lock_inv px s'"
  unfolding lock_inv_def using assms one_app_keep [OF _ assms(2,3), of px] by (auto simp: lock_inv_def)

lemma lock_invD:
  assumes "lock_inv px s"
  shows "(ls_pc s i n = None) = (km_held (ls_inst s i) n = None)"
    and "km_held (ls_inst s i) n = Some p \<Longrightarrow> proof_of (km_id (ls_inst s i)) p"
    and "ls_pc s i n = Some Holding \<Longrightarrow> km_held (ls_inst s i) n = Some p \<Longrightarrow> kv_get (ls_store s) (px @ n) = Some (VStr p, None)"
  using assms by (auto simp: lock_inv_def)

lemma one_app_unique:
  assumes "lock_inv px s" "km_held (ls_inst s i) n = Some p" "km_held (ls_inst s j) n' = Some p"
  shows "i = j"
proof -
  have "km_id (ls_inst s i) = km_id (ls_inst s j)"
    using assms proof_of_unique unfolding lock_inv_def one_app_def by metis
  then show ?thesis using assms(1) unfolding lock_inv_def one_app_def by (auto dest: injD)
qed

text \<open>A change of the store that keeps the rows of the names held keeps the invariant.\<close>

lemma lock_inv_store:
  assumes "lock_inv px s"
    and "\<And>i n p. ls_pc s i n = Some Holding \<Longrightarrow> km_held (ls_inst s i) n = Some p \<Longrightarrow>
           kv_get (ls_store s) (px @ n) = Some (VStr p, None) \<Longrightarrow> kv_get v (px @ n) = Some (VStr p, None)"
  shows "lock_inv px (s\<lparr>ls_store := v\<rparr>)"
  using assms by (simp add: lock_inv_def one_app_def)

lemma lock_inv_forget: "lock_inv px s \<Longrightarrow> lock_inv px (forget i n s)"
  by (rule lock_invI, assumption) (auto simp: sys_defs lock_invD split: if_splits)

lemma take_keeps_rows:
  "kv_get v (px @ n') = Some e \<Longrightarrow> kv_get (snd (eff_SetValuePersistentIfNotExists (px @ n) p v)) (px @ n') = Some e"
  by (cases e) (auto simp: eff_SetValuePersistentIfNotExists_def)

lemma retire_keeps_rows:
  "kv_get v (px @ n') = Some (VStr q, m) \<Longrightarrow> q \<noteq> p \<or> n' \<noteq> n \<Longrightarrow>
     kv_get (snd (eff_DeleteValueIfEquals (px @ n) p v)) (px @ n') = Some (VStr q, m)"
  by (auto simp: eff_DeleteValueIfEquals_def split: option.splits kv_value.splits)

lemma lock_inv_step:
  assumes inv: "lock_inv px s" and step: "lock_step s s'"
  shows "lock_inv px s'"
proof -
  have px: "km_prefix (ls_inst s i) = px" for i using inv by (simp add: lock_inv_def one_app_def)
  from step show ?thesis
  proof cases
    case (ask i p m1 n h)
    have m1: "km_held m1 = km_held (ls_inst s i)" "km_id m1 = km_id (ls_inst s i)" "km_prefix m1 = px"
      using newProof_held [of "ls_inst s i"] ask(2) px by simp_all
    have "km_held m1 n = None" "h = (km_held m1)(n \<mapsto> p)" using ask(3) by (auto simp: reserve_def split: if_splits)
    then show ?thesis unfolding ask(1) using m1 newProof_proof_of [OF ask(2)] px
      by (intro lock_invI [OF inv]) (auto simp: sys_defs lock_invD [OF inv] split: if_splits)
  next
    case (ask_refused i p m1 n h)
    have "km_held m1 = km_held (ls_inst s i)" "km_id m1 = km_id (ls_inst s i)" "km_prefix m1 = px"
      using newProof_held [of "ls_inst s i"] ask_refused(2) px by simp_all
    then show ?thesis unfolding ask_refused(1) using px
      by (intro lock_invI [OF inv]) (auto simp: sys_defs lock_invD [OF inv] split: if_splits)
  next
    case (take_won i n p v)
    have g: "kv_get (ls_store s) (px @ n) = None" and v: "v = kv_put (px @ n) (VStr p, None) (ls_store s)"
      using take_won(4) px by (auto simp: eff_SetValuePersistentIfNotExists_def simp del: not_None_eq split: if_splits)
    show ?thesis unfolding take_won(1) using take_won(2,3) v g
      by (intro lock_invI [OF inv]) (auto simp: sys_defs lock_invD [OF inv] split: if_splits)
  next
    case (take_lost i n p v)
    have "v = snd (eff_SetValuePersistentIfNotExists (px @ n) p (ls_store s))" using take_lost(4) px by simp
    then have "lock_inv px (s\<lparr>ls_store := v\<rparr>)" using lock_inv_store [OF inv] take_keeps_rows by auto
    then show ?thesis using take_lost(1) lock_inv_forget by simp
  next
    case (take_failed i n p v)
    then have "lock_inv px (s\<lparr>ls_store := v\<rparr>)" using lock_inv_store [OF inv] take_keeps_rows px by auto
    then show ?thesis using take_failed(1) lock_inv_forget by simp
  next
    case (retire i n p v)
    let ?s = "set_pc i n (Some Leaving) s"
    have inv': "lock_inv px ?s" using retire(2,3)
      by (intro lock_invI [OF inv]) (auto simp: sys_defs lock_invD [OF inv] split: if_splits)
    have "lock_inv px (?s\<lparr>ls_store := v\<rparr>)"
    proof (rule lock_inv_store [OF inv'])
      fix j n' q
      assume h: "ls_pc ?s j n' = Some Holding" "km_held (ls_inst ?s j) n' = Some q"
        "kv_get (ls_store ?s) (px @ n') = Some (VStr q, None)"
      have "q \<noteq> p \<or> n' \<noteq> n" using h one_app_unique [OF inv retire(3), of j n'] by (auto simp: sys_defs split: if_splits)
      then show "kv_get v (px @ n') = Some (VStr q, None)"
        using retire(4) h(3) retire_keeps_rows px by (auto simp: sys_defs)
    qed
    moreover have "s' = ?s\<lparr>ls_store := v\<rparr>" using retire(1) by (simp add: sys_defs)
    ultimately show ?thesis by simp
  next
    case (left i n) then show ?thesis using inv lock_inv_forget by simp
  next
    case (crash i) then show ?thesis
      by (auto intro!: lock_invI [OF inv] simp: sys_defs lock_invD [OF inv] split: if_splits)
  next
    case (elsewhere v) then show ?thesis using lock_inv_store [OF inv] px by auto
  qed
qed

lemma reach_lock_inv:
  assumes "reach (fresh_sys px) lock_step s"
  shows "lock_inv px s"
  using assms
proof (induction rule: reach_invariant)
  case (init s) then show ?case by (simp add: fresh_sys_def lock_inv_def)
next
  case (step s s') then show ?case by (rule lock_inv_step)
qed

section \<open>Properties\<close>


definition sample_manager :: "nat \<Rightarrow> ManagerKVDB" where
  "sample_manager i = \<lparr>km_name = ''action'', km_held = (\<lambda>_. None), km_prefix = ''L:'', km_id = replicate i CHR ''a'', km_seq = 0\<rparr>"

definition empty_store :: kvst where
  "empty_store = \<lparr>kv_clock = 0, kv_data = (\<lambda>_. None)\<rparr>"

lemma sample_sys_fresh: "fresh_sys ''L:'' \<lparr>ls_store = empty_store, ls_inst = sample_manager, ls_pc = (\<lambda>_ _. None)\<rparr>"
  by (auto simp: fresh_sys_def one_app_def sample_manager_def inj_def)


text \<open>\<open>AcquireDoReleaseAll\<close> of the one-instance manager is all or none: if the names are distinct
  and free, the function runs with exactly those names held on top of what was held, and afterwards,
  whatever it returned or raised, none of them is held; otherwise the first refused name is
  reported, the function does not run, and the ledger is as it was.\<close>

theorem local_all_or_none:
  "local_AcquireDoReleaseAll False ns fn m =
     (if distinct ns \<and> list_all (\<lambda>n. ml_held m n = None) ns
      then let (out, m') = fn (m\<lparr>ml_held := (\<lambda>n. if n \<in> set ns then Some () else ml_held m n)\<rparr>)
           in (fn_result out, m'\<lparr>ml_held := (\<lambda>n. if n \<in> set ns then None else ml_held m' n)\<rparr>)
      else (ActionLocked (the (fst (local_take_all ns [] (ml_held m)))), m))"
proof -
  have "release_all ns h = (\<lambda>n. if n \<in> set ns then None else h n)" for h :: "unit ledger"
    by (auto simp: release_all_apply)
  then show ?thesis by (simp add: local_all_eq hold_all_def list_all_iff)
qed

text \<open>A lock is never left held in the internal ledger of the multi-instance manager and is not
  reentrant: after \<open>AcquireDoRelease\<close> on a name this instance did not hold, it does not hold it,
  whether the ask was refused, the store failed, or the function returned, failed or panicked;
  and an ask for the name from under it is refused.\<close>

theorem kvdb_lock_released_not_reentrant:
  assumes "km_held m n = None"
  shows "km_held (fst (snd (AcquireDoRelease db b n fn m st))) n = None \<and>
    fst (AcquireDoRelease db False n (\<lambda>m1 st1. let (r, m2, st2) = AcquireDoRelease db False n g m1 st1
       in (if r = ActionLocked n then FnErr ''locked'' else FnOk, m2, st2)) m st) \<noteq> Done"
proof
  show "km_held (fst (snd (AcquireDoRelease db b n fn m st))) n = None"
    using lmk.released_after [of db b n "\<lambda>(m, st). fn m st" "(m, st)"] assms
    by (cases "AcquireDoRelease db b n fn m st") (auto simp: kv_do_under_def)
  show "fst (AcquireDoRelease db False n (\<lambda>m1 st1. let (r, m2, st2) = AcquireDoRelease db False n g m1 st1
       in (if r = ActionLocked n then FnErr ''locked'' else FnOk, m2, st2)) m st) \<noteq> Done" (is "fst ?a \<noteq> Done")
    using lmk.nested_refused [of db n "\<lambda>(m, st). g m st" "(m, st)" "fst ?a" "snd ?a"]
    by (simp add: kv_do_under_def split_def)
qed

theorem kvdb_lock_released_not_reentrant_witness:
  "km_held (fst (snd (AcquireDoRelease (net_DB (\<lambda>(_::unit) s. s)) False ''job'' (\<lambda>m st. (FnPanic ''x'', m, st))
      (sample_manager 1) \<lparr>nt_store = empty_store, nt_now = 0, nt_moves = [], nt_faults = []\<rparr>))) ''job'' = None"
  using kvdb_lock_released_not_reentrant [of "sample_manager 1" "''job''" "net_DB (\<lambda>(_::unit) s. s)" False
      "\<lambda>m st. (FnPanic ''x'', m, st)"] by (simp add: sample_manager_def)

text \<open>A lost reply to the external ask orphans the name: \<open>acquire\<close> reports an error and clears its own
  ledger, but the row it wrote stands without a lifetime, and every later ask for the name, by this
  instance or another, is refused, although \<open>acquire\<close> says a refusal leaves nothing behind.\<close>

theorem lost_take_reply_orphans_name:
  assumes "km_held m n = None" and "kv_get (nt_store w) (km_prefix m @ n) = None"
    and "nt_moves w = []" and "nt_faults w = [LostReply]" and "km_prefix m2 = km_prefix m"
  shows "\<exists>m' w'. acquire (net_DB (\<lambda>(_::unit) s. s)) n m w = (Inl (LedgerError Unreachable), m', w') \<and>
     km_held m' n = None \<and> fst (acquire (net_DB (\<lambda>(_::unit) s. s)) n m2 w') = Inl (ActionLocked n)"
proof -
  let ?db = "net_DB (\<lambda>(_::unit) s. s)"
  obtain p m1 where np: "newProof m = (p, m1)" by (cases "newProof m")
  let ?w = "w\<lparr>nt_faults := [], nt_store := kv_put (km_prefix m @ n) (VStr p, None) (nt_store w)\<rparr>"
  have take: "ledger_take ?db (km_prefix m) n p w = (Inl Unreachable, ?w)"
    using assms(2-4) by (simp add: ledger_take_def net_DB_def redis_DB_def redis_SetValuePersistentIfNotExists_def roundtrip_def
        net_send_def redis_ref_def doc_SETNX_def Let_def)
  have refused: "ledger_take ?db (km_prefix m) n q ?w = (Inr False, ?w)" for q
    using assms(3) by (simp add: ledger_take_def net_DB_def redis_DB_def redis_SetValuePersistentIfNotExists_def roundtrip_def
        net_send_def redis_ref_def doc_SETNX_def Let_def dec_bool_def)
  have "km_held m1 n = None" using newProof_held(1) [of m] np assms(1) by simp
  then have 1: "acquire ?db n m w = (Inl (LedgerError Unreachable), m1\<lparr>km_held := release n ((km_held m1)(n \<mapsto> p))\<rparr>, ?w)"
    using np take by (simp add: acquire_def Let_def)
  obtain q m3 where nq: "newProof m2 = (q, m3)" by (cases "newProof m2")
  have "fst (acquire ?db n m2 ?w) = Inl (ActionLocked n)"
    using nq refused [of q] assms(5) by (cases "km_held m3 n") (auto simp: acquire_def Let_def)
  with 1 show ?thesis by (simp add: release_def)
qed

theorem lost_take_reply_orphans_name_witness:
  "\<exists>m' w'. acquire (net_DB (\<lambda>(_::unit) s. s)) ''job'' (sample_manager 1)
       \<lparr>nt_store = empty_store, nt_now = 0, nt_moves = [], nt_faults = [LostReply]\<rparr> = (Inl (LedgerError Unreachable), m', w') \<and>
     fst (acquire (net_DB (\<lambda>(_::unit) s. s)) ''job'' (sample_manager 2) w') = Inl (ActionLocked ''job'')"
  using lost_take_reply_orphans_name [of "sample_manager 1" "''job''"
      "\<lparr>nt_store = empty_store, nt_now = 0, nt_moves = [], nt_faults = [LostReply]\<rparr>" "sample_manager 2"]
  by (auto simp: sample_manager_def empty_store_def kv_get_def)

end
