(* ===== verification/Cron.thy ===== *)
theory Cron
  imports Clock "HOL-Library.Word"
begin

text \<open>
  The schedule of a cron job (\<open>gw/jobsched/cronjob.go\<close>, \<open>scope.go\<close>) and the coordination mode
  (\<open>gw/coord\<close>). A schedule is four bit sets kept at their machine width; \<open>Matches\<close> asks whether the
  wall clock reading of an instant has its bit in each.

  The wall clock is Go's \<open>time.Time\<close>: \<open>zone t\<close> is the offset from UTC, in seconds, of the location
  the instant is read in (the time zone database is not part of the program), and the calendar is the
  proleptic Gregorian one.
\<close>

unbundle bit_operations_syntax

section \<open>Wall clock\<close>

definition time_Minute :: duration where "time_Minute = 60 * time_Second"

definition Unix :: "time \<Rightarrow> int" where "Unix t = t div time_Second"

definition wall_secs :: "(time \<Rightarrow> int) \<Rightarrow> time \<Rightarrow> int" where "wall_secs zone t = Unix t + zone t"

definition Second :: "(time \<Rightarrow> int) \<Rightarrow> time \<Rightarrow> int" where "Second zone t = wall_secs zone t mod 60"

definition Minute :: "(time \<Rightarrow> int) \<Rightarrow> time \<Rightarrow> int" where "Minute zone t = wall_secs zone t mod 3600 div 60"

definition Hour :: "(time \<Rightarrow> int) \<Rightarrow> time \<Rightarrow> int" where "Hour zone t = wall_secs zone t mod 86400 div 3600"

definition Weekday :: "(time \<Rightarrow> int) \<Rightarrow> time \<Rightarrow> int" where
  "Weekday zone t = (wall_secs zone t div 86400 + 4) mod 7"

definition Nanosecond :: "time \<Rightarrow> int" where "Nanosecond t = t mod time_Second"

text \<open>Day of the month, by 400-year eras of 146097 days that start on the first of March.\<close>

definition civil_day :: "int \<Rightarrow> int" where
  "civil_day days =
     (let doe = (days + 719468) mod 146097;
          yoe = (doe - doe div 1460 + doe div 36524 - doe div 146096) div 365;
          doy = doe - (365 * yoe + yoe div 4 - yoe div 100);
          mp = (5 * doy + 2) div 153
      in doy - (153 * mp + 2) div 5 + 1)"

definition Day :: "(time \<Rightarrow> int) \<Rightarrow> time \<Rightarrow> int" where
  "Day zone t = civil_day (wall_secs zone t div 86400)"

lemma civil_day_range: "1 \<le> civil_day d" "civil_day d \<le> 31"
proof -
  have "1 \<le> x - (153 * m + 2) div 5 + 1 \<and> x - (153 * m + 2) div 5 + 1 \<le> 31" if "m = (5 * x + 2) div 153" for x m :: int
  proof -
    have "153 * m \<le> 5 * x + 2" "5 * x + 2 < 153 * m + 153"
      using div_mult_le [of 153 "5 * x + 2"] pos_mod_bound [of 153 "5 * x + 2"] mult_div_mod_eq [of 153 "5 * x + 2"] that by linarith+
    moreover have "5 * ((153 * m + 2) div 5) \<le> 153 * m + 2" "153 * m + 2 < 5 * ((153 * m + 2) div 5) + 5"
      using div_mult_le [of 5 "153 * m + 2"] pos_mod_bound [of 5 "153 * m + 2"] mult_div_mod_eq [of 5 "153 * m + 2"] by linarith+
    ultimately show ?thesis by linarith
  qed
  then show "1 \<le> civil_day d" "civil_day d \<le> 31" by (simp_all only: civil_day_def Let_def)
qed

text \<open>The calendar on the days around two leap days, a leap century and a common one.\<close>

lemma civil_day_samples:
  "civil_day 0 = 1" "civil_day 58 = 28" "civil_day 59 = 1" "civil_day 789 = 29" "civil_day 790 = 1"
  "civil_day 11016 = 29" "civil_day 11017 = 1" "civil_day 47540 = 28" "civil_day 47541 = 1"
  by code_simp+

lemma wall_ranges:
  "0 \<le> Minute zone t" "Minute zone t < 60" "0 \<le> Hour zone t" "Hour zone t < 24"
  "1 \<le> Day zone t" "Day zone t \<le> 31" "0 \<le> Weekday zone t" "Weekday zone t < 7"
proof -
  have h: "0 \<le> w mod 3600 div 60" "w mod 3600 div 60 < 60" "0 \<le> w mod 86400 div 3600" "w mod 86400 div 3600 < 24" for w :: int
    using pos_mod_bound [of 3600 w] pos_mod_sign [of 3600 w] pos_mod_bound [of 86400 w] pos_mod_sign [of 86400 w]
    by linarith+
  then show "0 \<le> Minute zone t" "Minute zone t < 60" "0 \<le> Hour zone t" "Hour zone t < 24"
    by (simp_all only: Minute_def Hour_def)
qed (simp_all add: Day_def civil_day_range Weekday_def)

section \<open>Coordination mode and scope\<close>

type_synonym Mode = int

definition InProc :: Mode where "InProc = 1"

definition CrossProc :: Mode where "CrossProc = 2"

definition ParseMode :: "string \<Rightarrow> (string, Mode) result" where
  "ParseMode s =
     (if s = ''inproc'' then Inr InProc
      else if s = ''crossproc'' then Inr CrossProc
      else Inl (''undeclared: '' @ s))"

definition Mode_String :: "Mode \<Rightarrow> string" where
  "Mode_String m =
     (if m = InProc then ''inproc'' else if m = CrossProc then ''crossproc'' else ''undeclared'')"

lemma ParseMode_Mode_String: "ParseMode s = Inr m \<longleftrightarrow> m \<in> {InProc, CrossProc} \<and> s = Mode_String m"
  by (auto simp: ParseMode_def Mode_String_def InProc_def CrossProc_def split: if_splits)

type_synonym Scope = int

definition OncePerInstance :: Scope where "OncePerInstance = 1"

definition OncePerApp :: Scope where "OncePerApp = 2"

definition undeclared :: "Scope \<Rightarrow> bool" where "undeclared s \<longleftrightarrow> s = 0"

section \<open>Schedules\<close>

text \<open>Code the app hands over (a task, a callback) is represented by how its call ends.\<close>

datatype call_end = Returns | Fails string | Panics string

record CronJob =
  cj_ID :: string
  cj_Scope :: Scope
  cj_Minutes :: "64 word"
  cj_Hours :: "32 word"
  cj_DaysOfMonth :: "32 word"
  cj_Weekdays :: "8 word"
  cj_Task :: "time \<Rightarrow> call_end"
  cj_OnAdded :: "call_end option"
  cj_OnFinished :: "call_end option"

definition AllMinutes :: "64 word" where "AllMinutes = 0xFFFFFFFFFFFFFFF"

definition AllHours :: "32 word" where "AllHours = 0xFFFFFF"

definition AllWeekdays :: "8 word" where "AllWeekdays = 0x7F"

definition AllDaysOfMonth :: "32 word" where "AllDaysOfMonth = 0x7FFFFFFF"

text \<open>The template carries no task: calling it dereferences nil, and \<open>runTask\<close> turns the panic into an error.\<close>

definition NewEveryMinEmptyCronJob :: "string \<Rightarrow> Scope \<Rightarrow> CronJob" where
  "NewEveryMinEmptyCronJob jobID scope =
     \<lparr>cj_ID = jobID, cj_Scope = scope, cj_Minutes = AllMinutes, cj_Hours = AllHours,
      cj_DaysOfMonth = AllDaysOfMonth, cj_Weekdays = AllWeekdays,
      cj_Task = (\<lambda>_. Panics ''nil task''), cj_OnAdded = None, cj_OnFinished = None\<rparr>"

definition BitsFromMinutes :: "int list \<Rightarrow> 64 word" where
  "BitsFromMinutes list =
     fold (\<lambda>v bits. if v \<ge> 0 \<and> v < 60 then bits OR push_bit (nat v) 1 else bits) list 0"

definition BitsFromHours :: "int list \<Rightarrow> 32 word" where
  "BitsFromHours list =
     fold (\<lambda>v bits. if v \<ge> 0 \<and> v < 24 then bits OR push_bit (nat v) 1 else bits) list 0"

definition BitsFromWeekdays :: "int list \<Rightarrow> 8 word" where
  "BitsFromWeekdays list =
     fold (\<lambda>v bits. if v \<ge> 0 \<and> v < 7 then bits OR push_bit (nat v) 1 else bits) list 0"

definition BitsFromDaysOfMonth :: "int list \<Rightarrow> 32 word" where
  "BitsFromDaysOfMonth list =
     fold (\<lambda>v bits. if v \<ge> 1 \<and> v \<le> 31 then bits OR push_bit (nat (v - 1)) 1 else bits) list 0"

definition Matches :: "(time \<Rightarrow> int) \<Rightarrow> CronJob \<Rightarrow> time \<Rightarrow> bool" where
  "Matches zone job now =
     (if cj_Minutes job AND push_bit (nat (Minute zone now)) 1 = 0 then False
      else if cj_Hours job AND push_bit (nat (Hour zone now)) 1 = 0 then False
      else if cj_DaysOfMonth job AND push_bit (nat (Day zone now - 1)) 1 = 0 then False
      else if cj_Weekdays job AND push_bit (nat (Weekday zone now)) 1 = 0 then False
      else True)"

lemma Matches_bits:
  "Matches zone job now \<longleftrightarrow>
     bit (cj_Minutes job) (nat (Minute zone now)) \<and> bit (cj_Hours job) (nat (Hour zone now)) \<and>
     bit (cj_DaysOfMonth job) (nat (Day zone now - 1)) \<and> bit (cj_Weekdays job) (nat (Weekday zone now))"
  by (simp add: Matches_def bit_iff_and_push_bit_not_eq_0)

lemma bit_or_one:
  "n < LENGTH('a::len) \<Longrightarrow> bit (w OR push_bit n 1) m \<longleftrightarrow> bit (w :: 'a word) m \<or> m = n"
  by (auto simp: bit_simps)

lemma bit_collect:
  assumes "\<And>v. ok v \<Longrightarrow> sh v < LENGTH('a::len)"
  shows "bit (fold (\<lambda>v w. if ok v then w OR push_bit (sh v) 1 else w) vs (w :: 'a word)) n \<longleftrightarrow>
    bit w n \<or> (\<exists>v\<in>set vs. ok v \<and> sh v = n)"
proof (induction vs arbitrary: w)
  case (Cons v vs)
  have "bit (if ok v then w OR push_bit (sh v) 1 else w) n \<longleftrightarrow> bit w n \<or> ok v \<and> sh v = n"
    using bit_or_one [OF assms, of v w n] by auto
  then show ?case by (simp only: fold_simps Cons) auto
qed simp

lemma bit_BitsFromMinutes: "bit (BitsFromMinutes vs) n \<longleftrightarrow> n < 60 \<and> int n \<in> set vs"
  unfolding BitsFromMinutes_def by (subst bit_collect) (force intro: rev_bexI)+

lemma bit_BitsFromHours: "bit (BitsFromHours vs) n \<longleftrightarrow> n < 24 \<and> int n \<in> set vs"
  unfolding BitsFromHours_def by (subst bit_collect) (force intro: rev_bexI)+

lemma bit_BitsFromWeekdays: "bit (BitsFromWeekdays vs) n \<longleftrightarrow> n < 7 \<and> int n \<in> set vs"
  unfolding BitsFromWeekdays_def by (subst bit_collect) (force intro: rev_bexI)+

lemma bit_BitsFromDaysOfMonth: "bit (BitsFromDaysOfMonth vs) n \<longleftrightarrow> n < 31 \<and> int n + 1 \<in> set vs"
  unfolding BitsFromDaysOfMonth_def by (subst bit_collect) (force intro: rev_bexI)+

lemma all_bits:
  "AllMinutes = mask 60" "AllHours = mask 24" "AllDaysOfMonth = mask 31" "AllWeekdays = mask 7"
  by (simp_all add: AllMinutes_def AllHours_def AllDaysOfMonth_def AllWeekdays_def mask_eq_exp_minus_1)

lemma template_matches: "Matches zone (NewEveryMinEmptyCronJob jobID scope) now"
  using wall_ranges [of zone now]
  by (simp add: Matches_bits NewEveryMinEmptyCronJob_def all_bits bit_simps nat_less_iff)

text \<open>A cron job whose bit sets were built from lists fires exactly in the minutes the lists
  name: \<open>Matches\<close> holds of an instant if and only if its wall clock minute, hour, day of the month
  and weekday are each in the corresponding list, whatever else (out of range, repeated) the lists
  hold; and the template job that restricts nothing fires in every minute.\<close>

theorem cron_fires_as_listed:
  "(Matches zone (job\<lparr>cj_Minutes := BitsFromMinutes ms, cj_Hours := BitsFromHours hs,
        cj_DaysOfMonth := BitsFromDaysOfMonth ds, cj_Weekdays := BitsFromWeekdays ws\<rparr>) now) =
     (Minute zone now \<in> set ms \<and> Hour zone now \<in> set hs \<and> Day zone now \<in> set ds \<and> Weekday zone now \<in> set ws)
   \<and> Matches zone (NewEveryMinEmptyCronJob jobID scope) now"
  using wall_ranges [of zone now]
  by (intro conjI template_matches) (simp add: Matches_bits bit_BitsFromMinutes bit_BitsFromHours bit_BitsFromDaysOfMonth
      bit_BitsFromWeekdays nat_less_iff)

end
