(* ===== verification/Jobsched.thy ===== *)
theory Jobsched
  imports Cron Svc_Lifecycle KVDB_Redis_Correct
begin

text \<open>
  \<open>gw/jobsched\<close>: the job scheduler. \<open>js_Service\<close> is \<open>Service\<close>, with its lifecycle embedded, the
  four boxes of registered jobs, the ledger for the jobs that run once per app, the goroutines of
  its wait group (\<open>js_wg\<close>) and the calls it has made into the app, in order (\<open>js_events\<close>). A Go map
  is an association list whose order is the order of an iteration.

  A ledger is the interface \<open>LedgerForJobsPerAppCrossProc\<close>, a call on the world \<open>'st\<close>; the locale
  \<open>job_ledger\<close> is its promise, kept by \<open>KVDBLedger_Claim\<close>. Schedulers are those built by
  \<open>NewServiceAs\<close>, so their maps are never nil.
\<close>

section \<open>Jobs and callbacks\<close>

record OneTimeJob =
  ot_ID :: string
  ot_Scope :: Scope
  ot_ExecTime :: time
  ot_ExecZone :: int
  ot_Task :: call_end
  ot_OnAdded :: "call_end option"
  ot_OnFinished :: "call_end option"

record Callbacks =
  OnOneTimeJobAdded :: "(OneTimeJob \<Rightarrow> call_end) option"
  OnCronJobAdded :: "(CronJob \<Rightarrow> call_end) option"
  OnOneTimeJobFinished :: "(OneTimeJob \<Rightarrow> string option \<Rightarrow> call_end) option"
  OnCronJobFinished :: "(CronJob \<Rightarrow> string option \<Rightarrow> call_end) option"
  OnOneTimeJobDeleted :: "(OneTimeJob \<Rightarrow> call_end) option"
  OnCronJobDeleted :: "(CronJob \<Rightarrow> call_end) option"

definition no_callbacks :: Callbacks where
  "no_callbacks = \<lparr>OnOneTimeJobAdded = None, OnCronJobAdded = None, OnOneTimeJobFinished = None,
     OnCronJobFinished = None, OnOneTimeJobDeleted = None, OnCronJobDeleted = None\<rparr>"

definition default_callbacks :: Callbacks where
  "default_callbacks = \<lparr>OnOneTimeJobAdded = Some (\<lambda>_. Returns), OnCronJobAdded = Some (\<lambda>_. Returns),
     OnOneTimeJobFinished = Some (\<lambda>_ _. Returns), OnCronJobFinished = Some (\<lambda>_ _. Returns),
     OnOneTimeJobDeleted = None, OnCronJobDeleted = None\<rparr>"

datatype js_event =
    JobAdded string | ServiceJobAdded string | ServiceJobDeleted string
  | TaskEnded string "string option" | JobFinished string "string option" | ServiceJobFinished string "string option"

datatype box = PerInstance | PerApp

datatype js_run = OneTimeRun box OneTimeJob | CronRun box CronJob time

datatype js_error =
    UndeclaredScope string | UndeclaredMode | CallbacksAfterStart State
  | NoLedgerProvider | LedgerProviderFailed string | LedgerProviderYieldedNone
  | TooCloseOrPast string | CronExists string | CallbackPanic string

type_synonym 'st ledger_if = "string \<Rightarrow> int \<Rightarrow> ('st, bool) io"

type_synonym 'st ledger_provider = "'st \<Rightarrow> (string, 'st ledger_if option) result"

type_synonym onetime_box = "(int \<times> OneTimeJob list) list"

type_synonym cron_box = "(string \<times> CronJob) list"

record 'st js_Service =
  js_name :: string
  js_coordMode :: Mode
  js_lc :: lifecycle
  oneTimeJobsPerInstance :: onetime_box
  cronJobsPerInstance :: cron_box
  oneTimeJobsPerApp :: onetime_box
  cronJobsPerApp :: cron_box
  js_provider :: "'st ledger_provider option"
  js_ledger :: "'st ledger_if option"
  js_callbacks :: Callbacks
  js_wg :: "js_run list"
  js_events :: "js_event list"

definition js_NewServiceAs :: "string \<Rightarrow> Mode \<Rightarrow> 'st ledger_provider option \<Rightarrow> (js_error, 'st js_Service) result" where
  "js_NewServiceAs name mode provider =
     (if mode \<noteq> InProc \<and> mode \<noteq> CrossProc then Inl UndeclaredMode
      else Inr \<lparr>js_name = name, js_coordMode = mode, js_lc = lc_new,
                oneTimeJobsPerInstance = [], cronJobsPerInstance = [], oneTimeJobsPerApp = [], cronJobsPerApp = [],
                js_provider = provider, js_ledger = None, js_callbacks = no_callbacks, js_wg = [], js_events = []\<rparr>)"

definition js_NewService :: "Mode \<Rightarrow> 'st ledger_provider option \<Rightarrow> (js_error, 'st js_Service) result" where
  "js_NewService mode provider = js_NewServiceAs ''JobSchedulerService'' mode provider"

definition SetCallbacks :: "Callbacks \<Rightarrow> 'st js_Service \<Rightarrow> js_error option \<times> 'st js_Service" where
  "SetCallbacks cb s =
     (if lc_state (js_lc s) \<noteq> StateREADY then (Some (CallbacksAfterStart (lc_state (js_lc s))), s)
      else (None, s\<lparr>js_callbacks := cb\<rparr>))"

definition UseDefaultLoggers :: "'st js_Service \<Rightarrow> js_error option \<times> 'st js_Service" where
  "UseDefaultLoggers s = SetCallbacks default_callbacks s"

section \<open>Adding jobs\<close>

definition emit :: "js_event list \<Rightarrow> 'st js_Service \<Rightarrow> 'st js_Service" where
  "emit es s = s\<lparr>js_events := js_events s @ es\<rparr>"

definition resolveLedger :: "'st js_Service \<Rightarrow> 'st \<Rightarrow> (js_error, 'st ledger_if) result \<times> 'st js_Service" where
  "resolveLedger s st =
     (case js_ledger s of
        Some l \<Rightarrow> (Inr l, s)
      | None \<Rightarrow> (case js_provider s of
            None \<Rightarrow> (Inl NoLedgerProvider, s)
          | Some ask \<Rightarrow> (case ask st of
                Inl err \<Rightarrow> (Inl (LedgerProviderFailed err), s)
              | Inr None \<Rightarrow> (Inl LedgerProviderYieldedNone, s)
              | Inr (Some l) \<Rightarrow> (Inr l, s\<lparr>js_ledger := Some l\<rparr>))))"

definition margin :: duration where "margin = 30 * time_Second"

definition onetime_key :: "OneTimeJob \<Rightarrow> int" where
  "onetime_key job =
     (let t = ot_ExecTime job;
          regTime = (if Second (\<lambda>_. ot_ExecZone job) t > 0 \<or> Nanosecond t > 0
                     then time_Truncate t time_Minute + time_Minute else t)
      in Unix regTime sdiv 60)"

definition box_jobs :: "onetime_box \<Rightarrow> int \<Rightarrow> OneTimeJob list" where
  "box_jobs b key = (case map_of b key of None \<Rightarrow> [] | Some jobs \<Rightarrow> jobs)"

definition box_append :: "int \<Rightarrow> OneTimeJob \<Rightarrow> onetime_box \<Rightarrow> onetime_box" where
  "box_append key job b = AList.update key (box_jobs b key @ [job]) b"

definition storeOneTimeJob :: "time \<Rightarrow> OneTimeJob \<Rightarrow> box \<Rightarrow> 'st js_Service \<Rightarrow> js_error option \<times> 'st js_Service" where
  "storeOneTimeJob now job into s =
     (if ot_ExecTime job < now + margin then (Some (TooCloseOrPast (ot_ID job)), s)
      else let key = onetime_key job in
        (None, case into of
            PerInstance \<Rightarrow> s\<lparr>oneTimeJobsPerInstance := box_append key job (oneTimeJobsPerInstance s)\<rparr>
          | PerApp \<Rightarrow> s\<lparr>oneTimeJobsPerApp := box_append key job (oneTimeJobsPerApp s)\<rparr>))"

text \<open>The job's own callback is guarded; the service-level one is not, and its panic reaches the caller.\<close>

definition panic_of :: "('j \<Rightarrow> call_end) option \<Rightarrow> 'j \<Rightarrow> js_error option" where
  "panic_of cb job =
     (case cb of None \<Rightarrow> None | Some f \<Rightarrow> (case f job of Panics p \<Rightarrow> Some (CallbackPanic p) | _ \<Rightarrow> None))"

definition notifyOneTimeJobAdded :: "OneTimeJob \<Rightarrow> 'st js_Service \<Rightarrow> js_error option \<times> 'st js_Service" where
  "notifyOneTimeJobAdded job s =
     (let s1 = (if ot_OnAdded job \<noteq> None then emit [JobAdded (ot_ID job)] s else s)
      in if OnOneTimeJobAdded (js_callbacks s) \<noteq> None
         then (panic_of (OnOneTimeJobAdded (js_callbacks s)) job, emit [ServiceJobAdded (ot_ID job)] s1)
         else (None, s1))"

definition addOneTimeJobPerInstance :: "time \<Rightarrow> OneTimeJob \<Rightarrow> 'st js_Service \<Rightarrow> js_error option \<times> 'st js_Service" where
  "addOneTimeJobPerInstance now job s =
     (case storeOneTimeJob now job PerInstance s of
        (Some err, s1) \<Rightarrow> (Some err, s1)
      | (None, s1) \<Rightarrow> notifyOneTimeJobAdded job s1)"

definition addOneTimeJobPerAppInCrossProcMode ::
    "time \<Rightarrow> OneTimeJob \<Rightarrow> 'st js_Service \<Rightarrow> 'st \<Rightarrow> js_error option \<times> 'st js_Service" where
  "addOneTimeJobPerAppInCrossProcMode now job s st =
     (case resolveLedger s st of
        (Inl err, s1) \<Rightarrow> (Some err, s1)
      | (Inr _, s1) \<Rightarrow>
          (case storeOneTimeJob now job PerApp s1 of
             (Some err, s2) \<Rightarrow> (Some err, s2)
           | (None, s2) \<Rightarrow> notifyOneTimeJobAdded job s2))"

definition AddOneTimeJob :: "time \<Rightarrow> OneTimeJob \<Rightarrow> 'st js_Service \<Rightarrow> 'st \<Rightarrow> js_error option \<times> 'st js_Service" where
  "AddOneTimeJob now job s st =
     (if undeclared (ot_Scope job) then (Some (UndeclaredScope (ot_ID job)), s)
      else if js_coordMode s = CrossProc \<and> ot_Scope job = OncePerApp
      then addOneTimeJobPerAppInCrossProcMode now job s st
      else addOneTimeJobPerInstance now job s)"

definition storeCronJob :: "CronJob \<Rightarrow> box \<Rightarrow> 'st js_Service \<Rightarrow> js_error option \<times> 'st js_Service" where
  "storeCronJob job into s =
     (if map_of (cronJobsPerInstance s) (cj_ID job) \<noteq> None then (Some (CronExists (cj_ID job)), s)
      else if map_of (cronJobsPerApp s) (cj_ID job) \<noteq> None then (Some (CronExists (cj_ID job)), s)
      else (None, case into of
          PerInstance \<Rightarrow> s\<lparr>cronJobsPerInstance := AList.update (cj_ID job) job (cronJobsPerInstance s)\<rparr>
        | PerApp \<Rightarrow> s\<lparr>cronJobsPerApp := AList.update (cj_ID job) job (cronJobsPerApp s)\<rparr>))"

definition notifyCronJobAdded :: "CronJob \<Rightarrow> 'st js_Service \<Rightarrow> js_error option \<times> 'st js_Service" where
  "notifyCronJobAdded job s =
     (let s1 = (if cj_OnAdded job \<noteq> None then emit [JobAdded (cj_ID job)] s else s)
      in if OnCronJobAdded (js_callbacks s) \<noteq> None
         then (panic_of (OnCronJobAdded (js_callbacks s)) job, emit [ServiceJobAdded (cj_ID job)] s1)
         else (None, s1))"

definition addCronJobPerInstance :: "CronJob \<Rightarrow> 'st js_Service \<Rightarrow> js_error option \<times> 'st js_Service" where
  "addCronJobPerInstance job s =
     (case storeCronJob job PerInstance s of
        (Some err, s1) \<Rightarrow> (Some err, s1)
      | (None, s1) \<Rightarrow> notifyCronJobAdded job s1)"

definition addCronJobPerAppInCrossProcMode ::
    "CronJob \<Rightarrow> 'st js_Service \<Rightarrow> 'st \<Rightarrow> js_error option \<times> 'st js_Service" where
  "addCronJobPerAppInCrossProcMode job s st =
     (case resolveLedger s st of
        (Inl err, s1) \<Rightarrow> (Some err, s1)
      | (Inr _, s1) \<Rightarrow>
          (case storeCronJob job PerApp s1 of
             (Some err, s2) \<Rightarrow> (Some err, s2)
           | (None, s2) \<Rightarrow> notifyCronJobAdded job s2))"

definition AddCronJob :: "CronJob \<Rightarrow> 'st js_Service \<Rightarrow> 'st \<Rightarrow> js_error option \<times> 'st js_Service" where
  "AddCronJob job s st =
     (if undeclared (cj_Scope job) then (Some (UndeclaredScope (cj_ID job)), s)
      else if js_coordMode s = CrossProc \<and> cj_Scope job = OncePerApp
      then addCronJobPerAppInCrossProcMode job s st
      else addCronJobPerInstance job s)"

section \<open>Snapshots and deletion\<close>

definition GetOneTimeJobs :: "'st js_Service \<Rightarrow> int \<Rightarrow> OneTimeJob list" where
  "GetOneTimeJobs s key = box_jobs (oneTimeJobsPerInstance s) key @ box_jobs (oneTimeJobsPerApp s) key"

definition GetCronJobs :: "'st js_Service \<Rightarrow> string \<rightharpoonup> CronJob" where
  "GetCronJobs s = map_of (cronJobsPerInstance s) ++ map_of (cronJobsPerApp s)"

text \<open>
  The deletion filters a slice in place: the survivors are written over its front while it is being
  read. If the deletion callback panics, the box keeps the old slice header over the half-written
  array. Result: whether it panicked, the array as left, the survivors, the calls made.
\<close>

fun filter_in_place :: "(OneTimeJob \<Rightarrow> call_end) option \<Rightarrow> string \<Rightarrow> OneTimeJob list \<Rightarrow> OneTimeJob list \<Rightarrow> OneTimeJob list \<Rightarrow> js_event list
    \<Rightarrow> js_error option \<times> OneTimeJob list \<times> js_event list" where
  "filter_in_place cb jobID jobs filtered [] es = (None, filtered, es)"
| "filter_in_place cb jobID jobs filtered (job # rest) es =
     (if ot_ID job = jobID then
        (case cb of
           None \<Rightarrow> filter_in_place cb jobID jobs filtered rest es
         | Some _ \<Rightarrow>
             (case panic_of cb job of
                Some p \<Rightarrow> (Some p, filtered @ drop (length filtered) jobs, es @ [ServiceJobDeleted jobID])
              | None \<Rightarrow> filter_in_place cb jobID jobs filtered rest (es @ [ServiceJobDeleted jobID])))
      else filter_in_place cb jobID jobs (filtered @ [job]) rest es)"

fun delete_walk :: "(OneTimeJob \<Rightarrow> call_end) option \<Rightarrow> string \<Rightarrow> onetime_box \<Rightarrow> js_error option \<times> onetime_box \<times> js_event list" where
  "delete_walk cb jobID [] = (None, [], [])"
| "delete_walk cb jobID ((key, jobs) # b) =
     (case filter_in_place cb jobID jobs [] jobs [] of
        (Some p, left, es) \<Rightarrow> (Some p, (key, left) # b, es)
      | (None, filtered, es) \<Rightarrow>
          (case delete_walk cb jobID b of
             (p, b', es') \<Rightarrow> (p, if filtered = [] then b' else (key, filtered) # b', es @ es')))"

definition DeleteOneTimeJob :: "string \<Rightarrow> 'st js_Service \<Rightarrow> js_error option \<times> 'st js_Service" where
  "DeleteOneTimeJob jobID s =
     (let cb = OnOneTimeJobDeleted (js_callbacks s)
      in case delete_walk cb jobID (oneTimeJobsPerInstance s) of
           (Some p, b, es) \<Rightarrow> (Some p, emit es (s\<lparr>oneTimeJobsPerInstance := b\<rparr>))
         | (None, b, es) \<Rightarrow>
             (case delete_walk cb jobID (oneTimeJobsPerApp s) of
                (p, b', es') \<Rightarrow> (p, emit (es @ es') (s\<lparr>oneTimeJobsPerInstance := b, oneTimeJobsPerApp := b'\<rparr>))))"

definition DeleteCronJob :: "string \<Rightarrow> 'st js_Service \<Rightarrow> js_error option \<times> 'st js_Service" where
  "DeleteCronJob jobID s =
     (let (found, s1) =
        (case map_of (cronJobsPerInstance s) jobID of
           Some job \<Rightarrow> (Some job, s\<lparr>cronJobsPerInstance := AList.delete jobID (cronJobsPerInstance s)\<rparr>)
         | None \<Rightarrow>
             (case map_of (cronJobsPerApp s) jobID of
                Some job \<Rightarrow> (Some job, s\<lparr>cronJobsPerApp := AList.delete jobID (cronJobsPerApp s)\<rparr>)
              | None \<Rightarrow> (None, s)))
      in case found of
           None \<Rightarrow> (None, s1)
         | Some job \<Rightarrow>
             if OnCronJobDeleted (js_callbacks s) \<noteq> None
             then (panic_of (OnCronJobDeleted (js_callbacks s)) job, emit [ServiceJobDeleted jobID] s1)
             else (None, s1))"

section \<open>Running jobs\<close>

definition runTask :: "call_end \<Rightarrow> string option" where
  "runTask task = (case task of Returns \<Rightarrow> None | Fails e \<Rightarrow> Some e | Panics p \<Rightarrow> Some (''panicked: '' @ p))"

definition runCallback :: "js_event \<Rightarrow> 'c option \<Rightarrow> js_event list" where
  "runCallback ev cb = (case cb of None \<Rightarrow> [] | Some _ \<Rightarrow> [ev])"

definition runOneTimeJob_body :: "Callbacks \<Rightarrow> OneTimeJob \<Rightarrow> js_event list" where
  "runOneTimeJob_body cbs job =
     (let err = runTask (ot_Task job)
      in [TaskEnded (ot_ID job) err] @ runCallback (JobFinished (ot_ID job) err) (ot_OnFinished job) @
         runCallback (ServiceJobFinished (ot_ID job) err) (OnOneTimeJobFinished cbs))"

definition runCronJob_body :: "Callbacks \<Rightarrow> CronJob \<Rightarrow> time \<Rightarrow> js_event list" where
  "runCronJob_body cbs job now =
     (let err = runTask (cj_Task job now)
      in [TaskEnded (cj_ID job) err] @ runCallback (JobFinished (cj_ID job) err) (cj_OnFinished job) @
         runCallback (ServiceJobFinished (cj_ID job) err) (OnCronJobFinished cbs))"

fun run_body :: "Callbacks \<Rightarrow> js_run \<Rightarrow> js_event list" where
  "run_body cbs (OneTimeRun _ job) = runOneTimeJob_body cbs job"
| "run_body cbs (CronRun _ job now) = runCronJob_body cbs job now"

definition spawn :: "js_run list \<Rightarrow> 'st js_Service \<Rightarrow> 'st js_Service" where
  "spawn rs s = s\<lparr>js_wg := js_wg s @ rs\<rparr>"

definition minute_key :: "time \<Rightarrow> int" where "minute_key now = Unix now sdiv 60"

definition runOneTimeJobsPerInstance :: "time \<Rightarrow> 'st js_Service \<Rightarrow> 'st js_Service" where
  "runOneTimeJobsPerInstance now s =
     (let key = minute_key now;
          jobs = box_jobs (oneTimeJobsPerInstance s) key
      in spawn (map (OneTimeRun PerInstance) jobs)
           (s\<lparr>oneTimeJobsPerInstance := AList.delete key (oneTimeJobsPerInstance s)\<rparr>))"

definition runCronJobsPerInstance :: "(time \<Rightarrow> int) \<Rightarrow> time \<Rightarrow> 'st js_Service \<Rightarrow> 'st js_Service" where
  "runCronJobsPerInstance zone now s =
     spawn (map (\<lambda>job. CronRun PerInstance job now) (filter (\<lambda>job. Matches zone job now) (map snd (cronJobsPerInstance s)))) s"

text \<open>An error of the ledger is not a verdict, and a lost claim is silent: neither runs the job.\<close>

fun claim_each :: "'st ledger_if \<Rightarrow> int \<Rightarrow> ('j \<Rightarrow> string) \<Rightarrow> 'j list \<Rightarrow> 'st \<Rightarrow> 'j list \<times> 'st" where
  "claim_each claim m idOf [] st = ([], st)"
| "claim_each claim m idOf (job # jobs) st =
     (case claim (idOf job) m st of
        (Inl err, st1) \<Rightarrow> claim_each claim m idOf jobs st1
      | (Inr won, st1) \<Rightarrow>
          (case claim_each claim m idOf jobs st1 of
             (mine, st2) \<Rightarrow> (if won then job # mine else mine, st2)))"

definition runOneTimeJobsPerApp :: "time \<Rightarrow> 'st js_Service \<Rightarrow> 'st \<Rightarrow> 'st js_Service \<times> 'st" where
  "runOneTimeJobsPerApp now s st =
     (let plannedMinute = minute_key now;
          jobs = box_jobs (oneTimeJobsPerApp s) plannedMinute;
          s1 = s\<lparr>oneTimeJobsPerApp := AList.delete plannedMinute (oneTimeJobsPerApp s)\<rparr>
      in if jobs = [] then (s1, st)
         else (case js_ledger s of
             None \<Rightarrow> (s1, st)
           | Some claim \<Rightarrow>
               (case claim_each claim plannedMinute ot_ID jobs st of
                  (mine, st1) \<Rightarrow> (spawn (map (OneTimeRun PerApp) mine) s1, st1))))"

definition runCronJobsPerApp :: "(time \<Rightarrow> int) \<Rightarrow> time \<Rightarrow> 'st js_Service \<Rightarrow> 'st \<Rightarrow> 'st js_Service \<times> 'st" where
  "runCronJobsPerApp zone now s st =
     (let jobs = map snd (cronJobsPerApp s)
      in if jobs = [] then (s, st)
         else (case js_ledger s of
             None \<Rightarrow> (s, st)
           | Some claim \<Rightarrow>
               (case claim_each claim (minute_key now) cj_ID (filter (\<lambda>job. Matches zone job now) jobs) st of
                  (mine, st1) \<Rightarrow> (spawn (map (\<lambda>job. CronRun PerApp job now) mine) s, st1))))"

definition tick :: "(time \<Rightarrow> int) \<Rightarrow> time \<Rightarrow> 'st js_Service \<Rightarrow> 'st \<Rightarrow> 'st js_Service \<times> 'st" where
  "tick zone now s st =
     (let s1 = runOneTimeJobsPerInstance now s;
          s2 = runCronJobsPerInstance zone now s1;
          (s3, st3) = runOneTimeJobsPerApp now s2 st
      in runCronJobsPerApp zone now s3 st3)"

text \<open>A goroutine of the wait group runs to its end; \<open>drain\<close> is \<open>wg.Wait\<close>.\<close>

definition worker_done :: "nat \<Rightarrow> 'st js_Service \<Rightarrow> 'st js_Service" where
  "worker_done i s =
     (if i < length (js_wg s)
      then emit (run_body (js_callbacks s) (js_wg s ! i)) (s\<lparr>js_wg := take i (js_wg s) @ drop (Suc i) (js_wg s)\<rparr>)
      else s)"

definition drain :: "'st js_Service \<Rightarrow> 'st js_Service" where
  "drain s = emit (concat (map (run_body (js_callbacks s)) (js_wg s))) (s\<lparr>js_wg := []\<rparr>)"

section \<open>Lifecycle\<close>

abbreviation js_put :: "lifecycle \<Rightarrow> 'st js_Service \<Rightarrow> 'st js_Service" where
  "js_put l s \<equiv> s\<lparr>js_lc := l\<rparr>"

interpretation jss: lifecycle_part js_lc js_put
  by unfold_locales simp_all

text \<open>The run goroutine waits for the wait group before it leaves its loop.\<close>

definition departs :: "svc_error option \<times> 'st js_Service \<Rightarrow> svc_error option \<times> 'st js_Service" where
  "departs rs = (fst rs, if lc_run (js_lc (snd rs)) = Some Looping then snd rs else drain (snd rs))"

definition js_Start :: "bool \<Rightarrow> 'st js_Service \<Rightarrow> svc_error option \<times> 'st js_Service" where
  "js_Start parent_done = lifted js_lc js_put (lc_Start parent_done)"

definition js_Stop :: "wait_case \<Rightarrow> 'st js_Service \<Rightarrow> svc_error option \<times> 'st js_Service" where
  "js_Stop w s = departs (lifted js_lc js_put (lc_Stop w) s)"

definition js_Terminate :: "wait_case \<Rightarrow> 'st js_Service \<Rightarrow> svc_error option \<times> 'st js_Service" where
  "js_Terminate w s = departs (lifted js_lc js_put (lc_Terminate w) s)"

inductive js_run_step :: "(time \<Rightarrow> int) \<Rightarrow> 'st js_Service \<times> 'st \<Rightarrow> 'st js_Service \<times> 'st \<Rightarrow> bool" for zone where
  run_ticks: "lc_run (js_lc s) = Some Looping \<Longrightarrow> js_run_step zone (s, st) (tick zone now s st)"
| run_leaves: "lc_cancelled (js_lc s) \<Longrightarrow> js_wg s = [] \<Longrightarrow> js_run_step zone (s, st) (js_put (lc_leave (js_lc s)) s, st)"
| run_closes: "js_run_step zone (s, st) (js_put (lc_close (js_lc s)) s, st)"
| parent_cancels: "js_run_step zone (s, st) (js_put ((js_lc s)\<lparr>lc_cancelled := True\<rparr>) s, st)"
| worker_ends: "js_run_step zone (s, st) (worker_done i s, st)"

inductive js_step :: "(time \<Rightarrow> int) \<Rightarrow> 'st js_Service \<times> 'st \<Rightarrow> 'st js_Service \<times> 'st \<Rightarrow> bool" for zone where
  starts: "js_step zone (s, st) (snd (js_Start b s), st)"
| stops: "js_step zone (s, st) (snd (js_Stop w s), st)"
| terminates: "js_step zone (s, st) (snd (js_Terminate w s), st)"
| sets_callbacks: "js_step zone (s, st) (snd (SetCallbacks cb s), st)"
| adds_onetime: "js_step zone (s, st) (snd (AddOneTimeJob now ot s st), st)"
| adds_cron: "js_step zone (s, st) (snd (AddCronJob cj s st), st)"
| deletes_onetime: "js_step zone (s, st) (snd (DeleteOneTimeJob jobID s), st)"
| deletes_cron: "js_step zone (s, st) (snd (DeleteCronJob jobID s), st)"
| runs: "js_run_step zone (s, st) y \<Longrightarrow> js_step zone (s, st) y"
| world: "js_step zone (s, st) (s, st')"

inductive_cases js_run_stepE: "js_run_step zone x y"
inductive_cases js_stepE: "js_step zone x y"

section \<open>Invariant\<close>

text \<open>
  A cron id stands in at most one box; per-app jobs are there only after the ledger was resolved, in
  an app that coordinates across processes; goroutines run only while the run loop does.
\<close>

definition boxes_inv :: "'st js_Service \<Rightarrow> bool" where
  "boxes_inv s \<longleftrightarrow>
     dom (map_of (cronJobsPerInstance s)) \<inter> dom (map_of (cronJobsPerApp s)) = {} \<and>
     (\<forall>i j. GetCronJobs s i = Some j \<longrightarrow> cj_ID j = i) \<and>
     (js_ledger s = None \<longrightarrow> oneTimeJobsPerApp s = [] \<and> cronJobsPerApp s = []) \<and>
     (js_coordMode s \<noteq> CrossProc \<longrightarrow> oneTimeJobsPerApp s = [] \<and> cronJobsPerApp s = [])"

definition runs_inv :: "'st js_Service \<Rightarrow> bool" where
  "runs_inv s \<longleftrightarrow> lc_inv (js_lc s) \<and> (lc_run (js_lc s) \<noteq> Some Looping \<longrightarrow> js_wg s = [])"

text \<open>What the boxes invariant reads of a service: an operation that keeps these fields keeps it.\<close>

lemma boxes_inv_cong:
  "cronJobsPerInstance s' = cronJobsPerInstance s \<Longrightarrow> cronJobsPerApp s' = cronJobsPerApp s \<Longrightarrow>
   oneTimeJobsPerApp s' = oneTimeJobsPerApp s \<Longrightarrow> js_ledger s' = js_ledger s \<Longrightarrow> js_coordMode s' = js_coordMode s \<Longrightarrow>
   boxes_inv s' = boxes_inv s"
  by (simp add: boxes_inv_def GetCronJobs_def)

lemma emit_simps [simp]:
  "js_lc (emit es s) = js_lc s" "js_wg (emit es s) = js_wg s" "js_ledger (emit es s) = js_ledger s"
  "js_coordMode (emit es s) = js_coordMode s" "js_callbacks (emit es s) = js_callbacks s"
  "cronJobsPerInstance (emit es s) = cronJobsPerInstance s" "cronJobsPerApp (emit es s) = cronJobsPerApp s"
  "oneTimeJobsPerInstance (emit es s) = oneTimeJobsPerInstance s" "oneTimeJobsPerApp (emit es s) = oneTimeJobsPerApp s"
  by (simp_all add: emit_def)

lemma spawn_simps [simp]:
  "js_lc (spawn rs s) = js_lc s" "js_wg (spawn rs s) = js_wg s @ rs" "js_ledger (spawn rs s) = js_ledger s"
  "js_coordMode (spawn rs s) = js_coordMode s"
  "cronJobsPerInstance (spawn rs s) = cronJobsPerInstance s" "cronJobsPerApp (spawn rs s) = cronJobsPerApp s"
  "oneTimeJobsPerInstance (spawn rs s) = oneTimeJobsPerInstance s" "oneTimeJobsPerApp (spawn rs s) = oneTimeJobsPerApp s"
  by (simp_all add: spawn_def)

lemma boxes_inv_emit [simp]: "boxes_inv (emit es s) = boxes_inv s"
  by (rule boxes_inv_cong) simp_all

lemma boxes_inv_spawn [simp]: "boxes_inv (spawn rs s) = boxes_inv s"
  by (rule boxes_inv_cong) simp_all

lemma boxes_inv_notify [simp]:
  "boxes_inv (snd (notifyOneTimeJobAdded ot s)) = boxes_inv s" "boxes_inv (snd (notifyCronJobAdded cj s)) = boxes_inv s"
  by (simp_all add: notifyOneTimeJobAdded_def notifyCronJobAdded_def Let_def)

lemma boxes_inv_resolve:
  "boxes_inv s \<Longrightarrow> resolveLedger s st = (r, s') \<Longrightarrow>
     boxes_inv s' \<and> js_coordMode s' = js_coordMode s \<and> (\<forall>l. r = Inr l \<longrightarrow> js_ledger s' \<noteq> None)"
  by (auto simp: resolveLedger_def boxes_inv_def GetCronJobs_def split: option.splits sum.splits)

lemma boxes_inv_storeOneTime:
  assumes "boxes_inv s" "into = PerApp \<Longrightarrow> js_ledger s \<noteq> None \<and> js_coordMode s = CrossProc"
  shows "boxes_inv (snd (storeOneTimeJob now job into s))"
  using assms by (cases into) (auto simp: storeOneTimeJob_def Let_def boxes_inv_def GetCronJobs_def)

lemma boxes_inv_storeCron:
  assumes "boxes_inv s" "into = PerApp \<Longrightarrow> js_ledger s \<noteq> None \<and> js_coordMode s = CrossProc"
  shows "boxes_inv (snd (storeCronJob job into s))"
  using assms
  by (cases into)
    (auto simp: storeCronJob_def boxes_inv_def GetCronJobs_def update_conv' map_add_Some_iff map_add_None
      simp del: not_None_eq split: if_splits)

lemma boxes_inv_add_instance:
  "boxes_inv (snd (addOneTimeJobPerInstance now ot s)) = boxes_inv (snd (storeOneTimeJob now ot PerInstance s))"
  "boxes_inv (snd (addCronJobPerInstance cj s)) = boxes_inv (snd (storeCronJob cj PerInstance s))"
  by (simp_all add: addOneTimeJobPerInstance_def addCronJobPerInstance_def split: prod.splits option.splits)

lemma boxes_inv_add_app:
  assumes "boxes_inv s" "js_coordMode s = CrossProc"
  shows "boxes_inv (snd (addOneTimeJobPerAppInCrossProcMode now ot s st))"
    and "boxes_inv (snd (addCronJobPerAppInCrossProcMode cj s st))"
proof -
  obtain r s1 where r: "resolveLedger s st = (r, s1)" by fastforce
  note inv = boxes_inv_resolve [OF assms(1) r]
  show "boxes_inv (snd (addOneTimeJobPerAppInCrossProcMode now ot s st))"
    using inv assms boxes_inv_storeOneTime [of s1 PerApp now ot]
    by (auto simp: addOneTimeJobPerAppInCrossProcMode_def r split: sum.splits prod.splits option.splits)
  show "boxes_inv (snd (addCronJobPerAppInCrossProcMode cj s st))"
    using inv assms boxes_inv_storeCron [of s1 PerApp cj]
    by (auto simp: addCronJobPerAppInCrossProcMode_def r split: sum.splits prod.splits option.splits)
qed

lemma boxes_inv_Add [gwf_inv]:
  "boxes_inv s \<Longrightarrow> boxes_inv (snd (AddOneTimeJob now ot s st))"
  "boxes_inv s \<Longrightarrow> boxes_inv (snd (AddCronJob cj s st))"
  using boxes_inv_storeOneTime [of s PerInstance now ot] boxes_inv_storeCron [of s PerInstance cj]
  by (simp_all add: AddOneTimeJob_def AddCronJob_def boxes_inv_add_app boxes_inv_add_instance)

lemma boxes_inv_Delete [gwf_inv]:
  "boxes_inv s \<Longrightarrow> boxes_inv (snd (DeleteOneTimeJob jobID s))"
  "boxes_inv s \<Longrightarrow> boxes_inv (snd (DeleteCronJob jobID s))"
  subgoal by (auto simp: DeleteOneTimeJob_def Let_def boxes_inv_def GetCronJobs_def split: prod.splits option.splits)
  subgoal by (auto simp: DeleteCronJob_def Let_def boxes_inv_def GetCronJobs_def delete_conv' map_add_Some_iff
        split: option.splits)
  done

lemma boxes_inv_tick [gwf_inv]: "boxes_inv s \<Longrightarrow> boxes_inv (fst (tick zone now s st))"
proof -
  assume s: "boxes_inv s"
  have 1: "boxes_inv (runOneTimeJobsPerInstance now t) = boxes_inv t" for t :: "'a js_Service"
    unfolding runOneTimeJobsPerInstance_def Let_def boxes_inv_spawn by (rule boxes_inv_cong) simp_all
  have 2: "boxes_inv (runCronJobsPerInstance zone now t) = boxes_inv t" for t :: "'a js_Service"
    by (simp add: runCronJobsPerInstance_def)
  have 3: "boxes_inv t \<Longrightarrow> boxes_inv (t\<lparr>oneTimeJobsPerApp := AList.delete k (oneTimeJobsPerApp t)\<rparr>)" for t :: "'a js_Service" and k
    by (auto simp: boxes_inv_def GetCronJobs_def)
  have 4: "boxes_inv t \<Longrightarrow> boxes_inv (fst (runOneTimeJobsPerApp now t x))" for t :: "'a js_Service" and x
    by (auto simp: runOneTimeJobsPerApp_def Let_def 3 split: option.splits prod.splits)
  have 5: "boxes_inv (fst (runCronJobsPerApp zone now t x)) = boxes_inv t" for t :: "'a js_Service" and x
    by (simp add: runCronJobsPerApp_def Let_def split: option.splits prod.splits)
  show ?thesis using s 4 by (simp add: tick_def Let_def 1 2 5 split: prod.splits) (metis 1 2 fst_conv)
qed

text \<open>Operations that leave the lifecycle and the wait group alone keep the second part.\<close>

lemma runs_inv_cong: "js_lc s' = js_lc s \<Longrightarrow> js_wg s' = js_wg s \<Longrightarrow> runs_inv s' = runs_inv s"
  by (simp add: runs_inv_def)

lemma store_keeps_runs [simp]:
  "js_lc (snd (storeOneTimeJob now ot into s)) = js_lc s" "js_wg (snd (storeOneTimeJob now ot into s)) = js_wg s"
  "js_lc (snd (storeCronJob cj into s)) = js_lc s" "js_wg (snd (storeCronJob cj into s)) = js_wg s"
  "js_lc (snd (resolveLedger s st)) = js_lc s" "js_wg (snd (resolveLedger s st)) = js_wg s"
  "js_lc (snd (notifyOneTimeJobAdded ot s)) = js_lc s" "js_wg (snd (notifyOneTimeJobAdded ot s)) = js_wg s"
  "js_lc (snd (notifyCronJobAdded cj s)) = js_lc s" "js_wg (snd (notifyCronJobAdded cj s)) = js_wg s"
  by (auto simp: storeOneTimeJob_def storeCronJob_def resolveLedger_def notifyOneTimeJobAdded_def notifyCronJobAdded_def
      Let_def split: box.splits option.splits sum.splits)

lemma add_keeps_runs:
  "js_lc (snd (AddOneTimeJob now ot s st)) = js_lc s \<and> js_wg (snd (AddOneTimeJob now ot s st)) = js_wg s"
  "js_lc (snd (AddCronJob cj s st)) = js_lc s \<and> js_wg (snd (AddCronJob cj s st)) = js_wg s"
  by (simp_all add: AddOneTimeJob_def AddCronJob_def addOneTimeJobPerInstance_def addCronJobPerInstance_def
      addOneTimeJobPerAppInCrossProcMode_def addCronJobPerAppInCrossProcMode_def case_prod_beta split: option.split sum.split)

lemma delete_keeps_runs:
  "js_lc (snd (DeleteOneTimeJob jobID s)) = js_lc s \<and> js_wg (snd (DeleteOneTimeJob jobID s)) = js_wg s"
  "js_lc (snd (DeleteCronJob jobID s)) = js_lc s \<and> js_wg (snd (DeleteCronJob jobID s)) = js_wg s"
  "js_lc (snd (SetCallbacks cb s)) = js_lc s \<and> js_wg (snd (SetCallbacks cb s)) = js_wg s"
  by (simp_all add: DeleteOneTimeJob_def DeleteCronJob_def SetCallbacks_def Let_def case_prod_beta split: option.split)

lemma tick_lc [simp]: "js_lc (fst (tick zone now s st)) = js_lc s"
  by (simp add: tick_def Let_def runOneTimeJobsPerInstance_def runCronJobsPerInstance_def runOneTimeJobsPerApp_def
      runCronJobsPerApp_def case_prod_beta split: option.split)

lemma drain_simps [simp]: "js_lc (drain s) = js_lc s" "js_wg (drain s) = []"
  by (simp_all add: drain_def)

lemma runs_inv_lifecycle [gwf_inv]:
  "runs_inv s \<Longrightarrow> runs_inv (snd (js_Start b s))"
  "runs_inv s \<Longrightarrow> runs_inv (snd (js_Stop w s))"
  "runs_inv s \<Longrightarrow> runs_inv (snd (js_Terminate w s))"
  using lc_inv_ops(1) [of "js_lc s" b] lc_inv_ops(2,3) [of "js_lc s" w]
  by (auto simp: runs_inv_def js_Start_def js_Stop_def js_Terminate_def departs_def lifted_def map_prod_def
      lc_Start_def case_prod_beta)

lemma lc_close_Looping [simp]: "lc_run (lc_close l) = Some Looping \<longleftrightarrow> lc_run l = Some Looping"
  by (simp add: lc_close_def)

lemma runs_inv_run_step [gwf_inv]: "runs_inv (fst x) \<Longrightarrow> js_run_step zone x y \<Longrightarrow> runs_inv (fst y)"
  by (elim js_run_stepE)
    (auto simp: runs_inv_def worker_done_def intro: lc_inv_ops(4) lc_background.intros)

lemma boxes_inv_lifecycle [gwf_inv]:
  "boxes_inv (snd (js_Start b s)) = boxes_inv s" "boxes_inv (snd (js_Stop w s)) = boxes_inv s"
  "boxes_inv (snd (js_Terminate w s)) = boxes_inv s" "boxes_inv (snd (SetCallbacks cb s)) = boxes_inv s"
  "boxes_inv (js_put l s) = boxes_inv s" "boxes_inv (worker_done i s) = boxes_inv s"
  by (intro boxes_inv_cong; simp add: js_Start_def js_Stop_def js_Terminate_def departs_def lifted_def map_prod_def drain_def
      SetCallbacks_def worker_done_def case_prod_beta)+

lemma runs_inv_calls:
  "runs_inv (snd (AddOneTimeJob now ot s st)) = runs_inv s" "runs_inv (snd (AddCronJob cj s st)) = runs_inv s"
  "runs_inv (snd (DeleteOneTimeJob jobID s)) = runs_inv s" "runs_inv (snd (DeleteCronJob jobID s)) = runs_inv s"
  "runs_inv (snd (SetCallbacks cb s)) = runs_inv s"
  by (simp_all add: runs_inv_def add_keeps_runs delete_keeps_runs)

lemma js_step_inv:
  assumes "boxes_inv (fst x) \<and> runs_inv (fst x)" "js_step zone x y"
  shows "boxes_inv (fst y) \<and> runs_inv (fst y)"
  using assms(2)
proof (cases rule: js_step.cases)
  case (runs s st)
  have "boxes_inv (fst y)" using runs(2) assms(1) runs(1)
    by (elim js_run_stepE) (auto simp: boxes_inv_lifecycle boxes_inv_tick)
  then show ?thesis using runs_inv_run_step [OF _ runs(2)] runs(1) assms(1) by simp
qed (use assms(1) in
    \<open>auto simp: boxes_inv_lifecycle boxes_inv_Add boxes_inv_Delete runs_inv_lifecycle runs_inv_calls\<close>)

definition js_initial :: "'st js_Service \<times> 'st \<Rightarrow> bool" where
  "js_initial x \<longleftrightarrow> (\<exists>name mode provider. js_NewServiceAs name mode provider = Inr (fst x))"

lemma reach_js_inv: "reach js_initial (js_step zone) x \<Longrightarrow> boxes_inv (fst x) \<and> runs_inv (fst x)"
proof (induction rule: reach.induct)
  case (reach_init x)
  then obtain name mode provider where "js_NewServiceAs name mode provider = Inr (fst x)" by (auto simp: js_initial_def)
  then have "cronJobsPerInstance (fst x) = [] \<and> cronJobsPerApp (fst x) = [] \<and> oneTimeJobsPerApp (fst x) = [] \<and>
      js_wg (fst x) = [] \<and> js_lc (fst x) = lc_new"
    by (cases "fst x") (auto simp: js_NewServiceAs_def split: if_splits)
  then show ?case by (simp add: boxes_inv_def runs_inv_def GetCronJobs_def)
next
  case (reach_step s s')
  then show ?case using js_step_inv by blast
qed

section \<open>The ledger\<close>

definition markLifetime :: duration where "markLifetime = 5 * time_Minute"

record 'st KVDBLedger =
  jl_kvdb :: "'st kvdb"
  jl_prefix :: string

definition NewKVDBLedger :: "'st kvdb option \<Rightarrow> string \<Rightarrow> (string, 'st KVDBLedger) result" where
  "NewKVDBLedger kvdb prefix =
     (case kvdb of
        None \<Rightarrow> Inl ''kvdb required''
      | Some db \<Rightarrow> if prefix = [] then Inl ''prefix required'' else Inr \<lparr>jl_kvdb = db, jl_prefix = prefix\<rparr>)"

definition mark_key :: "string \<Rightarrow> string \<Rightarrow> int \<Rightarrow> string" where
  "mark_key prefix jobID m = prefix @ jobID @ '':'' @ Itoa m"

text \<open>\<open>now st\<close> is the instance's own clock.\<close>

definition KVDBLedger_Claim :: "('st \<Rightarrow> time) \<Rightarrow> 'st KVDBLedger \<Rightarrow> 'st ledger_if" where
  "KVDBLedger_Claim now l jobID plannedMinute st =
     (case SetValueIfNotExists (jl_kvdb l) (mark_key (jl_prefix l) jobID plannedMinute)
             (Itoa (Unix (now st))) markLifetime st of
        (Inl err, st1) \<Rightarrow> (Inl err, st1)
      | (Inr won, st1) \<Rightarrow> (Inr won, st1))"

lemma mark_key_inj: "mark_key px j m = mark_key px j' m' \<longleftrightarrow> j = j' \<and> m = m'"
  using last_sep_inj [of "px @ j" "CHR '':''" "Itoa m" "px @ j'" "Itoa m'"] by (auto simp: mark_key_def dest: Itoa_inj)

text \<open>
  The promise of \<open>LedgerForJobsPerAppCrossProc\<close>: a planned minute is won only by taking it, at one
  moment, from nobody, and other callers' doings (\<open>env\<close>) do not give it back while it matters.
\<close>

locale job_ledger =
  fixes claim :: "'st ledger_if" and view :: "'st \<Rightarrow> kvst" and env :: "kvst \<Rightarrow> kvst \<Rightarrow> bool"
    and taken :: "kvst \<Rightarrow> string \<Rightarrow> int \<Rightarrow> bool"
  assumes won: "claim i m st = (Inr True, st') \<Longrightarrow>
      \<exists>v. env (view st) v \<and> \<not> taken v i m \<and> taken (view st') i m \<and>
        (\<forall>i' m'. taken v i' m' \<longrightarrow> taken (view st') i' m')"
    and kept: "claim i m st = (r, st') \<Longrightarrow> r \<noteq> Inr True \<Longrightarrow> taken (view st) i' m' \<Longrightarrow> taken (view st') i' m'"
    and stands: "env v v' \<Longrightarrow> taken v i m \<Longrightarrow> taken v' i m"
begin

lemma claim_keeps: "claim i m st = (r, st') \<Longrightarrow> taken (view st) i' m' \<Longrightarrow> taken (view st') i' m'"
  using won kept stands by (cases "r = Inr True") blast+

lemma claim_each_keeps: "claim_each claim m idOf jobs st = (mine, st') \<Longrightarrow> taken (view st) i' m' \<Longrightarrow> taken (view st') i' m'"
  by (induction jobs arbitrary: st mine) (auto split: prod.splits sum.splits dest: claim_keeps)

lemma claim_each_not_taken:
  "claim_each claim m idOf jobs st = (mine, st') \<Longrightarrow> taken (view st) (idOf j) m \<Longrightarrow> j \<notin> set mine"
proof (induction jobs arbitrary: st mine st')
  case (Cons a jobs)
  obtain r st1 where c: "claim (idOf a) m st = (r, st1)" by fastforce
  have t: "taken (view st1) (idOf j) m" using claim_keeps [OF c] Cons.prems(2) .
  obtain rest st2 where e: "claim_each claim m idOf jobs st1 = (rest, st2)" by fastforce
  have "idOf a \<noteq> idOf j" if "r = Inr True" using won [of "idOf a" m st st1] c that stands Cons.prems(2) by metis
  then show ?case using Cons.IH [OF e t] Cons.prems(1) c e by (auto split: sum.splits if_splits)
qed simp

text \<open>In one walk, a planned minute is won at most once, however many jobs carry its id.\<close>

lemma claim_each_distinct: "claim_each claim m idOf jobs st = (mine, st') \<Longrightarrow> distinct (map idOf mine)"
proof (induction jobs arbitrary: st mine st')
  case (Cons a jobs)
  obtain r st1 where c: "claim (idOf a) m st = (r, st1)" by fastforce
  obtain rest st2 where e: "claim_each claim m idOf jobs st1 = (rest, st2)" by fastforce
  have "idOf a \<notin> idOf ` set rest" if "r = Inr True"
    using won [of "idOf a" m st st1] c that claim_each_not_taken [OF e] by auto
  then show ?case using Cons.IH [OF e] Cons.prems c e by (auto split: sum.splits if_splits)
qed simp

end

lemma KVDB_Claim_won:
  assumes "kvdb_store (jl_kvdb l) view env P" "is_i64 (markLifetime + P)"
    and "KVDBLedger_Claim now l i m st = (Inr True, st')"
  obtains v L where "env (view st) v" "span_ok P markLifetime L" "kv_get v (mark_key (jl_prefix l) i m) = None"
    "view st' = kv_put (mark_key (jl_prefix l) i m) (VStr (Itoa (Unix (now st))), kv_mark v L) v"
proof -
  have "SetValueIfNotExists (jl_kvdb l) (mark_key (jl_prefix l) i m) (Itoa (Unix (now st))) markLifetime st = (Inr True, st')"
    using assms(3) by (auto simp: KVDBLedger_Claim_def split: prod.splits sum.splits)
  from kvdb_store.SetValueIfNotExists_true [OF assms(1) this assms(2)] that show thesis by metis
qed

lemma kv_get_put_mark: "0 \<le> L \<Longrightarrow> kv_get (kv_put k (x, kv_mark v L) v) k = Some (x, kv_mark v L)"
  by (simp add: kv_mark_def)

lemma KVDB_Claim_other:
  assumes "kvdb_store (jl_kvdb l) view env P" "is_i64 (markLifetime + P)"
    and "KVDBLedger_Claim now l i m st = (r, st')" "r \<noteq> Inr True"
  obtains v where "env (view st) v" "\<And>k. kv_get v k \<noteq> None \<Longrightarrow> kv_get (view st') k \<noteq> None"
proof -
  let ?k = "mark_key (jl_prefix l) i m" and ?x = "Itoa (Unix (now st))"
  have s: "SetValueIfNotExists (jl_kvdb l) ?k ?x markLifetime st = (r, st')"
    using assms(3) by (auto simp: KVDBLedger_Claim_def split: prod.splits sum.splits)
  have "kv_get (snd (eff_SetValueIfNotExists ?k ?x L v)) k \<noteq> None" if "kv_get v k \<noteq> None" for L v k
    using that by (auto simp: eff_SetValueIfNotExists_def kv_mark_def)
  then have keep: "kv_get w k \<noteq> None"
    if "act_ttl P markLifetime (eff_SetValueIfNotExists ?k ?x) v (y, w)" "kv_get v k \<noteq> None" for y w v k
    using that unfolding act_ttl_def by (metis snd_conv)
  note law = kvdb_store.SetValueIfNotExists_law [OF assms(1,2), of ?k ?x]
  show thesis
  proof (cases r)
    case (Inl e)
    with s obtain v where "env (view st) v" "view st' = v \<or> (\<exists>y. act_ttl P markLifetime (eff_SetValueIfNotExists ?k ?x) v (y, view st'))"
      using implements_errorD [OF law] by metis
    then show thesis using keep by (intro that [of v]) auto
  next
    case (Inr b)
    with s obtain v where "env (view st) v" "act_ttl P markLifetime (eff_SetValueIfNotExists ?k ?x) v (Inr b, view st')"
      using implementsD [OF law] by metis
    then show thesis using keep by (intro that [of v]) auto
  qed
qed

lemma KVDB_job_ledger:
  assumes "kvdb_store (jl_kvdb l) view env P" "is_i64 (markLifetime + P)"
    and stands: "\<And>v v' k. env v v' \<Longrightarrow> kv_get v k \<noteq> None \<Longrightarrow> kv_get v' k \<noteq> None"
  shows "job_ledger (KVDBLedger_Claim now l) view env (\<lambda>v i m. kv_get v (mark_key (jl_prefix l) i m) \<noteq> None)"
proof
  fix i m st st' assume "KVDBLedger_Claim now l i m st = (Inr True, st')"
  from KVDB_Claim_won [OF assms(1,2) this] obtain v L where
    v: "env (view st) v" "span_ok P markLifetime L" "kv_get v (mark_key (jl_prefix l) i m) = None"
    "view st' = kv_put (mark_key (jl_prefix l) i m) (VStr (Itoa (Unix (now st))), kv_mark v L) v" by metis
  then show "\<exists>v. env (view st) v \<and> \<not> kv_get v (mark_key (jl_prefix l) i m) \<noteq> None \<and>
      kv_get (view st') (mark_key (jl_prefix l) i m) \<noteq> None \<and>
      (\<forall>i' m'. kv_get v (mark_key (jl_prefix l) i' m') \<noteq> None \<longrightarrow> kv_get (view st') (mark_key (jl_prefix l) i' m') \<noteq> None)"
    by (intro exI [of _ v]) (auto simp: span_ok_def kv_mark_def)
next
  fix i m st r st' i' m' assume "KVDBLedger_Claim now l i m st = (r, st')" "r \<noteq> Inr True"
    "kv_get (view st) (mark_key (jl_prefix l) i' m') \<noteq> None"
  then show "kv_get (view st') (mark_key (jl_prefix l) i' m') \<noteq> None"
    using KVDB_Claim_other [OF assms(1,2)] stands by metis
qed (use stands in blast)

text \<open>On the Redis driver, while nobody else writes and the clock stands within the lifetime of the marks.\<close>

definition net_ledger :: "string \<Rightarrow> unit net KVDBLedger" where
  "net_ledger px = \<lparr>jl_kvdb = net_DB (\<lambda>(_::unit) s. s), jl_prefix = px\<rparr>"

interpretation netjl: job_ledger "KVDBLedger_Claim nt_now (net_ledger px)" nt_store "env_of (\<lambda>(_::unit) s. s)"
    "\<lambda>v i m. kv_get v (mark_key px i m) \<noteq> None" for px
  using KVDB_job_ledger [of "net_ledger px" nt_store "env_of (\<lambda>(_::unit) s. s)" millis nt_now]
    kvdb_store_net [of "\<lambda>(_::unit) s. s"]
  by (simp add: net_ledger_def markLifetime_def time_Minute_def time_Second_def millis_def is_i64_def)

section \<open>Planned minutes\<close>

lemma minute_key_nonneg: "0 \<le> t \<Longrightarrow> minute_key t = t div time_Minute"
proof -
  assume "0 \<le> t"
  then have "0 \<le> Unix t" by (simp add: Unix_def time_Second_def pos_imp_zdiv_nonneg_iff)
  then show ?thesis
    by (simp add: minute_key_def Unix_def time_Minute_def time_Second_def zdiv_zmult2_eq [symmetric])
qed

lemma off_minute:
  assumes "60 dvd z"
  shows "(Second (\<lambda>_. z) t > 0 \<or> Nanosecond t > 0) = (t mod time_Minute \<noteq> 0)"
proof -
  have "t mod time_Minute = time_Second * (t div time_Second mod 60) + t mod time_Second"
    unfolding time_Minute_def by (subst mult.commute, subst zmod_zmult2_eq) (simp_all add: time_Second_def)
  moreover have "Second (\<lambda>_. z) t = t div time_Second mod 60"
    using assms by (auto simp: Second_def wall_secs_def Unix_def elim!: dvdE)
  moreover have "0 \<le> t div time_Second mod 60" "0 \<le> t mod time_Second" by (simp_all add: time_Second_def)
  ultimately show ?thesis unfolding Nanosecond_def by (simp add: time_Second_def) linarith
qed

lemma onetime_key_eq:
  assumes "60 dvd ot_ExecZone job" "0 \<le> ot_ExecTime job"
  shows "onetime_key job = - (- ot_ExecTime job div time_Minute)"
proof -
  let ?t = "ot_ExecTime job" and ?M = time_Minute
  have M: "0 < ?M" by (simp add: time_Minute_def time_Second_def)
  have tr: "time_Truncate ?t ?M = ?t div ?M * ?M"
    using mod_mult_self1 [of ?t 1035593280 ?M]
    by (simp add: time_Truncate_def time_zero_def time_Minute_def time_Second_def minus_mod_eq_div_mult [symmetric])
  have "onetime_key job = minute_key (if ?t mod ?M \<noteq> 0 then (?t div ?M + 1) * ?M else ?t)"
    using off_minute [OF assms(1), of ?t] by (simp add: onetime_key_def Let_def minute_key_def tr distrib_right)
  also have "\<dots> = (if ?t mod ?M \<noteq> 0 then ?t div ?M + 1 else ?t div ?M)"
    using assms(2) M by (simp add: minute_key_nonneg pos_imp_zdiv_nonneg_iff)
  also have "\<dots> = - (- ?t div ?M)" by (simp add: zdiv_zminus1_eq_if M less_imp_neq [OF M, symmetric])
  finally show ?thesis .
qed

lemma onetime_key_bounds:
  assumes "60 dvd ot_ExecZone job" "0 \<le> ot_ExecTime job"
  shows "ot_ExecTime job \<le> onetime_key job * time_Minute" "onetime_key job * time_Minute < ot_ExecTime job + time_Minute"
proof -
  have M: "0 < time_Minute" by (simp add: time_Minute_def time_Second_def)
  define q where "q = - ot_ExecTime job div time_Minute"
  have "q * time_Minute \<le> - ot_ExecTime job" unfolding q_def by (rule div_mult_le [OF M])
  moreover have "- ot_ExecTime job < q * time_Minute + time_Minute"
    using pos_mod_bound [OF M, of "- ot_ExecTime job"] minus_mod_eq_div_mult [of "- ot_ExecTime job" time_Minute]
    unfolding q_def by linarith
  ultimately show "ot_ExecTime job \<le> onetime_key job * time_Minute" "onetime_key job * time_Minute < ot_ExecTime job + time_Minute"
    by (simp_all add: onetime_key_eq [OF assms] q_def [symmetric])
qed

section \<open>What a tick runs\<close>

definition own_runs :: "js_run list \<Rightarrow> OneTimeJob list" where
  "own_runs rs = [j. OneTimeRun PerInstance j \<leftarrow> rs]"

definition app_ids :: "js_run list \<Rightarrow> string list" where
  "app_ids rs = concat (map (\<lambda>r. case r of OneTimeRun PerApp j \<Rightarrow> [ot_ID j] | CronRun PerApp j _ \<Rightarrow> [cj_ID j] | _ \<Rightarrow> []) rs)"

lemma own_runs_simps [simp]:
  "own_runs (rs @ rs') = own_runs rs @ own_runs rs'"
  "own_runs (map (OneTimeRun PerInstance) js) = js" "own_runs (map (OneTimeRun PerApp) js) = []"
  "own_runs (map (\<lambda>j. CronRun b j now) cs) = []"
proof -
  show "own_runs (map (OneTimeRun PerInstance) js) = js" "own_runs (map (OneTimeRun PerApp) js) = []"
    by (induction js) (auto simp: own_runs_def)
  show "own_runs (map (\<lambda>j. CronRun b j now) cs) = []" by (induction cs) (auto simp: own_runs_def)
qed (simp add: own_runs_def)

lemma app_ids_simps [simp]:
  "app_ids [] = []" "app_ids (rs @ rs') = app_ids rs @ app_ids rs'"
  "app_ids (map (OneTimeRun PerInstance) js) = []" "app_ids (map (OneTimeRun PerApp) js) = map ot_ID js"
  "app_ids (map (\<lambda>j. CronRun PerInstance j now) cs) = []" "app_ids (map (\<lambda>j. CronRun PerApp j now) cs) = map cj_ID cs"
proof -
  show "app_ids (map (OneTimeRun PerInstance) js) = []" "app_ids (map (OneTimeRun PerApp) js) = map ot_ID js"
    by (induction js) (auto simp: app_ids_def)
  show "app_ids (map (\<lambda>j. CronRun PerInstance j now) cs) = []" "app_ids (map (\<lambda>j. CronRun PerApp j now) cs) = map cj_ID cs"
    by (induction cs) (auto simp: app_ids_def)
qed (simp_all add: app_ids_def)

lemma tick_own:
  "own_runs (js_wg (fst (tick zone now s st))) = own_runs (js_wg s) @ box_jobs (oneTimeJobsPerInstance s) (minute_key now)"
  "oneTimeJobsPerInstance (fst (tick zone now s st)) = AList.delete (minute_key now) (oneTimeJobsPerInstance s)"
  by (simp_all add: tick_def Let_def runOneTimeJobsPerInstance_def runCronJobsPerInstance_def runOneTimeJobsPerApp_def
      runCronJobsPerApp_def case_prod_beta split: option.split)

text \<open>A steady ticker: ticks one minute apart, the last one \<open>n\<close> minutes after the first.\<close>

fun ticks :: "(time \<Rightarrow> int) \<Rightarrow> time \<Rightarrow> nat \<Rightarrow> 'st js_Service \<Rightarrow> 'st \<Rightarrow> 'st js_Service \<times> 'st" where
  "ticks zone t0 0 s st = tick zone t0 s st"
| "ticks zone t0 (Suc n) s st =
     (case ticks zone t0 n s st of (s1, st1) \<Rightarrow> tick zone (t0 + int (Suc n) * time_Minute) s1 st1)"

lemma minute_key_plus: "0 \<le> t0 \<Longrightarrow> minute_key (t0 + int n * time_Minute) = minute_key t0 + int n"
  by (simp add: minute_key_nonneg time_Minute_def time_Second_def)

lemma box_jobs_delete: "box_jobs (AList.delete k b) k' = (if k' = k then [] else box_jobs b k')"
  by (simp add: box_jobs_def delete_conv')

text \<open>C24: A one-time job of this instance fires exactly once, in its minute: over a steady ticker,
  whatever the start instant, the one-time jobs started are those registered under the minutes the
  ticks fall in, each exactly once and in order; they are gone from the box, and jobs registered
  under other minutes are untouched.\<close>

theorem one_time_jobs_fire_once:
  assumes "0 \<le> t0" and "ticks zone t0 n s st = (s', st')"
  shows "own_runs (js_wg s') = own_runs (js_wg s) @
           concat (map (\<lambda>i. box_jobs (oneTimeJobsPerInstance s) (minute_key t0 + int i)) [0..<Suc n])
       \<and> (\<forall>k. box_jobs (oneTimeJobsPerInstance s') k =
             (if minute_key t0 \<le> k \<and> k \<le> minute_key t0 + int n then [] else box_jobs (oneTimeJobsPerInstance s) k))"
  using assms(2)
proof (induction n arbitrary: s' st')
  case 0
  then show ?case using tick_own [of zone t0 s st] by (auto simp: box_jobs_delete)
next
  case (Suc n)
  obtain s1 st1 where 1: "ticks zone t0 n s st = (s1, st1)" by fastforce
  have s': "s' = fst (tick zone (t0 + int (Suc n) * time_Minute) s1 st1)" using Suc.prems 1 by simp
  show ?case using Suc.IH [OF 1] unfolding s' tick_own minute_key_plus [OF assms(1)]
    by (auto simp: box_jobs_delete)
qed

definition sample_job :: OneTimeJob where
  "sample_job = \<lparr>ot_ID = ''mail'', ot_Scope = OncePerInstance, ot_ExecTime = 95 * time_Second, ot_ExecZone = 0,
     ot_Task = Returns, ot_OnAdded = None, ot_OnFinished = None\<rparr>"

definition sample_sched :: "unit net js_Service" where
  "sample_sched = \<lparr>js_name = ''jobs'', js_coordMode = CrossProc, js_lc = lc_new,
     oneTimeJobsPerInstance = [], cronJobsPerInstance = [], oneTimeJobsPerApp = [], cronJobsPerApp = [],
     js_provider = Some (\<lambda>_. Inr (Some (KVDBLedger_Claim nt_now (net_ledger ''app:jb:'')))), js_ledger = None,
     js_callbacks = no_callbacks, js_wg = [], js_events = []\<rparr>"

definition sample_world :: "unit net" where
  "sample_world = \<lparr>nt_store = \<lparr>kv_clock = 0, kv_data = (\<lambda>_. None)\<rparr>, nt_now = 0, nt_moves = [], nt_faults = []\<rparr>"

lemma sample_added:
  "AddOneTimeJob 0 sample_job sample_sched sample_world = (None, sample_sched\<lparr>oneTimeJobsPerInstance := [(2, [sample_job])]\<rparr>)"
  by (simp add: AddOneTimeJob_def addOneTimeJobPerInstance_def storeOneTimeJob_def notifyOneTimeJobAdded_def sample_job_def
      sample_sched_def undeclared_def OncePerInstance_def OncePerApp_def margin_def time_Second_def onetime_key_def
      Second_def wall_secs_def Unix_def Nanosecond_def time_Truncate_def time_zero_def time_Minute_def box_append_def
      box_jobs_def no_callbacks_def Let_def)

theorem one_time_jobs_fire_once_witness:
  "own_runs (js_wg (fst (ticks (\<lambda>_. 0) (50 * time_Second) 3
     (snd (AddOneTimeJob 0 sample_job sample_sched sample_world)) sample_world))) = [sample_job]"
proof -
  obtain s' st' where t: "ticks (\<lambda>_. 0) (50 * time_Second) 3 (sample_sched\<lparr>oneTimeJobsPerInstance := [(2, [sample_job])]\<rparr>) sample_world = (s', st')"
    by fastforce
  have k: "minute_key (50 * time_Second) = 0" by (simp add: minute_key_def Unix_def time_Second_def)
  have "own_runs (js_wg s') = [sample_job]"
    using one_time_jobs_fire_once [OF _ t] k
    by (simp add: time_Second_def box_jobs_def sample_sched_def own_runs_def upt_rec)
  then show ?thesis by (simp only: sample_added snd_conv t fst_conv)
qed

lemma box_append_mem: "job \<in> set (box_jobs (box_append key job b) key)"
  by (simp add: box_append_def box_jobs_def update_conv')

lemma notify_boxes [simp]:
  "GetOneTimeJobs (snd (notifyOneTimeJobAdded job s)) = GetOneTimeJobs s"
  by (rule ext) (simp add: notifyOneTimeJobAdded_def GetOneTimeJobs_def Let_def)

lemma store_files:
  "fst (storeOneTimeJob now job into s) = None \<Longrightarrow>
     now + margin \<le> ot_ExecTime job \<and> job \<in> set (GetOneTimeJobs (snd (storeOneTimeJob now job into s)) (onetime_key job))"
  using box_append_mem by (cases into) (auto simp: storeOneTimeJob_def GetOneTimeJobs_def Let_def split: if_splits)

lemma AddOneTimeJob_files:
  assumes "fst (AddOneTimeJob now job s st) = None"
  shows "now + margin \<le> ot_ExecTime job \<and> job \<in> set (GetOneTimeJobs (snd (AddOneTimeJob now job s st)) (onetime_key job))"
  using assms store_files [of now job PerInstance s] store_files [of now job PerApp "snd (resolveLedger s st)"]
  by (auto simp: AddOneTimeJob_def addOneTimeJobPerInstance_def addOneTimeJobPerAppInCrossProcMode_def case_prod_beta
      split: if_splits sum.splits option.splits)

text \<open>An accepted one-time job is filed under the first minute that begins at or after its
  execution time, and that minute is still to come: the tick that would take it has not happened.
  (Time zones of whole minutes.)\<close>

theorem one_time_job_filed_ahead:
  assumes "0 \<le> now" and "60 dvd ot_ExecZone job" and "AddOneTimeJob now job s st = (None, s')"
  shows "ot_ExecTime job \<le> onetime_key job * time_Minute \<and>
         onetime_key job * time_Minute < ot_ExecTime job + time_Minute \<and>
         minute_key now < onetime_key job \<and> job \<in> set (GetOneTimeJobs s' (onetime_key job))"
proof -
  have f: "now + margin \<le> ot_ExecTime job" "job \<in> set (GetOneTimeJobs s' (onetime_key job))"
    using AddOneTimeJob_files [of now job s st] assms(3) by auto
  then have "0 \<le> ot_ExecTime job" using assms(1) by (simp add: margin_def time_Second_def)
  note b = onetime_key_bounds [OF assms(2) this]
  have "now < onetime_key job * time_Minute" using b(1) f(1) by (simp add: margin_def time_Second_def)
  then have "minute_key now < onetime_key job"
    using minute_key_nonneg [OF assms(1)] by (simp add: div_less_iff_less_mult time_Minute_def time_Second_def)
  then show ?thesis using b f(2) by blast
qed

theorem one_time_job_filed_ahead_witness:
  "ot_ExecTime sample_job \<le> onetime_key sample_job * time_Minute \<and>
   sample_job \<in> set (GetOneTimeJobs (snd (AddOneTimeJob 0 sample_job sample_sched sample_world)) (onetime_key sample_job))"
  using one_time_job_filed_ahead [of 0 sample_job sample_sched sample_world, OF _ _ sample_added]
  by (simp add: sample_added) (simp add: sample_job_def)

text \<open>C34: In every reachable state of a scheduler: a cron id stands in at most one box, so deletion
  and the snapshot are unambiguous; jobs that run once per app are there only in an app that
  coordinates across processes and with the ledger resolved, so no tick meets them without one; and
  a scheduler that is READY (never started, or stopped) has no job goroutine left.\<close>

theorem scheduler_invariant:
  assumes "reach js_initial (js_step zone) (s, st)"
  shows "dom (map_of (cronJobsPerInstance s)) \<inter> dom (map_of (cronJobsPerApp s)) = {}
       \<and> (oneTimeJobsPerApp s \<noteq> [] \<or> cronJobsPerApp s \<noteq> [] \<longrightarrow> js_ledger s \<noteq> None \<and> js_coordMode s = CrossProc)
       \<and> (lc_state (js_lc s) = StateREADY \<longrightarrow> js_wg s = [])"
  using reach_js_inv [OF assms] by (auto simp: boxes_inv_def runs_inv_def lc_inv_def)

theorem scheduler_invariant_witness:
  "let s = snd (js_Stop SeesStopped (fst (tick (\<lambda>_. 0) 0 (snd (js_Start False
             (snd (AddCronJob (NewEveryMinEmptyCronJob ''gc'' OncePerApp) sample_sched sample_world)))) sample_world)))
   in cronJobsPerApp s \<noteq> [] \<and> js_ledger s \<noteq> None \<and> js_wg s = []"
proof -
  let ?z = "\<lambda>_. 0 :: int" and ?j = "NewEveryMinEmptyCronJob ''gc'' OncePerApp" and ?w = sample_world
  define s1 where "s1 = snd (AddCronJob ?j sample_sched ?w)"
  define s2 where "s2 = snd (js_Start False s1)"
  obtain s3 w3 where 3: "tick ?z 0 s2 ?w = (s3, w3)" by fastforce
  define s4 where "s4 = snd (js_Stop SeesStopped s3)"
  have c1: "cronJobsPerApp s1 \<noteq> [] \<and> js_lc s1 = lc_new"
    by (simp add: s1_def AddCronJob_def addCronJobPerAppInCrossProcMode_def resolveLedger_def storeCronJob_def
        notifyCronJobAdded_def sample_sched_def NewEveryMinEmptyCronJob_def undeclared_def OncePerApp_def no_callbacks_def Let_def)
  have c2: "cronJobsPerApp s2 = cronJobsPerApp s1 \<and> js_lc s2 = snd (lc_Start False lc_new)"
    using c1 by (simp add: s2_def js_Start_def lifted_def map_prod_def case_prod_beta)
  have "cronJobsPerApp (fst (tick ?z 0 s2 ?w)) = cronJobsPerApp s2"
    by (simp add: tick_def Let_def runOneTimeJobsPerInstance_def runCronJobsPerInstance_def runOneTimeJobsPerApp_def
      runCronJobsPerApp_def case_prod_beta split: option.split)
  then have c3: "cronJobsPerApp s3 = cronJobsPerApp s2 \<and> js_lc s3 = js_lc s2" using tick_lc [of ?z 0 s2 ?w] 3 by simp
  have c4: "cronJobsPerApp s4 = cronJobsPerApp s3 \<and> lc_state (js_lc s4) = StateREADY"
    using c2 c3 by (auto simp: s4_def js_Stop_def departs_def lifted_def map_prod_def case_prod_beta drain_def lc_defs lc_new_def emit_def)
  have "js_NewServiceAs ''jobs'' CrossProc (js_provider sample_sched) = Inr sample_sched"
    by (simp add: js_NewServiceAs_def sample_sched_def)
  then have "reach js_initial (js_step ?z) (sample_sched, ?w)"
    by (intro reach_init) (auto simp: js_initial_def)
  then have "reach js_initial (js_step ?z) (s1, ?w)" unfolding s1_def by (rule reach_step) (rule adds_cron)
  then have "reach js_initial (js_step ?z) (s2, ?w)" unfolding s2_def by (rule reach_step) (rule starts)
  then have "reach js_initial (js_step ?z) (s3, w3)" unfolding 3 [symmetric]
    by (rule reach_step) (intro runs run_ticks, simp add: c2 lc_defs lc_new_def)
  then have "reach js_initial (js_step ?z) (s4, w3)" unfolding s4_def by (rule reach_step) (rule stops)
  from scheduler_invariant [OF this] c1 c2 c3 c4 have "cronJobsPerApp s4 \<noteq> [] \<and> js_ledger s4 \<noteq> None \<and> js_wg s4 = []"
    by simp
  then show ?thesis using 3 unfolding Let_def s4_def s2_def s1_def by simp
qed

section \<open>Once per app\<close>

context job_ledger
begin

lemma claim_each_taken:
  "claim_each claim m idOf jobs st = (mine, st') \<Longrightarrow> j \<in> set mine \<Longrightarrow> taken (view st') (idOf j) m"
proof (induction jobs arbitrary: st mine)
  case (Cons a jobs)
  obtain r st1 where c: "claim (idOf a) m st = (r, st1)" by fastforce
  obtain rest st2 where e: "claim_each claim m idOf jobs st1 = (rest, st2)" by fastforce
  have "taken (view st2) (idOf a) m" if "r = Inr True"
    using won [of "idOf a" m st st1] c that claim_each_keeps [OF e] by auto
  then show ?case using Cons.IH [of st1 rest] Cons.prems c e by (auto split: sum.splits if_splits)
qed simp

text \<open>The per-app jobs a tick starts carry distinct ids, none taken before it, all taken after it.\<close>

lemma tick_app:
  assumes l: "js_ledger s = Some claim" and t: "tick zone now s st = (s', st')"
  shows "\<exists>ids. app_ids (js_wg s') = app_ids (js_wg s) @ ids \<and> distinct ids \<and>
    (\<forall>i\<in>set ids. \<not> taken (view st) i (minute_key now) \<and> taken (view st') i (minute_key now))"
proof -
  define m where "m = minute_key now"
  define s2 where "s2 = runCronJobsPerInstance zone now (runOneTimeJobsPerInstance now s)"
  have s2: "app_ids (js_wg s2) = app_ids (js_wg s)" "js_ledger s2 = Some claim"
    using l by (simp_all add: s2_def runCronJobsPerInstance_def runOneTimeJobsPerInstance_def Let_def)
  obtain s3 st3 where 3: "runOneTimeJobsPerApp now s2 st = (s3, st3)" by fastforce
  have 4: "runCronJobsPerApp zone now s3 st3 = (s', st')" using t 3 by (simp add: tick_def Let_def s2_def)
  obtain ots where ots: "claim_each claim m ot_ID (box_jobs (oneTimeJobsPerApp s2) m) st = (ots, st3)"
      "app_ids (js_wg s3) = app_ids (js_wg s2) @ map ot_ID ots" "js_ledger s3 = Some claim"
    using 3 s2 by (auto simp: runOneTimeJobsPerApp_def Let_def m_def split: if_splits prod.splits)
  obtain cs where cs: "claim_each claim m cj_ID (filter (\<lambda>j. Matches zone j now) (map snd (cronJobsPerApp s3))) st3 = (cs, st')"
      "app_ids (js_wg s') = app_ids (js_wg s3) @ map cj_ID cs"
    using 4 ots(3) by (auto simp: runCronJobsPerApp_def Let_def m_def split: if_splits prod.splits)
  have "set (map ot_ID ots) \<inter> set (map cj_ID cs) = {}"
    using claim_each_taken [OF ots(1)] claim_each_not_taken [OF cs(1)] by fastforce
  moreover have "\<not> taken (view st) (cj_ID j) m" if "j \<in> set cs" for j
    using claim_each_not_taken [OF cs(1), of j] claim_each_keeps [OF ots(1)] that by blast
  ultimately show ?thesis
    using claim_each_distinct [OF ots(1)] claim_each_distinct [OF cs(1)] claim_each_taken [OF ots(1)] claim_each_taken [OF cs(1)]
      claim_each_not_taken [OF ots(1)] claim_each_keeps [OF cs(1)] ots(2) cs(2) s2(1)
    by (intro exI [of _ "map ot_ID ots @ map cj_ID cs"]) (auto simp: m_def)
qed

end

text \<open>A job that runs once per app is started by a tick only on a mark this very tick placed: the
  ids of the per-app jobs, one-time and cron together, that a tick starts are distinct, none of their
  marks for the minute stood in the store when the tick began and all of them stand when it ends.
  A lost claim or an unreachable store starts nothing.\<close>

theorem per_app_run_needs_mark:
  assumes "kvdb_store (jl_kvdb l) view env P" and "is_i64 (markLifetime + P)"
    and "\<forall>v v' k. env v v' \<longrightarrow> kv_get v k \<noteq> None \<longrightarrow> kv_get v' k \<noteq> None"
    and "js_ledger s = Some (KVDBLedger_Claim clk l)" and "js_wg s = []" and "tick zone now s st = (s', st')"
  shows "distinct (app_ids (js_wg s')) \<and>
    (\<forall>i \<in> set (app_ids (js_wg s')).
       kv_get (view st) (mark_key (jl_prefix l) i (minute_key now)) = None \<and>
       kv_get (view st') (mark_key (jl_prefix l) i (minute_key now)) \<noteq> None)"
proof -
  have "job_ledger (KVDBLedger_Claim clk l) view env (\<lambda>v i m. kv_get v (mark_key (jl_prefix l) i m) \<noteq> None)"
    using KVDB_job_ledger [OF assms(1,2)] assms(3) by blast
  from job_ledger.tick_app [OF this assms(4,6)] show ?thesis using assms(5) by (auto simp del: not_None_eq)
qed

definition app_job :: "call_end \<Rightarrow> OneTimeJob" where
  "app_job task = sample_job\<lparr>ot_Scope := OncePerApp, ot_Task := task\<rparr>"

definition sample_claimer :: "OneTimeJob list \<Rightarrow> unit net js_Service" where
  "sample_claimer jobs = sample_sched\<lparr>js_ledger := Some (KVDBLedger_Claim nt_now (net_ledger ''app:jb:'')),
     oneTimeJobsPerApp := [(2, jobs)]\<rparr>"

lemma sample_claimer_facts:
  "js_ledger (sample_claimer jobs) = Some (KVDBLedger_Claim nt_now (net_ledger ''app:jb:''))" "js_wg (sample_claimer jobs) = []"
  by (simp_all add: sample_claimer_def sample_sched_def)

lemma sample_tick: "app_ids (js_wg (fst (tick (\<lambda>_. 0) (125 * time_Second) (sample_claimer [app_job Returns]) sample_world))) = [''mail'']"
  by code_simp

lemma net_ledger_facts:
  "kvdb_store (jl_kvdb (net_ledger px)) nt_store (env_of (\<lambda>(_::unit) s. s)) millis" "is_i64 (markLifetime + millis)"
  "jl_prefix (net_ledger px) = px"
  using kvdb_store_net by (simp_all add: net_ledger_def markLifetime_def time_Minute_def time_Second_def millis_def is_i64_def)

theorem per_app_run_needs_mark_witness:
  "let (s', w') = tick (\<lambda>_. 0) (125 * time_Second) (sample_claimer [app_job Returns]) sample_world
   in ''mail'' \<in> set (app_ids (js_wg s')) \<and> kv_get (nt_store w') ''app:jb:mail:2'' \<noteq> None"
proof -
  obtain s' w' where t: "tick (\<lambda>_. 0) (125 * time_Second) (sample_claimer [app_job Returns]) sample_world = (s', w')"
    by fastforce
  have m: "mark_key ''app:jb:'' ''mail'' (minute_key (125 * time_Second)) = ''app:jb:mail:2''" by code_simp
  have "app_ids (js_wg s') = [''mail'']" using sample_tick t by simp
  then show ?thesis
    using per_app_run_needs_mark [OF net_ledger_facts(1,2) _ sample_claimer_facts t] m by (simp add: t net_ledger_facts(3))
qed

text \<open>Two per-app one-time jobs that carry the same id and fall in the same minute are both taken
  from the box by that minute's tick, and at most one of them is started, by this instance or by any
  other: they contend for one mark, although nothing refuses the second registration.\<close>

theorem same_id_job_dropped:
  assumes "kvdb_store (jl_kvdb l) view env P" and "is_i64 (markLifetime + P)"
    and "\<forall>v v' k. env v v' \<longrightarrow> kv_get v k \<noteq> None \<longrightarrow> kv_get v' k \<noteq> None"
    and "js_ledger s = Some (KVDBLedger_Claim clk l)" and "js_wg s = []"
    and "box_jobs (oneTimeJobsPerApp s) (minute_key now) = [a, b]" and "ot_ID a = ot_ID b"
    and "tick zone now s st = (s', st')"
  shows "box_jobs (oneTimeJobsPerApp s') (minute_key now) = [] \<and> length (filter (\<lambda>i. i = ot_ID a) (app_ids (js_wg s'))) \<le> 1"
proof -
  have "job_ledger (KVDBLedger_Claim clk l) view env (\<lambda>v i m. kv_get v (mark_key (jl_prefix l) i m) \<noteq> None)"
    using KVDB_job_ledger [OF assms(1,2)] assms(3) by blast
  from job_ledger.tick_app [OF this assms(4,8)] have d: "distinct (app_ids (js_wg s'))" using assms(5) by auto
  have f: "length (filter (\<lambda>i. i = x) is) \<le> 1" if "distinct is" for x :: string and "is"
    using that by (induction "is") (auto simp: filter_empty_conv)
  have "oneTimeJobsPerApp (fst (tick zone now s st)) = AList.delete (minute_key now) (oneTimeJobsPerApp s)"
    by (simp add: tick_def Let_def runOneTimeJobsPerInstance_def runCronJobsPerInstance_def runOneTimeJobsPerApp_def
      runCronJobsPerApp_def case_prod_beta split: option.split)
  then show ?thesis using f [OF d] assms(8) by (simp add: box_jobs_delete)
qed

theorem same_id_job_dropped_witness:
  "app_ids (js_wg (fst (tick (\<lambda>_. 0) (125 * time_Second) (sample_claimer [app_job Returns, app_job (Fails ''x'')]) sample_world)))
     = [''mail''] \<and>
   box_jobs (oneTimeJobsPerApp (fst (tick (\<lambda>_. 0) (125 * time_Second) (sample_claimer [app_job Returns, app_job (Fails ''x'')]) sample_world))) 2 = []"
proof -
  let ?t = "tick (\<lambda>_. 0) (125 * time_Second) (sample_claimer [app_job Returns, app_job (Fails ''x'')]) sample_world"
  obtain s' w' where t: "?t = (s', w')" by fastforce
  have r: "app_ids (js_wg (fst ?t)) = [''mail'']" by code_simp
  have k: "minute_key (125 * time_Second) = 2" by code_simp
  have id: "ot_ID (app_job Returns) = ot_ID (app_job (Fails ''x''))" by (simp add: app_job_def)
  have b: "box_jobs (oneTimeJobsPerApp (sample_claimer [app_job Returns, app_job (Fails ''x'')])) (minute_key (125 * time_Second))
      = [app_job Returns, app_job (Fails ''x'')]"
    by (simp add: k) (simp add: sample_claimer_def box_jobs_def)
  show ?thesis
    using same_id_job_dropped [OF net_ledger_facts(1,2) _ sample_claimer_facts b _ t] r id
    unfolding t by (simp add: k)
qed

text \<open>
  All instances of an app over one store. A claim happens while the store's clock reads within
  \<open>skew\<close> of the planned minute: \<open>skew\<close> bounds what the instances' clocks disagree by and how long
  after its tick a claim may arrive. Claims whose reply is lost are not run. Other clients write
  elsewhere; time passes and expired marks go away.
\<close>

record claim_sys =
  cs_store :: kvst
  cs_runs :: "(nat \<times> string \<times> int \<times> time) list"

definition attempts :: "duration \<Rightarrow> int \<Rightarrow> time \<Rightarrow> bool" where
  "attempts skew m t \<longleftrightarrow> m * time_Minute - skew \<le> t \<and> t < (m + 1) * time_Minute + skew"

inductive claim_step :: "string \<Rightarrow> duration \<Rightarrow> duration \<Rightarrow> claim_sys \<Rightarrow> claim_sys \<Rightarrow> bool" for px P skew where
  claim_won: "attempts skew m (kv_clock (cs_store s)) \<Longrightarrow> span_ok P markLifetime L \<Longrightarrow>
    eff_SetValueIfNotExists (mark_key px j m) x L (cs_store s) = (Inr True, v) \<Longrightarrow>
    claim_step px P skew s (s\<lparr>cs_store := v, cs_runs := (i, j, m, kv_clock (cs_store s)) # cs_runs s\<rparr>)"
| claim_lost: "eff_SetValueIfNotExists (mark_key px j m) x L (cs_store s) = (Inr False, v) \<Longrightarrow>
    claim_step px P skew s (s\<lparr>cs_store := v\<rparr>)"
| claim_unknown: "v \<in> {cs_store s, snd (eff_SetValueIfNotExists (mark_key px j m) x L (cs_store s))} \<Longrightarrow>
    claim_step px P skew s (s\<lparr>cs_store := v\<rparr>)"
| elsewhere: "kv_clock (cs_store s) \<le> kv_clock v \<Longrightarrow>
    \<forall>j m. kv_get v (mark_key px j m) = kv_get ((cs_store s)\<lparr>kv_clock := kv_clock v\<rparr>) (mark_key px j m) \<Longrightarrow>
    claim_step px P skew s (s\<lparr>cs_store := v\<rparr>)"

inductive_cases claim_stepE: "claim_step px P skew s s'"

definition claim_inv :: "string \<Rightarrow> duration \<Rightarrow> duration \<Rightarrow> claim_sys \<Rightarrow> bool" where
  "claim_inv px P skew s \<longleftrightarrow>
     distinct (map (\<lambda>(i, j, m, t). (j, m)) (cs_runs s)) \<and>
     (\<forall>(i, j, m, t) \<in> set (cs_runs s). attempts skew m t \<and>
        (kv_clock (cs_store s) \<le> t + markLifetime - P \<longrightarrow>
           (\<exists>x d. kv_get (cs_store s) (mark_key px j m) = Some (x, Some d) \<and> t + markLifetime - P \<le> d)))"

text \<open>A mark once placed is neither replaced nor withdrawn by another claim.\<close>

lemma claim_keeps_mark:
  "kv_get v k = Some e \<Longrightarrow> kv_get (snd (eff_SetValueIfNotExists k' x L v)) k = Some e"
  "kv_clock (snd (eff_SetValueIfNotExists k' x L v)) = kv_clock v"
  by (auto simp: eff_SetValueIfNotExists_def kv_put_def [of _ _ v] kv_get_def split: option.splits)

lemma claim_step_inv:
  assumes inv: "claim_inv px P skew s" and sk: "2 * skew + time_Minute \<le> markLifetime - P" and step: "claim_step px P skew s s'"
  shows "claim_inv px P skew s'"
  using step
proof cases
  case (claim_won m L j x v i)
  let ?c = "kv_clock (cs_store s)"
  have w: "kv_get (cs_store s) (mark_key px j m) = None" "v = kv_put (mark_key px j m) (VStr x, kv_mark (cs_store s) L) (cs_store s)" "0 < L"
    using claim_won(4) by (auto simp: eff_SetValueIfNotExists_def simp del: not_None_eq split: if_splits)
  have "(j, m) \<notin> set (map (\<lambda>(i, j, m, t). (j, m)) (cs_runs s))"
  proof
    assume "(j, m) \<in> set (map (\<lambda>(i, j, m, t). (j, m)) (cs_runs s))"
    then obtain i' t where r: "(i', j, m, t) \<in> set (cs_runs s)" by auto
    then have "attempts skew m t" "\<not> ?c \<le> t + markLifetime - P" using inv w(1) by (force simp: claim_inv_def)+
    then show False using claim_won(2) sk by (simp add: attempts_def distrib_right)
  qed
  moreover have "v = snd (eff_SetValueIfNotExists (mark_key px j m) x L (cs_store s))" using claim_won(4) by simp
  then have "claim_inv px P skew (s\<lparr>cs_store := v\<rparr>)" using inv unfolding claim_inv_def by (fastforce simp: claim_keeps_mark)
  moreover have "kv_get v (mark_key px j m) = Some (VStr x, Some (?c + L))" "?c + markLifetime - P \<le> ?c + L"
    using w(2,3) claim_won(3) by (simp_all add: kv_mark_def span_ok_def)
  ultimately show ?thesis using claim_won(2) unfolding claim_won(1) claim_inv_def by auto
next
  case (claim_lost j m x L v)
  have "v = snd (eff_SetValueIfNotExists (mark_key px j m) x L (cs_store s))" using claim_lost(2) by simp
  then show ?thesis using inv unfolding claim_lost(1) claim_inv_def by (fastforce simp: claim_keeps_mark)
next
  case (claim_unknown v j m x L)
  then show ?thesis using inv unfolding claim_unknown(1) claim_inv_def by (fastforce simp: claim_keeps_mark)
next
  case (elsewhere v)
  have "kv_get v (mark_key px j m) = Some (x, Some d)"
    if "kv_get (cs_store s) (mark_key px j m) = Some (x, Some d)" "kv_clock v \<le> d" for j m x d
    using elsewhere(3) that by (auto simp: kv_get_def split: option.splits if_splits)
  then show ?thesis using inv elsewhere(2) unfolding elsewhere(1) claim_inv_def by fastforce
qed



text \<open>A panicking deletion callback corrupts the box: the slice is filtered in place, so the job
  that stands between two deleted ones is in the box twice after the callback panics on the second,
  and its minute's tick starts it twice.\<close>

theorem delete_panic_duplicates_job:
  "let keep = sample_job; x1 = sample_job\<lparr>ot_ID := ''x''\<rparr>; x2 = sample_job\<lparr>ot_ID := ''x'', ot_Task := Fails ''e''\<rparr>;
       cb = (\<lambda>j. if ot_Task j = Returns then Returns else Panics ''boom'');
       s = sample_sched\<lparr>js_callbacks := no_callbacks\<lparr>OnOneTimeJobDeleted := Some cb\<rparr>,
             oneTimeJobsPerInstance := [(2, [x1, keep, x2])]\<rparr>;
       (err, s') = DeleteOneTimeJob ''x'' s
   in err = Some (CallbackPanic ''boom'')
    \<and> own_runs (js_wg (fst (tick (\<lambda>_. 0) (125 * time_Second) s' sample_world))) = [keep, keep, x2]"
proof -
  have k: "minute_key (125 * time_Second) = 2" by (simp add: minute_key_def Unix_def time_Second_def)
  show ?thesis unfolding Let_def case_prod_beta tick_own k
    by (simp add: DeleteOneTimeJob_def box_jobs_def sample_sched_def sample_job_def no_callbacks_def panic_of_def emit_def own_runs_def)
qed

end
