(* ===== verification/Service_Graph.thy ===== *)
theory Service_Graph
  imports Svc_Lifecycle
begin

text \<open>
  \<open>gw/framework\<close>: the registry of services and the dependencies between them (\<open>core_graph.go\<close>,
  \<open>servicedep.go\<close>, \<open>servicenode.go\<close>, \<open>deps.go\<close>, \<open>servicehandle.go\<close>), and the walks of \<open>Core\<close> that
  start, roll back and terminate them (\<open>core.go\<close>).

  A node is identified by its registration index: a pointer to a node is that index. An edge is a
  pair of an index and whether it was declared \<open>MayUse\<close>. Of a service the framework only sees its
  lifecycle: \<open>sn_phase\<close> is the service's own state, and how its \<open>Start\<close> and \<open>Terminate\<close> end is given
  by the environment. \<open>sn_relay\<close> is the collector goroutine that forwards the service's one
  termination report to \<open>sn_termSig\<close>.
\<close>

section \<open>The registry\<close>

record ServiceDep =
  dep_label :: string
  dep_optional :: bool

definition Requires :: "string \<Rightarrow> ServiceDep" where
  "Requires label = \<lparr>dep_label = label, dep_optional = False\<rparr>"

definition MayUse :: "string \<Rightarrow> ServiceDep" where
  "MayUse label = \<lparr>dep_label = label, dep_optional = True\<rparr>"

type_synonym serviceEdge = "nat \<times> bool"

record ServiceNode =
  sn_name :: string
  sn_idx :: nat
  sn_type :: string
  sn_declared :: "ServiceDep list"
  sn_deps :: "serviceEdge list"
  sn_dependents :: "serviceEdge list"
  sn_admitted :: bool
  sn_abandoned :: bool
  sn_phase :: State
  sn_relay :: bool
  sn_termSig :: "string option option"

record serviceGraph =
  sg_nodes :: "ServiceNode list"
  sg_byName :: "string \<rightharpoonup> nat"
  sg_sealed :: bool
  sg_pending :: "string option"

datatype graph_error =
    NilService | GraphSealed string | FactoryRunning string string | EmptyName | DuplicateName string
  | EmptyLabel string | SelfDependency string | NotRegistered string string | MayUseLate string string
  | BuildFailed string string | BuildPanicked string | FactoryNil string | FactoryMisnamed string string
  | UndeclaredHandle string string | HandleType string string

fun indexOfEdge :: "serviceEdge list \<Rightarrow> nat \<Rightarrow> nat option" where
  "indexOfEdge [] n = None"
| "indexOfEdge (e # es) n = (if fst e = n then Some 0 else map_option Suc (indexOfEdge es n))"

fun indexOfEdgeByName :: "serviceGraph \<Rightarrow> serviceEdge list \<Rightarrow> string \<Rightarrow> nat option" where
  "indexOfEdgeByName g [] label = None"
| "indexOfEdgeByName g (e # es) label =
     (if sn_name (sg_nodes g ! fst e) = label then Some 0 else map_option Suc (indexOfEdgeByName g es label))"

definition find_node :: "serviceGraph \<Rightarrow> string \<Rightarrow> nat option" where
  "find_node g name = sg_byName g name"

fun resolve_deps :: "string \<Rightarrow> (string \<rightharpoonup> nat) \<Rightarrow> ServiceDep list \<Rightarrow> serviceEdge list \<Rightarrow> (graph_error, serviceEdge list) result" where
  "resolve_deps name byName [] es = Inr es"
| "resolve_deps name byName (d # ds) es =
     (if dep_label d = [] then Inl (EmptyLabel name)
      else if dep_label d = name then Inl (SelfDependency name)
      else case byName (dep_label d) of
        None \<Rightarrow> if dep_optional d then resolve_deps name byName ds es else Inl (NotRegistered name (dep_label d))
      | Some target \<Rightarrow>
          (case indexOfEdge es target of
             Some j \<Rightarrow> resolve_deps name byName ds (es[j := (target, snd (es ! j) \<and> dep_optional d)])
           | None \<Rightarrow> resolve_deps name byName ds (es @ [(target, dep_optional d)])))"

text \<open>\<open>typ\<close> is the dynamic type of the service, which a typed handle is checked against.\<close>

definition resolve :: "string \<Rightarrow> ServiceDep list \<Rightarrow> serviceGraph \<Rightarrow> (graph_error, ServiceNode) result" where
  "resolve name deps g =
     (if sg_sealed g then Inl (GraphSealed name)
      else case sg_pending g of
        Some p \<Rightarrow> Inl (FactoryRunning name p)
      | None \<Rightarrow>
          (if name = [] then Inl EmptyName
           else if sg_byName g name \<noteq> None then Inl (DuplicateName name)
           else case resolve_deps name (sg_byName g) deps [] of
             Inl err \<Rightarrow> Inl err
           | Inr es \<Rightarrow> Inr \<lparr>sn_name = name, sn_idx = length (sg_nodes g), sn_type = [], sn_declared = deps, sn_deps = es,
                         sn_dependents = [], sn_admitted = False, sn_abandoned = False, sn_phase = StateREADY,
                         sn_relay = False, sn_termSig = None\<rparr>))"

definition add_dependent :: "nat \<Rightarrow> serviceEdge \<Rightarrow> ServiceNode list \<Rightarrow> ServiceNode list" where
  "add_dependent k e ns = ns[fst e := (ns ! fst e)\<lparr>sn_dependents := sn_dependents (ns ! fst e) @ [(k, snd e)]\<rparr>]"

definition attach :: "ServiceNode \<Rightarrow> serviceGraph \<Rightarrow> serviceGraph" where
  "attach n g = g\<lparr>sg_nodes := fold (add_dependent (sn_idx n)) (sn_deps n) (sg_nodes g) @ [n],
                  sg_byName := (sg_byName g)(sn_name n \<mapsto> sn_idx n)\<rparr>"

text \<open>A service as registration sees it: its name, its type, and the dependencies it reports itself, if it does.\<close>

record svc_value =
  sv_name :: string
  sv_type :: string
  sv_deps :: "ServiceDep list option"

definition graph_add :: "svc_value option \<Rightarrow> ServiceDep list \<Rightarrow> serviceGraph \<Rightarrow> (graph_error, nat) result \<times> serviceGraph" where
  "graph_add s deps g = (case s of
      None \<Rightarrow> (Inl NilService, g)
    | Some sv \<Rightarrow> (case resolve (sv_name sv) deps g of
          Inl err \<Rightarrow> (Inl err, g)
        | Inr n \<Rightarrow> (Inr (sn_idx n), attach (n\<lparr>sn_type := sv_type sv\<rparr>) g)))"

definition RegisterService :: "svc_value option \<Rightarrow> ServiceDep list \<Rightarrow> serviceGraph \<Rightarrow> (graph_error, nat) result \<times> serviceGraph" where
  "RegisterService s extra g =
     graph_add s ((case s of None \<Rightarrow> [] | Some sv \<Rightarrow> (case sv_deps sv of None \<Rightarrow> [] | Some ds \<Rightarrow> ds)) @ extra) g"

record Deps =
  dp_name :: string
  dp_declared :: "ServiceDep list"
  dp_edges :: "serviceEdge list"

datatype build_end = Built "svc_value option" | BuildErr string | BuildPanics

text \<open>While the factory runs, the graph refuses every registration (\<open>sg_pending\<close>), so the factory
  leaves the graph as it found it; a panic passes through after the mark is cleared.\<close>

definition RegisterServiceFunc :: "string \<Rightarrow> (Deps \<Rightarrow> build_end) \<Rightarrow> ServiceDep list \<Rightarrow> serviceGraph
    \<Rightarrow> (graph_error, nat) result \<times> serviceGraph" where
  "RegisterServiceFunc name build deps g = (case resolve name deps g of
      Inl err \<Rightarrow> (Inl err, g)
    | Inr n \<Rightarrow> (case build \<lparr>dp_name = name, dp_declared = deps, dp_edges = sn_deps n\<rparr> of
          BuildPanics \<Rightarrow> (Inl (BuildPanicked name), g)
        | BuildErr e \<Rightarrow> (Inl (BuildFailed name e), g)
        | Built None \<Rightarrow> (Inl (FactoryNil name), g)
        | Built (Some sv) \<Rightarrow>
            (if sv_name sv \<noteq> name then (Inl (FactoryMisnamed name (sv_name sv)), g)
             else case (case sv_deps sv of None \<Rightarrow> Inr n | Some ds \<Rightarrow> resolve name (ds @ deps) g) of
               Inl err \<Rightarrow> (Inl err, g)
             | Inr n' \<Rightarrow> (Inr (sn_idx n'), attach (n'\<lparr>sn_type := sv_type sv\<rparr>) g))))"

definition late_dep :: "serviceGraph \<Rightarrow> ServiceNode \<Rightarrow> ServiceDep \<Rightarrow> bool" where
  "late_dep g n d \<longleftrightarrow> dep_optional d \<and> indexOfEdgeByName g (sn_deps n) (dep_label d) = None \<and> sg_byName g (dep_label d) \<noteq> None"

definition seal :: "serviceGraph \<Rightarrow> graph_error option \<times> serviceGraph" where
  "seal g =
     (let g1 = g\<lparr>sg_sealed := True\<rparr>
      in (case concat (map (\<lambda>n. map (\<lambda>d. (n, d)) (filter (late_dep g1 n) (sn_declared n))) (sg_nodes g)) of
            [] \<Rightarrow> None
          | (n, d) # _ \<Rightarrow> Some (MayUseLate (sn_name n) (dep_label d)), g1))"

text \<open>The backward pass: levels of the nodes from the last registered to the first, and the highest one.\<close>

definition node_level :: "nat list \<Rightarrow> serviceEdge list \<Rightarrow> nat" where
  "node_level lvl es = foldl (\<lambda>l e. if lvl ! fst e + 1 > l then lvl ! fst e + 1 else l) 0 es"

fun level_pass :: "ServiceNode list \<Rightarrow> nat \<Rightarrow> nat list \<Rightarrow> nat \<Rightarrow> nat list \<times> nat" where
  "level_pass ns 0 lvl highest = (lvl, highest)"
| "level_pass ns (Suc i) lvl highest =
     (let l = node_level lvl (sn_dependents (ns ! i))
      in level_pass ns i (lvl[i := l]) (if l > highest then l else highest))"

definition levels :: "serviceGraph \<Rightarrow> nat list list" where
  "levels g =
     (if sg_nodes g = [] then []
      else let (lvl, highest) = level_pass (sg_nodes g) (length (sg_nodes g)) (replicate (length (sg_nodes g)) 0) 0
           in map (\<lambda>k. filter (\<lambda>i. lvl ! i = k) [0..<length (sg_nodes g)]) [0..<Suc highest])"

definition the_default :: "'a \<Rightarrow> 'a option \<Rightarrow> 'a" where
  "the_default d x = (case x of None \<Rightarrow> d | Some y \<Rightarrow> y)"

section \<open>Handles\<close>

text \<open>\<open>None\<close> is the node that is never admitted, behind the handle of an absent dependency.\<close>

type_synonym ServiceHandle = "nat option"

definition Handle :: "Deps \<Rightarrow> string \<Rightarrow> string \<Rightarrow> serviceGraph \<Rightarrow> ServiceHandle \<times> graph_error option" where
  "Handle d T label g =
     (if \<not> list_ex (\<lambda>dep. dep_label dep = label) (dp_declared d) then (None, Some (UndeclaredHandle (dp_name d) label))
      else case indexOfEdgeByName g (dp_edges d) label of
        None \<Rightarrow> (None, None)
      | Some i \<Rightarrow> (let n = fst (dp_edges d ! i)
                   in if sn_type (sg_nodes g ! n) \<noteq> T then (None, Some (HandleType (dp_name d) label)) else (Some n, None)))"

definition handle_Get :: "ServiceHandle \<Rightarrow> serviceGraph \<Rightarrow> nat option" where
  "handle_Get h g = (case h of
      None \<Rightarrow> None
    | Some n \<Rightarrow> if sn_admitted (sg_nodes g ! n) then Some n else None)"

section \<open>Edges point backwards\<close>

definition graph_inv :: "serviceGraph \<Rightarrow> bool" where
  "graph_inv g \<longleftrightarrow>
     (\<forall>i < length (sg_nodes g). sn_idx (sg_nodes g ! i) = i) \<and>
     (\<forall>l i. sg_byName g l = Some i \<longleftrightarrow> i < length (sg_nodes g) \<and> sn_name (sg_nodes g ! i) = l) \<and>
     (\<forall>i < length (sg_nodes g). distinct (map fst (sn_deps (sg_nodes g ! i))) \<and>
        (\<forall>e \<in> set (sn_deps (sg_nodes g ! i)). fst e < i)) \<and>
     (\<forall>i < length (sg_nodes g). \<forall>j opt. (j, opt) \<in> set (sn_dependents (sg_nodes g ! i)) \<longleftrightarrow>
        j < length (sg_nodes g) \<and> (i, opt) \<in> set (sn_deps (sg_nodes g ! j)))"

lemma indexOfEdge_None: "indexOfEdge es n = None \<longleftrightarrow> n \<notin> fst ` set es"
  by (induction es) auto

lemma indexOfEdge_Some: "indexOfEdge es n = Some j \<Longrightarrow> j < length es \<and> fst (es ! j) = n"
  by (induction es arbitrary: j) (auto split: if_splits)

text \<open>What resolving declarations yields: one edge per registered label, kept optional only if every
  declaration of the label is.\<close>

lemma resolve_deps_fst:
  assumes "resolve_deps name byName ds es = Inr r" "distinct (map fst es)"
  shows "distinct (map fst r)" "fst ` set r = fst ` set es \<union> {t. \<exists>d \<in> set ds. byName (dep_label d) = Some t}"
proof -
  have "distinct (map fst r) \<and> fst ` set r = fst ` set es \<union> {t. \<exists>d \<in> set ds. byName (dep_label d) = Some t}"
    using assms
  proof (induction ds arbitrary: es)
    case (Cons d ds)
    show ?case
    proof (cases "byName (dep_label d)")
      case None
      then show ?thesis using Cons by (auto split: if_splits)
    next
      case (Some t)
      show ?thesis
      proof (cases "indexOfEdge es t")
        case None
        have "resolve_deps name byName ds (es @ [(t, dep_optional d)]) = Inr r"
          using Cons.prems(1) Some None by (simp split: if_splits)
        moreover have "distinct (map fst (es @ [(t, dep_optional d)]))"
          using Cons.prems(2) None by (auto simp: indexOfEdge_None)
        ultimately show ?thesis using Cons.IH [of "es @ [(t, dep_optional d)]"] Some by auto
      next
        case (Some j)
        note byt = \<open>byName (dep_label d) = Some t\<close>
        let ?es = "es[j := (t, snd (es ! j) \<and> dep_optional d)]"
        have j: "j < length es" "fst (es ! j) = t" using indexOfEdge_Some [OF Some] by auto
        have m: "map fst ?es = map fst es" using j by (auto simp: map_update list_update_same_conv)
        have "resolve_deps name byName ds ?es = Inr r" using Cons.prems(1) byt Some by (simp split: if_splits)
        moreover have "fst ` set ?es = fst ` set es" using arg_cong [OF m, of set] by simp
        moreover have "t \<in> fst ` set es" using j nth_mem [OF j(1)] by force
        ultimately show ?thesis using Cons.IH [of ?es] Cons.prems(2) m byt by auto
      qed
    qed
  qed simp
  then show "distinct (map fst r)" "fst ` set r = fst ` set es \<union> {t. \<exists>d \<in> set ds. byName (dep_label d) = Some t}" by auto
qed

lemma fold_add_dependent:
  assumes "distinct (map fst es)" "\<forall>e \<in> set es. fst e < length ns" "i < length ns"
  shows "fold (add_dependent k) es ns ! i =
     (case map_of es i of None \<Rightarrow> ns ! i | Some opt \<Rightarrow> (ns ! i)\<lparr>sn_dependents := sn_dependents (ns ! i) @ [(k, opt)]\<rparr>)"
    and "length (fold (add_dependent k) es ns) = length ns"
proof -
  have "length (fold (add_dependent k) es ns) = length ns \<and> fold (add_dependent k) es ns ! i =
     (case map_of es i of None \<Rightarrow> ns ! i | Some opt \<Rightarrow> (ns ! i)\<lparr>sn_dependents := sn_dependents (ns ! i) @ [(k, opt)]\<rparr>)"
    using assms
  proof (induction es arbitrary: ns)
    case (Cons e es)
    have "i \<noteq> fst e \<or> map_of es i = None" using Cons.prems(1) by (auto simp: map_of_eq_None_iff)
    then show ?case using Cons.IH [of "add_dependent k e ns"] Cons.prems
      by (auto simp: add_dependent_def nth_list_update split: option.splits)
  qed simp
  then show "fold (add_dependent k) es ns ! i =
     (case map_of es i of None \<Rightarrow> ns ! i | Some opt \<Rightarrow> (ns ! i)\<lparr>sn_dependents := sn_dependents (ns ! i) @ [(k, opt)]\<rparr>)"
    and "length (fold (add_dependent k) es ns) = length ns" by auto
qed

lemma length_attach [simp]: "length (fold (add_dependent k) es ns) = length ns"
  by (induction es arbitrary: ns) (auto simp: add_dependent_def)

lemma resolve_node:
  assumes "graph_inv g" "resolve name deps g = Inr n"
  shows "sn_idx n = length (sg_nodes g)" "sn_name n = name" "sn_declared n = deps" "sn_dependents n = []" "sg_byName g name = None"
    "distinct (map fst (sn_deps n))" "\<forall>e \<in> set (sn_deps n). fst e < length (sg_nodes g)"
    "resolve_deps name (sg_byName g) deps [] = Inr (sn_deps n)" "sn_admitted n = False"
proof -
  obtain es where es: "resolve_deps name (sg_byName g) deps [] = Inr es" "sn_deps n = es"
    using assms(2) by (auto simp: resolve_def split: if_splits option.splits sum.splits)
  note fs = resolve_deps_fst [OF es(1)]
  show "distinct (map fst (sn_deps n))" using fs(1) es(2) by simp
  have "t < length (sg_nodes g)" if "sg_byName g l = Some t" for l t using assms(1) that unfolding graph_inv_def by blast
  then have "t < length (sg_nodes g)" if "t \<in> fst ` set es" for t using that fs(2) by auto
  then show "\<forall>e \<in> set (sn_deps n). fst e < length (sg_nodes g)" using es(2) by auto
  show "sn_idx n = length (sg_nodes g)" "sn_name n = name" "sn_declared n = deps" "sn_dependents n = []" "sg_byName g name = None" "sn_admitted n = False"
    using assms(2) by (auto simp: resolve_def split: if_splits option.splits sum.splits)
  show "resolve_deps name (sg_byName g) deps [] = Inr (sn_deps n)" using es by simp
qed

text \<open>The kind of an edge: still optional only while every declaration that led to it is.\<close>

lemma resolve_deps_kind:
  assumes "resolve_deps name byName ds es = Inr r" "distinct (map fst es)" "(t, opt) \<in> set r"
  shows "opt = ((\<forall>x. (t, x) \<in> set es \<longrightarrow> x) \<and> (\<forall>d \<in> set ds. byName (dep_label d) = Some t \<longrightarrow> dep_optional d))"
  using assms
proof (induction ds arbitrary: es)
  case Nil
  then have t: "(t, opt) \<in> set es" by simp
  have "x = opt" if "(t, x) \<in> set es" for x by (rule eq_key_imp_eq_value [OF Nil(2) that t])
  then show ?case using t by (metis empty_iff list.set(1))
next
  case (Cons d ds)
  show ?case
  proof (cases "byName (dep_label d) = None")
    case True
    then show ?thesis using Cons by (auto split: if_splits)
  next
    case False
    then obtain u where u: "byName (dep_label d) = Some u" by auto
    show ?thesis
    proof (cases "indexOfEdge es u")
      case None
      have "resolve_deps name byName ds (es @ [(u, dep_optional d)]) = Inr r"
        using Cons.prems(1) u None by (simp split: if_splits)
      moreover have "distinct (map fst (es @ [(u, dep_optional d)]))" "\<And>x. (u, x) \<notin> set es"
        using Cons.prems(2) None by (auto simp: indexOfEdge_None image_iff)
      ultimately show ?thesis using Cons.IH [of "es @ [(u, dep_optional d)]"] Cons.prems(3) u by auto
    next
      case (Some j)
      let ?v = "snd (es ! j) \<and> dep_optional d"
      have j: "j < length es" "fst (es ! j) = u" using indexOfEdge_Some [OF Some] by auto
      have m: "map fst (es[j := (u, ?v)]) = map fst es" using j by (auto simp: map_update list_update_same_conv)
      have mem: "(w, x) \<in> set (es[j := (u, ?v)]) \<longleftrightarrow> (if w = u then x = ?v else (w, x) \<in> set es)" for w x
      proof -
        have a: "(u, ?v) \<in> set (es[j := (u, ?v)])" using j(1) by (simp add: set_update_memI)
        have b: "distinct (map fst (es[j := (u, ?v)]))" using m Cons.prems(2) by simp
        have "(u, x) \<in> set (es[j := (u, ?v)]) \<longleftrightarrow> x = ?v" using a eq_key_imp_eq_value [OF b _ a] by blast
        moreover have "(w, x) \<in> set (es[j := (u, ?v)]) \<longleftrightarrow> (w, x) \<in> set es" if "w \<noteq> u"
          using that j by (metis fst_conv in_set_conv_nth length_list_update nth_list_update)
        ultimately show ?thesis by auto
      qed
      have "(u, snd (es ! j)) \<in> set es" using nth_mem [OF j(1)] j(2) by (metis prod.collapse)
      then have uj: "(u, x) \<in> set es \<longleftrightarrow> x = snd (es ! j)" for x
        using eq_key_imp_eq_value [OF Cons.prems(2), of u x "snd (es ! j)"] by blast
      have "resolve_deps name byName ds (es[j := (u, ?v)]) = Inr r" using Cons.prems(1) u Some by (simp split: if_splits)
      from Cons.IH [OF this _ Cons.prems(3)] Cons.prems(2) m
      have "opt = ((\<forall>x. (t, x) \<in> set (es[j := (u, ?v)]) \<longrightarrow> x) \<and> (\<forall>d\<in>set ds. byName (dep_label d) = Some t \<longrightarrow> dep_optional d))"
        by simp
      then show ?thesis unfolding mem using u uj by auto
    qed
  qed
qed

lemma graph_inv_attach:
  assumes g: "graph_inv g" and r: "resolve name deps g = Inr n"
  shows "graph_inv (attach (n\<lparr>sn_type := T\<rparr>) g)"
proof -
  let ?N = "length (sg_nodes g)" and ?ns = "sg_nodes (attach (n\<lparr>sn_type := T\<rparr>) g)"
  note n = resolve_node [OF g r]
  have len: "length ?ns = Suc ?N" by (simp add: attach_def)
  have old: "?ns ! i = (case map_of (sn_deps n) i of None \<Rightarrow> sg_nodes g ! i
      | Some opt \<Rightarrow> (sg_nodes g ! i)\<lparr>sn_dependents := sn_dependents (sg_nodes g ! i) @ [(?N, opt)]\<rparr>)" if "i < ?N" for i
    using fold_add_dependent(1) [OF n(6,7) that] n(1) that by (simp add: attach_def nth_append)
  have new: "?ns ! ?N = n\<lparr>sn_type := T\<rparr>" by (simp add: attach_def nth_append)
  have keep: "sn_idx (?ns ! i) = sn_idx (sg_nodes g ! i)" "sn_name (?ns ! i) = sn_name (sg_nodes g ! i)"
      "sn_deps (?ns ! i) = sn_deps (sg_nodes g ! i)" if "i < ?N" for i
    using old [OF that] by (simp_all split: option.splits)
  have dpt: "(j, opt) \<in> set (sn_dependents (?ns ! i)) \<longleftrightarrow>
      (j, opt) \<in> set (sn_dependents (sg_nodes g ! i)) \<or> j = ?N \<and> (i, opt) \<in> set (sn_deps n)" if "i < ?N" for i j opt
  proof -
    have "map_of (sn_deps n) i = Some opt \<longleftrightarrow> (i, opt) \<in> set (sn_deps n)" for opt
      using n(6) by (simp add: map_of_eq_Some_iff)
    then show ?thesis using old [OF that] by (cases "map_of (sn_deps n) i") auto
  qed
  have byn: "sg_byName (attach (n\<lparr>sn_type := T\<rparr>) g) = (sg_byName g)(name \<mapsto> ?N)" using n(1,2) by (simp add: attach_def)
  have all: "(\<forall>i < Suc ?N. Q i) \<longleftrightarrow> (\<forall>i < ?N. Q i) \<and> Q ?N" for Q by (auto simp: less_Suc_eq)
  show ?thesis
    unfolding graph_inv_def len all
  proof (intro conjI allI impI)
    fix i assume "i < ?N" then show "sn_idx (?ns ! i) = i" using keep g by (simp add: graph_inv_def)
  next
    show "sn_idx (?ns ! ?N) = ?N" using new n(1) by simp
  next
    fix l i
    have b: "sg_byName g l = Some i \<longleftrightarrow> i < ?N \<and> sn_name (sg_nodes g ! i) = l" for l i using g by (simp add: graph_inv_def)
    have "sn_name (sg_nodes g ! i) \<noteq> name" if "i < ?N" using b [of name i] n(5) that by simp
    then show "(sg_byName (attach (n\<lparr>sn_type := T\<rparr>) g) l = Some i) = (i < Suc ?N \<and> sn_name (?ns ! i) = l)"
      using keep new n(2) b [of l i] unfolding byn by (cases "i = ?N") (auto simp: less_Suc_eq)
  next
    fix i assume "i < ?N"
    then show "distinct (map fst (sn_deps (?ns ! i)))" "\<forall>e\<in>set (sn_deps (?ns ! i)). fst e < i"
      using keep g by (simp_all add: graph_inv_def)
  next
    show "distinct (map fst (sn_deps (?ns ! ?N)))" "\<forall>e\<in>set (sn_deps (?ns ! ?N)). fst e < ?N" using new n(6,7) by simp_all
  next
    fix i j opt assume i: "i < ?N"
    have "(j, opt) \<in> set (sn_dependents (sg_nodes g ! i)) \<longleftrightarrow> j < ?N \<and> (i, opt) \<in> set (sn_deps (sg_nodes g ! j))"
      using g i by (simp add: graph_inv_def)
    then show "((j, opt) \<in> set (sn_dependents (?ns ! i))) = (j < Suc ?N \<and> (i, opt) \<in> set (sn_deps (?ns ! j)))"
      unfolding dpt [OF i] using keep new by (cases "j = ?N") (auto simp: less_Suc_eq)
  next
    fix j opt
    have "(?N, opt) \<notin> set (sn_deps (sg_nodes g ! j))" if "j < ?N"
      using that g by (fastforce simp: graph_inv_def)
    then have "(?N, opt) \<notin> set (sn_deps (?ns ! j))" if "j < Suc ?N"
      using that keep new n(7) by (cases "j = ?N") (auto simp: less_Suc_eq)
    then show "((j, opt) \<in> set (sn_dependents (?ns ! ?N))) = (j < Suc ?N \<and> (?N, opt) \<in> set (sn_deps (?ns ! j)))"
      using new n(4) by auto
  qed
qed

lemma graph_inv_graph_add [gwf_inv]: "graph_inv g \<Longrightarrow> graph_inv (snd (graph_add s deps g))"
  using graph_inv_attach by (auto simp: graph_add_def split: option.splits sum.splits)

lemma graph_inv_RegisterService [gwf_inv]: "graph_inv g \<Longrightarrow> graph_inv (snd (RegisterService s extra g))"
  by (simp add: RegisterService_def graph_inv_graph_add)

lemma graph_inv_RegisterServiceFunc [gwf_inv]: "graph_inv g \<Longrightarrow> graph_inv (snd (RegisterServiceFunc name build deps g))"
  using graph_inv_attach by (auto simp: RegisterServiceFunc_def split: option.splits sum.splits build_end.splits)

lemma graph_inv_seal [gwf_inv]: "graph_inv g \<Longrightarrow> graph_inv (snd (seal g))"
  by (simp add: seal_def Let_def graph_inv_def)

definition empty_graph :: serviceGraph where
  "empty_graph = \<lparr>sg_nodes = [], sg_byName = (\<lambda>_. None), sg_sealed = False, sg_pending = None\<rparr>"

inductive graph_step :: "serviceGraph \<Rightarrow> serviceGraph \<Rightarrow> bool" where
  registers: "graph_step g (snd (RegisterService s extra g))"
| registers_built: "graph_step g (snd (RegisterServiceFunc name build deps g))"
| seals: "graph_step g (snd (seal g))"

inductive_cases graph_stepE: "graph_step g g'"

lemma reach_graph_inv: "reach (\<lambda>g. g = empty_graph) graph_step g \<Longrightarrow> graph_inv g"
proof (induction rule: reach.induct)
  case (reach_step g g')
  then show ?case by (elim graph_stepE) (auto intro: gwf_inv)
qed (simp add: graph_inv_def empty_graph_def)

section \<open>Levels\<close>

lemma foldl_level:
  fixes f :: "'e \<Rightarrow> nat"
  defines "m \<equiv> \<lambda>l0 es. foldl (\<lambda>l e. if f e > l then f e else l) l0 es"
  shows "l0 \<le> m l0 es" "e \<in> set es \<Longrightarrow> f e \<le> m l0 es" "m l0 es = l0 \<or> (\<exists>e \<in> set es. m l0 es = f e)"
proof -
  show "l0 \<le> m l0 es" unfolding m_def by (induction es arbitrary: l0) (auto intro: le_trans less_imp_le)
  have mono: "l0 \<le> m l0 es" for l0 es unfolding m_def by (induction es arbitrary: l0) (auto intro: le_trans less_imp_le)
  show "e \<in> set es \<Longrightarrow> f e \<le> m l0 es"
  proof (induction es arbitrary: l0)
    case (Cons a es)
    have "m l0 (a # es) = m (if f a > l0 then f a else l0) es" by (simp add: m_def)
    moreover have "f a \<le> (if f a > l0 then f a else l0)" by simp
    ultimately show ?case using Cons mono [of "if f a > l0 then f a else l0" es] by (auto dest: le_trans)
  qed simp
  show "m l0 es = l0 \<or> (\<exists>e \<in> set es. m l0 es = f e)"
  proof (induction es arbitrary: l0)
    case (Cons a es)
    have "m l0 (a # es) = m (if f a > l0 then f a else l0) es" by (simp add: m_def)
    then show ?case using Cons [of "if f a > l0 then f a else l0"] by (auto split: if_splits)
  qed (simp add: m_def)
qed

lemma node_level_ge: "e \<in> set es \<Longrightarrow> lvl ! fst e + 1 \<le> node_level lvl es"
  unfolding node_level_def using foldl_level(2) [of e es "\<lambda>e. lvl ! fst e + 1" 0] by simp

lemma node_level_exact: "node_level lvl es \<noteq> 0 \<Longrightarrow> \<exists>e \<in> set es. node_level lvl es = lvl ! fst e + 1"
  unfolding node_level_def using foldl_level(3) [of "\<lambda>e. lvl ! fst e + 1" 0 es] by auto

lemma node_level_cong: "(\<And>e. e \<in> set es \<Longrightarrow> lvl ! fst e = lvl' ! fst e) \<Longrightarrow> node_level lvl es = node_level lvl' es"
  unfolding node_level_def by (rule foldl_cong) auto

lemma level_pass_spec:
  assumes "level_pass ns k lvl hi = (L, h)" "length lvl = n" "k \<le> n"
    and "\<And>i e. i < n \<Longrightarrow> e \<in> set (sn_dependents (ns ! i)) \<Longrightarrow> i < fst e"
  shows "length L = n \<and> (\<forall>j\<ge>k. L ! j = lvl ! j) \<and> (\<forall>i<k. L ! i = node_level L (sn_dependents (ns ! i))) \<and>
    hi \<le> h \<and> (\<forall>i<k. L ! i \<le> h) \<and> (h = hi \<or> (\<exists>i<k. L ! i = h))"
  using assms(1-3)
proof (induction k arbitrary: lvl hi)
  case (Suc k)
  define l where "l = node_level lvl (sn_dependents (ns ! k))"
  have p: "level_pass ns k (lvl[k := l]) (if l > hi then l else hi) = (L, h)" using Suc.prems(1) by (simp only: level_pass.simps Let_def l_def)
  note IH = Suc.IH [OF p] Suc.prems
  have same: "L ! j = lvl ! j" if "Suc k \<le> j" for j using IH that by simp
  have Lk: "L ! k = l" using IH by simp
  moreover have "l = node_level L (sn_dependents (ns ! k))"
    unfolding l_def using assms(4) Suc.prems(3) same by (intro node_level_cong) (simp add: Suc_le_eq)
  ultimately show ?case using IH same by (auto simp: less_Suc_eq split: if_splits)
qed auto

definition level_of :: "serviceGraph \<Rightarrow> nat \<Rightarrow> nat" where
  "level_of g i = fst (level_pass (sg_nodes g) (length (sg_nodes g)) (replicate (length (sg_nodes g)) 0) 0) ! i"

lemma graph_inv_dep: "graph_inv g \<Longrightarrow> i < length (sg_nodes g) \<Longrightarrow> (t, opt) \<in> set (sn_deps (sg_nodes g ! i)) \<Longrightarrow> t < i"
  unfolding graph_inv_def by fastforce

lemma graph_inv_mirror:
  "graph_inv g \<Longrightarrow> i < length (sg_nodes g) \<Longrightarrow>
     (j, opt) \<in> set (sn_dependents (sg_nodes g ! i)) \<longleftrightarrow> j < length (sg_nodes g) \<and> (i, opt) \<in> set (sn_deps (sg_nodes g ! j))"
  unfolding graph_inv_def by blast

lemma dependents_later:
  "graph_inv g \<Longrightarrow> i < length (sg_nodes g) \<Longrightarrow> e \<in> set (sn_dependents (sg_nodes g ! i)) \<Longrightarrow>
     i < fst e \<and> fst e < length (sg_nodes g) \<and> (i, snd e) \<in> set (sn_deps (sg_nodes g ! fst e))"
  using graph_inv_mirror [of g i "fst e" "snd e"] graph_inv_dep [of g "fst e" i "snd e"] by simp

lemma levels_spec:
  assumes g: "graph_inv g"
  shows "length (levels g) = (if sg_nodes g = [] then 0 else Suc (Max (level_of g ` {..<length (sg_nodes g)})))"
    and "k < length (levels g) \<Longrightarrow> levels g ! k = filter (\<lambda>i. level_of g i = k) [0..<length (sg_nodes g)]"
    and "i < length (sg_nodes g) \<Longrightarrow> level_of g i < length (levels g)"
    and "i < length (sg_nodes g) \<Longrightarrow>
      level_of g i = node_level (fst (level_pass (sg_nodes g) (length (sg_nodes g)) (replicate (length (sg_nodes g)) 0) 0)) (sn_dependents (sg_nodes g ! i))"
proof -
  let ?n = "length (sg_nodes g)"
  obtain L h where p: "level_pass (sg_nodes g) ?n (replicate ?n 0) 0 = (L, h)" by fastforce
  have later: "i < fst e" if "i < ?n" "e \<in> set (sn_dependents (sg_nodes g ! i))" for i e
    using dependents_later [OF g that] by blast
  have spec: "length L = ?n" "\<forall>i<?n. L ! i = node_level L (sn_dependents (sg_nodes g ! i))" "\<forall>i<?n. L ! i \<le> h"
      "h = 0 \<or> (\<exists>i<?n. L ! i = h)"
    using level_pass_spec [OF p _ _ later, where n = ?n] by auto
  have lo: "level_of g i = L ! i" for i by (simp add: level_of_def p)
  have lv: "levels g = (if sg_nodes g = [] then [] else map (\<lambda>k. filter (\<lambda>i. L ! i = k) [0..<?n]) [0..<Suc h])"
    by (simp add: levels_def p)
  have mx: "Max (level_of g ` {..<?n}) = h" if "sg_nodes g \<noteq> []"
  proof (rule Max_eqI)
    show "h \<in> level_of g ` {..<?n}"
    proof (cases "h = 0")
      case True
      then show ?thesis using spec(3) that lo by (intro image_eqI [of _ _ 0]) auto
    qed (use spec(4) lo in auto)
  qed (use spec(3) lo in auto)
  then show "length (levels g) = (if sg_nodes g = [] then 0 else Suc (Max (level_of g ` {..<?n})))" using lv by simp
  show "k < length (levels g) \<Longrightarrow> levels g ! k = filter (\<lambda>i. level_of g i = k) [0..<?n]"
    using lv lo by (auto split: if_splits simp del: upt_Suc)
  show "i < ?n \<Longrightarrow> level_of g i < length (levels g)" using lv lo spec(3) by (auto simp: less_Suc_eq_le)
  show "i < ?n \<Longrightarrow> level_of g i = node_level (fst (level_pass (sg_nodes g) ?n (replicate ?n 0) 0)) (sn_dependents (sg_nodes g ! i))"
    using spec(2) lo p by simp
qed

lemma level_of_dep:
  assumes g: "graph_inv g" and "i < length (sg_nodes g)" "(t, opt) \<in> set (sn_deps (sg_nodes g ! i))"
  shows "t < i" "level_of g i < level_of g t"
proof -
  show t: "t < i" using assms by (fastforce simp: graph_inv_def)
  have "(i, opt) \<in> set (sn_dependents (sg_nodes g ! t))" using assms t by (simp add: graph_inv_def)
  from node_level_ge [OF this, of "fst (level_pass (sg_nodes g) (length (sg_nodes g)) (replicate (length (sg_nodes g)) 0) 0)"]
  show "level_of g i < level_of g t" using levels_spec(4) [OF g, of t] t assms(2) by (simp add: level_of_def)
qed

lemma level_of_step:
  assumes g: "graph_inv g" and "i < length (sg_nodes g)" "level_of g i = Suc k"
  shows "\<exists>j opt. j < length (sg_nodes g) \<and> (i, opt) \<in> set (sn_deps (sg_nodes g ! j)) \<and> level_of g j = k"
proof -
  obtain e where "e \<in> set (sn_dependents (sg_nodes g ! i))" "level_of g i = level_of g (fst e) + 1"
    using node_level_exact levels_spec(4) [OF g assms(2)] assms(3) by (metis level_of_def nat.distinct(1))
  then show ?thesis using dependents_later [OF g assms(2), of e] assms(3) by auto
qed

lemma levels_partition:
  assumes "graph_inv g"
  shows "set (concat (levels g)) = {..<length (sg_nodes g)}" "distinct (concat (levels g))"
proof -
  let ?n = "length (sg_nodes g)"
  have lv: "levels g = map (\<lambda>k. filter (\<lambda>i. level_of g i = k) [0..<?n]) [0..<length (levels g)]"
    using levels_spec(2) [OF assms] by (intro nth_equalityI) auto
  have "i \<in> set (concat (levels g)) \<longleftrightarrow> i < ?n" for i
    using levels_spec(3) [OF assms, of i] by (subst lv) (auto simp del: upt_Suc)
  then show "set (concat (levels g)) = {..<?n}" by auto
  have d: "distinct (concat (map (\<lambda>k. filter (\<lambda>i. level_of g i = k) [0..<?n]) ks))" if "distinct ks" for ks
    using that by (induction ks) auto
  have "concat (levels g) = concat (map (\<lambda>k. filter (\<lambda>i. level_of g i = k) [0..<?n]) [0..<length (levels g)])"
    using arg_cong [OF lv, of concat] .
  then show "distinct (concat (levels g))" using d [of "[0..<length (levels g)]"] by simp
qed

section \<open>Properties\<close>

lemma fst_edge: "resolve_deps name byName ds es = Inr r \<Longrightarrow> distinct (map fst es) \<Longrightarrow>
    (\<exists>opt. (t, opt) \<in> set r) \<longleftrightarrow> (\<exists>opt. (t, opt) \<in> set es) \<or> (\<exists>d\<in>set ds. byName (dep_label d) = Some t)"
  using arg_cong [OF resolve_deps_fst(2), of name byName ds es r "\<lambda>S. t \<in> S"] by (force simp: image_iff)

definition sample_svc :: "string \<Rightarrow> svc_value option" where
  "sample_svc name = Some \<lparr>sv_name = name, sv_type = ''*svc'', sv_deps = None\<rparr>"

text \<open>A database service, a cache over it, and a web service that requires the database and may use the cache.\<close>

definition sample_graph :: serviceGraph where
  "sample_graph =
     snd (RegisterService (sample_svc ''web'') [Requires ''db'', MayUse ''cache'', MayUse ''db'']
       (snd (RegisterService (sample_svc ''cache'') [Requires ''db''] (snd (RegisterService (sample_svc ''db'') [] empty_graph)))))"

lemma sample_graph_reachable: "reach (\<lambda>g. g = empty_graph) graph_step sample_graph"
  unfolding sample_graph_def by (rule reach_step, rule reach_step, rule reach_step, rule reach_init) (rule refl registers)+

text \<open>C30: A registration is recorded whole or not at all, with exactly the edges it declared: on an error
  the graph is as it was; on success the new node is last, depends on exactly the registered services
  among its declared labels (those it reports itself and those of the caller), each edge being
  optional only if every declaration of that label is, every other node keeps its dependencies, and
  every edge of the graph points to an earlier node, so a cycle cannot be written.\<close>

theorem registration_sound:
  assumes "reach (\<lambda>g. g = empty_graph) graph_step g" and "RegisterService (Some sv) extra g = (r, g')"
  shows "case r of
      Inl err \<Rightarrow> g' = g
    | Inr k \<Rightarrow> k = length (sg_nodes g) \<and> length (sg_nodes g') = Suc k \<and> sg_byName g' (sv_name sv) = Some k
        \<and> (\<forall>t opt. (t, opt) \<in> set (sn_deps (sg_nodes g' ! k)) \<longleftrightarrow>
             (\<exists>d \<in> set (the_default [] (sv_deps sv) @ extra). sg_byName g (dep_label d) = Some t)
             \<and> opt = (\<forall>d \<in> set (the_default [] (sv_deps sv) @ extra). sg_byName g (dep_label d) = Some t \<longrightarrow> dep_optional d))
        \<and> (\<forall>i < k. sn_deps (sg_nodes g' ! i) = sn_deps (sg_nodes g ! i))
        \<and> (\<forall>i < Suc k. \<forall>e \<in> set (sn_deps (sg_nodes g' ! i)). fst e < i)"
proof -
  let ?deps = "the_default [] (sv_deps sv) @ extra"
  have R: "graph_add (Some sv) ?deps g = (r, g')"
    using assms(2) by (simp add: RegisterService_def the_default_def split: option.splits)
  have inv: "graph_inv g" using reach_graph_inv [OF assms(1)] .
  show ?thesis
  proof (cases "resolve (sv_name sv) ?deps g")
    case (Inl e)
    then show ?thesis using R by (auto simp: graph_add_def)
  next
    case (Inr n)
    then have r: "r = Inr (sn_idx n)" "g' = attach (n\<lparr>sn_type := sv_type sv\<rparr>) g" using R by (auto simp: graph_add_def)
    note n = resolve_node [OF inv Inr]
    have inv': "graph_inv g'" unfolding r(2) by (rule graph_inv_attach [OF inv Inr])
    have len: "length (sg_nodes g') = Suc (length (sg_nodes g))" and new: "sg_nodes g' ! length (sg_nodes g) = n\<lparr>sn_type := sv_type sv\<rparr>"
      by (simp_all add: r(2) attach_def nth_append)
    have old: "sn_deps (sg_nodes g' ! i) = sn_deps (sg_nodes g ! i)" if "i < length (sg_nodes g)" for i
      using fold_add_dependent(1) [OF n(6,7) that] that by (simp add: r(2) attach_def nth_append split: option.splits)
    have e: "(t, opt) \<in> set (sn_deps n) \<longleftrightarrow> (\<exists>d \<in> set ?deps. sg_byName g (dep_label d) = Some t)
        \<and> opt = (\<forall>d \<in> set ?deps. sg_byName g (dep_label d) = Some t \<longrightarrow> dep_optional d)" for t opt
    proof -
      have k: "opt = (\<forall>d \<in> set ?deps. sg_byName g (dep_label d) = Some t \<longrightarrow> dep_optional d)" if "(t, opt) \<in> set (sn_deps n)" for opt
        using resolve_deps_kind [OF n(8) _ that] by simp
      have m: "(\<exists>opt. (t, opt) \<in> set (sn_deps n)) \<longleftrightarrow> (\<exists>d \<in> set ?deps. sg_byName g (dep_label d) = Some t)"
        using fst_edge [OF n(8), of t] by simp
      show ?thesis using k m by blast
    qed
    have b: "sg_byName g' (sv_name sv) = Some (length (sg_nodes g))" using n(1,2) by (simp add: r(2) attach_def)
    have bk: "\<forall>i < Suc (length (sg_nodes g)). \<forall>x \<in> set (sn_deps (sg_nodes g' ! i)). fst x < i"
      using inv' len by (simp add: graph_inv_def)
    show ?thesis using r(1) n(1) len new old e b bk by simp
  qed
qed

theorem registration_sound_witness:
  "sn_deps (sg_nodes sample_graph ! 2) = [(0, False), (1, True)] \<and> (\<exists>e. e \<in> set (sn_deps (sg_nodes sample_graph ! 2)) \<and> fst e < 2)"
proof -
  let ?g = "snd (RegisterService (sample_svc ''cache'') [Requires ''db''] (snd (RegisterService (sample_svc ''db'') [] empty_graph)))"
  let ?sv = "\<lparr>sv_name = ''web'', sv_type = ''*svc'', sv_deps = None\<rparr>" and ?extra = "[Requires ''db'', MayUse ''cache'', MayUse ''db'']"
  have r: "reach (\<lambda>g. g = empty_graph) graph_step ?g"
    by (rule reach_step, rule reach_step, rule reach_init) (rule refl registers)+
  obtain res g' where reg: "RegisterService (Some ?sv) ?extra ?g = (res, g')" by fastforce
  have g': "g' = sample_graph" using reg by (simp add: sample_graph_def sample_svc_def)
  have "fst (RegisterService (Some ?sv) ?extra ?g) = Inr 2" by code_simp
  then have "res = Inr 2" using reg by simp
  moreover have "sn_deps (sg_nodes sample_graph ! 2) = [(0, False), (1, True)]" by code_simp
  moreover from registration_sound [OF r reg] have "\<forall>i < 3. \<forall>e \<in> set (sn_deps (sg_nodes g' ! i)). fst e < i"
    using \<open>res = Inr 2\<close> by simp
  ultimately show ?thesis using g' by (metis list.set_intros(1) lessI numeral_3_eq_3 numeral_2_eq_2)
qed

text \<open>The levels order every graph built by registration: they hold each service exactly once, a
  service always stands at a lower level than what it depends on, and no service stands deeper than
  it has to: below the first level it has a dependent exactly one level up.\<close>

theorem levels_order:
  assumes "reach (\<lambda>g. g = empty_graph) graph_step g"
  shows "distinct (concat (levels g)) \<and> set (concat (levels g)) = {..<length (sg_nodes g)}
    \<and> (\<forall>i < length (sg_nodes g). \<forall>(t, opt) \<in> set (sn_deps (sg_nodes g ! i)).
         \<exists>a b. a < b \<and> b < length (levels g) \<and> i \<in> set (levels g ! a) \<and> t \<in> set (levels g ! b))
    \<and> (\<forall>k. Suc k < length (levels g) \<longrightarrow> (\<forall>i \<in> set (levels g ! Suc k).
         \<exists>j opt. j \<in> set (levels g ! k) \<and> (i, opt) \<in> set (sn_deps (sg_nodes g ! j))))"
proof -
  let ?n = "length (sg_nodes g)"
  have inv: "graph_inv g" using reach_graph_inv [OF assms] .
  have mem: "i \<in> set (levels g ! k) \<longleftrightarrow> i < ?n \<and> level_of g i = k" if "k < length (levels g)" for i k
    using levels_spec(2) [OF inv that] by auto
  note lt = levels_spec(3) [OF inv]
  have "\<exists>a b. a < b \<and> b < length (levels g) \<and> i \<in> set (levels g ! a) \<and> t \<in> set (levels g ! b)"
    if "i < ?n" "(t, opt) \<in> set (sn_deps (sg_nodes g ! i))" for i t opt
    using level_of_dep [OF inv that] that(1) mem lt by (metis order.strict_trans)
  moreover have "\<exists>j opt. j \<in> set (levels g ! k) \<and> (i, opt) \<in> set (sn_deps (sg_nodes g ! j))"
    if "Suc k < length (levels g)" "i \<in> set (levels g ! Suc k)" for i k
    using level_of_step [OF inv, of i k] that mem [of "Suc k" i] mem [of k] by (metis Suc_lessD)
  ultimately show ?thesis using levels_partition [OF inv] by blast
qed

theorem levels_order_witness:
  "levels sample_graph = [[2], [1], [0]] \<and> distinct (concat (levels sample_graph))"
proof -
  have "levels sample_graph = [[2], [1], [0]]" by code_simp
  then show ?thesis using levels_order [OF sample_graph_reachable] by blast
qed

lemma indexOfEdgeByName_None:
  "indexOfEdgeByName g es label = None \<longleftrightarrow> (\<forall>e \<in> set es. sn_name (sg_nodes g ! fst e) \<noteq> label)"
  by (induction es) auto

lemma indexOfEdgeByName_Some:
  "indexOfEdgeByName g es label = Some i \<Longrightarrow> i < length es \<and> sn_name (sg_nodes g ! fst (es ! i)) = label"
  by (induction es arbitrary: i) (auto split: if_splits)

lemma byName_unique:
  "graph_inv g \<Longrightarrow> t < length (sg_nodes g) \<Longrightarrow> sn_name (sg_nodes g ! t) = label \<longleftrightarrow> sg_byName g label = Some t"
  by (auto simp: graph_inv_def)

text \<open>Sealing fails exactly when an optional dependency was registered too late: it returns nil if
  and only if every \<open>MayUse\<close> label that some registered service bears is an edge of the service
  that declared it; and after sealing nothing can be registered.\<close>

theorem seal_finds_late_dependencies:
  assumes "reach (\<lambda>g. g = empty_graph) graph_step g"
  shows "(fst (seal g) = None \<longleftrightarrow>
      (\<forall>i < length (sg_nodes g). \<forall>d \<in> set (sn_declared (sg_nodes g ! i)). \<forall>t.
         dep_optional d \<longrightarrow> sg_byName g (dep_label d) = Some t \<longrightarrow> (\<exists>opt. (t, opt) \<in> set (sn_deps (sg_nodes g ! i)))))
    \<and> snd (RegisterService s extra (snd (seal g))) = snd (seal g)"
proof
  have inv: "graph_inv g" using reach_graph_inv [OF assms] .
  let ?g1 = "g\<lparr>sg_sealed := True\<rparr>"
  have late: "late_dep ?g1 (sg_nodes g ! i) d \<longleftrightarrow>
      dep_optional d \<and> (\<exists>t. sg_byName g (dep_label d) = Some t \<and> (\<forall>opt. (t, opt) \<notin> set (sn_deps (sg_nodes g ! i))))"
    if i: "i < length (sg_nodes g)" for i d
  proof -
    have "fst e < length (sg_nodes g)" if "e \<in> set (sn_deps (sg_nodes g ! i))" for e
      using graph_inv_dep [OF inv i, of "fst e" "snd e"] that i by simp
    then have "indexOfEdgeByName ?g1 (sn_deps (sg_nodes g ! i)) (dep_label d) = None \<longleftrightarrow>
        (\<forall>e \<in> set (sn_deps (sg_nodes g ! i)). sg_byName g (dep_label d) \<noteq> Some (fst e))"
      using byName_unique [OF inv] by (auto simp: indexOfEdgeByName_None)
    then show ?thesis by (force simp: late_dep_def)
  qed
  have "fst (seal g) = None \<longleftrightarrow> (\<forall>i < length (sg_nodes g). \<forall>d \<in> set (sn_declared (sg_nodes g ! i)). \<not> late_dep ?g1 (sg_nodes g ! i) d)"
  proof -
    have "(case xs of [] \<Rightarrow> None | (n, d) # _ \<Rightarrow> Some (MayUseLate (sn_name n) (dep_label d))) = None \<longleftrightarrow> xs = []"
      for xs :: "(ServiceNode \<times> ServiceDep) list" by (auto split: list.splits)
    then show ?thesis unfolding seal_def Let_def fst_conv
      by (simp add: filter_empty_conv all_set_conv_all_nth [of "sg_nodes g"])
  qed
  then show "fst (seal g) = None \<longleftrightarrow>
      (\<forall>i < length (sg_nodes g). \<forall>d \<in> set (sn_declared (sg_nodes g ! i)). \<forall>t.
         dep_optional d \<longrightarrow> sg_byName g (dep_label d) = Some t \<longrightarrow> (\<exists>opt. (t, opt) \<in> set (sn_deps (sg_nodes g ! i))))"
    using late by blast
  show "snd (RegisterService s extra (snd (seal g))) = snd (seal g)"
    by (simp add: RegisterService_def graph_add_def resolve_def seal_def Let_def split: option.splits)
qed

theorem seal_finds_late_dependencies_witness:
  "fst (seal (snd (RegisterService (sample_svc ''db'') [] (snd (RegisterService (sample_svc ''web'') [MayUse ''db''] empty_graph)))))
     = Some (MayUseLate ''web'' ''db'') \<and> fst (seal sample_graph) = None"
proof -
  let ?g = "snd (RegisterService (sample_svc ''db'') [] (snd (RegisterService (sample_svc ''web'') [MayUse ''db''] empty_graph)))"
  have "fst (seal ?g) = Some (MayUseLate ''web'' ''db'')" by code_simp
  moreover have "fst (seal sample_graph) = None"
  proof -
    have "list_all (\<lambda>n. list_all (\<lambda>d. list_ex (\<lambda>e. sg_byName sample_graph (dep_label d) = Some (fst e)) (sn_deps n)) (sn_declared n))
        (sg_nodes sample_graph)" by code_simp
    then have "list_ex (\<lambda>e. sg_byName sample_graph (dep_label d) = Some (fst e)) (sn_deps (sg_nodes sample_graph ! i))"
      if "i < length (sg_nodes sample_graph)" "d \<in> set (sn_declared (sg_nodes sample_graph ! i))" for i d
      using that by (auto simp: list_all_length [of _ "sg_nodes sample_graph"] list_all_iff [of _ "sn_declared _"])
    then have "\<exists>opt. (t, opt) \<in> set (sn_deps (sg_nodes sample_graph ! i))"
      if "i < length (sg_nodes sample_graph)" "d \<in> set (sn_declared (sg_nodes sample_graph ! i))" "sg_byName sample_graph (dep_label d) = Some t" for i d t
      using that by (force simp: list_ex_iff)
    then show ?thesis using seal_finds_late_dependencies [OF sample_graph_reachable] by blast
  qed
  ultimately show ?thesis by blast
qed

text \<open>A service can only use what it declared: a handle that a factory takes from its dependencies
  and that ever yields a service yields the service registered under a label the registration
  declared, an edge of the graph leads from the new service to it, and it is admitted at that moment.
  A label that was not declared, is not registered, or names a service of another type gives a handle
  that never yields.\<close>

theorem handle_needs_edge:
  assumes "reach (\<lambda>g. g = empty_graph) graph_step g" and "resolve name deps g = Inr nd"
    and "Handle \<lparr>dp_name = name, dp_declared = deps, dp_edges = sn_deps nd\<rparr> T label g = (h, err)"
    and "handle_Get h later = Some n"
  shows "err = None \<and> (\<exists>d \<in> set deps. dep_label d = label) \<and> sg_byName g label = Some n \<and>
    (\<exists>opt. (n, opt) \<in> set (sn_deps nd)) \<and> sn_type (sg_nodes g ! n) = T \<and> sn_admitted (sg_nodes later ! n)"
proof -
  have inv: "graph_inv g" using reach_graph_inv [OF assms(1)] .
  have h: "h = Some n" "sn_admitted (sg_nodes later ! n)" using assms(4) by (auto simp: handle_Get_def split: option.splits if_splits)
  obtain i where i: "indexOfEdgeByName g (sn_deps nd) label = Some i" "n = fst (sn_deps nd ! i)" "sn_type (sg_nodes g ! n) = T"
      "err = None" "\<exists>d \<in> set deps. dep_label d = label"
    using assms(3) h(1) by (auto simp: Handle_def Let_def list_ex_iff split: if_splits option.splits)
  note s = indexOfEdgeByName_Some [OF i(1)]
  have e: "(n, snd (sn_deps nd ! i)) \<in> set (sn_deps nd)" using s i(2) nth_mem by (metis prod.collapse)
  then have "n < length (sg_nodes g)" using resolve_node(7) [OF inv assms(2)] by fastforce
  then have "sg_byName g label = Some n" using byName_unique [OF inv] s i(2) by simp
  then show ?thesis using i e h(2) by blast
qed

theorem handle_needs_edge_witness:
  "let g = snd (RegisterService (sample_svc ''db'') [] empty_graph);
       up = g\<lparr>sg_nodes := map (\<lambda>n. n\<lparr>sn_admitted := True\<rparr>) (sg_nodes g)\<rparr>;
       d = \<lparr>dp_name = ''web'', dp_declared = [Requires ''db'', MayUse ''cache''], dp_edges = [(0, False)]\<rparr>
   in handle_Get (fst (Handle d ''*svc'' ''db'' g)) up = Some 0 \<and> sg_byName g ''db'' = Some 0 \<and>
      Handle d ''*svc'' ''cache'' g = (None, None)"
proof -
  let ?g = "snd (RegisterService (sample_svc ''db'') [] empty_graph)"
  let ?up = "?g\<lparr>sg_nodes := map (\<lambda>n. n\<lparr>sn_admitted := True\<rparr>) (sg_nodes ?g)\<rparr>" and ?ds = "[Requires ''db'', MayUse ''cache'']"
  have r: "reach (\<lambda>g. g = empty_graph) graph_step ?g" by (rule reach_step, rule reach_init) (rule refl registers)+
  have "map_sum (\<lambda>_. ()) sn_deps (resolve ''web'' ?ds ?g) = Inr [(0, False)]" by code_simp
  then obtain nd where nd: "resolve ''web'' ?ds ?g = Inr nd" "sn_deps nd = [(0, False)]"
    by (cases "resolve ''web'' ?ds ?g") auto
  let ?d = "\<lparr>dp_name = ''web'', dp_declared = ?ds, dp_edges = [(0, False)]\<rparr>"
  have h: "Handle ?d ''*svc'' ''db'' ?g = (Some 0, None)" "Handle ?d ''*svc'' ''cache'' ?g = (None, None)"
    "handle_Get (Some 0) ?up = Some 0" by code_simp+
  have "sg_byName ?g ''db'' = Some 0"
    using handle_needs_edge [OF r nd(1) _ h(3), of "''*svc''" "''db''" None] h(1) nd(2) by simp
  then show ?thesis using h by (simp add: Let_def)
qed

end
