(* ===== verification/Core_Walks.thy ===== *)
theory Core_Walks
  imports Service_Graph "HOL-Library.Multiset"
begin

text \<open>
  The walks of \<open>framework.Core\<close> over the service graph: \<open>StartServices\<close> with its rollback,
  \<open>TerminateServices\<close> with its barrier per level, and the operator's start and stop of one service.
  How a service's \<open>Start\<close>, \<open>Stop\<close> or \<open>Terminate\<close> ends is given by the environment, within the
  contract of \<open>svc.Service\<close>: \<open>Start\<close> succeeds only from READY (or as a no-op when RUNNING), and
  \<open>Terminate\<close> reports at most once. The nodes of a level terminate concurrently, each touching only
  itself, so the order within a level does not matter.
\<close>

datatype start_end = StartOk | StartErr string | StartPanics string

datatype stop_end = StopOk | StopErr string | StopPanics string

text \<open>\<open>Reports e\<close>: the service sent \<open>e\<close> on its terminated channel within the budget. \<open>Late\<close>: it did not.\<close>

datatype term_end = Reports "string option" | Late | TermPanics string

datatype svc_failure = SvcErr string | WrongState State | svcPanicError string string | AbandonedErr string | SealFailed graph_error

definition startNode :: "start_end \<Rightarrow> ServiceNode \<Rightarrow> svc_failure option \<times> ServiceNode" where
  "startNode out n =
     (if sn_phase n = StateRUNNING then (None, n)
      else if sn_phase n \<noteq> StateREADY then (Some (WrongState (sn_phase n)), n)
      else case out of
        StartOk \<Rightarrow> (None, n\<lparr>sn_phase := StateRUNNING\<rparr>)
      | StartErr e \<Rightarrow> (Some (SvcErr e), n)
      | StartPanics p \<Rightarrow> (Some (svcPanicError (sn_name n) p), n))"

definition terminateNode :: "term_end \<Rightarrow> ServiceNode \<Rightarrow> svc_failure option \<times> ServiceNode" where
  "terminateNode out n =
     (let n1 = n\<lparr>sn_admitted := False\<rparr>;
          await = (\<lambda>n2. case sn_termSig n2 of
              Some e \<Rightarrow> (map_option SvcErr e, n2\<lparr>sn_termSig := None\<rparr>)
            | None \<Rightarrow> (Some (AbandonedErr (sn_name n)), n2\<lparr>sn_abandoned := True\<rparr>))
      in if sn_phase n1 = StateTERMINATING then await n1
         else case out of
           TermPanics p \<Rightarrow> (Some (svcPanicError (sn_name n) p), n1\<lparr>sn_phase := StateTERMINATING, sn_abandoned := True\<rparr>)
         | Late \<Rightarrow> await (n1\<lparr>sn_phase := StateTERMINATING\<rparr>)
         | Reports e \<Rightarrow> await (n1\<lparr>sn_phase := StateTERMINATING, sn_relay := False,
                                  sn_termSig := (if sn_relay n then Some e else sn_termSig n)\<rparr>))"

definition upd_node :: "nat \<Rightarrow> (ServiceNode \<Rightarrow> ServiceNode) \<Rightarrow> ServiceNode list \<Rightarrow> ServiceNode list" where
  "upd_node i f ns = ns[i := f (ns ! i)]"

datatype core_event = Began nat | Admitted nat | Revoked nat | Settled nat

fun rollback :: "(nat \<Rightarrow> term_end) \<Rightarrow> nat list \<Rightarrow> ServiceNode list \<Rightarrow> ServiceNode list \<times> core_event list" where
  "rollback terms [] ns = (ns, [])"
| "rollback terms (i # is) ns =
     (case rollback terms is (upd_node i (\<lambda>n. snd (terminateNode (terms i) n)) ns) of
        (ns', log) \<Rightarrow> (ns', [Revoked i, Settled i] @ log))"

definition rollbackStarted :: "(nat \<Rightarrow> term_end) \<Rightarrow> nat list \<Rightarrow> ServiceNode list \<Rightarrow> ServiceNode list \<times> core_event list" where
  "rollbackStarted terms started ns = rollback terms (rev started) ns"

fun start_walk :: "(nat \<Rightarrow> start_end) \<Rightarrow> (nat \<Rightarrow> term_end) \<Rightarrow> nat list \<Rightarrow> nat list \<Rightarrow> ServiceNode list
    \<Rightarrow> svc_failure option \<times> ServiceNode list \<times> core_event list" where
  "start_walk starts terms [] started ns = (None, ns, [])"
| "start_walk starts terms (i # is) started ns =
     (case startNode (starts i) (ns ! i) of
        (Some err, n1) \<Rightarrow>
          (case rollbackStarted terms started (ns[i := n1]) of (ns', log) \<Rightarrow> (Some err, ns', Began i # log))
      | (None, n1) \<Rightarrow>
          (case start_walk starts terms is (started @ [i]) (ns[i := n1\<lparr>sn_admitted := True, sn_relay := True\<rparr>]) of
             (r, ns', log) \<Rightarrow> (r, ns', Began i # Admitted i # log)))"

datatype chan = NilChan | OpenChan | ClosedChan

record Core =
  co_graph :: serviceGraph
  co_shutdownDone :: chan
  co_shutdownErr :: "svc_failure option"
  co_shutdownPanic :: "svc_failure option"
  co_published :: bool

text \<open>A panicking \<open>Start\<close> is re-raised after the rollback; here it is the error itself.\<close>

definition StartServices :: "(nat \<Rightarrow> start_end) \<Rightarrow> (nat \<Rightarrow> term_end) \<Rightarrow> Core
    \<Rightarrow> svc_failure option \<times> Core \<times> core_event list" where
  "StartServices starts terms c =
     (case seal (co_graph c) of
        (Some err, g1) \<Rightarrow> (Some (SealFailed err), c\<lparr>co_graph := g1\<rparr>, [])
      | (None, g1) \<Rightarrow>
          (case start_walk starts terms (concat (rev (levels g1))) [] (sg_nodes g1) of
             (r, ns, log) \<Rightarrow> (r, c\<lparr>co_graph := g1\<lparr>sg_nodes := ns\<rparr>, co_shutdownDone := OpenChan\<rparr>, log)))"

fun terminate_level :: "(nat \<Rightarrow> term_end) \<Rightarrow> nat list \<Rightarrow> ServiceNode list \<Rightarrow> svc_failure option list \<times> ServiceNode list" where
  "terminate_level terms [] ns = ([], ns)"
| "terminate_level terms (i # is) ns =
     (case terminateNode (terms i) (ns ! i) of
        (err, n) \<Rightarrow> (case terminate_level terms is (ns[i := n]) of (errs, ns') \<Rightarrow> (err # errs, ns')))"

definition is_panic :: "svc_failure option \<Rightarrow> bool" where
  "is_panic err = (case err of Some (svcPanicError _ _) \<Rightarrow> True | _ \<Rightarrow> False)"

fun first_some :: "('a \<Rightarrow> bool) \<Rightarrow> 'a option \<Rightarrow> 'a option list \<Rightarrow> 'a option" where
  "first_some P acc [] = acc"
| "first_some P acc (e # es) = first_some P (case e of Some x \<Rightarrow> if P x \<and> acc = None then Some x else acc | None \<Rightarrow> acc) es"

fun terminate_levels :: "(nat \<Rightarrow> term_end) \<Rightarrow> nat list list \<Rightarrow> svc_failure option \<times> svc_failure option \<times> ServiceNode list
    \<Rightarrow> svc_failure option \<times> svc_failure option \<times> ServiceNode list" where
  "terminate_levels terms [] x = x"
| "terminate_levels terms (level # ls) (firstErr, pan, ns) =
     (case terminate_level terms level ns of
        (errs, ns') \<Rightarrow> terminate_levels terms ls
           (first_some (\<lambda>_. True) firstErr errs, first_some (\<lambda>e. is_panic (Some e)) pan errs, ns'))"

text \<open>\<open>True\<close> in the result: the panic of closing a nil channel.\<close>

definition TerminateServices :: "(nat \<Rightarrow> term_end) \<Rightarrow> Core \<Rightarrow> bool \<times> Core" where
  "TerminateServices terms c =
     (case terminate_levels terms (levels (co_graph c)) (None, co_shutdownPanic c, sg_nodes (co_graph c)) of
        (firstErr, pan, ns) \<Rightarrow>
          (let c1 = c\<lparr>co_graph := (co_graph c)\<lparr>sg_nodes := ns\<rparr>, co_shutdownPanic := pan\<rparr>
           in if co_published c1 then (False, c1)
              else let c2 = c1\<lparr>co_shutdownErr := firstErr, co_published := True\<rparr>
                   in if co_shutdownDone c2 = OpenChan then (False, c2\<lparr>co_shutdownDone := ClosedChan\<rparr>) else (True, c2)))"

text \<open>\<open>None\<close>: still blocked; \<open>Inl\<close>: the service panic it re-raises.\<close>

definition WaitServicesTerminated :: "Core \<Rightarrow> (svc_failure + svc_failure option) option" where
  "WaitServicesTerminated c =
     (if co_shutdownDone c \<noteq> ClosedChan then None
      else Some (case co_shutdownPanic c of Some p \<Rightarrow> Inl p | None \<Rightarrow> Inr (co_shutdownErr c)))"

definition StartServiceNode :: "start_end \<Rightarrow> ServiceNode \<Rightarrow> svc_failure option \<times> ServiceNode" where
  "StartServiceNode out n = (case startNode out n of
      (Some err, n1) \<Rightarrow> (Some err, n1)
    | (None, n1) \<Rightarrow> (None, n1\<lparr>sn_admitted := True\<rparr>))"

definition StopServiceNode :: "stop_end \<Rightarrow> ServiceNode \<Rightarrow> svc_failure option \<times> ServiceNode" where
  "StopServiceNode out n =
     (let n1 = n\<lparr>sn_admitted := False\<rparr>
      in if sn_phase n1 = StateREADY then (None, n1)
         else if sn_phase n1 \<noteq> StateRUNNING then (Some (WrongState (sn_phase n1)), n1)
         else case out of
           StopOk \<Rightarrow> (None, n1\<lparr>sn_phase := StateREADY\<rparr>)
         | StopErr e \<Rightarrow> (Some (SvcErr e), n1\<lparr>sn_phase := StateSTOPPING\<rparr>)
         | StopPanics p \<Rightarrow> (Some (svcPanicError (sn_name n) p), n1\<lparr>sn_phase := StateSTOPPING\<rparr>))"

section \<open>Orders\<close>

definition before :: "'a \<Rightarrow> 'a \<Rightarrow> 'a list \<Rightarrow> bool" where
  "before x y zs \<longleftrightarrow> (\<exists>us vs ws. zs = us @ x # vs @ y # ws)"

lemma before_concat:
  assumes "p < q" "q < length yss" "x \<in> set (yss ! p)" "y \<in> set (yss ! q)"
  shows "before x y (concat yss)"
proof -
  have "yss = take q yss @ yss ! q # drop (Suc q) yss" using assms(2) by (rule id_take_nth_drop)
  then have c: "concat yss = concat (take q yss) @ yss ! q @ concat (drop (Suc q) yss)"
    by (metis concat.simps(2) concat_append)
  have "yss ! p = take q yss ! p" "p < length (take q yss)" using assms(1,2) by simp_all
  then have "yss ! p \<in> set (take q yss)" by (metis nth_mem)
  then have "x \<in> set (concat (take q yss))" using assms(3) by auto
  then obtain us vs where "concat (take q yss) = us @ x # vs" by (meson split_list)
  moreover obtain vs' ws where "yss ! q = vs' @ y # ws" using assms(4) by (meson split_list)
  ultimately show ?thesis unfolding before_def c
    by (intro exI [of _ us] exI [of _ "vs @ vs'"] exI [of _ "ws @ concat (drop (Suc q) yss)"]) simp
qed

definition start_order :: "serviceGraph \<Rightarrow> nat list" where
  "start_order g = concat (rev (levels g))"

lemma concat_rev: "distinct (concat xss) = distinct (concat (rev xss))" "set (concat (rev xss)) = set (concat xss)"
proof -
  have "mset (concat (rev xss)) = mset (concat xss)"
    by (induction xss) auto
  then show "distinct (concat xss) = distinct (concat (rev xss))" by (intro mset_eq_imp_distinct_iff) simp
qed simp

lemma start_order_spec:
  assumes g: "graph_inv g"
  shows "set (start_order g) = {..<length (sg_nodes g)}" "distinct (start_order g)"
    and "i < length (sg_nodes g) \<Longrightarrow> (t, opt) \<in> set (sn_deps (sg_nodes g ! i)) \<Longrightarrow> before t i (start_order g)"
proof -
  show "set (start_order g) = {..<length (sg_nodes g)}" "distinct (start_order g)"
    unfolding start_order_def concat_rev(2) concat_rev(1) [symmetric] by (rule levels_partition [OF g])+
  assume i: "i < length (sg_nodes g)" and d: "(t, opt) \<in> set (sn_deps (sg_nodes g ! i))"
  note t = level_of_dep [OF g i d]
  let ?m = "length (levels g)" and ?p = "level_of g t" and ?q = "level_of g i"
  have m: "?p < ?m" "?q < ?m" using levels_spec(3) [OF g] t(1) i by auto
  have "i \<in> set (levels g ! ?q)" "t \<in> set (levels g ! ?p)" using levels_spec(2) [OF g] m t(1) i by auto
  moreover have "rev (levels g) ! (?m - Suc ?p) = levels g ! ?p" "rev (levels g) ! (?m - Suc ?q) = levels g ! ?q"
    using m by (simp_all add: rev_nth)
  ultimately show "before t i (start_order g)"
    unfolding start_order_def using t(2) m by (intro before_concat [of "?m - Suc ?p" "?m - Suc ?q"]) simp_all
qed

section \<open>Starting\<close>

lemma terminateNode_settles: "\<not> sn_admitted (snd (terminateNode out n)) \<and> sn_phase (snd (terminateNode out n)) = StateTERMINATING"
  by (auto simp: terminateNode_def Let_def split: term_end.splits option.splits)

definition boot_log :: "nat list \<Rightarrow> core_event list" where
  "boot_log is = concat (map (\<lambda>i. [Began i, Admitted i]) is)"

definition unwind_log :: "nat list \<Rightarrow> core_event list" where
  "unwind_log is = concat (map (\<lambda>i. [Revoked i, Settled i]) is)"

lemma rollback_spec:
  assumes "rollback terms is ns = (ns', log)" "\<forall>i \<in> set is. i < length ns"
  shows "length ns' = length ns \<and> log = unwind_log is \<and> (\<forall>j. j \<notin> set is \<longrightarrow> ns' ! j = ns ! j) \<and>
    (\<forall>i \<in> set is. \<not> sn_admitted (ns' ! i) \<and> sn_phase (ns' ! i) = StateTERMINATING)"
  using assms
proof (induction "is" arbitrary: ns log)
  case (Cons i "is")
  let ?ns = "upd_node i (\<lambda>n. snd (terminateNode (terms i) n)) ns"
  obtain log1 where r: "rollback terms is ?ns = (ns', log1)" "log = [Revoked i, Settled i] @ log1"
    using Cons.prems(1) by (auto split: prod.splits)
  have "?ns ! i = snd (terminateNode (terms i) (ns ! i))" using Cons.prems(2) by (simp add: upd_node_def)
  then show ?case using Cons.IH [OF r(1)] r(2) Cons.prems(2) terminateNode_settles
    by (cases "i \<in> set is") (auto simp: unwind_log_def upd_node_def)
qed (simp add: unwind_log_def)

text \<open>A boot: the nodes of \<open>started\<close> are up, those of \<open>is\<close> are still to come.\<close>

lemma start_walk_spec:
  assumes "start_walk starts terms is started ns = (r, ns', log)"
    and "distinct (started @ is)" "\<forall>i \<in> set (started @ is). i < length ns"
    and "\<forall>i \<in> set started. sn_admitted (ns ! i) \<and> sn_phase (ns ! i) = StateRUNNING"
    and "\<forall>i \<in> set is. \<not> sn_admitted (ns ! i) \<and> sn_phase (ns ! i) = StateREADY"
  shows "length ns' = length ns \<and>
    (r = None \<longrightarrow> log = boot_log is \<and> (\<forall>i \<in> set (started @ is). sn_admitted (ns' ! i) \<and> sn_phase (ns' ! i) = StateRUNNING)) \<and>
    (\<forall>err. r = Some err \<longrightarrow> (\<forall>i \<in> set (started @ is). \<not> sn_admitted (ns' ! i)) \<and>
      (\<exists>pre f post. is = pre @ f # post \<and> log = boot_log pre @ Began f # unwind_log (rev (started @ pre)) \<and>
         (\<forall>i \<in> set (started @ pre). sn_phase (ns' ! i) = StateTERMINATING) \<and>
         (\<forall>i \<in> set (f # post). sn_phase (ns' ! i) = StateREADY)))"
  using assms
proof (induction "is" arbitrary: started ns log)
  case (Cons i "is")
  obtain e n1 where s: "startNode (starts i) (ns ! i) = (e, n1)" by fastforce
  show ?case
  proof (cases e)
    case None
    let ?ns = "ns[i := n1\<lparr>sn_admitted := True, sn_relay := True\<rparr>]"
    obtain log1 where w: "start_walk starts terms is (started @ [i]) ?ns = (r, ns', log1)" "log = Began i # Admitted i # log1"
      using Cons.prems(1) s None by (auto split: prod.splits)
    have "sn_phase n1 = StateRUNNING"
      using s None Cons.prems(5) by (auto simp: startNode_def split: if_splits start_end.splits)
    then have "\<forall>j \<in> set (started @ [i]). sn_admitted (?ns ! j) \<and> sn_phase (?ns ! j) = StateRUNNING"
      using Cons.prems(2-4) by (auto simp: nth_list_update)
    moreover have "\<forall>j \<in> set is. \<not> sn_admitted (?ns ! j) \<and> sn_phase (?ns ! j) = StateREADY"
      using Cons.prems(2,3,5) by (auto simp: nth_list_update)
    ultimately have IH: "length ns' = length ns \<and>
      (r = None \<longrightarrow> log1 = boot_log is \<and> (\<forall>j \<in> set (started @ i # is). sn_admitted (ns' ! j) \<and> sn_phase (ns' ! j) = StateRUNNING)) \<and>
      (\<forall>err. r = Some err \<longrightarrow> (\<forall>j \<in> set (started @ i # is). \<not> sn_admitted (ns' ! j)) \<and>
        (\<exists>pre f post. is = pre @ f # post \<and> log1 = boot_log pre @ Began f # unwind_log (rev (started @ i # pre)) \<and>
         (\<forall>j \<in> set (started @ i # pre). sn_phase (ns' ! j) = StateTERMINATING) \<and>
         (\<forall>j \<in> set (f # post). sn_phase (ns' ! j) = StateREADY)))"
      using Cons.IH [OF w(1)] Cons.prems(2,3) by simp
    have "\<exists>pre f post. i # is = pre @ f # post \<and> log = boot_log pre @ Began f # unwind_log (rev (started @ pre)) \<and>
         (\<forall>j \<in> set (started @ pre). sn_phase (ns' ! j) = StateTERMINATING) \<and>
         (\<forall>j \<in> set (f # post). sn_phase (ns' ! j) = StateREADY)" if re: "r = Some err" for err
    proof -
      obtain pre f post where "is = pre @ f # post" "log1 = boot_log pre @ Began f # unwind_log (rev (started @ i # pre))"
         "\<forall>j \<in> set (started @ i # pre). sn_phase (ns' ! j) = StateTERMINATING" "\<forall>j \<in> set (f # post). sn_phase (ns' ! j) = StateREADY"
        using IH re by auto
      then show ?thesis using w(2) by (intro exI [of _ "i # pre"] exI [of _ f] exI [of _ post]) (simp add: boot_log_def)
    qed
    then show ?thesis using IH w(2) by (auto simp: boot_log_def)
  next
    case (Some err)
    obtain log1 where rb: "rollback terms (rev started) (ns[i := n1]) = (ns', log1)" "r = Some err" "log = Began i # log1"
      using Cons.prems(1) s Some by (auto simp: rollbackStarted_def split: prod.splits)
    have n1: "n1 = ns ! i" using s Some by (auto simp: startNode_def split: if_splits start_end.splits)
    note spec = rollback_spec [OF rb(1)]
    have "\<forall>j \<in> set (i # is). ns' ! j = ns ! j" using spec Cons.prems(2,3) n1 by auto
    then have "i # is = [] @ i # is \<and> log = boot_log [] @ Began i # unwind_log (rev (started @ [])) \<and>
         (\<forall>j \<in> set (started @ []). sn_phase (ns' ! j) = StateTERMINATING) \<and> (\<forall>j \<in> set (i # is). sn_phase (ns' ! j) = StateREADY)"
      using spec Cons.prems(3,5) rb(3) by (simp add: boot_log_def)
    moreover have "length ns' = length ns" "\<forall>j \<in> set (started @ i # is). \<not> sn_admitted (ns' ! j)"
      using spec Cons.prems(3,5) \<open>\<forall>j \<in> set (i # is). ns' ! j = ns ! j\<close> by auto
    ultimately show ?thesis using rb(2) by blast
  qed
qed (simp add: boot_log_def)

definition fresh_node :: "ServiceNode \<Rightarrow> bool" where
  "fresh_node n \<longleftrightarrow> \<not> sn_admitted n \<and> \<not> sn_abandoned n \<and> sn_phase n = StateREADY \<and> \<not> sn_relay n \<and> sn_termSig n = None"

lemma fresh_add_dependent: "list_all fresh_node ns \<Longrightarrow> list_all fresh_node (fold (add_dependent k) es ns)"
proof (induction es arbitrary: ns)
  case (Cons e es)
  have "fresh_node (add_dependent k e ns ! n)" if "n < length ns" for n
    using Cons.prems that by (cases "n = fst e") (simp_all add: add_dependent_def list_all_length fresh_node_def)
  then have "list_all fresh_node (add_dependent k e ns)" by (simp add: list_all_length add_dependent_def)
  then show ?case using Cons.IH by simp
qed simp

lemma reach_graph_fresh: "reach (\<lambda>g. g = empty_graph) graph_step g \<Longrightarrow> list_all fresh_node (sg_nodes g)"
proof (induction rule: reach.induct)
  case (reach_step g g')
  have r: "fresh_node n" if "resolve name deps g = Inr n" for name deps n
    using that by (auto simp: resolve_def fresh_node_def split: if_splits option.splits sum.splits)
  have a: "list_all fresh_node (sg_nodes (attach (n\<lparr>sn_type := T\<rparr>) g))" if "resolve name deps g = Inr n" for name deps n T
    using r [OF that] fresh_add_dependent [OF reach_step.IH] by (simp add: attach_def fresh_node_def)
  have "list_all fresh_node (sg_nodes (snd (RegisterService s extra g)))" for s extra
    using a reach_step.IH by (auto simp: RegisterService_def graph_add_def split: option.splits sum.splits)
  moreover have "list_all fresh_node (sg_nodes (snd (RegisterServiceFunc name build deps g)))" for name build deps
    using a reach_step.IH by (auto simp: RegisterServiceFunc_def split: option.splits sum.splits build_end.splits)
  moreover have "list_all fresh_node (sg_nodes (snd (seal g)))" using reach_step.IH by (simp add: seal_def Let_def)
  ultimately show ?case using reach_step.hyps(2) by (elim graph_stepE) auto
qed (simp add: empty_graph_def)

text \<open>C10: Services start dependencies first, or not at all. A boot of any graph built by registration
  walks all services in an order where everything a service depends on comes before it. If it
  returns nil every service is RUNNING and admitted, each having been started only after all its
  dependencies were admitted. If a start fails, the services already up are revoked and terminated
  in the reverse of the order they started in, dependents before what they depend on, the failed
  service and those after it are untouched, and none is admitted.\<close>

theorem start_dependencies_first:
  assumes "reach (\<lambda>g. g = empty_graph) graph_step (co_graph c)" and "StartServices starts terms c = (r, c', log)"
  shows "\<exists>order. distinct order \<and> set order = {..<length (sg_nodes (co_graph c))}
    \<and> (\<forall>i < length (sg_nodes (co_graph c)). \<forall>(t, opt) \<in> set (sn_deps (sg_nodes (co_graph c) ! i)). before t i order)
    \<and> (r = None \<longrightarrow> log = boot_log order
         \<and> (\<forall>n \<in> set (sg_nodes (co_graph c')). sn_admitted n \<and> sn_phase n = StateRUNNING))
    \<and> (r \<noteq> None \<longrightarrow> (\<forall>n \<in> set (sg_nodes (co_graph c')). \<not> sn_admitted n)
         \<and> (log = [] \<or> (\<exists>pre f post. order = pre @ f # post \<and> log = boot_log pre @ Began f # unwind_log (rev pre)
               \<and> (\<forall>i \<in> set pre. sn_phase (sg_nodes (co_graph c') ! i) = StateTERMINATING)
               \<and> (\<forall>i \<in> set (f # post). sn_phase (sg_nodes (co_graph c') ! i) = StateREADY))))"
proof -
  let ?g = "co_graph c" and ?g1 = "(co_graph c)\<lparr>sg_sealed := True\<rparr>"
  have inv: "graph_inv ?g" and fr: "list_all fresh_node (sg_nodes ?g)"
    using assms(1) reach_graph_inv reach_graph_fresh by auto
  have lv: "levels ?g1 = levels ?g" by (simp add: levels_def)
  have sg: "snd (seal ?g) = ?g1" by (simp add: seal_def Let_def)
  note so = start_order_spec [OF inv]
  have fresh: "\<not> sn_admitted (sg_nodes ?g ! i) \<and> sn_phase (sg_nodes ?g ! i) = StateREADY" if "i < length (sg_nodes ?g)" for i
    using fr that by (simp add: list_all_length fresh_node_def)
  show ?thesis
  proof (cases "fst (seal ?g)")
    case (Some e)
    then have "r \<noteq> None" "log = []" "sg_nodes (co_graph c') = sg_nodes ?g"
      using assms(2) sg by (auto simp: StartServices_def split: prod.splits)
    then show ?thesis using so fr by (intro exI [of _ "start_order ?g"]) (auto simp: list_all_iff fresh_node_def)
  next
    case None
    then obtain ns where w: "start_walk starts terms (start_order ?g) [] (sg_nodes ?g) = (r, ns, log)" "sg_nodes (co_graph c') = ns"
      using assms(2) sg lv by (auto simp: StartServices_def start_order_def split: prod.splits)
    have spec: "length ns = length (sg_nodes ?g) \<and>
        (r = None \<longrightarrow> log = boot_log (start_order ?g) \<and> (\<forall>i \<in> set (start_order ?g). sn_admitted (ns ! i) \<and> sn_phase (ns ! i) = StateRUNNING)) \<and>
        (\<forall>err. r = Some err \<longrightarrow> (\<forall>i \<in> set (start_order ?g). \<not> sn_admitted (ns ! i)) \<and>
        (\<exists>pre f post. start_order ?g = pre @ f # post \<and> log = boot_log pre @ Began f # unwind_log (rev pre) \<and>
         (\<forall>i \<in> set pre. sn_phase (ns ! i) = StateTERMINATING) \<and> (\<forall>i \<in> set (f # post). sn_phase (ns ! i) = StateREADY)))"
      using start_walk_spec [OF w(1)] so(1,2) fresh by simp
    have all: "(\<forall>n \<in> set ns. Q n) \<longleftrightarrow> (\<forall>i \<in> set (start_order ?g). Q (ns ! i))" for Q
      using spec so(1) by (auto simp: all_set_conv_all_nth)
    show ?thesis unfolding w(2) all using spec so by (intro exI [of _ "start_order ?g"]) auto
  qed
qed

definition sample_core :: "serviceGraph \<Rightarrow> Core" where
  "sample_core g = \<lparr>co_graph = g, co_shutdownDone = NilChan, co_shutdownErr = None, co_shutdownPanic = None, co_published = False\<rparr>"

lemma sample_boot:
  "fst (StartServices (\<lambda>_. StartOk) (\<lambda>_. Late) (sample_core sample_graph)) = None"
  "snd (snd (StartServices (\<lambda>i. if i = 2 then StartErr ''port'' else StartOk) (\<lambda>_. Reports None) (sample_core sample_graph))) =
     [Began 0, Admitted 0, Began 1, Admitted 1, Began 2, Revoked 1, Settled 1, Revoked 0, Settled 0]"
  by code_simp+

theorem start_dependencies_first_witness:
  "list_all (\<lambda>n. sn_admitted n \<and> sn_phase n = StateRUNNING)
     (sg_nodes (co_graph (fst (snd (StartServices (\<lambda>_. StartOk) (\<lambda>_. Late) (sample_core sample_graph))))))"
proof -
  obtain r c' log where s: "StartServices (\<lambda>_. StartOk) (\<lambda>_. Late) (sample_core sample_graph) = (r, c', log)"
    by (metis surj_pair)
  have "reach (\<lambda>g. g = empty_graph) graph_step (co_graph (sample_core sample_graph))"
    using sample_graph_reachable by (simp add: sample_core_def)
  from start_dependencies_first [OF this s] show ?thesis using sample_boot(1) s by (auto simp: list_all_iff)
qed

section \<open>Terminating\<close>

lemma terminate_level_spec:
  assumes "terminate_level terms level ns = (errs, ns')" "distinct level" "\<forall>i \<in> set level. i < length ns"
  shows "length ns' = length ns \<and> errs = map (\<lambda>i. fst (terminateNode (terms i) (ns ! i))) level \<and>
    (\<forall>i. ns' ! i = (if i \<in> set level then snd (terminateNode (terms i) (ns ! i)) else ns ! i))"
  using assms
proof (induction level arbitrary: ns errs)
  case (Cons i level)
  let ?t = "terminateNode (terms i) (ns ! i)" and ?ns = "ns[i := snd (terminateNode (terms i) (ns ! i))]"
  obtain es where r: "terminate_level terms level ?ns = (es, ns')" "errs = fst ?t # es"
    using Cons.prems(1) by (auto split: prod.splits)
  have same: "?ns ! j = ns ! j" if "j \<in> set level" for j using that Cons.prems(2) by (cases "j = i") auto
  have i: "?ns ! i = snd ?t" using Cons.prems(3) by simp
  note IH = Cons.IH [OF r(1)]
  have "es = map (\<lambda>j. fst (terminateNode (terms j) (ns ! j))) level"
    using IH Cons.prems(2,3) same by (auto cong: map_cong)
  moreover have "ns' ! j = (if j \<in> set (i # level) then snd (terminateNode (terms j) (ns ! j)) else ns ! j)" for j
    using IH Cons.prems(2,3) same [of j] i by (cases "j = i") auto
  moreover have "length ns' = length ns" using IH Cons.prems(2,3) by simp
  ultimately show ?case using r(2) by auto
qed simp

lemma first_some_app: "first_some P acc (xs @ ys) = first_some P (first_some P acc xs) ys"
  by (induction xs arbitrary: acc) auto

lemma first_some_None: "first_some P acc xs = None \<longleftrightarrow> acc = None \<and> (\<forall>x. Some x \<in> set xs \<longrightarrow> \<not> P x)"
  by (induction xs arbitrary: acc) (auto split: option.splits if_splits)

definition node_errs :: "(nat \<Rightarrow> term_end) \<Rightarrow> ServiceNode list \<Rightarrow> nat list \<Rightarrow> svc_failure option list" where
  "node_errs terms ns is = map (\<lambda>i. fst (terminateNode (terms i) (ns ! i))) is"

lemma terminate_levels_spec:
  assumes "terminate_levels terms ls (e, p, ns) = (e', p', ns')" "distinct (concat ls)" "\<forall>i \<in> set (concat ls). i < length ns"
  shows "length ns' = length ns \<and> e' = first_some (\<lambda>_. True) e (node_errs terms ns (concat ls)) \<and>
    p' = first_some (\<lambda>x. is_panic (Some x)) p (node_errs terms ns (concat ls)) \<and>
    (\<forall>i. ns' ! i = (if i \<in> set (concat ls) then snd (terminateNode (terms i) (ns ! i)) else ns ! i))"
  using assms
proof (induction ls arbitrary: e p ns)
  case (Cons level ls)
  obtain errs ns1 where l: "terminate_level terms level ns = (errs, ns1)" by fastforce
  have spec: "length ns1 = length ns" "errs = node_errs terms ns level"
      "\<And>i. ns1 ! i = (if i \<in> set level then snd (terminateNode (terms i) (ns ! i)) else ns ! i)"
    using terminate_level_spec [OF l] Cons.prems(2,3) by (auto simp: node_errs_def)
  have same: "ns1 ! i = ns ! i" if "i \<in> set (concat ls)" for i using spec(3) that Cons.prems(2) by auto
  have "node_errs terms ns1 (concat ls) = node_errs terms ns (concat ls)"
    unfolding node_errs_def using same by (intro map_cong) simp_all
  moreover have "terminate_levels terms ls (first_some (\<lambda>_. True) e errs, first_some (\<lambda>x. is_panic (Some x)) p errs, ns1) = (e', p', ns')"
    using Cons.prems(1) l by simp
  moreover have "node_errs terms ns (concat (level # ls)) = errs @ node_errs terms ns (concat ls)"
    using spec(2) by (simp add: node_errs_def)
  moreover have "(if i \<in> set (concat ls) then snd (terminateNode (terms i) (ns1 ! i)) else ns1 ! i) =
      (if i \<in> set (concat (level # ls)) then snd (terminateNode (terms i) (ns ! i)) else ns ! i)" for i
    using spec(3) [of i] same [of i] Cons.prems(2) by (cases "i \<in> set level") auto
  ultimately show ?case using Cons.IH Cons.prems(2,3) spec(1)
    by (metis (no_types, lifting) UnCI concat.simps(2) distinct_append first_some_app set_append)
qed (simp add: node_errs_def)

text \<open>C11: The shutdown walk terminates dependents first, behind a barrier: when it reaches the services of
  a level, none of them has been touched yet, and every service that depends on one of them has had
  its admission revoked and its termination reported or given up on.\<close>

theorem terminate_dependents_first:
  assumes "graph_inv g" and "k < length (levels g)" and "t \<in> set (levels g ! k)"
    and "i < length (sg_nodes g)" and "(t, opt) \<in> set (sn_deps (sg_nodes g ! i))"
    and "terminate_levels terms (take k (levels g)) (e, p, sg_nodes g) = (e', p', ns)"
  shows "ns ! t = sg_nodes g ! t \<and> ns ! i = snd (terminateNode (terms i) (sg_nodes g ! i)) \<and>
         \<not> sn_admitted (ns ! i) \<and> sn_phase (ns ! i) = StateTERMINATING"
proof -
  note part = levels_partition [OF assms(1)]
  have tk: "level_of g t = k" "t < length (sg_nodes g)" using assms(2,3) levels_spec(2) [OF assms(1,2)] by auto
  have lt: "level_of g i < k" using level_of_dep(2) [OF assms(1,4,5)] tk by simp
  have split: "concat (levels g) = concat (take k (levels g)) @ concat (drop k (levels g))" by (simp flip: concat_append)
  then have d: "distinct (concat (take k (levels g)))" "\<forall>j \<in> set (concat (take k (levels g))). j < length (sg_nodes g)"
    using part by (metis distinct_append, metis UnCI lessThan_iff set_append)
  have "t \<in> set (concat (drop k (levels g)))"
    using assms(2,3) by (metis Cons_nth_drop_Suc UnCI concat.simps(2) set_append)
  then have t: "t \<notin> set (concat (take k (levels g)))" using split part(2) by (metis IntI distinct_append empty_iff)
  have "take k (levels g) ! level_of g i = levels g ! level_of g i" "level_of g i < length (take k (levels g))"
    using lt assms(2) by simp_all
  moreover have "i \<in> set (levels g ! level_of g i)"
    using levels_spec(2) [OF assms(1), of "level_of g i"] lt assms(2,4) by simp
  ultimately have "i \<in> set (concat (take k (levels g)))" using nth_mem [of "level_of g i" "take k (levels g)"] by auto
  then show ?thesis using terminate_levels_spec [OF assms(6) d] t terminateNode_settles by auto
qed

lemma sample_levels: "levels sample_graph = [[2], [1], [0]]" by code_simp

theorem terminate_dependents_first_witness:
  "let ns = snd (snd (terminate_levels (\<lambda>i. if i = 2 then Late else Reports None) [[2]] (None, None, sg_nodes sample_graph)))
   in ns ! 1 = sg_nodes sample_graph ! 1 \<and> sn_phase (ns ! 2) = StateTERMINATING"
proof -
  let ?terms = "\<lambda>i. if i = 2 then Late else Reports None"
  obtain e p ns where t: "terminate_levels ?terms (take 1 (levels sample_graph)) (None, None, sg_nodes sample_graph) = (e, p, ns)"
    by (metis surj_pair)
  have d: "(1, True) \<in> set (sn_deps (sg_nodes sample_graph ! 2))" "2 < length (sg_nodes sample_graph)"
    by code_simp+
  have l: "1 < length (levels sample_graph)" "1 \<in> set (levels sample_graph ! 1)" by (simp_all add: sample_levels)
  have w: "terminate_levels ?terms [[2]] (None, None, sg_nodes sample_graph) = (e, p, ns)" using t by (simp only: sample_levels) simp
  have "ns ! 1 = sg_nodes sample_graph ! 1 \<and> sn_phase (ns ! 2) = StateTERMINATING"
    using terminate_dependents_first [OF reach_graph_inv [OF sample_graph_reachable] l d(2,1) t] by blast
  then show ?thesis unfolding w by simp
qed

text \<open>A service as the boot leaves it: running, with its termination report awaited.\<close>

definition booted :: "ServiceNode \<Rightarrow> bool" where
  "booted n \<longleftrightarrow> sn_phase n = StateRUNNING \<and> sn_relay n \<and> sn_termSig n = None \<and> \<not> sn_abandoned n"

lemma terminateNode_booted:
  assumes "booted n"
  shows "fst (terminateNode out n) = (case out of Reports e \<Rightarrow> map_option SvcErr e | Late \<Rightarrow> Some (AbandonedErr (sn_name n))
      | TermPanics p \<Rightarrow> Some (svcPanicError (sn_name n) p))"
    and "sn_abandoned (snd (terminateNode out n)) \<longleftrightarrow> (\<forall>e. out \<noteq> Reports e)"
  using assms by (auto simp: terminateNode_def booted_def Let_def split: term_end.splits)


definition sample_up :: Core where
  "sample_up = fst (snd (StartServices (\<lambda>_. StartOk) (\<lambda>_. Late) (sample_core sample_graph)))"

lemma sample_up_facts:
  "list_all booted (sg_nodes (co_graph sample_up))" "co_shutdownDone sample_up = OpenChan" "\<not> co_published sample_up"
  "co_shutdownPanic sample_up = None" "length (sg_nodes (co_graph sample_up)) = 3" "levels (co_graph sample_up) = [[2], [1], [0]]"
  unfolding list_all_iff booted_def by code_simp+

lemma sample_up_inv: "graph_inv (co_graph sample_up)"
proof -
  have names: "map sn_name (sg_nodes (co_graph sample_up)) = map sn_name (sg_nodes sample_graph)"
    "map sn_idx (sg_nodes (co_graph sample_up)) = map sn_idx (sg_nodes sample_graph)"
    "map sn_deps (sg_nodes (co_graph sample_up)) = map sn_deps (sg_nodes sample_graph)"
    "map sn_dependents (sg_nodes (co_graph sample_up)) = map sn_dependents (sg_nodes sample_graph)"
    by code_simp+
  have "sg_byName (co_graph sample_up) = sg_byName sample_graph"
    by (auto simp: sample_up_def StartServices_def sample_core_def seal_def Let_def split: prod.splits option.splits)
  moreover have "length (sg_nodes (co_graph sample_up)) = length (sg_nodes sample_graph)" using map_eq_imp_length_eq [OF names(1)] .
  moreover have "sn_name (sg_nodes (co_graph sample_up) ! i) = sn_name (sg_nodes sample_graph ! i)"
    "sn_idx (sg_nodes (co_graph sample_up) ! i) = sn_idx (sg_nodes sample_graph ! i)"
    "sn_deps (sg_nodes (co_graph sample_up) ! i) = sn_deps (sg_nodes sample_graph ! i)"
    "sn_dependents (sg_nodes (co_graph sample_up) ! i) = sn_dependents (sg_nodes sample_graph ! i)"
    if "i < length (sg_nodes sample_graph)" for i
    using that names calculation(2) by (metis nth_map)+
  ultimately show ?thesis using reach_graph_inv [OF sample_graph_reachable] unfolding graph_inv_def by (simp cong: conj_cong)
qed


text \<open>A termination signal before the boot ends in a crash: the signal listener runs from
  \<open>BaseInit\<close> on, but the channel the shutdown walk closes is made by \<open>StartServices\<close>. Before that,
  \<open>TerminateServices\<close> waits out the budget of every registered service (nobody relays their reports,
  so each is abandoned even if it terminates cleanly) and then closes a nil channel.\<close>

theorem early_signal_panics:
  assumes "graph_inv (co_graph c)" and "list_all fresh_node (sg_nodes (co_graph c))"
    and "co_shutdownDone c = NilChan" and "\<not> co_published c"
  shows "fst (TerminateServices terms c) \<and>
    list_all sn_abandoned (sg_nodes (co_graph (snd (TerminateServices terms c))))"
proof -
  let ?g = "co_graph c"
  obtain e p ns where w: "terminate_levels terms (levels ?g) (None, co_shutdownPanic c, sg_nodes ?g) = (e, p, ns)" by (metis surj_pair)
  note part = levels_partition [OF assms(1)]
  have "sn_abandoned (snd (terminateNode out n))" if "fresh_node n" for out n
    using that by (auto simp: terminateNode_def fresh_node_def Let_def split: term_end.splits)
  then have "list_all sn_abandoned ns"
    using terminate_levels_spec [OF w part(2)] assms(2) unfolding part(1) by (simp add: list_all_length)
  then show ?thesis using assms(3,4) w by (simp add: TerminateServices_def Let_def)
qed

theorem early_signal_panics_witness:
  "fst (TerminateServices (\<lambda>_. Reports None) (sample_core sample_graph))"
  using early_signal_panics [of "sample_core sample_graph" "\<lambda>_. Reports None"] reach_graph_inv [OF sample_graph_reachable]
    reach_graph_fresh [OF sample_graph_reachable] by (simp add: sample_core_def)

section \<open>Admission\<close>

text \<open>
  The operator's start, and the shutdown walk, as they interleave on one node: \<open>StartServiceNode\<close>
  calls \<open>Start\<close> and then, as a separate step, admits the node (\<open>True\<close>: the call returned nil and the
  admission is still to come).
\<close>

inductive node_op :: "ServiceNode \<Rightarrow> ServiceNode \<Rightarrow> bool" where
  op_start: "node_op n (snd (StartServiceNode out n))"
| op_stop: "node_op n (snd (StopServiceNode out n))"
| op_terminate: "node_op n (snd (terminateNode out n))"

inductive_cases node_opE: "node_op n n'"

inductive node_race :: "ServiceNode \<times> bool \<Rightarrow> ServiceNode \<times> bool \<Rightarrow> bool" where
  race_start_called: "startNode out n = (None, n1) \<Longrightarrow> node_race (n, False) (n1, True)"
| race_start_admits: "node_race (n, True) (n\<lparr>sn_admitted := True\<rparr>, False)"
| race_terminate: "node_race (n, b) (snd (terminateNode out n), b)"

text \<open>C40: Admission implies a running service as long as the framework's operations on a node do not
  overlap: from a fresh node, after any sequence of operator starts and stops and of terminations,
  whatever they return, a node that is admitted is RUNNING, so a handle never hands out a service
  that was not started, is stopped or is terminating.\<close>

theorem admitted_only_running:
  assumes "node_op\<^sup>*\<^sup>* n n'" and "fresh_node n"
  shows "sn_admitted n' \<longrightarrow> sn_phase n' = StateRUNNING"
  using assms(1)
proof (induction rule: rtranclp_induct)
  case base
  then show ?case using assms(2) by (simp add: fresh_node_def)
next
  case (step x y)
  show ?case using step(2,3) terminateNode_settles
    by (elim node_opE)
      (auto simp: StartServiceNode_def startNode_def StopServiceNode_def Let_def split: if_splits start_end.splits stop_end.splits)
qed

definition sample_node :: ServiceNode where
  "sample_node = sg_nodes sample_graph ! 0"

theorem admitted_only_running_witness:
  "sn_phase (snd (StartServiceNode StartOk sample_node)) = StateRUNNING"
proof -
  have "fresh_node sample_node" unfolding fresh_node_def by code_simp
  moreover have "node_op\<^sup>*\<^sup>* sample_node (snd (StartServiceNode StartOk sample_node))" by (intro r_into_rtranclp op_start)
  moreover have "sn_admitted (snd (StartServiceNode StartOk sample_node))" by code_simp
  ultimately show ?thesis using admitted_only_running by blast
qed

text \<open>When they do overlap the gate fails: an operator's start of a running service (a no-op that
  returns nil) whose admission lands after the shutdown walk has terminated the service leaves the
  node admitted with its service TERMINATING, and nothing revokes it again.\<close>

theorem operator_start_readmits_terminated:
  assumes "sn_phase n = StateRUNNING"
  shows "\<exists>n'. node_race\<^sup>*\<^sup>* (n, False) (n', False) \<and> sn_admitted n' \<and> sn_phase n' = StateTERMINATING"
proof -
  let ?t = "snd (terminateNode (Reports None) n)"
  have "node_race (n, False) (n, True)" using assms by (intro race_start_called [of StartOk]) (simp add: startNode_def)
  moreover have "node_race (n, True) (?t, True)" by (rule race_terminate)
  moreover have "node_race (?t, True) (?t\<lparr>sn_admitted := True\<rparr>, False)" by (rule race_start_admits)
  ultimately have "node_race\<^sup>*\<^sup>* (n, False) (?t\<lparr>sn_admitted := True\<rparr>, False)" by (meson converse_rtranclp_into_rtranclp r_into_rtranclp)
  then show ?thesis using terminateNode_settles [of "Reports None" n] by (intro exI [of _ "?t\<lparr>sn_admitted := True\<rparr>"]) simp
qed

theorem operator_start_readmits_terminated_witness:
  "\<exists>n'. node_race\<^sup>*\<^sup>* (snd (StartServiceNode StartOk sample_node), False) (n', False) \<and> sn_admitted n' \<and> sn_phase n' = StateTERMINATING"
proof -
  have "sn_phase (snd (StartServiceNode StartOk sample_node)) = StateRUNNING" by code_simp
  from operator_start_readmits_terminated [OF this] show ?thesis .
qed

end
