(* ===== verification/Errs.thy ===== *)
theory Errs
  imports Gwf_Prelude
begin

text \<open>
  \<open>gw/errs\<close>: the structured errors of the framework. A Go \<open>error\<close> value is a \<open>go_error\<close>: a
  \<open>*errs.Error\<close> (\<open>Structured\<close>) or any other error with its text and what its \<open>Unwrap\<close> gives
  (\<open>Plain\<close>, none, one or several errors). \<open>errors_AsType\<close> and \<open>errors_Is\<close> are the walks of the standard
  library over such a value; \<open>errors_Is\<close> is for a target that carries an \<open>*errs.Error\<close>, where
  pointer equality is subsumed by \<open>Is\<close>. The sentinels follow in the order of the source, then
  \<open>ErrorSet\<close>, whose map is a HOL map and whose nil arguments are \<open>None\<close>.

  The lemmas show that the wrapping functions keep the identity of a sentinel, that the sentinels
  of the framework are pairwise different for \<open>Is\<close>, and that \<open>Has\<close> is \<open>Is\<close> over the members.
\<close>

section \<open>Errors\<close>

datatype gw_Error = gw_Error (err_Name: string) (err_Message: string) (err_Code: int) (err_Cause: "go_error option")
  and go_error = Structured gw_Error | Plain string "go_error list"

fun error_text :: "go_error \<Rightarrow> string" where
  "error_text (Structured e) = err_Message e"
| "error_text (Plain txt _) = txt"

fun err_Unwrap :: "gw_Error \<Rightarrow> go_error option" where
  "err_Unwrap e = err_Cause e"

fun errors_AsType :: "go_error \<Rightarrow> gw_Error option" and first_AsType :: "go_error list \<Rightarrow> gw_Error option" where
  "errors_AsType (Structured e) = Some e"
| "errors_AsType (Plain _ ws) = first_AsType ws"
| "first_AsType [] = None"
| "first_AsType (w # ws) = (case errors_AsType w of Some e \<Rightarrow> Some e | None \<Rightarrow> first_AsType ws)"

definition err_Is :: "gw_Error \<Rightarrow> go_error \<Rightarrow> bool" where
  "err_Is e target = (case errors_AsType target of
      Some t \<Rightarrow> err_Code e = err_Code t \<and> err_Name e = err_Name t
    | None \<Rightarrow> False)"

definition IsSameCode :: "gw_Error \<Rightarrow> gw_Error \<Rightarrow> bool" where
  "IsSameCode e target \<longleftrightarrow> err_Code e = err_Code target"

definition WithDetail :: "gw_Error \<Rightarrow> string \<Rightarrow> gw_Error" where
  "WithDetail e detail = gw_Error (err_Name e) (err_Message e @ '': '' @ detail) (err_Code e) (err_Cause e)"

definition WithCause :: "gw_Error \<Rightarrow> go_error option \<Rightarrow> gw_Error" where
  "WithCause e err = gw_Error (err_Name e) (err_Message e) (err_Code e) err"

definition Wrap :: "gw_Error \<Rightarrow> go_error \<Rightarrow> gw_Error" where
  "Wrap e err = gw_Error (err_Name e) (err_Message e @ '': '' @ error_text err) (err_Code e) (Some err)"

definition AsStructured :: "go_error \<Rightarrow> gw_Error \<Rightarrow> gw_Error" where
  "AsStructured err fallback = (case errors_AsType err of Some e \<Rightarrow> e | None \<Rightarrow> Wrap fallback err)"

text \<open>\<open>errors.Is\<close> of the standard library: \<open>Is\<close> of every error of the tree, depth first.\<close>

fun errors_Is :: "go_error \<Rightarrow> go_error \<Rightarrow> bool" and any_Is :: "go_error list \<Rightarrow> go_error \<Rightarrow> bool" where
  "errors_Is (Structured (gw_Error n msg c cause)) target \<longleftrightarrow>
     err_Is (gw_Error n msg c cause) target \<or> (case cause of None \<Rightarrow> False | Some w \<Rightarrow> errors_Is w target)"
| "errors_Is (Plain _ ws) target \<longleftrightarrow> any_Is ws target"
| "any_Is [] target \<longleftrightarrow> False"
| "any_Is (w # ws) target \<longleftrightarrow> errors_Is w target \<or> any_Is ws target"

lemma errors_Is_Structured:
  "errors_Is (Structured e) target \<longleftrightarrow>
     err_Is e target \<or> (case err_Cause e of None \<Rightarrow> False | Some w \<Rightarrow> errors_Is w target)"
  by (cases e) simp

lemma err_Is_Structured [simp]:
  "err_Is e (Structured t) \<longleftrightarrow> err_Code e = err_Code t \<and> err_Name e = err_Name t"
  by (simp add: err_Is_def)

section \<open>Sentinels\<close>

definition sentinel :: "string \<Rightarrow> int \<Rightarrow> string \<Rightarrow> gw_Error" where
  "sentinel n c msg = gw_Error n msg c None"

definition ContentLengthTooLarge :: gw_Error where
  "ContentLengthTooLarge = sentinel ''ContentLengthTooLarge'' 1000 ''Content-Length header is too large''"

definition RequestBodyTooLarge :: gw_Error where
  "RequestBodyTooLarge = sentinel ''RequestBodyTooLarge'' 1001 ''request body too large''"

definition OriginNotAllowed :: gw_Error where
  "OriginNotAllowed = sentinel ''OriginNotAllowed'' 1010 ''request origin not allowed''"

definition ServiceUnavailable :: gw_Error where
  "ServiceUnavailable = sentinel ''ServiceUnavailable'' 1020 ''service unavailable''"

definition ActionLocked :: gw_Error where
  "ActionLocked = sentinel ''ActionLocked'' 1030 ''action locked by another request''"

definition InternalError :: gw_Error where
  "InternalError = sentinel ''InternalError'' 1050 ''internal server error''"

definition SessionServiceUnavailable :: gw_Error where
  "SessionServiceUnavailable = sentinel ''SessionServiceUnavailable'' 1100 ''session service unavailable''"

definition AccessTokenNotFound :: gw_Error where
  "AccessTokenNotFound = sentinel ''AccessTokenNotFound'' 1110 ''access token not found''"

definition RefreshTokenNotFound :: gw_Error where
  "RefreshTokenNotFound = sentinel ''RefreshTokenNotFound'' 1111 ''refresh token not found''"

definition InvalidAccessToken :: gw_Error where
  "InvalidAccessToken = sentinel ''InvalidAccessToken'' 1112 ''invalid access token''"

definition InvalidRefreshToken :: gw_Error where
  "InvalidRefreshToken = sentinel ''InvalidRefreshToken'' 1113 ''invalid refresh token''"

definition BearerSessionShapeMismatch :: gw_Error where
  "BearerSessionShapeMismatch = sentinel ''BearerSessionShapeMismatch'' 1114 ''bearer session shape mismatch''"

definition BearerSessionGroupNotAllowed :: gw_Error where
  "BearerSessionGroupNotAllowed = sentinel ''BearerSessionGroupNotAllowed'' 1115 ''bearer session group not allowed''"

definition BearerClientNotFound :: gw_Error where
  "BearerClientNotFound = sentinel ''BearerClientNotFound'' 1116 ''bearer client not found''"

definition BearerSessionNotFound :: gw_Error where
  "BearerSessionNotFound = sentinel ''BearerSessionNotFound'' 1117 ''bearer session not found''"

definition BearerUserClaimInvalid :: gw_Error where
  "BearerUserClaimInvalid = sentinel ''BearerUserClaimInvalid'' 1118 ''bearer user claim invalid''"

definition BearerSessionNotOwned :: gw_Error where
  "BearerSessionNotOwned = sentinel ''BearerSessionNotOwned'' 1119 ''bearer session not owned by client''"

definition CookieNotFound :: gw_Error where
  "CookieNotFound = sentinel ''CookieNotFound'' 1120 ''cookie not found''"

definition InvalidCookie :: gw_Error where
  "InvalidCookie = sentinel ''InvalidCookie'' 1121 ''invalid cookie''"

definition CookieSessionNotFound :: gw_Error where
  "CookieSessionNotFound = sentinel ''CookieSessionNotFound'' 1122 ''cookie session not found''"

definition CSRFTokenNotFound :: gw_Error where
  "CSRFTokenNotFound = sentinel ''CSRFTokenNotFound'' 1123 ''CSRF token not found''"

definition InvalidCSRFToken :: gw_Error where
  "InvalidCSRFToken = sentinel ''InvalidCSRFToken'' 1124 ''invalid CSRF token''"

definition InvalidFlowTicket :: gw_Error where
  "InvalidFlowTicket = sentinel ''InvalidFlowTicket'' 1300 ''invalid auth flow ticket''"

definition FlowTicketIssueFailed :: gw_Error where
  "FlowTicketIssueFailed = sentinel ''FlowTicketIssueFailed'' 1301 ''failed to issue auth flow ticket''"

definition AuthCodeNotFound :: gw_Error where
  "AuthCodeNotFound = sentinel ''AuthCodeNotFound'' 1302 ''authorization code not found''"

definition UserNotFound :: gw_Error where
  "UserNotFound = sentinel ''UserNotFound'' 1310 ''user not found''"

definition UserDisabled :: gw_Error where
  "UserDisabled = sentinel ''UserDisabled'' 1311 ''user disabled''"

definition AssertionNotFound :: gw_Error where
  "AssertionNotFound = sentinel ''AssertionNotFound'' 1320 ''assertion not found''"

definition InvalidAssertion :: gw_Error where
  "InvalidAssertion = sentinel ''InvalidAssertion'' 1321 ''invalid assertion''"

definition AssertionReplayed :: gw_Error where
  "AssertionReplayed = sentinel ''AssertionReplayed'' 1322 ''assertion replayed''"

definition AssertionClientUnknown :: gw_Error where
  "AssertionClientUnknown = sentinel ''AssertionClientUnknown'' 1323 ''assertion client unknown''"

definition AssertionReplayUnknown :: gw_Error where
  "AssertionReplayUnknown = sentinel ''AssertionReplayUnknown'' 1324 ''assertion replay state unknown''"

definition IDTokenInvalid :: gw_Error where
  "IDTokenInvalid = sentinel ''IDTokenInvalid'' 1330 ''invalid id_token''"

definition AuthCodeExchangeFailed :: gw_Error where
  "AuthCodeExchangeFailed = sentinel ''AuthCodeExchangeFailed'' 1331 ''authorization code exchange failed''"

definition IDPUnavailable :: gw_Error where
  "IDPUnavailable = sentinel ''IDPUnavailable'' 1332 ''identity provider unavailable''"

definition AuthClientMismatch :: gw_Error where
  "AuthClientMismatch = sentinel ''AuthClientMismatch'' 1333 ''auth client mismatch''"

definition InvalidCredentials :: gw_Error where
  "InvalidCredentials = sentinel ''InvalidCredentials'' 1340 ''invalid name or password''"

definition PasswordCheckBusy :: gw_Error where
  "PasswordCheckBusy = sentinel ''PasswordCheckBusy'' 1341 ''password check busy''"

definition InvalidLoginRequest :: gw_Error where
  "InvalidLoginRequest = sentinel ''InvalidLoginRequest'' 1342 ''invalid login request''"

definition JSONMarshalFailed :: gw_Error where
  "JSONMarshalFailed = sentinel ''JSONMarshalFailed'' 1400 ''failed to marshal JSON''"

definition JSONUnmarshalFailed :: gw_Error where
  "JSONUnmarshalFailed = sentinel ''JSONUnmarshalFailed'' 1401 ''failed to unmarshal JSON''"

definition DataMissingInContext :: gw_Error where
  "DataMissingInContext = sentinel ''DataMissingInContext'' 1500 ''data missing in context''"

definition InvalidAuthUID :: gw_Error where
  "InvalidAuthUID = sentinel ''InvalidAuthUID'' 1501 ''authenticated user ID missing from context''"

definition PermissionDenied :: gw_Error where
  "PermissionDenied = sentinel ''PermissionDenied'' 1510 ''permission denied''"

definition ResourceNotFound :: gw_Error where
  "ResourceNotFound = sentinel ''ResourceNotFound'' 1520 ''resource not found''"

definition ResourceAccessDenied :: gw_Error where
  "ResourceAccessDenied = sentinel ''ResourceAccessDenied'' 1521 ''resource access denied''"

definition ResourceUnavailable :: gw_Error where
  "ResourceUnavailable = sentinel ''ResourceUnavailable'' 1522 ''resource unavailable''"

definition RateLimited :: gw_Error where
  "RateLimited = sentinel ''RateLimited'' 1530 ''rate limited''"

definition KVDB :: gw_Error where
  "KVDB = sentinel ''KVDB'' 1600 ''kvdb error''"

definition SQLDB :: gw_Error where
  "SQLDB = sentinel ''SQLDB'' 1610 ''sql db error''"

definition SQLNotFoundInStore :: gw_Error where
  "SQLNotFoundInStore = sentinel ''SQLNotFoundInStore'' 1611 ''sql statement not found in store''"

definition RelBelongsToLinkFailed :: gw_Error where
  "RelBelongsToLinkFailed = sentinel ''RelBelongsToLinkFailed'' 1700 ''relation BelongsTo link failed''"

definition UpstreamAccessTokenNotFound :: gw_Error where
  "UpstreamAccessTokenNotFound = sentinel ''UpstreamAccessTokenNotFound'' 1800 ''upstream access token not found''"

definition UpstreamRefreshTokenNotFound :: gw_Error where
  "UpstreamRefreshTokenNotFound = sentinel ''UpstreamRefreshTokenNotFound'' 1801 ''upstream refresh token not found''"

definition InvalidUpstreamAccessToken :: gw_Error where
  "InvalidUpstreamAccessToken = sentinel ''InvalidUpstreamAccessToken'' 1802 ''invalid upstream access token''"

definition InvalidUpstreamRefreshToken :: gw_Error where
  "InvalidUpstreamRefreshToken = sentinel ''InvalidUpstreamRefreshToken'' 1803 ''invalid upstream refresh token''"

definition UpstreamTokenRefreshFailed :: gw_Error where
  "UpstreamTokenRefreshFailed = sentinel ''UpstreamTokenRefreshFailed'' 1804 ''upstream token refresh failed''"

definition Upstream :: gw_Error where
  "Upstream = sentinel ''Upstream'' 1810 ''upstream error''"

definition UpstreamUnavailable :: gw_Error where
  "UpstreamUnavailable = sentinel ''UpstreamUnavailable'' 1811 ''upstream unavailable''"

definition UpstreamRefreshSideloaderNotSet :: gw_Error where
  "UpstreamRefreshSideloaderNotSet = sentinel ''UpstreamRefreshSideloaderNotSet'' 1820 ''upstream refresh sideloader not configured''"

definition UpstreamTokenCipherNotSet :: gw_Error where
  "UpstreamTokenCipherNotSet = sentinel ''UpstreamTokenCipherNotSet'' 1830 ''upstream token cipher not configured''"

definition PDFBuildFailed :: gw_Error where
  "PDFBuildFailed = sentinel ''PDFBuildFailed'' 1900 ''failed to build PDF''"

definition framework_errors :: "gw_Error list" where
  "framework_errors =
    [ContentLengthTooLarge, RequestBodyTooLarge, OriginNotAllowed, ServiceUnavailable,
     ActionLocked, InternalError, SessionServiceUnavailable, AccessTokenNotFound,
     RefreshTokenNotFound, InvalidAccessToken, InvalidRefreshToken, BearerSessionShapeMismatch,
     BearerSessionGroupNotAllowed, BearerClientNotFound, BearerSessionNotFound, BearerUserClaimInvalid,
     BearerSessionNotOwned, CookieNotFound, InvalidCookie, CookieSessionNotFound,
     CSRFTokenNotFound, InvalidCSRFToken, InvalidFlowTicket, FlowTicketIssueFailed,
     AuthCodeNotFound, UserNotFound, UserDisabled, AssertionNotFound,
     InvalidAssertion, AssertionReplayed, AssertionClientUnknown, AssertionReplayUnknown,
     IDTokenInvalid, AuthCodeExchangeFailed, IDPUnavailable, AuthClientMismatch,
     InvalidCredentials, PasswordCheckBusy, InvalidLoginRequest, JSONMarshalFailed,
     JSONUnmarshalFailed, DataMissingInContext, InvalidAuthUID, PermissionDenied,
     ResourceNotFound, ResourceAccessDenied, ResourceUnavailable, RateLimited,
     KVDB, SQLDB, SQLNotFoundInStore, RelBelongsToLinkFailed,
     UpstreamAccessTokenNotFound, UpstreamRefreshTokenNotFound, InvalidUpstreamAccessToken, InvalidUpstreamRefreshToken,
     UpstreamTokenRefreshFailed, Upstream, UpstreamUnavailable, UpstreamRefreshSideloaderNotSet,
     UpstreamTokenCipherNotSet, PDFBuildFailed]"

lemmas sentinel_defs = sentinel_def framework_errors_def
  ContentLengthTooLarge_def RequestBodyTooLarge_def OriginNotAllowed_def ServiceUnavailable_def
  ActionLocked_def InternalError_def SessionServiceUnavailable_def AccessTokenNotFound_def
  RefreshTokenNotFound_def InvalidAccessToken_def InvalidRefreshToken_def BearerSessionShapeMismatch_def
  BearerSessionGroupNotAllowed_def BearerClientNotFound_def BearerSessionNotFound_def BearerUserClaimInvalid_def
  BearerSessionNotOwned_def CookieNotFound_def InvalidCookie_def CookieSessionNotFound_def
  CSRFTokenNotFound_def InvalidCSRFToken_def InvalidFlowTicket_def FlowTicketIssueFailed_def
  AuthCodeNotFound_def UserNotFound_def UserDisabled_def AssertionNotFound_def
  InvalidAssertion_def AssertionReplayed_def AssertionClientUnknown_def AssertionReplayUnknown_def
  IDTokenInvalid_def AuthCodeExchangeFailed_def IDPUnavailable_def AuthClientMismatch_def
  InvalidCredentials_def PasswordCheckBusy_def InvalidLoginRequest_def JSONMarshalFailed_def
  JSONUnmarshalFailed_def DataMissingInContext_def InvalidAuthUID_def PermissionDenied_def
  ResourceNotFound_def ResourceAccessDenied_def ResourceUnavailable_def RateLimited_def
  KVDB_def SQLDB_def SQLNotFoundInStore_def RelBelongsToLinkFailed_def
  UpstreamAccessTokenNotFound_def UpstreamRefreshTokenNotFound_def InvalidUpstreamAccessToken_def InvalidUpstreamRefreshToken_def
  UpstreamTokenRefreshFailed_def Upstream_def UpstreamUnavailable_def UpstreamRefreshSideloaderNotSet_def
  UpstreamTokenCipherNotSet_def PDFBuildFailed_def

section \<open>Error sets\<close>

record ErrorSet =
  set_codes :: "int \<rightharpoonup> gw_Error"

definition ErrorSet_Add :: "ErrorSet \<Rightarrow> gw_Error option \<Rightarrow> (string, ErrorSet) result" where
  "ErrorSet_Add s e = (case e of
      None \<Rightarrow> Inr s
    | Some e \<Rightarrow> (case set_codes s (err_Code e) of
          Some existing \<Rightarrow> Inl (''duplicate code '' @ Itoa (err_Code e) @ '' - '' @ err_Name existing @ '', '' @ err_Name e)
        | None \<Rightarrow> Inr (s\<lparr>set_codes := (set_codes s)(err_Code e \<mapsto> e)\<rparr>)))"

fun add_each :: "gw_Error option list \<Rightarrow> ErrorSet \<Rightarrow> (string, ErrorSet) result" where
  "add_each [] s = Inr s"
| "add_each (e # es) s = (case ErrorSet_Add s e of Inl err \<Rightarrow> Inl err | Inr s' \<Rightarrow> add_each es s')"

definition NewErrorSet :: "gw_Error option list \<Rightarrow> (string, ErrorSet) result" where
  "NewErrorSet es = add_each es \<lparr>set_codes = Map.empty\<rparr>"

definition ErrorSet_Del :: "ErrorSet \<Rightarrow> gw_Error option \<Rightarrow> ErrorSet" where
  "ErrorSet_Del s e = (case e of None \<Rightarrow> s | Some e \<Rightarrow> s\<lparr>set_codes := (set_codes s)(err_Code e := None)\<rparr>)"

definition ErrorSet_Clone :: "ErrorSet \<Rightarrow> ErrorSet" where
  "ErrorSet_Clone s = \<lparr>set_codes = set_codes s\<rparr>"

definition ErrorSet_Has :: "ErrorSet \<Rightarrow> gw_Error option \<Rightarrow> bool" where
  "ErrorSet_Has s e = (case e of
      None \<Rightarrow> False
    | Some e \<Rightarrow> (case set_codes s (err_Code e) of Some member \<Rightarrow> err_Name member = err_Name e | None \<Rightarrow> False))"

definition HasCode :: "ErrorSet \<Rightarrow> int \<Rightarrow> bool" where
  "HasCode s code \<longleftrightarrow> set_codes s code \<noteq> None"

section \<open>Identity\<close>

lemma wrapped_identity [simp]:
  "err_Name (WithDetail e d) = err_Name e" "err_Code (WithDetail e d) = err_Code e"
  "err_Name (WithCause e w) = err_Name e" "err_Code (WithCause e w) = err_Code e"
  "err_Name (Wrap e x) = err_Name e" "err_Code (Wrap e x) = err_Code e"
  by (simp_all add: WithDetail_def WithCause_def Wrap_def)

lemma err_Cause_wrapped [simp]:
  "err_Cause (WithDetail e d) = err_Cause e" "err_Cause (WithCause e w) = w" "err_Cause (Wrap e x) = Some x"
  by (simp_all add: WithDetail_def WithCause_def Wrap_def)

text \<open>The map of a set built without an error holds the members, each under its code.\<close>

lemma add_each_codes:
  "add_each es s = Inr s' \<Longrightarrow>
     set_codes s' c = Some e \<longleftrightarrow> set_codes s c = Some e \<or> Some e \<in> set es \<and> err_Code e = c"
proof (induction es arbitrary: s)
  case (Cons x es)
  then show ?case
    by (cases x) (auto simp: ErrorSet_Add_def split: option.splits if_splits)
qed simp

lemma add_each_ok:
  "(\<exists>s'. add_each es s = Inr s') \<longleftrightarrow>
     distinct (map err_Code (List.map_filter id es)) \<and> (\<forall>e. Some e \<in> set es \<longrightarrow> set_codes s (err_Code e) = None)"
proof (induction es arbitrary: s)
  case (Cons x es)
  show ?case
  proof (cases x)
    case (Some e)
    have mem: "e' \<in> set (List.map_filter id es) \<longleftrightarrow> Some e' \<in> set es" for e'
      by (force simp: List.map_filter_def)
    show ?thesis
    proof (cases "set_codes s (err_Code e)")
      case None
      then have run: "add_each (x # es) s = add_each es (s\<lparr>set_codes := (set_codes s)(err_Code e \<mapsto> e)\<rparr>)"
        by (simp add: Some ErrorSet_Add_def)
      show ?thesis
        unfolding run unfolding Cons unfolding Some
        by (auto simp: List.map_filter_simps None id_def image_iff Bex_def mem [unfolded id_def] split: if_splits)
    qed (auto simp: Some ErrorSet_Add_def)
  qed (use Cons in \<open>auto simp: ErrorSet_Add_def List.map_filter_simps\<close>)
qed (simp add: List.map_filter_simps)

lemma framework_code_list:
  "map err_Code framework_errors =
    [1000, 1001, 1010, 1020, 1030, 1050, 1100, 1110, 1111, 1112, 1113, 1114, 1115, 1116,
     1117, 1118, 1119, 1120, 1121, 1122, 1123, 1124, 1300, 1301, 1302, 1310, 1311, 1320,
     1321, 1322, 1323, 1324, 1330, 1331, 1332, 1333, 1340, 1341, 1342, 1400, 1401, 1500,
     1501, 1510, 1520, 1521, 1522, 1530, 1600, 1610, 1611, 1700, 1800, 1801, 1802, 1803,
     1804, 1810, 1811, 1820, 1830, 1900]"
  unfolding sentinel_defs list.map gw_Error.sel ..

lemma framework_codes: "distinct (map err_Code framework_errors)"
  unfolding framework_code_list by simp

text \<open>
  A set of errors answers the question \<open>errors.Is\<close> answers. Building it fails exactly when two
  members share a code; a set that was built has an error iff some member \<open>Is\<close> that error, also
  after the error was wrapped with a detail, a cause or another error; and the set of all the
  sentinels of the framework can be built, no two of them being the same error.
\<close>

theorem errorset_agrees_with_Is:
  "((\<exists>s. NewErrorSet es = Inr s) \<longleftrightarrow> distinct (map err_Code (List.map_filter id es))) \<and>
   (NewErrorSet es = Inr s \<longrightarrow> ErrorSet_Has s (Some e) = (\<exists>m. Some m \<in> set es \<and> err_Is m (Structured e))) \<and>
   ErrorSet_Has s (Some (WithDetail e d)) = ErrorSet_Has s (Some e) \<and>
   ErrorSet_Has s (Some (WithCause e w)) = ErrorSet_Has s (Some e) \<and>
   ErrorSet_Has s (Some (Wrap e x)) = ErrorSet_Has s (Some e) \<and>
   (\<exists>s. NewErrorSet (map Some framework_errors) = Inr s) \<and>
   (i < length framework_errors \<longrightarrow> j < length framework_errors \<longrightarrow>
     err_Is (framework_errors ! i) (Structured (framework_errors ! j)) = (i = j))"
proof (intro conjI impI)
  show ok: "(\<exists>s. NewErrorSet es = Inr s) \<longleftrightarrow> distinct (map err_Code (List.map_filter id es))" for es
    unfolding NewErrorSet_def add_each_ok by simp
  have [simp]: "List.map_filter id (map Some xs) = xs" for xs :: "gw_Error list"
    by (induction xs) (simp_all add: List.map_filter_simps)
  show "\<exists>s. NewErrorSet (map Some framework_errors) = Inr s"
    unfolding ok by (simp add: framework_codes)
  show "ErrorSet_Has s (Some e) \<longleftrightarrow> (\<exists>m. Some m \<in> set es \<and> err_Is m (Structured e))"
    if "NewErrorSet es = Inr s"
  proof -
    have m: "set_codes s c = Some m \<longleftrightarrow> Some m \<in> set es \<and> err_Code m = c" for c m
      using add_each_codes that unfolding NewErrorSet_def by fastforce
    show ?thesis using m by (auto simp: ErrorSet_Has_def split: option.splits) (metis option.distinct(1) option.inject)+
  qed
  show "err_Is (framework_errors ! i) (Structured (framework_errors ! j)) \<longleftrightarrow> i = j"
    if "i < length framework_errors" "j < length framework_errors"
    using nth_eq_iff_index_eq [OF framework_codes, of i j] that by auto
qed (simp_all add: ErrorSet_Has_def cong: option.case_cong)

theorem errorset_agrees_with_Is_witness:
  "\<exists>s. NewErrorSet [Some KVDB, None, Some SQLDB] = Inr s \<and> ErrorSet_Has s (Some (WithDetail KVDB ''get'')) \<and>
     \<not> ErrorSet_Has s (Some Upstream) \<and> \<not> err_Is KVDB (Structured SQLDB)"
proof -
  have sel: "err_Code KVDB = 1600" "err_Code SQLDB = 1610" "err_Code Upstream = 1810"
    by (simp_all add: KVDB_def SQLDB_def Upstream_def sentinel_def)
  note at = errorset_agrees_with_Is [of "[Some KVDB, None, Some SQLDB]"]
  have "\<exists>s. NewErrorSet [Some KVDB, None, Some SQLDB] = Inr s"
    using at [THEN conjunct1] by (simp add: List.map_filter_simps sel)
  then obtain s where s: "NewErrorSet [Some KVDB, None, Some SQLDB] = Inr s" ..
  have "ErrorSet_Has s (Some e) = (\<exists>m. Some m \<in> set [Some KVDB, None, Some SQLDB] \<and> err_Is m (Structured e))" for e
    using at [of s e] s by blast
  then show ?thesis using s by (auto simp: sel)
qed

end
