(* ===== verification/Web_Http.thy ===== *)
theory Web_Http
  imports Errs
begin

text \<open>
  What the HTTP handlers share: the values they encode as JSON, an answer as its status and body
  (\<open>gw/web/responses/json.go\<close>; the \<open>http.ResponseWriter\<close> is the answer a handler returns), and
  the verified caller a gate leaves in the request context (\<open>gw/authn\<close>). An answer is written once per request, so
  the handlers return it.
\<close>

datatype json = JString string | JInt int | JBool bool | JObject "(string \<times> json) list"

record http_response =
  rs_status :: int
  rs_body :: json

definition StatusOK :: int where "StatusOK = 200"
definition StatusBadRequest :: int where "StatusBadRequest = 400"
definition StatusUnauthorized :: int where "StatusUnauthorized = 401"
definition StatusForbidden :: int where "StatusForbidden = 403"
definition StatusInternalServerError :: int where "StatusInternalServerError = 500"

lemmas status_defs = StatusOK_def StatusBadRequest_def StatusUnauthorized_def StatusForbidden_def
  StatusInternalServerError_def

definition EncodeWriteJSON :: "int \<Rightarrow> json \<Rightarrow> http_response" where
  "EncodeWriteJSON code payload = \<lparr>rs_status = code, rs_body = payload\<rparr>"

definition error_json :: "gw_Error \<Rightarrow> json" where
  "error_json e = JObject [(''name'', JString (err_Name e)), (''message'', JString (err_Message e)), (''code'', JInt (err_Code e))]"

definition WriteErrorJSON :: "int \<Rightarrow> gw_Error \<Rightarrow> http_response" where
  "WriteErrorJSON code resErr = EncodeWriteJSON code (error_json resErr)"

definition WriteSimpleErrorJSON :: "int \<Rightarrow> string \<Rightarrow> http_response" where
  "WriteSimpleErrorJSON code msg = EncodeWriteJSON code (error_json (gw_Error [] msg 0 None))"

text \<open>A handler's answer names a sentinel when it carries that sentinel's name and code.\<close>

definition answers_error :: "http_response \<Rightarrow> int \<Rightarrow> gw_Error \<Rightarrow> bool" where
  "answers_error r code e \<longleftrightarrow> rs_status r = code \<and>
     (\<exists>msg. rs_body r = JObject [(''name'', JString (err_Name e)), (''message'', JString msg), (''code'', JInt (err_Code e))])"

lemma answers_error_write [simp]:
  "answers_error (WriteErrorJSON code e) code' e' \<longleftrightarrow> code = code' \<and> err_Name e = err_Name e' \<and> err_Code e = err_Code e'"
  by (auto simp: answers_error_def WriteErrorJSON_def EncodeWriteJSON_def error_json_def)

record VerifiedIdentity =
  id_Method :: string
  id_Subject :: string
  id_Claims :: "string \<rightharpoonup> json"

end
