(* ===== verification/Bearer_Sessions.thy ===== *)
theory Bearer_Sessions
  imports Web_Http KVDB_Redis_Correct
begin

text \<open>
  \<open>gw/web/session/bearer\<close> and \<open>gw/web/session/caplist\<close>: bearer sessions over a key-value database.
  A session is an umbrella row (a hash) and two token rows pointing to it; a refresh
  rotates the tokens in one conditional write. The manager's calls take the database world and
  return it. The SHA-256 hash is the parameter \<open>H\<close>; the generated ids and tokens and the second
  the code reads from the clock are arguments of the calls that draw them. The locking manager
  and the upstream hub are opaque here (\<open>'lk\<close>, \<open>'up\<close>): no call of this theory uses them.
\<close>

section \<open>Configuration\<close>

record SessionCapConf =
  cap_Max :: int
  cap_By :: "string list"

text \<open>\<open>Clients\<close> is what the JSON file gives: client name and id (\<open>None\<close> for a null entry), in the order the map is walked.\<close>

record SessionGroupConf =
  grp_Name :: string
  grp_Binds :: "string list"
  grp_Cap :: "SessionCapConf option"
  grp_AccessTTL :: int
  grp_RefreshTTL :: int
  grp_RefreshChainTTL :: int
  grp_Clients :: "(string \<times> string option) list"

record SessionClientConf =
  cli_Name :: string
  cli_ID :: string
  cli_Group :: SessionGroupConf

record SessionRow =
  row_UID :: string
  row_ClientID :: string
  row_GroupName :: string
  row_AccessTokenHash :: string
  row_RefreshTokenHash :: string
  row_RefreshChainStartAt :: int

record ('st, 'lk, 'up) SessionManager =
  sm_ClientConfs :: "string \<rightharpoonup> SessionClientConf"
  sm_GroupConfs :: "string \<rightharpoonup> SessionGroupConf"
  sm_FWUpstream :: "'up option"
  sm_appName :: string
  sm_KVDB :: "'st kvdb"
  sm_lockingManager :: 'lk
  sm_enabled :: bool

definition NewSessionManager ::
    "string \<Rightarrow> 'st kvdb option \<Rightarrow> 'lk option \<Rightarrow> (string, ('st, 'lk, 'up) SessionManager) result" where
  "NewSessionManager appName kvdb lockingManager =
     (if appName = [] then Inl ''bearer.NewSessionManager: appName required''
      else case kvdb of
        None \<Rightarrow> Inl ''bearer.NewSessionManager: kvdb required''
      | Some db \<Rightarrow> (case lockingManager of
            None \<Rightarrow> Inl ''bearer.NewSessionManager: lockingManager required''
          | Some lk \<Rightarrow> Inr \<lparr>sm_ClientConfs = Map.empty, sm_GroupConfs = Map.empty, sm_FWUpstream = None,
              sm_appName = appName, sm_KVDB = db, sm_lockingManager = lk, sm_enabled = False\<rparr>))"

definition sm_Enable :: "('st, 'lk, 'up) SessionManager \<Rightarrow> ('st, 'lk, 'up) SessionManager" where
  "sm_Enable m = m\<lparr>sm_enabled := True\<rparr>"

definition sm_Disable :: "('st, 'lk, 'up) SessionManager \<Rightarrow> ('st, 'lk, 'up) SessionManager" where
  "sm_Disable m = m\<lparr>sm_enabled := False\<rparr>"

section \<open>Row keys\<close>

definition SessionRowKey :: "string \<Rightarrow> string \<Rightarrow> string" where
  "SessionRowKey app sessionID = app @ '':b:'' @ sessionID"

definition AccessTokenRowKey :: "string \<Rightarrow> string \<Rightarrow> string" where
  "AccessTokenRowKey app tokenHash = app @ '':bat:'' @ tokenHash"

definition RefreshTokenRowKey :: "string \<Rightarrow> string \<Rightarrow> string" where
  "RefreshTokenRowKey app tokenHash = app @ '':brt:'' @ tokenHash"

definition lenPrefixedSize :: "string \<Rightarrow> int" where
  "lenPrefixedSize s = 1 + int (length (Itoa (int (length s)))) + 1 + int (length s)"

definition writeLenPrefixed :: "string \<Rightarrow> string \<Rightarrow> string" where
  "writeLenPrefixed b s = b @ '':'' @ Itoa (int (length s)) @ '':'' @ s"

definition CapBucketRowKey :: "string \<Rightarrow> string \<Rightarrow> string list \<Rightarrow> string" where
  "CapBucketRowKey app groupName bindValues =
     fold (\<lambda>v b. writeLenPrefixed b v) bindValues (writeLenPrefixed (app @ '':bcl'') groupName)"

text \<open>The capacity the builder reserves.\<close>

definition capBucketSize :: "string \<Rightarrow> string \<Rightarrow> string list \<Rightarrow> int" where
  "capBucketSize app groupName bindValues =
     fold (\<lambda>v n. n + lenPrefixedSize v) bindValues (int (length app) + 4 + lenPrefixedSize groupName)"

section \<open>Sessions\<close>

text \<open>\<open>v, _ := strconv.ParseInt(s, 10, 64)\<close>: 0 for text that is no number, the nearest \<open>int64\<close> for one out of range.\<close>

definition ParseInt_value :: "string \<Rightarrow> int" where
  "ParseInt_value s =
     (let neg = (s \<noteq> [] \<and> hd s = CHR ''-'');
          body = (if s \<noteq> [] \<and> (hd s = CHR ''-'' \<or> hd s = CHR ''+'') then tl s else s)
      in case ParseUint10 body of
           None \<Rightarrow> 0
         | Some n \<Rightarrow> max (- (2 ^ 63)) (min (2 ^ 63 - 1) (if neg then - int n else int n)))"

definition at_key :: "(string \<rightharpoonup> string) \<Rightarrow> string \<Rightarrow> string" where
  "at_key m k = (case m k of Some v \<Rightarrow> v | None \<Rightarrow> [])"

definition seconds :: "int \<Rightarrow> duration" where
  "seconds n = i64 (n * time_Second)"

text \<open>The lookup of a label that is neither user nor client adds nothing to the bucket.\<close>

definition row_bind :: "SessionRow \<Rightarrow> string \<Rightarrow> string option" where
  "row_bind row label =
     (if label = ''user'' then Some (row_UID row) else if label = ''client'' then Some (row_ClientID row) else None)"

definition row_bucket :: "string \<Rightarrow> SessionGroupConf \<Rightarrow> SessionCapConf \<Rightarrow> SessionRow \<Rightarrow> string" where
  "row_bucket app grp cap row = CapBucketRowKey app (grp_Name grp) (List.map_filter (row_bind row) (cap_By cap))"

definition SessionRowExists :: "('st, 'lk, 'up) SessionManager \<Rightarrow> string \<Rightarrow> ('st, bool) io" where
  "SessionRowExists m sessionID = Exists (sm_KVDB m) (SessionRowKey (sm_appName m) sessionID)"

definition PushEvictOverCap ::
    "'st kvdb \<Rightarrow> string \<Rightarrow> string \<Rightarrow> int \<Rightarrow> duration \<Rightarrow> string \<Rightarrow> ('st, unit) io" where
  "PushEvictOverCap kvdb listKey sid capMax keyTTL rowKeyPrefix st =
     (case ListPushTrimOverCap kvdb listKey sid capMax keyTTL st of
        (Inl err, st1) \<Rightarrow> (Inl err, st1)
      | (Inr evicted, st1) \<Rightarrow>
          (if evicted = [] then (Inr (), st1)
           else (Inr (), snd (Delete kvdb (map (\<lambda>e. rowKeyPrefix @ e) evicted) st1))))"

definition umbrella_fields :: "(string \<Rightarrow> string) \<Rightarrow> SessionGroupConf \<Rightarrow> (string \<rightharpoonup> string) \<Rightarrow> string \<Rightarrow> string \<Rightarrow> int \<Rightarrow>
    (string \<times> string) list" where
  "umbrella_fields H grp bindValues accessToken refreshToken now =
     [(''uid'', at_key bindValues ''user''), (''cid'', at_key bindValues ''client''), (''grp'', grp_Name grp),
      (''ath'', H accessToken), (''rth'', H refreshToken), (''rcs'', Itoa now)]"

definition cap_bucket :: "string \<Rightarrow> SessionGroupConf \<Rightarrow> SessionCapConf \<Rightarrow> (string \<rightharpoonup> string) \<Rightarrow> string" where
  "cap_bucket app grp cap bindValues = CapBucketRowKey app (grp_Name grp) (map (at_key bindValues) (cap_By cap))"

definition CreateSession ::
    "(string \<Rightarrow> string) \<Rightarrow> ('st, 'lk, 'up) SessionManager \<Rightarrow> int \<Rightarrow> string \<Rightarrow> string \<Rightarrow> string \<Rightarrow> SessionGroupConf \<Rightarrow>
     (string \<rightharpoonup> string) \<Rightarrow> ('st, string \<times> string \<times> string) io" where
  "CreateSession H m now sessionID accessToken refreshToken grp bindValues st =
     (let app = sm_appName m; db = sm_KVDB m;
          accessTTL = seconds (grp_AccessTTL grp); refreshTTL = seconds (grp_RefreshTTL grp)
      in case HashSetFieldsWithKeyTTL db (SessionRowKey app sessionID)
               (umbrella_fields H grp bindValues accessToken refreshToken now) refreshTTL st of
           (Inl err, st1) \<Rightarrow> (Inl err, st1)
         | (Inr _, st1) \<Rightarrow>
      (case SetValue db (AccessTokenRowKey app (H accessToken)) sessionID accessTTL st1 of
           (Inl err, st2) \<Rightarrow> (Inl err, st2)
         | (Inr _, st2) \<Rightarrow>
      (case SetValue db (RefreshTokenRowKey app (H refreshToken)) sessionID refreshTTL st2 of
           (Inl err, st3) \<Rightarrow> (Inl err, st3)
         | (Inr _, st3) \<Rightarrow>
      (case grp_Cap grp of
           None \<Rightarrow> (Inr (sessionID, accessToken, refreshToken), st3)
         | Some cap \<Rightarrow>
      (case PushEvictOverCap db (cap_bucket app grp cap bindValues) sessionID (cap_Max cap) refreshTTL
               (SessionRowKey app []) st3 of
           (Inl err, st4) \<Rightarrow> (Inl err, st4)
         | (Inr _, st4) \<Rightarrow> (Inr (sessionID, accessToken, refreshToken), st4))))))"

definition session_fields :: "string list" where
  "session_fields = [''uid'', ''cid'', ''grp'', ''ath'', ''rth'', ''rcs'']"

text \<open>The fields asked for are the only ones in the answer, so it is empty when none of them is there.\<close>

definition row_of :: "(string \<rightharpoonup> string) \<Rightarrow> SessionRow option" where
  "row_of fvs =
     (if list_all (\<lambda>f. fvs f = None) session_fields then None
      else Some \<lparr>row_UID = at_key fvs ''uid'', row_ClientID = at_key fvs ''cid'', row_GroupName = at_key fvs ''grp'',
        row_AccessTokenHash = at_key fvs ''ath'', row_RefreshTokenHash = at_key fvs ''rth'',
        row_RefreshChainStartAt = ParseInt_value (at_key fvs ''rcs'')\<rparr>)"

definition FetchSession :: "('st, 'lk, 'up) SessionManager \<Rightarrow> string \<Rightarrow> ('st, SessionRow option) io" where
  "FetchSession m sessionID st =
     (case HashGetFields (sm_KVDB m) (SessionRowKey (sm_appName m) sessionID) session_fields st of
        (Inl err, st1) \<Rightarrow> (Inl err, st1)
      | (Inr fvs, st1) \<Rightarrow> (Inr (row_of fvs), st1))"

definition FetchSessionByAccessToken ::
    "(string \<Rightarrow> string) \<Rightarrow> ('st, 'lk, 'up) SessionManager \<Rightarrow> string \<Rightarrow> ('st, SessionRow option) io" where
  "FetchSessionByAccessToken H m rawToken st =
     (case GetValue (sm_KVDB m) (AccessTokenRowKey (sm_appName m) (H rawToken)) st of
        (Inl err, st1) \<Rightarrow> (Inl err, st1)
      | (Inr None, st1) \<Rightarrow> (Inr None, st1)
      | (Inr (Some sid), st1) \<Rightarrow> FetchSession m sid st1)"

definition FetchSessionByRefreshToken ::
    "(string \<Rightarrow> string) \<Rightarrow> ('st, 'lk, 'up) SessionManager \<Rightarrow> string \<Rightarrow> ('st, SessionRow option) io" where
  "FetchSessionByRefreshToken H m rawToken st =
     (case GetValue (sm_KVDB m) (RefreshTokenRowKey (sm_appName m) (H rawToken)) st of
        (Inl err, st1) \<Rightarrow> (Inl err, st1)
      | (Inr None, st1) \<Rightarrow> (Inr None, st1)
      | (Inr (Some sid), st1) \<Rightarrow> FetchSession m sid st1)"

definition DestroySession :: "('st, 'lk, 'up) SessionManager \<Rightarrow> string \<Rightarrow> ('st, unit) io" where
  "DestroySession m sid st =
     (case FetchSession m sid st of
        (Inl err, st1) \<Rightarrow> (Inl err, st1)
      | (Inr None, st1) \<Rightarrow> (Inr (), st1)
      | (Inr (Some row), st1) \<Rightarrow>
          (let app = sm_appName m; db = sm_KVDB m;
               keysToDelete = [SessionRowKey app sid, AccessTokenRowKey app (row_AccessTokenHash row),
                               RefreshTokenRowKey app (row_RefreshTokenHash row)];
               st2 = (case sm_ClientConfs m (row_ClientID row) of
                        None \<Rightarrow> st1
                      | Some clientConf \<Rightarrow> (case grp_Cap (cli_Group clientConf) of
                            None \<Rightarrow> st1
                          | Some cap \<Rightarrow> snd (ListRemove db (row_bucket app (cli_Group clientConf) cap row) 0 sid st1)))
           in (Inr (), snd (Delete db keysToDelete st2))))"

text \<open>The error of a driver call as the cause of a structured error.\<close>

definition kv_cause :: "kv_error \<Rightarrow> go_error" where
  "kv_cause e = Plain (case e of
      NegativeLifetime \<Rightarrow> ''negative lifetime'' | SpansNothing \<Rightarrow> ''lifetime spans nothing'' | BadCap \<Rightarrow> ''bad cap''
    | WrongType \<Rightarrow> ''wrong type'' | NotInteger \<Rightarrow> ''not an integer'' | BadArguments \<Rightarrow> ''bad arguments''
    | Unreachable \<Rightarrow> ''unreachable'') []"

definition kvdb_failed :: "string \<Rightarrow> kv_error \<Rightarrow> gw_Error" where
  "kvdb_failed detail err = WithCause (WithDetail KVDB detail) (Some (kv_cause err))"

text \<open>STEP 5 and what follows it: the rotation, and the clean-up on either outcome.\<close>

definition rotate ::
    "(string \<Rightarrow> string) \<Rightarrow> ('st, 'lk, 'up) SessionManager \<Rightarrow> string \<Rightarrow> SessionRow \<Rightarrow> SessionGroupConf \<Rightarrow> string \<Rightarrow> string \<Rightarrow>
     string \<Rightarrow> 'st \<Rightarrow> (gw_Error, string \<times> string) result \<times> 'st" where
  "rotate H m sid row grp refreshHash newAccess newRefresh st =
     (let app = sm_appName m; db = sm_KVDB m; refreshTTL = seconds (grp_RefreshTTL grp)
      in case HashSetFieldsWithKeyTTLIfFieldEquals db (SessionRowKey app sid) ''rth'' refreshHash
               [(''ath'', H newAccess), (''rth'', H newRefresh)] refreshTTL st of
           (Inl err, st1) \<Rightarrow> (Inl (kvdb_failed ''rotating umbrella row'' err), st1)
         | (Inr False, st1) \<Rightarrow>
             (let st2 = snd (Delete db [AccessTokenRowKey app (H newAccess), RefreshTokenRowKey app (H newRefresh)] st1);
                  (ex, st3) = Exists db (SessionRowKey app sid) st2
              in (Inl (if ex = Inr True then WithDetail InvalidRefreshToken ''refresh token mismatch''
                       else BearerSessionNotFound), st3))
         | (Inr True, st1) \<Rightarrow>
             (let st2 = snd (Delete db [AccessTokenRowKey app (row_AccessTokenHash row),
                                        RefreshTokenRowKey app (row_RefreshTokenHash row)] st1);
                  st3 = (case grp_Cap grp of
                           None \<Rightarrow> st2
                         | Some cap \<Rightarrow> snd (Expire db (row_bucket app grp cap row) refreshTTL st2))
              in (Inr (newAccess, newRefresh), st3)))"

definition ExtendSession ::
    "(string \<Rightarrow> string) \<Rightarrow> ('st, 'lk, 'up) SessionManager \<Rightarrow> int \<Rightarrow> string \<Rightarrow> string \<Rightarrow> string \<Rightarrow>
     'st \<Rightarrow> (gw_Error, string \<times> string) result \<times> 'st" where
  "ExtendSession H m now newAccess newRefresh refreshToken st =
     (let app = sm_appName m; db = sm_KVDB m; refreshHash = H refreshToken
      in case GetValue db (RefreshTokenRowKey app refreshHash) st of
           (Inl err, st1) \<Rightarrow> (Inl (kvdb_failed ''fetching refresh token row'' err), st1)
         | (Inr None, st1) \<Rightarrow> (Inl RefreshTokenNotFound, st1)
         | (Inr (Some sid), st1) \<Rightarrow>
      (case FetchSession m sid st1 of
           (Inl err, st2) \<Rightarrow> (Inl (kvdb_failed ''fetching session row'' err), st2)
         | (Inr None, st2) \<Rightarrow> (Inl BearerSessionNotFound, st2)
         | (Inr (Some row), st2) \<Rightarrow>
      (case sm_ClientConfs m (row_ClientID row) of
           None \<Rightarrow> (Inl (WithDetail InvalidRefreshToken ''unknown client_id''), st2)
         | Some clientConf \<Rightarrow>
      (let grp = cli_Group clientConf
       in if grp_RefreshChainTTL grp > 0 \<and> i64 (now - row_RefreshChainStartAt row) > grp_RefreshChainTTL grp then
            (Inl (WithDetail InvalidRefreshToken ''refresh chain ttl exceeded''), snd (DestroySession m sid st2))
          else if refreshHash \<noteq> row_RefreshTokenHash row then
            (Inl (WithDetail InvalidRefreshToken ''refresh token mismatch''), st2)
          else
      (case SetValue db (AccessTokenRowKey app (H newAccess)) sid (seconds (grp_AccessTTL grp)) st2 of
           (Inl err, st3) \<Rightarrow> (Inl (kvdb_failed ''writing new access token row'' err), st3)
         | (Inr _, st3) \<Rightarrow>
      (case SetValue db (RefreshTokenRowKey app (H newRefresh)) sid (seconds (grp_RefreshTTL grp)) st3 of
           (Inl err, st4) \<Rightarrow> (Inl (kvdb_failed ''writing new refresh token row'' err), st4)
         | (Inr _, st4) \<Rightarrow> rotate H m sid row grp refreshHash newAccess newRefresh st4))))))"

section \<open>Handlers\<close>

text \<open>
  A handler sees the verified caller in the request context (\<open>None\<close> when no gate placed one) and
  the request body as \<open>json.UnmarshalRead\<close> decodes it, the error on the left.
\<close>

definition TokenRevokeHandler ::
    "(string \<Rightarrow> string) \<Rightarrow> ('st, 'lk, 'up) SessionManager \<Rightarrow> VerifiedIdentity option \<Rightarrow> (go_error, string) result \<Rightarrow>
     'st \<Rightarrow> http_response \<times> 'st" where
  "TokenRevokeHandler H m who body st =
     (case who of
        None \<Rightarrow> (WriteErrorJSON StatusInternalServerError (WithDetail DataMissingInContext ''VerifiedIdentity''), st)
      | Some caller \<Rightarrow>
     (case body of
        Inl err \<Rightarrow> (WriteErrorJSON StatusBadRequest (WithCause JSONUnmarshalFailed (Some err)), st)
      | Inr accessToken \<Rightarrow>
     (if accessToken = [] then
        (WriteErrorJSON StatusBadRequest (WithDetail AccessTokenNotFound ''access_token required in body''), st)
      else
     (case GetValue (sm_KVDB m) (AccessTokenRowKey (sm_appName m) (H accessToken)) st of
        (Inl err, st1) \<Rightarrow> (WriteErrorJSON StatusInternalServerError (kvdb_failed ''session lookup failed'' err), st1)
      | (Inr None, st1) \<Rightarrow> (EncodeWriteJSON StatusOK (JObject [(''revoked'', JBool False)]), st1)
      | (Inr (Some sid), st1) \<Rightarrow>
     (case FetchSession m sid st1 of
        (Inl err, st2) \<Rightarrow> (WriteErrorJSON StatusInternalServerError (kvdb_failed ''session lookup failed'' err), st2)
      | (Inr None, st2) \<Rightarrow> (EncodeWriteJSON StatusOK (JObject [(''revoked'', JBool False)]), st2)
      | (Inr (Some row), st2) \<Rightarrow>
     (if row_ClientID row \<noteq> id_Subject caller then (WriteErrorJSON StatusForbidden BearerSessionNotOwned, st2)
      else
     (case DestroySession m sid st2 of
        (Inl err, st3) \<Rightarrow> (WriteErrorJSON StatusInternalServerError (kvdb_failed ''failed to destroy session'' err), st3)
      | (Inr _, st3) \<Rightarrow> (EncodeWriteJSON StatusOK (JObject [(''revoked'', JBool True)]), st3))))))))"

definition RefreshAccessTokenHandler ::
    "(string \<Rightarrow> string) \<Rightarrow> ('st, 'lk, 'up) SessionManager \<Rightarrow> int \<Rightarrow> string \<Rightarrow> string \<Rightarrow> (go_error, string) result \<Rightarrow>
     'st \<Rightarrow> http_response \<times> 'st" where
  "RefreshAccessTokenHandler H m now newAccess newRefresh body st =
     (case body of
        Inl err \<Rightarrow> (WriteErrorJSON StatusBadRequest (WithCause JSONUnmarshalFailed (Some err)), st)
      | Inr refreshToken \<Rightarrow>
     (case ExtendSession H m now newAccess newRefresh refreshToken st of
        (Inl extErr, st1) \<Rightarrow> (WriteErrorJSON StatusUnauthorized extErr, st1)
      | (Inr (newAccessToken, newRefreshToken), st1) \<Rightarrow>
          (EncodeWriteJSON StatusOK
             (JObject [(''access_token'', JString newAccessToken), (''refresh_token'', JString newRefreshToken)]), st1)))"

definition bindsUser :: "SessionGroupConf \<Rightarrow> bool" where
  "bindsUser grp = (let (client, user) = fold (\<lambda>b (c, u).
       if b = ''client'' then (True, u) else if b = ''user'' then (c, True) else (c, u)) (grp_Binds grp) (False, False)
     in client \<and> user)"

record UserTokenExchangeConf =
  ute_UserClaim :: string
  ute_ParseUser :: "json \<Rightarrow> (go_error, string) result"
  ute_WithRefreshToken :: bool

definition claim_user :: "UserTokenExchangeConf \<Rightarrow> json \<Rightarrow> (gw_Error, string) result" where
  "claim_user h claim =
     (let refusal = WithDetail BearerUserClaimInvalid (ute_UserClaim h @ '' claim names no user'')
      in case ute_ParseUser h claim of
           Inl err \<Rightarrow> Inl (WithCause refusal (Some err))
         | Inr uid \<Rightarrow> if uid = [] then Inl (WithCause refusal None) else Inr uid)"

definition UserTokenExchangeHandler ::
    "UserTokenExchangeConf \<Rightarrow> (string \<Rightarrow> string) \<Rightarrow> ('st, 'lk, 'up) SessionManager \<Rightarrow> int \<Rightarrow> string \<Rightarrow> string \<Rightarrow> string \<Rightarrow>
     VerifiedIdentity option \<Rightarrow> 'st \<Rightarrow> http_response \<times> 'st" where
  "UserTokenExchangeHandler h H m now sid access refresh who st =
     (case who of
        None \<Rightarrow> (WriteErrorJSON StatusInternalServerError (WithDetail DataMissingInContext ''VerifiedIdentity''), st)
      | Some caller \<Rightarrow>
     (case id_Claims caller (ute_UserClaim h) of
        None \<Rightarrow> (WriteErrorJSON StatusBadRequest (WithDetail BearerUserClaimInvalid (ute_UserClaim h @ '' claim absent'')), st)
      | Some claim \<Rightarrow>
     (case claim_user h claim of
        Inl e \<Rightarrow> (WriteErrorJSON StatusBadRequest e, st)
      | Inr uid \<Rightarrow>
     (case sm_ClientConfs m (id_Subject caller) of
        None \<Rightarrow> (WriteErrorJSON StatusForbidden
                   (WithDetail BearerClientNotFound (''not a registered bearer client: '' @ id_Subject caller)), st)
      | Some clientConf \<Rightarrow>
     (let grp = cli_Group clientConf
      in if \<not> bindsUser grp then
           (WriteErrorJSON StatusForbidden
              (WithDetail BearerSessionShapeMismatch (''group '' @ grp_Name grp @ '' is not user-bound'')), st)
         else
     (case CreateSession H m now sid access refresh grp [''client'' \<mapsto> cli_ID clientConf, ''user'' \<mapsto> uid] st of
        (Inl err, st1) \<Rightarrow> (WriteErrorJSON StatusInternalServerError (kvdb_failed ''failed to create session'' err), st1)
      | (Inr (_, accessToken, refreshToken), st1) \<Rightarrow>
          (EncodeWriteJSON StatusOK (JObject
             ([(''access_token'', JString accessToken), (''expires_in'', JInt (grp_AccessTTL grp)), (''token_type'', JString ''bearer'')]
              @ (if ute_WithRefreshToken h then [(''refresh_token'', JString refreshToken)] else []))), st1)))))))"

section \<open>Boot: the configuration file\<close>

text \<open>
  \<open>PrepareBearerSessions\<close> (\<open>gw/framework/core_bearersession.go\<close>). The decoded file is the list of its groups in the
  order the map is walked, \<open>None\<close> for a null entry: reading a field of one is a nil dereference, \<open>NilDereference\<close>.
\<close>

datatype bearer_conf_error =
    SessionServiceNotReady
  | MainKVDBNotReady
  | ConfUnreadable
  | EmptyGroupName
  | DuplicateClientName string string string
  | DuplicateClientID string string string
  | BindsEmpty string
  | UnknownBind string string
  | BindsLackClient string
  | ClientsEmpty string
  | AccessTTLNotPositive string
  | RefreshTTLNotPositive string
  | RefreshChainTTLNotPositive string
  | RefreshTTLOverChain string
  | CapByEmpty string
  | CapByNotBound string string
  | ManagerRefused string
  | FWUpstreamNotPrepared
  | NilDereference

record conf_acc =
  ca_names :: "string \<rightharpoonup> string"
  ca_ids :: "string \<rightharpoonup> string"
  ca_confs :: "string \<rightharpoonup> SessionClientConf"

fun add_clients :: "SessionGroupConf \<Rightarrow> (string \<times> string option) list \<Rightarrow> conf_acc \<Rightarrow> (bearer_conf_error, conf_acc) result" where
  "add_clients grp [] acc = Inr acc"
| "add_clients grp ((clientName, client) # cs) acc =
     (case ca_names acc clientName of
        Some other \<Rightarrow> Inl (DuplicateClientName clientName other (grp_Name grp))
      | None \<Rightarrow>
     (case client of
        None \<Rightarrow> Inl NilDereference
      | Some cid \<Rightarrow>
     (case ca_ids acc cid of
        Some other \<Rightarrow> Inl (DuplicateClientID cid other (grp_Name grp))
      | None \<Rightarrow> add_clients grp cs
          \<lparr>ca_names = (ca_names acc)(clientName \<mapsto> grp_Name grp), ca_ids = (ca_ids acc)(cid \<mapsto> grp_Name grp),
           ca_confs = (ca_confs acc)(cid \<mapsto> \<lparr>cli_Name = clientName, cli_ID = cid, cli_Group = grp\<rparr>)\<rparr>)))"

definition validBearerBinds :: "string list" where
  "validBearerBinds = [''client'', ''user'']"

definition check_binds :: "SessionGroupConf \<Rightarrow> bearer_conf_error option" where
  "check_binds grp =
     (if grp_Binds grp = [] then Some (BindsEmpty (grp_Name grp))
      else case find (\<lambda>b. b \<notin> set validBearerBinds) (grp_Binds grp) of
        Some b \<Rightarrow> Some (UnknownBind (grp_Name grp) b)
      | None \<Rightarrow> if ''client'' \<notin> set (grp_Binds grp) then Some (BindsLackClient (grp_Name grp)) else None)"

definition check_ttls :: "SessionGroupConf \<Rightarrow> bearer_conf_error option" where
  "check_ttls grp =
     (if grp_AccessTTL grp \<le> 0 then Some (AccessTTLNotPositive (grp_Name grp))
      else if grp_RefreshTTL grp \<le> 0 then Some (RefreshTTLNotPositive (grp_Name grp))
      else if grp_RefreshChainTTL grp \<le> 0 then Some (RefreshChainTTLNotPositive (grp_Name grp))
      else if grp_RefreshTTL grp > grp_RefreshChainTTL grp then Some (RefreshTTLOverChain (grp_Name grp))
      else None)"

definition check_cap :: "SessionGroupConf \<Rightarrow> bearer_conf_error option" where
  "check_cap grp = (case grp_Cap grp of
      None \<Rightarrow> None
    | Some cap \<Rightarrow>
        if cap_Max cap > 0 then
          (if cap_By cap = [] then Some (CapByEmpty (grp_Name grp))
           else case find (\<lambda>axis. axis \<notin> set (grp_Binds grp)) (cap_By cap) of
             Some axis \<Rightarrow> Some (CapByNotBound (grp_Name grp) axis)
           | None \<Rightarrow> None)
        else None)"

fun load_groups :: "(string \<times> SessionGroupConf option) list \<Rightarrow> conf_acc \<Rightarrow> (bearer_conf_error, conf_acc) result" where
  "load_groups [] acc = Inr acc"
| "load_groups ((groupName, g) # gs) acc =
     (if groupName = [] then Inl EmptyGroupName
      else case g of
        None \<Rightarrow> Inl NilDereference
      | Some g \<Rightarrow>
     (let grp = g\<lparr>grp_Name := groupName\<rparr>
      in case add_clients grp (grp_Clients grp) acc of
           Inl err \<Rightarrow> Inl err
         | Inr acc' \<Rightarrow>
     (case check_binds grp of
        Some err \<Rightarrow> Inl err
      | None \<Rightarrow>
     (if grp_Clients grp = [] then Inl (ClientsEmpty groupName)
      else case check_ttls grp of
        Some err \<Rightarrow> Inl err
      | None \<Rightarrow>
     (case check_cap grp of
        Some err \<Rightarrow> Inl err
      | None \<Rightarrow> load_groups gs acc')))))"

definition group_confs :: "(string \<times> SessionGroupConf option) list \<Rightarrow> string \<rightharpoonup> SessionGroupConf" where
  "group_confs gs n = (case map_of gs n of Some (Some g) \<Rightarrow> Some (g\<lparr>grp_Name := n\<rparr>) | _ \<Rightarrow> None)"

definition PrepareBearerSessions ::
    "string \<Rightarrow> 'lk option option \<Rightarrow> 'st kvdb option \<Rightarrow> 'up option \<Rightarrow> (string \<times> SessionGroupConf option) list option \<Rightarrow> bool \<Rightarrow>
     (bearer_conf_error, ('st, 'lk, 'up) SessionManager) result" where
  "PrepareBearerSessions appName sessionService mainKVDB fwUpstream conf useFWUpstream =
     (case sessionService of
        None \<Rightarrow> Inl SessionServiceNotReady
      | Some lockingManager \<Rightarrow>
     (if Option.is_none mainKVDB then Inl MainKVDBNotReady
      else case conf of
        None \<Rightarrow> Inl ConfUnreadable
      | Some gs \<Rightarrow>
     (case load_groups gs \<lparr>ca_names = Map.empty, ca_ids = Map.empty, ca_confs = Map.empty\<rparr> of
        Inl err \<Rightarrow> Inl err
      | Inr acc \<Rightarrow>
     (case NewSessionManager appName mainKVDB lockingManager of
        Inl err \<Rightarrow> Inl (ManagerRefused err)
      | Inr mgr \<Rightarrow>
     (if useFWUpstream \<and> Option.is_none fwUpstream then Inl FWUpstreamNotPrepared
      else Inr (sm_Enable (mgr\<lparr>sm_ClientConfs := ca_confs acc, sm_GroupConfs := group_confs gs,
             sm_FWUpstream := (if useFWUpstream then fwUpstream else None)\<rparr>)))))))"

end
