(* ===== verification/Keyring.thy ===== *)
theory Keyring
  imports Gwf_Prelude
begin

text \<open>
  \<open>gw/security/keyring.go\<close>, \<open>ciphercontext.go\<close> and \<open>chacha20poly1305.go\<close>: values sealed at rest under the active key of
  a keyring, bound to where they live. Bytes are characters. The AEAD of \<open>golang.org/x/crypto\<close> is the
  pair of parameters \<open>Seal\<close>, \<open>Open\<close> with the law \<open>aead_ok\<close>, HKDF the parameter \<open>hkdf\<close>; the nonce is the argument of the
  call that draws it. Base64 of the standard library is defined here, with the round trip of its unpadded URL form.

  The lemmas show that contexts render to different bytes, that what was sealed opens again, also after a
  rotation, and what it would take for a value to open elsewhere.
\<close>

section \<open>Base64\<close>

definition b64_char :: "char \<Rightarrow> char \<Rightarrow> nat \<Rightarrow> char" where
  "b64_char c62 c63 v =
     (if v < 26 then char_of (65 + v) else if v < 52 then char_of (97 + (v - 26)) else if v < 62 then char_of (48 + (v - 52))
      else if v = 62 then c62 else c63)"

definition b64_val :: "char \<Rightarrow> char \<Rightarrow> char \<Rightarrow> nat option" where
  "b64_val c62 c63 c =
     (let k = of_char c :: nat
      in if 65 \<le> k \<and> k \<le> 90 then Some (k - 65) else if 97 \<le> k \<and> k \<le> 122 then Some (k - 97 + 26)
         else if 48 \<le> k \<and> k \<le> 57 then Some (k - 48 + 52) else if c = c62 then Some 62 else if c = c63 then Some 63 else None)"

fun b64_sextets :: "nat list \<Rightarrow> nat list" where
  "b64_sextets (a # b # c # r) = a div 4 # (a mod 4 * 16 + b div 16) # (b mod 16 * 4 + c div 64) # c mod 64 # b64_sextets r"
| "b64_sextets [a, b] = [a div 4, a mod 4 * 16 + b div 16, b mod 16 * 4]"
| "b64_sextets [a] = [a div 4, a mod 4 * 16]"
| "b64_sextets [] = []"

text \<open>Trailing bits of an incomplete group are ignored, as the decoder does unless strict; one left-over character is corrupt.\<close>

fun b64_octets :: "nat list \<Rightarrow> nat list option" where
  "b64_octets (w # x # y # z # r) =
     map_option (\<lambda>bs. (w * 4 + x div 16) # (x mod 16 * 16 + y div 4) # (y mod 4 * 64 + z) # bs) (b64_octets r)"
| "b64_octets [w, x, y] = Some [w * 4 + x div 16, x mod 16 * 16 + y div 4]"
| "b64_octets [w, x] = Some [w * 4 + x div 16]"
| "b64_octets [w] = None"
| "b64_octets [] = Some []"

fun all_some :: "'a option list \<Rightarrow> 'a list option" where
  "all_some [] = Some []"
| "all_some (None # xs) = None"
| "all_some (Some x # xs) = map_option ((#) x) (all_some xs)"

definition skip_newlines :: "string \<Rightarrow> string" where
  "skip_newlines s = filter (\<lambda>c. c \<noteq> CHR 10 \<and> c \<noteq> CHR 13) s"

definition RawURL_encode :: "string \<Rightarrow> string" where
  "RawURL_encode bs = map (b64_char CHR ''-'' CHR ''_'') (b64_sextets (map of_char bs))"

definition RawURL_decode :: "string \<Rightarrow> string option" where
  "RawURL_decode s = Option.bind (all_some (map (b64_val CHR ''-'' CHR ''_'') (skip_newlines s)))
     (\<lambda>vs. map_option (map char_of) (b64_octets vs))"

text \<open>The padded standard form: the length is a multiple of four, with one or two \<open>=\<close> at the end.\<close>

definition Std_decode :: "string \<Rightarrow> string option" where
  "Std_decode s =
     (let t = skip_newlines s; n = length t;
          body = (if n \<ge> 2 \<and> drop (n - 2) t = ''=='' then take (n - 2) t else if n \<ge> 1 \<and> last t = CHR ''='' then take (n - 1) t else t)
      in if n mod 4 \<noteq> 0 then None
         else Option.bind (all_some (map (b64_val CHR ''+'' CHR ''/'') body)) (\<lambda>vs. map_option (map char_of) (b64_octets vs)))"

lemma b64_val_char:
  assumes "v < 64"
  shows "b64_val CHR ''-'' CHR ''_'' (b64_char CHR ''-'' CHR ''_'' v) = Some v"
proof -
  consider "v < 26" | "26 \<le> v" "v < 52" | "52 \<le> v" "v < 62" | "v = 62" | "v = 63" using assms by linarith
  then show ?thesis by cases (auto simp: b64_val_def b64_char_def Let_def)
qed

lemma b64_sextets_less: "\<forall>b\<in>set bs. b < 256 \<Longrightarrow> v \<in> set (b64_sextets bs) \<Longrightarrow> v < 64"
  by (induction bs rule: b64_sextets.induct) auto

lemma b64_octets_sextets: "\<forall>b\<in>set bs. b < 256 \<Longrightarrow> b64_octets (b64_sextets bs) = Some bs"
proof (induction bs rule: b64_sextets.induct)
  case (1 a b c r)
  have "a div 4 * 4 + (a mod 4 * 16 + b div 16) div 16 = a" "(a mod 4 * 16 + b div 16) mod 16 * 16 + (b mod 16 * 4 + c div 64) div 4 = b"
    "(b mod 16 * 4 + c div 64) mod 4 * 64 + c mod 64 = c"
    using "1.prems" by auto
  then show ?case using 1 by simp
qed auto

lemma all_some_map: "(\<And>x. x \<in> set xs \<Longrightarrow> f x = Some (g x)) \<Longrightarrow> all_some (map f xs) = Some (map g xs)"
  by (induction xs) simp_all

lemma of_char_less: "(of_char c :: nat) < 256"
  by simp

lemma b64_char_no_newline: "v < 64 \<Longrightarrow> b64_char CHR ''-'' CHR ''_'' v \<notin> {CHR 10, CHR 13}"
  using b64_val_char [of v] by (auto simp: b64_val_def)

lemma RawURL_roundtrip [simp]: "RawURL_decode (RawURL_encode bs) = Some bs"
proof -
  let ?vs = "b64_sextets (map of_char bs)"
  have less: "v \<in> set ?vs \<Longrightarrow> v < 64" for v
    by (rule b64_sextets_less [of "map of_char bs"]) (auto simp: of_char_less)
  have "skip_newlines (RawURL_encode bs) = RawURL_encode bs"
    unfolding skip_newlines_def RawURL_encode_def using less b64_char_no_newline by (intro filter_True) auto
  moreover have "all_some (map (b64_val CHR ''-'' CHR ''_'') (RawURL_encode bs)) = Some ?vs"
    using all_some_map [of ?vs "\<lambda>v. b64_val CHR ''-'' CHR ''_'' (b64_char CHR ''-'' CHR ''_'' v)" "\<lambda>v. v"] less b64_val_char
    by (simp add: RawURL_encode_def o_def)
  moreover have "b64_octets ?vs = Some (map of_char bs)" by (rule b64_octets_sextets) (auto simp: of_char_less)
  ultimately show ?thesis by (simp add: RawURL_decode_def o_def)
qed

section \<open>Contexts\<close>

record CipherContext =
  cc_App :: string
  cc_Location :: string
  cc_Field :: string

text \<open>\<open>binary.AppendUvarint\<close>: seven bits a byte, least significant first, the high bit set on all but the last.\<close>

fun uvarint :: "nat \<Rightarrow> string" where
  "uvarint n = (if n < 128 then [char_of n] else char_of (n mod 128 + 128) # uvarint (n div 128))"

declare uvarint.simps [simp del]

definition render :: "CipherContext \<Rightarrow> string" where
  "render cc = fold (\<lambda>part buf. buf @ uvarint (length part) @ part) [cc_App cc, cc_Location cc, cc_Field cc] []"

lemma uvarint_append_inj: "uvarint m @ x = uvarint n @ y \<Longrightarrow> m = n \<and> x = y"
proof (induction m arbitrary: n rule: less_induct)
  case (less m)
  have hd_small: "of_char (hd (uvarint k @ z)) = (if k < 128 then k else k mod 128 + 128 :: nat)" for k z
    by (subst uvarint.simps) auto
  have "(if m < 128 then m else m mod 128 + 128) = (if n < 128 then n else n mod 128 + 128)"
    using hd_small [of m x] hd_small [of n y] less.prems by simp
  then consider "m < 128" "n = m" | "128 \<le> m" "128 \<le> n" "m mod 128 = n mod 128"
    by (auto split: if_splits)
  then show ?case
  proof cases
    case 1
    then show ?thesis using less.prems by simp
  next
    case 2
    then have "uvarint (m div 128) @ x = uvarint (n div 128) @ y" using less.prems
      by (simp add: uvarint.simps [of m] uvarint.simps [of n])
    then have "m div 128 = n div 128 \<and> x = y" using less.IH [of "m div 128"] 2(1) by simp
    then show ?thesis using 2(3) by (metis div_mult_mod_eq)
  qed
qed

lemma render_inj: "render cc = render cc' \<Longrightarrow> cc = cc'"
proof -
  have part: "a = b \<and> x = y" if "uvarint (length a) @ a @ x = uvarint (length b) @ b @ y" for a b x y :: string
    using uvarint_append_inj [OF that] by (metis append_eq_append_conv)
  assume "render cc = render cc'"
  then have e: "uvarint (length (cc_App cc)) @ cc_App cc @ uvarint (length (cc_Location cc)) @ cc_Location cc @
        uvarint (length (cc_Field cc)) @ cc_Field cc @ [] =
      uvarint (length (cc_App cc')) @ cc_App cc' @ uvarint (length (cc_Location cc')) @ cc_Location cc' @
        uvarint (length (cc_Field cc')) @ cc_Field cc' @ []"
    by (simp add: render_def)
  from part [OF e] have 1: "cc_App cc = cc_App cc'" and
    e: "uvarint (length (cc_Location cc)) @ cc_Location cc @ uvarint (length (cc_Field cc)) @ cc_Field cc @ [] =
      uvarint (length (cc_Location cc')) @ cc_Location cc' @ uvarint (length (cc_Field cc')) @ cc_Field cc' @ []"
    by blast+
  from part [OF e] have 2: "cc_Location cc = cc_Location cc'" and
    e: "uvarint (length (cc_Field cc)) @ cc_Field cc @ [] = uvarint (length (cc_Field cc')) @ cc_Field cc' @ []"
    by blast+
  from part [OF e] 1 2 show "cc = cc'" by simp
qed

section \<open>The cipher of one key\<close>

type_synonym seal_fun = "string \<Rightarrow> string \<Rightarrow> string \<Rightarrow> string \<Rightarrow> string"
type_synonym open_fun = "string \<Rightarrow> string \<Rightarrow> string \<Rightarrow> string \<Rightarrow> string option"

text \<open>
  XChaCha20-Poly1305 as documented: key, nonce, text, associated data. Opening is defined by sealing: it gives \<open>p\<close>
  exactly for the ciphertext that sealing \<open>p\<close> gives.
\<close>

definition aead_ok :: "seal_fun \<Rightarrow> open_fun \<Rightarrow> bool" where
  "aead_ok Seal Open \<longleftrightarrow> (\<forall>k n c a p. Open k n c a = Some p \<longleftrightarrow> c = Seal k n p a)"

definition KeySize :: nat where "KeySize = 32"
definition NonceSize :: nat where "NonceSize = 24"

datatype cipher_error =
    BadKeySize nat
  | NotBase64
  | CiphertextTooShort
  | MessageAuthenticationFailed

record XChaCha20Poly1305Cipher =
  xc_key :: string

definition NewXChaCha20Poly1305CipherBase64 :: "string \<Rightarrow> (cipher_error, XChaCha20Poly1305Cipher) result" where
  "NewXChaCha20Poly1305CipherBase64 key =
     (if length key \<noteq> KeySize then Inl (BadKeySize (length key)) else Inr \<lparr>xc_key = key\<rparr>)"

definition SealEncode :: "seal_fun \<Rightarrow> string \<Rightarrow> XChaCha20Poly1305Cipher \<Rightarrow> string \<Rightarrow> string \<Rightarrow> string" where
  "SealEncode Seal nonce c plaintext aad = RawURL_encode (nonce @ Seal (xc_key c) nonce plaintext aad)"

definition DecodeOpen :: "open_fun \<Rightarrow> XChaCha20Poly1305Cipher \<Rightarrow> string \<Rightarrow> string \<Rightarrow> (cipher_error, string) result" where
  "DecodeOpen Open c encodedCiphertext aad =
     (case RawURL_decode encodedCiphertext of
        None \<Rightarrow> Inl NotBase64
      | Some dat \<Rightarrow>
          if length dat < NonceSize then Inl CiphertextTooShort
          else case Open (xc_key c) (take NonceSize dat) (drop NonceSize dat) aad of
            None \<Rightarrow> Inl MessageAuthenticationFailed
          | Some plaintext \<Rightarrow> Inr plaintext)"

section \<open>The keyring\<close>

definition AlgXChaCha20Poly1305 :: string where "AlgXChaCha20Poly1305 = ''xchacha20poly1305''"

record KeyringKeyConf =
  kk_Alg :: string
  kk_EncKey :: string

text \<open>\<open>Keys\<close> in the order the map is walked, \<open>None\<close> for a null entry.\<close>

record KeyringConf =
  kr_Active :: string
  kr_Keys :: "(string \<times> KeyringKeyConf option) list"

record KeyringCipher =
  kc_appName :: string
  kc_purpose :: string
  kc_activeKid :: string
  kc_ciphers :: "string \<rightharpoonup> XChaCha20Poly1305Cipher"

datatype keyring_error =
    EmptyAppName
  | EmptyPurpose
  | ColonInLabel
  | NoKeyringConf
  | EmptyActive
  | NoKeys
  | ActiveNotAmongKeys string
  | EmptyKid
  | DottedKid string
  | NoKeyEntry string
  | UnknownAlg string string
  | EncKeyNotBase64 string
  | EncKeySize string nat
  | DerivationFailed string
  | CipherRefused string cipher_error
  | LocationEmpty
  | NamesNoKid
  | UnknownKid string
  | OpenFailed string cipher_error

fun derive_keys ::
    "(string \<Rightarrow> string \<Rightarrow> string option) \<Rightarrow> string \<Rightarrow> (string \<times> KeyringKeyConf option) list \<Rightarrow>
     (string \<rightharpoonup> XChaCha20Poly1305Cipher) \<Rightarrow> (keyring_error, string \<rightharpoonup> XChaCha20Poly1305Cipher) result" where
  "derive_keys hkdf label [] ciphers = Inr ciphers"
| "derive_keys hkdf label ((kid, kc) # ks) ciphers =
     (if kid = [] then Inl EmptyKid
      else if CHR ''.'' \<in> set kid then Inl (DottedKid kid)
      else case kc of
        None \<Rightarrow> Inl (NoKeyEntry kid)
      | Some kc \<Rightarrow>
     (if kk_Alg kc \<noteq> AlgXChaCha20Poly1305 then Inl (UnknownAlg kid (kk_Alg kc))
      else case Std_decode (kk_EncKey kc) of
        None \<Rightarrow> Inl (EncKeyNotBase64 kid)
      | Some master \<Rightarrow>
     (if length master \<noteq> KeySize then Inl (EncKeySize kid (length master))
      else case hkdf master label of
        None \<Rightarrow> Inl (DerivationFailed kid)
      | Some derived \<Rightarrow>
     (case NewXChaCha20Poly1305CipherBase64 derived of
        Inl e \<Rightarrow> Inl (CipherRefused kid e)
      | Inr cipher \<Rightarrow> derive_keys hkdf label ks (ciphers(kid \<mapsto> cipher))))))"

definition NewKeyringCipher ::
    "(string \<Rightarrow> string \<Rightarrow> string option) \<Rightarrow> KeyringConf option \<Rightarrow> string \<Rightarrow> string \<Rightarrow> (keyring_error, KeyringCipher) result" where
  "NewKeyringCipher hkdf conf appName purpose =
     (if appName = [] then Inl EmptyAppName
      else if purpose = [] then Inl EmptyPurpose
      else if CHR '':'' \<in> set appName \<or> CHR '':'' \<in> set purpose then Inl ColonInLabel
      else case conf of
        None \<Rightarrow> Inl NoKeyringConf
      | Some conf \<Rightarrow>
     (if kr_Active conf = [] then Inl EmptyActive
      else if kr_Keys conf = [] then Inl NoKeys
      else if map_of (kr_Keys conf) (kr_Active conf) = None then Inl (ActiveNotAmongKeys (kr_Active conf))
      else case derive_keys hkdf (appName @ '':'' @ purpose) (kr_Keys conf) Map.empty of
        Inl e \<Rightarrow> Inl e
      | Inr ciphers \<Rightarrow> Inr \<lparr>kc_appName = appName, kc_purpose = purpose, kc_activeKid = kr_Active conf, kc_ciphers = ciphers\<rparr>))"

text \<open>The cipher of the active key is there by construction; a nil one would be dereferenced.\<close>

definition EncryptEncode :: "seal_fun \<Rightarrow> string \<Rightarrow> KeyringCipher \<Rightarrow> string \<Rightarrow> CipherContext \<Rightarrow> (keyring_error, string) result option" where
  "EncryptEncode Seal nonce k plaintext cc =
     (if cc_Location cc = [] then Some (Inl LocationEmpty)
      else case kc_ciphers k (kc_activeKid k) of
        None \<Rightarrow> None
      | Some c \<Rightarrow> Some (Inr (kc_activeKid k @ ''.'' @ SealEncode Seal nonce c plaintext (render cc))))"

definition DecodeDecrypt :: "open_fun \<Rightarrow> KeyringCipher \<Rightarrow> string \<Rightarrow> CipherContext \<Rightarrow> (keyring_error, string) result" where
  "DecodeDecrypt Open k encoded cc =
     (if cc_Location cc = [] then Inl LocationEmpty
      else case Cut CHR ''.'' encoded of
        None \<Rightarrow> Inl NamesNoKid
      | Some (kid, rest) \<Rightarrow>
     (case kc_ciphers k kid of
        None \<Rightarrow> Inl (UnknownKid kid)
      | Some cipher \<Rightarrow>
     (case DecodeOpen Open cipher rest (render cc) of
        Inl e \<Rightarrow> Inl (OpenFailed kid e)
      | Inr plaintext \<Rightarrow> Inr plaintext)))"

section \<open>Round trip and rotation\<close>

text \<open>The key a keyring entry stands for, for one application and purpose.\<close>

definition working_key :: "(string \<Rightarrow> string \<Rightarrow> string option) \<Rightarrow> string \<Rightarrow> KeyringKeyConf option \<Rightarrow> XChaCha20Poly1305Cipher option" where
  "working_key hkdf label kc =
     Option.bind kc (\<lambda>kc. Option.bind (Std_decode (kk_EncKey kc)) (\<lambda>master. map_option (\<lambda>d. \<lparr>xc_key = d\<rparr>) (hkdf master label)))"

lemma derive_keys_Cons:
  assumes "derive_keys hkdf label ((kid, kc) # ks) acc = Inr m"
  obtains c where "working_key hkdf label kc = Some c" "CHR ''.'' \<notin> set kid" "derive_keys hkdf label ks (acc(kid \<mapsto> c)) = Inr m"
  using assms by (auto simp: working_key_def NewXChaCha20Poly1305CipherBase64_def split: if_splits option.splits)

lemma derive_keys_ciphers:
  "derive_keys hkdf label ks acc = Inr m \<Longrightarrow> distinct (map fst ks) \<Longrightarrow>
     m kid = (case map_of ks kid of None \<Rightarrow> acc kid | Some kc \<Rightarrow> working_key hkdf label kc) \<and>
     (\<forall>kc. map_of ks kid = Some kc \<longrightarrow> CHR ''.'' \<notin> set kid \<and> working_key hkdf label kc \<noteq> None)"
proof (induction ks arbitrary: acc)
  case (Cons k ks)
  obtain kid' kc where k: "k = (kid', kc)" by force
  obtain c where c: "working_key hkdf label kc = Some c" "CHR ''.'' \<notin> set kid'" "derive_keys hkdf label ks (acc(kid' \<mapsto> c)) = Inr m"
    using derive_keys_Cons Cons.prems(1) unfolding k by blast
  have "map_of ks kid' = None" using Cons.prems(2) by (simp add: k map_of_eq_None_iff)
  then show ?case using Cons.IH [OF c(3)] Cons.prems(2) c(1,2) by (auto simp: k split: option.splits)
qed simp

lemma NewKeyringCipher_ok:
  assumes "NewKeyringCipher hkdf (Some conf) app purpose = Inr k" "distinct (map fst (kr_Keys conf))"
  shows "kc_activeKid k = kr_Active conf"
    "kc_ciphers k kid = (case map_of (kr_Keys conf) kid of None \<Rightarrow> None | Some kc \<Rightarrow> working_key hkdf (app @ '':'' @ purpose) kc)"
    "CHR ''.'' \<notin> set (kr_Active conf)" "\<exists>c. kc_ciphers k (kr_Active conf) = Some c"
proof -
  obtain m where d: "derive_keys hkdf (app @ '':'' @ purpose) (kr_Keys conf) Map.empty = Inr m" "map_of (kr_Keys conf) (kr_Active conf) \<noteq> None"
    and k: "k = \<lparr>kc_appName = app, kc_purpose = purpose, kc_activeKid = kr_Active conf, kc_ciphers = m\<rparr>"
    using assms(1) by (auto simp: NewKeyringCipher_def split: if_splits sum.splits)
  note c = derive_keys_ciphers [OF d(1) assms(2)]
  show "kc_activeKid k = kr_Active conf" by (simp add: k)
  show "kc_ciphers k kid = (case map_of (kr_Keys conf) kid of None \<Rightarrow> None | Some kc \<Rightarrow> working_key hkdf (app @ '':'' @ purpose) kc)"
    using c [of kid] by (simp add: k)
  show "CHR ''.'' \<notin> set (kr_Active conf)" "\<exists>c. kc_ciphers k (kr_Active conf) = Some c"
    using c [of "kr_Active conf"] d(2) by (auto simp: k)
qed

lemma DecodeOpen_SealEncode:
  assumes "aead_ok Seal Open" "length nonce = NonceSize"
  shows "DecodeOpen Open c (SealEncode Seal nonce c p a) a' = Inr p' \<longleftrightarrow> Seal (xc_key c) nonce p a = Seal (xc_key c) nonce p' a'"
    "DecodeOpen Open c (SealEncode Seal nonce c p a) a = Inr p"
  using assms by (auto simp: DecodeOpen_def SealEncode_def aead_ok_def split: option.splits) (metis option.inject option.distinct(1))+

text \<open>
  C37: What a keyring sealed opens again, and only where it was sealed. Any cipher that was built seals any text for any context with a
  location; the value opens to that text under the same context; it still opens to it with every keyring of the same application and purpose
  that has kept the key under its id, whatever other keys were added, retired or made active; and if it opens under another context, the
  AEAD has sealed two texts to the same bytes under different associated data (a forgery), since different contexts render differently.
\<close>

theorem keyring_roundtrip:
  assumes aead: "aead_ok Seal Open" "length nonce = NonceSize"
    and k: "NewKeyringCipher hkdf (Some conf) app purpose = Inr k" "distinct (map fst (kr_Keys conf))" and loc: "cc_Location cc \<noteq> []"
  shows "\<exists>e. EncryptEncode Seal nonce k p cc = Some (Inr e) \<and> DecodeDecrypt Open k e cc = Inr p \<and>
    (\<forall>conf' k'. NewKeyringCipher hkdf (Some conf') app purpose = Inr k' \<longrightarrow> distinct (map fst (kr_Keys conf')) \<longrightarrow>
       map_of (kr_Keys conf') (kr_Active conf) = map_of (kr_Keys conf) (kr_Active conf) \<longrightarrow> DecodeDecrypt Open k' e cc = Inr p) \<and>
    (\<forall>cc' p'. DecodeDecrypt Open k e cc' = Inr p' \<longrightarrow> cc' \<noteq> cc \<longrightarrow>
       render cc' \<noteq> render cc \<and> (\<exists>key. Seal key nonce p' (render cc') = Seal key nonce p (render cc)))"
proof -
  note ok = NewKeyringCipher_ok [OF k]
  obtain c where c: "kc_ciphers k (kr_Active conf) = Some c" using ok(4) by blast
  let ?e = "kr_Active conf @ CHR ''.'' # SealEncode Seal nonce c p (render cc)"
  have enc: "EncryptEncode Seal nonce k p cc = Some (Inr ?e)" using loc c by (simp add: EncryptEncode_def ok(1))
  have dec: "DecodeDecrypt Open k' ?e cc' = Inr p' \<longleftrightarrow> cc_Location cc' \<noteq> [] \<and> DecodeOpen Open c (SealEncode Seal nonce c p (render cc)) (render cc') = Inr p'"
    if "kc_ciphers k' (kr_Active conf) = Some c" for k' cc' p'
    using that ok(3) by (auto simp: DecodeDecrypt_def split: sum.splits)
  have "DecodeDecrypt Open k' ?e cc = Inr p"
    if "NewKeyringCipher hkdf (Some conf') app purpose = Inr k'" "distinct (map fst (kr_Keys conf'))"
      "map_of (kr_Keys conf') (kr_Active conf) = map_of (kr_Keys conf) (kr_Active conf)" for conf' k'
  proof -
    have "kc_ciphers k' (kr_Active conf) = Some c"
      using NewKeyringCipher_ok(2) [OF that(1,2), of "kr_Active conf"] ok(2) [of "kr_Active conf"] c that(3) by simp
    then show ?thesis using dec loc DecodeOpen_SealEncode(2) [OF aead] by simp
  qed
  moreover have "render cc' \<noteq> render cc \<and> (\<exists>key. Seal key nonce p' (render cc') = Seal key nonce p (render cc))"
    if "DecodeDecrypt Open k ?e cc' = Inr p'" "cc' \<noteq> cc" for cc' p'
    using that render_inj [of cc' cc] dec [OF c] DecodeOpen_SealEncode(1) [OF aead, of c p "render cc" "render cc'" p'] by metis
  ultimately show ?thesis using enc dec [OF c] loc DecodeOpen_SealEncode(2) [OF aead] by blast
qed

definition sample_Seal :: seal_fun where
  "sample_Seal k n p a = k @ n @ a @ p"

definition sample_Open :: open_fun where
  "sample_Open k n c a = (if take (length (k @ n @ a)) c = k @ n @ a then Some (drop (length (k @ n @ a)) c) else None)"

definition sample_hkdf :: "string \<Rightarrow> string \<Rightarrow> string option" where
  "sample_hkdf master label = Some (replicate 32 CHR ''k'')"

definition sample_enckey :: string where
  "sample_enckey = replicate 43 CHR ''A'' @ ''=''"

definition sample_conf :: KeyringConf where
  "sample_conf = \<lparr>kr_Active = ''k1'', kr_Keys = [(''k1'', Some \<lparr>kk_Alg = ''xchacha20poly1305'', kk_EncKey = sample_enckey\<rparr>)]\<rparr>"

lemma sample_aead: "aead_ok sample_Seal sample_Open"
proof -
  have "(if take (length u) c = u then Some (drop (length u) c) else None) = Some p \<longleftrightarrow> u @ p = c" for u c p :: string
    unfolding append_eq_conv_conj by auto
  from this [of "k @ n @ a" c p for k n a c p] show ?thesis
    unfolding aead_ok_def sample_Seal_def sample_Open_def append_assoc by (auto simp only:)
qed

theorem keyring_roundtrip_witness:
  "\<exists>k e. NewKeyringCipher sample_hkdf (Some sample_conf) ''app'' ''tokens'' = Inr k \<and>
     EncryptEncode sample_Seal (replicate 24 CHR ''n'') k ''secret'' \<lparr>cc_App = [], cc_Location = ''row'', cc_Field = ''f''\<rparr> = Some (Inr e) \<and>
     DecodeDecrypt sample_Open k e \<lparr>cc_App = [], cc_Location = ''row'', cc_Field = ''f''\<rparr> = Inr ''secret''"
proof -
  have "map_option length (Std_decode sample_enckey) = Some 32" by code_simp
  then obtain master where "Std_decode sample_enckey = Some master" "length master = 32" by auto
  then have "\<exists>k. NewKeyringCipher sample_hkdf (Some sample_conf) ''app'' ''tokens'' = Inr k"
    by (simp add: NewKeyringCipher_def sample_conf_def AlgXChaCha20Poly1305_def KeySize_def sample_hkdf_def NewXChaCha20Poly1305CipherBase64_def)
  then obtain k where k: "NewKeyringCipher sample_hkdf (Some sample_conf) ''app'' ''tokens'' = Inr k" ..
  show ?thesis
    using keyring_roundtrip [OF sample_aead, of "replicate 24 CHR ''n''", OF _ k,
        of "\<lparr>cc_App = [], cc_Location = ''row'', cc_Field = ''f''\<rparr>" "''secret''"] k
    by (auto simp: NonceSize_def sample_conf_def)
qed

end
