(* ===== verification/Cookie_Sessions.thy ===== *)
theory Cookie_Sessions
  imports Bearer_Sessions Keyring
begin

text \<open>
  \<open>gw/web/session/cookie\<close> with the wrappers \<open>CookieUserSession\<close> and \<open>CSRFToken\<close> of
  \<open>gw/web/handlerwrappers\<close> and the loading of the configuration (\<open>gw/framework/core_cookiesession.go\<close>): browser
  sessions whose id travels sealed in a cookie and whose row lives in the key-value database.

  A request is its cookies, its URI, its CSRF header and form field; the response writer is the cookies set so
  far and the answer. \<open>SetCookie\<close> drops the bytes a cookie value cannot carry, as \<open>net/http\<close> does. A
  cipher is the interface \<open>EncodedCipher\<close>; the locale \<open>encoded_cipher\<close> is its promise, which a keyring keeps. Generated
  ids, tokens and nonces are arguments. The state of a shape (its configuration and cipher, present together) is a record; an
  operation on a shape takes it, since dereferencing an absent one panics before anything else happens.
\<close>

section \<open>Requests, cookies and answers\<close>

datatype SameSite = SameSiteLaxMode

record http_cookie =
  ck_Name :: string
  ck_Value :: string
  ck_Path :: string
  ck_HttpOnly :: bool
  ck_Secure :: bool
  ck_MaxAge :: int
  ck_SameSite :: SameSite

datatype reply = JSONReply http_response | RedirectReply string int

record writer =
  wr_cookies :: "http_cookie list"
  wr_reply :: "reply option"

record request =
  rq_cookies :: "string \<rightharpoonup> string"
  rq_URI :: string
  rq_CSRFHeader :: string
  rq_CSRFField :: string

definition validCookieValueByte :: "char \<Rightarrow> bool" where
  "validCookieValueByte c \<longleftrightarrow>
     (let b = of_char c :: nat in 32 \<le> b \<and> b < 127 \<and> c \<noteq> CHR 34 \<and> c \<noteq> CHR '';'' \<and> c \<noteq> CHR 92)"

definition SetCookie :: "http_cookie \<Rightarrow> writer \<Rightarrow> writer" where
  "SetCookie c w = w\<lparr>wr_cookies := wr_cookies w @ [c\<lparr>ck_Value := filter validCookieValueByte (ck_Value c)\<rparr>]\<rparr>"

definition Redirect :: "string \<Rightarrow> int \<Rightarrow> writer \<Rightarrow> writer" where
  "Redirect url code w = w\<lparr>wr_reply := Some (RedirectReply url code)\<rparr>"

definition AnswerJSON :: "http_response \<Rightarrow> writer \<Rightarrow> writer" where
  "AnswerJSON r w = w\<lparr>wr_reply := Some (JSONReply r)\<rparr>"

definition StatusSeeOther :: int where "StatusSeeOther = 303"
definition StatusServiceUnavailable :: int where "StatusServiceUnavailable = 503"

text \<open>\<open>url.QueryEscape\<close> and \<open>url.QueryUnescape\<close>.\<close>

definition hex_digit :: "nat \<Rightarrow> char" where
  "hex_digit d = (if d < 10 then char_of (48 + d) else char_of (55 + d))"

definition hex_val :: "char \<Rightarrow> nat option" where
  "hex_val c = (let k = of_char c :: nat
     in if 48 \<le> k \<and> k \<le> 57 then Some (k - 48) else if 65 \<le> k \<and> k \<le> 70 then Some (k - 55)
        else if 97 \<le> k \<and> k \<le> 102 then Some (k - 87) else None)"

definition query_plain :: "char \<Rightarrow> bool" where
  "query_plain c = (let k = of_char c :: nat
     in 97 \<le> k \<and> k \<le> 122 \<or> 65 \<le> k \<and> k \<le> 90 \<or> 48 \<le> k \<and> k \<le> 57 \<or> c \<in> {CHR ''-'', CHR ''_'', CHR ''.'', CHR ''~''})"

definition escape_char :: "char \<Rightarrow> string" where
  "escape_char c =
     (if query_plain c then [c] else if c = CHR '' '' then ''+''
      else [CHR ''%'', hex_digit (of_char c div 16), hex_digit (of_char c mod 16)])"

definition QueryEscape :: "string \<Rightarrow> string" where
  "QueryEscape s = concat (map escape_char s)"

fun QueryUnescape :: "string \<Rightarrow> string option" where
  "QueryUnescape [] = Some []"
| "QueryUnescape (c # s) =
     (if c = CHR ''%'' then (case s of
          a # b # r \<Rightarrow> (case (hex_val a, hex_val b) of
              (Some x, Some y) \<Rightarrow> map_option ((#) (char_of (x * 16 + y))) (QueryUnescape r)
            | _ \<Rightarrow> None)
        | _ \<Rightarrow> None)
      else map_option ((#) (if c = CHR ''+'' then CHR '' '' else c)) (QueryUnescape s))"

text \<open>The scheme of a URL reference, empty when it has none (\<open>URL.IsAbs\<close> tests it).\<close>

definition scheme_char :: "char \<Rightarrow> bool" where
  "scheme_char c = (let k = of_char c :: nat
     in 97 \<le> k \<and> k \<le> 122 \<or> 65 \<le> k \<and> k \<le> 90 \<or> 48 \<le> k \<and> k \<le> 57 \<or> c \<in> {CHR ''+'', CHR ''-'', CHR ''.''})"

definition scheme_start :: "char \<Rightarrow> bool" where
  "scheme_start c = (let k = of_char c :: nat in 97 \<le> k \<and> k \<le> 122 \<or> 65 \<le> k \<and> k \<le> 90)"

definition url_scheme :: "string \<Rightarrow> string" where
  "url_scheme u =
     (let p = takeWhile scheme_char u; r = dropWhile scheme_char u
      in if p \<noteq> [] \<and> scheme_start (hd p) \<and> r \<noteq> [] \<and> hd r = CHR '':'' then p else [])"

definition IsAbs :: "string \<Rightarrow> bool" where
  "IsAbs u \<longleftrightarrow> url_scheme u \<noteq> []"

section \<open>Ciphers\<close>

record EncodedCipher =
  ec_EncryptEncode :: "string \<Rightarrow> string \<Rightarrow> CipherContext \<Rightarrow> (keyring_error, string) result"
  ec_DecodeDecrypt :: "string \<Rightarrow> CipherContext \<Rightarrow> (keyring_error, string) result"

text \<open>A keyring as a cipher; a keyring that was built has the cipher of its active key.\<close>

definition keyring_EncodedCipher :: "seal_fun \<Rightarrow> open_fun \<Rightarrow> KeyringCipher \<Rightarrow> EncodedCipher" where
  "keyring_EncodedCipher Seal Open k =
     \<lparr>ec_EncryptEncode = (\<lambda>nonce p cc. case EncryptEncode Seal nonce k p cc of
         Some r \<Rightarrow> r | None \<Rightarrow> Inl (UnknownKid (kc_activeKid k))),
      ec_DecodeDecrypt = (\<lambda>e cc. DecodeDecrypt Open k e cc)\<rparr>"

section \<open>Configuration\<close>

datatype ExpireMode = ExpireAbsolute | ExpireSliding | ExpireOther string

record UserSessionConf =
  us_ExpireIn :: int
  us_ExpireMode :: ExpireMode
  us_ExtendThreshold :: int
  us_LoginPath :: string
  us_MaxSessionsPerUser :: int
  us_IntendedURIExpireIn :: "int option"

record AnonymousSessionConf =
  as_ExpireIn :: int
  as_ExpireMode :: ExpireMode
  as_ExtendThreshold :: int

datatype cookie_conf_error =
    ExpireInNotPositive
  | BadExpireMode
  | ThresholdOutOfRange
  | LoginPathEmpty
  | LoginPathNotRooted
  | MaxSessionsNegative
  | IntendedURIUnset
  | IntendedURINegative
  | CookieSessionServiceNotReady
  | CookieConfUnreadable
  | CookieManagerRefused string
  | CookieUpstreamNotPrepared
  | NoKeyring
  | UserCipherRefused keyring_error
  | AnonymousCipherRefused keyring_error

definition validateExpiry :: "int \<Rightarrow> ExpireMode \<Rightarrow> int \<Rightarrow> cookie_conf_error option" where
  "validateExpiry expireIn mode extendThreshold =
     (if expireIn \<le> 0 then Some ExpireInNotPositive
      else case mode of
        ExpireOther _ \<Rightarrow> Some BadExpireMode
      | _ \<Rightarrow> if mode = ExpireSliding \<and> (extendThreshold \<le> 0 \<or> extendThreshold \<ge> expireIn) then Some ThresholdOutOfRange
             else None)"

definition UserSessionConf_Validate :: "UserSessionConf \<Rightarrow> cookie_conf_error option" where
  "UserSessionConf_Validate c =
     (case validateExpiry (us_ExpireIn c) (us_ExpireMode c) (us_ExtendThreshold c) of
        Some e \<Rightarrow> Some e
      | None \<Rightarrow>
          if us_LoginPath c = [] then Some LoginPathEmpty
          else if hd (us_LoginPath c) \<noteq> CHR ''/'' then Some LoginPathNotRooted
          else if us_MaxSessionsPerUser c < 0 then Some MaxSessionsNegative
          else (case us_IntendedURIExpireIn c of
              None \<Rightarrow> Some IntendedURIUnset
            | Some n \<Rightarrow> if n < 0 then Some IntendedURINegative else None))"

definition AnonymousSessionConf_Validate :: "AnonymousSessionConf \<Rightarrow> cookie_conf_error option" where
  "AnonymousSessionConf_Validate c = validateExpiry (as_ExpireIn c) (as_ExpireMode c) (as_ExtendThreshold c)"

section \<open>The manager\<close>

record user_shape =
  ush_Conf :: UserSessionConf
  ush_Cipher :: EncodedCipher

record anon_shape =
  ash_Conf :: AnonymousSessionConf
  ash_Cipher :: EncodedCipher

record ('st, 'lk, 'up) CookieManager =
  cm_User :: "user_shape option"
  cm_Anonymous :: "anon_shape option"
  cm_FWUpstream :: "'up option"
  cm_appName :: string
  cm_KVDB :: "'st kvdb"
  cm_lockingManager :: 'lk
  cm_enabled :: bool

definition NewCookieManager ::
    "string \<Rightarrow> 'st kvdb option \<Rightarrow> 'lk option \<Rightarrow> (string, ('st, 'lk, 'up) CookieManager) result" where
  "NewCookieManager appName kvdb lockingManager =
     (if appName = [] then Inl ''cookie.NewSessionManager: appName required''
      else case kvdb of
        None \<Rightarrow> Inl ''cookie.NewSessionManager: kvdb required''
      | Some db \<Rightarrow> (case lockingManager of
            None \<Rightarrow> Inl ''cookie.NewSessionManager: lockingManager required''
          | Some lk \<Rightarrow> Inr \<lparr>cm_User = None, cm_Anonymous = None, cm_FWUpstream = None,
              cm_appName = appName, cm_KVDB = db, cm_lockingManager = lk, cm_enabled = False\<rparr>))"

definition cm_Enable :: "('st, 'lk, 'up) CookieManager \<Rightarrow> ('st, 'lk, 'up) CookieManager" where
  "cm_Enable m = m\<lparr>cm_enabled := True\<rparr>"

definition cm_Disable :: "('st, 'lk, 'up) CookieManager \<Rightarrow> ('st, 'lk, 'up) CookieManager" where
  "cm_Disable m = m\<lparr>cm_enabled := False\<rparr>"

definition UserCookieName :: string where "UserCookieName = ''__Host-session''"
definition UserIntendedURICookieName :: string where "UserIntendedURICookieName = ''__Host-intended-uri''"
definition AnonymousCookieName :: string where "AnonymousCookieName = ''__Host-public-session''"

definition UserCookieCipherContext :: "('st, 'lk, 'up) CookieManager \<Rightarrow> CipherContext" where
  "UserCookieCipherContext m = \<lparr>cc_App = cm_appName m, cc_Location = UserCookieName, cc_Field = []\<rparr>"

definition AnonymousCookieCipherContext :: "('st, 'lk, 'up) CookieManager \<Rightarrow> CipherContext" where
  "AnonymousCookieCipherContext m = \<lparr>cc_App = cm_appName m, cc_Location = AnonymousCookieName, cc_Field = []\<rparr>"

section \<open>User sessions\<close>

record UserSessionRow =
  ur_UID :: string
  ur_CSRF :: string

datatype cookie_error =
    FieldsNameUID
  | FieldsNameCSRF
  | SealFailed keyring_error
  | CookieStoreFailed kv_error

definition UserSessionRowKey :: "('st, 'lk, 'up) CookieManager \<Rightarrow> string \<Rightarrow> string" where
  "UserSessionRowKey m sessionID = cm_appName m @ '':cu:'' @ sessionID"

definition usrSessionListKey :: "('st, 'lk, 'up) CookieManager \<Rightarrow> string \<Rightarrow> string" where
  "usrSessionListKey m uidStr = cm_appName m @ '':cul:'' @ uidStr"

definition UserSessionRowExists :: "('st, 'lk, 'up) CookieManager \<Rightarrow> string \<Rightarrow> ('st, bool) io" where
  "UserSessionRowExists m sessionID = Exists (cm_KVDB m) (UserSessionRowKey m sessionID)"

definition NewUserSessionID ::
    "('st, 'lk, 'up) CookieManager \<Rightarrow> user_shape \<Rightarrow> string \<Rightarrow> string \<Rightarrow> (cookie_error, string \<times> string) result" where
  "NewUserSessionID m us nonce sessionID =
     (case ec_EncryptEncode (ush_Cipher us) nonce sessionID (UserCookieCipherContext m) of
        Inl err \<Rightarrow> Inl (SealFailed err)
      | Inr sealedCookieValue \<Rightarrow> Inr (sessionID, sealedCookieValue))"

definition StoreUserSession ::
    "('st, 'lk, 'up) CookieManager \<Rightarrow> user_shape \<Rightarrow> string \<Rightarrow> string \<Rightarrow> string \<Rightarrow> (string \<times> string) list \<Rightarrow>
     'st \<Rightarrow> (cookie_error, unit) result \<times> 'st" where
  "StoreUserSession m us csrf sessionID uidStr fvs st =
     (if ''uid'' \<in> fst ` set fvs then (Inl FieldsNameUID, st)
      else if ''csrf'' \<in> fst ` set fvs then (Inl FieldsNameCSRF, st)
      else
        (let row = fvs @ [(''uid'', uidStr), (''csrf'', csrf)];
             slidingExpiration = seconds (us_ExpireIn (ush_Conf us));
             key = UserSessionRowKey m sessionID; db = cm_KVDB m
         in case HashSetFieldsWithKeyTTL db key row slidingExpiration st of
              (Inl err, st1) \<Rightarrow> (Inl (CookieStoreFailed err), st1)
            | (Inr _, st1) \<Rightarrow>
                if us_MaxSessionsPerUser (ush_Conf us) > 0 then
                  (case PushEvictOverCap db (usrSessionListKey m uidStr) sessionID (us_MaxSessionsPerUser (ush_Conf us))
                          slidingExpiration (UserSessionRowKey m []) st1 of
                     (Inl err, st2) \<Rightarrow> (Inl (CookieStoreFailed err), snd (Delete db [key] st2))
                   | (Inr _, st2) \<Rightarrow> (Inr (), st2))
                else (Inr (), st1)))"

definition user_cookie :: "string \<Rightarrow> int \<Rightarrow> http_cookie" where
  "user_cookie val maxAge = \<lparr>ck_Name = UserCookieName, ck_Value = val, ck_Path = ''/'', ck_HttpOnly = True,
     ck_Secure = True, ck_MaxAge = maxAge, ck_SameSite = SameSiteLaxMode\<rparr>"

definition SetUserSessionCookie :: "user_shape \<Rightarrow> string \<Rightarrow> writer \<Rightarrow> writer" where
  "SetUserSessionCookie us sealedCookieValue = SetCookie (user_cookie sealedCookieValue (us_ExpireIn (ush_Conf us)))"

definition CreateUserSession ::
    "('st, 'lk, 'up) CookieManager \<Rightarrow> user_shape \<Rightarrow> string \<Rightarrow> string \<Rightarrow> string \<Rightarrow> string \<Rightarrow> writer \<Rightarrow>
     'st \<Rightarrow> (cookie_error, string) result \<times> writer \<times> 'st" where
  "CreateUserSession m us nonce genID csrf uidStr w st =
     (case NewUserSessionID m us nonce genID of
        Inl err \<Rightarrow> (Inl err, w, st)
      | Inr (sid, sealedCookieValue) \<Rightarrow>
          (case StoreUserSession m us csrf sid uidStr [] st of
             (Inl err, st1) \<Rightarrow> (Inl err, w, st1)
           | (Inr _, st1) \<Rightarrow> (Inr sid, SetUserSessionCookie us sealedCookieValue w, st1)))"

definition user_row_of :: "(string \<rightharpoonup> string) \<Rightarrow> UserSessionRow option" where
  "user_row_of fvs =
     (if fvs ''uid'' = None \<and> fvs ''csrf'' = None then None
      else Some \<lparr>ur_UID = at_key fvs ''uid'', ur_CSRF = at_key fvs ''csrf''\<rparr>)"

definition FetchUserSession :: "('st, 'lk, 'up) CookieManager \<Rightarrow> string \<Rightarrow> ('st, UserSessionRow option) io" where
  "FetchUserSession m sessionID st =
     (case HashGetFields (cm_KVDB m) (UserSessionRowKey m sessionID) [''uid'', ''csrf''] st of
        (Inl err, st1) \<Rightarrow> (Inl err, st1)
      | (Inr fvs, st1) \<Rightarrow> (Inr (user_row_of fvs), st1))"

definition DeleteUserSessionKVDB :: "('st, 'lk, 'up) CookieManager \<Rightarrow> user_shape \<Rightarrow> string \<Rightarrow> ('st, unit) io" where
  "DeleteUserSessionKVDB m us sessionID st =
     (case FetchUserSession m sessionID st of
        (Inl err, st1) \<Rightarrow> (Inl err, st1)
      | (Inr None, st1) \<Rightarrow> (Inr (), st1)
      | (Inr (Some row), st1) \<Rightarrow>
          (let st2 = (if us_MaxSessionsPerUser (ush_Conf us) > 0
                      then snd (ListRemove (cm_KVDB m) (usrSessionListKey m (ur_UID row)) 0 sessionID st1) else st1)
           in (Inr (), snd (Delete (cm_KVDB m) [UserSessionRowKey m sessionID] st2))))"

definition DeleteUserSessionCookie :: "writer \<Rightarrow> writer" where
  "DeleteUserSessionCookie = SetCookie (user_cookie [] (- 1))"

definition DestroyUserSession ::
    "('st, 'lk, 'up) CookieManager \<Rightarrow> user_shape \<Rightarrow> string \<Rightarrow> writer \<Rightarrow> 'st \<Rightarrow> (kv_error, unit) result \<times> writer \<times> 'st" where
  "DestroyUserSession m us sessionID w st =
     (case DeleteUserSessionKVDB m us sessionID st of (r, st1) \<Rightarrow> (r, DeleteUserSessionCookie w, st1))"

definition ExtendUserSessionKVDBWithTTL ::
    "('st, 'lk, 'up) CookieManager \<Rightarrow> user_shape \<Rightarrow> string \<Rightarrow> string \<Rightarrow> duration \<Rightarrow> 'st \<Rightarrow> 'st" where
  "ExtendUserSessionKVDBWithTTL m us sessionID uidStr ttl st =
     (let st1 = snd (Expire (cm_KVDB m) (UserSessionRowKey m sessionID) ttl st)
      in if us_MaxSessionsPerUser (ush_Conf us) > 0
         then snd (Expire (cm_KVDB m) (usrSessionListKey m uidStr) ttl st1) else st1)"

definition ExtendUserSessionKVDB ::
    "('st, 'lk, 'up) CookieManager \<Rightarrow> user_shape \<Rightarrow> string \<Rightarrow> string \<Rightarrow> 'st \<Rightarrow> 'st" where
  "ExtendUserSessionKVDB m us sessionID uidStr =
     ExtendUserSessionKVDBWithTTL m us sessionID uidStr (seconds (us_ExpireIn (ush_Conf us)))"

definition ExtendUserSessionCookieWithMaxAge :: "string \<Rightarrow> int \<Rightarrow> writer \<Rightarrow> writer" where
  "ExtendUserSessionCookieWithMaxAge encValue maxAge = SetCookie (user_cookie encValue maxAge)"

definition ExtendUserSessionCookie :: "user_shape \<Rightarrow> string \<Rightarrow> writer \<Rightarrow> writer" where
  "ExtendUserSessionCookie us encValue = ExtendUserSessionCookieWithMaxAge encValue (us_ExpireIn (ush_Conf us))"

definition ExtendUserSession ::
    "('st, 'lk, 'up) CookieManager \<Rightarrow> user_shape \<Rightarrow> string \<Rightarrow> string \<Rightarrow> string \<Rightarrow> writer \<Rightarrow> 'st \<Rightarrow> writer \<times> 'st" where
  "ExtendUserSession m us sessionID uidStr encCookieValue w st =
     (let st1 = ExtendUserSessionKVDB m us sessionID uidStr st
      in (ExtendUserSessionCookie us encCookieValue w, st1))"

definition VerifyUserSessionCookie ::
    "('st, 'lk, 'up) CookieManager \<Rightarrow> user_shape \<Rightarrow> request \<Rightarrow> 'st \<Rightarrow> gw_Error option \<times> 'st" where
  "VerifyUserSessionCookie m us r st =
     (case rq_cookies r UserCookieName of
        None \<Rightarrow> (Some CookieNotFound, st)
      | Some val \<Rightarrow>
     (case ec_DecodeDecrypt (ush_Cipher us) val (UserCookieCipherContext m) of
        Inl err \<Rightarrow> (Some (WithCause InvalidCookie (Some (Plain ''cookie cipher'' []))), st)
      | Inr cookieSessionID \<Rightarrow>
     (case UserSessionRowExists m cookieSessionID st of
        (Inl err, st1) \<Rightarrow> (Some (kvdb_failed ''verify user session cookie'' err), st1)
      | (Inr found, st1) \<Rightarrow> (if \<not> found then Some CookieSessionNotFound else None, st1))))"

definition UserSessionIDFromCookie :: "('st, 'lk, 'up) CookieManager \<Rightarrow> user_shape \<Rightarrow> request \<Rightarrow> string option" where
  "UserSessionIDFromCookie m us r =
     (case rq_cookies r UserCookieName of
        None \<Rightarrow> None
      | Some val \<Rightarrow> (case ec_DecodeDecrypt (ush_Cipher us) val (UserCookieCipherContext m) of
            Inl err \<Rightarrow> None | Inr sessionID \<Rightarrow> Some sessionID))"

definition UserLogoutRedirect ::
    "('st, 'lk, 'up) CookieManager \<Rightarrow> user_shape \<Rightarrow> request \<Rightarrow> string \<Rightarrow> writer \<Rightarrow> 'st \<Rightarrow> writer \<times> 'st" where
  "UserLogoutRedirect m us r redirectPath w st =
     (let st1 = (case UserSessionIDFromCookie m us r of
                   Some sessionID \<Rightarrow> snd (DeleteUserSessionKVDB m us sessionID st) | None \<Rightarrow> st)
      in (Redirect redirectPath StatusSeeOther (DeleteUserSessionCookie w), st1))"

section \<open>Anonymous sessions\<close>

record AnonymousSessionRow =
  ar_CSRF :: string

definition AnonymousSessionRowKey :: "('st, 'lk, 'up) CookieManager \<Rightarrow> string \<Rightarrow> string" where
  "AnonymousSessionRowKey m sessionID = cm_appName m @ '':ca:'' @ sessionID"

definition AnonymousSessionRowExists :: "('st, 'lk, 'up) CookieManager \<Rightarrow> string \<Rightarrow> ('st, bool) io" where
  "AnonymousSessionRowExists m sessionID = Exists (cm_KVDB m) (AnonymousSessionRowKey m sessionID)"

definition StoreAnonymousSession ::
    "('st, 'lk, 'up) CookieManager \<Rightarrow> anon_shape \<Rightarrow> string \<Rightarrow> string \<Rightarrow> 'st \<Rightarrow> (cookie_error, string) result \<times> 'st" where
  "StoreAnonymousSession m sh sessionID csrfTkn st =
     (case HashSetFieldsWithKeyTTL (cm_KVDB m) (AnonymousSessionRowKey m sessionID) [(''csrf'', csrfTkn)]
             (seconds (as_ExpireIn (ash_Conf sh))) st of
        (Inl err, st1) \<Rightarrow> (Inl (CookieStoreFailed err), st1)
      | (Inr _, st1) \<Rightarrow> (Inr sessionID, st1))"

definition anonymous_cookie :: "string \<Rightarrow> int \<Rightarrow> http_cookie" where
  "anonymous_cookie val maxAge = \<lparr>ck_Name = AnonymousCookieName, ck_Value = val, ck_Path = ''/'', ck_HttpOnly = True,
     ck_Secure = True, ck_MaxAge = maxAge, ck_SameSite = SameSiteLaxMode\<rparr>"

definition SetAnonymousSessionCookie ::
    "('st, 'lk, 'up) CookieManager \<Rightarrow> anon_shape \<Rightarrow> string \<Rightarrow> string \<Rightarrow> writer \<Rightarrow> (cookie_error, unit) result \<times> writer" where
  "SetAnonymousSessionCookie m sh nonce sessionID w =
     (case ec_EncryptEncode (ash_Cipher sh) nonce sessionID (AnonymousCookieCipherContext m) of
        Inl err \<Rightarrow> (Inl (SealFailed err), w)
      | Inr encSessionID \<Rightarrow> (Inr (), SetCookie (anonymous_cookie encSessionID (as_ExpireIn (ash_Conf sh))) w))"

definition CreateAnonymousSession ::
    "('st, 'lk, 'up) CookieManager \<Rightarrow> anon_shape \<Rightarrow> string \<Rightarrow> string \<Rightarrow> string \<Rightarrow> writer \<Rightarrow>
     'st \<Rightarrow> (cookie_error, string) result \<times> writer \<times> 'st" where
  "CreateAnonymousSession m sh nonce genID csrf w st =
     (case StoreAnonymousSession m sh genID csrf st of
        (Inl err, st1) \<Rightarrow> (Inl err, w, st1)
      | (Inr sid, st1) \<Rightarrow> (case SetAnonymousSessionCookie m sh nonce sid w of
            (Inl err, w1) \<Rightarrow> (Inl err, w1, st1)
          | (Inr _, w1) \<Rightarrow> (Inr sid, w1, st1)))"

definition FetchAnonymousSession :: "('st, 'lk, 'up) CookieManager \<Rightarrow> string \<Rightarrow> ('st, AnonymousSessionRow option) io" where
  "FetchAnonymousSession m sessionID st =
     (case HashGetFields (cm_KVDB m) (AnonymousSessionRowKey m sessionID) [''csrf''] st of
        (Inl err, st1) \<Rightarrow> (Inl err, st1)
      | (Inr fvs, st1) \<Rightarrow> (Inr (if fvs ''csrf'' = None then None else Some \<lparr>ar_CSRF = at_key fvs ''csrf''\<rparr>), st1))"

definition DeleteAnonymousSessionKVDB :: "('st, 'lk, 'up) CookieManager \<Rightarrow> string \<Rightarrow> ('st, unit) io" where
  "DeleteAnonymousSessionKVDB m sessionID st = (Inr (), snd (Delete (cm_KVDB m) [AnonymousSessionRowKey m sessionID] st))"

definition DeleteAnonymousSessionCookie :: "writer \<Rightarrow> writer" where
  "DeleteAnonymousSessionCookie = SetCookie (anonymous_cookie [] (- 1))"

definition DestroyAnonymousSession ::
    "('st, 'lk, 'up) CookieManager \<Rightarrow> string \<Rightarrow> writer \<Rightarrow> 'st \<Rightarrow> (kv_error, unit) result \<times> writer \<times> 'st" where
  "DestroyAnonymousSession m sessionID w st =
     (case DeleteAnonymousSessionKVDB m sessionID st of (r, st1) \<Rightarrow> (r, DeleteAnonymousSessionCookie w, st1))"

definition ExtendAnonymousSessionKVDBWithTTL :: "('st, 'lk, 'up) CookieManager \<Rightarrow> string \<Rightarrow> duration \<Rightarrow> 'st \<Rightarrow> 'st" where
  "ExtendAnonymousSessionKVDBWithTTL m sessionID ttl st = snd (Expire (cm_KVDB m) (AnonymousSessionRowKey m sessionID) ttl st)"

definition ExtendAnonymousSessionKVDB :: "('st, 'lk, 'up) CookieManager \<Rightarrow> anon_shape \<Rightarrow> string \<Rightarrow> 'st \<Rightarrow> 'st" where
  "ExtendAnonymousSessionKVDB m sh sessionID =
     ExtendAnonymousSessionKVDBWithTTL m sessionID (seconds (as_ExpireIn (ash_Conf sh)))"

definition ExtendAnonymousSessionCookieWithMaxAge :: "string \<Rightarrow> int \<Rightarrow> writer \<Rightarrow> writer" where
  "ExtendAnonymousSessionCookieWithMaxAge encValue maxAge = SetCookie (anonymous_cookie encValue maxAge)"

definition ExtendAnonymousSessionCookie :: "anon_shape \<Rightarrow> string \<Rightarrow> writer \<Rightarrow> writer" where
  "ExtendAnonymousSessionCookie sh encValue = ExtendAnonymousSessionCookieWithMaxAge encValue (as_ExpireIn (ash_Conf sh))"

definition ExtendAnonymousSession ::
    "('st, 'lk, 'up) CookieManager \<Rightarrow> anon_shape \<Rightarrow> string \<Rightarrow> string \<Rightarrow> writer \<Rightarrow> 'st \<Rightarrow> writer \<times> 'st" where
  "ExtendAnonymousSession m sh sessionID encCookieValue w st =
     (let st1 = ExtendAnonymousSessionKVDB m sh sessionID st
      in (ExtendAnonymousSessionCookie sh encCookieValue w, st1))"

definition VerifyAnonymousSessionCookie ::
    "('st, 'lk, 'up) CookieManager \<Rightarrow> anon_shape \<Rightarrow> request \<Rightarrow> 'st \<Rightarrow> gw_Error option \<times> 'st" where
  "VerifyAnonymousSessionCookie m sh r st =
     (case rq_cookies r AnonymousCookieName of
        None \<Rightarrow> (Some CookieNotFound, st)
      | Some val \<Rightarrow>
     (case ec_DecodeDecrypt (ash_Cipher sh) val (AnonymousCookieCipherContext m) of
        Inl err \<Rightarrow> (Some (WithCause InvalidCookie (Some (Plain ''cookie cipher'' []))), st)
      | Inr cookieSessionID \<Rightarrow>
     (case AnonymousSessionRowExists m cookieSessionID st of
        (Inl err, st1) \<Rightarrow> (Some (kvdb_failed ''verify anonymous session cookie'' err), st1)
      | (Inr found, st1) \<Rightarrow> (if \<not> found then Some CookieSessionNotFound else None, st1))))"

section \<open>The intended URI and the end of a login\<close>

definition intended_cookie :: "string \<Rightarrow> int \<Rightarrow> http_cookie" where
  "intended_cookie val maxAge = \<lparr>ck_Name = UserIntendedURICookieName, ck_Value = val, ck_Path = ''/'', ck_HttpOnly = True,
     ck_Secure = True, ck_MaxAge = maxAge, ck_SameSite = SameSiteLaxMode\<rparr>"

definition SetIntendedURICookie :: "request \<Rightarrow> int \<Rightarrow> writer \<Rightarrow> writer" where
  "SetIntendedURICookie r maxAge = SetCookie (intended_cookie (QueryEscape (rq_URI r)) maxAge)"

definition RemoveIntendedURICookie :: "writer \<Rightarrow> writer" where
  "RemoveIntendedURICookie = SetCookie (intended_cookie [] (- 1))"

text \<open>\<open>unparsable\<close> is where \<open>url.Parse\<close> returns an error.\<close>

definition TryRedirectIfIntendedURICookie :: "(string \<Rightarrow> bool) \<Rightarrow> request \<Rightarrow> string \<Rightarrow> writer \<Rightarrow> bool \<times> writer" where
  "TryRedirectIfIntendedURICookie unparsable r loginPath w =
     (case rq_cookies r UserIntendedURICookieName of
        None \<Rightarrow> (False, w)
      | Some val \<Rightarrow>
          (let w1 = RemoveIntendedURICookie w
           in case QueryUnescape val of
                None \<Rightarrow> (False, w1)
              | Some decodedURI \<Rightarrow>
                  if decodedURI = [] \<or> decodedURI = loginPath then (False, w1)
                  else if unparsable decodedURI \<or> IsAbs decodedURI then (False, w1)
                  else (True, Redirect decodedURI StatusSeeOther w1)))"

definition FinishLogin :: "(string \<Rightarrow> bool) \<Rightarrow> user_shape \<Rightarrow> request \<Rightarrow> string \<Rightarrow> string \<Rightarrow> writer \<Rightarrow> writer" where
  "FinishLogin unparsable us r sealedCookieValue successPath w =
     (case TryRedirectIfIntendedURICookie unparsable r (us_LoginPath (ush_Conf us)) (SetUserSessionCookie us sealedCookieValue w) of
        (True, w1) \<Rightarrow> w1
      | (False, w1) \<Rightarrow> Redirect successPath StatusSeeOther w1)"

section \<open>The wrappers\<close>

record 'uid UserSessionData =
  sd_ID :: string
  sd_UIDStr :: string
  sd_UID :: 'uid
  sd_CSRFTkn :: string

definition setIntendedURICookie :: "user_shape \<Rightarrow> request \<Rightarrow> writer \<Rightarrow> writer option" where
  "setIntendedURICookie us r w =
     (case us_IntendedURIExpireIn (ush_Conf us) of
        None \<Rightarrow> None
      | Some expireIn \<Rightarrow> Some (if expireIn > 0 then SetIntendedURICookie r expireIn w else w))"

text \<open>
  A refused request: the cookie is removed when it named no session, the URI saved, and the browser sent to the login.
  A manager without \<open>intended_uri_expire_in\<close> (which the boot refuses) would dereference nil: no answer.
\<close>

definition to_login :: "user_shape \<Rightarrow> request \<Rightarrow> bool \<Rightarrow> string \<Rightarrow> writer \<Rightarrow> writer" where
  "to_login us r clear query w =
     (let w1 = (if clear then DeleteUserSessionCookie w else w)
      in case setIntendedURICookie us r w1 of
           None \<Rightarrow> w1
         | Some w2 \<Rightarrow> Redirect (us_LoginPath (ush_Conf us) @ query) StatusSeeOther w2)"

definition authenticateCookieSession ::
    "(string \<Rightarrow> (go_error, 'uid) result) \<Rightarrow> ('st, 'lk, 'up) CookieManager \<Rightarrow> user_shape \<Rightarrow> request \<Rightarrow> writer \<Rightarrow>
     'st \<Rightarrow> ('uid UserSessionData \<times> string) option \<times> writer \<times> 'st" where
  "authenticateCookieSession ParseUID m us r w st =
     (case rq_cookies r UserCookieName of
        None \<Rightarrow> (None, to_login us r False ''?endpoint=protected'' w, st)
      | Some val \<Rightarrow>
     (case ec_DecodeDecrypt (ush_Cipher us) val (UserCookieCipherContext m) of
        Inl err \<Rightarrow> (None, to_login us r True ''?session=invalid'' w, st)
      | Inr sessionID \<Rightarrow>
     (case FetchUserSession m sessionID st of
        (Inl err, st1) \<Rightarrow>
          (None, AnswerJSON (WriteErrorJSON StatusInternalServerError (kvdb_failed ''failed to check session'' err)) w, st1)
      | (Inr None, st1) \<Rightarrow> (None, to_login us r True ''?session=expired'' w, st1)
      | (Inr (Some row), st1) \<Rightarrow>
     (case ParseUID (ur_UID row) of
        Inl err \<Rightarrow>
          (let st2 = snd (DeleteUserSessionKVDB m us sessionID st1)
           in (None, to_login us r True ''?session=invalid'' w, st2))
      | Inr uid \<Rightarrow>
          (Some (\<lparr>sd_ID = sessionID, sd_UIDStr = ur_UID row, sd_UID = uid, sd_CSRFTkn = ur_CSRF row\<rparr>, val), w, st1)))))"

type_synonym ('uid, 'st) handler = "'uid UserSessionData option \<Rightarrow> request \<Rightarrow> writer \<Rightarrow> 'st \<Rightarrow> writer \<times> 'st"

definition absoluteExpHandler ::
    "(string \<Rightarrow> (go_error, 'uid) result) \<Rightarrow> ('st, 'lk, 'up) CookieManager \<Rightarrow> user_shape \<Rightarrow> ('uid, 'st) handler \<Rightarrow>
     request \<Rightarrow> writer \<Rightarrow> 'st \<Rightarrow> writer \<times> 'st" where
  "absoluteExpHandler ParseUID m us inner r w st =
     (case authenticateCookieSession ParseUID m us r w st of
        (None, w1, st1) \<Rightarrow> (w1, st1)
      | (Some (sd, _), w1, st1) \<Rightarrow> inner (Some sd) r w1 st1)"

definition slidingExpHandler ::
    "(string \<Rightarrow> (go_error, 'uid) result) \<Rightarrow> ('st, 'lk, 'up) CookieManager \<Rightarrow> user_shape \<Rightarrow> ('uid, 'st) handler \<Rightarrow>
     request \<Rightarrow> writer \<Rightarrow> 'st \<Rightarrow> writer \<times> 'st" where
  "slidingExpHandler ParseUID m us inner r w st =
     (case authenticateCookieSession ParseUID m us r w st of
        (None, w1, st1) \<Rightarrow> (w1, st1)
      | (Some (sd, val), w1, st1) \<Rightarrow>
          (case TTL (cm_KVDB m) (UserSessionRowKey m (sd_ID sd)) st1 of
             (Inr (ttl, TTLExpiring), st2) \<Rightarrow>
               if ttl < seconds (us_ExtendThreshold (ush_Conf us))
               then (case ExtendUserSession m us (sd_ID sd) (sd_UIDStr sd) val w1 st2 of (w2, st3) \<Rightarrow> inner (Some sd) r w2 st3)
               else inner (Some sd) r w1 st2
           | (_, st2) \<Rightarrow> inner (Some sd) r w1 st2))"

text \<open>\<open>CookieUserSession.Wrap\<close>; \<open>admitted\<close> is what the session service's handle answers at the request.\<close>

definition CookieUserSession_Wrap ::
    "(string \<Rightarrow> (go_error, 'uid) result) \<Rightarrow> ('st, 'lk, 'up) CookieManager \<Rightarrow> user_shape \<Rightarrow> ('uid, 'st) handler \<Rightarrow>
     (string, bool \<Rightarrow> request \<Rightarrow> writer \<Rightarrow> 'st \<Rightarrow> writer \<times> 'st) result" where
  "CookieUserSession_Wrap ParseUID m us inner =
     (let gate = (\<lambda>auth admitted r w st.
            if \<not> admitted \<or> \<not> cm_enabled m
            then (AnswerJSON (WriteErrorJSON StatusServiceUnavailable (WithDetail SessionServiceUnavailable ''cookie user session'')) w, st)
            else auth r w st)
      in case us_ExpireMode (ush_Conf us) of
           ExpireAbsolute \<Rightarrow> Inr (gate (absoluteExpHandler ParseUID m us inner))
         | ExpireSliding \<Rightarrow> Inr (gate (slidingExpHandler ParseUID m us inner))
         | ExpireOther _ \<Rightarrow> Inl ''CookieUserSession: invalid cookie session expiration mode'')"

definition CSRFToken_Wrap :: "('uid, 'st) handler \<Rightarrow> ('uid, 'st) handler" where
  "CSRFToken_Wrap inner sd r w st =
     (let reqTkn = (if rq_CSRFHeader r = [] then rq_CSRFField r else rq_CSRFHeader r)
      in if reqTkn = [] then (AnswerJSON (WriteErrorJSON StatusForbidden CSRFTokenNotFound) w, st)
         else case sd of
           None \<Rightarrow> (AnswerJSON (WriteErrorJSON StatusInternalServerError (WithDetail DataMissingInContext ''SessionData'')) w, st)
         | Some d \<Rightarrow>
             if reqTkn \<noteq> sd_CSRFTkn d then (AnswerJSON (WriteErrorJSON StatusForbidden InvalidCSRFToken) w, st)
             else inner (Some d) r w st)"

section \<open>Boot\<close>

definition UserCookieCipherPurpose :: string where "UserCookieCipherPurpose = ''user-cookie''"
definition AnonymousCookieCipherPurpose :: string where "AnonymousCookieCipherPurpose = ''anonymous-cookie''"

text \<open>The decoded file: the parts that are there. \<open>None\<close> for the file is an unreadable or malformed one.\<close>

record SessionConf =
  sc_Keyring :: "KeyringConf option"
  sc_UserSession :: "UserSessionConf option"
  sc_AnonymousSession :: "AnonymousSessionConf option"

definition prepare_user ::
    "seal_fun \<Rightarrow> open_fun \<Rightarrow> (string \<Rightarrow> string \<Rightarrow> string option) \<Rightarrow> string \<Rightarrow> SessionConf \<Rightarrow>
     (cookie_conf_error, user_shape option) result" where
  "prepare_user Seal Open hkdf app conf =
     (case sc_UserSession conf of
        None \<Rightarrow> Inr None
      | Some uc \<Rightarrow> (case UserSessionConf_Validate uc of
            Some e \<Rightarrow> Inl e
          | None \<Rightarrow> (case NewKeyringCipher hkdf (sc_Keyring conf) app UserCookieCipherPurpose of
                Inl e \<Rightarrow> Inl (UserCipherRefused e)
              | Inr k \<Rightarrow> Inr (Some \<lparr>ush_Conf = uc, ush_Cipher = keyring_EncodedCipher Seal Open k\<rparr>))))"

definition prepare_anonymous ::
    "seal_fun \<Rightarrow> open_fun \<Rightarrow> (string \<Rightarrow> string \<Rightarrow> string option) \<Rightarrow> string \<Rightarrow> SessionConf \<Rightarrow>
     (cookie_conf_error, anon_shape option) result" where
  "prepare_anonymous Seal Open hkdf app conf =
     (case sc_AnonymousSession conf of
        None \<Rightarrow> Inr None
      | Some ac \<Rightarrow> (case AnonymousSessionConf_Validate ac of
            Some e \<Rightarrow> Inl e
          | None \<Rightarrow> (case NewKeyringCipher hkdf (sc_Keyring conf) app AnonymousCookieCipherPurpose of
                Inl e \<Rightarrow> Inl (AnonymousCipherRefused e)
              | Inr k \<Rightarrow> Inr (Some \<lparr>ash_Conf = ac, ash_Cipher = keyring_EncodedCipher Seal Open k\<rparr>))))"

definition PrepareCookieSessions ::
    "seal_fun \<Rightarrow> open_fun \<Rightarrow> (string \<Rightarrow> string \<Rightarrow> string option) \<Rightarrow> bool \<Rightarrow> string \<Rightarrow> 'st kvdb option \<Rightarrow> 'lk option \<Rightarrow>
     'up option \<Rightarrow> bool \<Rightarrow> SessionConf option \<Rightarrow> (cookie_conf_error, ('st, 'lk, 'up) CookieManager) result" where
  "PrepareCookieSessions Seal Open hkdf sessionServiceReady app mainKVDB lk fwUpstream useFWUpstream file =
     (if \<not> sessionServiceReady then Inl CookieSessionServiceNotReady
      else case file of
        None \<Rightarrow> Inl CookieConfUnreadable
      | Some conf \<Rightarrow>
     (case NewCookieManager app mainKVDB lk of
        Inl e \<Rightarrow> Inl (CookieManagerRefused e)
      | Inr mgr \<Rightarrow>
     (if useFWUpstream \<and> fwUpstream = None then Inl CookieUpstreamNotPrepared
      else
        (let mgr = (if useFWUpstream then mgr\<lparr>cm_FWUpstream := fwUpstream\<rparr> else mgr)
         in if (sc_UserSession conf \<noteq> None \<or> sc_AnonymousSession conf \<noteq> None) \<and> sc_Keyring conf = None then Inl NoKeyring
            else case prepare_user Seal Open hkdf app conf of
              Inl e \<Rightarrow> Inl e
            | Inr us \<Rightarrow> (case prepare_anonymous Seal Open hkdf app conf of
                Inl e \<Rightarrow> Inl e
              | Inr ash \<Rightarrow> Inr (cm_Enable (mgr\<lparr>cm_User := us, cm_Anonymous := ash\<rparr>)))))))"

end
