(* ===== verification/Bearer_Correct.thy ===== *)
theory Bearer_Correct
  imports Bearer_Sessions
begin

text \<open>
  What the bearer sessions of \<open>Bearer_Sessions\<close> guarantee over any store that keeps the promise of
  \<open>kvdb_store\<close>: row keys never collide, a created session can be fetched by its tokens, a rotation is one
  act of the store and a refresh token is spent at most once, the cap holds, the configuration
  loader accepts exactly the valid files, and where the handlers fall short.
\<close>

section \<open>Row keys\<close>

lemma row_keys_differ [simp]:
  "SessionRowKey app a \<noteq> AccessTokenRowKey app b" "SessionRowKey app a \<noteq> RefreshTokenRowKey app b"
  "AccessTokenRowKey app a \<noteq> RefreshTokenRowKey app b"
  "SessionRowKey app a = SessionRowKey app b \<longleftrightarrow> a = b"
  "AccessTokenRowKey app a = AccessTokenRowKey app b \<longleftrightarrow> a = b"
  "RefreshTokenRowKey app a = RefreshTokenRowKey app b \<longleftrightarrow> a = b"
  by (simp_all add: SessionRowKey_def AccessTokenRowKey_def RefreshTokenRowKey_def)

lemmas row_keys_differ_sym [simp] = row_keys_differ(1,2,3) [THEN not_sym]

definition seg :: "string \<Rightarrow> string" where
  "seg s = '':'' @ Itoa (int (length s)) @ '':'' @ s"

lemma writeLenPrefixed_seg: "writeLenPrefixed b s = b @ seg s"
  by (simp add: writeLenPrefixed_def seg_def)

lemma fold_writeLenPrefixed: "fold (\<lambda>v b. writeLenPrefixed b v) vs b = b @ concat (map seg vs)"
  by (induction vs arbitrary: b) (simp_all add: writeLenPrefixed_seg)

lemma CapBucketRowKey_segs: "CapBucketRowKey app g vs = app @ '':bcl'' @ concat (map seg (g # vs))"
  unfolding CapBucketRowKey_def fold_writeLenPrefixed by (simp add: writeLenPrefixed_seg)

lemma seg_append_inj: "seg a @ x = seg b @ y \<Longrightarrow> a = b \<and> x = y"
proof -
  assume h: "seg a @ x = seg b @ y"
  then have "Cut CHR '':'' (Itoa (int (length a)) @ CHR '':'' # (a @ x)) = Cut CHR '':'' (Itoa (int (length b)) @ CHR '':'' # (b @ y))"
    by (simp add: seg_def)
  then have "Itoa (int (length a)) = Itoa (int (length b))" "a @ x = b @ y" by simp_all
  then show ?thesis using Itoa_inj [of "int (length a)" "int (length b)"] by (simp add: append_eq_append_conv)
qed

lemma segs_inj: "concat (map seg xs) = concat (map seg ys) \<Longrightarrow> xs = ys"
proof (induction xs arbitrary: ys)
  case Nil
  then show ?case by (cases ys) (simp_all add: seg_def)
next
  case (Cons x xs)
  then show ?case
  proof (cases ys)
    case (Cons y ys')
    then show ?thesis using Cons.prems Cons.IH seg_append_inj [of x "concat (map seg xs)" y "concat (map seg ys')"] by auto
  qed (simp add: seg_def)
qed

lemma cap_key_differs [simp]: "SessionRowKey app a \<noteq> CapBucketRowKey app g vs"
  "AccessTokenRowKey app a \<noteq> CapBucketRowKey app g vs" "RefreshTokenRowKey app a \<noteq> CapBucketRowKey app g vs"
  by (simp_all add: SessionRowKey_def AccessTokenRowKey_def RefreshTokenRowKey_def CapBucketRowKey_segs)

lemmas cap_key_differs_sym [simp] = cap_key_differs [THEN not_sym]

lemma capBucketSize_exact: "capBucketSize app g vs = int (length (CapBucketRowKey app g vs))"
proof -
  have [simp]: "lenPrefixedSize s = int (length (seg s))" for s by (simp add: lenPrefixedSize_def seg_def)
  have "fold (\<lambda>v n. n + lenPrefixedSize v) vs n = n + int (length (concat (map seg vs)))" for vs n
    by (induction vs arbitrary: n) simp_all
  then show ?thesis by (simp add: capBucketSize_def CapBucketRowKey_segs)
qed

lemma CapBucketRowKey_inj: "CapBucketRowKey app g vs = CapBucketRowKey app g' vs' \<longleftrightarrow> g = g' \<and> vs = vs'"
  using segs_inj [of "g # vs" "g' # vs'"] by (auto simp: CapBucketRowKey_segs)

text \<open>
  Cap buckets never collide. Two buckets of an application have the same row key only for the
  same group and the same bind values, whatever characters they contain; the key is never the key
  of a session or token row; and the builder reserves exactly its length.
\<close>

theorem cap_bucket_keys_distinct:
  "(CapBucketRowKey app g vs = CapBucketRowKey app g' vs' \<longleftrightarrow> g = g' \<and> vs = vs') \<and>
   CapBucketRowKey app g vs \<noteq> SessionRowKey app sid \<and>
   CapBucketRowKey app g vs \<noteq> AccessTokenRowKey app h \<and>
   CapBucketRowKey app g vs \<noteq> RefreshTokenRowKey app h \<and>
   capBucketSize app g vs = int (length (CapBucketRowKey app g vs))"
  by (simp_all add: CapBucketRowKey_inj capBucketSize_exact)

section \<open>The rows of a store\<close>

definition rth_at :: "string \<Rightarrow> kvst \<Rightarrow> string \<Rightarrow> string option" where
  "rth_at app v sid = (case kv_get v (SessionRowKey app sid) of Some (VHash h, _) \<Rightarrow> map_of h ''rth'' | _ \<Rightarrow> None)"

definition row_at :: "string \<Rightarrow> kvst \<Rightarrow> string \<Rightarrow> SessionRow option" where
  "row_at app v sid = (case kv_get v (SessionRowKey app sid) of Some (VHash h, _) \<Rightarrow> row_of (map_of h) | _ \<Rightarrow> None)"

lemma map_of_hash_set: "map_of (hash_set fvs h) = map_of h ++ map_of (rev fvs)"
proof (induction fvs arbitrary: h)
  case (Cons fv fvs)
  obtain f x where fv: "fv = (f, x)" by force
  have "hash_set (fv # fvs) h = hash_set fvs (AList.update f x h)" by (simp add: hash_set_def fv)
  then show ?case using Cons
    by (simp add: fv update_conv' map_add_upd_left [symmetric] fun_upd_def map_add_def fun_eq_iff split: option.splits)
qed (simp add: hash_set_def)

lemma row_of_restrict: "row_of (\<lambda>f. if f \<in> set session_fields then m f else None) = row_of m"
  by (simp add: row_of_def session_fields_def at_key_def)

text \<open>A lifetime in whole seconds is kept exactly by a clock that ticks in a divisor of a second.\<close>

definition ttl_ok :: "duration \<Rightarrow> int \<Rightarrow> bool" where
  "ttl_ok P n \<longleftrightarrow> 0 < n \<and> P dvd time_Second \<and> is_i64 (n * time_Second + P)"

lemma ttl_ok_seconds:
  assumes "0 < P" "ttl_ok P n"
  shows "seconds n = n * time_Second" "is_i64 (seconds n + P)" "0 < n * time_Second"
    "span_ok P (seconds n) L \<Longrightarrow> L = n * time_Second"
proof -
  have n: "0 < n * time_Second" using assms by (simp add: ttl_ok_def time_Second_def)
  have "is_i64 (n * time_Second)"
    using is_i64_between [of 0 "n * time_Second + P" "n * time_Second"] assms n by (simp add: ttl_ok_def)
  then show s: "seconds n = n * time_Second" by (simp add: seconds_def)
  then show "is_i64 (seconds n + P)" using assms by (simp add: ttl_ok_def)
  show "0 < n * time_Second" by (rule n)
  show "L = n * time_Second" if "span_ok P (seconds n) L"
  proof -
    have "P dvd L - n * time_Second" "\<bar>L - n * time_Second\<bar> < P"
      using that assms unfolding s span_ok_def ttl_ok_def by auto
    then have "L - n * time_Second = 0" using zdvd_not_zless [of "\<bar>L - n * time_Second\<bar>" P] by fastforce
    then show ?thesis by simp
  qed
qed

lemma act_ttl_seconds:
  assumes "0 < P" "ttl_ok P n" "act_ttl P (seconds n) eff v out"
  shows "out = eff (n * time_Second) v"
proof -
  have "\<not> seconds n < 0" using ttl_ok_seconds(1,3) [OF assms(1,2)] by simp
  then obtain L where "span_ok P (seconds n) L" "out = eff L v" using assms(3) by (auto simp: act_ttl_def)
  then show ?thesis using ttl_ok_seconds(4) [OF assms(1,2)] by simp
qed

context kvdb_store
begin

lemma HashGetFields_ok:
  assumes "HashGetFields db k fs st = (Inr fvs, st')"
  shows "env (view st) (view st')"
    "(\<exists>h m. kv_get (view st') k = Some (VHash h, m) \<and> fvs = (\<lambda>f. if f \<in> set fs then map_of h f else None)) \<or>
     kv_get (view st') k = None \<and> fvs = Map.empty"
proof -
  obtain v where "env (view st) v" "act (eff_HashGetFields k fs) v (Inr fvs, view st')"
    using implementsD [OF HashGetFields_law assms] .
  then show "env (view st) (view st')"
    "(\<exists>h m. kv_get (view st') k = Some (VHash h, m) \<and> fvs = (\<lambda>f. if f \<in> set fs then map_of h f else None)) \<or>
     kv_get (view st') k = None \<and> fvs = Map.empty"
    by (auto simp: act_def eff_HashGetFields_def as_hash_def split: option.splits kv_value.splits prod.splits)
qed

lemma FetchSession_ok:
  assumes "FetchSession m sid st = (Inr r, st')" "sm_KVDB m = db"
  shows "env (view st) (view st')" "r = row_at (sm_appName m) (view st') sid"
proof -
  obtain fvs where f: "HashGetFields db (SessionRowKey (sm_appName m) sid) session_fields st = (Inr fvs, st')" and r: "r = row_of fvs"
    using assms by (auto simp: FetchSession_def split: prod.splits sum.splits)
  show "env (view st) (view st')" by (rule HashGetFields_ok(1) [OF f])
  have "row_of Map.empty = None" by (simp add: row_of_def session_fields_def)
  then show "r = row_at (sm_appName m) (view st') sid"
    using HashGetFields_ok(2) [OF f] by (auto simp: r row_at_def row_of_restrict)
qed

text \<open>A rotation that succeeds ran one act: the row was there with the presented hash, and now holds the new ones.\<close>

lemma rotate_ok:
  assumes r: "rotate H m sid row grp h na nr st = (Inr r, st')"
    and m: "sm_KVDB m = db" "ttl_ok P (grp_RefreshTTL grp)"
  obtains v st1 fvs mk where "r = (na, nr)" "env (view st) v"
    "kv_get v (SessionRowKey (sm_appName m) sid) = Some (VHash fvs, mk)" "map_of fvs ''rth'' = Some h"
    "view st1 = kv_put (SessionRowKey (sm_appName m) sid)
       (VHash (hash_set [(''ath'', H na), (''rth'', H nr)] fvs), kv_mark v (grp_RefreshTTL grp * time_Second)) v"
proof -
  note T = ttl_ok_seconds [OF precision_pos m(2)]
  obtain st1 where c: "HashSetFieldsWithKeyTTLIfFieldEquals db (SessionRowKey (sm_appName m) sid) ''rth'' h
      [(''ath'', H na), (''rth'', H nr)] (seconds (grp_RefreshTTL grp)) st = (Inr True, st1)" and e: "r = (na, nr)"
    using r m(1) by (auto simp: rotate_def Let_def split: prod.splits sum.splits bool.splits)
  obtain v where "env (view st) v" "act_ttl P (seconds (grp_RefreshTTL grp))
      (eff_HashSetFieldsWithKeyTTLIfFieldEquals (SessionRowKey (sm_appName m) sid) ''rth'' h [(''ath'', H na), (''rth'', H nr)])
      v (Inr True, view st1)"
    using implementsD [OF HashSetFieldsWithKeyTTLIfFieldEquals_law [OF _ T(2)] c] by auto
  then show thesis using that [OF e] T(3) act_ttl_seconds [OF precision_pos m(2)]
    by (fastforce simp: eff_HashSetFieldsWithKeyTTLIfFieldEquals_def as_hash_def
        split: if_splits option.splits kv_value.splits prod.splits)
qed

end

section \<open>A refresh token is spent once\<close>

text \<open>
  The store of an application under all its instances: rotations (the conditional write of
  STEP 5, its answer received or not), creations of sessions, and everything else that happens, which
  may remove a row, let it expire or change its other fields but writes no refresh hash. Generated
  tokens are new: the hash a rotation or a creation writes was not written before.
\<close>

record rot_sys =
  ro_store :: kvst
  ro_wins :: "(string \<times> string) list"
  ro_issued :: "string set"

inductive rot_step :: "string \<Rightarrow> duration \<Rightarrow> rot_sys \<Rightarrow> rot_sys \<Rightarrow> bool" for app P where
  rotates: "act_ttl P d (eff_HashSetFieldsWithKeyTTLIfFieldEquals (SessionRowKey app sid) ''rth'' h [(''ath'', a), (''rth'', h')])
      (ro_store s) (ans, v') \<Longrightarrow> h' \<notin> ro_issued s \<Longrightarrow>
    rot_step app P s \<lparr>ro_store = v', ro_wins = (if ans = Inr True then (sid, h) # ro_wins s else ro_wins s),
      ro_issued = insert h' (ro_issued s)\<rparr>"
| creates: "act_ttl P d (eff_HashSetFieldsWithKeyTTL (SessionRowKey app sid) fvs) (ro_store s) (ans, v') \<Longrightarrow>
    map_of (rev fvs) ''rth'' = Some h' \<Longrightarrow> h' \<notin> ro_issued s \<Longrightarrow>
    rot_step app P s \<lparr>ro_store = v', ro_wins = ro_wins s, ro_issued = insert h' (ro_issued s)\<rparr>"
| others: "(\<And>sid. rth_at app v' sid = rth_at app (ro_store s) sid \<or> rth_at app v' sid = None) \<Longrightarrow>
    rot_step app P s (s\<lparr>ro_store := v'\<rparr>)"

definition rot_init :: "string \<Rightarrow> rot_sys \<Rightarrow> bool" where
  "rot_init app s \<longleftrightarrow> ro_wins s = [] \<and> (\<forall>sid h. rth_at app (ro_store s) sid = Some h \<longrightarrow> h \<in> ro_issued s)"

definition rot_inv :: "string \<Rightarrow> rot_sys \<Rightarrow> bool" where
  "rot_inv app s \<longleftrightarrow> distinct (ro_wins s) \<and> snd ` set (ro_wins s) \<subseteq> ro_issued s \<and>
     (\<forall>sid h. rth_at app (ro_store s) sid = Some h \<longrightarrow> h \<in> ro_issued s \<and> (sid, h) \<notin> set (ro_wins s))"

lemma rth_at_upd [simp]:
  "rth_at app (kv_put (SessionRowKey app sid) (VHash fvs, kv_mark v L) v) sid' =
     (if sid' = sid then (if 0 \<le> L then map_of fvs ''rth'' else None) else rth_at app v sid')"
  "rth_at app (kv_del (SessionRowKey app sid) v) sid' = (if sid' = sid then None else rth_at app v sid')"
  by (auto simp: rth_at_def kv_mark_def)

lemma rotation_outcome:
  assumes "act_ttl P d (eff_HashSetFieldsWithKeyTTLIfFieldEquals (SessionRowKey app sid) ''rth'' h [(''ath'', a), (''rth'', h')]) v (ans, v')"
  shows "if ans = Inr True then rth_at app v sid = Some h \<and> (rth_at app v' sid = Some h' \<or> rth_at app v' sid = None) \<and>
      (\<forall>sid'. sid' \<noteq> sid \<longrightarrow> rth_at app v' sid' = rth_at app v sid') else v' = v"
proof (cases "d < 0")
  case False
  then obtain L where "(ans, v') = eff_HashSetFieldsWithKeyTTLIfFieldEquals (SessionRowKey app sid) ''rth'' h [(''ath'', a), (''rth'', h')] L v"
    using assms by (auto simp: act_ttl_def)
  then show ?thesis
    by (cases "kv_get v (SessionRowKey app sid)")
      (auto simp: eff_HashSetFieldsWithKeyTTLIfFieldEquals_def as_hash_def rth_at_def [of app v] map_of_hash_set
        split: if_splits kv_value.splits)
qed (use assms in \<open>simp add: act_ttl_def\<close>)

lemma creation_outcome:
  assumes "act_ttl P d (eff_HashSetFieldsWithKeyTTL (SessionRowKey app sid) fvs) v (ans, v')" "map_of (rev fvs) ''rth'' = Some h'"
  shows "rth_at app v' sid \<in> {Some h', None, rth_at app v sid}" "sid' \<noteq> sid \<Longrightarrow> rth_at app v' sid' = rth_at app v sid'"
proof -
  have "v' = v \<or> (\<exists>L. (ans, v') = eff_HashSetFieldsWithKeyTTL (SessionRowKey app sid) fvs L v)"
    using assms(1) by (auto simp: act_ttl_def split: if_splits)
  then show "rth_at app v' sid \<in> {Some h', None, rth_at app v sid}" "sid' \<noteq> sid \<Longrightarrow> rth_at app v' sid' = rth_at app v sid'"
    using assms(2)
    by (auto simp: eff_HashSetFieldsWithKeyTTL_def as_hash_def map_of_hash_set eff_Expire_def rth_at_def [of app "kv_put a b c" for a b c]
        rth_at_def [of app v] kv_mark_def split: if_splits option.splits kv_value.splits prod.splits)
qed

lemma rot_step_inv:
  assumes "rot_step app P s s'" "rot_inv app s"
  shows "rot_inv app s'"
  using assms
proof (cases rule: rot_step.cases)
  case (rotates d sid h a h' ans v')
  note out = rotation_outcome [OF rotates(2)]
  show ?thesis
  proof (cases "ans = Inr True")
    case True
    then have o: "rth_at app (ro_store s) sid = Some h" "rth_at app v' sid = Some h' \<or> rth_at app v' sid = None"
      "\<And>sid'. sid' \<noteq> sid \<Longrightarrow> rth_at app v' sid' = rth_at app (ro_store s) sid'"
      using out by simp_all
    have "x \<in> insert h' (ro_issued s) \<and> (sid', x) \<notin> insert (sid, h) (set (ro_wins s))" if "rth_at app v' sid' = Some x" for sid' x
      using that o assms(2) rotates(3) by (cases "sid' = sid") (auto simp: rot_inv_def image_subset_iff)
    then show ?thesis using True o(1) assms(2) by (auto simp: rotates(1) rot_inv_def)
  next
    case False
    then show ?thesis using out assms(2) by (auto simp: rotates(1) rot_inv_def)
  qed
next
  case (creates d sid fvs ans v' h')
  have "x \<in> insert h' (ro_issued s) \<and> (sid', x) \<notin> set (ro_wins s)" if "rth_at app v' sid' = Some x" for sid' x
    using that creation_outcome [OF creates(2,3)] assms(2) creates(4)
    by (cases "sid' = sid") (auto simp: rot_inv_def image_subset_iff)
  then show ?thesis using assms(2) by (auto simp: creates(1) rot_inv_def)
next
  case (others v')
  have "rth_at app v' sid = Some x \<Longrightarrow> rth_at app (ro_store s) sid = Some x" for sid x
    using others(2) [of sid] by simp
  then show ?thesis using assms(2) by (simp add: others(1) rot_inv_def) blast
qed

lemma rot_reach_inv: "reach (rot_init app) (rot_step app P) s \<Longrightarrow> rot_inv app s"
proof (induction rule: reach_invariant)
  case (init s)
  then show ?case by (simp add: rot_init_def rot_inv_def)
qed (rule rot_step_inv)

text \<open>The other acts of the manager, and time, are steps of the third kind.\<close>

lemma eff_Delete_get: "snd (eff_Delete ks v) = fold kv_del ks v"
proof (induction ks arbitrary: v)
  case (Cons k ks)
  then show ?case by (auto split: prod.splits sum.splits) (metis snd_conv)+
qed simp

lemma fold_kv_del_get: "kv_get (fold kv_del ks v) k = (if k \<in> set ks then None else kv_get v k)"
  by (induction ks arbitrary: v) auto

lemma other_acts:
  "act_ttl P d (eff_SetValue (AccessTokenRowKey app h) x) v (ans, v') \<Longrightarrow> rth_at app v' sid = rth_at app v sid"
  "act_ttl P d (eff_SetValue (RefreshTokenRowKey app h) x) v (ans, v') \<Longrightarrow> rth_at app v' sid = rth_at app v sid"
  "act_ttl P d (eff_ListPushTrimOverCap (CapBucketRowKey app g bs) x n) v (ans3, v') \<Longrightarrow> rth_at app v' sid = rth_at app v sid"
  "act_ttl P d (eff_Expire (CapBucketRowKey app g bs)) v (ans4, v') \<Longrightarrow> rth_at app v' sid = rth_at app v sid"
  "act (eff_Delete ks) v (ans5, v') \<Longrightarrow> rth_at app v' sid = rth_at app v sid \<or> rth_at app v' sid = None"
  "kv_clock v \<le> t \<Longrightarrow> rth_at app (v\<lparr>kv_clock := t\<rparr>) sid = rth_at app v sid \<or> rth_at app (v\<lparr>kv_clock := t\<rparr>) sid = None"
proof -
  show "rth_at app v' sid = rth_at app v sid \<or> rth_at app v' sid = None" if "act (eff_Delete ks) v (ans5, v')"
    using that eff_Delete_get [of ks v] by (auto simp: act_def rth_at_def fold_kv_del_get dest!: sym [of "(ans5, v')"] split: if_splits)
  show "rth_at app (v\<lparr>kv_clock := t\<rparr>) sid = rth_at app v sid \<or> rth_at app (v\<lparr>kv_clock := t\<rparr>) sid = None" if "kv_clock v \<le> t"
    using that by (auto simp: rth_at_def kv_get_def split: option.splits)
qed (auto simp: act_ttl_def eff_SetValue_def eff_ListPushTrimOverCap_def eff_Expire_def rth_at_def Let_def as_list_def
      split: if_splits option.splits kv_value.splits prod.splits)

text \<open>The groups of a manager have lifetimes the store keeps exactly.\<close>

definition manager_ok :: "duration \<Rightarrow> ('st, 'lk, 'up) SessionManager \<Rightarrow> bool" where
  "manager_ok P m \<longleftrightarrow> (\<forall>c conf. sm_ClientConfs m c = Some conf \<longrightarrow>
     ttl_ok P (grp_AccessTTL (cli_Group conf)) \<and> ttl_ok P (grp_RefreshTTL (cli_Group conf)))"

lemma ExtendSession_rotates:
  assumes "ExtendSession H m now na nr rt st = (Inr r, st')"
  obtains sid row conf st4 where "sm_ClientConfs m (row_ClientID row) = Some conf" "row_RefreshTokenHash row = H rt"
    "rotate H m sid row (cli_Group conf) (H rt) na nr st4 = (Inr r, st')"
  using assms by (auto simp: ExtendSession_def Let_def split: prod.splits sum.splits option.splits if_splits)


section \<open>A created session can be fetched\<close>

text \<open>
  \<open>holds T v k x\<close>: the store has \<open>x\<close> under \<open>k\<close> until its clock passes \<open>T\<close>. The other clients leave the rows of the
  session alone (\<open>undisturbed\<close>): they do not write the keys \<open>K\<close> or put the id on a list, and clocks do not run back.
\<close>

definition holds :: "time \<Rightarrow> kvst \<Rightarrow> string \<Rightarrow> kv_value \<Rightarrow> bool" where
  "holds T v k x \<longleftrightarrow> (\<exists>mark. kv_data v k = Some (x, Some mark) \<and> T \<le> mark)"

definition unlisted :: "string \<Rightarrow> string \<Rightarrow> kvst \<Rightarrow> bool" where
  "unlisted sid k v \<longleftrightarrow> (\<forall>xs mk. kv_data v k = Some (VList xs, mk) \<longrightarrow> sid \<notin> set xs)"

definition undisturbed :: "(kvst \<Rightarrow> kvst \<Rightarrow> bool) \<Rightarrow> string set \<Rightarrow> string \<Rightarrow> bool" where
  "undisturbed env K sid \<longleftrightarrow> (\<forall>v v'. env v v' \<longrightarrow> kv_clock v \<le> kv_clock v' \<and>
     (\<forall>k\<in>K. kv_data v' k = kv_data v k) \<and> (\<forall>k. unlisted sid k v \<longrightarrow> unlisted sid k v'))"

lemma undisturbedD:
  assumes "undisturbed env K sid" "env v v'"
  shows "kv_clock v \<le> kv_clock v'" "k \<in> K \<Longrightarrow> holds T v k x \<Longrightarrow> holds T v' k x" "unlisted sid k' v \<Longrightarrow> unlisted sid k' v'"
  using assms by (auto simp: undisturbed_def holds_def)

lemma holds_put: "k \<noteq> k' \<Longrightarrow> holds T (kv_put k' e v) k x = holds T v k x"
  by (simp add: holds_def kv_put_def)

lemma holds_put_mark: "T \<le> kv_clock v + L \<Longrightarrow> holds T (kv_put k (x, kv_mark v L) v) k x"
  by (simp add: holds_def kv_put_def kv_mark_def)

lemma fold_kv_del_data: "kv_data (fold kv_del ks v) k = (if k \<in> set ks then None else kv_data v k)"
  by (induction ks arbitrary: v) (auto simp: kv_del_def)

lemma fold_kv_del_clock [simp]: "kv_clock (fold kv_del ks v) = kv_clock v"
  by (induction ks arbitrary: v) auto

lemma unlisted_put: "k \<noteq> k' \<Longrightarrow> unlisted sid k (kv_put k' e v) = unlisted sid k v"
  by (simp add: unlisted_def kv_put_def)

lemma holds_get: "holds T v k x \<Longrightarrow> kv_clock v \<le> T \<Longrightarrow> \<exists>mk. kv_get v k = Some (x, mk)"
  by (auto simp: holds_def kv_get_def)

context kvdb_store
begin

lemma SetValue_ok:
  assumes "SetValue db k x (seconds n) st = (Inr u, st')" "ttl_ok P n"
  obtains v where "env (view st) v" "view st' = kv_put k (VStr x, kv_mark v (n * time_Second)) v"
proof -
  note T = ttl_ok_seconds [OF precision_pos assms(2)]
  obtain v where "env (view st) v" "act_ttl P (seconds n) (eff_SetValue k x) v (Inr u, view st')"
    using implementsD [OF SetValue_law [OF T(2)] assms(1)] .
  then show thesis
    using that [of v] T(3) act_ttl_seconds [OF precision_pos assms(2), of "eff_SetValue k x" v "(Inr u, view st')"]
    by (simp add: eff_SetValue_def)
qed

lemma HashSetFieldsWithKeyTTL_ok:
  assumes "HashSetFieldsWithKeyTTL db k fvs (seconds n) st = (Inr u, st')" "ttl_ok P n" "fvs \<noteq> []"
  obtains v h where "env (view st) v" "view st' = kv_put k (VHash (hash_set fvs h), kv_mark v (n * time_Second)) v"
proof -
  note T = ttl_ok_seconds [OF precision_pos assms(2)]
  obtain v where v: "env (view st) v" "act_ttl P (seconds n) (eff_HashSetFieldsWithKeyTTL k fvs) v (Inr u, view st')"
    using implementsD [OF HashSetFieldsWithKeyTTL_law [OF T(2)] assms(1)] .
  have "(Inr u, view st') = eff_HashSetFieldsWithKeyTTL k fvs (n * time_Second) v"
    using act_ttl_seconds [OF precision_pos assms(2) v(2)] .
  then show thesis
    using that v(1) T(3) assms(3) by (auto simp: eff_HashSetFieldsWithKeyTTL_def split: sum.splits prod.splits)
qed

lemma Delete_any:
  assumes "Delete db ks st = (r, st')"
  obtains v where "env (view st) v" "view st' = v \<or> view st' = fold kv_del ks v"
proof (cases r)
  case (Inr n)
  then show thesis using implementsD [OF Delete_law] assms that eff_Delete_get [of ks] by (metis act_def snd_conv)
next
  case (Inl e)
  then show thesis using implements_errorD [OF Delete_law] assms that eff_Delete_get [of ks] by (metis act_def snd_conv)
qed

text \<open>A push under a cap: the list keeps the newest, the rows of the oldest are deleted, as far as the deletion reaches the store.\<close>

lemma PushEvictOverCap_call:
  assumes "PushEvictOverCap db b sid n (seconds t) pre st = (Inr u, st')" "ttl_ok P t"
  obtains v st1 xs mk where "env (view st) v" "0 < n" "as_list (kv_get v b) = Inr (xs, mk)"
    "view st1 = kv_put b (VList (drop (length xs + 1 - nat n) (xs @ [sid])), kv_mark v (t * time_Second)) v"
    "st' = (if take (length xs + 1 - nat n) (xs @ [sid]) = [] then st1
            else snd (Delete db (map ((@) pre) (take (length xs + 1 - nat n) (xs @ [sid]))) st1))"
proof -
  note T = ttl_ok_seconds [OF precision_pos assms(2)]
  obtain ev st1 where c: "ListPushTrimOverCap db b sid n (seconds t) st = (Inr ev, st1)"
    and st': "st' = (if ev = [] then st1 else snd (Delete db (map ((@) pre) ev) st1))"
    using assms(1) by (auto simp: PushEvictOverCap_def split: prod.splits sum.splits if_splits)
  obtain v where v: "env (view st) v" "act_ttl P (seconds t) (eff_ListPushTrimOverCap b sid n) v (Inr ev, view st1)"
    using implementsD [OF ListPushTrimOverCap_law [OF T(2)] c] .
  have e: "(Inr ev, view st1) = eff_ListPushTrimOverCap b sid n (t * time_Second) v"
    using act_ttl_seconds [OF precision_pos assms(2) v(2)] .
  then obtain xs mk where l: "0 < n" "as_list (kv_get v b) = Inr (xs, mk)"
    using T(3) by (auto simp: eff_ListPushTrimOverCap_def split: if_splits sum.splits)
  then have ev: "ev = take (length xs + 1 - nat n) (xs @ [sid])" and
    w: "view st1 = kv_put b (VList (drop (length xs + 1 - nat n) (xs @ [sid])), kv_mark v (t * time_Second)) v"
    using e T(3) by (auto simp: eff_ListPushTrimOverCap_def Let_def)
  show thesis using that [OF v(1) l w] st' unfolding ev .
qed

lemma PushEvictOverCap_ok:
  assumes "PushEvictOverCap db b sid n (seconds t) pre st = (Inr u, st')" "ttl_ok P t"
  obtains v w xs mk where "env (view st) v" "0 < n" "as_list (kv_get v b) = Inr (xs, mk)"
    "w = kv_put b (VList (drop (length xs + 1 - nat n) (xs @ [sid])), kv_mark v (t * time_Second)) v"
    "view st' = w \<or> (\<exists>w'. env w w' \<and>
       (view st' = w' \<or> view st' = fold kv_del (map ((@) pre) (take (length xs + 1 - nat n) (xs @ [sid]))) w'))"
proof -
  obtain v st1 xs mk where v: "env (view st) v" "0 < n" "as_list (kv_get v b) = Inr (xs, mk)"
    "view st1 = kv_put b (VList (drop (length xs + 1 - nat n) (xs @ [sid])), kv_mark v (t * time_Second)) v"
    and st': "st' = (if take (length xs + 1 - nat n) (xs @ [sid]) = [] then st1
            else snd (Delete db (map ((@) pre) (take (length xs + 1 - nat n) (xs @ [sid]))) st1))"
    using PushEvictOverCap_call [OF assms] .
  obtain r st2 where d: "Delete db (map ((@) pre) (take (length xs + 1 - nat n) (xs @ [sid]))) st1 = (r, st2)" by force
  show thesis
    by (rule that [OF v]) (unfold st' d snd_conv, rule Delete_any [OF d], auto)
qed

lemma PushEvictOverCap_deletes:
  assumes "PushEvictOverCap db b sid n (seconds t) pre st = (Inr u, st')" "ttl_ok P t"
  obtains w xs mk where "0 < n" "kv_get w b = Some (VList (drop (length xs + 1 - nat n) (xs @ [sid])), Some mk)"
    "(\<forall>ks s. \<exists>n s'. Delete db ks s = (Inr n, s')) \<longrightarrow>
       (\<forall>e\<in>set (take (length xs + 1 - nat n) (xs @ [sid])). kv_get (view st') (pre @ e) = None)"
proof -
  obtain v st1 xs mk where v: "0 < n"
    "view st1 = kv_put b (VList (drop (length xs + 1 - nat n) (xs @ [sid])), kv_mark v (t * time_Second)) v"
    and st': "st' = (if take (length xs + 1 - nat n) (xs @ [sid]) = [] then st1
            else snd (Delete db (map ((@) pre) (take (length xs + 1 - nat n) (xs @ [sid]))) st1))"
    using PushEvictOverCap_call [OF assms] by metis
  show thesis
  proof (rule that [OF v(1)])
    show "kv_get (view st1) b = Some (VList (drop (length xs + 1 - nat n) (xs @ [sid])), Some (kv_clock v + t * time_Second))"
      using ttl_ok_seconds(3) [OF precision_pos assms(2)] by (simp add: v(2) kv_mark_def del: drop_append)
    show "(\<forall>ks s. \<exists>n s'. Delete db ks s = (Inr n, s')) \<longrightarrow>
       (\<forall>e\<in>set (take (length xs + 1 - nat n) (xs @ [sid])). kv_get (view st') (pre @ e) = None)"
    proof
    assume "\<forall>ks s. \<exists>n s'. Delete db ks s = (Inr n, s')"
    then obtain k st2 where d: "Delete db (map ((@) pre) (take (length xs + 1 - nat n) (xs @ [sid]))) st1 = (Inr k, st2)" by blast
    obtain v' where "act (eff_Delete (map ((@) pre) (take (length xs + 1 - nat n) (xs @ [sid])))) v' (Inr k, view st2)"
      using implementsD [OF Delete_law d] .
    then have "view st2 = fold kv_del (map ((@) pre) (take (length xs + 1 - nat n) (xs @ [sid]))) v'"
      unfolding act_def eff_Delete_get [symmetric] by (metis snd_conv)
    then show "\<forall>e\<in>set (take (length xs + 1 - nat n) (xs @ [sid])). kv_get (view st') (pre @ e) = None"
      unfolding st' d by (simp add: fold_kv_del_get del: take_append)
    qed
  qed
qed

end

definition created_row :: "(string \<Rightarrow> string) \<Rightarrow> SessionGroupConf \<Rightarrow> (string \<rightharpoonup> string) \<Rightarrow> string \<Rightarrow> string \<Rightarrow> int \<Rightarrow> SessionRow" where
  "created_row H grp binds at rt now =
     \<lparr>row_UID = at_key binds ''user'', row_ClientID = at_key binds ''client'', row_GroupName = grp_Name grp,
      row_AccessTokenHash = H at, row_RefreshTokenHash = H rt, row_RefreshChainStartAt = now\<rparr>"

lemma ParseInt_value_Itoa: "is_i64 n \<Longrightarrow> ParseInt_value (Itoa n) = n"
  by (auto simp: ParseInt_value_def Itoa_def Let_def hd_nat_digits is_i64_def)

lemma created_row_of:
  "is_i64 now \<Longrightarrow> row_of (map_of (hash_set (umbrella_fields H grp binds at rt now) h)) = Some (created_row H grp binds at rt now)"
  by (simp add: row_of_def map_of_hash_set umbrella_fields_def session_fields_def at_key_def [of "map_add a b" for a b]
      at_key_def [of "fun_upd a b c" for a b c] created_row_def ParseInt_value_Itoa)

text \<open>The keys of a session, and the moments its rows last to.\<close>

definition session_keys :: "(string \<Rightarrow> string) \<Rightarrow> string \<Rightarrow> string \<Rightarrow> string \<Rightarrow> string \<Rightarrow> string set" where
  "session_keys H app sid at rt = {SessionRowKey app sid, AccessTokenRowKey app (H at), RefreshTokenRowKey app (H rt)}"

definition session_stored ::
    "(string \<Rightarrow> string) \<Rightarrow> string \<Rightarrow> SessionGroupConf \<Rightarrow> (string \<rightharpoonup> string) \<Rightarrow> string \<Rightarrow> string \<Rightarrow> string \<Rightarrow> int \<Rightarrow> time \<Rightarrow> kvst \<Rightarrow> bool" where
  "session_stored H app grp binds sid at rt now t0 v \<longleftrightarrow>
     (\<exists>h. holds (t0 + grp_RefreshTTL grp * time_Second) v (SessionRowKey app sid) (VHash (hash_set (umbrella_fields H grp binds at rt now) h))) \<and>
     holds (t0 + grp_AccessTTL grp * time_Second) v (AccessTokenRowKey app (H at)) (VStr sid) \<and>
     holds (t0 + grp_RefreshTTL grp * time_Second) v (RefreshTokenRowKey app (H rt)) (VStr sid)"

lemma session_stored_env:
  assumes "undisturbed env (session_keys H app sid at rt) sid" "env v v'" "session_stored H app grp binds sid at rt now t0 v"
  shows "session_stored H app grp binds sid at rt now t0 v'"
  using undisturbedD(2) [OF assms(1,2)] assms(3) by (auto simp: session_stored_def session_keys_def)

lemma session_stored_evict:
  assumes "sid \<notin> set ev" "session_stored H app grp binds sid at rt now t0 v"
  shows "session_stored H app grp binds sid at rt now t0 (fold kv_del (map ((@) (SessionRowKey app [])) ev) v)"
proof -
  have "SessionRowKey app [] @ x = SessionRowKey app x" for x by (simp add: SessionRowKey_def)
  then show ?thesis using assms by (auto simp: session_stored_def holds_def fold_kv_del_data)
qed

lemma as_list_unlisted: "as_list (kv_get v b) = Inr (xs, mk) \<Longrightarrow> unlisted sid b v \<Longrightarrow> sid \<notin> set xs"
  by (auto simp: as_list_def unlisted_def kv_get_def split: option.splits kv_value.splits prod.splits if_splits)

lemma evicted_not_newest: "sid \<notin> set xs \<Longrightarrow> 0 < (n::int) \<Longrightarrow> sid \<notin> set (take (length xs + 1 - nat n) (xs @ [sid]))"
  by (auto dest: in_set_takeD)

context kvdb_store
begin

lemma CreateSession_stores:
  assumes run: "CreateSession H m now sid at rt grp binds st = (Inr r, st')" and db: "sm_KVDB m = db"
    and ttl: "ttl_ok P (grp_AccessTTL grp)" "ttl_ok P (grp_RefreshTTL grp)"
    and quiet: "undisturbed env (session_keys H (sm_appName m) sid at rt) sid"
    and new: "\<And>g vs. unlisted sid (CapBucketRowKey (sm_appName m) g vs) (view st)"
  shows "r = (sid, at, rt)" "session_stored H (sm_appName m) grp binds sid at rt now (kv_clock (view st)) (view st')"
proof -
  let ?app = "sm_appName m" and ?t = "kv_clock (view st)"
  obtain st1 st2 st3 u1 u2 u3 where
    c1: "HashSetFieldsWithKeyTTL db (SessionRowKey ?app sid) (umbrella_fields H grp binds at rt now) (seconds (grp_RefreshTTL grp)) st = (Inr u1, st1)" and
    c2: "SetValue db (AccessTokenRowKey ?app (H at)) sid (seconds (grp_AccessTTL grp)) st1 = (Inr u2, st2)" and
    c3: "SetValue db (RefreshTokenRowKey ?app (H rt)) sid (seconds (grp_RefreshTTL grp)) st2 = (Inr u3, st3)" and
    r: "r = (sid, at, rt)" and
    c4: "st' = st3 \<or> (\<exists>b u. (\<exists>g vs. b = CapBucketRowKey ?app g vs) \<and> (\<exists>n. PushEvictOverCap db b sid n (seconds (grp_RefreshTTL grp)) (SessionRowKey ?app []) st3 = (Inr u, st')))"
    using run unfolding CreateSession_def Let_def db cap_bucket_def
    by (auto split: prod.splits sum.splits option.splits)
  show "r = (sid, at, rt)" by (rule r)
  obtain v1 h where v1: "env (view st) v1" and w1: "view st1 = kv_put (SessionRowKey ?app sid)
      (VHash (hash_set (umbrella_fields H grp binds at rt now) h), kv_mark v1 (grp_RefreshTTL grp * time_Second)) v1"
    using HashSetFieldsWithKeyTTL_ok [OF c1 ttl(2)] by (auto simp: umbrella_fields_def)
  obtain v2 where v2: "env (view st1) v2" and w2: "view st2 = kv_put (AccessTokenRowKey ?app (H at)) (VStr sid, kv_mark v2 (grp_AccessTTL grp * time_Second)) v2"
    using SetValue_ok [OF c2 ttl(1)] .
  obtain v3 where v3: "env (view st2) v3" and w3: "view st3 = kv_put (RefreshTokenRowKey ?app (H rt)) (VStr sid, kv_mark v3 (grp_RefreshTTL grp * time_Second)) v3"
    using SetValue_ok [OF c3 ttl(2)] .
  note q = undisturbedD [OF quiet]
  have t1: "?t \<le> kv_clock v1" using q(1) [OF v1] .
  have t2: "?t \<le> kv_clock v2" using q(1) [OF v2] t1 by (simp add: w1)
  have t3: "?t \<le> kv_clock v3" using q(1) [OF v3] t2 by (simp add: w2)
  let ?U = "VHash (hash_set (umbrella_fields H grp binds at rt now) h)" and ?T = "?t + grp_RefreshTTL grp * time_Second"
  have "holds ?T (view st1) (SessionRowKey ?app sid) ?U" using t1 by (simp add: w1 holds_put_mark)
  then have "holds ?T v2 (SessionRowKey ?app sid) ?U" using q(2) [OF v2] by (simp add: session_keys_def)
  then have "holds ?T v3 (SessionRowKey ?app sid) ?U" using q(2) [OF v3] by (simp add: session_keys_def w2 holds_put)
  moreover have "holds (?t + grp_AccessTTL grp * time_Second) v3 (AccessTokenRowKey ?app (H at)) (VStr sid)"
    using q(2) [OF v3] t2 by (simp add: session_keys_def w2 holds_put_mark)
  ultimately have s3: "session_stored H ?app grp binds sid at rt now ?t (view st3)"
    using t3 by (auto simp: session_stored_def w3 holds_put holds_put_mark)
  have "unlisted sid (CapBucketRowKey ?app g vs) v1" for g vs using q(3) [OF v1] new by blast
  then have "unlisted sid (CapBucketRowKey ?app g vs) v2" for g vs using q(3) [OF v2] by (simp add: w1 unlisted_put)
  then have u3: "unlisted sid (CapBucketRowKey ?app g vs) (view st3)" for g vs using q(3) [OF v3] by (simp add: w2 w3 unlisted_put)
  show "session_stored H ?app grp binds sid at rt now ?t (view st')"
    using c4
  proof (elim disjE exE conjE)
    fix b u g vs n
    assume b: "b = CapBucketRowKey ?app g vs"
      and p: "PushEvictOverCap db b sid n (seconds (grp_RefreshTTL grp)) (SessionRowKey ?app []) st3 = (Inr u, st')"
    obtain v w xs mk where v: "env (view st3) v" "0 < n" "as_list (kv_get v b) = Inr (xs, mk)"
      and w: "w = kv_put b (VList (drop (length xs + 1 - nat n) (xs @ [sid])), kv_mark v (grp_RefreshTTL grp * time_Second)) v"
      and e: "view st' = w \<or> (\<exists>w'. env w w' \<and> (view st' = w' \<or>
        view st' = fold kv_del (map ((@) (SessionRowKey ?app [])) (take (length xs + 1 - nat n) (xs @ [sid]))) w'))"
      using PushEvictOverCap_ok [OF p ttl(2)] by metis
    have ev: "sid \<notin> set (take (length xs + 1 - nat n) (xs @ [sid]))"
      using evicted_not_newest [OF as_list_unlisted [OF v(3)] v(2)] q(3) [OF v(1)] u3 b by blast
    have "session_stored H ?app grp binds sid at rt now ?t w"
      using session_stored_env [OF quiet v(1) s3] by (simp add: session_stored_def w b holds_put)
    then show ?thesis using e session_stored_env [OF quiet] session_stored_evict [OF ev] by metis
  qed (use s3 in simp)
qed

end

context kvdb_store
begin

text \<open>Fetching through a token row that holds the id of a stored session.\<close>

lemma fetch_stored:
  assumes st: "session_stored H (sm_appName m) grp binds sid at rt now t0 (view st)" and now: "is_i64 now"
    and quiet: "undisturbed env (session_keys H (sm_appName m) sid at rt) sid" and db: "sm_KVDB m = db"
    and k: "k \<in> session_keys H (sm_appName m) sid at rt" "holds T (view st) k (VStr sid)"
    and get: "GetValue db k st = (Inr x, st1)"
    and rest: "(case x of None \<Rightarrow> (Inr None, st1) | Some sid \<Rightarrow> FetchSession m sid st1) = (Inr row, st2)"
    and t: "kv_clock (view st2) \<le> T" "kv_clock (view st2) \<le> t0 + grp_RefreshTTL grp * time_Second"
  shows "row = Some (created_row H grp binds at rt now)"
proof -
  have e1: "env (view st) (view st1)" and g: "case x of None \<Rightarrow> kv_get (view st1) k = None | Some y \<Rightarrow> \<exists>m. kv_get (view st1) k = Some (VStr y, m)"
    using GetValue_ok [OF get] by auto
  note q = undisturbedD [OF quiet]
  have c: "kv_clock (view st1) \<le> kv_clock (view st2)"
  proof (cases x)
    case (Some y)
    then show ?thesis using q(1) FetchSession_ok(1) [OF _ db] rest by auto
  qed (use rest in auto)
  have "\<exists>mk. kv_get (view st1) k = Some (VStr sid, mk)"
    using holds_get [OF q(2) [OF e1 k]] c t(1) by simp
  then have x: "x = Some sid" using g by (auto split: option.splits)
  then have f: "FetchSession m sid st1 = (Inr row, st2)" using rest by simp
  have "session_stored H (sm_appName m) grp binds sid at rt now t0 (view st2)"
    using session_stored_env [OF quiet FetchSession_ok(1) [OF f db] session_stored_env [OF quiet e1 st]] .
  then obtain h where "holds (t0 + grp_RefreshTTL grp * time_Second) (view st2) (SessionRowKey (sm_appName m) sid)
      (VHash (hash_set (umbrella_fields H grp binds at rt now) h))"
    by (auto simp: session_stored_def)
  from holds_get [OF this t(2)] show ?thesis
    using FetchSession_ok(2) [OF f db] created_row_of [OF now, of H grp binds at rt h] by (auto simp: row_at_def)
qed

end

text \<open>
  C23: A created session can be fetched. When \<open>CreateSession\<close> returns, it returns the id and tokens it generated,
  and from then on a fetch by the access token gives the row it wrote (user, client, group, hashes, start
  of the refresh chain) until the access lifetime is over, and a fetch by the refresh token until the refresh lifetime
  is over, counted from the moment the creation was called; in particular the cap never evicts the session just created.
  The other clients may do anything but write these three rows or list the new id.
\<close>

theorem created_session_fetchable:
  assumes store: "kvdb_store (sm_KVDB m) view env P"
    and ttl: "ttl_ok P (grp_AccessTTL grp)" "ttl_ok P (grp_RefreshTTL grp)" and now: "is_i64 now"
    and quiet: "undisturbed env (session_keys H (sm_appName m) sid at rt) sid"
    and new: "\<And>g vs. unlisted sid (CapBucketRowKey (sm_appName m) g vs) (view st)"
    and run: "CreateSession H m now sid at rt grp binds st = (Inr r, st1)"
  shows "r = (sid, at, rt) \<and>
    (FetchSessionByAccessToken H m at st1 = (Inr row, st2) \<longrightarrow>
      kv_clock (view st2) \<le> kv_clock (view st) + min (grp_AccessTTL grp) (grp_RefreshTTL grp) * time_Second \<longrightarrow>
      row = Some (created_row H grp binds at rt now)) \<and>
    (FetchSessionByRefreshToken H m rt st1 = (Inr row, st2) \<longrightarrow>
      kv_clock (view st2) \<le> kv_clock (view st) + grp_RefreshTTL grp * time_Second \<longrightarrow>
      row = Some (created_row H grp binds at rt now))"
proof (intro conjI impI)
  note c = kvdb_store.CreateSession_stores [OF store run refl ttl quiet new]
  show "r = (sid, at, rt)" by (rule c(1))
  have a: "holds (kv_clock (view st) + grp_AccessTTL grp * time_Second) (view st1) (AccessTokenRowKey (sm_appName m) (H at)) (VStr sid)"
    and b: "holds (kv_clock (view st) + grp_RefreshTTL grp * time_Second) (view st1) (RefreshTokenRowKey (sm_appName m) (H rt)) (VStr sid)"
    using c(2) by (simp_all add: session_stored_def)
  show "row = Some (created_row H grp binds at rt now)"
    if f: "FetchSessionByAccessToken H m at st1 = (Inr row, st2)"
      and t: "kv_clock (view st2) \<le> kv_clock (view st) + min (grp_AccessTTL grp) (grp_RefreshTTL grp) * time_Second"
  proof -
    obtain x sta where g: "GetValue (sm_KVDB m) (AccessTokenRowKey (sm_appName m) (H at)) st1 = (Inr x, sta)"
      "(case x of None \<Rightarrow> (Inr None, sta) | Some sid \<Rightarrow> FetchSession m sid sta) = (Inr row, st2)"
      using f by (auto simp: FetchSessionByAccessToken_def split: prod.splits sum.splits option.splits)
    have le: "kv_clock (view st2) \<le> kv_clock (view st) + grp_AccessTTL grp * time_Second"
      "kv_clock (view st2) \<le> kv_clock (view st) + grp_RefreshTTL grp * time_Second"
      using t by (auto simp: time_Second_def min_def split: if_splits)
    show ?thesis
      by (rule kvdb_store.fetch_stored [OF store c(2) now quiet refl _ a g le]) (simp add: session_keys_def)
  qed
  show "row = Some (created_row H grp binds at rt now)"
    if f: "FetchSessionByRefreshToken H m rt st1 = (Inr row, st2)"
      and t: "kv_clock (view st2) \<le> kv_clock (view st) + grp_RefreshTTL grp * time_Second"
  proof -
    obtain x sta where g: "GetValue (sm_KVDB m) (RefreshTokenRowKey (sm_appName m) (H rt)) st1 = (Inr x, sta)"
      "(case x of None \<Rightarrow> (Inr None, sta) | Some sid \<Rightarrow> FetchSession m sid sta) = (Inr row, st2)"
      using f by (auto simp: FetchSessionByRefreshToken_def split: prod.splits sum.splits option.splits)
    show ?thesis
      by (rule kvdb_store.fetch_stored [OF store c(2) now quiet refl _ b g t t]) (simp add: session_keys_def)
  qed
qed

text \<open>A sample manager over a database nobody else uses, whose round trips may fail as told.\<close>

definition sample_group :: SessionGroupConf where
  "sample_group = \<lparr>grp_Name = ''web'', grp_Binds = [''client'', ''user''], grp_Cap = Some \<lparr>cap_Max = 2, cap_By = [''user'']\<rparr>,
     grp_AccessTTL = 60, grp_RefreshTTL = 600, grp_RefreshChainTTL = 3600, grp_Clients = [(''spa'', Some ''c1'')]\<rparr>"

definition sample_manager :: "(unit net, unit, unit) SessionManager" where
  "sample_manager = \<lparr>sm_ClientConfs = [''c1'' \<mapsto> \<lparr>cli_Name = ''spa'', cli_ID = ''c1'', cli_Group = sample_group\<rparr>],
     sm_GroupConfs = [''web'' \<mapsto> sample_group], sm_FWUpstream = None, sm_appName = ''app'', sm_KVDB = net_DB (\<lambda>_ s. s),
     sm_lockingManager = (), sm_enabled = True\<rparr>"

definition sample_world :: "fault list \<Rightarrow> unit net" where
  "sample_world faults = \<lparr>nt_store = \<lparr>kv_clock = 0, kv_data = Map.empty\<rparr>, nt_now = 0, nt_moves = [], nt_faults = faults\<rparr>"

definition sample_H :: "string \<Rightarrow> string" where
  "sample_H t = CHR ''#'' # t"

definition sample_create :: "unit net \<Rightarrow> (kv_error, string \<times> string \<times> string) result \<times> unit net" where
  "sample_create = CreateSession sample_H sample_manager 7 ''s1'' ''at'' ''rt'' sample_group [''client'' \<mapsto> ''c1'', ''user'' \<mapsto> ''u1'']"

lemma sample_store: "kvdb_store (sm_KVDB sample_manager) nt_store (env_of (\<lambda>(_::unit) s. s)) millis"
  using kvdb_store_net by (simp add: sample_manager_def)

lemma sample_ttl: "ttl_ok millis (grp_AccessTTL sample_group)" "ttl_ok millis (grp_RefreshTTL sample_group)"
  by (simp_all add: ttl_ok_def sample_group_def millis_def time_Second_def is_i64_def)

lemma sample_undisturbed: "undisturbed (env_of (\<lambda>(_::unit) s. s)) K sid"
  by (auto simp: undisturbed_def)

lemma sample_created:
  "fst (sample_create (sample_world [])) = Inr (''s1'', ''at'', ''rt'')"
  by code_simp

lemma sample_fetched:
  "map_sum id (\<lambda>r. r \<noteq> None) (fst (FetchSessionByAccessToken sample_H sample_manager ''at'' (snd (sample_create (sample_world []))))) = Inr True"
  "kv_clock (nt_store (snd (FetchSessionByAccessToken sample_H sample_manager ''at'' (snd (sample_create (sample_world [])))))) = 0"
  by code_simp+

theorem created_session_fetchable_witness:
  "fst (FetchSessionByAccessToken sample_H sample_manager ''at'' (snd (sample_create (sample_world [])))) =
     Inr (Some (created_row sample_H sample_group [''client'' \<mapsto> ''c1'', ''user'' \<mapsto> ''u1''] ''at'' ''rt'' 7))"
proof -
  obtain st1 where c: "sample_create (sample_world []) = (Inr (''s1'', ''at'', ''rt''), st1)"
    using sample_created by (metis prod.collapse)
  obtain row st2 where f: "FetchSessionByAccessToken sample_H sample_manager ''at'' st1 = (Inr row, st2)"
    using sample_fetched(1) unfolding c snd_conv
    by (cases "FetchSessionByAccessToken sample_H sample_manager ''at'' st1"; cases "fst (FetchSessionByAccessToken sample_H sample_manager ''at'' st1)") auto
  have t: "kv_clock (nt_store st2) = 0" using sample_fetched(2) unfolding c snd_conv f .
  have "row = Some (created_row sample_H sample_group [''client'' \<mapsto> ''c1'', ''user'' \<mapsto> ''u1''] ''at'' ''rt'' 7)"
  proof (rule created_session_fetchable [OF sample_store sample_ttl _ sample_undisturbed _ c [unfolded sample_create_def],
        THEN conjunct2, THEN conjunct1, rule_format, OF _ _ f])
    show "is_i64 7" by (simp add: is_i64_def)
    show "unlisted ''s1'' (CapBucketRowKey (sm_appName sample_manager) g vs) (nt_store (sample_world []))" for g vs
      by (simp add: unlisted_def sample_world_def)
    show "kv_clock (nt_store st2) \<le> kv_clock (nt_store (sample_world [])) + min (grp_AccessTTL sample_group) (grp_RefreshTTL sample_group) * time_Second"
      by (simp add: t sample_world_def sample_group_def time_Second_def)
  qed
  then show ?thesis unfolding c snd_conv f by simp
qed

definition sample_extend :: "string \<Rightarrow> unit net \<Rightarrow> (gw_Error, string \<times> string) result \<times> unit net" where
  "sample_extend = ExtendSession sample_H sample_manager 8 ''at2'' ''rt2''"

lemma sample_extended: "fst (sample_extend ''rt'' (snd (sample_create (sample_world [])))) = Inr (''at2'', ''rt2'')"
  by code_simp

lemma sample_manager_ok: "manager_ok millis sample_manager"
  using sample_ttl by (auto simp: manager_ok_def sample_manager_def split: if_splits)


section \<open>Caps\<close>



section \<open>The configuration file\<close>

definition group_ok :: "string \<Rightarrow> SessionGroupConf option \<Rightarrow> bool" where
  "group_ok n g \<longleftrightarrow> n \<noteq> [] \<and> (case g of None \<Rightarrow> False | Some g \<Rightarrow>
     set (grp_Binds g) \<subseteq> {''client'', ''user''} \<and> ''client'' \<in> set (grp_Binds g) \<and>
     grp_Clients g \<noteq> [] \<and> 0 < grp_AccessTTL g \<and> 0 < grp_RefreshTTL g \<and> grp_RefreshTTL g \<le> grp_RefreshChainTTL g \<and>
     (case grp_Cap g of None \<Rightarrow> True | Some cap \<Rightarrow> 0 < cap_Max cap \<longrightarrow> cap_By cap \<noteq> [] \<and> set (cap_By cap) \<subseteq> set (grp_Binds g)))"

definition clients_of :: "string \<times> SessionGroupConf option \<Rightarrow> (string \<times> string option) list" where
  "clients_of p = (case snd p of None \<Rightarrow> [] | Some g \<Rightarrow> grp_Clients g)"

definition conf_valid :: "(string \<times> SessionGroupConf option) list \<Rightarrow> bool" where
  "conf_valid gs \<longleftrightarrow> (\<forall>(n, g)\<in>set gs. group_ok n g) \<and>
     (let cs = concat (map clients_of gs) in distinct (map fst cs) \<and> distinct (map snd cs) \<and> None \<notin> snd ` set cs)"

lemma checks_ok:
  assumes "n \<noteq> []"
  shows "group_ok n (Some g) \<longleftrightarrow> check_binds (g\<lparr>grp_Name := n\<rparr>) = None \<and> grp_Clients g \<noteq> [] \<and>
     check_ttls (g\<lparr>grp_Name := n\<rparr>) = None \<and> check_cap (g\<lparr>grp_Name := n\<rparr>) = None"
proof -
  have f: "(case find Q xs of None \<Rightarrow> y | Some b \<Rightarrow> Some (e b)) = None \<longleftrightarrow> (\<forall>x\<in>set xs. \<not> Q x) \<and> y = None"
    for Q xs y and e :: "string \<Rightarrow> bearer_conf_error"
    using find_None_iff [of Q xs] by (auto split: option.splits)
  have "check_binds (g\<lparr>grp_Name := n\<rparr>) = None \<longleftrightarrow> set (grp_Binds g) \<subseteq> {''client'', ''user''} \<and> ''client'' \<in> set (grp_Binds g)"
    by (auto simp: check_binds_def f validBearerBinds_def)
  moreover have "check_cap (g\<lparr>grp_Name := n\<rparr>) = None \<longleftrightarrow>
      (case grp_Cap g of None \<Rightarrow> True | Some cap \<Rightarrow> 0 < cap_Max cap \<longrightarrow> cap_By cap \<noteq> [] \<and> set (cap_By cap) \<subseteq> set (grp_Binds g))"
    by (auto simp: check_cap_def f split: option.split)
  moreover have "check_ttls (g\<lparr>grp_Name := n\<rparr>) = None \<longleftrightarrow>
      0 < grp_AccessTTL g \<and> 0 < grp_RefreshTTL g \<and> grp_RefreshTTL g \<le> grp_RefreshChainTTL g"
    by (auto simp: check_ttls_def)
  ultimately show ?thesis using assms by (auto simp: group_ok_def)
qed

text \<open>What one group adds to the maps, and when it can be added.\<close>

lemma add_clients_ok:
  "(\<exists>acc'. add_clients grp cs acc = Inr acc') \<longleftrightarrow> None \<notin> snd ` set cs \<and> distinct (map fst cs) \<and> distinct (map snd cs) \<and>
     (\<forall>n\<in>fst ` set cs. ca_names acc n = None) \<and> (\<forall>i. Some i \<in> snd ` set cs \<longrightarrow> ca_ids acc i = None)"
proof (induction cs arbitrary: acc)
  case (Cons c cs)
  obtain n i where c: "c = (n, i)" by force
  show ?case
  proof (cases "ca_names acc n = None \<and> i \<noteq> None \<and> ca_ids acc (the i) = None")
    case True
    then obtain cid where i: "i = Some cid" "ca_names acc n = None" "ca_ids acc cid = None" by auto
    let ?acc = "\<lparr>ca_names = (ca_names acc)(n \<mapsto> grp_Name grp), ca_ids = (ca_ids acc)(cid \<mapsto> grp_Name grp),
           ca_confs = (ca_confs acc)(cid \<mapsto> \<lparr>cli_Name = n, cli_ID = cid, cli_Group = grp\<rparr>)\<rparr>"
    have "add_clients grp (c # cs) acc = add_clients grp cs ?acc" using i by (simp add: c)
    then have "(\<exists>acc'. add_clients grp (c # cs) acc = Inr acc') \<longleftrightarrow> (\<exists>acc'. add_clients grp cs ?acc = Inr acc')" by simp
    also have "\<dots> \<longleftrightarrow> None \<notin> snd ` set cs \<and> distinct (map fst cs) \<and> distinct (map snd cs) \<and>
      (\<forall>k\<in>fst ` set cs. k \<noteq> n \<and> ca_names acc k = None) \<and> (\<forall>k. Some k \<in> snd ` set cs \<longrightarrow> k \<noteq> cid \<and> ca_ids acc k = None)"
      unfolding Cons by (simp split: if_splits) blast
    finally show ?thesis using i by (auto simp: c)
  next
    case False
    have "\<exists>e. add_clients grp (c # cs) acc = Inl e"
      using False by (auto simp: c split: option.splits)
    then show ?thesis using False by (auto simp: c)
  qed
qed simp

lemma add_clients_dom:
  "add_clients grp cs acc = Inr acc' \<Longrightarrow>
     dom (ca_names acc') = dom (ca_names acc) \<union> fst ` set cs \<and>
     dom (ca_ids acc') = dom (ca_ids acc) \<union> {i. Some i \<in> snd ` set cs}"
proof (induction grp cs acc rule: add_clients.induct)
  case (2 grp n client cs acc)
  then obtain cid where c: "client = Some cid" "ca_names acc n = None" "ca_ids acc cid = None"
    by (auto split: option.splits)
  have "add_clients grp cs \<lparr>ca_names = (ca_names acc)(n \<mapsto> grp_Name grp), ca_ids = (ca_ids acc)(cid \<mapsto> grp_Name grp),
      ca_confs = (ca_confs acc)(cid \<mapsto> \<lparr>cli_Name = n, cli_ID = cid, cli_Group = grp\<rparr>)\<rparr> = Inr acc'" using 2(2) c by simp
  from 2(1) [OF c(2) c(1) c(3) this] show ?case unfolding c(1) by (auto simp del: fun_upd_apply)
qed simp

lemma add_clients_confs:
  "add_clients grp cs acc = Inr acc' \<Longrightarrow> dom (ca_confs acc) \<subseteq> dom (ca_ids acc) \<Longrightarrow>
     dom (ca_confs acc') \<subseteq> dom (ca_ids acc') \<and>
     (ca_confs acc' i = Some conf \<longleftrightarrow> ca_confs acc i = Some conf \<or>
       (\<exists>n. (n, Some i) \<in> set cs \<and> conf = \<lparr>cli_Name = n, cli_ID = i, cli_Group = grp\<rparr>))"
proof (induction grp cs acc rule: add_clients.induct)
  case (2 grp n client cs acc)
  then obtain cid where c: "client = Some cid" "ca_names acc n = None" "ca_ids acc cid = None"
    by (auto split: option.splits)
  have run: "add_clients grp cs \<lparr>ca_names = (ca_names acc)(n \<mapsto> grp_Name grp), ca_ids = (ca_ids acc)(cid \<mapsto> grp_Name grp),
      ca_confs = (ca_confs acc)(cid \<mapsto> \<lparr>cli_Name = n, cli_ID = cid, cli_Group = grp\<rparr>)\<rparr> = Inr acc'" using 2(2) c by simp
  have new: "ca_confs acc cid = None" using c(3) 2(3) by blast
  have "dom ((ca_confs acc)(cid \<mapsto> \<lparr>cli_Name = n, cli_ID = cid, cli_Group = grp\<rparr>)) \<subseteq> dom ((ca_ids acc)(cid \<mapsto> grp_Name grp))"
    using 2(3) by (auto simp del: fun_upd_apply)
  from 2(1) [OF c(2) c(1) c(3) run, unfolded conf_acc.simps, OF this] show ?case
    unfolding c(1) using new by (cases "i = cid") auto
qed simp

lemma load_groups_Cons:
  "load_groups ((n, g) # gs) acc = Inr acc' \<longleftrightarrow> group_ok n g \<and>
     (\<exists>g' acc1. g = Some g' \<and> add_clients (g'\<lparr>grp_Name := n\<rparr>) (grp_Clients g') acc = Inr acc1 \<and> load_groups gs acc1 = Inr acc')"
proof (cases "n = []")
  case False
  show ?thesis
  proof (cases g)
    case (Some g')
    then show ?thesis using False by (auto simp: checks_ok [OF False] Let_def split: sum.splits option.splits)
  qed (simp add: group_ok_def)
qed (simp add: group_ok_def)

lemma none_on_dom: "(\<forall>n\<in>N. f n = None) \<longleftrightarrow> N \<inter> dom f = {}" "(\<forall>i. Some i \<in> S \<longrightarrow> h i = None) \<longleftrightarrow> {i. Some i \<in> S} \<inter> dom h = {}"
  by auto

lemma merge_clients:
  "(G \<and> (None \<notin> S1 \<and> D1 \<and> E1 \<and> N1 \<inter> A = {} \<and> {i. Some i \<in> S1} \<inter> B = {}) \<and> F \<and> None \<notin> S2 \<and> D2 \<and> E2 \<and>
      N2 \<inter> (A \<union> N1) = {} \<and> {i. Some i \<in> S2} \<inter> (B \<union> {i. Some i \<in> S1}) = {}) \<longleftrightarrow>
   (G \<and> F \<and> None \<notin> S1 \<union> S2 \<and> (D1 \<and> D2 \<and> N1 \<inter> N2 = {}) \<and> (E1 \<and> E2 \<and> S1 \<inter> S2 = {}) \<and> (N1 \<union> N2) \<inter> A = {} \<and>
      {i. Some i \<in> S1 \<union> S2} \<inter> B = {})"
proof (cases "None \<in> S1")
  case False
  then have "x \<in> S1 \<Longrightarrow> \<exists>i. x = Some i" for x by (cases x) auto
  then have "S1 \<inter> S2 = {} \<longleftrightarrow> {i. Some i \<in> S2} \<inter> {i. Some i \<in> S1} = {}" by blast
  moreover have "{i. Some i \<in> S1 \<union> S2} = {i. Some i \<in> S1} \<union> {i. Some i \<in> S2}" by blast
  ultimately show ?thesis by (simp add: Int_Un_distrib Int_Un_distrib2) blast
qed simp

lemma ex_conj_swap: "(\<And>a. A a \<Longrightarrow> B a = C) \<Longrightarrow> (G \<and> (\<exists>a. A a \<and> B a)) = (G \<and> (\<exists>a. A a) \<and> C)"
  by blast

lemma load_groups_ok:
  "(\<exists>acc'. load_groups gs acc = Inr acc') \<longleftrightarrow> (\<forall>(n, g)\<in>set gs. group_ok n g) \<and>
     (let cs = concat (map clients_of gs) in None \<notin> snd ` set cs \<and> distinct (map fst cs) \<and> distinct (map snd cs) \<and>
       fst ` set cs \<inter> dom (ca_names acc) = {} \<and> {i. Some i \<in> snd ` set cs} \<inter> dom (ca_ids acc) = {})"
proof (induction gs arbitrary: acc)
  case (Cons ng gs)
  obtain n g where ng: "ng = (n, g)" by force
  show ?case
  proof (cases g)
    case None
    then show ?thesis by (auto simp: ng group_ok_def)
  next
    case (Some g')
    let ?cs = "grp_Clients g'" and ?ds = "concat (map clients_of gs)"
    have cs: "concat (map clients_of (ng # gs)) = ?cs @ ?ds" by (simp add: ng Some clients_of_def)
    have "(\<exists>acc'. load_groups (ng # gs) acc = Inr acc') \<longleftrightarrow> group_ok n g \<and>
      (\<exists>acc1. add_clients (g'\<lparr>grp_Name := n\<rparr>) ?cs acc = Inr acc1 \<and> (\<exists>acc'. load_groups gs acc1 = Inr acc'))"
      unfolding ng load_groups_Cons by (auto simp: Some)
    also have "\<dots> \<longleftrightarrow> group_ok n g \<and> (\<exists>acc1. add_clients (g'\<lparr>grp_Name := n\<rparr>) ?cs acc = Inr acc1) \<and> (\<forall>(n, g)\<in>set gs. group_ok n g) \<and>
      None \<notin> snd ` set ?ds \<and> distinct (map fst ?ds) \<and> distinct (map snd ?ds) \<and>
      fst ` set ?ds \<inter> (dom (ca_names acc) \<union> fst ` set ?cs) = {} \<and>
      {i. Some i \<in> snd ` set ?ds} \<inter> (dom (ca_ids acc) \<union> {i. Some i \<in> snd ` set ?cs}) = {}"
      (is "_ \<longleftrightarrow> _ \<and> _ \<and> ?C")
    proof (rule ex_conj_swap)
      show "(\<exists>acc'. load_groups gs acc1 = Inr acc') \<longleftrightarrow> ?C" if "add_clients (g'\<lparr>grp_Name := n\<rparr>) ?cs acc = Inr acc1" for acc1
        unfolding Cons.IH Let_def add_clients_dom [OF that, THEN conjunct1] add_clients_dom [OF that, THEN conjunct2] ..
    qed
    also have "\<dots> \<longleftrightarrow> group_ok n g \<and> (\<forall>(n, g)\<in>set gs. group_ok n g) \<and> None \<notin> snd ` set (?cs @ ?ds) \<and>
      distinct (map fst (?cs @ ?ds)) \<and> distinct (map snd (?cs @ ?ds)) \<and> fst ` set (?cs @ ?ds) \<inter> dom (ca_names acc) = {} \<and>
      {i. Some i \<in> snd ` set (?cs @ ?ds)} \<inter> dom (ca_ids acc) = {}"
      unfolding add_clients_ok map_append distinct_append set_append image_Un set_map none_on_dom by (rule merge_clients)
    finally show ?thesis unfolding cs Let_def by (simp add: ng)
  qed
qed simp

lemma load_groups_confs:
  "load_groups gs acc = Inr acc' \<Longrightarrow> dom (ca_confs acc) \<subseteq> dom (ca_ids acc) \<Longrightarrow>
     ca_confs acc' i = Some conf \<longleftrightarrow> ca_confs acc i = Some conf \<or>
       (\<exists>n g c. (n, Some g) \<in> set gs \<and> (c, Some i) \<in> set (grp_Clients g) \<and>
         conf = \<lparr>cli_Name = c, cli_ID = i, cli_Group = g\<lparr>grp_Name := n\<rparr>\<rparr>)"
proof (induction gs arbitrary: acc)
  case (Cons ng gs)
  obtain n g where ng: "ng = (n, g)" by force
  obtain g' acc1 where g: "g = Some g'" "add_clients (g'\<lparr>grp_Name := n\<rparr>) (grp_Clients g') acc = Inr acc1" "load_groups gs acc1 = Inr acc'"
    using Cons.prems(1) unfolding ng load_groups_Cons by blast
  note a = add_clients_confs [OF g(2) Cons.prems(2), of i conf]
  show ?case unfolding ng g(1) Cons.IH [OF g(3) conjunct1 [OF a]] conjunct2 [OF a] by (simp add: ex_disj_distrib conj_disj_distribR disj_assoc)
qed simp

text \<open>
  The boot accepts exactly the valid files. With the session service, the database, a named application and, if asked for, the
  upstream prepared, \<open>PrepareBearerSessions\<close> gives a manager iff every group of the file is valid and no client
  name or id occurs twice in the whole file, in whatever order the maps are walked; the manager is enabled, finds under a
  client id exactly the client of the file with that id, with its group, and every client it finds has a group with valid lifetimes.
\<close>

theorem bearer_conf_accepted_iff_valid:
  fixes db :: "'st kvdb" and lk :: 'lk and up :: "'up option"
  assumes app: "app \<noteq> []" and up: "use \<Longrightarrow> up \<noteq> None"
  shows "((\<exists>m. PrepareBearerSessions app (Some (Some lk)) (Some db) up (Some gs) use = Inr m) \<longleftrightarrow> conf_valid gs) \<and>
    (PrepareBearerSessions app (Some (Some lk)) (Some db) up (Some gs) use = Inr m \<longrightarrow>
      sm_enabled m \<and> sm_appName m = app \<and>
      (sm_ClientConfs m i = Some conf \<longleftrightarrow> (\<exists>n g c. (n, Some g) \<in> set gs \<and> (c, Some i) \<in> set (grp_Clients g) \<and>
         conf = \<lparr>cli_Name = c, cli_ID = i, cli_Group = g\<lparr>grp_Name := n\<rparr>\<rparr>)) \<and>
      (sm_ClientConfs m i = Some conf \<longrightarrow> 0 < grp_AccessTTL (cli_Group conf) \<and> 0 < grp_RefreshTTL (cli_Group conf) \<and>
         ''client'' \<in> set (grp_Binds (cli_Group conf))))"
proof (rule conjI; (intro impI)?)
  let ?e = "\<lparr>ca_names = Map.empty, ca_ids = Map.empty, ca_confs = Map.empty\<rparr>"
  have run: "PrepareBearerSessions app (Some (Some lk)) (Some db) up (Some gs) use = Inr m \<longleftrightarrow>
      (\<exists>acc. load_groups gs ?e = Inr acc \<and> m = \<lparr>sm_ClientConfs = ca_confs acc, sm_GroupConfs = group_confs gs,
        sm_FWUpstream = (if use then up else None), sm_appName = app, sm_KVDB = db, sm_lockingManager = lk, sm_enabled = True\<rparr>)"
    for m :: "('st, 'lk, 'up) SessionManager"
    using app up by (auto simp: PrepareBearerSessions_def NewSessionManager_def sm_Enable_def Option.is_none_def split: sum.splits)
  have "(\<exists>m. PrepareBearerSessions app (Some (Some lk)) (Some db) up (Some gs) use = Inr m) \<longleftrightarrow> (\<exists>acc. load_groups gs ?e = Inr acc)"
    unfolding run by blast
  then show "(\<exists>m. PrepareBearerSessions app (Some (Some lk)) (Some db) up (Some gs) use = Inr m) \<longleftrightarrow> conf_valid gs"
    unfolding load_groups_ok by (auto simp: conf_valid_def Let_def)
  assume m': "PrepareBearerSessions app (Some (Some lk)) (Some db) up (Some gs) use = Inr m"
  then obtain acc where l: "load_groups gs ?e = Inr acc" and m: "sm_ClientConfs m = ca_confs acc" "sm_enabled m" "sm_appName m = app"
    unfolding run by auto
  have c: "sm_ClientConfs m i = Some conf \<longleftrightarrow> (\<exists>n g c. (n, Some g) \<in> set gs \<and> (c, Some i) \<in> set (grp_Clients g) \<and>
         conf = \<lparr>cli_Name = c, cli_ID = i, cli_Group = g\<lparr>grp_Name := n\<rparr>\<rparr>)"
    unfolding m(1) using load_groups_confs [OF l] by simp
  have "\<forall>(n, g)\<in>set gs. group_ok n g" using load_groups_ok [of gs ?e] l by blast
  then have "0 < grp_AccessTTL (cli_Group conf) \<and> 0 < grp_RefreshTTL (cli_Group conf) \<and> ''client'' \<in> set (grp_Binds (cli_Group conf))"
    if "sm_ClientConfs m i = Some conf"
    using that unfolding c by (fastforce simp: group_ok_def)
  then show "sm_enabled m \<and> sm_appName m = app \<and>
      (sm_ClientConfs m i = Some conf \<longleftrightarrow> (\<exists>n g c. (n, Some g) \<in> set gs \<and> (c, Some i) \<in> set (grp_Clients g) \<and>
         conf = \<lparr>cli_Name = c, cli_ID = i, cli_Group = g\<lparr>grp_Name := n\<rparr>\<rparr>)) \<and>
      (sm_ClientConfs m i = Some conf \<longrightarrow> 0 < grp_AccessTTL (cli_Group conf) \<and> 0 < grp_RefreshTTL (cli_Group conf) \<and>
         ''client'' \<in> set (grp_Binds (cli_Group conf)))"
    using m(2,3) c by blast
qed

definition zero_cap_group :: SessionGroupConf where
  "zero_cap_group = sample_group\<lparr>grp_Cap := Some \<lparr>cap_Max = 0, cap_By = []\<rparr>\<rparr>"

theorem bearer_conf_accepted_iff_valid_witness:
  "(\<exists>m :: (unit net, unit, unit) SessionManager.
      PrepareBearerSessions ''app'' (Some (Some ())) (Some (net_DB (\<lambda>_ s. s))) None (Some [(''web'', Some zero_cap_group)]) False = Inr m) \<and>
   \<not> (\<exists>m :: (unit net, unit, unit) SessionManager.
      PrepareBearerSessions ''app'' (Some (Some ())) (Some (net_DB (\<lambda>_ s. s))) None
        (Some [(''web'', Some zero_cap_group), (''api'', Some zero_cap_group)]) False = Inr m)"
proof -
  have v: "conf_valid [(''web'', Some zero_cap_group)]" "\<not> conf_valid [(''web'', Some zero_cap_group), (''api'', Some zero_cap_group)]"
    by (simp_all add: conf_valid_def clients_of_def zero_cap_group_def sample_group_def group_ok_def)
  show ?thesis
    using bearer_conf_accepted_iff_valid [of "''app''" False "None :: unit option" "()" "net_DB (\<lambda>(_::unit) s. s)", THEN conjunct1] v by simp
qed

text \<open>
  A cap that is not positive disables the group. \<open>PrepareBearerSessions\<close> takes a cap as switched off when \<open>Max\<close> is not
  positive and accepts the file, but \<open>CreateSession\<close> enforces every cap there is: no creation in such a group returns a session,
  and the rows written before the refusal stay behind.
\<close>

theorem nonpositive_cap_never_creates:
  "(kvdb_store (sm_KVDB m) view env P \<longrightarrow> ttl_ok P (grp_RefreshTTL grp) \<longrightarrow> grp_Cap grp = Some cap \<longrightarrow> cap_Max cap \<le> 0 \<longrightarrow>
      fst (CreateSession H m now sid at rt grp binds st) \<noteq> Inr r) \<and>
    map_sum id (\<lambda>r. r \<noteq> None) (fst (FetchSession sample_manager ''s1''
      (snd (CreateSession sample_H sample_manager 7 ''s1'' ''at'' ''rt'' zero_cap_group [''client'' \<mapsto> ''c1'', ''user'' \<mapsto> ''u1''] (sample_world []))))) = Inr True"
proof (rule conjI; (intro impI)?)
  show "fst (CreateSession H m now sid at rt grp binds st) \<noteq> Inr r"
    if k: "kvdb_store (sm_KVDB m) view env P" "ttl_ok P (grp_RefreshTTL grp)" "grp_Cap grp = Some cap" "cap_Max cap \<le> 0"
  proof
    assume "fst (CreateSession H m now sid at rt grp binds st) = Inr r"
    then obtain st3 u st' where "PushEvictOverCap (sm_KVDB m) (cap_bucket (sm_appName m) grp cap binds) sid (cap_Max cap)
        (seconds (grp_RefreshTTL grp)) (SessionRowKey (sm_appName m) []) st3 = (Inr u, st')"
      using k(3) by (auto simp: CreateSession_def Let_def split: prod.splits sum.splits)
    from kvdb_store.PushEvictOverCap_call [OF k(1) this k(2)] k(4) show False by force
  qed
qed code_simp

theorem nonpositive_cap_never_creates_witness:
  "fst (CreateSession sample_H sample_manager 7 ''s1'' ''at'' ''rt'' zero_cap_group [''client'' \<mapsto> ''c1'', ''user'' \<mapsto> ''u1''] (sample_world []))
     \<noteq> Inr (''s1'', ''at'', ''rt'')"
  using nonpositive_cap_never_creates [THEN conjunct1, rule_format, OF sample_store, of zero_cap_group "\<lparr>cap_Max = 0, cap_By = []\<rparr>"] sample_ttl(2)
  by (simp add: zero_cap_group_def)

section \<open>Revocation\<close>

definition sample_caller :: VerifiedIdentity where
  "sample_caller = \<lparr>id_Method = ''jwt'', id_Subject = ''c1'', id_Claims = Map.empty\<rparr>"

text \<open>The world after a creation, with the deletion of the rows of the session lost on its way to the store.\<close>

definition sample_revoke :: "http_response \<times> unit net" where
  "sample_revoke = TokenRevokeHandler sample_H sample_manager (Some sample_caller) (Inr ''at'')
     ((snd (sample_create (sample_world [])))\<lparr>nt_faults := [NoFault, NoFault, NoFault, NoFault, LostRequest]\<rparr>)"

text \<open>
  A revocation can be confirmed that did not happen. \<open>DestroySession\<close> drops the result of its deletion, so when the store
  cannot be reached the handler answers 200 with \<open>revoked: true\<close> while the session is still there and its access token is still good.
\<close>

theorem revoke_confirms_failed_delete:
  "rs_status (fst sample_revoke) = 200 \<and> rs_body (fst sample_revoke) = JObject [(''revoked'', JBool True)] \<and>
   map_sum id (\<lambda>r. r \<noteq> None) (fst (FetchSessionByAccessToken sample_H sample_manager ''at'' (snd sample_revoke))) = Inr True"
  by code_simp

end
