(* ===== verification/Cookie_Correct.thy ===== *)
theory Cookie_Correct
  imports Cookie_Sessions Bearer_Correct
begin

text \<open>
  What the cookie sessions guarantee, from the boot to the request: a login's cookie authenticates its user until the
  session ends, a protected handler runs only for a live session with the right token, and the browser
  comes back to the page it asked for. The locale \<open>encoded_cipher\<close> is the promise of \<open>security.EncodedCipher\<close>; every keyring
  that was built keeps it (\<open>keyring_built\<close>).
\<close>

section \<open>The cipher interface\<close>

locale encoded_cipher =
  fixes cipher :: EncodedCipher and nonce_ok :: "string \<Rightarrow> bool"
  assumes seals: "nonce_ok n \<Longrightarrow> cc_Location cc \<noteq> [] \<Longrightarrow> \<exists>e. ec_EncryptEncode cipher n p cc = Inr e"
    and opens: "nonce_ok n \<Longrightarrow> ec_EncryptEncode cipher n p cc = Inr e \<Longrightarrow> ec_DecodeDecrypt cipher e cc = Inr p"
begin

lemma session_id_readable:
  assumes "NewUserSessionID m us n sid = Inr (sid', val)" "ush_Cipher us = cipher" "nonce_ok n"
    "rq_cookies r UserCookieName = Some val"
  shows "UserSessionIDFromCookie m us r = Some sid \<and> sid' = sid"
  using assms opens [of n sid "UserCookieCipherContext m" val]
  by (auto simp: NewUserSessionID_def UserSessionIDFromCookie_def split: sum.splits)

end

locale keyring_built =
  fixes Seal :: seal_fun and Open :: open_fun and hkdf :: "string \<Rightarrow> string \<Rightarrow> string option"
    and conf :: KeyringConf and app purpose :: string and k :: KeyringCipher
  assumes aead: "aead_ok Seal Open"
    and keys: "distinct (map fst (kr_Keys conf))"
    and built: "NewKeyringCipher hkdf (Some conf) app purpose = Inr k"
begin

lemma seal_form:
  assumes "cc_Location cc \<noteq> []"
  obtains c where "kc_ciphers k (kr_Active conf) = Some c"
    "ec_EncryptEncode (keyring_EncodedCipher Seal Open k) n p cc = Inr (kr_Active conf @ ''.'' @ SealEncode Seal n c p (render cc))"
  using NewKeyringCipher_ok [OF built keys] assms
  by (auto simp: keyring_EncodedCipher_def EncryptEncode_def)

text \<open>What opens was sealed by a key of the ring, under the same context.\<close>

lemma opened_was_sealed:
  assumes "ec_DecodeDecrypt (keyring_EncodedCipher Seal Open k) e cc = Inr p"
  obtains kid kc c body n where "e = kid @ ''.'' @ body" "map_of (kr_Keys conf) kid = Some kc"
    "working_key hkdf (app @ '':'' @ purpose) kc = Some c"
    "RawURL_decode body = Some (n @ Seal (xc_key c) n p (render cc))" "length n = NonceSize"
proof -
  obtain kid body c where e: "Cut CHR ''.'' e = Some (kid, body)" "kc_ciphers k kid = Some c"
    and d: "DecodeOpen Open c body (render cc) = Inr p"
    using assms by (auto simp: keyring_EncodedCipher_def DecodeDecrypt_def split: if_splits option.splits sum.splits)
  obtain kc where kc: "map_of (kr_Keys conf) kid = Some kc" "working_key hkdf (app @ '':'' @ purpose) kc = Some c"
    using NewKeyringCipher_ok(2) [OF built keys, of kid] e(2) by (auto split: option.splits)
  obtain dat where dat: "RawURL_decode body = Some dat" "NonceSize \<le> length dat"
    and o: "Open (xc_key c) (take NonceSize dat) (drop NonceSize dat) (render cc) = Some p"
    using d by (auto simp: DecodeOpen_def split: option.splits if_splits)
  have "drop NonceSize dat = Seal (xc_key c) (take NonceSize dat) p (render cc)"
    using o aead unfolding aead_ok_def by blast
  then have "RawURL_decode body = Some (take NonceSize dat @ Seal (xc_key c) (take NonceSize dat) p (render cc))"
    using dat(1) by (metis append_take_drop_id)
  moreover have "e = kid @ ''.'' @ body" using Cut_SomeD [OF e(1)] by simp
  ultimately show thesis using that kc dat(2) by simp
qed

end

sublocale keyring_built \<subseteq> encoded_cipher "keyring_EncodedCipher Seal Open k" "\<lambda>n. length n = NonceSize"
proof
  fix n p :: string and cc :: CipherContext
  assume n: "length n = NonceSize" and "cc_Location cc \<noteq> []"
  then show "\<exists>e. ec_EncryptEncode (keyring_EncodedCipher Seal Open k) n p cc = Inr e"
    using seal_form by metis
next
  fix n p :: string and cc :: CipherContext and e
  assume n: "length n = NonceSize" and e: "ec_EncryptEncode (keyring_EncodedCipher Seal Open k) n p cc = Inr e"
  then have loc: "cc_Location cc \<noteq> []"
    by (auto simp: keyring_EncodedCipher_def EncryptEncode_def split: option.splits if_splits)
  obtain c where c: "kc_ciphers k (kr_Active conf) = Some c" "e = kr_Active conf @ CHR ''.'' # SealEncode Seal n c p (render cc)"
    using seal_form [OF loc, of n p] e by auto
  show "ec_DecodeDecrypt (keyring_EncodedCipher Seal Open k) e cc = Inr p"
    using loc c NewKeyringCipher_ok(3) [OF built keys] DecodeOpen_SealEncode(2) [OF aead n]
    by (simp add: keyring_EncodedCipher_def DecodeDecrypt_def)
qed

context keyring_built
begin

lemma ring_opens: "length n = NonceSize \<Longrightarrow> ec_EncryptEncode (keyring_EncodedCipher Seal Open k) n p cc = Inr e \<Longrightarrow>
    ec_DecodeDecrypt (keyring_EncodedCipher Seal Open k) e cc = Inr p"
  by (rule opens)

end

interpretation sample_ring: keyring_built sample_Seal sample_Open sample_hkdf sample_conf "''app''" "''user-cookie''"
  "\<lparr>kc_appName = ''app'', kc_purpose = ''user-cookie'', kc_activeKid = ''k1'',
    kc_ciphers = [''k1'' \<mapsto> \<lparr>xc_key = replicate 32 CHR ''k''\<rparr>]\<rparr>"
proof
  have "map_option length (Std_decode sample_enckey) = Some 32" by code_simp
  then obtain master where "Std_decode sample_enckey = Some master" "length master = 32" by auto
  then show "NewKeyringCipher sample_hkdf (Some sample_conf) ''app'' ''user-cookie'' =
      Inr \<lparr>kc_appName = ''app'', kc_purpose = ''user-cookie'', kc_activeKid = ''k1'',
        kc_ciphers = [''k1'' \<mapsto> \<lparr>xc_key = replicate 32 CHR ''k''\<rparr>]\<rparr>"
    by (simp add: NewKeyringCipher_def sample_conf_def AlgXChaCha20Poly1305_def KeySize_def sample_hkdf_def
        NewXChaCha20Poly1305CipherBase64_def)
qed (simp_all add: sample_aead, simp add: sample_conf_def)

section \<open>Cookie values\<close>

definition cookie_safe :: "string \<Rightarrow> bool" where
  "cookie_safe s \<longleftrightarrow> list_all validCookieValueByte s"

lemma cookie_safe_filter [simp]: "cookie_safe s \<Longrightarrow> filter validCookieValueByte s = s"
  by (simp add: cookie_safe_def list_all_iff)

lemma cookie_safe_append [simp]: "cookie_safe (a @ b) \<longleftrightarrow> cookie_safe a \<and> cookie_safe b"
  by (simp add: cookie_safe_def)

lemma b64_char_safe: "v < 64 \<Longrightarrow> validCookieValueByte (b64_char CHR ''-'' CHR ''_'' v)"
proof -
  assume "v < 64"
  then consider "v < 26" | "26 \<le> v" "v < 52" | "52 \<le> v" "v < 62" | "v = 62" | "v = 63" by linarith
  then show ?thesis
  proof cases
    case 1
    then have "of_char (b64_char CHR ''-'' CHR ''_'' v) = 65 + v" by (simp add: b64_char_def)
    with 1 show ?thesis by (auto simp: validCookieValueByte_def Let_def)
  next
    case 2
    then have "of_char (b64_char CHR ''-'' CHR ''_'' v) = 97 + (v - 26)" by (simp add: b64_char_def)
    with 2 show ?thesis by (auto simp: validCookieValueByte_def Let_def)
  next
    case 3
    then have "of_char (b64_char CHR ''-'' CHR ''_'' v) = 48 + (v - 52)" by (simp add: b64_char_def)
    with 3 show ?thesis by (auto simp: validCookieValueByte_def Let_def)
  qed (simp_all add: b64_char_def validCookieValueByte_def Let_def)
qed

lemma RawURL_safe: "cookie_safe (RawURL_encode bs)"
proof -
  have "v \<in> set (b64_sextets (map of_char bs)) \<Longrightarrow> v < 64" for v
    by (rule b64_sextets_less [of "map of_char bs"]) (auto simp: of_char_less)
  then show ?thesis by (simp add: cookie_safe_def RawURL_encode_def list_all_iff b64_char_safe)
qed

lemma last_SetCookie [simp]:
  "last (wr_cookies (SetCookie c w)) = c\<lparr>ck_Value := filter validCookieValueByte (ck_Value c)\<rparr>"
  by (simp add: SetCookie_def)

section \<open>Stored user sessions\<close>

lemma cookie_keys_differ [simp]:
  "UserSessionRowKey m a = UserSessionRowKey m b \<longleftrightarrow> a = b" "UserSessionRowKey m a \<noteq> usrSessionListKey m u"
  "usrSessionListKey m u \<noteq> UserSessionRowKey m a" "UserSessionRowKey m a \<noteq> AnonymousSessionRowKey m b"
  by (simp_all add: UserSessionRowKey_def usrSessionListKey_def AnonymousSessionRowKey_def)

lemma user_row_of_restrict: "user_row_of (\<lambda>f. if f \<in> set [''uid'', ''csrf''] then h f else None) = user_row_of h"
  by (simp add: user_row_of_def at_key_def)

definition user_row_at :: "('st, 'lk, 'up) CookieManager \<Rightarrow> kvst \<Rightarrow> string \<Rightarrow> UserSessionRow option" where
  "user_row_at m v sid = (case kv_get v (UserSessionRowKey m sid) of Some (VHash h, _) \<Rightarrow> user_row_of (map_of h) | _ \<Rightarrow> None)"

context kvdb_store
begin

lemma FetchUserSession_ok:
  assumes "FetchUserSession m sid st = (Inr r, st')" "cm_KVDB m = db"
  shows "env (view st) (view st')" "r = user_row_at m (view st') sid"
proof -
  obtain fvs where f: "HashGetFields db (UserSessionRowKey m sid) [''uid'', ''csrf''] st = (Inr fvs, st')" and r: "r = user_row_of fvs"
    using assms by (auto simp: FetchUserSession_def split: prod.splits sum.splits)
  show "env (view st) (view st')" by (rule HashGetFields_ok(1) [OF f])
  have "user_row_of Map.empty = None" by (simp add: user_row_of_def)
  then show "r = user_row_at m (view st') sid"
    using HashGetFields_ok(2) [OF f] user_row_of_restrict by (auto simp: r user_row_at_def)
qed

lemma StoreUserSession_stores:
  assumes run: "StoreUserSession m us csrf sid uid fvs st = (Inr u, st')" and db: "cm_KVDB m = db"
    and ttl: "ttl_ok P (us_ExpireIn (ush_Conf us))"
    and quiet: "undisturbed env {UserSessionRowKey m sid} sid"
    and new: "unlisted sid (usrSessionListKey m uid) (view st)"
  shows "\<exists>h. holds (kv_clock (view st) + us_ExpireIn (ush_Conf us) * time_Second) (view st') (UserSessionRowKey m sid)
    (VHash (hash_set (fvs @ [(''uid'', uid), (''csrf'', csrf)]) h))"
proof -
  let ?k = "UserSessionRowKey m sid" and ?b = "usrSessionListKey m uid" and ?n = "us_ExpireIn (ush_Conf us)"
  let ?T = "kv_clock (view st) + ?n * time_Second"
  obtain u1 st1 where c1: "HashSetFieldsWithKeyTTL db ?k (fvs @ [(''uid'', uid), (''csrf'', csrf)]) (seconds ?n) st = (Inr u1, st1)"
    and c2: "st' = st1 \<or> (\<exists>n v. PushEvictOverCap db ?b sid n (seconds ?n) (UserSessionRowKey m []) st1 = (Inr v, st'))"
    using run unfolding StoreUserSession_def Let_def db by (auto split: prod.splits sum.splits if_splits)
  obtain v1 h where v1: "env (view st) v1"
    and w1: "view st1 = kv_put ?k (VHash (hash_set (fvs @ [(''uid'', uid), (''csrf'', csrf)]) h), kv_mark v1 (?n * time_Second)) v1"
    by (rule HashSetFieldsWithKeyTTL_ok [OF c1 ttl]) simp
  let ?U = "VHash (hash_set (fvs @ [(''uid'', uid), (''csrf'', csrf)]) h)"
  note q = undisturbedD [OF quiet]
  have s1: "holds ?T (view st1) ?k ?U" using q(1) [OF v1] by (simp add: w1 holds_put_mark)
  have u1: "unlisted sid ?b (view st1)" using q(3) [OF v1 new] by (simp add: w1 unlisted_put)
  have "holds ?T (view st') ?k ?U"
    using c2
  proof (elim disjE exE)
    fix n v
    assume p: "PushEvictOverCap db ?b sid n (seconds ?n) (UserSessionRowKey m []) st1 = (Inr v, st')"
    obtain v2 w xs mk where v2: "env (view st1) v2" "0 < n" "as_list (kv_get v2 ?b) = Inr (xs, mk)"
      and w: "w = kv_put ?b (VList (drop (length xs + 1 - nat n) (xs @ [sid])), kv_mark v2 (?n * time_Second)) v2"
      and e: "view st' = w \<or> (\<exists>w'. env w w' \<and> (view st' = w' \<or>
        view st' = fold kv_del (map ((@) (UserSessionRowKey m [])) (take (length xs + 1 - nat n) (xs @ [sid]))) w'))"
      using PushEvictOverCap_ok [OF p ttl] by metis
    have ev: "sid \<notin> set (take (length xs + 1 - nat n) (xs @ [sid]))"
      using evicted_not_newest [OF as_list_unlisted [OF v2(3)] v2(2)] q(3) [OF v2(1) u1] by blast
    have hw: "holds ?T w ?k ?U" using q(2) [OF v2(1) _ s1] by (simp add: w holds_put)
    have pre: "UserSessionRowKey m [] @ x = UserSessionRowKey m x" for x by (simp add: UserSessionRowKey_def)
    have evict: "holds ?T (fold kv_del (map ((@) (UserSessionRowKey m [])) (take (length xs + 1 - nat n) (xs @ [sid]))) w') ?k ?U"
      if "holds ?T w' ?k ?U" for w'
      using that ev by (auto simp: holds_def fold_kv_del_data pre simp del: take_append)
    have step: "holds ?T w' ?k ?U" if "env w w'" for w' using q(2) [OF that _ hw] by simp
    show ?thesis using e
    proof (elim disjE exE conjE)
      fix w' assume "env w w'" "view st' = fold kv_del (map ((@) (UserSessionRowKey m [])) (take (length xs + 1 - nat n) (xs @ [sid]))) w'"
      then show ?thesis using evict [OF step] by simp
    qed (use hw step in simp_all)
  qed (use s1 in simp)
  then show ?thesis by blast
qed

end

section \<open>What the boot guarantees\<close>

definition prepared :: "seal_fun \<Rightarrow> open_fun \<Rightarrow> (string \<Rightarrow> string \<Rightarrow> string option) \<Rightarrow> string \<Rightarrow> KeyringConf \<Rightarrow> user_shape \<Rightarrow>
    ('st, 'lk, 'up) CookieManager \<Rightarrow> bool" where
  "prepared Seal Open hkdf app kconf us m \<longleftrightarrow> (\<exists>db lk up useUp conf.
     PrepareCookieSessions Seal Open hkdf True app db lk up useUp (Some conf) = Inr m \<and>
     sc_Keyring conf = Some kconf \<and> cm_User m = Some us)"

lemma PrepareCookieSessions_ok:
  assumes "PrepareCookieSessions Seal Open hkdf ready app db lk up useUp (Some conf) = Inr m"
  shows "Some (cm_KVDB m) = db" "cm_appName m = app" "cm_enabled m"
    "prepare_user Seal Open hkdf app conf = Inr (cm_User m)" "prepare_anonymous Seal Open hkdf app conf = Inr (cm_Anonymous m)"
  using assms
  by (auto simp: PrepareCookieSessions_def NewCookieManager_def cm_Enable_def Let_def split: if_splits option.splits sum.splits)

lemma prepared_ok:
  assumes "prepared Seal Open hkdf app kconf us m"
  obtains k where "NewKeyringCipher hkdf (Some kconf) app UserCookieCipherPurpose = Inr k"
    "ush_Cipher us = keyring_EncodedCipher Seal Open k" "UserSessionConf_Validate (ush_Conf us) = None"
    "cm_appName m = app" "cm_enabled m"
proof -
  obtain db lk up useUp conf where b: "PrepareCookieSessions Seal Open hkdf True app db lk up useUp (Some conf) = Inr m"
    and c: "sc_Keyring conf = Some kconf" "cm_User m = Some us"
    using assms by (auto simp: prepared_def)
  note ok = PrepareCookieSessions_ok [OF b]
  have "prepare_user Seal Open hkdf app conf = Inr (Some us)" using ok(4) c(2) by simp
  then show thesis using that ok(2,3) c(1)
    by (auto simp: prepare_user_def split: option.splits sum.splits)
qed

lemma Validate_ok:
  assumes "UserSessionConf_Validate c = None"
  shows "0 < us_ExpireIn c" "us_ExpireMode c = ExpireAbsolute \<or> us_ExpireMode c = ExpireSliding"
    "us_LoginPath c \<noteq> []" "hd (us_LoginPath c) = CHR ''/''" "\<exists>n. us_IntendedURIExpireIn c = Some n \<and> 0 \<le> n" "0 \<le> us_MaxSessionsPerUser c"
  using assms
  by (auto simp: UserSessionConf_Validate_def validateExpiry_def split: option.splits if_splits ExpireMode.splits)

lemma prepared_keyring:
  assumes "prepared Seal Open hkdf app kconf us m" "aead_ok Seal Open" "distinct (map fst (kr_Keys kconf))"
  obtains k where "keyring_built Seal Open hkdf kconf app UserCookieCipherPurpose k" "ush_Cipher us = keyring_EncodedCipher Seal Open k"
  by (rule prepared_ok [OF assms(1)]) (use that assms in \<open>auto simp: keyring_built_def\<close>)

section \<open>A login authenticates its user\<close>

lemma CreateUserSession_parts:
  assumes "CreateUserSession m us nonce sid csrf uid w st = (Inr r, w1, st1)"
  obtains val u where "r = sid" "ec_EncryptEncode (ush_Cipher us) nonce sid (UserCookieCipherContext m) = Inr val"
    "StoreUserSession m us csrf sid uid [] st = (Inr u, st1)" "w1 = SetUserSessionCookie us val w"
  using assms by (auto simp: CreateUserSession_def NewUserSessionID_def split: prod.splits sum.splits)

text \<open>The cookie a login sets opens to the id of the session.\<close>

lemma login_cookie:
  assumes aead: "aead_ok Seal Open" and boot: "prepared Seal Open hkdf app kconf us m"
    and keys: "distinct (map fst (kr_Keys kconf))" "cookie_safe (kr_Active kconf)" and nonce: "length nonce = NonceSize"
    and login: "CreateUserSession m us nonce sid csrf uid w st = (Inr r, w1, st1)"
  shows "ck_Name (last (wr_cookies w1)) = UserCookieName"
    "ec_DecodeDecrypt (ush_Cipher us) (ck_Value (last (wr_cookies w1))) (UserCookieCipherContext m) = Inr sid"
proof -
  obtain val where e: "ec_EncryptEncode (ush_Cipher us) nonce sid (UserCookieCipherContext m) = Inr val" and w1: "w1 = SetUserSessionCookie us val w"
    using CreateUserSession_parts [OF login] by metis
  obtain k where k: "keyring_built Seal Open hkdf kconf app UserCookieCipherPurpose k" and c: "ush_Cipher us = keyring_EncodedCipher Seal Open k"
    using prepared_keyring [OF boot aead keys(1)] .
  have loc: "cc_Location (UserCookieCipherContext m) \<noteq> []" by (simp add: UserCookieCipherContext_def UserCookieName_def)
  obtain kc where "val = kr_Active kconf @ ''.'' @ SealEncode Seal nonce kc sid (render (UserCookieCipherContext m))"
    using keyring_built.seal_form [OF k loc, of nonce sid] e unfolding c by (metis sum.inject(2))
  moreover have "cookie_safe ''.''" by (simp add: cookie_safe_def validCookieValueByte_def)
  ultimately have "cookie_safe val" using keys(2) RawURL_safe by (simp only: cookie_safe_append SealEncode_def)
  then show "ec_DecodeDecrypt (ush_Cipher us) (ck_Value (last (wr_cookies w1))) (UserCookieCipherContext m) = Inr sid"
    "ck_Name (last (wr_cookies w1)) = UserCookieName"
    using keyring_built.ring_opens [OF k nonce] e unfolding c by (simp_all add: w1 SetUserSessionCookie_def user_cookie_def)
qed

text \<open>
  C14: A login authenticates its user. When the boot has accepted the configuration and \<open>CreateUserSession\<close> has returned a session id,
  the last cookie set is the session cookie, and a later request that presents its value is let through as that
  user with that session's id and CSRF token, until \<open>expire_in\<close> seconds after the login began: the cap never evicts the session
  just created, and the cookie survives the header. Only a failing database stops it. The other clients may do anything but write
  the row or list the id; the id of the active key is made of bytes a cookie carries.
\<close>

theorem login_authenticates:
  assumes store: "kvdb_store (cm_KVDB m) view env P" and aead: "aead_ok Seal Open"
    and boot: "prepared Seal Open hkdf app kconf us m" and keys: "distinct (map fst (kr_Keys kconf))" "cookie_safe (kr_Active kconf)"
    and nonce: "length nonce = NonceSize" and ttl: "ttl_ok P (us_ExpireIn (ush_Conf us))"
    and quiet: "undisturbed env {UserSessionRowKey m sid} sid" and new: "unlisted sid (usrSessionListKey m uid) (view st)"
    and login: "CreateUserSession m us nonce sid csrf uid w st = (Inr r, w1, st1)"
    and parse: "ParseUID uid = Inr u"
    and present: "rq_cookies q UserCookieName = Some (ck_Value (last (wr_cookies w1)))"
    and auth: "authenticateCookieSession ParseUID m us q w2 st1 = (res, w3, st2)"
    and time: "kv_clock (view st2) \<le> kv_clock (view st) + us_ExpireIn (ush_Conf us) * time_Second"
  shows "r = sid \<and> ck_Name (last (wr_cookies w1)) = UserCookieName \<and>
    ((\<exists>err. FetchUserSession m sid st1 = (Inl err, st2)) \<or>
     res = Some (\<lparr>sd_ID = sid, sd_UIDStr = uid, sd_UID = u, sd_CSRFTkn = csrf\<rparr>, ck_Value (last (wr_cookies w1))) \<and> w3 = w2)"
proof -
  obtain val v where r: "r = sid" and e: "ec_EncryptEncode (ush_Cipher us) nonce sid (UserCookieCipherContext m) = Inr val"
    and s: "StoreUserSession m us csrf sid uid [] st = (Inr v, st1)" and w1: "w1 = SetUserSessionCookie us val w"
    using CreateUserSession_parts [OF login] .
  note cookie = login_cookie [OF aead boot keys nonce login]
  obtain h where h: "holds (kv_clock (view st) + us_ExpireIn (ush_Conf us) * time_Second) (view st1) (UserSessionRowKey m sid)
      (VHash (hash_set ([] @ [(''uid'', uid), (''csrf'', csrf)]) h))"
    using kvdb_store.StoreUserSession_stores [OF store s refl ttl quiet new] by blast
  show ?thesis
  proof (cases "FetchUserSession m sid st1")
    case (Pair x st')
    show ?thesis
    proof (cases x)
      case (Inl err)
      then have "st2 = st'" using auth present Pair by (simp add: authenticateCookieSession_def cookie)
      then show ?thesis using r cookie Pair Inl by auto
    next
      case (Inr row)
      have f: "FetchUserSession m sid st1 = (Inr row, st')" using Pair Inr by simp
      note fetch = kvdb_store.FetchUserSession_ok [OF store f refl]
      have held: "holds (kv_clock (view st) + us_ExpireIn (ush_Conf us) * time_Second) (view st') (UserSessionRowKey m sid)
          (VHash (hash_set ([] @ [(''uid'', uid), (''csrf'', csrf)]) h))"
        using undisturbedD(2) [OF quiet fetch(1) _ h] by simp
      have rows: "row = None \<or> row = Some \<lparr>ur_UID = uid, ur_CSRF = csrf\<rparr>"
        using held fetch(2)
        by (auto simp: holds_def kv_get_def user_row_at_def user_row_of_def map_of_hash_set at_key_def)
      have st2: "st2 = st'" using auth present f parse rows by (auto simp: authenticateCookieSession_def cookie)
      have "row = Some \<lparr>ur_UID = uid, ur_CSRF = csrf\<rparr>"
        using holds_get [OF held] fetch(2) time unfolding st2
        by (auto simp: user_row_at_def user_row_of_def map_of_hash_set at_key_def)
      then show ?thesis using auth present f parse r cookie by (auto simp: authenticateCookieSession_def)
    qed
  qed
qed

text \<open>A sample application: one key, at most two sessions a user, over a database nobody else uses.\<close>

definition sample_user_conf :: UserSessionConf where
  "sample_user_conf = \<lparr>us_ExpireIn = 3600, us_ExpireMode = ExpireSliding, us_ExtendThreshold = 600, us_LoginPath = ''/login'',
     us_MaxSessionsPerUser = 2, us_IntendedURIExpireIn = Some 300\<rparr>"

definition sample_key :: KeyringCipher where
  "sample_key = \<lparr>kc_appName = ''app'', kc_purpose = ''user-cookie'', kc_activeKid = ''k1'',
    kc_ciphers = [''k1'' \<mapsto> \<lparr>xc_key = replicate 32 CHR ''k''\<rparr>]\<rparr>"

definition sample_us :: user_shape where
  "sample_us = \<lparr>ush_Conf = sample_user_conf, ush_Cipher = keyring_EncodedCipher sample_Seal sample_Open sample_key\<rparr>"

definition sample_cm :: "(unit net, unit, unit) CookieManager" where
  "sample_cm = \<lparr>cm_User = Some sample_us, cm_Anonymous = None, cm_FWUpstream = None, cm_appName = ''app'',
     cm_KVDB = net_DB (\<lambda>_ s. s), cm_lockingManager = (), cm_enabled = True\<rparr>"

lemma sample_prepared: "prepared sample_Seal sample_Open sample_hkdf ''app'' sample_conf sample_us sample_cm"
proof -
  let ?c = "\<lparr>sc_Keyring = Some sample_conf, sc_UserSession = Some sample_user_conf, sc_AnonymousSession = None\<rparr>"
  have "UserSessionConf_Validate sample_user_conf = None"
    by (simp add: UserSessionConf_Validate_def validateExpiry_def sample_user_conf_def)
  then have "prepare_user sample_Seal sample_Open sample_hkdf ''app'' ?c = Inr (Some sample_us)"
    using sample_ring.built by (simp add: prepare_user_def UserCookieCipherPurpose_def sample_us_def sample_key_def)
  then have "PrepareCookieSessions sample_Seal sample_Open sample_hkdf True ''app'' (Some (net_DB (\<lambda>_ s. s))) (Some ())
      None False (Some ?c) = Inr sample_cm"
    by (simp add: PrepareCookieSessions_def NewCookieManager_def prepare_anonymous_def Let_def cm_Enable_def sample_cm_def)
  then show ?thesis unfolding prepared_def by (intro exI conjI; (assumption)?) (simp_all add: sample_cm_def)
qed

definition sample_writer :: writer where
  "sample_writer = \<lparr>wr_cookies = [], wr_reply = None\<rparr>"

definition sample_login :: "(cookie_error, string) result \<times> writer \<times> unit net" where
  "sample_login = CreateUserSession sample_cm sample_us (replicate 24 CHR ''n'') ''s1'' ''csrf1'' ''u1'' sample_writer (sample_world [])"

definition sample_cookie :: string where
  "sample_cookie = ck_Value (last (wr_cookies (fst (snd sample_login))))"

definition sample_request :: request where
  "sample_request = \<lparr>rq_cookies = [UserCookieName \<mapsto> sample_cookie], rq_URI = ''/notes'', rq_CSRFHeader = ''csrf1'', rq_CSRFField = []\<rparr>"

definition sample_parse :: "string \<Rightarrow> (go_error, string) result" where
  "sample_parse s = (if s = [] then Inl (Plain ''no user'' []) else Inr s)"

lemma sample_cm_store: "kvdb_store (cm_KVDB sample_cm) nt_store (env_of (\<lambda>(_::unit) s. s)) millis"
  using kvdb_store_net by (simp add: sample_cm_def)

lemma sample_login_ok: "fst sample_login = Inr ''s1''"
  by code_simp

lemma sample_fetch_run:
  "map_sum id (map_option ur_UID) (fst (FetchUserSession sample_cm ''s1'' (snd (snd sample_login)))) = Inr (Some ''u1'')"
  "kv_clock (nt_store (snd (FetchUserSession sample_cm ''s1'' (snd (snd sample_login))))) = 0"
  by code_simp+

theorem login_authenticates_witness:
  "map_option fst (fst (authenticateCookieSession sample_parse sample_cm sample_us sample_request sample_writer (snd (snd sample_login)))) =
     Some \<lparr>sd_ID = ''s1'', sd_UIDStr = ''u1'', sd_UID = ''u1'', sd_CSRFTkn = ''csrf1''\<rparr>"
proof -
  obtain w1 st1 where l: "sample_login = (Inr ''s1'', w1, st1)" using sample_login_ok by (metis prod.collapse)
  obtain res w3 st2 where a: "authenticateCookieSession sample_parse sample_cm sample_us sample_request sample_writer st1 = (res, w3, st2)"
    by (metis prod.collapse)
  have keys: "distinct (map fst (kr_Keys sample_conf))" "cookie_safe (kr_Active sample_conf)"
    by (simp_all add: sample_conf_def cookie_safe_def validCookieValueByte_def)
  have ttl: "ttl_ok millis (us_ExpireIn (ush_Conf sample_us))"
    by (simp add: ttl_ok_def sample_us_def sample_user_conf_def millis_def time_Second_def is_i64_def)
  have new: "unlisted ''s1'' (usrSessionListKey sample_cm ''u1'') (nt_store (sample_world []))"
    by (simp add: unlisted_def sample_world_def)
  have p: "sample_parse ''u1'' = Inr ''u1''" by (simp add: sample_parse_def)
  have q: "rq_cookies sample_request UserCookieName = Some (ck_Value (last (wr_cookies w1)))"
    by (simp add: sample_request_def sample_cookie_def l)
  have n: "length (replicate 24 CHR ''n'') = NonceSize" by (simp add: NonceSize_def)
  obtain row st' where f: "FetchUserSession sample_cm ''s1'' st1 = (Inr (Some row), st')" "ur_UID row = ''u1''"
    using sample_fetch_run(1) unfolding l snd_conv
    by (cases "FetchUserSession sample_cm ''s1'' st1"; cases "fst (FetchUserSession sample_cm ''s1'' st1)") auto
  have "st2 = st'" using a f p login_cookie(2) [OF sample_aead sample_prepared keys n l [unfolded sample_login_def]] q
    by (simp add: authenticateCookieSession_def)
  then have t: "kv_clock (nt_store st2) = 0" using sample_fetch_run(2) f(1) by (simp add: l)
  have tt: "kv_clock (nt_store st2) \<le> kv_clock (nt_store (sample_world [])) + us_ExpireIn (ush_Conf sample_us) * time_Second"
    by (simp add: t sample_world_def sample_us_def sample_user_conf_def time_Second_def)
  show ?thesis
    using login_authenticates [OF sample_cm_store sample_aead sample_prepared keys n ttl sample_undisturbed new
        l [unfolded sample_login_def] p q a tt] f by (simp add: l a)
qed

section \<open>A protected handler needs a live session\<close>

definition presented_token :: "request \<Rightarrow> string" where
  "presented_token q = (if rq_CSRFHeader q = [] then rq_CSRFField q else rq_CSRFHeader q)"

text \<open>The cookie is the session id sealed by a key of the ring for this application's user cookie.\<close>

definition sealed_id :: "seal_fun \<Rightarrow> (string \<Rightarrow> string \<Rightarrow> string option) \<Rightarrow> KeyringConf \<Rightarrow> ('st, 'lk, 'up) CookieManager \<Rightarrow> string \<Rightarrow> string \<Rightarrow> bool" where
  "sealed_id Seal hkdf kconf m val sid \<longleftrightarrow> (\<exists>kid kc c body n. val = kid @ ''.'' @ body \<and> map_of (kr_Keys kconf) kid = Some kc \<and>
     working_key hkdf (cm_appName m @ '':'' @ UserCookieCipherPurpose) kc = Some c \<and>
     RawURL_decode body = Some (n @ Seal (xc_key c) n sid (render (UserCookieCipherContext m))))"

text \<open>The session row of an identity, at one moment of the store.\<close>

definition row_backs :: "('st, 'lk, 'up) CookieManager \<Rightarrow> (string \<Rightarrow> (go_error, 'uid) result) \<Rightarrow> kvst \<Rightarrow> 'uid UserSessionData \<Rightarrow> bool" where
  "row_backs m ParseUID v sd \<longleftrightarrow> (\<exists>h mk. kv_get v (UserSessionRowKey m (sd_ID sd)) = Some (VHash h, mk) \<and>
     sd_UIDStr sd = at_key (map_of h) ''uid'' \<and> sd_CSRFTkn sd = at_key (map_of h) ''csrf'' \<and> ParseUID (sd_UIDStr sd) = Inr (sd_UID sd))"

lemma authenticate_sound:
  assumes store: "kvdb_store (cm_KVDB m) view env P" and aead: "aead_ok Seal Open"
    and boot: "prepared Seal Open hkdf app kconf us m" and keys: "distinct (map fst (kr_Keys kconf))"
    and run: "authenticateCookieSession ParseUID m us q w st = (Some (sd, val), w', st')"
  shows "rq_cookies q UserCookieName = Some val \<and> sealed_id Seal hkdf kconf m val (sd_ID sd) \<and> row_backs m ParseUID (view st') sd
    \<and> env (view st) (view st') \<and> w' = w"
proof -
  obtain row where a: "rq_cookies q UserCookieName = Some val" "ec_DecodeDecrypt (ush_Cipher us) val (UserCookieCipherContext m) = Inr (sd_ID sd)"
    and f: "FetchUserSession m (sd_ID sd) st = (Inr (Some row), st')" and p: "ParseUID (ur_UID row) = Inr (sd_UID sd)"
    and sd: "sd_UIDStr sd = ur_UID row" "sd_CSRFTkn sd = ur_CSRF row" "w' = w"
    using run by (auto simp: authenticateCookieSession_def Let_def split: option.splits sum.splits prod.splits)
  note fetch = kvdb_store.FetchUserSession_ok [OF store f refl]
  obtain k where k: "keyring_built Seal Open hkdf kconf app UserCookieCipherPurpose k" and c: "ush_Cipher us = keyring_EncodedCipher Seal Open k"
    using prepared_keyring [OF boot aead keys] .
  have app: "cm_appName m = app" using prepared_ok [OF boot] by metis
  have "sealed_id Seal hkdf kconf m val (sd_ID sd)"
    using keyring_built.opened_was_sealed [OF k a(2) [unfolded c]] unfolding sealed_id_def app by metis
  moreover have "row_backs m ParseUID (view st') sd"
    using fetch(2) p sd
    by (auto simp: row_backs_def user_row_at_def user_row_of_def split: option.splits prod.splits kv_value.splits if_splits)
  ultimately show ?thesis using a(1) fetch(1) sd(3) by blast
qed

lemma authenticate_refuses:
  assumes boot: "prepared Seal Open hkdf app kconf us m"
    and run: "authenticateCookieSession ParseUID m us q w st = (None, w', st')"
  shows "wr_reply w' \<noteq> None"
proof -
  have "UserSessionConf_Validate (ush_Conf us) = None" using prepared_ok [OF boot] by metis
  then obtain n where n: "us_IntendedURIExpireIn (ush_Conf us) = Some n" using Validate_ok(5) by blast
  have "wr_reply (to_login us q clear s w) \<noteq> None" for clear s
    by (simp add: to_login_def Let_def setIntendedURICookie_def n Redirect_def)
  then show ?thesis
    using run by (auto simp: authenticateCookieSession_def Let_def AnswerJSON_def split: option.splits sum.splits prod.splits)
qed

text \<open>What the sliding expiry does before the handler runs.\<close>

definition slid ::
    "('st, 'lk, 'up) CookieManager \<Rightarrow> user_shape \<Rightarrow> 'uid UserSessionData \<Rightarrow> string \<Rightarrow> writer \<Rightarrow> 'st \<Rightarrow> writer \<times> 'st" where
  "slid m us sd val w st =
     (case TTL (cm_KVDB m) (UserSessionRowKey m (sd_ID sd)) st of
        (Inr (ttl, TTLExpiring), st2) \<Rightarrow>
          if ttl < seconds (us_ExtendThreshold (ush_Conf us))
          then ExtendUserSession m us (sd_ID sd) (sd_UIDStr sd) val w st2 else (w, st2)
      | (_, st2) \<Rightarrow> (w, st2))"

lemma sliding_eq:
  assumes "authenticateCookieSession ParseUID m us q w st = (Some (sd, val), w1, st1)"
  shows "slidingExpHandler ParseUID m us inner q w st =
    inner (Some sd) q (fst (slid m us sd val w1 st1)) (snd (slid m us sd val w1 st1))"
  using assms by (auto simp: slidingExpHandler_def slid_def split: prod.splits sum.splits TTLState.splits)

lemma csrf_gate:
  "CSRFToken_Wrap inner (Some sd) q w st =
     (if presented_token q = [] \<or> presented_token q \<noteq> sd_CSRFTkn sd
      then (AnswerJSON (WriteErrorJSON StatusForbidden (if presented_token q = [] then CSRFTokenNotFound else InvalidCSRFToken)) w, st)
      else inner (Some sd) q w st)"
  by (auto simp: CSRFToken_Wrap_def presented_token_def Let_def)

text \<open>
  C3: A handler behind \<open>CookieUserSession\<close> and \<open>CSRFToken\<close> runs only for a live session with the right token. The boot's
  configuration always wires; and a request is either answered without the handler (whatever handler it is, the same answer, and
  there is one), or the handler is run exactly once with an identity for which: the service was admitted and the protocol
  enabled, the session cookie is that session's id sealed by a key of the ring for this application's user cookie, the
  row of the session was in the store at a moment during the request and holds the user and the token, the
  user parses, and the request presented that token.
\<close>

theorem protected_handler_needs_session:
  assumes store: "kvdb_store (cm_KVDB m) view env P" and aead: "aead_ok Seal Open"
    and boot: "prepared Seal Open hkdf app kconf us m" and keys: "distinct (map fst (kr_Keys kconf))"
  shows "\<exists>h. (\<forall>inner. CookieUserSession_Wrap ParseUID m us (CSRFToken_Wrap inner) = Inr (h inner)) \<and>
    ((\<exists>w' st'. wr_reply w' \<noteq> None \<and> (\<forall>inner. h inner admitted q w st = (w', st'))) \<or>
     (\<exists>sd w' st' v val. (\<forall>inner. h inner admitted q w st = inner (Some sd) q w' st') \<and> admitted \<and> cm_enabled m \<and>
        rq_cookies q UserCookieName = Some val \<and> sealed_id Seal hkdf kconf m val (sd_ID sd) \<and>
        env (view st) v \<and> row_backs m ParseUID v sd \<and> presented_token q = sd_CSRFTkn sd \<and> presented_token q \<noteq> []))"
proof -
  have valid: "UserSessionConf_Validate (ush_Conf us) = None" using prepared_ok [OF boot] by metis
  define run where "run inner = (if us_ExpireMode (ush_Conf us) = ExpireAbsolute then absoluteExpHandler ParseUID m us (CSRFToken_Wrap inner)
      else slidingExpHandler ParseUID m us (CSRFToken_Wrap inner))" for inner
  let ?h = "\<lambda>inner admitted r w st. if \<not> admitted \<or> \<not> cm_enabled m
      then (AnswerJSON (WriteErrorJSON StatusServiceUnavailable (WithDetail SessionServiceUnavailable ''cookie user session'')) w, st)
      else run inner r w st"
  have wraps: "CookieUserSession_Wrap ParseUID m us (CSRFToken_Wrap inner) = Inr (?h inner)" for inner
    using Validate_ok(2) [OF valid] by (auto simp: CookieUserSession_Wrap_def Let_def run_def fun_eq_iff)
  have csrf: "(\<exists>w'. wr_reply w' \<noteq> None \<and> (\<forall>inner. CSRFToken_Wrap inner (Some sd) q w st = (w', st))) \<or>
      presented_token q = sd_CSRFTkn sd \<and> presented_token q \<noteq> [] \<and> (\<forall>inner. CSRFToken_Wrap inner (Some sd) q w st = inner (Some sd) q w st)"
    for sd w st
    by (cases "presented_token q = [] \<or> presented_token q \<noteq> sd_CSRFTkn sd") (simp_all add: csrf_gate AnswerJSON_def)
  have "(\<exists>w' st'. wr_reply w' \<noteq> None \<and> (\<forall>inner. run inner q w st = (w', st'))) \<or>
     (\<exists>sd w' st' v val. (\<forall>inner. run inner q w st = inner (Some sd) q w' st') \<and>
        rq_cookies q UserCookieName = Some val \<and> sealed_id Seal hkdf kconf m val (sd_ID sd) \<and>
        env (view st) v \<and> row_backs m ParseUID v sd \<and> presented_token q = sd_CSRFTkn sd \<and> presented_token q \<noteq> [])"
  proof (cases "authenticateCookieSession ParseUID m us q w st")
    case (fields res w1 st1)
    show ?thesis
    proof (cases res)
      case None
      then have "run inner q w st = (w1, st1)" for inner
        using fields by (simp add: run_def absoluteExpHandler_def slidingExpHandler_def)
      then show ?thesis using authenticate_refuses [OF boot] fields None by blast
    next
      case (Some p)
      obtain sd val where p: "p = (sd, val)" by force
      note ok = authenticate_sound [OF store aead boot keys fields [unfolded Some p]]
      have "\<exists>w2 st2. \<forall>inner. run inner q w st = CSRFToken_Wrap inner (Some sd) q w2 st2"
        using sliding_eq [OF fields [unfolded Some p]] fields Some p
        by (cases "us_ExpireMode (ush_Conf us) = ExpireAbsolute") (auto simp: run_def absoluteExpHandler_def)
      then obtain w2 st2 where r: "\<And>inner. run inner q w st = CSRFToken_Wrap inner (Some sd) q w2 st2" by blast
      show ?thesis using csrf [of sd w2 st2] ok unfolding r by blast
    qed
  qed
  then have "(\<exists>w' st'. wr_reply w' \<noteq> None \<and> (\<forall>inner. ?h inner admitted q w st = (w', st'))) \<or>
     (\<exists>sd w' st' v val. (\<forall>inner. ?h inner admitted q w st = inner (Some sd) q w' st') \<and> admitted \<and> cm_enabled m \<and>
        rq_cookies q UserCookieName = Some val \<and> sealed_id Seal hkdf kconf m val (sd_ID sd) \<and>
        env (view st) v \<and> row_backs m ParseUID v sd \<and> presented_token q = sd_CSRFTkn sd \<and> presented_token q \<noteq> [])"
    by (cases "admitted \<and> cm_enabled m") (auto simp: AnswerJSON_def)
  with wraps show ?thesis by (intro exI [of _ ?h]) blast
qed

theorem protected_handler_needs_session_witness:
  "\<exists>h. (\<forall>inner. CookieUserSession_Wrap sample_parse sample_cm sample_us (CSRFToken_Wrap inner) = Inr (h inner)) \<and>
    ((\<exists>w' st'. wr_reply w' \<noteq> None \<and> (\<forall>inner. h inner True sample_request sample_writer (snd (snd sample_login)) = (w', st'))) \<or>
     (\<exists>sd w' st' v val. (\<forall>inner. h inner True sample_request sample_writer (snd (snd sample_login)) = inner (Some sd) sample_request w' st') \<and>
        True \<and> cm_enabled sample_cm \<and>
        rq_cookies sample_request UserCookieName = Some val \<and> sealed_id sample_Seal sample_hkdf sample_conf sample_cm val (sd_ID sd) \<and>
        env_of (\<lambda>(_::unit) s. s) (nt_store (snd (snd sample_login))) v \<and> row_backs sample_cm sample_parse v sd \<and>
        presented_token sample_request = sd_CSRFTkn sd \<and> presented_token sample_request \<noteq> []))"
  by (rule protected_handler_needs_session [OF sample_cm_store sample_aead sample_prepared]) (simp add: sample_conf_def)

section \<open>The intended URI\<close>

lemma nibbles: "of_char c div 16 < (16::nat) \<and> of_char c mod 16 < (16::nat)"
  using of_char_less [of c] by (simp add: less_mult_imp_div_less)

lemma hex_digit_val: "d < 16 \<Longrightarrow> hex_val (hex_digit d) = Some d"
  by (cases "d < 10") (auto simp: hex_val_def hex_digit_def Let_def)

lemma hex_digit_safe: "d < 16 \<Longrightarrow> validCookieValueByte (hex_digit d)"
proof -
  assume d: "d < 16"
  show ?thesis
  proof (cases "d < 10")
    case True
    then have "of_char (hex_digit d) = 48 + d" by (simp add: hex_digit_def)
    with True show ?thesis by (auto simp: validCookieValueByte_def Let_def)
  next
    case False
    then have "of_char (hex_digit d) = 55 + d" using d by (simp add: hex_digit_def)
    with False d show ?thesis by (auto simp: validCookieValueByte_def Let_def)
  qed
qed

lemma query_plain_cases: "query_plain c \<Longrightarrow> c \<noteq> CHR ''%'' \<and> c \<noteq> CHR ''+'' \<and> validCookieValueByte c"
  by (auto simp: query_plain_def validCookieValueByte_def Let_def)

lemma escape_char_roundtrip: "QueryUnescape (escape_char c @ s) = map_option ((#) c) (QueryUnescape s)"
proof (cases "query_plain c")
  case True
  then show ?thesis using query_plain_cases [OF True] by (simp add: escape_char_def)
next
  case False
  note nibbles [of c]
  then have "hex_val (hex_digit (of_char c div 16)) = Some (of_char c div 16)" "hex_val (hex_digit (of_char c mod 16)) = Some (of_char c mod 16)"
    by (simp_all add: hex_digit_val)
  then show ?thesis using False by (simp add: escape_char_def div_mult_mod_eq)
qed

lemma QueryUnescape_escape [simp]: "QueryUnescape (QueryEscape s) = Some s"
  by (induction s) (simp_all add: QueryEscape_def escape_char_roundtrip)

lemma escape_char_safe: "cookie_safe (escape_char c)"
proof -
  note nibbles [of c]
  then have "validCookieValueByte (hex_digit (of_char c div 16))" "validCookieValueByte (hex_digit (of_char c mod 16))"
    by (simp_all add: hex_digit_safe)
  moreover have "validCookieValueByte CHR ''%''" "validCookieValueByte CHR ''+''" by (simp_all add: validCookieValueByte_def)
  ultimately show ?thesis using query_plain_cases [of c] by (simp add: escape_char_def cookie_safe_def)
qed

lemma QueryEscape_safe: "cookie_safe (QueryEscape s)"
  by (induction s) (simp_all add: QueryEscape_def escape_char_safe, simp add: cookie_safe_def)

text \<open>The URI of a request starts with a slash, so it has no scheme.\<close>

lemma rooted_not_abs: "u = CHR ''/'' # v \<Longrightarrow> \<not> IsAbs u"
  by (simp add: IsAbs_def url_scheme_def scheme_char_def Let_def)

text \<open>
  The browser comes back to the page it asked for. When a request without a session is sent to the login and the
  application saves intended URIs, the last cookie set is the intended-URI cookie, and the login that later finishes with
  its value redirects to exactly the URI of the refused request, for every URI a request can have that is not the
  login path and that \<open>url.Parse\<close> accepts; the session cookie is set and the intended-URI cookie removed. The check that is meant to
  reject external redirects does not see a URI that starts with two slashes, which a browser takes for another host.
\<close>

theorem login_returns_to_page:
  assumes boot: "prepared Seal Open hkdf app kconf us m" and on: "us_IntendedURIExpireIn (ush_Conf us) = Some n" "0 < n"
    and anon: "rq_cookies q UserCookieName = None" and uri: "rq_URI q = CHR ''/'' # rest"
    and refused: "authenticateCookieSession ParseUID m us q w st = (res, w1, st1)"
    and present: "rq_cookies q' UserIntendedURICookieName = Some (ck_Value (last (wr_cookies w1)))"
    and ok: "\<not> unparsable (rq_URI q)" "rq_URI q \<noteq> us_LoginPath (ush_Conf us)"
  shows "ck_Name (last (wr_cookies w1)) = UserIntendedURICookieName \<and>
    wr_reply w1 = Some (RedirectReply (us_LoginPath (ush_Conf us) @ ''?endpoint=protected'') StatusSeeOther) \<and>
    (let w2 = FinishLogin unparsable us q' val success w'
     in wr_reply w2 = Some (RedirectReply (rq_URI q) StatusSeeOther) \<and>
        map ck_Name (drop (length (wr_cookies w')) (wr_cookies w2)) = [UserCookieName, UserIntendedURICookieName])"
proof -
  have w1: "w1 = Redirect (us_LoginPath (ush_Conf us) @ ''?endpoint=protected'') StatusSeeOther (SetIntendedURICookie q n w)"
    using refused anon on by (simp add: authenticateCookieSession_def to_login_def Let_def setIntendedURICookie_def)
  then have cookie: "last (wr_cookies w1) = intended_cookie (QueryEscape (rq_URI q)) n"
    using QueryEscape_safe by (simp add: Redirect_def SetIntendedURICookie_def intended_cookie_def)
  have "TryRedirectIfIntendedURICookie unparsable q' (us_LoginPath (ush_Conf us)) w3 =
      (True, Redirect (rq_URI q) StatusSeeOther (RemoveIntendedURICookie w3))" for w3
    using present ok rooted_not_abs [OF uri] uri by (simp add: TryRedirectIfIntendedURICookie_def cookie intended_cookie_def Let_def)
  then show ?thesis
    by (simp add: Let_def cookie w1 FinishLogin_def)
       (simp add: Redirect_def intended_cookie_def SetIntendedURICookie_def RemoveIntendedURICookie_def SetUserSessionCookie_def SetCookie_def user_cookie_def)
qed

definition sample_refused :: request where
  "sample_refused = \<lparr>rq_cookies = Map.empty, rq_URI = ''//evil.example/'', rq_CSRFHeader = [], rq_CSRFField = []\<rparr>"

definition sample_return :: request where
  "sample_return = \<lparr>rq_cookies = [UserIntendedURICookieName \<mapsto> ck_Value (last (wr_cookies (fst (snd
     (authenticateCookieSession sample_parse sample_cm sample_us sample_refused sample_writer (sample_world []))))))],
     rq_URI = ''/login'', rq_CSRFHeader = [], rq_CSRFField = []\<rparr>"

theorem login_returns_to_page_witness:
  "wr_reply (FinishLogin (\<lambda>_. False) sample_us sample_return ''sealed'' ''/home'' sample_writer)
     = Some (RedirectReply ''//evil.example/'' StatusSeeOther)"
proof -
  obtain res w1 st1 where a: "authenticateCookieSession sample_parse sample_cm sample_us sample_refused sample_writer (sample_world []) = (res, w1, st1)"
    by (metis prod.collapse)
  have on: "us_IntendedURIExpireIn (ush_Conf sample_us) = Some 300" "0 < (300::int)"
    by (simp_all add: sample_us_def sample_user_conf_def)
  have anon: "rq_cookies sample_refused UserCookieName = None" and uri: "rq_URI sample_refused = CHR ''/'' # ''/evil.example/''"
    by (simp_all add: sample_refused_def)
  have p: "rq_cookies sample_return UserIntendedURICookieName = Some (ck_Value (last (wr_cookies w1)))"
    by (simp add: sample_return_def a)
  have ne: "rq_URI sample_refused \<noteq> us_LoginPath (ush_Conf sample_us)"
    by (simp add: sample_refused_def sample_us_def sample_user_conf_def)
  show ?thesis
    using login_returns_to_page [OF sample_prepared on anon uri a p, of "\<lambda>_. False", OF _ ne] by (simp add: Let_def uri)
qed

section \<open>The configuration file\<close>

definition expiry_ok :: "int \<Rightarrow> ExpireMode \<Rightarrow> int \<Rightarrow> bool" where
  "expiry_ok n mode t \<longleftrightarrow> 0 < n \<and> (mode = ExpireAbsolute \<or> mode = ExpireSliding \<and> 0 < t \<and> t < n)"

lemma validateExpiry_iff: "validateExpiry n mode t = None \<longleftrightarrow> expiry_ok n mode t"
  by (auto simp: validateExpiry_def expiry_ok_def split: ExpireMode.splits)

lemma UserSessionConf_Validate_iff:
  "UserSessionConf_Validate c = None \<longleftrightarrow> expiry_ok (us_ExpireIn c) (us_ExpireMode c) (us_ExtendThreshold c) \<and>
     (\<exists>rest. us_LoginPath c = CHR ''/'' # rest) \<and> 0 \<le> us_MaxSessionsPerUser c \<and>
     (\<exists>n\<ge>0. us_IntendedURIExpireIn c = Some n)"
  by (cases "us_LoginPath c")
     (auto simp: UserSessionConf_Validate_def validateExpiry_iff [symmetric] split: option.splits)

text \<open>
  The boot accepts a cookie session file exactly when each shape it names is valid and has a keyring cipher, and the
  manager then has exactly those shapes, is enabled and is bound to the application and the database it was given.
\<close>

lemma cookie_conf_accepted:
  "(\<exists>m. PrepareCookieSessions Seal Open hkdf True app (Some db) (Some lk) None False (Some conf) = Inr m
        \<and> cm_enabled m \<and> cm_appName m = app
        \<and> map_option ush_Conf (cm_User m) = sc_UserSession conf \<and> map_option ash_Conf (cm_Anonymous m) = sc_AnonymousSession conf)
   \<longleftrightarrow> app \<noteq> [] \<and> (\<forall>c. sc_UserSession conf = Some c \<longrightarrow> UserSessionConf_Validate c = None \<and>
        (\<exists>k. NewKeyringCipher hkdf (sc_Keyring conf) app UserCookieCipherPurpose = Inr k))
      \<and> (\<forall>c. sc_AnonymousSession conf = Some c \<longrightarrow> expiry_ok (as_ExpireIn c) (as_ExpireMode c) (as_ExtendThreshold c) \<and>
        (\<exists>k. NewKeyringCipher hkdf (sc_Keyring conf) app AnonymousCookieCipherPurpose = Inr k))"
proof -
  have none: "NewKeyringCipher hkdf None app p \<noteq> Inr k" for p k
    by (simp add: NewKeyringCipher_def)
  show ?thesis
    using none
    by (cases "sc_UserSession conf"; cases "sc_AnonymousSession conf"; cases "sc_Keyring conf")
       (auto simp: PrepareCookieSessions_def NewCookieManager_def cm_Enable_def Let_def prepare_user_def prepare_anonymous_def
         AnonymousSessionConf_Validate_def validateExpiry_iff [symmetric] split: option.splits sum.splits)
qed

end
