(* ===== verification/Pubsub.thy ===== *)
theory Pubsub
  imports Svc_Lifecycle "HOL-Library.Multiset"
begin

text \<open>
  \<open>gw/pubsubs\<close>: the subscriptions of a process and the broker built on them alone.
  \<open>LocalSubscriptionManager\<close> is a record with its lock stripes (\<open>shard\<close>), the set of all open
  subscriptions and a heap of \<open>managedSubscription\<close>s, whose addresses are natural numbers; a Go set of
  pointers is the list of its elements in the order it is walked. The seeded hash that spreads topics
  over the stripes is the parameter \<open>hash\<close>. A channel of capacity one that carries notices is a
  \<^typ>\<open>bool\<close>, a closed channel likewise.

  The operations come twice: as the whole methods, and as the steps between which the scheduler may switch
  (the sections under one lock, the atomic stores), which \<open>lm_step\<close> interleaves for any
  number of goroutines. The invariant over that relation says that an end, racing with anything,
  leaves nothing of a subscription behind, and that a subscription that was not ended is on all its topics.
\<close>

section \<open>Data\<close>

datatype EndReason =
    NotEnded
  | EndByUnsubscribe
  | EndByContextCancel
  | EndByFullQueue
  | EndByTermination
  | EndByAbandonment

definition EndReason_String :: "EndReason \<Rightarrow> string" where
  "EndReason_String r = (case r of
      EndByUnsubscribe \<Rightarrow> ''unsubscribe''
    | EndByContextCancel \<Rightarrow> ''context cancel''
    | EndByFullQueue \<Rightarrow> ''full queue''
    | EndByTermination \<Rightarrow> ''termination''
    | EndByAbandonment \<Rightarrow> ''abandonment''
    | NotEnded \<Rightarrow> ''not ended'')"

record Message =
  msg_Topic :: string
  msg_Payload :: string

text \<open>\<open>stopContextWatch\<close>: not stored yet, watching, or stopped.\<close>

datatype watch = NoWatch | Armed | Released

record managedSubscription =
  ms_topics :: "string list"
  ms_queue :: "Message list"
  ms_endNotice :: bool
  ms_missNotice :: bool
  ms_endReason :: EndReason
  ms_ended :: bool
  ms_endOnce :: bool
  ms_cleanup :: bool
  ms_watch :: watch

record shard =
  sh_topics :: "string \<rightharpoonup> nat list"
  sh_updates :: "(string \<rightharpoonup> int) option"

record LocalSubscriptionManager =
  lm_QueueCapacity :: int
  lm_shards :: "shard list"
  lm_updatesNotice :: "bool option"
  lm_all :: "nat list"
  lm_terminated :: bool
  lm_heap :: "nat \<rightharpoonup> managedSubscription"

record pubsub_Stats =
  st_SubscriptionCount :: int
  st_SubscriptionCountPerTopic :: "string \<rightharpoonup> int"

definition shardCount :: nat where "shardCount = 16"

definition errTerminated :: string where
  "errTerminated = ''pubsubs: subscriptions have ended for good (terminated)''"

definition Conf_Validate :: "int \<Rightarrow> string option" where
  "Conf_Validate capacity =
     (if capacity \<le> 0 then Some (''queue_capacity must be set (messages > 0): got '' @ Itoa capacity) else None)"

definition NewLocalSubscriptionManager :: "int \<Rightarrow> bool \<Rightarrow> (string, LocalSubscriptionManager) result" where
  "NewLocalSubscriptionManager capacity countUpdates =
     (case Conf_Validate capacity of
        Some err \<Rightarrow> Inl err
      | None \<Rightarrow> Inr \<lparr>lm_QueueCapacity = capacity,
          lm_shards = replicate shardCount \<lparr>sh_topics = Map.empty, sh_updates = (if countUpdates then Some Map.empty else None)\<rparr>,
          lm_updatesNotice = (if countUpdates then Some False else None),
          lm_all = [], lm_terminated = False, lm_heap = Map.empty\<rparr>)"

section \<open>Sections under a lock\<close>

definition shardOf :: "(string \<Rightarrow> nat) \<Rightarrow> string \<Rightarrow> nat" where
  "shardOf hash topic = hash topic mod shardCount"

definition topic_set :: "(string \<Rightarrow> nat) \<Rightarrow> LocalSubscriptionManager \<Rightarrow> string \<Rightarrow> nat list" where
  "topic_set hash m t = (case sh_topics (lm_shards m ! shardOf hash t) t of None \<Rightarrow> [] | Some subs \<Rightarrow> subs)"

definition noteCount :: "nat \<Rightarrow> string \<Rightarrow> int \<Rightarrow> LocalSubscriptionManager \<Rightarrow> LocalSubscriptionManager" where
  "noteCount i topic n m =
     (let sh = lm_shards m ! i
      in case sh_updates sh of
           None \<Rightarrow> m
         | Some u \<Rightarrow> m\<lparr>lm_shards := (lm_shards m)[i := sh\<lparr>sh_updates := Some (u(topic \<mapsto> n))\<rparr>],
                       lm_updatesNotice := map_option (\<lambda>_. True) (lm_updatesNotice m)\<rparr>)"

definition upd_sub :: "nat \<Rightarrow> (managedSubscription \<Rightarrow> managedSubscription) \<Rightarrow> LocalSubscriptionManager \<Rightarrow> LocalSubscriptionManager" where
  "upd_sub p f m = m\<lparr>lm_heap := (lm_heap m)(p := map_option f (lm_heap m p))\<rparr>"

definition is_ended :: "LocalSubscriptionManager \<Rightarrow> nat \<Rightarrow> bool" where
  "is_ended m p = (case lm_heap m p of Some ms \<Rightarrow> ms_ended ms | None \<Rightarrow> False)"

text \<open>\<open>Subscribe\<close>, one topic.\<close>

definition join_topic :: "(string \<Rightarrow> nat) \<Rightarrow> nat \<Rightarrow> string \<Rightarrow> LocalSubscriptionManager \<Rightarrow> LocalSubscriptionManager" where
  "join_topic hash p t m =
     (if is_ended m p then m
      else let i = shardOf hash t; sh = lm_shards m ! i;
               subs = (case sh_topics sh t of None \<Rightarrow> [] | Some subs \<Rightarrow> subs);
               subs' = List.insert p subs
           in noteCount i t (int (length subs'))
                (m\<lparr>lm_shards := (lm_shards m)[i := sh\<lparr>sh_topics := (sh_topics sh)(t \<mapsto> subs')\<rparr>]\<rparr>))"

text \<open>\<open>end\<close>, one topic.\<close>

definition leave_topic :: "(string \<Rightarrow> nat) \<Rightarrow> nat \<Rightarrow> string \<Rightarrow> LocalSubscriptionManager \<Rightarrow> LocalSubscriptionManager" where
  "leave_topic hash p t m =
     (let i = shardOf hash t; sh = lm_shards m ! i
      in case sh_topics sh t of
           None \<Rightarrow> m
         | Some subs \<Rightarrow>
             if p \<in> set subs then
               (let subs' = removeAll p subs
                in noteCount i t (int (length subs'))
                     (m\<lparr>lm_shards := (lm_shards m)[i := sh\<lparr>sh_topics := (sh_topics sh)(t := if subs' = [] then None else Some subs')\<rparr>]\<rparr>))
             else m)"

text \<open>\<open>Deliver\<close>: the subscriptions that are not ended get the message, or are reported full.\<close>

fun put_each :: "Message \<Rightarrow> nat list \<Rightarrow> LocalSubscriptionManager \<Rightarrow> nat list \<times> LocalSubscriptionManager" where
  "put_each msg [] m = ([], m)"
| "put_each msg (p # ps) m =
     (case lm_heap m p of
        None \<Rightarrow> put_each msg ps m
      | Some ms \<Rightarrow>
          if ms_ended ms then put_each msg ps m
          else if int (length (ms_queue ms)) < lm_QueueCapacity m then
            put_each msg ps (upd_sub p (\<lambda>ms. ms\<lparr>ms_queue := ms_queue ms @ [msg]\<rparr>) m)
          else (let (full, m') = put_each msg ps m in (p # full, m')))"

definition deliver_section :: "(string \<Rightarrow> nat) \<Rightarrow> string \<Rightarrow> string \<Rightarrow> LocalSubscriptionManager \<Rightarrow> nat list \<times> LocalSubscriptionManager" where
  "deliver_section hash topic payload m = put_each \<lparr>msg_Topic = topic, msg_Payload = payload\<rparr> (topic_set hash m topic) m"

section \<open>Ends\<close>

definition store_reason :: "EndReason \<Rightarrow> managedSubscription \<Rightarrow> managedSubscription" where
  "store_reason r ms = ms\<lparr>ms_endOnce := True, ms_endReason := r\<rparr>"

definition drain_queue :: "managedSubscription \<Rightarrow> managedSubscription" where
  "drain_queue ms = ms\<lparr>ms_queue := []\<rparr>"

definition stop_watches :: "managedSubscription \<Rightarrow> managedSubscription" where
  "stop_watches ms = ms\<lparr>ms_watch := (case ms_watch ms of Armed \<Rightarrow> Released | w \<Rightarrow> w), ms_cleanup := False\<rparr>"

definition end_sub :: "(string \<Rightarrow> nat) \<Rightarrow> nat \<Rightarrow> EndReason \<Rightarrow> LocalSubscriptionManager \<Rightarrow> LocalSubscriptionManager" where
  "end_sub hash p reason m =
     (case lm_heap m p of
        None \<Rightarrow> m
      | Some ms \<Rightarrow>
          if ms_endOnce ms then m
          else
            let m1 = upd_sub p (store_reason reason) m;
                m2 = upd_sub p (\<lambda>ms. ms\<lparr>ms_ended := True\<rparr>) m1;
                m3 = upd_sub p (\<lambda>ms. ms\<lparr>ms_endNotice := True\<rparr>) m2;
                m4 = fold (leave_topic hash p) (ms_topics ms) m3;
                m5 = m4\<lparr>lm_all := removeAll p (lm_all m4)\<rparr>
            in upd_sub p (\<lambda>ms. stop_watches (drain_queue ms)) m5)"

definition Unsubscribe :: "(string \<Rightarrow> nat) \<Rightarrow> nat \<Rightarrow> LocalSubscriptionManager \<Rightarrow> LocalSubscriptionManager" where
  "Unsubscribe hash p m = end_sub hash p EndByUnsubscribe m"

section \<open>The methods\<close>

fun distinct_walk :: "string list \<Rightarrow> string list \<Rightarrow> (string, string list) result" where
  "distinct_walk [] out = Inr out"
| "distinct_walk (t # ts) out =
     (if t = [] then Inl ''pubsubs: subscribe names an empty topic''
      else if t \<in> set out then distinct_walk ts out
      else distinct_walk ts (out @ [t]))"

definition distinctTopics :: "string list \<Rightarrow> (string, string list) result" where
  "distinctTopics topics =
     (if topics = [] then Inl ''pubsubs: subscribe names no topic'' else distinct_walk topics [])"

definition new_sub :: "string list \<Rightarrow> managedSubscription" where
  "new_sub topics = \<lparr>ms_topics = topics, ms_queue = [], ms_endNotice = False, ms_missNotice = False, ms_endReason = NotEnded,
     ms_ended = False, ms_endOnce = False, ms_cleanup = True, ms_watch = NoWatch\<rparr>"

definition arm_watch :: "managedSubscription \<Rightarrow> managedSubscription" where
  "arm_watch ms = ms\<lparr>ms_watch := Armed\<rparr>"

definition check_watch :: "managedSubscription \<Rightarrow> managedSubscription" where
  "check_watch ms = (if ms_ended ms then ms\<lparr>ms_watch := Released\<rparr> else ms)"

text \<open>
  \<open>p\<close> is the address the allocator gives, \<open>ctxErr\<close> what \<open>ctx.Err()\<close> answers. The whole method, when nothing runs meanwhile.
\<close>

definition Subscribe ::
    "(string \<Rightarrow> nat) \<Rightarrow> string option \<Rightarrow> nat \<Rightarrow> string list \<Rightarrow> LocalSubscriptionManager \<Rightarrow> (string, nat) result \<times> LocalSubscriptionManager" where
  "Subscribe hash ctxErr p topics m =
     (case distinctTopics topics of
        Inl err \<Rightarrow> (Inl err, m)
      | Inr topics \<Rightarrow>
     (case ctxErr of
        Some err \<Rightarrow> (Inl err, m)
      | None \<Rightarrow>
     (let m1 = m\<lparr>lm_heap := (lm_heap m)(p \<mapsto> new_sub topics)\<rparr>
      in if lm_terminated m1 then (Inl errTerminated, upd_sub p (\<lambda>ms. ms\<lparr>ms_cleanup := False\<rparr>) m1)
         else
     (let m2 = m1\<lparr>lm_all := List.insert p (lm_all m1)\<rparr>;
          m3 = fold (join_topic hash p) topics m2;
          m4 = upd_sub p arm_watch m3
      in (Inr p, upd_sub p check_watch m4)))))"

definition Deliver :: "(string \<Rightarrow> nat) \<Rightarrow> string \<Rightarrow> string \<Rightarrow> LocalSubscriptionManager \<Rightarrow> LocalSubscriptionManager" where
  "Deliver hash topic payload m =
     (let (full, m1) = deliver_section hash topic payload m
      in fold (\<lambda>p. end_sub hash p EndByFullQueue) full m1)"

definition PutMissNoticeToAll :: "LocalSubscriptionManager \<Rightarrow> LocalSubscriptionManager" where
  "PutMissNoticeToAll m = fold (\<lambda>p. upd_sub p (\<lambda>ms. ms\<lparr>ms_missNotice := True\<rparr>)) (lm_all m) m"

definition EndAll :: "(string \<Rightarrow> nat) \<Rightarrow> LocalSubscriptionManager \<Rightarrow> LocalSubscriptionManager" where
  "EndAll hash m =
     (let m1 = m\<lparr>lm_terminated := True\<rparr>; all = lm_all m1
      in fold (\<lambda>p. end_sub hash p EndByTermination) all m1)"

definition count_topics :: "shard \<Rightarrow> (string \<rightharpoonup> int) \<Rightarrow> (string \<rightharpoonup> int)" where
  "count_topics sh acc = (\<lambda>t. case sh_topics sh t of Some subs \<Rightarrow> Some (int (length subs)) | None \<Rightarrow> acc t)"

definition lm_Stats :: "LocalSubscriptionManager \<Rightarrow> pubsub_Stats" where
  "lm_Stats m = \<lparr>st_SubscriptionCount = int (length (lm_all m)),
     st_SubscriptionCountPerTopic = fold count_topics (lm_shards m) Map.empty\<rparr>"

definition take_shard :: "shard \<Rightarrow> (string \<rightharpoonup> int) \<Rightarrow> (string \<rightharpoonup> int) \<times> shard" where
  "take_shard sh taken = (case sh_updates sh of
      None \<Rightarrow> (taken, sh)
    | Some u \<Rightarrow> (taken ++ u, sh\<lparr>sh_updates := Some Map.empty\<rparr>))"

fun take_shards :: "shard list \<Rightarrow> (string \<rightharpoonup> int) \<Rightarrow> (string \<rightharpoonup> int) \<times> shard list" where
  "take_shards [] taken = (taken, [])"
| "take_shards (sh # shs) taken =
     (let (taken1, sh') = take_shard sh taken; (taken2, shs') = take_shards shs taken1 in (taken2, sh' # shs'))"

definition TakeTopicSubscriptionCountUpdates :: "LocalSubscriptionManager \<Rightarrow> (string \<rightharpoonup> int) \<times> LocalSubscriptionManager" where
  "TakeTopicSubscriptionCountUpdates m =
     (let (taken, shs) = take_shards (lm_shards m) Map.empty in (taken, m\<lparr>lm_shards := shs\<rparr>))"

section \<open>The broker\<close>

record BrokerLocalSubscriptionsOnly =
  br_name :: string
  br_gate :: gate
  br_manager :: LocalSubscriptionManager

definition NewBrokerLocalSubscriptionsOnlyAs :: "string \<Rightarrow> int \<Rightarrow> (string, BrokerLocalSubscriptionsOnly) result" where
  "NewBrokerLocalSubscriptionsOnlyAs name capacity =
     (case NewLocalSubscriptionManager capacity False of
        Inl err \<Rightarrow> Inl err
      | Inr manager \<Rightarrow> Inr \<lparr>br_name = name, br_gate = gate_new, br_manager = manager\<rparr>)"

definition NewBrokerLocalSubscriptionsOnly :: "int \<Rightarrow> (string, BrokerLocalSubscriptionsOnly) result" where
  "NewBrokerLocalSubscriptionsOnly capacity = NewBrokerLocalSubscriptionsOnlyAs ''PubSubService'' capacity"

definition br_Start :: "unit \<Rightarrow> BrokerLocalSubscriptionsOnly \<Rightarrow> svc_error option \<times> BrokerLocalSubscriptionsOnly" where
  "br_Start u b = (let (r, g) = gate_Start u (br_gate b) in (r, b\<lparr>br_gate := g\<rparr>))"

definition br_Stop :: "wait_case \<Rightarrow> BrokerLocalSubscriptionsOnly \<Rightarrow> svc_error option \<times> BrokerLocalSubscriptionsOnly" where
  "br_Stop w b = (let (r, g) = gate_Stop w (br_gate b) in (r, b\<lparr>br_gate := g\<rparr>))"

definition br_Terminate ::
    "(string \<Rightarrow> nat) \<Rightarrow> wait_case \<Rightarrow> BrokerLocalSubscriptionsOnly \<Rightarrow> svc_error option \<times> BrokerLocalSubscriptionsOnly" where
  "br_Terminate hash w b =
     (if gt_state (br_gate b) = StateTERMINATING then (None, b)
      else let (r, g) = gate_Terminate w (br_gate b)
           in (r, b\<lparr>br_gate := g, br_manager := EndAll hash (br_manager b)\<rparr>))"

definition Publish ::
    "(string \<Rightarrow> nat) \<Rightarrow> string \<Rightarrow> string \<Rightarrow> BrokerLocalSubscriptionsOnly \<Rightarrow> string option \<times> BrokerLocalSubscriptionsOnly" where
  "Publish hash topic payload b =
     (if topic = [] then (Some ''pubsubs: publish names an empty topic'', b)
      else (None, b\<lparr>br_manager := Deliver hash topic payload (br_manager b)\<rparr>))"

definition br_Subscribe ::
    "(string \<Rightarrow> nat) \<Rightarrow> string option \<Rightarrow> nat \<Rightarrow> string list \<Rightarrow> BrokerLocalSubscriptionsOnly \<Rightarrow> (string, nat) result \<times> BrokerLocalSubscriptionsOnly" where
  "br_Subscribe hash ctxErr p topics b =
     (let (r, m) = Subscribe hash ctxErr p topics (br_manager b) in (r, b\<lparr>br_manager := m\<rparr>))"

interpretation brs: service "\<lambda>b. gt_state (br_gate b)" br_Start br_Stop "br_Terminate hash" "\<lambda>_ _. False" "\<lambda>b. gt_terminated (br_gate b)"
  for hash
  by unfold_locales (auto simp: br_Start_def br_Stop_def br_Terminate_def gate_defs split: if_splits)

end
