(* ===== verification/Pubsub_Correct.thy ===== *)
theory Pubsub_Correct
  imports Pubsub
begin

text \<open>
  The goroutines of the subscription manager, interleaved, and what is invariant; then the
  methods on their own: what a delivery does, and that termination ends everything.
\<close>

section \<open>Sections under a lock\<close>

lemma shardOf_less [simp]: "shardOf hash t < shardCount"
  by (simp add: shardOf_def shardCount_def)

definition shards_ok :: "LocalSubscriptionManager \<Rightarrow> bool" where
  "shards_ok m \<longleftrightarrow> length (lm_shards m) = shardCount"

lemma topic_set_upd:
  assumes "shards_ok m"
  shows "topic_set hash (m\<lparr>lm_shards := (lm_shards m)[shardOf hash t := (lm_shards m ! shardOf hash t)\<lparr>sh_topics := (sh_topics (lm_shards m ! shardOf hash t))(t := x)\<rparr>]\<rparr>) t' =
    (if t' = t then (case x of None \<Rightarrow> [] | Some s \<Rightarrow> s) else topic_set hash m t')"
  using assms by (cases "shardOf hash t' = shardOf hash t") (auto simp: topic_set_def shards_ok_def)

lemma noteCount_facts [simp]:
  "i < shardCount \<Longrightarrow> shards_ok m \<Longrightarrow> topic_set hash (noteCount i t n m) = topic_set hash m"
  "lm_heap (noteCount i t n m) = lm_heap m" "lm_all (noteCount i t n m) = lm_all m"
  "lm_QueueCapacity (noteCount i t n m) = lm_QueueCapacity m" "shards_ok (noteCount i t n m) = shards_ok m"
  by (auto simp: noteCount_def Let_def topic_set_def shards_ok_def fun_eq_iff nth_list_update split: option.split)

lemma join_topic_facts [simp]:
  "lm_heap (join_topic hash p t m) = lm_heap m" "lm_all (join_topic hash p t m) = lm_all m"
  "lm_QueueCapacity (join_topic hash p t m) = lm_QueueCapacity m" "shards_ok (join_topic hash p t m) = shards_ok m"
  by (auto simp: join_topic_def Let_def shards_ok_def noteCount_facts(5) [unfolded shards_ok_def])

lemma leave_topic_facts [simp]:
  "lm_heap (leave_topic hash p t m) = lm_heap m" "lm_all (leave_topic hash p t m) = lm_all m"
  "lm_QueueCapacity (leave_topic hash p t m) = lm_QueueCapacity m" "shards_ok (leave_topic hash p t m) = shards_ok m"
  by (auto simp: leave_topic_def Let_def shards_ok_def noteCount_facts(5) [unfolded shards_ok_def] split: option.split)

lemma topic_set_join:
  assumes "shards_ok m"
  shows "topic_set hash (join_topic hash p t m) t' =
    (if t' = t \<and> \<not> is_ended m p then List.insert p (topic_set hash m t) else topic_set hash m t')"
proof (cases "is_ended m p")
  case False
  let ?m = "m\<lparr>lm_shards := (lm_shards m)[shardOf hash t := (lm_shards m ! shardOf hash t)
      \<lparr>sh_topics := (sh_topics (lm_shards m ! shardOf hash t))(t := Some (List.insert p (topic_set hash m t)))\<rparr>]\<rparr>"
  have "join_topic hash p t m = noteCount (shardOf hash t) t (int (length (List.insert p (topic_set hash m t)))) ?m"
    using False by (simp add: join_topic_def Let_def topic_set_def)
  moreover have "shards_ok ?m" using assms by (simp add: shards_ok_def)
  ultimately show ?thesis using False assms by (simp add: topic_set_upd)
qed (simp add: join_topic_def)

lemma topic_set_leave:
  assumes "shards_ok m"
  shows "topic_set hash (leave_topic hash p t m) t' =
    (if t' = t then removeAll p (topic_set hash m t) else topic_set hash m t')"
proof (cases "p \<in> set (topic_set hash m t)")
  case True
  let ?s = "removeAll p (topic_set hash m t)"
  let ?m = "m\<lparr>lm_shards := (lm_shards m)[shardOf hash t := (lm_shards m ! shardOf hash t)
      \<lparr>sh_topics := (sh_topics (lm_shards m ! shardOf hash t))(t := if ?s = [] then None else Some ?s)\<rparr>]\<rparr>"
  have "leave_topic hash p t m = noteCount (shardOf hash t) t (int (length ?s)) ?m"
    using True by (auto simp: leave_topic_def Let_def topic_set_def split: option.splits)
  moreover have "shards_ok ?m" using assms by (simp add: shards_ok_def)
  ultimately show ?thesis using assms by (simp add: topic_set_upd)
next
  case False
  then have "leave_topic hash p t m = m" by (auto simp: leave_topic_def Let_def topic_set_def split: option.splits)
  then show ?thesis using False by simp
qed

lemma upd_sub_facts [simp]:
  "topic_set hash (upd_sub p f m) = topic_set hash m" "lm_all (upd_sub p f m) = lm_all m"
  "lm_QueueCapacity (upd_sub p f m) = lm_QueueCapacity m" "shards_ok (upd_sub p f m) = shards_ok m"
  "lm_heap (upd_sub p f m) q = (if q = p then map_option f (lm_heap m p) else lm_heap m q)"
  "lm_terminated (upd_sub p f m) = lm_terminated m"
  by (auto simp: upd_sub_def topic_set_def shards_ok_def fun_eq_iff)

lemma manager_upd_facts [simp]:
  "topic_set hash (m\<lparr>lm_heap := h\<rparr>) = topic_set hash m" "shards_ok (m\<lparr>lm_heap := h\<rparr>) = shards_ok m"
  "topic_set hash (m\<lparr>lm_all := a\<rparr>) = topic_set hash m" "shards_ok (m\<lparr>lm_all := a\<rparr>) = shards_ok m"
  "topic_set hash (m\<lparr>lm_terminated := b\<rparr>) = topic_set hash m" "shards_ok (m\<lparr>lm_terminated := b\<rparr>) = shards_ok m"
  by (auto simp: topic_set_def shards_ok_def fun_eq_iff)

text \<open>What a delivery does to one subscription: nothing, or one message more while there is room.\<close>

lemma put_each_keeps:
  "put_each msg ps m = (full, m') \<Longrightarrow>
     topic_set hash m' = topic_set hash m \<and> lm_all m' = lm_all m \<and> lm_QueueCapacity m' = lm_QueueCapacity m \<and>
     shards_ok m' = shards_ok m \<and> lm_terminated m' = lm_terminated m"
proof (induction ps arbitrary: m full)
  case (Cons q ps)
  then show ?case
    by (cases "lm_heap m q"; simp add: Let_def split: if_splits prod.splits)
qed simp

definition got :: "Message \<Rightarrow> managedSubscription \<Rightarrow> managedSubscription" where
  "got msg ms = ms\<lparr>ms_queue := ms_queue ms @ [msg]\<rparr>"

text \<open>Whether a put to a subscription finds it open, and if so with room.\<close>

definition open_sub :: "LocalSubscriptionManager \<Rightarrow> nat \<Rightarrow> bool" where
  "open_sub m p \<longleftrightarrow> (\<exists>ms. lm_heap m p = Some ms \<and> \<not> ms_ended ms)"

definition has_room :: "LocalSubscriptionManager \<Rightarrow> nat \<Rightarrow> bool" where
  "has_room m p \<longleftrightarrow> (\<exists>ms. lm_heap m p = Some ms \<and> int (length (ms_queue ms)) < lm_QueueCapacity m)"

lemma put_each_effect:
  "put_each msg ps m = (full, m') \<Longrightarrow> distinct ps \<Longrightarrow>
     lm_heap m' p = (if p \<in> set ps \<and> open_sub m p \<and> has_room m p then map_option (got msg) (lm_heap m p) else lm_heap m p) \<and>
     (p \<in> set full \<longleftrightarrow> p \<in> set ps \<and> open_sub m p \<and> \<not> has_room m p)"
proof (induction ps arbitrary: m full)
  case (Cons q ps)
  show ?case
  proof (cases "open_sub m q")
    case False
    then have "put_each msg ps m = (full, m')" using Cons.prems by (auto simp: open_sub_def split: option.splits)
    from Cons.IH [OF this] show ?thesis using Cons.prems False by (cases "p = q") auto
  next
    case True
    then obtain ms where ms: "lm_heap m q = Some ms" "\<not> ms_ended ms" by (auto simp: open_sub_def)
    show ?thesis
    proof (cases "has_room m q")
      case True
      let ?m = "upd_sub q (got msg) m"
      have run: "put_each msg ps ?m = (full, m')" using Cons.prems True ms by (auto simp: has_room_def got_def [abs_def])
      have "open_sub ?m p = open_sub m p \<and> has_room ?m p = has_room m p \<and> lm_heap ?m p = lm_heap m p" if "p \<noteq> q"
        using that by (simp add: open_sub_def has_room_def)
      then show ?thesis using Cons.IH [OF run] Cons.prems True ms \<open>open_sub m q\<close> by (cases "p = q") auto
    next
      case False
      then obtain full' where run: "put_each msg ps m = (full', m')" and f: "full = q # full'"
        using Cons.prems ms by (auto simp: has_room_def split: prod.splits)
      show ?thesis using Cons.IH [OF run] Cons.prems False ms \<open>open_sub m q\<close> by (cases "p = q") (auto simp: f)
    qed
  qed
qed simp

section \<open>Interleavings\<close>

text \<open>
  Where a goroutine stands inside \<open>Subscribe\<close> or \<open>end\<close>. An end starts at any moment, for any
  reason, on any subscription whose \<open>endOnce\<close> is unused: by its subscriber, its context, a full queue, a
  termination or the garbage collector.
\<close>

datatype goroutine =
    Registering nat "string list"
  | Arming nat
  | Checking nat
  | EndMark nat
  | EndClose nat
  | EndLeave nat "string list"
  | EndForget nat
  | EndDrain nat

type_synonym lm_sys = "LocalSubscriptionManager \<times> goroutine multiset"

inductive lm_step :: "(string \<Rightarrow> nat) \<Rightarrow> lm_sys \<Rightarrow> lm_sys \<Rightarrow> bool" for hash where
  subscribes: "lm_heap m p = None \<Longrightarrow> \<not> lm_terminated m \<Longrightarrow> distinctTopics ts = Inr topics \<Longrightarrow>
    lm_step hash (m, T) (m\<lparr>lm_heap := (lm_heap m)(p \<mapsto> new_sub topics), lm_all := List.insert p (lm_all m)\<rparr>, add_mset (Registering p topics) T)"
| registers: "lm_step hash (m, add_mset (Registering p (t # ts)) T) (join_topic hash p t m, add_mset (Registering p ts) T)"
| registered: "lm_step hash (m, add_mset (Registering p []) T) (m, add_mset (Arming p) T)"
| arms: "lm_step hash (m, add_mset (Arming p) T) (upd_sub p arm_watch m, add_mset (Checking p) T)"
| checks: "lm_step hash (m, add_mset (Checking p) T) (upd_sub p check_watch m, T)"
| delivers: "deliver_section hash topic payload m = (full, m') \<Longrightarrow> lm_step hash (m, T) (m', T)"
| takes: "lm_step hash (m, T) (upd_sub p (\<lambda>ms. ms\<lparr>ms_queue := tl (ms_queue ms)\<rparr>) m, T)"
| misses: "lm_step hash (m, T) (upd_sub p (\<lambda>ms. ms\<lparr>ms_missNotice := b\<rparr>) m, T)"
| terminates: "lm_step hash (m, T) (m\<lparr>lm_terminated := True\<rparr>, T)"
| ends: "lm_heap m p = Some ms \<Longrightarrow> \<not> ms_endOnce ms \<Longrightarrow> r \<noteq> NotEnded \<Longrightarrow>
    lm_step hash (m, T) (upd_sub p (store_reason r) m, add_mset (EndMark p) T)"
| marks: "lm_step hash (m, add_mset (EndMark p) T) (upd_sub p (\<lambda>ms. ms\<lparr>ms_ended := True\<rparr>) m, add_mset (EndClose p) T)"
| closes: "lm_heap m p = Some ms \<Longrightarrow>
    lm_step hash (m, add_mset (EndClose p) T) (upd_sub p (\<lambda>ms. ms\<lparr>ms_endNotice := True\<rparr>) m, add_mset (EndLeave p (ms_topics ms)) T)"
| leaves: "lm_step hash (m, add_mset (EndLeave p (t # ts)) T) (leave_topic hash p t m, add_mset (EndLeave p ts) T)"
| left: "lm_step hash (m, add_mset (EndLeave p []) T) (m, add_mset (EndForget p) T)"
| forgets: "lm_step hash (m, add_mset (EndForget p) T) (m\<lparr>lm_all := removeAll p (lm_all m)\<rparr>, add_mset (EndDrain p) T)"
| drains: "lm_step hash (m, add_mset (EndDrain p) T) (upd_sub p (\<lambda>ms. stop_watches (drain_queue ms)) m, T)"

definition lm_init :: "lm_sys \<Rightarrow> bool" where
  "lm_init s \<longleftrightarrow> (\<exists>c u m. NewLocalSubscriptionManager c u = Inr m \<and> s = (m, {#}))"

text \<open>The goroutines that are on the way to removing what is left of a subscription.\<close>

definition still_leaving :: "goroutine multiset \<Rightarrow> nat \<Rightarrow> string \<Rightarrow> bool" where
  "still_leaving T p t \<longleftrightarrow> EndClose p \<in># T \<or> (\<exists>ts. EndLeave p ts \<in># T \<and> t \<in> set ts)"

definition still_forgetting :: "goroutine multiset \<Rightarrow> nat \<Rightarrow> bool" where
  "still_forgetting T p \<longleftrightarrow> EndMark p \<in># T \<or> EndClose p \<in># T \<or> (\<exists>ts. EndLeave p ts \<in># T) \<or> EndForget p \<in># T"

definition still_ending :: "goroutine multiset \<Rightarrow> nat \<Rightarrow> bool" where
  "still_ending T p \<longleftrightarrow> still_forgetting T p \<or> EndDrain p \<in># T"

definition sub_book :: "LocalSubscriptionManager \<Rightarrow> goroutine multiset \<Rightarrow> nat \<Rightarrow> managedSubscription \<Rightarrow> bool" where
  "sub_book m T p ms \<longleftrightarrow>
     (ms_endOnce ms \<longrightarrow> ms_endReason ms \<noteq> NotEnded \<and> (ms_ended ms \<or> EndMark p \<in># T) \<and> (ms_endNotice ms \<or> EndMark p \<in># T \<or> EndClose p \<in># T) \<and>
        (p \<in> set (lm_all m) \<longrightarrow> still_forgetting T p) \<and> (ms_queue ms \<noteq> [] \<longrightarrow> still_ending T p) \<and>
        (ms_watch ms = Armed \<longrightarrow> still_ending T p \<or> Checking p \<in># T)) \<and>
     (\<not> ms_endOnce ms \<longrightarrow> \<not> ms_ended ms \<and> \<not> ms_endNotice ms \<and> ms_endReason ms = NotEnded \<and> p \<in> set (lm_all m) \<and> \<not> still_ending T p) \<and>
     (ms_endNotice ms \<longrightarrow> ms_ended ms) \<and>
     ((EndClose p \<in># T \<or> (\<exists>ts. EndLeave p ts \<in># T)) \<longrightarrow> ms_ended ms) \<and>
     int (length (ms_queue ms)) \<le> lm_QueueCapacity m"

definition sub_topics :: "(string \<Rightarrow> nat) \<Rightarrow> LocalSubscriptionManager \<Rightarrow> goroutine multiset \<Rightarrow> nat \<Rightarrow> managedSubscription \<Rightarrow> bool" where
  "sub_topics hash m T p ms \<longleftrightarrow>
     (\<forall>t. p \<in> set (topic_set hash m t) \<longrightarrow> t \<in> set (ms_topics ms) \<and> (ms_ended ms \<longrightarrow> still_leaving T p t)) \<and>
     (\<not> ms_ended ms \<longrightarrow> (\<forall>t\<in>set (ms_topics ms). p \<in> set (topic_set hash m t) \<or> (\<exists>ts. Registering p ts \<in># T \<and> t \<in> set ts)))"

definition sub_inv :: "(string \<Rightarrow> nat) \<Rightarrow> LocalSubscriptionManager \<Rightarrow> goroutine multiset \<Rightarrow> nat \<Rightarrow> managedSubscription \<Rightarrow> bool" where
  "sub_inv hash m T p ms \<longleftrightarrow> sub_book m T p ms \<and> sub_topics hash m T p ms"

fun g_sub :: "goroutine \<Rightarrow> nat" where
  "g_sub (Registering p _) = p"
| "g_sub (Arming p) = p"
| "g_sub (Checking p) = p"
| "g_sub (EndMark p) = p"
| "g_sub (EndClose p) = p"
| "g_sub (EndLeave p _) = p"
| "g_sub (EndForget p) = p"
| "g_sub (EndDrain p) = p"

definition lm_inv :: "(string \<Rightarrow> nat) \<Rightarrow> lm_sys \<Rightarrow> bool" where
  "lm_inv hash s \<longleftrightarrow> (case s of (m, T) \<Rightarrow> shards_ok m \<and> 0 < lm_QueueCapacity m \<and>
     (\<forall>t. distinct (topic_set hash m t)) \<and>
     (\<forall>p. lm_heap m p = None \<longrightarrow> p \<notin> set (lm_all m) \<and> (\<forall>t. p \<notin> set (topic_set hash m t)) \<and> (\<forall>g. g \<in># T \<longrightarrow> g_sub g \<noteq> p)) \<and>
     (\<forall>p ts. Registering p ts \<in># T \<longrightarrow> (\<exists>ms. lm_heap m p = Some ms \<and> set ts \<subseteq> set (ms_topics ms))) \<and>
     (\<forall>p ms. lm_heap m p = Some ms \<longrightarrow> sub_inv hash m T p ms))"

lemmas still_defs = still_leaving_def still_forgetting_def still_ending_def
lemmas sub_defs = sub_inv_def sub_book_def sub_topics_def still_defs

lemma still_subscribing:
  assumes "g \<in> {Registering q us, Arming q, Checking q}"
  shows "still_leaving (add_mset g T) p t = still_leaving T p t" "still_forgetting (add_mset g T) p = still_forgetting T p"
    "still_ending (add_mset g T) p = still_ending T p"
  using assms by (auto simp: still_defs)

lemmas still_subscribing' [simp] = still_subscribing [OF insertI1] still_subscribing [OF insertI2 [OF insertI1]]
  still_subscribing [OF insertI2 [OF insertI2 [OF insertI1]]]

text \<open>A subscription is not concerned by what happens to others.\<close>

lemma sub_inv_frame:
  assumes "\<And>g. g_sub g = q \<Longrightarrow> g \<in># T' \<longleftrightarrow> g \<in># T"
    and "\<And>t. q \<in> set (topic_set hash m' t) \<longleftrightarrow> q \<in> set (topic_set hash m t)"
    and "q \<in> set (lm_all m') \<longleftrightarrow> q \<in> set (lm_all m)" "lm_QueueCapacity m' = lm_QueueCapacity m"
  shows "sub_inv hash m' T' q ms = sub_inv hash m T q ms"
proof -
  have [simp]: "EndMark q \<in># T' \<longleftrightarrow> EndMark q \<in># T" "EndClose q \<in># T' \<longleftrightarrow> EndClose q \<in># T" "EndForget q \<in># T' \<longleftrightarrow> EndForget q \<in># T"
    "EndDrain q \<in># T' \<longleftrightarrow> EndDrain q \<in># T" "Checking q \<in># T' \<longleftrightarrow> Checking q \<in># T"
    "\<And>ts. EndLeave q ts \<in># T' \<longleftrightarrow> EndLeave q ts \<in># T" "\<And>ts. Registering q ts \<in># T' \<longleftrightarrow> Registering q ts \<in># T"
    by (rule assms(1); simp)+
  show ?thesis unfolding sub_defs by (simp add: assms(2-4))
qed

lemma lm_inv_local:
  assumes inv: "lm_inv hash (m, T)"
    and frame: "\<And>q. q \<noteq> p \<Longrightarrow> lm_heap m' q = lm_heap m q \<and> (q \<in> set (lm_all m') \<longleftrightarrow> q \<in> set (lm_all m))"
      "\<And>q t. q \<noteq> p \<Longrightarrow> q \<in> set (topic_set hash m' t) \<longleftrightarrow> q \<in> set (topic_set hash m t)"
    and threads: "\<And>g. g_sub g \<noteq> p \<Longrightarrow> g \<in># T' \<longleftrightarrow> g \<in># T"
    and m': "shards_ok m'" "lm_QueueCapacity m' = lm_QueueCapacity m" "\<And>t. distinct (topic_set hash m' t)"
    and own: "lm_heap m' p = Some ms'" "sub_inv hash m' T' p ms'" "\<And>ts. Registering p ts \<in># T' \<Longrightarrow> set ts \<subseteq> set (ms_topics ms')"
  shows "lm_inv hash (m', T')"
proof -
  have i: "0 < lm_QueueCapacity m" "\<And>q. lm_heap m q = None \<Longrightarrow> q \<notin> set (lm_all m) \<and> (\<forall>t. q \<notin> set (topic_set hash m t)) \<and> (\<forall>g. g \<in># T \<longrightarrow> g_sub g \<noteq> q)"
    "\<And>q ts. Registering q ts \<in># T \<Longrightarrow> \<exists>ms. lm_heap m q = Some ms \<and> set ts \<subseteq> set (ms_topics ms)"
    "\<And>q ms. lm_heap m q = Some ms \<Longrightarrow> sub_inv hash m T q ms"
    using inv by (auto simp: lm_inv_def)
  have "sub_inv hash m' T' q ms" if "lm_heap m' q = Some ms" for q ms
  proof (cases "q = p")
    case False
    then have "sub_inv hash m' T' q ms = sub_inv hash m T q ms"
      by (intro sub_inv_frame) (use frame threads m'(2) in auto)
    then show ?thesis using i(4) that frame(1) [OF False] by simp
  qed (use that own in simp)
  moreover have "q \<notin> set (lm_all m') \<and> (\<forall>t. q \<notin> set (topic_set hash m' t)) \<and> (\<forall>g. g \<in># T' \<longrightarrow> g_sub g \<noteq> q)" if "lm_heap m' q = None" for q
  proof -
    have "q \<noteq> p" using that own(1) by auto
    then show ?thesis using i(2) [of q] frame threads that by metis
  qed
  moreover have "\<exists>ms. lm_heap m' q = Some ms \<and> set ts \<subseteq> set (ms_topics ms)" if "Registering q ts \<in># T'" for q ts
    using i(3) [of q ts] threads [of "Registering q ts"] frame(1) [of q] own that by (cases "q = p") auto
  ultimately show ?thesis using m' i(1) unfolding lm_inv_def prod.case by simp
qed

lemma lm_inv_sub:
  assumes "lm_inv hash (m, T)" "g \<in># T"
  obtains ms where "lm_heap m (g_sub g) = Some ms" "sub_inv hash m T (g_sub g) ms"
  using assms by (cases "lm_heap m (g_sub g)") (auto simp: lm_inv_def)

lemma lm_inv_registering:
  "lm_inv hash (m, T) \<Longrightarrow> Registering p ts \<in># T \<Longrightarrow> \<exists>ms. lm_heap m p = Some ms \<and> set ts \<subseteq> set (ms_topics ms)"
  by (simp add: lm_inv_def)

text \<open>A step of one goroutine that changes the fields of its own subscription and moves on.\<close>

lemma lm_inv_upd:
  assumes inv: "lm_inv hash (m, T)" and ms: "lm_heap m p = Some ms"
    and threads: "\<And>g. g_sub g \<noteq> p \<Longrightarrow> g \<in># T' \<longleftrightarrow> g \<in># T" "\<And>ts. Registering p ts \<in># T' \<Longrightarrow> Registering p ts \<in># T"
    and f: "ms_topics (f ms) = ms_topics ms" "sub_inv hash m T p ms \<Longrightarrow> sub_inv hash m T' p (f ms)"
  shows "lm_inv hash (upd_sub p f m, T')"
proof (rule lm_inv_local [OF inv, where p = p and ms' = "f ms"])
  have s: "sub_inv hash m T p ms" using inv ms by (simp add: lm_inv_def)
  show "sub_inv hash (upd_sub p f m) T' p (f ms)"
    using f(2) [OF s] sub_inv_frame [of p T' T' hash "upd_sub p f m" m] by simp
  show "Registering p ts \<in># T' \<Longrightarrow> set ts \<subseteq> set (ms_topics (f ms))" for ts
    using lm_inv_registering [OF inv, of p ts] ms threads(2) [of ts] f(1) by auto
qed (use inv ms threads(1) in \<open>simp_all add: lm_inv_def\<close>)

lemma lm_inv_facts:
  assumes "lm_inv hash (m, T)"
  shows "shards_ok m" "0 < lm_QueueCapacity m" "distinct (topic_set hash m t)"
    "lm_heap m p = None \<Longrightarrow> p \<notin> set (topic_set hash m t)" "lm_heap m p = None \<Longrightarrow> g \<in># T \<Longrightarrow> g_sub g \<noteq> p"
    "lm_heap m p = Some ms \<Longrightarrow> sub_inv hash m T p ms" "p \<in> set (lm_all m) \<Longrightarrow> \<exists>ms. lm_heap m p = Some ms"
  using assms by (auto simp: lm_inv_def simp del: not_None_eq)

lemma lm_inv_subscribes:
  assumes inv: "lm_inv hash (m, T)" and new: "lm_heap m p = None"
  shows "lm_inv hash (m\<lparr>lm_heap := (lm_heap m)(p \<mapsto> new_sub topics), lm_all := List.insert p (lm_all m)\<rparr>, add_mset (Registering p topics) T)"
proof (rule lm_inv_local [OF inv, where p = p and ms' = "new_sub topics"])
  note i = lm_inv_facts [OF inv]
  have nt: "EndMark p \<notin># T" "EndClose p \<notin># T" "EndForget p \<notin># T" "EndDrain p \<notin># T" "EndLeave p ts \<notin># T" "Registering p ts \<notin># T" for ts
    using i(5) [OF new] by (metis g_sub.simps)+
  show "sub_inv hash (m\<lparr>lm_heap := (lm_heap m)(p \<mapsto> new_sub topics), lm_all := List.insert p (lm_all m)\<rparr>) (add_mset (Registering p topics) T) p (new_sub topics)"
    using i(2) i(4) [OF new] nt by (simp add: sub_defs new_sub_def)
  show "Registering p ts \<in># add_mset (Registering p topics) T \<Longrightarrow> set ts \<subseteq> set (ms_topics (new_sub topics))" for ts
    using nt(6) by (auto simp: new_sub_def)
qed (use lm_inv_facts [OF inv] in auto)

lemma lm_inv_registers:
  assumes inv: "lm_inv hash (m, add_mset (Registering p (t # ts)) T)"
  shows "lm_inv hash (join_topic hash p t m, add_mset (Registering p ts) T)"
proof -
  note i = lm_inv_facts [OF inv]
  obtain ms where ms: "lm_heap m p = Some ms" "set (t # ts) \<subseteq> set (ms_topics ms)"
    using lm_inv_registering [OF inv, of p "t # ts"] by auto
  have e: "is_ended m p = ms_ended ms" by (simp add: is_ended_def ms)
  have s: "sub_inv hash m (add_mset (Registering p (t # ts)) T) p ms" by (rule i(6) [OF ms(1)])
  show ?thesis
  proof (rule lm_inv_local [OF inv, where p = p and ms' = ms])
    show "sub_inv hash (join_topic hash p t m) (add_mset (Registering p ts) T) p ms"
    proof -
      have "sub_book (join_topic hash p t m) (add_mset (Registering p ts) T) p ms"
        using s by (simp add: sub_inv_def sub_book_def)
      moreover have "sub_topics hash (join_topic hash p t m) (add_mset (Registering p ts) T) p ms"
        unfolding sub_topics_def topic_set_join [OF i(1)] e
      proof (intro conjI allI impI ballI)
        have st: "sub_topics hash m (add_mset (Registering p (t # ts)) T) p ms" using s by (simp add: sub_inv_def)
        fix u
        show "u \<in> set (ms_topics ms)" "ms_ended ms \<Longrightarrow> still_leaving (add_mset (Registering p ts) T) p u"
          if "p \<in> set (if u = t \<and> \<not> ms_ended ms then List.insert p (topic_set hash m t) else topic_set hash m u)"
          using that st ms(2) by (auto simp: sub_topics_def split: if_splits)
        assume "\<not> ms_ended ms" "u \<in> set (ms_topics ms)"
        then have "p \<in> set (topic_set hash m u) \<or> (\<exists>us. Registering p us \<in># add_mset (Registering p (t # ts)) T \<and> u \<in> set us)"
          using st by (simp add: sub_topics_def)
        then show "p \<in> set (if u = t \<and> \<not> ms_ended ms then List.insert p (topic_set hash m t) else topic_set hash m u) \<or>
            (\<exists>us. Registering p us \<in># add_mset (Registering p ts) T \<and> u \<in> set us)"
          using \<open>\<not> ms_ended ms\<close> by (cases "u = t") auto
      qed
      ultimately show ?thesis by (simp add: sub_inv_def)
    qed
    show "Registering p us \<in># add_mset (Registering p ts) T \<Longrightarrow> set us \<subseteq> set (ms_topics ms)" for us
      using lm_inv_registering [OF inv, of p us] ms by auto
  qed (use i ms in \<open>auto simp: topic_set_join\<close>)
qed

lemma lm_inv_leaves:
  assumes inv: "lm_inv hash (m, add_mset (EndLeave p (t # ts)) T)"
  shows "lm_inv hash (leave_topic hash p t m, add_mset (EndLeave p ts) T)"
proof -
  note i = lm_inv_facts [OF inv]
  obtain ms where ms: "lm_heap m p = Some ms" and s: "sub_inv hash m (add_mset (EndLeave p (t # ts)) T) p ms"
    using lm_inv_sub [OF inv, of "EndLeave p (t # ts)"] by auto
  show ?thesis
  proof (rule lm_inv_local [OF inv, where p = p and ms' = ms])
    show "sub_inv hash (leave_topic hash p t m) (add_mset (EndLeave p ts) T) p ms"
    proof -
      have e: "ms_ended ms" using s by (auto simp: sub_inv_def sub_book_def)
      have step: "still_leaving (add_mset (EndLeave p (t # ts)) T) p u \<Longrightarrow> u \<noteq> t \<Longrightarrow> still_leaving (add_mset (EndLeave p ts) T) p u" for u
        by (fastforce simp: still_leaving_def)
      have "still_forgetting (add_mset (EndLeave p ts) T) p" by (auto simp: still_forgetting_def)
      then have "sub_book (leave_topic hash p t m) (add_mset (EndLeave p ts) T) p ms"
        using s e by (auto simp: sub_inv_def sub_book_def still_ending_def split: if_splits)
      moreover have "sub_topics hash (leave_topic hash p t m) (add_mset (EndLeave p ts) T) p ms"
        using s e step by (simp add: sub_inv_def sub_topics_def topic_set_leave [OF i(1)])
      ultimately show ?thesis by (simp add: sub_inv_def)
    qed
    show "Registering p us \<in># add_mset (EndLeave p ts) T \<Longrightarrow> set us \<subseteq> set (ms_topics ms)" for us
      using lm_inv_registering [OF inv, of p us] ms by auto
  qed (use i ms in \<open>auto simp: topic_set_leave distinct_removeAll\<close>)
qed

lemma lm_inv_forgets:
  assumes inv: "lm_inv hash (m, add_mset (EndForget p) T)"
  shows "lm_inv hash (m\<lparr>lm_all := removeAll p (lm_all m)\<rparr>, add_mset (EndDrain p) T)"
proof -
  note i = lm_inv_facts [OF inv]
  obtain ms where ms: "lm_heap m p = Some ms" and s: "sub_inv hash m (add_mset (EndForget p) T) p ms"
    using lm_inv_sub [OF inv, of "EndForget p"] by auto
  show ?thesis
  proof (rule lm_inv_local [OF inv, where p = p and ms' = ms])
    show "sub_inv hash (m\<lparr>lm_all := removeAll p (lm_all m)\<rparr>) (add_mset (EndDrain p) T) p ms"
      using s by (auto simp: sub_defs split: if_splits)
    show "Registering p us \<in># add_mset (EndDrain p) T \<Longrightarrow> set us \<subseteq> set (ms_topics ms)" for us
      using lm_inv_registering [OF inv, of p us] ms by auto
  qed (use i ms in auto)
qed

lemma lm_inv_delivers:
  assumes inv: "lm_inv hash (m, T)" and run: "deliver_section hash topic payload m = (full, m')"
  shows "lm_inv hash (m', T)"
proof -
  note i = lm_inv_facts [OF inv]
  note k = put_each_keeps [OF run [unfolded deliver_section_def], of hash]
  have h: "lm_heap m' p = (if p \<in> set (topic_set hash m topic) \<and> open_sub m p \<and> has_room m p
      then map_option (got \<lparr>msg_Topic = topic, msg_Payload = payload\<rparr>) (lm_heap m p) else lm_heap m p)" for p
    using put_each_effect [OF run [unfolded deliver_section_def] i(3), of p] by simp
  have "sub_inv hash m' T p ms'" if ms': "lm_heap m' p = Some ms'" for p ms'
  proof -
    have f: "sub_inv hash m' T p x = sub_inv hash m T p x" for x by (rule sub_inv_frame) (use k in simp_all)
    obtain ms where ms: "lm_heap m p = Some ms" using ms' unfolding h [of p] by (cases "lm_heap m p") (auto split: if_splits)
    show ?thesis
    proof (cases "open_sub m p \<and> has_room m p \<and> p \<in> set (topic_set hash m topic)")
      case True
      then have o: "\<not> ms_ended ms" "int (length (ms_queue ms)) < lm_QueueCapacity m" using ms by (auto simp: open_sub_def has_room_def)
      have "ms' = got \<lparr>msg_Topic = topic, msg_Payload = payload\<rparr> ms" using h [of p] True ms ms' by simp
      then show ?thesis unfolding f using i(6) [OF ms] o by (auto simp: sub_defs got_def split: if_splits)
    qed (use h [of p] ms ms' i(6) [OF ms] f in \<open>auto split: if_splits\<close>)
  qed
  moreover have "lm_heap m' p = None \<longleftrightarrow> lm_heap m p = None" for p using h [of p] by auto
  moreover have "\<exists>ms. lm_heap m' p = Some ms \<and> set ts \<subseteq> set (ms_topics ms)" if "Registering p ts \<in># T" for p ts
    using lm_inv_registering [OF inv that] h [of p] by (auto simp: got_def)
  ultimately show ?thesis using inv k unfolding lm_inv_def prod.case by auto
qed

lemma lm_inv_alloc: "lm_inv hash (m, add_mset g T) \<Longrightarrow> \<exists>ms. lm_heap m (g_sub g) = Some ms"
  using lm_inv_facts(5) [of hash m "add_mset g T" "g_sub g" g] by (cases "lm_heap m (g_sub g)") auto

lemma sub_inv_queue:
  assumes "sub_inv hash m T p ms" "length q \<le> length (ms_queue ms)"
  shows "sub_inv hash m T p (ms\<lparr>ms_queue := q\<rparr>)"
proof -
  have "q \<noteq> [] \<longrightarrow> ms_queue ms \<noteq> []" using assms(2) by auto
  moreover have "int (length (ms_queue ms)) \<le> lm_QueueCapacity m \<longrightarrow> int (length q) \<le> lm_QueueCapacity m" using assms(2) by linarith
  ultimately show ?thesis using assms(1) by (simp add: sub_inv_def sub_book_def sub_topics_def)
qed

lemma upd_sub_id: "upd_sub p (\<lambda>x. x) m = m"
  by (cases m) (simp add: upd_sub_def option.map_ident fun_upd_triv)

lemma lm_step_inv:
  assumes "lm_step hash s s'" "lm_inv hash s"
  shows "lm_inv hash s'"
  using assms
proof (induction rule: lm_step.induct)
  case (registered m p T)
  then obtain ms where ms: "lm_heap m p = Some ms" using lm_inv_alloc [of hash m "Registering p []" T] by auto
  show ?case by (rule lm_inv_upd [OF registered ms, where f = "\<lambda>x. x" and T' = "add_mset (Arming p) T", unfolded upd_sub_id]) (auto simp: sub_inv_def sub_book_def sub_topics_def)
next
  case (arms m p T)
  then obtain ms where ms: "lm_heap m p = Some ms" using lm_inv_alloc [of hash m "Arming p" T] by auto
  show ?case by (rule lm_inv_upd [OF arms ms]) (auto simp: sub_inv_def sub_book_def sub_topics_def arm_watch_def)
next
  case (checks m p T)
  then obtain ms where ms: "lm_heap m p = Some ms" using lm_inv_alloc [of hash m "Checking p" T] by auto
  show ?case by (rule lm_inv_upd [OF checks ms]) (auto simp: sub_inv_def sub_book_def sub_topics_def check_watch_def still_ending_def still_forgetting_def)
next
  case (takes m T p)
  show ?case
  proof (cases "lm_heap m p")
    case (Some ms)
    show ?thesis by (rule lm_inv_upd [OF takes Some]) (simp_all add: sub_inv_queue)
  qed (use takes in \<open>simp add: upd_sub_def fun_upd_idem\<close>)
next
  case (misses m T p b)
  show ?case
  proof (cases "lm_heap m p")
    case (Some ms)
    show ?thesis by (rule lm_inv_upd [OF misses Some]) (auto simp: sub_inv_def sub_book_def sub_topics_def)
  qed (use misses in \<open>simp add: upd_sub_def fun_upd_idem\<close>)
next
  case (terminates m T)
  then show ?case by (simp add: lm_inv_def sub_inv_def sub_book_def sub_topics_def)
next
  case (ends m p ms r T)
  show ?case by (rule lm_inv_upd [OF ends(4,1)]) (use ends(2,3) in \<open>auto simp: sub_defs store_reason_def\<close>)
next
  case (marks m p T)
  then obtain ms where ms: "lm_heap m p = Some ms" using lm_inv_alloc [of hash m "EndMark p" T] by auto
  show ?case by (rule lm_inv_upd [OF marks ms]) (auto simp: sub_defs)
next
  case (closes m p ms T)
  show ?case
  proof (rule lm_inv_upd [OF closes(2,1)])
    let ?T = "add_mset (EndLeave p (ms_topics ms)) T"
    assume s: "sub_inv hash m (add_mset (EndClose p) T) p ms"
    then have e: "ms_ended ms" "ms_endOnce ms" "ms_endReason ms \<noteq> NotEnded" "int (length (ms_queue ms)) \<le> lm_QueueCapacity m"
      by (auto simp: sub_inv_def sub_book_def)
    have "still_forgetting ?T p" "still_ending ?T p" by (auto simp: still_defs)
    then have "sub_book m ?T p (ms\<lparr>ms_endNotice := True\<rparr>)" using e by (simp add: sub_book_def)
    moreover have "still_leaving ?T p t" if "t \<in> set (ms_topics ms)" for t using that by (auto simp: still_defs)
    then have "sub_topics hash m ?T p (ms\<lparr>ms_endNotice := True\<rparr>)" using s e by (simp add: sub_inv_def sub_topics_def)
    ultimately show "sub_inv hash m ?T p (ms\<lparr>ms_endNotice := True\<rparr>)" by (simp add: sub_inv_def)
  qed auto
next
  case (left m p T)
  then obtain ms where ms: "lm_heap m p = Some ms" using lm_inv_alloc [of hash m "EndLeave p []" T] by auto
  show ?case
  proof (rule lm_inv_upd [OF left ms, where f = "\<lambda>x. x", unfolded upd_sub_id])
    let ?T = "add_mset (EndForget p) T"
    assume s: "sub_inv hash m (add_mset (EndLeave p []) T) p ms"
    then have e: "ms_ended ms" "ms_endOnce ms" "ms_endReason ms \<noteq> NotEnded" "int (length (ms_queue ms)) \<le> lm_QueueCapacity m"
      "ms_endNotice ms \<or> EndMark p \<in># T \<or> EndClose p \<in># T"
      by (auto simp: sub_inv_def sub_book_def)
    have "still_forgetting ?T p" "still_ending ?T p" by (auto simp: still_defs)
    then have "sub_book m ?T p ms" using e by (simp add: sub_book_def)
    moreover have "still_leaving (add_mset (EndLeave p []) T) p t \<Longrightarrow> still_leaving ?T p t" for t by (auto simp: still_leaving_def)
    then have "sub_topics hash m ?T p ms" using s e by (simp add: sub_inv_def sub_topics_def)
    ultimately show "sub_inv hash m ?T p ms" by (simp add: sub_inv_def)
  qed auto
next
  case (drains m p T)
  then obtain ms where ms: "lm_heap m p = Some ms" using lm_inv_alloc [of hash m "EndDrain p" T] by auto
  show ?case by (rule lm_inv_upd [OF drains ms]) (auto simp: sub_defs stop_watches_def drain_queue_def split: watch.splits)
qed (auto intro: lm_inv_subscribes lm_inv_registers lm_inv_leaves lm_inv_forgets lm_inv_delivers)

lemma lm_init_inv: "lm_init s \<Longrightarrow> lm_inv hash s"
  by (auto simp: lm_init_def NewLocalSubscriptionManager_def Conf_Validate_def lm_inv_def shards_ok_def topic_set_def
      split: if_splits)

lemma lm_reach_inv: "reach lm_init (lm_step hash) s \<Longrightarrow> lm_inv hash s"
proof (induction rule: reach_invariant)
  case (step s s')
  then show ?case by (rule lm_step_inv [rotated])
qed (rule lm_init_inv)

section \<open>What an end leaves behind\<close>

text \<open>
  C35: Whatever runs at the same time, an end leaves nothing of a subscription behind, and nothing else removes one. In every
  reachable state, once no goroutine is inside \<open>Subscribe\<close> or \<open>end\<close> for a subscription: if it was ended, its end notice is
  closed with a reason stored, it is in no topic's set and not in the manager's set, its queue is empty and its context watch is
  released; if not, it is in the manager's set and in the set of each of its topics and of no other. At every moment a closed end notice
  comes with a reason and a queue holds at most its capacity.
\<close>

theorem end_leaves_nothing:
  assumes "reach lm_init (lm_step hash) (m, T)" and "lm_heap m p = Some ms"
  shows "(ms_endNotice ms \<longrightarrow> ms_endReason ms \<noteq> NotEnded) \<and> int (length (ms_queue ms)) \<le> lm_QueueCapacity m \<and>
    ((\<forall>g. g \<in># T \<longrightarrow> g_sub g \<noteq> p) \<longrightarrow>
      (if ms_endOnce ms then ms_ended ms \<and> ms_endNotice ms \<and> ms_queue ms = [] \<and> ms_watch ms \<noteq> Armed \<and>
         p \<notin> set (lm_all m) \<and> (\<forall>t. p \<notin> set (topic_set hash m t))
       else p \<in> set (lm_all m) \<and> \<not> ms_endNotice ms \<and> (\<forall>t. p \<in> set (topic_set hash m t) \<longleftrightarrow> t \<in> set (ms_topics ms))))"
proof -
  have s: "sub_book m T p ms" "sub_topics hash m T p ms"
    using lm_inv_facts(6) [OF lm_reach_inv [OF assms(1)] assms(2)] by (simp_all add: sub_inv_def)
  have r: "ms_endNotice ms \<longrightarrow> ms_endReason ms \<noteq> NotEnded" "int (length (ms_queue ms)) \<le> lm_QueueCapacity m"
    using s(1) by (auto simp: sub_book_def)
  have "if ms_endOnce ms then ms_ended ms \<and> ms_endNotice ms \<and> ms_queue ms = [] \<and> ms_watch ms \<noteq> Armed \<and>
         p \<notin> set (lm_all m) \<and> (\<forall>t. p \<notin> set (topic_set hash m t))
       else p \<in> set (lm_all m) \<and> \<not> ms_endNotice ms \<and> (\<forall>t. p \<in> set (topic_set hash m t) \<longleftrightarrow> t \<in> set (ms_topics ms))"
    if q: "\<forall>g. g \<in># T \<longrightarrow> g_sub g \<noteq> p"
  proof -
    have n: "EndMark p \<notin># T" "EndClose p \<notin># T" "EndForget p \<notin># T" "EndDrain p \<notin># T" "Checking p \<notin># T"
      "EndLeave p ts \<notin># T" "Registering p ts \<notin># T" for ts
      using q by (metis g_sub.simps)+
    then have "\<not> still_ending T p" "\<not> still_forgetting T p" "\<not> still_leaving T p t" for t by (auto simp: still_defs)
    then show ?thesis using s n by (auto simp: sub_book_def sub_topics_def)
  qed
  then show ?thesis using r by blast
qed

definition sample_lm :: LocalSubscriptionManager where
  "sample_lm = \<lparr>lm_QueueCapacity = 2, lm_shards = replicate shardCount \<lparr>sh_topics = Map.empty, sh_updates = None\<rparr>,
     lm_updatesNotice = None, lm_all = [], lm_terminated = False, lm_heap = Map.empty\<rparr>"

lemma sample_lm_init: "lm_init (sample_lm, {#})"
  by (auto simp: lm_init_def NewLocalSubscriptionManager_def Conf_Validate_def sample_lm_def intro!: exI [of _ 2] exI [of _ False])

text \<open>A subscription that is ended while \<open>Subscribe\<close> still registers it.\<close>

theorem end_leaves_nothing_witness:
  "\<exists>m ms. lm_heap m 0 = Some ms \<and> ms_endNotice ms \<and> 0 \<notin> set (topic_set length m ''a'') \<and> 0 \<notin> set (lm_all m)"
proof -
  define m1 where "m1 = sample_lm\<lparr>lm_heap := (lm_heap sample_lm)(0 \<mapsto> new_sub [''a'']), lm_all := List.insert 0 (lm_all sample_lm)\<rparr>"
  define m2 where "m2 = upd_sub 0 (store_reason EndByContextCancel) m1"
  define m3 where "m3 = upd_sub 0 (\<lambda>ms. ms\<lparr>ms_ended := True\<rparr>) m2"
  define m4 where "m4 = upd_sub 0 (\<lambda>ms. ms\<lparr>ms_endNotice := True\<rparr>) m3"
  define m5 where "m5 = join_topic length 0 ''a'' m4"
  define m6 where "m6 = leave_topic length 0 ''a'' m5"
  define m7 where "m7 = upd_sub 0 check_watch (upd_sub 0 arm_watch m6)"
  define m8 where "m8 = upd_sub 0 (\<lambda>ms. stop_watches (drain_queue ms)) (m7\<lparr>lm_all := removeAll 0 (lm_all m7)\<rparr>)"
  note go = reach_step [where init = lm_init and step = "lm_step length"]
  have h1: "lm_heap m1 0 = Some (new_sub [''a''])" by (simp add: m1_def)
  have d: "distinctTopics [''a''] = Inr [''a'']" by (simp add: distinctTopics_def)
  have "reach lm_init (lm_step length) (m1, {#Registering 0 [''a'']#})"
    unfolding m1_def by (rule go [OF reach_init [where init = lm_init, OF sample_lm_init] subscribes [OF _ _ d]]) (simp_all add: sample_lm_def)
  from go [OF this ends [OF h1, of EndByContextCancel]]
  have "reach lm_init (lm_step length) (m2, {#EndMark 0, Registering 0 [''a'']#})" by (simp add: m2_def new_sub_def)
  from go [OF this marks] have s3: "reach lm_init (lm_step length) (m3, {#EndClose 0, Registering 0 [''a'']#})" by (simp add: m3_def)
  have h3: "\<exists>ms. lm_heap m3 0 = Some ms \<and> ms_topics ms = [''a'']" by (simp add: m3_def m2_def h1 new_sub_def store_reason_def)
  then obtain ms3 where "lm_heap m3 0 = Some ms3" "ms_topics ms3 = [''a'']" by blast
  with go [OF s3 closes [of m3 0 ms3]] have "reach lm_init (lm_step length) (m4, add_mset (Registering 0 [''a'']) {#EndLeave 0 [''a'']#})"
    by (simp add: m4_def add_mset_commute)
  from go [OF this registers] have "reach lm_init (lm_step length) (m5, {#EndLeave 0 [''a''], Registering 0 []#})"
    by (simp add: m5_def add_mset_commute)
  from go [OF this leaves] have "reach lm_init (lm_step length) (m6, {#Registering 0 [], EndLeave 0 []#})"
    by (simp add: m6_def add_mset_commute)
  from go [OF go [OF go [OF this registered] arms] checks] have "reach lm_init (lm_step length) (m7, {#EndLeave 0 []#})"
    by (simp add: m7_def)
  from go [OF go [OF go [OF this left] forgets] drains] have s8: "reach lm_init (lm_step length) (m8, {#})"
    by (simp add: m8_def)
  obtain ms where ms: "lm_heap m8 0 = Some ms" "ms_endOnce ms"
    by (simp add: m8_def m7_def m6_def m5_def m4_def m3_def m2_def h1 new_sub_def store_reason_def arm_watch_def check_watch_def stop_watches_def drain_queue_def)
  show ?thesis using end_leaves_nothing [OF s8 ms(1)] ms by (intro exI [of _ m8] exI [of _ ms]) simp
qed

section \<open>The methods\<close>

definition closed_sub :: "EndReason \<Rightarrow> managedSubscription \<Rightarrow> managedSubscription" where
  "closed_sub r ms = stop_watches (drain_queue ((store_reason r ms)\<lparr>ms_ended := True, ms_endNotice := True\<rparr>))"

lemma closed_sub_fields [simp]:
  "ms_endOnce (closed_sub r ms)" "ms_ended (closed_sub r ms)" "ms_endNotice (closed_sub r ms)"
  "ms_endReason (closed_sub r ms) = r" "ms_topics (closed_sub r ms) = ms_topics ms" "ms_queue (closed_sub r ms) = []"
  by (simp_all add: closed_sub_def stop_watches_def drain_queue_def store_reason_def)

definition ended_by :: "EndReason \<Rightarrow> managedSubscription \<Rightarrow> managedSubscription" where
  "ended_by r ms = (if ms_endOnce ms then ms else closed_sub r ms)"

lemma ended_by_twice [simp]: "ended_by r (ended_by r' ms) = ended_by r' ms"
  by (simp add: ended_by_def)

lemma fold_leave_facts:
  "shards_ok m \<Longrightarrow> lm_heap (fold (leave_topic hash p) ts m) = lm_heap m \<and> lm_all (fold (leave_topic hash p) ts m) = lm_all m \<and>
     shards_ok (fold (leave_topic hash p) ts m) \<and>
     set (topic_set hash (fold (leave_topic hash p) ts m) t) = set (topic_set hash m t) - (if t \<in> set ts then {p} else {})"
  by (induction ts arbitrary: m) (auto simp: topic_set_leave)

lemma end_sub_facts:
  assumes "shards_ok m"
  shows "shards_ok (end_sub hash q r m)"
    "lm_heap (end_sub hash q r m) p = (if p = q then map_option (ended_by r) (lm_heap m p) else lm_heap m p)"
    "set (lm_all (end_sub hash q r m)) = set (lm_all m) - (if \<exists>ms. lm_heap m q = Some ms \<and> \<not> ms_endOnce ms then {q} else {})"
    "set (topic_set hash (end_sub hash q r m) t) =
       set (topic_set hash m t) - (if \<exists>ms. lm_heap m q = Some ms \<and> \<not> ms_endOnce ms \<and> t \<in> set (ms_topics ms) then {q} else {})"
proof -
  show "shards_ok (end_sub hash q r m)"
    using assms by (auto simp: end_sub_def Let_def fold_leave_facts split: option.split)
  show "lm_heap (end_sub hash q r m) p = (if p = q then map_option (ended_by r) (lm_heap m p) else lm_heap m p)"
    using assms by (auto simp: end_sub_def Let_def fold_leave_facts closed_sub_def ended_by_def split: option.split)
  show "set (lm_all (end_sub hash q r m)) = set (lm_all m) - (if \<exists>ms. lm_heap m q = Some ms \<and> \<not> ms_endOnce ms then {q} else {})"
    using assms by (auto simp: end_sub_def Let_def fold_leave_facts split: option.split)
  show "set (topic_set hash (end_sub hash q r m) t) =
       set (topic_set hash m t) - (if \<exists>ms. lm_heap m q = Some ms \<and> \<not> ms_endOnce ms \<and> t \<in> set (ms_topics ms) then {q} else {})"
    using assms by (auto simp: end_sub_def Let_def fold_leave_facts split: option.split)
qed

lemma noteCount_terminated [simp]: "lm_terminated (noteCount i t n m) = lm_terminated m"
  by (auto simp: noteCount_def Let_def split: option.split)

lemma leave_topic_terminated [simp]: "lm_terminated (leave_topic hash p t m) = lm_terminated m"
  by (auto simp: leave_topic_def Let_def split: option.split)

lemma end_sub_terminated [simp]: "lm_terminated (end_sub hash p r m) = lm_terminated m"
proof -
  have "lm_terminated (fold (leave_topic hash p) ts x) = lm_terminated x" for ts x
    by (induction ts arbitrary: x) simp_all
  then show ?thesis by (auto simp: end_sub_def Let_def split: option.split)
qed

text \<open>Ending a list of subscriptions, one after the other.\<close>

lemma fold_end_sub_heap:
  "shards_ok m \<Longrightarrow> shards_ok (fold (\<lambda>q. end_sub hash q r) qs m) \<and>
     lm_heap (fold (\<lambda>q. end_sub hash q r) qs m) p =
       (if p \<in> set qs then map_option (ended_by r) (lm_heap m p) else lm_heap m p)"
proof (induction qs arbitrary: m)
  case (Cons q qs)
  have "map_option (ended_by r) (map_option (ended_by r) x) = map_option (ended_by r) x" for x by (cases x) simp_all
  then show ?case using Cons.IH [OF end_sub_facts(1) [OF Cons.prems, of hash q r]] end_sub_facts(2) [OF Cons.prems, of hash q r p]
    by (cases "p = q") simp_all
qed simp

lemma fold_end_sub_gone:
  assumes "shards_ok m" "\<And>q. q \<in> set qs \<Longrightarrow> \<exists>ms. lm_heap m q = Some ms \<and> \<not> ms_endOnce ms"
  shows "set (lm_all (fold (\<lambda>q. end_sub hash q r) qs m)) = set (lm_all m) - set qs"
    "set (topic_set hash (fold (\<lambda>q. end_sub hash q r) qs m) t) =
       set (topic_set hash m t) - {q \<in> set qs. t \<in> set (ms_topics (the (lm_heap m q)))}"
  using assms
proof (induction qs rule: rev_induct)
  case (snoc q qs)
  let ?m = "fold (\<lambda>q. end_sub hash q r) qs m"
  { case 1
    have ih: "set (lm_all ?m) = set (lm_all m) - set qs" using snoc(1) 1 by simp
    have f: "shards_ok ?m" "lm_heap ?m q = (if q \<in> set qs then map_option (ended_by r) (lm_heap m q) else lm_heap m q)"
      using fold_end_sub_heap [OF 1(1)] by blast+
    obtain ms where "lm_heap m q = Some ms" "\<not> ms_endOnce ms" using 1(2) [of q] by auto
    then show ?case using f(2) ih end_sub_facts(3) [OF f(1), of hash q r] by (cases "q \<in> set qs") (auto simp: ended_by_def)
  next
    case 2
    have ih: "set (topic_set hash ?m t) = set (topic_set hash m t) - {q \<in> set qs. t \<in> set (ms_topics (the (lm_heap m q)))}"
      using snoc(2) 2 by simp
    have f: "shards_ok ?m" "lm_heap ?m q = (if q \<in> set qs then map_option (ended_by r) (lm_heap m q) else lm_heap m q)"
      using fold_end_sub_heap [OF 2(1)] by blast+
    obtain ms where "lm_heap m q = Some ms" "\<not> ms_endOnce ms" using 2(2) [of q] by auto
    then show ?case using f(2) ih end_sub_facts(4) [OF f(1), of hash q r t] by (cases "q \<in> set qs") (auto simp: ended_by_def) }
qed simp_all

text \<open>
  A delivery reaches every open subscription on the topic exactly once. With no end under way, \<open>Deliver\<close> appends the one
  message to the queue of every subscription on the topic that has room, ends every one on the topic whose queue is full (with the
  reason \<open>EndByFullQueue\<close>, its waiting messages dropped), and changes no other subscription.
\<close>

theorem deliver_once_or_end:
  assumes "reach lm_init (lm_step hash) (m, {#})" and "lm_heap m p = Some ms"
  shows "lm_heap (Deliver hash topic payload m) p = Some
    (if p \<notin> set (topic_set hash m topic) then ms
     else if int (length (ms_queue ms)) < lm_QueueCapacity m then
       ms\<lparr>ms_queue := ms_queue ms @ [\<lparr>msg_Topic = topic, msg_Payload = payload\<rparr>]\<rparr>
     else closed_sub EndByFullQueue ms) \<and>
    (p \<in> set (topic_set hash m topic) \<longleftrightarrow> \<not> ms_ended ms \<and> topic \<in> set (ms_topics ms))"
proof -
  obtain full m' where run: "deliver_section hash topic payload m = (full, m')" by force
  have inv: "lm_inv hash (m, {#})" by (rule lm_reach_inv [OF assms(1)])
  note i = lm_inv_facts [OF inv]
  note e = put_each_effect [OF run [unfolded deliver_section_def] i(3), of p]
  note k = put_each_keeps [OF run [unfolded deliver_section_def], of hash]
  have s: "sub_book m {#} p ms" "sub_topics hash m {#} p ms" using i(6) [OF assms(2)] by (simp_all add: sub_inv_def)
  have mem: "p \<in> set (topic_set hash m topic) \<longleftrightarrow> \<not> ms_ended ms \<and> topic \<in> set (ms_topics ms)" "\<not> ms_ended ms \<Longrightarrow> \<not> ms_endOnce ms"
    using s by (auto simp: sub_book_def sub_topics_def still_defs)
  have o: "open_sub m p \<longleftrightarrow> \<not> ms_ended ms" "has_room m p \<longleftrightarrow> int (length (ms_queue ms)) < lm_QueueCapacity m"
    using assms(2) by (auto simp: open_sub_def has_room_def)
  have "Deliver hash topic payload m = fold (\<lambda>q. end_sub hash q EndByFullQueue) full m'" by (simp add: Deliver_def run)
  then have "lm_heap (Deliver hash topic payload m) p =
      (if p \<in> set full then map_option (ended_by EndByFullQueue) (lm_heap m' p) else lm_heap m' p)"
    using fold_end_sub_heap [of m' hash EndByFullQueue full p] k i(1) by simp
  then show ?thesis using e mem assms(2) unfolding o by (auto simp: got_def ended_by_def)
qed

text \<open>A subscription on one topic, with room for two messages.\<close>

definition sample_open :: LocalSubscriptionManager where
  "sample_open = snd (Subscribe length None 0 [''a''] sample_lm)"

lemma sample_open_reach: "reach lm_init (lm_step length) (sample_open, {#})"
proof -
  define m1 where "m1 = sample_lm\<lparr>lm_heap := (lm_heap sample_lm)(0 \<mapsto> new_sub [''a'']), lm_all := List.insert 0 (lm_all sample_lm)\<rparr>"
  note go = reach_step [where init = lm_init and step = "lm_step length"]
  have d: "distinctTopics [''a''] = Inr [''a'']" by (simp add: distinctTopics_def)
  have "reach lm_init (lm_step length) (m1, {#Registering 0 [''a'']#})"
    unfolding m1_def by (rule go [OF reach_init [where init = lm_init, OF sample_lm_init] subscribes [OF _ _ d]]) (simp_all add: sample_lm_def)
  from go [OF go [OF go [OF go [OF this registers] registered] arms] checks]
  show ?thesis by (simp add: sample_open_def Subscribe_def d m1_def sample_lm_def Let_def)
qed

lemma sample_open_facts:
  "\<exists>ms. lm_heap sample_open 0 = Some ms \<and> ms_queue ms = [] \<and> \<not> ms_ended ms \<and> ms_topics ms = [''a'']" "lm_QueueCapacity sample_open = 2"
  by (simp_all add: sample_open_def Subscribe_def distinctTopics_def sample_lm_def Let_def new_sub_def arm_watch_def check_watch_def)

theorem deliver_once_or_end_witness:
  "\<exists>ms. lm_heap (Deliver length ''a'' ''x'' sample_open) 0 = Some (ms\<lparr>ms_queue := [\<lparr>msg_Topic = ''a'', msg_Payload = ''x''\<rparr>]\<rparr>)"
proof -
  obtain ms where ms: "lm_heap sample_open 0 = Some ms" "ms_queue ms = []" "\<not> ms_ended ms" "ms_topics ms = [''a'']"
    using sample_open_facts(1) by blast
  show ?thesis
    using deliver_once_or_end [OF sample_open_reach ms(1), of "''a''" "''x''"] ms sample_open_facts(2) by (intro exI [of _ ms]) auto
qed

text \<open>
  C36: Terminating the broker ends every subscription. From any state of a broker with no call under way, \<open>Terminate\<close> answers nil, closes the
  end notice of every subscription that was open with the reason \<open>EndByTermination\<close>, leaves no subscription in the manager or on any topic,
  and every \<open>Subscribe\<close> from then on is refused.
\<close>

theorem terminate_ends_all:
  assumes "reach lm_init (lm_step hash) (br_manager b, {#})" and "gt_state (br_gate b) \<noteq> StateTERMINATING"
  shows "fst (br_Terminate hash w b) = None \<and>
    (let m' = br_manager (snd (br_Terminate hash w b))
     in lm_all m' = [] \<and> (\<forall>t. topic_set hash m' t = []) \<and>
        (\<forall>p ms. lm_heap (br_manager b) p = Some ms \<longrightarrow> \<not> ms_ended ms \<longrightarrow>
           lm_heap m' p = Some (closed_sub EndByTermination ms) \<and> ms_endNotice (closed_sub EndByTermination ms)) \<and>
        (\<forall>topics p r. fst (Subscribe hash None p topics m') \<noteq> Inr r))"
proof -
  let ?m = "br_manager b" and ?m1 = "(br_manager b)\<lparr>lm_terminated := True\<rparr>"
  let ?m' = "fold (\<lambda>q. end_sub hash q EndByTermination) (lm_all ?m1) ?m1"
  have run: "fst (br_Terminate hash w b) = None" "br_manager (snd (br_Terminate hash w b)) = ?m'"
    using assms(2) by (simp_all add: br_Terminate_def gate_Terminate_def EndAll_def)
  have inv: "lm_inv hash (?m, {#})" by (rule lm_reach_inv [OF assms(1)])
  note i = lm_inv_facts [OF inv]
  have ok: "shards_ok ?m1" using i(1) by simp
  have book: "sub_book ?m {#} p ms" "sub_topics hash ?m {#} p ms" if "lm_heap ?m p = Some ms" for p ms
    using i(6) [OF that] by (simp_all add: sub_inv_def)
  have open_in: "p \<in> set (lm_all ?m) \<longleftrightarrow> \<not> ms_endOnce ms" "\<not> ms_ended ms \<longleftrightarrow> \<not> ms_endOnce ms" if "lm_heap ?m p = Some ms" for p ms
    using book(1) [OF that] by (auto simp: sub_book_def still_defs)
  have alloc: "\<exists>ms. lm_heap ?m1 q = Some ms \<and> \<not> ms_endOnce ms" if "q \<in> set (lm_all ?m1)" for q
    using i(7) [of q] open_in(1) [of q] that by auto
  note gone = fold_end_sub_gone [OF ok alloc, of "lm_all ?m1" hash EndByTermination]
  have a: "lm_all ?m' = []" using gone(1) by simp
  have t: "topic_set hash ?m' t = []" for t
  proof -
    have "q \<in> set (lm_all ?m)" "t \<in> set (ms_topics (the (lm_heap ?m q)))" if q: "q \<in> set (topic_set hash ?m t)" for q
    proof -
      obtain ms where ms: "lm_heap ?m q = Some ms" using i(4) [of q t] q by (cases "lm_heap ?m q") auto
      have t: "t \<in> set (ms_topics ms)" "\<not> ms_ended ms"
        using book(2) [OF ms, unfolded sub_topics_def, THEN conjunct1, rule_format, OF q] by (auto simp: still_leaving_def)
      show "q \<in> set (lm_all ?m)" using open_in(1) [OF ms] open_in(2) [OF ms] t(2) by blast
      show "t \<in> set (ms_topics (the (lm_heap ?m q)))" using t(1) ms by simp
    qed
    then have "set (topic_set hash ?m' t) = {}" using gone(2) [of t] by auto
    then show ?thesis by simp
  qed
  have h: "lm_heap ?m' p = Some (closed_sub EndByTermination ms)" if "lm_heap ?m p = Some ms" "\<not> ms_ended ms" for p ms
    using fold_end_sub_heap [OF ok, of hash EndByTermination "lm_all ?m1" p] open_in [OF that(1)] that by (simp add: ended_by_def)
  have "lm_terminated (fold (\<lambda>q. end_sub hash q r) qs x) = lm_terminated x" for r qs x
    by (induction qs arbitrary: x) (auto simp: end_sub_terminated)
  then have "lm_terminated ?m'" by simp
  then have "fst (Subscribe hash None p topics ?m') \<noteq> Inr r" for p topics r
    by (auto simp: Subscribe_def Let_def split: sum.split)
  then show ?thesis unfolding run Let_def using a t h by auto
qed

theorem terminate_ends_all_witness:
  "let b = \<lparr>br_name = ''ps'', br_gate = gate_new, br_manager = sample_open\<rparr>; m' = br_manager (snd (br_Terminate length SeesStopped b))
   in lm_all m' = [] \<and> fst (Subscribe length None 1 [''b''] m') \<noteq> Inr 1"
  using terminate_ends_all [of length "\<lparr>br_name = ''ps'', br_gate = gate_new, br_manager = sample_open\<rparr>" SeesStopped] sample_open_reach
  by (simp add: Let_def gate_new_def)

end
