(* ===== verification/Coll.thy ===== *)
theory Coll
  imports Gwf_Prelude "HOL-Library.Finite_Map" "HOL-Library.Multiset"
begin

text \<open>
  \<open>gw/coll\<close> and \<open>gw/collgrp\<close>: collections of identifiable items, unique by id, with an optional
  iteration order, and groups of such collections.

  A Go map is a finite map; \<open>for range\<close> over one visits its keys once each in an order the runtime
  chooses, so every operation with such a loop takes that order as its argument \<open>walk\<close>
  (\<open>ranges walk m\<close>). A nil order slice is \<open>None\<close>, an empty one \<open>Some []\<close>. \<open>GetID\<close> is the method of
  the item type; the items are opaque pointers, and \<open>zero\<close> is the nil one that an index expression
  yields for an absent key. Callbacks take and return the state they change. The relation fields that the
  \<open>Link\<close> operations assign are addresses of a store.
\<close>

section \<open>Maps, ranges, and the stable sort of the standard library\<close>

definition ranges :: "'k list \<Rightarrow> ('k, 'v) fmap \<Rightarrow> bool" where
  "ranges walk m \<longleftrightarrow> distinct walk \<and> set walk = fset (fmdom m)"

definition map_get :: "'v \<Rightarrow> ('k, 'v) fmap \<Rightarrow> 'k \<Rightarrow> 'v" where
  "map_get zero m k = (case fmlookup m k of Some v \<Rightarrow> v | None \<Rightarrow> zero)"

definition visit :: "('v \<Rightarrow> 's \<Rightarrow> 's) \<Rightarrow> ('k, 'v) fmap \<Rightarrow> 'k list \<Rightarrow> 's \<Rightarrow> 's" where
  "visit fn m ids s = fold (\<lambda>k s. case fmlookup m k of Some v \<Rightarrow> fn v s | None \<Rightarrow> s) ids s"

definition found :: "('k, 'v) fmap \<Rightarrow> 'k list \<Rightarrow> 'v list" where
  "found m ids = List.map_filter (fmlookup m) ids"

text \<open>\<open>sort.SliceStable\<close>: each element in turn moves left past the elements it is less than.\<close>

fun slide :: "('a \<Rightarrow> 'a \<Rightarrow> bool) \<Rightarrow> 'a \<Rightarrow> 'a list \<Rightarrow> 'a list" where
  "slide lt x [] = [x]"
| "slide lt x (y # ys) = (if lt x y then y # slide lt x ys else x # y # ys)"

definition SliceStable :: "('a \<Rightarrow> 'a \<Rightarrow> bool) \<Rightarrow> 'a list \<Rightarrow> 'a list" where
  "SliceStable lt xs = rev (fold (slide lt) xs [])"

section \<open>\<open>collection.go\<close>\<close>

record ('mp, 'id) Collection =
  itemsMap :: "('id, 'mp) fmap"
  coll_order :: "'id list option"

definition NewEmptyOrderedCollection :: "('mp, 'id) Collection" where
  "NewEmptyOrderedCollection = \<lparr>itemsMap = fmempty, coll_order = Some []\<rparr>"

definition NewEmptyUnorderedCollection :: "('mp, 'id) Collection" where
  "NewEmptyUnorderedCollection = \<lparr>itemsMap = fmempty, coll_order = None\<rparr>"

definition put_items :: "('mp \<Rightarrow> 'id) \<Rightarrow> 'mp list \<Rightarrow> ('id, 'mp) fmap" where
  "put_items GetID items = fold (\<lambda>item m. fmupd (GetID item) item m) items fmempty"

definition NewUnorderedCollection :: "('mp \<Rightarrow> 'id) \<Rightarrow> 'mp list \<Rightarrow> ('mp, 'id) Collection" where
  "NewUnorderedCollection GetID items = \<lparr>itemsMap = put_items GetID items, coll_order = None\<rparr>"

definition NewOrderedCollection :: "('mp \<Rightarrow> 'id) \<Rightarrow> 'mp list \<Rightarrow> ('mp, 'id) Collection" where
  "NewOrderedCollection GetID items =
     \<lparr>itemsMap = put_items GetID items, coll_order = Some (map GetID items)\<rparr>"

definition Len :: "('mp, 'id) Collection \<Rightarrow> nat" where
  "Len c = fcard (fmdom (itemsMap c))"

definition IsOrdered :: "('mp, 'id) Collection \<Rightarrow> bool" where
  "IsOrdered c \<longleftrightarrow> coll_order c \<noteq> None"

definition RemoveOrder :: "('mp, 'id) Collection \<Rightarrow> ('mp, 'id) Collection" where
  "RemoveOrder c = c\<lparr>coll_order := None\<rparr>"

definition Sort :: "'mp \<Rightarrow> ('mp \<Rightarrow> 'mp \<Rightarrow> bool) \<Rightarrow> 'id list \<Rightarrow> ('mp, 'id) Collection \<Rightarrow> ('mp, 'id) Collection" where
  "Sort zero lt walk c =
     (let ids = (case coll_order c of None \<Rightarrow> walk | Some ids \<Rightarrow> ids)
      in c\<lparr>coll_order := Some (SliceStable
             (\<lambda>a b. lt (map_get zero (itemsMap c) a) (map_get zero (itemsMap c) b)) ids)\<rparr>)"

definition Has :: "'id \<Rightarrow> ('mp, 'id) Collection \<Rightarrow> bool" where
  "Has i c \<longleftrightarrow> fmlookup (itemsMap c) i \<noteq> None"

definition Find :: "'id \<Rightarrow> ('mp, 'id) Collection \<Rightarrow> 'mp option" where
  "Find i c = fmlookup (itemsMap c) i"

definition Add :: "('mp \<Rightarrow> 'id) \<Rightarrow> 'mp \<Rightarrow> ('mp, 'id) Collection \<Rightarrow> ('mp, 'id) Collection" where
  "Add GetID item c =
     (let i = GetID item; exists = (fmlookup (itemsMap c) i \<noteq> None);
          c = c\<lparr>itemsMap := fmupd i item (itemsMap c)\<rparr>
      in case coll_order c of
           Some ids \<Rightarrow> if \<not> exists then c\<lparr>coll_order := Some (ids @ [i])\<rparr> else c
         | None \<Rightarrow> c)"

definition AddIfNew :: "('mp \<Rightarrow> 'id) \<Rightarrow> 'mp \<Rightarrow> ('mp, 'id) Collection \<Rightarrow> ('mp, 'id) Collection" where
  "AddIfNew GetID item c =
     (let i = GetID item
      in if fmlookup (itemsMap c) i \<noteq> None then c
         else (let c = c\<lparr>itemsMap := fmupd i item (itemsMap c)\<rparr>
               in case coll_order c of
                    Some ids \<Rightarrow> c\<lparr>coll_order := Some (ids @ [i])\<rparr>
                  | None \<Rightarrow> c))"

definition IDs :: "'id list \<Rightarrow> ('mp, 'id) Collection \<Rightarrow> 'id list" where
  "IDs walk c = (case coll_order c of Some ids \<Rightarrow> ids | None \<Rightarrow> walk)"

definition IDsAsAny :: "('id \<Rightarrow> 'any) \<Rightarrow> 'id list \<Rightarrow> ('mp, 'id) Collection \<Rightarrow> 'any list" where
  "IDsAsAny any walk c = (case coll_order c of Some ids \<Rightarrow> map any ids | None \<Rightarrow> map any walk)"

definition Items :: "'mp \<Rightarrow> 'id list \<Rightarrow> ('mp, 'id) Collection \<Rightarrow> 'mp list" where
  "Items zero walk c =
     (case coll_order c of
        Some ids \<Rightarrow> map (map_get zero (itemsMap c)) ids
      | None \<Rightarrow> found (itemsMap c) walk)"

definition ForEach :: "('mp \<Rightarrow> 's \<Rightarrow> 's) \<Rightarrow> 'id list \<Rightarrow> ('mp, 'id) Collection \<Rightarrow> 's \<Rightarrow> 's" where
  "ForEach fn walk c s =
     (case coll_order c of
        Some ids \<Rightarrow> visit fn (itemsMap c) ids s
      | None \<Rightarrow> visit fn (itemsMap c) walk s)"

definition ForEachUnorderly :: "('mp \<Rightarrow> 's \<Rightarrow> 's) \<Rightarrow> 'id list \<Rightarrow> ('mp, 'id) Collection \<Rightarrow> 's \<Rightarrow> 's" where
  "ForEachUnorderly fn walk c s = visit fn (itemsMap c) walk s"

datatype coll_error = CollectionIsUnordered

definition ForEachOrderly :: "('mp \<Rightarrow> 's \<Rightarrow> 's) \<Rightarrow> ('mp, 'id) Collection \<Rightarrow> 's \<Rightarrow> (coll_error, 's) result" where
  "ForEachOrderly fn c s =
     (case coll_order c of
        None \<Rightarrow> Inl CollectionIsUnordered
      | Some ids \<Rightarrow> if ids = [] then Inl CollectionIsUnordered else Inr (visit fn (itemsMap c) ids s))"

text \<open>\<open>Iter\<close>: the consumer answers whether it wants more.\<close>

fun iter_ids :: "('mp \<Rightarrow> 's \<Rightarrow> bool \<times> 's) \<Rightarrow> ('id, 'mp) fmap \<Rightarrow> 'id list \<Rightarrow> 's \<Rightarrow> 's" where
  "iter_ids yield m [] s = s"
| "iter_ids yield m (i # ids) s =
     (case fmlookup m i of
        None \<Rightarrow> iter_ids yield m ids s
      | Some mp \<Rightarrow> (case yield mp s of (go, s') \<Rightarrow> if \<not> go then s' else iter_ids yield m ids s'))"

definition Iter :: "('mp \<Rightarrow> 's \<Rightarrow> bool \<times> 's) \<Rightarrow> 'id list \<Rightarrow> ('mp, 'id) Collection \<Rightarrow> 's \<Rightarrow> 's" where
  "Iter yield walk c s =
     (case coll_order c of
        Some ids \<Rightarrow> iter_ids yield (itemsMap c) ids s
      | None \<Rightarrow> iter_ids yield (itemsMap c) walk s)"

definition filter_ordered ::
  "'mp \<Rightarrow> ('mp \<Rightarrow> bool) \<Rightarrow> ('mp, 'id) Collection \<Rightarrow> 'id list \<Rightarrow> ('mp, 'id) Collection" where
  "filter_ordered zero fn c ids =
     fold (\<lambda>i f. let item = map_get zero (itemsMap c) i
                  in if fn item then f\<lparr>itemsMap := fmupd i item (itemsMap f),
                                        coll_order := map_option (\<lambda>o'. o' @ [i]) (coll_order f)\<rparr> else f)
       ids \<lparr>itemsMap = fmempty, coll_order = Some []\<rparr>"

definition Filter :: "'mp \<Rightarrow> ('mp \<Rightarrow> bool) \<Rightarrow> 'id list \<Rightarrow> ('mp, 'id) Collection \<Rightarrow> ('mp, 'id) Collection" where
  "Filter zero fn walk c =
     (case coll_order c of
        Some (i # ids) \<Rightarrow> filter_ordered zero fn c (i # ids)
      | _ \<Rightarrow> fold (\<lambda>i f. case fmlookup (itemsMap c) i of
                            Some item \<Rightarrow> if fn item then f\<lparr>itemsMap := fmupd i item (itemsMap f)\<rparr> else f
                          | None \<Rightarrow> f)
               walk \<lparr>itemsMap = fmempty, coll_order = None\<rparr>)"

definition First :: "'mp \<Rightarrow> 'id list \<Rightarrow> ('mp, 'id) Collection \<Rightarrow> 'mp option" where
  "First zero walk c =
     (case coll_order c of
        Some (i # ids) \<Rightarrow> Some (map_get zero (itemsMap c) i)
      | _ \<Rightarrow> (case found (itemsMap c) walk of mp # _ \<Rightarrow> Some mp | [] \<Rightarrow> None))"

definition FirstBy :: "('mp \<Rightarrow> bool) \<Rightarrow> 'id list \<Rightarrow> ('mp, 'id) Collection \<Rightarrow> 'mp option" where
  "FirstBy fn walk c =
     (case coll_order c of
        Some ids \<Rightarrow> List.find fn (found (itemsMap c) ids)
      | None \<Rightarrow> List.find fn (found (itemsMap c) walk))"

section \<open>\<open>enumerate.go\<close>, \<open>flatten.go\<close>\<close>

text \<open>The slice of fixed length: writing past it panics (\<open>None\<close>).\<close>

definition put_next :: "nat \<Rightarrow> 'v \<Rightarrow> 'v list option \<Rightarrow> 'v list option" where
  "put_next sz v sl = (case sl of None \<Rightarrow> None
     | Some xs \<Rightarrow> if length xs < sz then Some (xs @ [v]) else None)"

definition EnumerateToSlice :: "('mp \<Rightarrow> 'v) \<Rightarrow> 'id list \<Rightarrow> ('mp, 'id) Collection \<Rightarrow> 'v list option" where
  "EnumerateToSlice yield walk c =
     (let sz = Len c
      in case coll_order c of
           Some ids \<Rightarrow> visit (\<lambda>mp. put_next sz (yield mp)) (itemsMap c) ids (Some [])
         | None \<Rightarrow> visit (\<lambda>mp. put_next sz (yield mp)) (itemsMap c) walk (Some []))"

definition EnumerateToMap :: "('mp \<Rightarrow> 'k \<times> 'v) \<Rightarrow> 'id list \<Rightarrow> ('mp, 'id) Collection \<Rightarrow> ('k, 'v) fmap" where
  "EnumerateToMap yield walk c =
     ForEachUnorderly (\<lambda>mp m. case yield mp of (k, v) \<Rightarrow> fmupd k v m) walk c fmempty"

definition CollectToSlice :: "('mp \<Rightarrow> 'v option) \<Rightarrow> 'id list \<Rightarrow> ('mp, 'id) Collection \<Rightarrow> 'v list" where
  "CollectToSlice yield walk c =
     ForEach (\<lambda>mp sl. case yield mp of Some v \<Rightarrow> sl @ [v] | None \<Rightarrow> sl) walk c []"

definition CollectToMap ::
  "('mp \<Rightarrow> 'k option \<times> 'v option) \<Rightarrow> 'id list \<Rightarrow> ('mp, 'id) Collection \<Rightarrow> ('k, 'v) fmap" where
  "CollectToMap yield walk c =
     ForEachUnorderly (\<lambda>mp m. case yield mp of (Some k, Some v) \<Rightarrow> fmupd k v m | _ \<Rightarrow> m) walk c fmempty"

definition note_new :: "'v \<Rightarrow> 'v list \<times> 'v fset \<Rightarrow> 'v list \<times> 'v fset" where
  "note_new v st = (case st of (sl, seen) \<Rightarrow>
     if v |\<notin>| seen then (sl @ [v], finsert v seen) else (sl, seen))"

definition CollectUniqueToSlice :: "('mp \<Rightarrow> 'v) \<Rightarrow> 'id list \<Rightarrow> ('mp, 'id) Collection \<Rightarrow> 'v list" where
  "CollectUniqueToSlice yield walk c =
     fst (case coll_order c of
            Some (i # ids) \<Rightarrow> visit (\<lambda>mp. note_new (yield mp)) (itemsMap c) (i # ids) ([], {||})
          | _ \<Rightarrow> visit (\<lambda>mp. note_new (yield mp)) (itemsMap c) walk ([], {||}))"

definition note_unless :: "('v \<Rightarrow> bool) option \<Rightarrow> 'v \<Rightarrow> 'v list \<times> 'v fset \<Rightarrow> 'v list \<times> 'v fset" where
  "note_unless skip v st =
     (if (case skip of None \<Rightarrow> False | Some sk \<Rightarrow> sk v) then st
      else (case st of (sl, seen) \<Rightarrow>
              if v |\<in>| seen then (sl, seen) else (sl @ [v], finsert v seen)))"

definition CollectUniqueToSliceWithSkip ::
  "('mp \<Rightarrow> 'v) \<Rightarrow> ('v \<Rightarrow> bool) option \<Rightarrow> 'id list \<Rightarrow> ('mp, 'id) Collection \<Rightarrow> 'v list" where
  "CollectUniqueToSliceWithSkip yield skip walk c =
     fst (case coll_order c of
            Some (i # ids) \<Rightarrow> visit (\<lambda>mp. note_unless skip (yield mp)) (itemsMap c) (i # ids) ([], {||})
          | _ \<Rightarrow> visit (\<lambda>mp. note_unless skip (yield mp)) (itemsMap c) walk ([], {||}))"

definition build_step ::
  "('np \<Rightarrow> 'nid) \<Rightarrow> ('sp \<Rightarrow> 'np) \<Rightarrow> ('np \<Rightarrow> bool) option \<Rightarrow> 'sp \<Rightarrow> ('np, 'nid) Collection \<Rightarrow> ('np, 'nid) Collection" where
  "build_step GetID yield skip sp newColl =
     (let np = yield sp
      in case skip of
           Some sk \<Rightarrow> if \<not> sk np then AddIfNew GetID np newColl else newColl
         | None \<Rightarrow> AddIfNew GetID np newColl)"

definition BuildUnorderedCollectionFrom ::
  "('np \<Rightarrow> 'nid) \<Rightarrow> ('sp \<Rightarrow> 'np) \<Rightarrow> ('np \<Rightarrow> bool) option \<Rightarrow> 'sid list \<Rightarrow> ('sp, 'sid) Collection option
     \<Rightarrow> ('np, 'nid) Collection option" where
  "BuildUnorderedCollectionFrom GetID yield skip walk src =
     map_option (\<lambda>c. visit (build_step GetID yield skip) (itemsMap c) walk NewEmptyUnorderedCollection) src"

definition BuildOrderedCollectionFrom ::
  "('np \<Rightarrow> 'nid) \<Rightarrow> ('sp \<Rightarrow> 'np) \<Rightarrow> ('np \<Rightarrow> bool) option \<Rightarrow> ('sp, 'sid) Collection option
     \<Rightarrow> ('np, 'nid) Collection option" where
  "BuildOrderedCollectionFrom GetID yield skip src =
     map_option (\<lambda>c. visit (build_step GetID yield skip) (itemsMap c)
       (case coll_order c of Some ids \<Rightarrow> ids | None \<Rightarrow> []) NewEmptyOrderedCollection) src"

definition Flatten ::
  "('tp \<Rightarrow> 'tid) \<Rightarrow> ('sp \<Rightarrow> ('tp, 'tid) Collection option) \<Rightarrow> ('sp \<Rightarrow> 'tid list) \<Rightarrow> 'sid list
     \<Rightarrow> ('sp, 'sid) Collection \<Rightarrow> ('tp, 'tid) Collection" where
  "Flatten GetID extract subwalk walk src =
     ForEach (\<lambda>s result. case extract s of
         Some sub \<Rightarrow> ForEach (AddIfNew GetID) (subwalk s) sub result
       | None \<Rightarrow> result) walk src NewEmptyOrderedCollection"

section \<open>\<open>relations.go\<close>\<close>

definition LinkOptionalBelongsTo ::
  "('pp, 'pid) Collection \<Rightarrow> ('cp \<Rightarrow> 'pid option) \<Rightarrow> ('cp \<Rightarrow> 'addr) \<Rightarrow> 'cid list \<Rightarrow> ('cp, 'cid) Collection
     \<Rightarrow> ('addr \<Rightarrow> 'pp option) \<Rightarrow> ('addr \<Rightarrow> 'pp option)" where
  "LinkOptionalBelongsTo parents fkPtr rel walk children heap =
     visit (\<lambda>child h. case fkPtr child of
         None \<Rightarrow> h
       | Some fk \<Rightarrow> (case fmlookup (itemsMap parents) fk of
           Some parent \<Rightarrow> h(rel child := Some parent)
         | None \<Rightarrow> h)) (itemsMap children) walk heap"

datatype ('pid, 'cid) link_error = ParentNotFound 'pid 'cid

fun link_walk ::
  "('cp \<Rightarrow> 'cid) \<Rightarrow> ('pid, 'pp) fmap \<Rightarrow> ('cp \<Rightarrow> 'pid) \<Rightarrow> ('cp \<Rightarrow> 'addr) \<Rightarrow> 'cp list
     \<Rightarrow> ('addr \<Rightarrow> 'pp option) \<Rightarrow> ('pid, 'cid) link_error option \<times> ('addr \<Rightarrow> 'pp option)" where
  "link_walk GetID pm fk rel [] h = (None, h)"
| "link_walk GetID pm fk rel (child # cs) h =
     (case fmlookup pm (fk child) of
        None \<Rightarrow> (Some (ParentNotFound (fk child) (GetID child)), h)
      | Some parent \<Rightarrow> link_walk GetID pm fk rel cs (h(rel child := Some parent)))"

definition LinkBelongsTo ::
  "('cp \<Rightarrow> 'cid) \<Rightarrow> ('pp, 'pid) Collection \<Rightarrow> ('cp \<Rightarrow> 'pid) \<Rightarrow> ('cp \<Rightarrow> 'addr) \<Rightarrow> 'cid list
     \<Rightarrow> ('cp, 'cid) Collection \<Rightarrow> ('addr \<Rightarrow> 'pp option)
     \<Rightarrow> ('pid, 'cid) link_error option \<times> ('addr \<Rightarrow> 'pp option)" where
  "LinkBelongsTo GetID parents fk rel walk children heap =
     link_walk GetID (itemsMap parents) fk rel (found (itemsMap children) walk) heap"

definition into_group ::
  "('cp \<Rightarrow> 'cid) \<Rightarrow> ('cp \<Rightarrow> 'pid) \<Rightarrow> 'cp \<Rightarrow> ('pid, ('cp, 'cid) Collection) fmap
     \<Rightarrow> ('pid, ('cp, 'cid) Collection) fmap" where
  "into_group GetID fk child grp =
     (let pid = fk child;
          childColl = (case fmlookup grp pid of Some cc \<Rightarrow> cc | None \<Rightarrow> NewEmptyOrderedCollection)
      in fmupd pid (Add GetID child childColl) grp)"

definition LinkHasMany ::
  "('cp \<Rightarrow> 'cid) \<Rightarrow> 'cp \<Rightarrow> ('cp, 'cid) Collection \<Rightarrow> ('cp \<Rightarrow> 'pid) \<Rightarrow> ('pp \<Rightarrow> 'addr) \<Rightarrow> 'cid list \<Rightarrow> 'pid list
     \<Rightarrow> ('pp, 'pid) Collection \<Rightarrow> ('addr \<Rightarrow> ('cp, 'cid) Collection option)
     \<Rightarrow> ('addr \<Rightarrow> ('cp, 'cid) Collection option)" where
  "LinkHasMany GetID zero children fk rel cwalk pwalk parents heap =
     (let grp = (case coll_order children of
            Some (i # ids) \<Rightarrow> fold (\<lambda>cid. into_group GetID fk (map_get zero (itemsMap children) cid)) (i # ids) fmempty
          | _ \<Rightarrow> visit (into_group GetID fk) (itemsMap children) cwalk fmempty)
      in fold (\<lambda>pid h. case fmlookup (itemsMap parents) pid of
            None \<Rightarrow> h
          | Some parent \<Rightarrow> (case fmlookup grp pid of
                Some childColl \<Rightarrow> h(rel parent := Some childColl)
              | None \<Rightarrow> h(rel parent := Some NewEmptyOrderedCollection))) pwalk heap)"

section \<open>\<open>gw/collgrp\<close>\<close>

record ('mp, 'id, 'k) CollectionGroup =
  collectionsMap :: "('k, ('mp, 'id) Collection) fmap"
  grp_order :: "'k list option"

definition NewEmptyCollectionGroup :: "('mp, 'id, 'k) CollectionGroup" where
  "NewEmptyCollectionGroup = \<lparr>collectionsMap = fmempty, grp_order = None\<rparr>"

definition FindCollection :: "'k \<Rightarrow> ('mp, 'id, 'k) CollectionGroup \<Rightarrow> ('mp, 'id) Collection option" where
  "FindCollection k g = fmlookup (collectionsMap g) k"

definition SetCollection ::
  "'k \<Rightarrow> ('mp, 'id) Collection \<Rightarrow> ('mp, 'id, 'k) CollectionGroup \<Rightarrow> ('mp, 'id, 'k) CollectionGroup" where
  "SetCollection k c g = g\<lparr>collectionsMap := fmupd k c (collectionsMap g)\<rparr>"

definition grp_Sort ::
  "('k \<Rightarrow> 'k \<Rightarrow> bool) \<Rightarrow> 'k list \<Rightarrow> ('mp, 'id, 'k) CollectionGroup \<Rightarrow> ('mp, 'id, 'k) CollectionGroup" where
  "grp_Sort lt walk g =
     (let keys = (case grp_order g of None \<Rightarrow> walk | Some ks \<Rightarrow> ks)
      in g\<lparr>grp_order := Some (SliceStable lt keys)\<rparr>)"

text \<open>An absent key reads as the nil collection.\<close>

definition Collections :: "'k list \<Rightarrow> ('mp, 'id, 'k) CollectionGroup \<Rightarrow> ('mp, 'id) Collection option list" where
  "Collections walk g =
     (case grp_order g of
        Some ks \<Rightarrow> map (fmlookup (collectionsMap g)) ks
      | None \<Rightarrow> map (fmlookup (collectionsMap g)) walk)"

definition CollectionsMap :: "('mp, 'id, 'k) CollectionGroup \<Rightarrow> ('k, ('mp, 'id) Collection) fmap" where
  "CollectionsMap g = collectionsMap g"

definition Keys :: "'k list \<Rightarrow> ('mp, 'id, 'k) CollectionGroup \<Rightarrow> 'k list" where
  "Keys walk g = (case grp_order g of Some ks \<Rightarrow> ks | None \<Rightarrow> walk)"

definition KeysAsAny :: "('k \<Rightarrow> 'any) \<Rightarrow> 'k list \<Rightarrow> ('mp, 'id, 'k) CollectionGroup \<Rightarrow> 'any list" where
  "KeysAsAny any walk g = (case grp_order g of Some ks \<Rightarrow> map any ks | None \<Rightarrow> map any walk)"

definition getOrCreateSubCollection ::
  "bool \<Rightarrow> 'k \<Rightarrow> ('mp, 'id, 'k) CollectionGroup \<Rightarrow> ('mp, 'id) Collection \<times> ('mp, 'id, 'k) CollectionGroup" where
  "getOrCreateSubCollection ordered k g =
     (case FindCollection k g of
        Some c \<Rightarrow> (c, g)
      | None \<Rightarrow>
          if ordered
          then (let c = NewEmptyOrderedCollection; g = SetCollection k c g
                in (c, g\<lparr>grp_order := Some ((case grp_order g of None \<Rightarrow> [] | Some ks \<Rightarrow> ks) @ [k])\<rparr>))
          else (let c = NewEmptyUnorderedCollection in (c, SetCollection k c g)))"

text \<open>The sub-collection is a pointer: adding to it updates what the group holds under the key.\<close>

definition group_step ::
  "('mp \<Rightarrow> 'id) \<Rightarrow> bool \<Rightarrow> ('mp \<Rightarrow> 'k) \<Rightarrow> 'mp \<Rightarrow> ('mp, 'id, 'k) CollectionGroup \<Rightarrow> ('mp, 'id, 'k) CollectionGroup" where
  "group_step GetID ordered keyFn mp g =
     (let k = keyFn mp
      in case getOrCreateSubCollection ordered k g of (c, g) \<Rightarrow> SetCollection k (AddIfNew GetID mp c) g)"

definition GroupBy ::
  "('mp \<Rightarrow> 'id) \<Rightarrow> ('mp \<Rightarrow> 'k) \<Rightarrow> 'id list \<Rightarrow> ('mp, 'id) Collection option \<Rightarrow> ('mp, 'id, 'k) CollectionGroup option" where
  "GroupBy GetID keyFn walk srcColl =
     map_option (\<lambda>c. ForEach (group_step GetID (IsOrdered c) keyFn) walk c NewEmptyCollectionGroup) srcColl"

end
