(* ===== verification/Coll_Correct.thy ===== *)
theory Coll_Correct
  imports Coll
begin

text \<open>
  Correctness of the collections: the well-formedness every operation keeps, the ordered
  collection as a list with distinct ids, the stable sort, grouping and the relations.
  The locale \<open>fresh_appender\<close> is what a loop that fills a collection relies on; \<open>Add\<close> and
  \<open>AddIfNew\<close> both provide it, \<open>AddIfNew\<close> also \<open>first_keeper\<close>.
\<close>

section \<open>Loops over maps\<close>

lemma found_simps [simp]:
  "found m [] = []"
  "found m (i # ids) = (case fmlookup m i of None \<Rightarrow> found m ids | Some v \<Rightarrow> v # found m ids)"
  by (simp_all add: found_def List.map_filter_simps split: option.splits)

lemma found_append [simp]: "found m (xs @ ys) = found m xs @ found m ys"
  by (induction xs) (simp_all split: option.splits)

lemma visit_fold: "visit fn m ids s = fold fn (found m ids) s"
  by (induction ids arbitrary: s) (simp_all add: visit_def split: option.splits)

lemma found_cong: "(\<And>i. i \<in> set ids \<Longrightarrow> fmlookup m i = fmlookup m' i) \<Longrightarrow> found m ids = found m' ids"
  by (induction ids) (simp_all split: option.splits)

lemma found_upd_other [simp]: "i \<notin> set ids \<Longrightarrow> found (fmupd i x m) ids = found m ids"
  by (rule found_cong) auto

lemma set_found: "set (found m ids) = {v. \<exists>i\<in>set ids. fmlookup m i = Some v}"
  by (induction ids) (auto split: option.splits)

lemma found_map: "set ids \<subseteq> fset (fmdom m) \<Longrightarrow> map (map_get z m) ids = found m ids"
  by (induction ids) (auto simp: map_get_def split: option.splits dest: fmdom_notD)

definition keyed :: "('mp \<Rightarrow> 'id) \<Rightarrow> ('id, 'mp) fmap \<Rightarrow> bool" where
  "keyed GetID m \<longleftrightarrow> fmpred (\<lambda>i mp. GetID mp = i) m"

lemma keyed_lookup: "keyed GetID m \<Longrightarrow> fmlookup m i = Some x \<Longrightarrow> GetID x = i"
  by (auto simp: keyed_def fmpred_iff)

lemma keyed_empty [simp]: "keyed GetID fmempty"
  by (simp add: keyed_def)

lemma keyed_upd [simp]: "keyed GetID m \<Longrightarrow> GetID x = i \<Longrightarrow> keyed GetID (fmupd i x m)"
  by (auto simp: keyed_def fmpred_iff split: if_splits)

lemma map_id_found: "keyed GetID m \<Longrightarrow> set ids \<subseteq> fset (fmdom m) \<Longrightarrow> map GetID (found m ids) = ids"
  by (induction ids) (auto split: option.splits dest: keyed_lookup simp: fmlookup_dom_iff)

lemma ids_found: "keyed GetID m \<Longrightarrow> GetID ` set (found m ids) = set ids \<inter> fset (fmdom m)"
  by (force simp: set_found fmlookup_dom_iff image_iff dest: keyed_lookup)

section \<open>Well-formed collections\<close>

definition coll_wf :: "('mp \<Rightarrow> 'id) \<Rightarrow> ('mp, 'id) Collection \<Rightarrow> bool" where
  "coll_wf GetID c \<longleftrightarrow> keyed GetID (itemsMap c)
     \<and> (case coll_order c of None \<Rightarrow> True | Some ids \<Rightarrow> ranges ids (itemsMap c))"

lemma ranges_empty [simp]: "ranges ids fmempty \<longleftrightarrow> ids = []"
  by (auto simp: ranges_def)

lemma ranges_iff: "ranges ids m \<longleftrightarrow> distinct ids \<and> (\<forall>i. i \<in> set ids \<longleftrightarrow> (\<exists>x. fmlookup m i = Some x))"
  by (simp add: ranges_def set_eq_iff fmlookup_dom_iff)

lemma ranges_snoc [simp]: "ranges ids m \<Longrightarrow> fmlookup m i = None \<Longrightarrow> ranges (ids @ [i]) (fmupd i x m)"
  by (auto simp: ranges_iff)

lemma ranges_known [simp]: "ranges ids m \<Longrightarrow> fmlookup m i = Some y \<Longrightarrow> ranges ids (fmupd i x m)"
  by (auto simp: ranges_iff)

lemma length_ranges: "ranges ids m \<Longrightarrow> length ids = fcard (fmdom m)"
  using distinct_card [of ids] by (simp add: ranges_def fcard.rep_eq)

lemma wf_NewEmpty [gwf_inv]:
  "coll_wf GetID NewEmptyOrderedCollection" "coll_wf GetID NewEmptyUnorderedCollection"
  by (simp_all add: coll_wf_def NewEmptyOrderedCollection_def NewEmptyUnorderedCollection_def)

lemma put_items_snoc: "put_items GetID (items @ [x]) = fmupd (GetID x) x (put_items GetID items)"
  by (simp add: put_items_def)

lemma put_items_keyed [simp]: "keyed GetID (put_items GetID items)"
  by (induction items rule: rev_induct) (simp_all add: put_items_snoc, simp add: put_items_def)

lemma put_items_dom [simp]: "fset (fmdom (put_items GetID items)) = GetID ` set items"
  by (induction items rule: rev_induct) (simp_all add: put_items_snoc, simp add: put_items_def)

lemma wf_New [gwf_inv]:
  "coll_wf GetID (NewUnorderedCollection GetID items)"
  "distinct (map GetID items) \<Longrightarrow> coll_wf GetID (NewOrderedCollection GetID items)"
  by (simp_all add: coll_wf_def NewUnorderedCollection_def NewOrderedCollection_def ranges_def)

lemma wf_Add [gwf_inv]: "coll_wf GetID c \<Longrightarrow> coll_wf GetID (Add GetID x c)"
  by (auto simp: coll_wf_def Add_def Let_def split: option.splits)

lemma wf_AddIfNew [gwf_inv]: "coll_wf GetID c \<Longrightarrow> coll_wf GetID (AddIfNew GetID x c)"
  by (auto simp: coll_wf_def AddIfNew_def Let_def split: option.splits)

lemma wf_RemoveOrder [gwf_inv]: "coll_wf GetID c \<Longrightarrow> coll_wf GetID (RemoveOrder c)"
  by (simp add: coll_wf_def RemoveOrder_def)

lemma mset_slide [simp]: "mset (slide lt x xs) = add_mset x (mset xs)"
  by (induction xs) auto

lemma mset_fold_slide [simp]: "mset (fold (slide lt) xs ys) = mset xs + mset ys"
  by (induction xs arbitrary: ys) auto

lemma mset_SliceStable [simp]: "mset (SliceStable lt xs) = mset xs"
  by (simp add: SliceStable_def)

lemma set_SliceStable [simp]: "set (SliceStable lt xs) = set xs"
  using mset_SliceStable by (rule mset_eq_setD)

lemma distinct_SliceStable [simp]: "distinct (SliceStable lt xs) = distinct xs"
  using mset_SliceStable by (rule mset_eq_imp_distinct_iff)

lemma ranges_SliceStable [simp]: "ranges (SliceStable lt ids) m = ranges ids m"
  by (simp add: ranges_def)

lemma wf_Sort [gwf_inv]:
  "coll_wf GetID c \<Longrightarrow> ranges walk (itemsMap c) \<Longrightarrow> coll_wf GetID (Sort zero lt walk c)"
  by (auto simp: coll_wf_def Sort_def Let_def split: option.splits)

section \<open>Filtering\<close>

definition keeps :: "('k, 'v) fmap \<Rightarrow> ('v \<Rightarrow> bool) \<Rightarrow> 'k \<Rightarrow> bool" where
  "keeps m fn i \<longleftrightarrow> (case fmlookup m i of Some x \<Rightarrow> fn x | None \<Rightarrow> False)"

lemma keeps_simps [simp]:
  "fmlookup m i = Some x \<Longrightarrow> keeps m fn i = fn x" "fmlookup m i = None \<Longrightarrow> \<not> keeps m fn i"
  by (simp_all add: keeps_def)

lemma keeps_iff: "keeps m fn i \<longleftrightarrow> (\<exists>x. fmlookup m i = Some x \<and> fn x)"
  by (auto simp: keeps_def split: option.splits)

definition fm_filter :: "('k, 'v) fmap \<Rightarrow> ('v \<Rightarrow> bool) \<Rightarrow> 'k list \<Rightarrow> ('k, 'v) fmap" where
  "fm_filter m fn ids = fmfilter (\<lambda>i. i \<in> set ids \<and> keeps m fn i) m"

lemma fm_filter_simps [simp]:
  "fm_filter m fn [] = fmempty"
  "fmlookup m i = None \<Longrightarrow> fm_filter m fn (ids @ [i]) = fm_filter m fn ids"
  "fmlookup m i = Some x \<Longrightarrow> fm_filter m fn (ids @ [i]) =
     (if fn x then fmupd i x (fm_filter m fn ids) else fm_filter m fn ids)"
  by (auto simp: fm_filter_def intro!: fmap_ext)

lemma filter_ordered_eq:
  assumes "set ids \<subseteq> fset (fmdom (itemsMap c))"
  shows "filter_ordered zero fn c ids =
    \<lparr>itemsMap = fm_filter (itemsMap c) fn ids, coll_order = Some (filter (keeps (itemsMap c) fn) ids)\<rparr>"
  using assms
proof (induction ids rule: rev_induct)
  case Nil
  then show ?case by (simp add: filter_ordered_def)
next
  case (snoc i ids)
  then obtain x where x: "fmlookup (itemsMap c) i = Some x" by (auto simp: fmlookup_dom_iff)
  have "filter_ordered zero fn c (ids @ [i]) =
      (let f = filter_ordered zero fn c ids in
       if fn x then f\<lparr>itemsMap := fmupd i x (itemsMap f), coll_order := map_option (\<lambda>o'. o' @ [i]) (coll_order f)\<rparr>
       else f)"
    by (simp add: filter_ordered_def map_get_def x Let_def)
  with snoc x show ?case by (simp add: Let_def)
qed

lemma filter_unordered_eq:
  "fold (\<lambda>i f. case fmlookup m i of
        Some item \<Rightarrow> if fn item then f\<lparr>itemsMap := fmupd i item (itemsMap f)\<rparr> else f | None \<Rightarrow> f)
     walk \<lparr>itemsMap = fmempty, coll_order = None\<rparr> = \<lparr>itemsMap = fm_filter m fn walk, coll_order = None\<rparr>"
  by (induction walk rule: rev_induct) (simp_all split: option.splits)

lemma fm_filter_ranges: "ranges ids m \<Longrightarrow> fm_filter m fn ids = fmfilter (keeps m fn) m"
  by (rule fmap_ext) (auto simp: fm_filter_def ranges_iff keeps_iff)

lemma Filter_eq:
  assumes "coll_wf GetID c" "ranges walk (itemsMap c)"
  shows "Filter zero fn walk c = \<lparr>itemsMap = fmfilter (keeps (itemsMap c) fn) (itemsMap c),
    coll_order = (case coll_order c of Some (i # ids) \<Rightarrow> Some (filter (keeps (itemsMap c) fn) (i # ids)) | _ \<Rightarrow> None)\<rparr>"
proof (cases "\<exists>i ids. coll_order c = Some (i # ids)")
  case True
  then obtain i ids where o: "coll_order c = Some (i # ids)" by blast
  with assms have "ranges (i # ids) (itemsMap c)" by (simp add: coll_wf_def)
  moreover from this have "set (i # ids) \<subseteq> fset (fmdom (itemsMap c))" by (simp add: ranges_def)
  ultimately show ?thesis
    using o filter_ordered_eq [of "i # ids" c zero fn] fm_filter_ranges [of "i # ids" "itemsMap c" fn]
    by (simp add: Filter_def del: list.set)
next
  case False
  then consider "coll_order c = None" | "coll_order c = Some []"
    by (metis neq_Nil_conv not_None_eq)
  then show ?thesis
    by cases (simp_all add: Filter_def filter_unordered_eq fm_filter_ranges [OF assms(2)])
qed

lemma ranges_filter: "ranges ids m \<Longrightarrow> ranges (filter (keeps m fn) ids) (fmfilter (keeps m fn) m)"
  by (auto simp: ranges_iff keeps_iff)

lemma keyed_filter [simp]: "keyed GetID m \<Longrightarrow> keyed GetID (fmfilter P m)"
  by (simp add: keyed_def fmpred_filter)

lemma wf_Filter [gwf_inv]:
  "coll_wf GetID c \<Longrightarrow> ranges walk (itemsMap c) \<Longrightarrow> coll_wf GetID (Filter zero fn walk c)"
  using ranges_filter [of "the (coll_order c)" "itemsMap c" fn]
  by (simp add: Filter_eq, auto simp: coll_wf_def simp del: filter.simps split: option.splits list.splits)

section \<open>Filling a collection\<close>

text \<open>What a loop that fills a collection relies on.\<close>

locale fresh_appender =
  fixes key :: "'x \<Rightarrow> 'k" and items :: "'c \<Rightarrow> 'x list" and add :: "'x \<Rightarrow> 'c \<Rightarrow> 'c" and good :: "'c \<Rightarrow> bool"
  assumes add_good: "good c \<Longrightarrow> good (add x c)"
    and add_fresh: "good c \<Longrightarrow> key x \<notin> key ` set (items c) \<Longrightarrow> items (add x c) = items c @ [x]"
begin

lemma fold_good: "good c \<Longrightarrow> good (fold add xs c)"
  by (induction xs arbitrary: c) (simp_all add: add_good)

lemma fold_fresh:
  "good c \<Longrightarrow> distinct (map key (items c @ xs)) \<Longrightarrow> items (fold add xs c) = items c @ xs"
proof (induction xs arbitrary: c)
  case (Cons x xs)
  then have "items (add x c) = items c @ [x]" by (intro add_fresh) auto
  with Cons show ?case by (simp add: add_good)
qed simp

end

definition keep_first :: "('x \<Rightarrow> 'k) \<Rightarrow> 'x list \<Rightarrow> 'x list \<Rightarrow> 'x list" where
  "keep_first key xs acc = fold (\<lambda>x acc. if key x \<in> key ` set acc then acc else acc @ [x]) xs acc"

lemma keep_first_Nil [simp]: "keep_first key [] acc = acc"
  by (simp add: keep_first_def)

locale first_keeper = fresh_appender +
  assumes add_known: "good c \<Longrightarrow> key x \<in> key ` set (items c) \<Longrightarrow> items (add x c) = items c"
begin

lemma fold_keep_first: "good c \<Longrightarrow> items (fold add xs c) = keep_first key xs (items c)"
  by (induction xs arbitrary: c) (simp_all add: keep_first_def add_good add_fresh add_known)

end

definition ordered_wf :: "('mp \<Rightarrow> 'id) \<Rightarrow> ('mp, 'id) Collection \<Rightarrow> bool" where
  "ordered_wf GetID c \<longleftrightarrow> coll_wf GetID c \<and> IsOrdered c"

definition ordered_items :: "('mp, 'id) Collection \<Rightarrow> 'mp list" where
  "ordered_items c = (case coll_order c of Some ids \<Rightarrow> found (itemsMap c) ids | None \<Rightarrow> [])"

lemma ordered_wfE:
  assumes "ordered_wf GetID c"
  obtains ids where "coll_order c = Some ids" "ranges ids (itemsMap c)" "keyed GetID (itemsMap c)"
    "ordered_items c = found (itemsMap c) ids" "map GetID (ordered_items c) = ids"
  using assms map_id_found [of GetID "itemsMap c"]
  by (fastforce simp: ordered_wf_def coll_wf_def IsOrdered_def ordered_items_def ranges_def)

lemma ordered_keys: "ordered_wf GetID c \<Longrightarrow> GetID ` set (ordered_items c) = fset (fmdom (itemsMap c))"
  by (erule ordered_wfE) (metis ranges_def set_map)

lemma ordered_lookup:
  "ordered_wf GetID c \<Longrightarrow> GetID x \<in> GetID ` set (ordered_items c) \<longleftrightarrow> fmlookup (itemsMap c) (GetID x) \<noteq> None"
  by (simp add: ordered_keys fmlookup_dom_iff)

lemma ordered_distinct: "ordered_wf GetID c \<Longrightarrow> distinct (map GetID (ordered_items c))"
  by (erule ordered_wfE) (simp add: ranges_def)

lemma NewEmptyOrdered_items [simp]: "ordered_items NewEmptyOrderedCollection = []"
  by (simp add: ordered_items_def NewEmptyOrderedCollection_def)

lemma NewEmptyOrdered_wf [simp]: "ordered_wf GetID NewEmptyOrderedCollection"
  using wf_NewEmpty [of GetID] by (simp add: ordered_wf_def IsOrdered_def NewEmptyOrderedCollection_def)

lemma found_none: "fmlookup m i = None \<Longrightarrow> ranges ids m \<Longrightarrow> i \<notin> set ids"
  by (auto simp: ranges_iff)

interpretation add: fresh_appender GetID ordered_items "Add GetID" "ordered_wf GetID" for GetID :: "'mp \<Rightarrow> 'id"
proof
  fix c :: "('mp, 'id) Collection" and x
  assume wf: "ordered_wf GetID c"
  then show "ordered_wf GetID (Add GetID x c)"
    by (auto simp: ordered_wf_def IsOrdered_def wf_Add) (auto simp: Add_def Let_def split: option.splits)
  assume "GetID x \<notin> GetID ` set (ordered_items c)"
  with wf have no: "fmlookup (itemsMap c) (GetID x) = None" by (simp add: ordered_lookup)
  from wf show "ordered_items (Add GetID x c) = ordered_items c @ [x]"
    by (rule ordered_wfE) (simp add: Add_def Let_def no ordered_items_def found_none [OF no])
qed

interpretation add_new: first_keeper GetID ordered_items "AddIfNew GetID" "ordered_wf GetID" for GetID :: "'mp \<Rightarrow> 'id"
proof
  fix c :: "('mp, 'id) Collection" and x
  assume wf: "ordered_wf GetID c"
  then show "ordered_wf GetID (AddIfNew GetID x c)"
    by (auto simp: ordered_wf_def IsOrdered_def wf_AddIfNew) (auto simp: AddIfNew_def Let_def split: option.splits)
  show "ordered_items (AddIfNew GetID x c) = ordered_items c" if "GetID x \<in> GetID ` set (ordered_items c)"
    using that wf by (simp add: ordered_lookup AddIfNew_def Let_def)
  assume "GetID x \<notin> GetID ` set (ordered_items c)"
  with wf have no: "fmlookup (itemsMap c) (GetID x) = None" by (simp add: ordered_lookup)
  from wf show "ordered_items (AddIfNew GetID x c) = ordered_items c @ [x]"
    by (rule ordered_wfE) (simp add: AddIfNew_def Let_def no ordered_items_def found_none [OF no])
qed

section \<open>An ordered collection is a list with distinct ids\<close>

lemma Items_ordered: "ordered_wf GetID c \<Longrightarrow> Items zero walk c = ordered_items c"
  by (erule ordered_wfE) (simp add: Items_def found_map ranges_def)

lemma replace_found:
  assumes "keyed GetID m" "ranges ids m"
  shows "found (fmupd (GetID x) x m) ids = map (\<lambda>y. if GetID y = GetID x then x else y) (found m ids)"
proof -
  have "found (fmupd (GetID x) x m) js = map (\<lambda>y. if GetID y = GetID x then x else y) (found m js)"
    if "set js \<subseteq> set ids" for js
    using that by (induction js) (use assms in \<open>auto simp: ranges_iff dest: keyed_lookup split: option.splits\<close>)
  then show ?thesis by blast
qed

lemma Add_known:
  assumes "ordered_wf GetID c" "GetID x \<in> GetID ` set (ordered_items c)"
  shows "ordered_items (Add GetID x c) = map (\<lambda>y. if GetID y = GetID x then x else y) (ordered_items c)"
  using assms(1)
proof (rule ordered_wfE)
  fix ids assume o: "coll_order c = Some ids" "ranges ids (itemsMap c)" "keyed GetID (itemsMap c)"
  moreover from assms have "fmlookup (itemsMap c) (GetID x) \<noteq> None" by (simp add: ordered_lookup)
  ultimately show ?thesis by (simp add: Add_def Let_def ordered_items_def replace_found)
qed

lemma slide_map: "map f (slide (\<lambda>a b. lt (f a) (f b)) x xs) = slide lt (f x) (map f xs)"
  by (induction xs) simp_all

lemma fold_slide_map: "map f (fold (slide (\<lambda>a b. lt (f a) (f b))) xs ys) = fold (slide lt) (map f xs) (map f ys)"
  by (induction xs arbitrary: ys) (simp_all add: slide_map)

lemma SliceStable_map: "map f (SliceStable (\<lambda>a b. lt (f a) (f b)) xs) = SliceStable lt (map f xs)"
  by (simp add: SliceStable_def rev_map [symmetric] fold_slide_map)

lemma Sort_order:
  "coll_wf GetID c \<Longrightarrow> ranges walk (itemsMap c) \<Longrightarrow>
     ordered_items (Sort zero lt walk c) = SliceStable lt (Items zero walk c)"
  by (auto simp: coll_wf_def ordered_items_def Sort_def Let_def Items_def ranges_def found_map [symmetric, where z = zero]
    SliceStable_map split: option.splits)

lemma found_filter:
  "found (fmfilter (keeps m fn) m) (filter (keeps m fn) ids) = filter fn (found m ids)"
  by (induction ids) (auto simp: keeps_iff split: option.splits)

lemma Filter_items:
  assumes "ordered_wf GetID c" "ranges walk (itemsMap c)"
  shows "Items zero [] (Filter zero fn walk c) = filter fn (ordered_items c)"
  using assms(1)
proof (rule ordered_wfE)
  fix ids assume o: "coll_order c = Some ids" "ranges ids (itemsMap c)" "ordered_items c = found (itemsMap c) ids"
  have wf: "coll_wf GetID c" using assms by (simp add: ordered_wf_def)
  show ?thesis
  proof (cases ids)
    case Nil
    then show ?thesis using o wf assms(2) by (simp add: Filter_eq Items_def)
  next
    case (Cons i js)
    let ?f = "Filter zero fn walk c"
    have f: "?f = \<lparr>itemsMap = fmfilter (keeps (itemsMap c) fn) (itemsMap c),
        coll_order = Some (filter (keeps (itemsMap c) fn) ids)\<rparr>"
      using o Cons by (simp add: Filter_eq [OF wf assms(2)])
    have "ordered_wf GetID ?f"
      using wf_Filter [OF wf assms(2), of zero fn] by (simp add: ordered_wf_def IsOrdered_def f)
    then have "Items zero [] ?f = ordered_items ?f" by (rule Items_ordered)
    then show ?thesis by (simp add: f ordered_items_def found_filter o)
  qed
qed

lemma ForEach_ordered: "ordered_wf GetID c \<Longrightarrow> ForEach fn walk c s = fold fn (ordered_items c) s"
  by (erule ordered_wfE) (simp add: ForEach_def visit_fold)

lemma fold_collect:
  "fold (\<lambda>x sl. case f x of Some v \<Rightarrow> sl @ [v] | None \<Rightarrow> sl) xs acc = acc @ List.map_filter f xs"
  by (induction xs arbitrary: acc) (simp_all add: List.map_filter_simps split: option.splits)

lemma CollectToSlice_ordered: "ordered_wf GetID c \<Longrightarrow> CollectToSlice f walk c = List.map_filter f (ordered_items c)"
  by (simp add: CollectToSlice_def ForEach_ordered fold_collect)

text \<open>Each value once, at its first occurrence.\<close>

definition unique_first :: "'v list \<Rightarrow> 'v list" where
  "unique_first vs = keep_first (\<lambda>v. v) vs []"

lemma fold_note_new:
  "fset seen = set sl \<Longrightarrow>
     fst (fold (\<lambda>x. note_new (f x)) xs (sl, seen)) = keep_first (\<lambda>v. v) (map f xs) sl"
  by (induction xs arbitrary: sl seen) (simp_all add: note_new_def keep_first_def)

lemma fold_note_unless:
  "fset seen = set sl \<Longrightarrow>
     fst (fold (\<lambda>x. note_unless skip (f x)) xs (sl, seen))
       = keep_first (\<lambda>v. v) (filter (\<lambda>v. \<not> (case skip of None \<Rightarrow> False | Some sk \<Rightarrow> sk v)) (map f xs)) sl"
  by (induction xs arbitrary: sl seen) (simp_all add: note_unless_def keep_first_def)

lemma keep_first_spec:
  "distinct acc \<Longrightarrow> distinct (keep_first (\<lambda>v. v) vs acc) \<and> set (keep_first (\<lambda>v. v) vs acc) = set acc \<union> set vs"
  by (induction vs arbitrary: acc) (auto simp: keep_first_def)

lemma unique_first_spec: "distinct (unique_first vs)" "set (unique_first vs) = set vs"
  using keep_first_spec [of "[]" vs] by (simp_all add: unique_first_def)

lemma CollectUnique_ordered:
  assumes "ordered_wf GetID c" "ranges walk (itemsMap c)"
  shows "CollectUniqueToSlice f walk c = unique_first (map f (ordered_items c))"
    and "CollectUniqueToSliceWithSkip f skip walk c =
      unique_first (filter (\<lambda>v. \<not> (case skip of None \<Rightarrow> False | Some sk \<Rightarrow> sk v)) (map f (ordered_items c)))"
proof -
  obtain ids where o: "coll_order c = Some ids" "ranges ids (itemsMap c)" "ordered_items c = found (itemsMap c) ids"
    using assms(1) by (rule ordered_wfE)
  have walk: "walk = []" if "ids = []" using that o assms(2) by (auto simp: ranges_iff)
  show "CollectUniqueToSlice f walk c = unique_first (map f (ordered_items c))"
    using o walk by (cases ids) (simp_all add: CollectUniqueToSlice_def visit_fold fold_note_new unique_first_def)
  show "CollectUniqueToSliceWithSkip f skip walk c =
      unique_first (filter (\<lambda>v. \<not> (case skip of None \<Rightarrow> False | Some sk \<Rightarrow> sk v)) (map f (ordered_items c)))"
    using o walk by (cases ids) (simp_all add: CollectUniqueToSliceWithSkip_def visit_fold fold_note_unless unique_first_def)
qed

lemma fold_build:
  "fold (build_step GetID f skip) xs c =
     fold (AddIfNew GetID) (filter (\<lambda>v. \<not> (case skip of None \<Rightarrow> False | Some sk \<Rightarrow> sk v)) (map f xs)) c"
  by (induction xs arbitrary: c) (simp_all add: build_step_def split: option.splits)

definition built_items :: "('np \<Rightarrow> 'nid) \<Rightarrow> ('sp \<Rightarrow> 'np) \<Rightarrow> ('np \<Rightarrow> bool) option \<Rightarrow> 'sp list \<Rightarrow> 'np list" where
  "built_items GetID f skip xs =
     keep_first GetID (filter (\<lambda>v. \<not> (case skip of None \<Rightarrow> False | Some sk \<Rightarrow> sk v)) (map f xs)) []"

lemma BuildOrdered_wf: "BuildOrderedCollectionFrom GetID f skip (Some src) = Some c \<Longrightarrow> ordered_wf GetID c"
  by (auto simp: BuildOrderedCollectionFrom_def visit_fold fold_build intro!: add_new.fold_good)

lemma BuildOrdered_items:
  assumes "ordered_wf GetID' src"
  shows "map_option ordered_items (BuildOrderedCollectionFrom GetID f skip (Some src))
    = Some (built_items GetID f skip (ordered_items src))"
  using assms
  by (rule ordered_wfE)
     (simp add: BuildOrderedCollectionFrom_def visit_fold fold_build built_items_def add_new.fold_keep_first)

lemma fold_flatten:
  assumes "\<forall>s\<in>set xs. \<forall>sub. extract s = Some sub \<longrightarrow> ordered_wf GetID sub"
  shows "fold (\<lambda>s result. case extract s of
         Some sub \<Rightarrow> ForEach (AddIfNew GetID) (subwalk s) sub result | None \<Rightarrow> result) xs c
    = fold (AddIfNew GetID) (concat (map (\<lambda>s. case extract s of Some sub \<Rightarrow> ordered_items sub | None \<Rightarrow> []) xs)) c"
  using assms
proof (induction xs arbitrary: c)
  case (Cons s xs)
  show ?case
  proof (cases "extract s")
    case None
    then show ?thesis using Cons by simp
  next
    case (Some sub)
    with Cons.prems have "ordered_wf GetID sub" by simp
    then show ?thesis using Cons Some by (simp add: ForEach_ordered)
  qed
qed simp

definition flat_items ::
  "('tp \<Rightarrow> 'tid) \<Rightarrow> ('sp \<Rightarrow> ('tp, 'tid) Collection option) \<Rightarrow> 'sp list \<Rightarrow> 'tp list" where
  "flat_items GetID extract xs =
     keep_first GetID (concat (map (\<lambda>s. case extract s of Some sub \<Rightarrow> ordered_items sub | None \<Rightarrow> []) xs)) []"

lemma Flatten_ordered:
  assumes "ordered_wf GetID' src"
    and "\<forall>s\<in>set (ordered_items src). \<forall>sub. extract s = Some sub \<longrightarrow> ordered_wf GetID sub"
  shows "ordered_items (Flatten GetID extract subwalk walk src) = flat_items GetID extract (ordered_items src)"
  using assms by (simp add: Flatten_def ForEach_ordered [OF assms(1)] fold_flatten flat_items_def add_new.fold_keep_first)

lemma ForEach_fold: "ForEach fn walk c s = fold fn (found (itemsMap c) (IDs walk c)) s"
  by (simp add: ForEach_def IDs_def visit_fold split: option.splits)

lemma Flatten_wf: "ordered_wf GetID (Flatten GetID extract subwalk walk src)"
proof -
  have step: "ordered_wf GetID r \<Longrightarrow> ordered_wf GetID (case extract s of
      Some sub \<Rightarrow> ForEach (AddIfNew GetID) (subwalk s) sub r | None \<Rightarrow> r)" for r s
    by (simp add: ForEach_fold add_new.fold_good split: option.splits)
  have "ordered_wf GetID r \<Longrightarrow> ordered_wf GetID (fold (\<lambda>s result. case extract s of
      Some sub \<Rightarrow> ForEach (AddIfNew GetID) (subwalk s) sub result | None \<Rightarrow> result) xs r)" for xs r
    by (induction xs arbitrary: r) (simp_all add: step)
  then show ?thesis by (simp add: Flatten_def ForEach_fold [of _ walk])
qed

lemma find_ids: "List.find (\<lambda>x. GetID x = i) xs = map_of (map (\<lambda>x. (GetID x, x)) xs) i"
  by (induction xs) auto

lemma Find_ordered: "ordered_wf GetID c \<Longrightarrow> Find i c = List.find (\<lambda>x. GetID x = i) (ordered_items c)"
proof (erule ordered_wfE)
  fix ids assume o: "ranges ids (itemsMap c)" "keyed GetID (itemsMap c)" "ordered_items c = found (itemsMap c) ids"
  have "List.find (\<lambda>x. GetID x = i) (found (itemsMap c) js) = (if i \<in> set js then fmlookup (itemsMap c) i else None)" for js
    by (induction js) (use o(2) in \<open>auto dest: keyed_lookup split: option.splits\<close>)
  then show ?thesis using o(1,3) by (auto simp: Find_def ranges_iff)
qed

lemma First_ordered:
  "ordered_wf GetID c \<Longrightarrow> ranges walk (itemsMap c) \<Longrightarrow>
     First zero walk c = (case ordered_items c of [] \<Rightarrow> None | x # _ \<Rightarrow> Some x)"
proof (erule ordered_wfE)
  fix ids assume w: "ranges walk (itemsMap c)"
    and o: "coll_order c = Some ids" "ranges ids (itemsMap c)" "ordered_items c = found (itemsMap c) ids"
  show ?thesis
  proof (cases ids)
    case Nil
    with o w have "walk = []" by (auto simp: ranges_iff)
    then show ?thesis using Nil o by (simp add: First_def)
  next
    case (Cons i js)
    with o(2) obtain x where "fmlookup (itemsMap c) i = Some x" by (auto simp: ranges_iff)
    then show ?thesis using Cons o by (simp add: First_def map_get_def)
  qed
qed

lemma FirstBy_ordered: "ordered_wf GetID c \<Longrightarrow> FirstBy fn walk c = List.find fn (ordered_items c)"
  by (erule ordered_wfE) (simp add: FirstBy_def)

section \<open>Every collection the code builds is well formed\<close>

inductive coll_built :: "'mp \<Rightarrow> ('mp \<Rightarrow> 'id) \<Rightarrow> ('mp, 'id) Collection \<Rightarrow> bool" for zero GetID where
  empty_ordered: "coll_built zero GetID NewEmptyOrderedCollection"
| empty_unordered: "coll_built zero GetID NewEmptyUnorderedCollection"
| unordered: "coll_built zero GetID (NewUnorderedCollection GetID items)"
| ordered: "distinct (map GetID items) \<Longrightarrow> coll_built zero GetID (NewOrderedCollection GetID items)"
| Add: "coll_built zero GetID c \<Longrightarrow> coll_built zero GetID (Add GetID x c)"
| AddIfNew: "coll_built zero GetID c \<Longrightarrow> coll_built zero GetID (AddIfNew GetID x c)"
| RemoveOrder: "coll_built zero GetID c \<Longrightarrow> coll_built zero GetID (RemoveOrder c)"
| Sort: "coll_built zero GetID c \<Longrightarrow> ranges walk (itemsMap c) \<Longrightarrow> coll_built zero GetID (Sort zero lt walk c)"
| Filter: "coll_built zero GetID c \<Longrightarrow> ranges walk (itemsMap c) \<Longrightarrow> coll_built zero GetID (Filter zero fn walk c)"

lemma coll_built_wf: "coll_built zero GetID c \<Longrightarrow> coll_wf GetID c"
  by (induction rule: coll_built.induct) (simp_all add: gwf_inv)

lemma wf_keyed: "coll_wf GetID c \<Longrightarrow> keyed GetID (itemsMap c)"
  by (simp add: coll_wf_def)

lemma wf_IDs: "coll_wf GetID c \<Longrightarrow> ranges walk (itemsMap c) \<Longrightarrow> ranges (IDs walk c) (itemsMap c)"
  by (auto simp: coll_wf_def IDs_def split: option.splits)

lemma wf_Items:
  "coll_wf GetID c \<Longrightarrow> ranges walk (itemsMap c) \<Longrightarrow> Items zero walk c = found (itemsMap c) (IDs walk c)"
  by (auto simp: coll_wf_def Items_def IDs_def found_map ranges_def split: option.splits)

lemma fold_put_next:
  "length acc \<le> sz \<Longrightarrow> fold (\<lambda>x. put_next sz (f x)) xs (Some acc) =
     (if length acc + length xs \<le> sz then Some (acc @ map f xs) else None)"
proof (induction xs arbitrary: acc)
  case (Cons x xs)
  have none: "fold (\<lambda>x. put_next sz (f x)) ys None = None" for ys
    by (induction ys) (simp_all add: put_next_def)
  show ?case using Cons by (auto simp: put_next_def [of _ _ "Some acc"] none)
qed simp

lemma EnumerateToSlice_eq:
  "EnumerateToSlice f walk c =
     (if length (found (itemsMap c) (IDs walk c)) \<le> Len c then Some (map f (found (itemsMap c) (IDs walk c))) else None)"
  by (simp add: EnumerateToSlice_def Let_def visit_fold IDs_def fold_put_next split: option.splits)

lemma fold_AddIfNew_wf: "coll_wf GetID c \<Longrightarrow> coll_wf GetID (fold (AddIfNew GetID) xs c)"
  by (induction xs arbitrary: c) (simp_all add: wf_AddIfNew)

lemma fold_AddIfNew_unordered: "coll_order c = None \<Longrightarrow> coll_order (fold (AddIfNew GetID) xs c) = None"
  by (induction xs arbitrary: c) (simp_all add: AddIfNew_def Let_def)


text \<open>A concrete collection for the witnesses: users by number.\<close>

abbreviation user_id :: "nat \<times> string \<Rightarrow> nat" where "user_id \<equiv> fst"

definition users :: "(nat \<times> string, nat) Collection" where
  "users = Add user_id (2, ''eve'') (NewOrderedCollection user_id [(3, ''bob''), (1, ''ann''), (2, ''cyd'')])"

lemma users_built: "coll_built (0, []) user_id users"
  unfolding users_def by (intro coll_built.Add coll_built.ordered) simp

lemma users_fields [simp]:
  "coll_order users = Some [3, 1, 2]"
  "itemsMap users = fmupd 2 (2, ''eve'') (fmupd 2 (2, ''cyd'') (fmupd 1 (1, ''ann'') (fmupd 3 (3, ''bob'') fmempty)))"
  by (simp_all add: users_def NewOrderedCollection_def put_items_def Add_def Let_def)

lemma users_range: "ranges [3, 1, 2] (itemsMap users)"
  by (auto simp: ranges_def)


section \<open>The stable sort\<close>

definition strict_weak :: "('a \<Rightarrow> 'a \<Rightarrow> bool) \<Rightarrow> bool" where
  "strict_weak lt \<longleftrightarrow> (\<forall>x y. lt x y \<longrightarrow> \<not> lt y x) \<and> (\<forall>x y z. lt x z \<longrightarrow> lt x y \<or> lt y z)"

definition same_rank :: "('a \<Rightarrow> 'a \<Rightarrow> bool) \<Rightarrow> 'a \<Rightarrow> 'a \<Rightarrow> bool" where
  "same_rank lt x y \<longleftrightarrow> \<not> lt x y \<and> \<not> lt y x"

lemma strict_weakD:
  assumes "strict_weak lt"
  shows "lt x y \<Longrightarrow> \<not> lt y x" "lt x z \<Longrightarrow> lt x y \<or> lt y z" "\<not> lt x x"
  using assms by (auto simp: strict_weak_def)

lemma set_slide [simp]: "set (slide lt x xs) = insert x (set xs)"
  by (induction xs) auto

lemma slide_sorted:
  assumes "strict_weak lt"
  shows "sorted_wrt (\<lambda>a b. \<not> lt a b) xs \<Longrightarrow> sorted_wrt (\<lambda>a b. \<not> lt a b) (slide lt x xs)"
proof (induction xs)
  case (Cons y ys)
  then show ?case using strict_weakD(1) [OF assms, of x y] strict_weakD(2) [OF assms, of x _ y] by auto
qed simp

lemma slide_filter:
  assumes "strict_weak lt"
  shows "filter (same_rank lt z) (slide lt x xs) = filter (same_rank lt z) (x # xs)"
  using strict_weakD(2) [OF assms, of x _ z] by (induction xs) (auto simp: same_rank_def)

lemma SliceStable_sorted:
  assumes "strict_weak lt"
  shows "sorted_wrt (\<lambda>a b. \<not> lt b a) (SliceStable lt xs)"
proof -
  have "sorted_wrt (\<lambda>a b. \<not> lt a b) acc \<Longrightarrow> sorted_wrt (\<lambda>a b. \<not> lt a b) (fold (slide lt) xs acc)" for acc
    by (induction xs arbitrary: acc) (simp_all add: slide_sorted [OF assms])
  then show ?thesis by (simp add: SliceStable_def sorted_wrt_rev)
qed

lemma SliceStable_stable:
  assumes "strict_weak lt"
  shows "filter (same_rank lt z) (SliceStable lt xs) = filter (same_rank lt z) xs"
proof -
  have "filter (same_rank lt z) (fold (slide lt) xs acc) = rev (filter (same_rank lt z) xs) @ filter (same_rank lt z) acc" for acc
    by (induction xs arbitrary: acc) (simp_all add: slide_filter [OF assms])
  then show ?thesis by (simp add: SliceStable_def rev_filter [symmetric])
qed

text \<open>A sorted list is determined by the order within its ranks.\<close>

lemma stable_sort_unique:
  assumes sw: "strict_weak lt"
  shows "sorted_wrt (\<lambda>a b. \<not> lt b a) ys \<Longrightarrow> sorted_wrt (\<lambda>a b. \<not> lt b a) zs \<Longrightarrow>
    \<forall>x. filter (same_rank lt x) ys = filter (same_rank lt x) zs \<Longrightarrow> ys = zs"
proof (induction ys arbitrary: zs)
  case Nil
  have "same_rank lt z z" for z using strict_weakD(3) [OF sw] by (simp add: same_rank_def)
  with Nil.prems(3) show ?case by (cases zs) (auto split: if_splits)
next
  case (Cons y ys)
  have self: "same_rank lt z z" for z using strict_weakD(3) [OF sw] by (simp add: same_rank_def)
  have "y \<in> set (filter (same_rank lt y) zs)" using self by (simp add: Cons.prems(3) [rule_format, symmetric])
  then have "y \<in> set zs" by simp
  then obtain z zs' where zs: "zs = z # zs'" and y: "y \<in> set (z # zs')" by (cases zs) auto
  have "z \<in> set (filter (same_rank lt z) (y # ys))" using self zs unfolding Cons.prems(3) [rule_format] by simp
  then have "z \<in> set (y # ys)" by (auto split: if_splits)
  with y Cons.prems(1,2) zs self [of z] have r: "same_rank lt y z" by (auto simp: same_rank_def)
  have "filter (same_rank lt y) (y # ys) = filter (same_rank lt y) (z # zs')" using Cons.prems(3) zs by blast
  with r self have yz: "y = z" by simp
  have "filter (same_rank lt x) ys = filter (same_rank lt x) zs'" for x
    using Cons.prems(3) [rule_format, of x] zs yz by (auto split: if_splits)
  with Cons zs yz show ?case by simp
qed

lemma Sort_fields [simp]: "itemsMap (Sort zero lt walk c) = itemsMap c" "IsOrdered (Sort zero lt walk c)"
  by (simp_all add: Sort_def Let_def IsOrdered_def)

text \<open>
  \<open>Sort\<close> leaves the items as they were and orders them: for a strict weak order no item stands before one
  that is less, items of equal rank keep the order they had before (the listing order of an unordered collection),
  and no other listing has both properties, so the result does not depend on the sorting algorithm.
\<close>

theorem sort_is_stable:
  assumes c: "coll_wf GetID c" "ranges walk (itemsMap c)" and sw: "strict_weak lt"
  shows "let s = Sort zero lt walk c; xs = Items zero walk c; ys = Items zero walk' s
    in coll_wf GetID s \<and> IsOrdered s \<and> itemsMap s = itemsMap c \<and> mset ys = mset xs
       \<and> sorted_wrt (\<lambda>a b. \<not> lt b a) ys
       \<and> (\<forall>x. filter (same_rank lt x) ys = filter (same_rank lt x) xs)
       \<and> (\<forall>zs. sorted_wrt (\<lambda>a b. \<not> lt b a) zs \<longrightarrow>
                (\<forall>x. filter (same_rank lt x) zs = filter (same_rank lt x) xs) \<longrightarrow> zs = ys)"
proof -
  have wf: "coll_wf GetID (Sort zero lt walk c)" using c by (rule wf_Sort)
  then have "Items zero walk' (Sort zero lt walk c) = ordered_items (Sort zero lt walk c)"
    by (intro Items_ordered [of GetID]) (simp add: ordered_wf_def)
  also have "\<dots> = SliceStable lt (Items zero walk c)" using c by (rule Sort_order)
  finally have ys: "Items zero walk' (Sort zero lt walk c) = SliceStable lt (Items zero walk c)" .
  have "zs = SliceStable lt (Items zero walk c)"
    if "sorted_wrt (\<lambda>a b. \<not> lt b a) zs" "\<forall>x. filter (same_rank lt x) zs = filter (same_rank lt x) (Items zero walk c)" for zs
    using that by (intro stable_sort_unique [OF sw]) (simp_all add: SliceStable_sorted SliceStable_stable sw)
  then show ?thesis
    unfolding Let_def ys by (simp add: wf SliceStable_sorted SliceStable_stable sw)
qed

theorem sort_is_stable_witness:
  "Items (0, []) [] (Sort (0, []) (\<lambda>a b. length (snd a) < length (snd b)) [3, 1, 2]
      (Add user_id (4, ''dan'') (Add user_id (3, ''robert'') users)))
     = [(1, ''ann''), (2, ''eve''), (4, ''dan''), (3, ''robert'')]"
proof -
  let ?c = "Add user_id (4, ''dan'') (Add user_id (3, ''robert'') users)"
  let ?lt = "\<lambda>a b. length (snd (a :: nat \<times> string)) < length (snd b)"
  have c: "coll_order ?c = Some [3, 1, 2, 4]" by (simp add: Add_def Let_def)
  have wf: "coll_wf user_id ?c" by (intro wf_Add coll_built_wf [OF users_built])
  then have r: "ranges [3, 1, 2, 4] (itemsMap ?c)" by (simp add: coll_wf_def c)
  have sw: "strict_weak ?lt" by (auto simp: strict_weak_def)
  have xs: "Items (0, []) w ?c = [(3, ''robert''), (1, ''ann''), (2, ''eve''), (4, ''dan'')]" for w
    by (simp add: Items_def c) (simp add: Add_def Let_def map_get_def)
  have sort: "Sort (0, []) ?lt [3, 1, 2] ?c = Sort (0, []) ?lt [3, 1, 2, 4] ?c" by (simp add: Sort_def c)
  have "\<forall>zs. sorted_wrt (\<lambda>a b. \<not> ?lt b a) zs \<longrightarrow>
      (\<forall>x. filter (same_rank ?lt x) zs = filter (same_rank ?lt x) (Items (0, []) [3, 1, 2, 4] ?c)) \<longrightarrow>
      zs = Items (0, []) [] (Sort (0, []) ?lt [3, 1, 2, 4] ?c)"
    using sort_is_stable [OF wf r sw, of "(0, [])" "[]"] unfolding Let_def by blast
  from this [rule_format, of "[(1, ''ann''), (2, ''eve''), (4, ''dan''), (3, ''robert'')]"]
  show ?thesis unfolding sort xs by (simp add: same_rank_def)
qed

section \<open>Refinement: lists with distinct ids\<close>

definition list_add :: "('x \<Rightarrow> 'k) \<Rightarrow> 'x \<Rightarrow> 'x list \<Rightarrow> 'x list" where
  "list_add key x xs =
     (if key x \<in> key ` set xs then map (\<lambda>y. if key y = key x then x else y) xs else xs @ [x])"



section \<open>Grouping\<close>

text \<open>A collection rebuilt from its items.\<close>

definition of_items :: "('mp \<Rightarrow> 'id) \<Rightarrow> bool \<Rightarrow> 'mp list \<Rightarrow> ('mp, 'id) Collection" where
  "of_items GetID ordered xs = (if ordered then NewOrderedCollection GetID xs else NewUnorderedCollection GetID xs)"

lemma of_items_Nil:
  "of_items GetID True [] = NewEmptyOrderedCollection" "of_items GetID False [] = NewEmptyUnorderedCollection"
  by (simp_all add: of_items_def NewOrderedCollection_def NewUnorderedCollection_def put_items_def
    NewEmptyOrderedCollection_def NewEmptyUnorderedCollection_def)

lemma put_items_fresh: "GetID x \<notin> GetID ` set xs \<Longrightarrow> fmlookup (put_items GetID xs) (GetID x) = None"
  using put_items_dom [of GetID xs] fmdom_notD by metis

lemma AddIfNew_of_items:
  "GetID x \<notin> GetID ` set xs \<Longrightarrow> AddIfNew GetID x (of_items GetID b xs) = of_items GetID b (xs @ [x])"
  by (simp add: of_items_def AddIfNew_def Let_def NewOrderedCollection_def NewUnorderedCollection_def put_items_fresh put_items_snoc)

lemma Add_of_items:
  "GetID x \<notin> GetID ` set xs \<Longrightarrow> Add GetID x (of_items GetID b xs) = of_items GetID b (xs @ [x])"
  by (simp add: of_items_def Add_def Let_def NewOrderedCollection_def NewUnorderedCollection_def put_items_fresh put_items_snoc)

lemma put_items_found:
  assumes "keyed GetID m" "distinct ids"
  shows "fmlookup (put_items GetID (filter fn (found m ids))) i = (if i \<in> set ids \<and> keeps m fn i then fmlookup m i else None)"
  using assms(2)
proof (induction ids rule: rev_induct)
  case (snoc j ids)
  then show ?case using assms(1)
    by (cases "fmlookup m j") (auto simp: put_items_snoc keeps_iff dest: keyed_lookup)
qed (simp add: put_items_def)

lemma map_id_filter:
  "keyed GetID m \<Longrightarrow> map GetID (filter fn (found m ids)) = filter (keeps m fn) ids"
  by (induction ids) (auto simp: keeps_iff dest: keyed_lookup split: option.splits)

lemma Filter_of_items:
  assumes wf: "coll_wf GetID c" and r: "ranges walk (itemsMap c)" and ne: "itemsMap c \<noteq> fmempty"
  shows "Filter zero fn walk c = of_items GetID (IsOrdered c) (filter fn (Items zero walk c))"
proof -
  note k = wf_keyed [OF wf] and i = wf_IDs [OF wf r]
  have m: "put_items GetID (filter fn (found (itemsMap c) (IDs walk c))) = fmfilter (keeps (itemsMap c) fn) (itemsMap c)"
    using i by (intro fmap_ext) (auto simp: put_items_found [OF k] ranges_iff keeps_iff)
  have "IDs walk c \<noteq> []" using i ne by (metis fmap_ext fmempty_lookup list.set(1) empty_iff not_None_eq ranges_iff)
  then have o: "(case coll_order c of Some (i # ids) \<Rightarrow> Some (filter (keeps (itemsMap c) fn) (i # ids)) | _ \<Rightarrow> None)
      = (if IsOrdered c then Some (filter (keeps (itemsMap c) fn) (IDs walk c)) else None)"
    by (auto simp: IDs_def IsOrdered_def split: option.splits list.splits)
  show ?thesis
    unfolding Filter_eq [OF wf r] o wf_Items [OF wf r]
    by (simp add: of_items_def NewOrderedCollection_def NewUnorderedCollection_def m map_id_filter [OF k])
qed

definition grouped :: "('mp \<Rightarrow> 'id) \<Rightarrow> bool \<Rightarrow> ('mp \<Rightarrow> 'k) \<Rightarrow> 'mp list \<Rightarrow> 'k \<Rightarrow> ('mp, 'id) Collection option" where
  "grouped GetID b keyFn xs k =
     (if k \<in> keyFn ` set xs then Some (of_items GetID b (filter (\<lambda>x. keyFn x = k) xs)) else None)"

lemma of_items_empty: "of_items GetID b [] = (if b then NewEmptyOrderedCollection else NewEmptyUnorderedCollection)"
  by (simp add: of_items_Nil)

lemma group_step_lookup:
  assumes "FindCollection (keyFn x) g = grouped GetID b keyFn xs (keyFn x)" "GetID x \<notin> GetID ` set xs"
  shows "FindCollection k (group_step GetID b keyFn x g) =
    (if k = keyFn x then Some (of_items GetID b (filter (\<lambda>y. keyFn y = k) (xs @ [x]))) else FindCollection k g)"
proof (cases "keyFn x \<in> keyFn ` set xs")
  case True
  have "GetID x \<notin> GetID ` set (filter (\<lambda>y. keyFn y = keyFn x) xs)" using assms(2) by auto
  from AddIfNew_of_items [OF this, of b] True assms(1) show ?thesis
    by (simp add: group_step_def getOrCreateSubCollection_def Let_def grouped_def SetCollection_def FindCollection_def)
next
  case False
  then have "filter (\<lambda>y. keyFn y = keyFn x) xs = []"
    by (metis (mono_tags, lifting) filter_False imageI)
  then show ?thesis using False assms AddIfNew_of_items [of GetID x "[]" b]
    by (cases b) (simp_all add: group_step_def getOrCreateSubCollection_def Let_def grouped_def SetCollection_def FindCollection_def of_items_empty)
qed

lemma fold_group_lookup:
  "distinct (map GetID xs) \<Longrightarrow>
     FindCollection k (fold (group_step GetID b keyFn) xs NewEmptyCollectionGroup) = grouped GetID b keyFn xs k"
proof (induction xs arbitrary: k rule: rev_induct)
  case Nil
  then show ?case by (simp add: FindCollection_def NewEmptyCollectionGroup_def grouped_def)
next
  case (snoc x xs)
  then have "GetID x \<notin> GetID ` set xs" by auto
  with snoc show ?case by (auto simp: group_step_lookup [where xs = xs] grouped_def)
qed

lemma group_step_order:
  "grp_order (group_step GetID b keyFn x g) =
     (if b \<and> FindCollection (keyFn x) g = None then Some ((case grp_order g of None \<Rightarrow> [] | Some ks \<Rightarrow> ks) @ [keyFn x])
      else grp_order g)"
  by (auto simp: group_step_def getOrCreateSubCollection_def Let_def SetCollection_def split: option.splits)

lemma unique_first_Nil [simp]: "unique_first [] = []"
  by (simp add: unique_first_def)

lemma unique_first_snoc: "unique_first (vs @ [v]) = (if v \<in> set vs then unique_first vs else unique_first vs @ [v])"
  using unique_first_spec(2) [of vs] by (auto simp: unique_first_def keep_first_def)

lemma fold_group_order:
  "distinct (map GetID xs) \<Longrightarrow>
     grp_order (fold (group_step GetID b keyFn) xs NewEmptyCollectionGroup)
       = (if b \<and> xs \<noteq> [] then Some (unique_first (map keyFn xs)) else None)"
proof (induction xs rule: rev_induct)
  case Nil
  then show ?case by (simp add: NewEmptyCollectionGroup_def)
next
  case (snoc x xs)
  then show ?case
    by (auto simp: group_step_order fold_group_lookup grouped_def unique_first_snoc)
qed

text \<open>
  \<open>GroupBy\<close> splits a collection by key: the group has a collection exactly for the keys of the items, and
  the one under a key equals what \<open>Filter\<close> gives for that key, the order included. The groups of an ordered
  collection stand in the order of first appearance.
\<close>

theorem group_by_filters:
  assumes wf: "coll_wf GetID c" and r: "ranges walk (itemsMap c)"
  shows "\<exists>g. GroupBy GetID keyFn walk (Some c) = Some g
    \<and> (\<forall>k. FindCollection k g =
          (if \<exists>x\<in>set (Items zero walk c). keyFn x = k then Some (Filter zero (\<lambda>x. keyFn x = k) walk c) else None))
    \<and> (\<forall>kwalk. IsOrdered c \<longrightarrow> ranges kwalk (collectionsMap g) \<longrightarrow>
          Keys kwalk g = unique_first (map keyFn (Items zero walk c)))"
proof -
  let ?xs = "Items zero walk c"
  let ?g = "fold (group_step GetID (IsOrdered c) keyFn) ?xs NewEmptyCollectionGroup"
  have g: "GroupBy GetID keyFn walk (Some c) = Some ?g"
    by (simp add: GroupBy_def ForEach_fold wf_Items [OF wf r])
  have d: "distinct (map GetID ?xs)"
    using wf_IDs [OF wf r] by (simp add: wf_Items [OF wf r] map_id_found [OF wf_keyed [OF wf]] ranges_def)
  have ne: "itemsMap c \<noteq> fmempty" if "x \<in> set ?xs" for x
    using that by (auto simp: wf_Items [OF wf r] set_found)
  have look: "FindCollection k ?g =
      (if \<exists>x\<in>set ?xs. keyFn x = k then Some (Filter zero (\<lambda>x. keyFn x = k) walk c) else None)" for k
    using Filter_of_items [OF wf r, of zero] ne by (auto simp: fold_group_lookup [OF d] grouped_def)
  have keys: "Keys kwalk ?g = unique_first (map keyFn ?xs)" if "IsOrdered c" "ranges kwalk (collectionsMap ?g)" for kwalk
  proof (cases "?xs = []")
    case True
    with that show ?thesis by (simp add: Keys_def NewEmptyCollectionGroup_def)
  next
    case False
    with that show ?thesis by (simp add: Keys_def fold_group_order [OF d])
  qed
  show ?thesis using g look keys by blast
qed

theorem group_by_filters_witness:
  "\<exists>g. GroupBy user_id (\<lambda>u. fst u mod 2) [3, 1, 2] (Some users) = Some g
     \<and> map_option (Items (0, []) []) (FindCollection 1 g) = Some [(3, ''bob''), (1, ''ann'')]
     \<and> FindCollection 2 g = None"
proof -
  have xs: "Items (0, []) [3, 1, 2] users = [(3, ''bob''), (1, ''ann''), (2, ''eve'')]"
    by (simp add: Items_def map_get_def)
  obtain g where g: "GroupBy user_id (\<lambda>u. fst u mod 2) [3, 1, 2] (Some users) = Some g"
    and look: "\<forall>k. FindCollection k g = (if \<exists>x\<in>set (Items (0, []) [3, 1, 2] users). fst x mod 2 = k
      then Some (Filter (0, []) (\<lambda>x. fst x mod 2 = k) [3, 1, 2] users) else None)"
    using group_by_filters [OF coll_built_wf [OF users_built] users_range, of "\<lambda>u. fst u mod 2" "(0, [])"] by blast
  have f: "Items (0, []) [] (Filter (0, []) (\<lambda>x. fst x mod 2 = (1::nat)) [3, 1, 2] users) = [(3, ''bob''), (1, ''ann'')]"
    by (simp add: Filter_def filter_ordered_def Let_def map_get_def Items_def)
  have "FindCollection 1 g = Some (Filter (0, []) (\<lambda>x. fst x mod 2 = 1) [3, 1, 2] users)" "FindCollection 2 g = None"
    unfolding look [rule_format] xs by simp_all
  with g f show ?thesis by auto
qed

section \<open>Relations\<close>

lemma grouped_get:
  "(case grouped GetID True fk xs k of Some cc \<Rightarrow> cc | None \<Rightarrow> NewEmptyOrderedCollection)
     = of_items GetID True (filter (\<lambda>x. fk x = k) xs)"
proof (cases "k \<in> fk ` set xs")
  case False
  then have "filter (\<lambda>x. fk x = k) xs = []" by (metis (mono_tags, lifting) filter_False imageI)
  then show ?thesis using False by (simp add: grouped_def of_items_Nil)
qed (simp add: grouped_def)

lemma into_group_lookup:
  assumes "fmlookup grp (fk x) = grouped GetID True fk xs (fk x)" "GetID x \<notin> GetID ` set xs"
  shows "fmlookup (into_group GetID fk x grp) k =
    (if k = fk x then Some (of_items GetID True (filter (\<lambda>y. fk y = k) (xs @ [x]))) else fmlookup grp k)"
proof -
  have fresh: "GetID x \<notin> GetID ` set (filter (\<lambda>y. fk y = fk x) xs)" using assms(2) by auto
  have "(case fmlookup grp (fk x) of Some cc \<Rightarrow> cc | None \<Rightarrow> NewEmptyOrderedCollection)
      = of_items GetID True (filter (\<lambda>y. fk y = fk x) xs)"
    by (simp add: assms(1) grouped_get)
  then show ?thesis using Add_of_items [OF fresh, of True] by (simp add: into_group_def Let_def)
qed

lemma fold_into_group:
  "distinct (map GetID xs) \<Longrightarrow> fmlookup (fold (into_group GetID fk) xs fmempty) k = grouped GetID True fk xs k"
proof (induction xs arbitrary: k rule: rev_induct)
  case (snoc x xs)
  then have "GetID x \<notin> GetID ` set xs" by auto
  with snoc show ?case by (auto simp: into_group_lookup [where xs = xs] grouped_def)
qed (simp add: grouped_def)

lemma distinct_Items:
  "coll_wf GetID c \<Longrightarrow> ranges walk (itemsMap c) \<Longrightarrow> distinct (map GetID (Items zero walk c))"
  using wf_IDs [of GetID c walk] by (simp add: wf_Items map_id_found wf_keyed ranges_def)

text \<open>The groups \<open>LinkHasMany\<close> builds.\<close>

lemma LinkHasMany_groups:
  assumes wf: "coll_wf GetID children" and r: "ranges cwalk (itemsMap children)"
  shows "(case coll_order children of
            Some (i # ids) \<Rightarrow> fold (\<lambda>cid. into_group GetID fk (map_get zero (itemsMap children) cid)) (i # ids) fmempty
          | _ \<Rightarrow> visit (into_group GetID fk) (itemsMap children) cwalk fmempty)
    = fold (into_group GetID fk) (Items zero cwalk children) fmempty"
proof -
  have empty: "cwalk = []" if "coll_order children = Some []"
    using that wf r by (auto simp: coll_wf_def ranges_iff)
  have m: "fold (\<lambda>cid. into_group GetID fk (map_get zero m cid)) ids g = fold (into_group GetID fk) (map (map_get zero m) ids) g"
    for ids m g by (simp add: fold_map comp_def)
  show ?thesis using empty
    by (cases "coll_order children") (auto simp: Items_def m visit_fold split: list.splits)
qed

lemma fold_assign:
  assumes "distinct ks" "inj_on rel {p. \<exists>k\<in>set ks. fmlookup pm k = Some p}" "keyed GetID pm"
  shows "fold (\<lambda>k h. case fmlookup pm k of None \<Rightarrow> h | Some p \<Rightarrow> h(rel p := Some (val k))) ks heap a =
    (case List.find (\<lambda>k. \<exists>p. fmlookup pm k = Some p \<and> rel p = a) ks of Some k \<Rightarrow> Some (val k) | None \<Rightarrow> heap a)"
  using assms
proof (induction ks arbitrary: heap)
  case (Cons k ks)
  have inj: "inj_on rel {p. \<exists>k\<in>set ks. fmlookup pm k = Some p}" using Cons.prems(2) by (rule inj_on_subset) auto
  show ?case
  proof (cases "fmlookup pm k")
    case None
    then show ?thesis using Cons inj by simp
  next
    case (Some p)
    have "List.find (\<lambda>j. \<exists>q. fmlookup pm j = Some q \<and> rel q = rel p) ks = None"
      unfolding find_None_iff
    proof clarify
      fix j q assume j: "j \<in> set ks" "fmlookup pm j = Some q" "rel q = rel p"
      then have "q = p" using Cons.prems(2) Some by (auto simp: inj_on_def)
      then have "j = k" using keyed_lookup [OF Cons.prems(3)] j Some by metis
      then show False using j Cons.prems(1) by simp
    qed
    then show ?thesis using Cons Some inj by (cases "rel p = a") (auto split: option.splits)
  qed
qed simp

lemma link_walk_all:
  assumes "inj_on rel (set cs)"
  shows "link_walk GetID pm fk rel cs h = (None, h') \<Longrightarrow>
    (\<forall>c\<in>set cs. fmlookup pm (fk c) \<noteq> None \<and> h' (rel c) = fmlookup pm (fk c)) \<and> (\<forall>a. a \<notin> rel ` set cs \<longrightarrow> h' a = h a)"
  using assms
proof (induction cs arbitrary: h)
  case (Cons c cs)
  then obtain p where p: "fmlookup pm (fk c) = Some p" and w: "link_walk GetID pm fk rel cs (h(rel c := Some p)) = (None, h')"
    by (auto split: option.splits)
  have inj: "inj_on rel (set cs)" using Cons.prems(2) by simp
  note IH = Cons.IH [OF w inj]
  have "h' (rel c) = Some p"
  proof (cases "c \<in> set cs")
    case True
    then show ?thesis using IH p by auto
  next
    case False
    then have "rel c \<notin> rel ` set cs" using Cons.prems(2) by (auto simp: inj_on_def)
    then show ?thesis using IH by auto
  qed
  then show ?case using IH p by auto
qed simp

lemma link_walk_fails:
  "fst (link_walk GetID pm fk rel cs h) = None \<longleftrightarrow> (\<forall>c\<in>set cs. fmlookup pm (fk c) \<noteq> None)"
  by (induction cs arbitrary: h) (auto split: option.splits)

lemma LinkHasMany_assigns:
  assumes c: "coll_wf GetID children" "ranges cwalk (itemsMap children)"
    and p: "coll_wf GetPID parents" "ranges pwalk (itemsMap parents)"
    and inj: "inj_on rel (set (Items pzero pwalk parents))"
    and par: "parent \<in> set (Items pzero pwalk parents)"
  shows "LinkHasMany GetID zero children fk rel cwalk pwalk parents heap (rel parent)
    = Some (of_items GetID True (filter (\<lambda>x. fk x = GetPID parent) (Items zero cwalk children)))"
proof -
  let ?xs = "Items zero cwalk children"
  let ?sub = "\<lambda>pid. of_items GetID True (filter (\<lambda>x. fk x = pid) ?xs)"
  note k = wf_keyed [OF p(1)]
  have look: "(case fmlookup (fold (into_group GetID fk) ?xs fmempty) pid of
      Some cc \<Rightarrow> h(a := Some cc) | None \<Rightarrow> h(a := Some NewEmptyOrderedCollection)) = h(a := Some (?sub pid))" for pid h a
    using grouped_get [of GetID fk ?xs pid]
    by (simp add: fold_into_group [OF distinct_Items [OF c]] split: option.splits)
  have items: "set (Items pzero pwalk parents) = {q. \<exists>pid\<in>set pwalk. fmlookup (itemsMap parents) pid = Some q}"
    using p wf_IDs [OF p] by (auto simp: wf_Items set_found ranges_iff)
  have all: "LinkHasMany GetID zero children fk rel cwalk pwalk parents heap (rel parent) =
      (case List.find (\<lambda>pid. \<exists>q. fmlookup (itemsMap parents) pid = Some q \<and> rel q = rel parent) pwalk of
         Some pid \<Rightarrow> Some (?sub pid) | None \<Rightarrow> heap (rel parent))"
    unfolding LinkHasMany_def LinkHasMany_groups [OF c] Let_def look
    using p(2) inj items by (intro fold_assign [OF _ _ k]) (simp_all add: ranges_def)
  have "(\<exists>q. fmlookup (itemsMap parents) pid = Some q \<and> rel q = rel parent) \<longleftrightarrow> pid = GetPID parent" for pid
  proof
    assume "\<exists>q. fmlookup (itemsMap parents) pid = Some q \<and> rel q = rel parent"
    then obtain q where q: "fmlookup (itemsMap parents) pid = Some q" "rel q = rel parent" by blast
    then have "q \<in> set (Items pzero pwalk parents)" using p(2) by (auto simp: items ranges_iff)
    then have "q = parent" using inj_onD [OF inj q(2)] par by blast
    then show "pid = GetPID parent" using keyed_lookup [OF k q(1)] by simp
  next
    assume "pid = GetPID parent"
    then show "\<exists>q. fmlookup (itemsMap parents) pid = Some q \<and> rel q = rel parent"
      using par keyed_lookup [OF k] by (auto simp: items)
  qed
  moreover have "GetPID parent \<in> set pwalk" using par items keyed_lookup [OF k] by auto
  then have "List.find (\<lambda>pid. pid = GetPID parent) pwalk = Some (GetPID parent)"
    by (induction pwalk) auto
  ultimately show ?thesis by (simp add: all)
qed

lemma of_items_wf: "distinct (map GetID xs) \<Longrightarrow> ordered_wf GetID (of_items GetID True xs)"
  using wf_New(2) [of GetID xs] by (simp add: of_items_def ordered_wf_def IsOrdered_def) (simp add: NewOrderedCollection_def)

lemma put_items_lookup:
  "distinct (map GetID xs) \<Longrightarrow> fmlookup (put_items GetID xs) i = List.find (\<lambda>x. GetID x = i) xs"
proof (induction xs rule: rev_induct)
  case (snoc x xs)
  have "List.find P (ys @ [x]) = (case List.find P ys of Some y \<Rightarrow> Some y | None \<Rightarrow> if P x then Some x else None)" for P ys
    by (induction ys) auto
  moreover have "List.find (\<lambda>y. GetID y = GetID x) xs = None" using snoc.prems
    by (simp add: find_None_iff) (metis image_eqI)
  ultimately show ?case using snoc by (auto simp: put_items_snoc split: option.splits)
qed (simp add: put_items_def)

lemma of_items_Items: "distinct (map GetID xs) \<Longrightarrow> Items zero walk (of_items GetID True xs) = xs"
proof -
  assume d: "distinct (map GetID xs)"
  have "List.find (\<lambda>y. GetID y = GetID x) xs = Some x" if "x \<in> set xs" for x
    using that d by (induction xs) (auto simp: rev_image_eqI)
  then show ?thesis
    by (auto simp: of_items_def NewOrderedCollection_def Items_def map_get_def put_items_lookup [OF d] comp_def intro!: map_idI)
qed

text \<open>
  The two directions of a relation agree. When the strict \<open>LinkBelongsTo\<close> returns without an error (which is
  exactly when every child's foreign key names a parent), every child's field holds the parent with that id; after
  \<open>LinkHasMany\<close> every parent's field holds an ordered collection of exactly its children, in the order of the
  children. So a child holds a parent iff the parent's collection holds the child. No other address is written.
\<close>

theorem relations_agree:
  assumes c: "coll_wf GetID children" "ranges cwalk (itemsMap children)"
    and p: "coll_wf GetPID parents" "ranges pwalk (itemsMap parents)"
    and injc: "inj_on relc (set (Items zero cwalk children))" and injp: "inj_on relp (set (Items pzero pwalk parents))"
  shows "let cs = Items zero cwalk children; ps = Items pzero pwalk parents;
      (err, h1) = LinkBelongsTo GetID parents fk relc cwalk children h;
      h2 = LinkHasMany GetID zero children fk relp cwalk pwalk parents k
    in (err = None \<longleftrightarrow> (\<forall>child\<in>set cs. fk child \<in> GetPID ` set ps))
     \<and> (\<forall>parent\<in>set ps. \<exists>sub. h2 (relp parent) = Some sub \<and> ordered_wf GetID sub
          \<and> Items zero [] sub = filter (\<lambda>x. fk x = GetPID parent) cs)
     \<and> (err = None \<longrightarrow>
          (\<forall>child\<in>set cs. \<forall>parent\<in>set ps.
             h1 (relc child) = Some parent \<longleftrightarrow> (\<exists>sub. h2 (relp parent) = Some sub \<and> Find (GetID child) sub = Some child))
          \<and> (\<forall>a. a \<notin> relc ` set cs \<longrightarrow> h1 a = h a))"
proof -
  let ?cs = "Items zero cwalk children" and ?ps = "Items pzero pwalk parents"
  let ?sub = "\<lambda>parent. filter (\<lambda>x. fk x = GetPID parent) ?cs"
  obtain err h1 where l: "LinkBelongsTo GetID parents fk relc cwalk children h = (err, h1)" by fastforce
  have cs: "set (found (itemsMap children) cwalk) = set ?cs"
    using c wf_IDs [OF c] by (auto simp: wf_Items set_found ranges_iff)
  have walk: "link_walk GetID (itemsMap parents) fk relc (found (itemsMap children) cwalk) h = (err, h1)"
    using l by (simp add: LinkBelongsTo_def)
  have pids: "GetPID ` set ?ps = fset (fmdom (itemsMap parents))"
    using wf_IDs [OF p] by (simp add: wf_Items [OF p] ids_found [OF wf_keyed [OF p(1)]] ranges_def)
  have pmem: "parent \<in> set ?ps \<longleftrightarrow> fmlookup (itemsMap parents) (GetPID parent) = Some parent" for parent
  proof
    assume "parent \<in> set ?ps"
    then obtain i where "fmlookup (itemsMap parents) i = Some parent" by (auto simp: wf_Items [OF p] set_found)
    then show "fmlookup (itemsMap parents) (GetPID parent) = Some parent"
      using keyed_lookup [OF wf_keyed [OF p(1)]] by metis
  next
    assume "fmlookup (itemsMap parents) (GetPID parent) = Some parent"
    then show "parent \<in> set ?ps" using wf_IDs [OF p] unfolding wf_Items [OF p] set_found ranges_iff by blast
  qed
  have d: "distinct (map GetID (?sub parent))" for parent
    using distinct_Items [OF c] by (rule distinct_map_filter)
  have h2: "LinkHasMany GetID zero children fk relp cwalk pwalk parents k (relp parent) = Some (of_items GetID True (?sub parent))"
    if "parent \<in> set ?ps" for parent
    using LinkHasMany_assigns [OF c p injp that] .
  have "err = None \<longleftrightarrow> (\<forall>child\<in>set ?cs. fk child \<in> GetPID ` set ?ps)"
    using link_walk_fails [of GetID "itemsMap parents" fk relc "found (itemsMap children) cwalk" h]
    by (simp add: walk cs pids fmlookup_dom_iff)
  moreover have "\<exists>sub. LinkHasMany GetID zero children fk relp cwalk pwalk parents k (relp parent) = Some sub
      \<and> ordered_wf GetID sub \<and> Items zero [] sub = ?sub parent" if "parent \<in> set ?ps" for parent
    using h2 [OF that] of_items_wf [OF d] of_items_Items [OF d] by blast
  moreover have "h1 (relc child) = Some parent \<longleftrightarrow>
      (\<exists>sub. LinkHasMany GetID zero children fk relp cwalk pwalk parents k (relp parent) = Some sub
        \<and> Find (GetID child) sub = Some child)"
    if e: "err = None" and child: "child \<in> set ?cs" and parent: "parent \<in> set ?ps" for child parent
  proof -
    have "h1 (relc child) = fmlookup (itemsMap parents) (fk child)"
      using link_walk_all [OF injc [folded cs] walk [unfolded e]] child by (simp add: cs)
    then have "h1 (relc child) = Some parent \<longleftrightarrow> fk child = GetPID parent"
      using parent [unfolded pmem] keyed_lookup [OF wf_keyed [OF p(1)]] by metis
    moreover have "Find (GetID child) (of_items GetID True (?sub parent)) = Some child \<longleftrightarrow> child \<in> set (?sub parent)"
      using d [of parent] child
      by (simp add: Find_ordered [OF of_items_wf [OF d]] find_ids Items_ordered [OF of_items_wf [OF d], symmetric, where zero = zero and walk = "[]"]
        of_items_Items [OF d] map_of_eq_Some_iff comp_def)
         force
    ultimately show ?thesis using child h2 [OF parent] by simp
  qed
  moreover have "h1 a = h a" if "err = None" "a \<notin> relc ` set ?cs" for a
    using link_walk_all [OF injc [folded cs] walk [unfolded that(1)]] that(2) by (simp add: cs)
  ultimately show ?thesis by (simp add: l)
qed

definition posts :: "(nat \<times> nat, nat) Collection" where
  "posts = NewOrderedCollection fst [(10, 1), (11, 3), (12, 1)]"

lemma posts_fields [simp]:
  "coll_order posts = Some [10, 11, 12]"
  "itemsMap posts = fmupd 12 (12, 1) (fmupd 11 (11, 3) (fmupd 10 (10, 1) fmempty))"
  by (simp_all add: posts_def NewOrderedCollection_def put_items_def)

theorem relations_agree_witness:
  "fst (LinkBelongsTo fst users snd fst [10, 11, 12] posts (\<lambda>_. None)) = None
   \<and> (\<exists>sub. LinkHasMany fst (0, 0) posts snd fst [10, 11, 12] [3, 1, 2] users (\<lambda>_. None) 1 = Some sub
        \<and> Items (0, 0) [] sub = [(10, 1), (12, 1)])"
proof -
  have c: "coll_wf fst posts" unfolding posts_def by (rule wf_New) simp
  then have r: "ranges [10, 11, 12] (itemsMap posts)" by (simp add: coll_wf_def)
  have cs: "Items (0, 0) [10, 11, 12] posts = [(10, 1), (11, 3), (12, 1)]" by (simp add: Items_def map_get_def)
  have ps: "Items (0, []) [3, 1, 2] users = [(3, ''bob''), (1, ''ann''), (2, ''eve'')]"
    by (simp add: Items_def map_get_def)
  have inj: "inj_on fst (set (Items (0, 0) [10, 11, 12] posts))" "inj_on fst (set (Items (0, []) [3, 1, 2] users))"
    unfolding cs ps by simp_all
  from relations_agree [OF c r coll_built_wf [OF users_built] users_range inj, of snd "\<lambda>_. None" "\<lambda>_. None"]
  have "(fst (LinkBelongsTo fst users snd fst [10, 11, 12] posts (\<lambda>_. None)) = None) =
        (\<forall>child\<in>set [(10 :: nat, 1), (11, 3), (12, 1)]. snd child \<in> user_id ` set [(3, ''bob''), (1, ''ann''), (2, ''eve'')])"
    and "\<forall>parent\<in>set [(3, ''bob''), (1, ''ann''), (2, ''eve'')].
      \<exists>sub. LinkHasMany fst (0, 0) posts snd fst [10, 11, 12] [3, 1, 2] users (\<lambda>_. None) (fst parent) = Some sub
        \<and> Items (0, 0) [] sub = filter (\<lambda>x. snd x = fst parent) [(10, 1), (11, 3), (12, 1)]"
    unfolding Let_def cs ps case_prod_beta by blast+
  then show ?thesis by simp
qed

section \<open>Repeated ids\<close>

text \<open>
  \<open>NewOrderedCollection\<close> keeps an id in the order as often as the items repeat it. Such a collection is not
  well formed: \<open>Items\<close> lists more than \<open>Len\<close> items, and \<open>EnumerateToSlice\<close> writes past its slice and panics.
\<close>

theorem repeated_ids_panic:
  assumes "\<not> distinct (map GetID items)"
  shows "EnumerateToSlice f walk (NewOrderedCollection GetID items) = None
    \<and> Len (NewOrderedCollection GetID items) < length (Items zero walk (NewOrderedCollection GetID items))"
proof -
  have "card (set (map GetID items)) < length items"
    using assms card_distinct [of "map GetID items"] card_length [of "map GetID items"] by (auto simp: le_less)
  then have "Len (NewOrderedCollection GetID items) < length items"
    by (simp add: Len_def NewOrderedCollection_def fcard.rep_eq)
  moreover have "found (put_items GetID items) (map GetID items) = map (map_get z (put_items GetID items)) (map GetID items)" for z
    by (rule found_map [symmetric]) simp
  then have "length (found (put_items GetID items) (map GetID items)) = length items" by (metis length_map)
  ultimately show ?thesis
    by (simp add: EnumerateToSlice_eq IDs_def Items_def NewOrderedCollection_def)
qed

end
