(* ===== verification/Net_Addr.thy ===== *)
theory Net_Addr
  imports Gwf_Prelude
begin

text \<open>
  The parts of Go's \<open>net\<close>, \<open>net/netip\<close> and \<open>strings\<close> that the web packages use: trimming and
  splitting text, host and port, IP addresses and prefixes with their text forms. A string is its bytes. An address is
  its number with its family; an IPv6 address also has a zone. The parsers follow the library's: a refused text is
  \<open>None\<close> (the reason of the refusal is not kept).
\<close>

section \<open>Text\<close>

text \<open>\<open>strings.TrimSpace\<close>: the white space of Unicode, each rune as its UTF-8 bytes.\<close>

definition space_texts :: "string list" where
  "space_texts = [
     [CHR 0x09], [CHR 0x0A], [CHR 0x0B], [CHR 0x0C], [CHR 0x0D], [CHR 0x20], [CHR 0xC2, CHR 0x85],
     [CHR 0xC2, CHR 0xA0], [CHR 0xE1, CHR 0x9A, CHR 0x80], [CHR 0xE2, CHR 0x80, CHR 0x80],
     [CHR 0xE2, CHR 0x80, CHR 0x81], [CHR 0xE2, CHR 0x80, CHR 0x82], [CHR 0xE2, CHR 0x80, CHR 0x83],
     [CHR 0xE2, CHR 0x80, CHR 0x84], [CHR 0xE2, CHR 0x80, CHR 0x85], [CHR 0xE2, CHR 0x80, CHR 0x86],
     [CHR 0xE2, CHR 0x80, CHR 0x87], [CHR 0xE2, CHR 0x80, CHR 0x88], [CHR 0xE2, CHR 0x80, CHR 0x89],
     [CHR 0xE2, CHR 0x80, CHR 0x8A], [CHR 0xE2, CHR 0x80, CHR 0xA8], [CHR 0xE2, CHR 0x80, CHR 0xA9],
     [CHR 0xE2, CHR 0x80, CHR 0xAF], [CHR 0xE2, CHR 0x81, CHR 0x9F], [CHR 0xE3, CHR 0x80, CHR 0x80]]"

fun strip_one :: "string list \<Rightarrow> string \<Rightarrow> string option" where
  "strip_one [] s = None"
| "strip_one (w # ws) s = (if w \<noteq> [] \<and> take (length w) s = w then Some (drop (length w) s) else strip_one ws s)"

lemma strip_one_shorter: "strip_one ws s = Some t \<Longrightarrow> length t < length s"
proof (induction ws)
  case (Cons w ws)
  show ?case
  proof (cases "w \<noteq> [] \<and> take (length w) s = w")
    case True
    then have "s \<noteq> []" by (cases s) auto
    then show ?thesis using Cons.prems True by auto
  qed (use Cons in \<open>auto split: if_splits\<close>)
qed simp

function trim_with :: "string list \<Rightarrow> string \<Rightarrow> string" where
  "trim_with ws s = (case strip_one ws s of None \<Rightarrow> s | Some t \<Rightarrow> trim_with ws t)"
  by pat_completeness auto
termination by (relation "measure (\<lambda>(_, s). length s)") (auto dest: strip_one_shorter)

declare trim_with.simps [simp del]

definition TrimSpace :: "string \<Rightarrow> string" where
  "TrimSpace s = rev (trim_with (map rev space_texts) (rev (trim_with space_texts s)))"

text \<open>\<open>strings.Split\<close> at one byte, and the cut at its last occurrence.\<close>

fun Split :: "char \<Rightarrow> string \<Rightarrow> string list" where
  "Split c [] = [[]]"
| "Split c (x # xs) = (if x = c then [] # Split c xs
     else (case Split c xs of [] \<Rightarrow> [[x]] | p # ps \<Rightarrow> (x # p) # ps))"

definition CutLast :: "char \<Rightarrow> string \<Rightarrow> (string \<times> string) option" where
  "CutLast c s = map_option (\<lambda>(b, a). (rev a, rev b)) (Cut c (rev s))"

text \<open>\<open>strings.ToLower\<close>: the letters of ASCII, and the two other runes whose lower case is in ASCII (a dotted capital I and
  the Kelvin sign). The remaining runes keep their bytes, which are outside ASCII before and after.\<close>

definition lower_char :: "char \<Rightarrow> char" where
  "lower_char c = (let k = of_char c :: nat in if 65 \<le> k \<and> k \<le> 90 then char_of (k + 32) else c)"

fun ToLower :: "string \<Rightarrow> string" where
  "ToLower (a # b # c # s) =
     (if a = CHR 0xC4 \<and> b = CHR 0xB0 then CHR ''i'' # ToLower (c # s)
      else if a = CHR 0xE2 \<and> b = CHR 0x84 \<and> c = CHR 0xAA then CHR ''k'' # ToLower s
      else lower_char a # ToLower (b # c # s))"
| "ToLower [a, b] = (if a = CHR 0xC4 \<and> b = CHR 0xB0 then ''i'' else [lower_char a, lower_char b])"
| "ToLower [a] = [lower_char a]"
| "ToLower [] = []"

lemma Split_not_Nil [simp]: "Split c s \<noteq> []"
  by (induction s) (auto split: list.splits)

lemma Split_append: "Split c (a @ c # b) = Split c a @ Split c b"
proof (induction a)
  case (Cons x a)
  then show ?case by (auto split: list.splits)
qed simp

lemma Split_plain: "c \<notin> set a \<Longrightarrow> Split c a = [a]"
  by (induction a) auto

section \<open>Addresses\<close>

datatype addr = V4 int | V6 int string

record prefix =
  pf_ip :: addr
  pf_bits :: nat

definition octet :: "string \<Rightarrow> int option" where
  "octet s = (if s = [] \<or> (length s > 1 \<and> hd s = CHR ''0'') then None
     else case parse_digits 0 s of None \<Rightarrow> None | Some n \<Rightarrow> if n > 255 then None else Some (int n))"

definition parseIPv4Fields :: "string \<Rightarrow> int option" where
  "parseIPv4Fields s = (case map octet (Split (CHR ''.'') s) of
     [Some a, Some b, Some c, Some d] \<Rightarrow> Some (((a * 256 + b) * 256 + c) * 256 + d)
   | _ \<Rightarrow> None)"

definition hex_of :: "char \<Rightarrow> int option" where
  "hex_of c = (let k = of_char c :: nat
     in if 48 \<le> k \<and> k \<le> 57 then Some (int k - 48) else if 97 \<le> k \<and> k \<le> 102 then Some (int k - 87)
        else if 65 \<le> k \<and> k \<le> 70 then Some (int k - 55) else None)"

definition hex_value :: "string \<Rightarrow> int" where
  "hex_value s = foldl (\<lambda>acc c. acc * 16 + the (hex_of c)) 0 s"

text \<open>
  The loop of \<open>parseIPv6\<close>: \<open>fuel\<close> counts the 16-bit fields there is still room for, \<open>gs\<close> are the fields read
  and \<open>el\<close> where the ellipsis stands among them. The result is the fields, the ellipsis and the text left over.
\<close>

fun parse_fields :: "nat \<Rightarrow> int list \<Rightarrow> nat option \<Rightarrow> string \<Rightarrow> (int list \<times> nat option \<times> string) option" where
  "parse_fields 0 gs el s = Some (gs, el, s)"
| "parse_fields (Suc room) gs el s =
     (let d = takeWhile (\<lambda>c. hex_of c \<noteq> None) s; r = dropWhile (\<lambda>c. hex_of c \<noteq> None) s
      in if d = [] \<or> length d > 4 then None
         else if r \<noteq> [] \<and> hd r = CHR ''.'' then
           (if el = None \<and> length gs \<noteq> 6 then None
            else if length gs > 6 then None
            else case parseIPv4Fields s of
              None \<Rightarrow> None
            | Some v \<Rightarrow> Some (gs @ [v div 65536, v mod 65536], el, []))
         else
           (let gs' = gs @ [hex_value d]
            in case r of
                 [] \<Rightarrow> Some (gs', el, [])
               | c # r1 \<Rightarrow>
                   if c \<noteq> CHR '':'' then None
                   else (case r1 of
                       [] \<Rightarrow> None
                     | c1 # r2 \<Rightarrow>
                         if c1 = CHR '':'' then
                           (if el \<noteq> None then None
                            else if r2 = [] then Some (gs', Some (length gs'), [])
                            else parse_fields room gs' (Some (length gs')) r2)
                         else parse_fields room gs' el r1)))"

definition fields_value :: "int list \<Rightarrow> int" where
  "fields_value gs = foldl (\<lambda>acc g. acc * 65536 + g) 0 gs"

definition parseIPv6 :: "string \<Rightarrow> addr option" where
  "parseIPv6 s =
     (let (a, zone) = (case Cut (CHR ''%'') s of None \<Rightarrow> (s, []) | Some (x, z) \<Rightarrow> (x, z))
      in if CHR ''%'' \<in> set s \<and> zone = [] then None
         else if a = ''::'' then Some (V6 0 zone)
         else
           (let lead = (take 2 a = ''::'')
            in case parse_fields 8 [] (if lead then Some 0 else None) (if lead then drop 2 a else a) of
                 None \<Rightarrow> None
               | Some (gs, el, rest) \<Rightarrow>
                   if rest \<noteq> [] then None
                   else (case el of
                       None \<Rightarrow> if length gs < 8 then None else Some (V6 (fields_value gs) zone)
                     | Some e \<Rightarrow>
                         if length gs < 8
                         then Some (V6 (fields_value (take e gs @ replicate (8 - length gs) 0 @ drop e gs)) zone)
                         else None)))"

definition ParseAddr :: "string \<Rightarrow> addr option" where
  "ParseAddr s = (case dropWhile (\<lambda>c. c \<notin> {CHR ''.'', CHR '':'', CHR ''%''}) s of
     [] \<Rightarrow> None
   | c # _ \<Rightarrow> if c = CHR ''.'' then map_option V4 (parseIPv4Fields s)
              else if c = CHR '':'' then parseIPv6 s else None)"

definition Unmap :: "addr \<Rightarrow> addr" where
  "Unmap a = (case a of V4 n \<Rightarrow> V4 n | V6 n z \<Rightarrow> if n div 2 ^ 32 = 0xFFFF then V4 (n mod 2 ^ 32) else V6 n z)"

subsection \<open>The text of an address\<close>

definition string4 :: "int \<Rightarrow> string" where
  "string4 n = Itoa (n div 2 ^ 24 mod 256) @ ''.'' @ Itoa (n div 2 ^ 16 mod 256) @ ''.''
     @ Itoa (n div 2 ^ 8 mod 256) @ ''.'' @ Itoa (n mod 256)"

definition lower_hex :: "int \<Rightarrow> char" where
  "lower_hex d = (if d < 10 then char_of (48 + nat d) else char_of (87 + nat d))"

definition appendHex :: "int \<Rightarrow> string" where
  "appendHex x = (if x \<ge> 0x1000 then [lower_hex (x div 0x1000)] else [])
     @ (if x \<ge> 0x100 then [lower_hex (x div 0x100 mod 16)] else [])
     @ (if x \<ge> 0x10 then [lower_hex (x div 0x10 mod 16)] else []) @ [lower_hex (x mod 16)]"

definition v6u16 :: "int \<Rightarrow> int list" where
  "v6u16 n = map (\<lambda>i. n div 2 ^ (16 * (7 - i)) mod 65536) [0..<8]"

text \<open>The first longest run of at least two zero fields, as its bounds.\<close>

definition zero_run :: "int list \<Rightarrow> (nat \<times> nat) option" where
  "zero_run gs = fold (\<lambda>i best.
       let l = length (takeWhile (\<lambda>g. g = 0) (drop i gs));
           b = (case best of None \<Rightarrow> 0 | Some (s, e) \<Rightarrow> e - s)
       in if l \<ge> 2 \<and> l > b then Some (i, i + l) else best) [0..<length gs] None"

fun join :: "string \<Rightarrow> string list \<Rightarrow> string" where
  "join sep [] = []"
| "join sep [x] = x"
| "join sep (x # y # xs) = x @ sep @ join sep (y # xs)"

definition string6 :: "int \<Rightarrow> string" where
  "string6 n = (let gs = v6u16 n in case zero_run gs of
       None \<Rightarrow> join '':'' (map appendHex gs)
     | Some (s, e) \<Rightarrow> join '':'' (map appendHex (take s gs)) @ ''::'' @ join '':'' (map appendHex (drop e gs)))"

definition with_zone :: "string \<Rightarrow> string \<Rightarrow> string" where
  "with_zone z t = (if z = [] then t else t @ ''%'' @ z)"

definition addr_String :: "addr \<Rightarrow> string" where
  "addr_String a = (case a of V4 n \<Rightarrow> string4 n
     | V6 n z \<Rightarrow> with_zone z (if n div 2 ^ 32 = 0xFFFF then ''::ffff:'' @ string4 (n mod 2 ^ 32) else string6 n))"

section \<open>Prefixes\<close>

definition BitLen :: "addr \<Rightarrow> nat" where
  "BitLen a = (case a of V4 _ \<Rightarrow> 32 | V6 _ _ \<Rightarrow> 128)"

definition ParsePrefix :: "string \<Rightarrow> prefix option" where
  "ParsePrefix s = (case CutLast (CHR ''/'') s of
     None \<Rightarrow> None
   | Some (a, bitsStr) \<Rightarrow> (case ParseAddr a of
       None \<Rightarrow> None
     | Some ip \<Rightarrow>
         if (case ip of V6 _ z \<Rightarrow> z \<noteq> [] | V4 _ \<Rightarrow> False) then None
         else if length bitsStr > 1 \<and> (hd bitsStr = CHR ''0'' \<or> digit_val (hd bitsStr) = None) then None
         else (case ParseInt bitsStr of
             None \<Rightarrow> None
           | Some bits \<Rightarrow> if bits < 0 \<or> bits > int (BitLen ip) then None
                          else Some \<lparr>pf_ip = ip, pf_bits = nat bits\<rparr>)))"

definition Masked :: "prefix \<Rightarrow> prefix" where
  "Masked p = (let k = 2 ^ (BitLen (pf_ip p) - pf_bits p)
     in p\<lparr>pf_ip := (case pf_ip p of V4 n \<Rightarrow> V4 (n div k * k) | V6 n _ \<Rightarrow> V6 (n div k * k) [])\<rparr>)"

definition Contains :: "prefix \<Rightarrow> addr \<Rightarrow> bool" where
  "Contains p ip = (let k = 2 ^ (BitLen (pf_ip p) - pf_bits p)
     in case (pf_ip p, ip) of
          (V4 m, V4 n) \<Rightarrow> n div k = m div k
        | (V6 m _, V6 n z) \<Rightarrow> z = [] \<and> n div k = m div k
        | _ \<Rightarrow> False)"

lemma Contains_Masked [simp]: "Contains (Masked p) ip = Contains p ip"
  by (auto simp: Contains_def Masked_def BitLen_def Let_def split: addr.splits)

section \<open>Host and port\<close>

text \<open>\<open>net.SplitHostPort\<close>; the result is the host.\<close>

definition SplitHostPort :: "string \<Rightarrow> string option" where
  "SplitHostPort hostport = (case CutLast (CHR '':'') hostport of
     None \<Rightarrow> None
   | Some (front, _) \<Rightarrow>
       if hd hostport = CHR ''['' then
         (case Cut (CHR '']'') hostport of
            None \<Rightarrow> None
          | Some (h, r) \<Rightarrow>
              if length h + 1 \<noteq> length front then None
              else if CHR ''['' \<in> set (tl hostport) \<or> CHR '']'' \<in> set r then None
              else Some (tl h))
       else if CHR '':'' \<in> set front \<or> CHR ''['' \<in> set hostport \<or> CHR '']'' \<in> set hostport then None
       else Some front)"

end
