(* ===== verification/Web_Requests.thy ===== *)
theory Web_Requests
  imports Net_Addr Web_Http
begin

text \<open>
  Requests and the server's configuration: \<open>gw/web/requests\<close> (methods, the client's address, the full URL),
  \<open>gw/web/serverconf.go\<close> and the checks of \<open>PrepareWebService\<close> in \<open>gw/framework/core_svc_web.go\<close>.

  A request is a record of what the packages read of \<open>http.Request\<close>. Its header has, per name, the lines in the order
  they arrived; \<open>Header.Get\<close> is the first. The body is what a read to its end yields, and whether that read ends in an
  error. The context carries the user session a gate attached, the lock names held, and whether it has ended.
\<close>

section \<open>Requests\<close>

record body =
  bd_data :: string
  bd_err :: bool

record 'ses hreq =
  hr_Method :: string
  hr_Header :: "string \<Rightarrow> string list"
  hr_RemoteAddr :: string
  hr_TLS :: bool
  hr_Host :: string
  hr_RequestURI :: string
  hr_ContentLength :: int
  hr_Body :: body
  hr_PathValue :: "string \<Rightarrow> string"
  hr_Session :: "'ses option"
  hr_Locks :: "string list option"
  hr_ctxEnded :: bool

definition Header_Get :: "'ses hreq \<Rightarrow> string \<Rightarrow> string" where
  "Header_Get r name = (case hr_Header r name of [] \<Rightarrow> [] | v # _ \<Rightarrow> v)"

definition HasBody :: "'ses hreq \<Rightarrow> bool" where
  "HasBody r \<longleftrightarrow> hr_Method r \<notin> {''GET'', ''HEAD'', ''OPTIONS''}"

definition IsSafeMethod :: "'ses hreq \<Rightarrow> bool" where
  "IsSafeMethod r \<longleftrightarrow> hr_Method r \<in> {''GET'', ''HEAD'', ''OPTIONS''}"

definition FullURL :: "'ses hreq \<Rightarrow> string" where
  "FullURL r =
     (let scheme = (if hr_TLS r then ''https''
                    else let p = Header_Get r ''X-Forwarded-Proto'' in if p = [] then ''http'' else p)
      in scheme @ ''://'' @ hr_Host r @ hr_RequestURI r)"

section \<open>The client's address\<close>

record ClientIPResolver =
  rs_trusted :: "prefix list"

fun parse_cidrs :: "string list \<Rightarrow> prefix list \<Rightarrow> (string, prefix list) result" where
  "parse_cidrs [] acc = Inr acc"
| "parse_cidrs (c # cs) acc = (case ParsePrefix (TrimSpace c) of
     None \<Rightarrow> Inl c | Some p \<Rightarrow> parse_cidrs cs (acc @ [Masked p]))"

definition NewClientIPResolver :: "string list \<Rightarrow> (string, ClientIPResolver) result" where
  "NewClientIPResolver cidrs = (case parse_cidrs cidrs [] of
     Inl e \<Rightarrow> Inl e | Inr ps \<Rightarrow> Inr \<lparr>rs_trusted = ps\<rparr>)"

definition TrustedCount :: "ClientIPResolver \<Rightarrow> int" where
  "TrustedCount rs = int (length (rs_trusted rs))"

definition isTrusted :: "ClientIPResolver \<Rightarrow> addr \<Rightarrow> bool" where
  "isTrusted rs ip = list_ex (\<lambda>p. Contains p (Unmap ip)) (rs_trusted rs)"

definition peerAddr :: "'ses hreq \<Rightarrow> string" where
  "peerAddr r =
     (let host = (case SplitHostPort (hr_RemoteAddr r) of None \<Rightarrow> hr_RemoteAddr r | Some h \<Rightarrow> h)
      in case ParseAddr host of Some ip \<Rightarrow> addr_String (Unmap ip) | None \<Rightarrow> host)"

text \<open>The walk over the forwarded entries, nearest first.\<close>

fun first_untrusted :: "ClientIPResolver \<Rightarrow> string list \<Rightarrow> string option" where
  "first_untrusted rs [] = None"
| "first_untrusted rs (p # ps) = (case ParseAddr (TrimSpace p) of
     None \<Rightarrow> first_untrusted rs ps
   | Some ip \<Rightarrow> if \<not> isTrusted rs ip then Some (addr_String (Unmap ip)) else first_untrusted rs ps)"

definition ClientIP :: "ClientIPResolver \<Rightarrow> 'ses hreq \<Rightarrow> string" where
  "ClientIP rs r =
     (let peer = peerAddr r
      in if rs_trusted rs = [] then peer
         else case ParseAddr peer of
           None \<Rightarrow> peer
         | Some peerIP \<Rightarrow>
             if \<not> isTrusted rs peerIP then peer
             else
               (let xff = Header_Get r ''X-Forwarded-For'';
                    found = (if xff \<noteq> [] then first_untrusted rs (rev (Split (CHR '','') xff)) else None);
                    xri = TrimSpace (Header_Get r ''X-Real-IP'')
                in case found of
                     Some a \<Rightarrow> a
                   | None \<Rightarrow>
                       if xri \<noteq> [] then (case ParseAddr xri of Some ip \<Rightarrow> addr_String (Unmap ip) | None \<Rightarrow> peer)
                       else peer))"

lemma first_untrusted_append:
  "first_untrusted rs (ps @ qs) = (case first_untrusted rs ps of Some a \<Rightarrow> Some a | None \<Rightarrow> first_untrusted rs qs)"
  by (induction ps) (auto split: option.splits)

lemma first_untrusted_hops:
  assumes "\<forall>p\<in>set hops. \<exists>ip. ParseAddr (TrimSpace p) = Some ip \<and> isTrusted rs ip"
  shows "first_untrusted rs hops = None"
  using assms by (induction hops) auto

section \<open>The server's configuration\<close>

record ServerConf =
  sc_Listen :: string
  sc_Host :: string
  sc_ReadHeaderTimeoutSecs :: int
  sc_ReadTimeoutSecs :: int
  sc_WriteTimeoutSecs :: int
  sc_IdleTimeoutSecs :: int
  sc_DrainTimeoutSecs :: int
  sc_MaxHeaderBytes :: int
  sc_TrustedProxyCIDRs :: "string list"

datatype server_conf_error =
    ListenUnset
  | HostUnset
  | ReadHeaderTimeoutUnset
  | ReadTimeoutUnset
  | WriteTimeoutUnset
  | IdleTimeoutUnset
  | DrainTimeoutUnset
  | MaxHeaderUnset
  | HeaderOverRead
  | BadProxyCIDR string
  | DrainOverTerminate

definition ServerConf_Validate :: "ServerConf \<Rightarrow> server_conf_error option" where
  "ServerConf_Validate c =
     (if sc_Listen c = [] then Some ListenUnset
      else if sc_Host c = [] then Some HostUnset
      else if sc_ReadHeaderTimeoutSecs c \<le> 0 then Some ReadHeaderTimeoutUnset
      else if sc_ReadTimeoutSecs c \<le> 0 then Some ReadTimeoutUnset
      else if sc_WriteTimeoutSecs c \<le> 0 then Some WriteTimeoutUnset
      else if sc_IdleTimeoutSecs c \<le> 0 then Some IdleTimeoutUnset
      else if sc_DrainTimeoutSecs c \<le> 0 then Some DrainTimeoutUnset
      else if sc_MaxHeaderBytes c \<le> 0 then Some MaxHeaderUnset
      else if sc_ReadHeaderTimeoutSecs c > sc_ReadTimeoutSecs c then Some HeaderOverRead
      else case NewClientIPResolver (sc_TrustedProxyCIDRs c) of Inl e \<Rightarrow> Some (BadProxyCIDR e) | Inr _ \<Rightarrow> None)"

definition conf_ClientIPResolver :: "ServerConf \<Rightarrow> ClientIPResolver" where
  "conf_ClientIPResolver c = (case NewClientIPResolver (sc_TrustedProxyCIDRs c) of
     Inr rs \<Rightarrow> rs | Inl _ \<Rightarrow> \<lparr>rs_trusted = []\<rparr>)"

definition secs :: "int \<Rightarrow> duration" where
  "secs n = i64 (n * time_Second)"

record 'h http_Server =
  hs_Addr :: string
  hs_Handler :: 'h
  hs_ReadHeaderTimeout :: duration
  hs_ReadTimeout :: duration
  hs_WriteTimeout :: duration
  hs_IdleTimeout :: duration
  hs_MaxHeaderBytes :: int

definition newHTTPServer :: "ServerConf \<Rightarrow> string \<Rightarrow> 'h \<Rightarrow> 'h http_Server" where
  "newHTTPServer c adr handler = \<lparr>hs_Addr = adr, hs_Handler = handler,
     hs_ReadHeaderTimeout = secs (sc_ReadHeaderTimeoutSecs c), hs_ReadTimeout = secs (sc_ReadTimeoutSecs c),
     hs_WriteTimeout = secs (sc_WriteTimeoutSecs c), hs_IdleTimeout = secs (sc_IdleTimeoutSecs c),
     hs_MaxHeaderBytes = sc_MaxHeaderBytes c\<rparr>"

definition drainTimeout :: "ServerConf \<Rightarrow> duration" where
  "drainTimeout c = secs (sc_DrainTimeoutSecs c)"

text \<open>The checks of \<open>PrepareWebService\<close> before it registers the service, with the resolver it leaves in the core.\<close>

definition prepare_web_checks :: "int \<Rightarrow> ServerConf \<Rightarrow> (server_conf_error, ClientIPResolver) result" where
  "prepare_web_checks svcTerminateTimeoutSecs conf = (case ServerConf_Validate conf of
     Some e \<Rightarrow> Inl e
   | None \<Rightarrow> if sc_DrainTimeoutSecs conf \<ge> svcTerminateTimeoutSecs then Inl DrainOverTerminate
             else Inr (conf_ClientIPResolver conf))"

end
