(* ===== verification/Web_Gates.thy ===== *)
theory Web_Gates
  imports Web_Requests Throttle_KVDB Locking Cookie_Sessions
begin

text \<open>
  The wrappers around handlers: \<open>gw/web/cors\<close>, the wrappers of \<open>gw/web/handlerwrappers\<close> (the user-session and CSRF
  wrappers for cookies are in \<open>Cookie_Sessions\<close>), and the composition of wrappers into routes (\<open>gw/web/routing\<close>).

  A handler takes the request, the response writer and the state the process shares, and returns or panics; a
  wrapper turns a handler into a handler or refuses when the routes are built. The writer has the header being
  prepared, the status and header once they are sent (later changes do not reach the client), and the bodies written.
  What a wrapper finds in the application's core (the limiter, the lock manager, the session manager) is an
  argument, absent when the application did not prepare it; whether a handle admits is read from the state per request.
\<close>

section \<open>Handlers and writers\<close>

record rwriter =
  rw_Header :: "string \<Rightarrow> string list"
  rw_Sent :: "(int \<times> (string \<Rightarrow> string list)) option"
  rw_Body :: "json list"

datatype hout = HReturned | HPanicked string

type_synonym ('ses, 's) handler = "'ses hreq \<Rightarrow> rwriter \<Rightarrow> 's \<Rightarrow> hout \<times> rwriter \<times> 's"

definition Header_Set :: "string \<Rightarrow> string \<Rightarrow> rwriter \<Rightarrow> rwriter" where
  "Header_Set name v w = w\<lparr>rw_Header := (rw_Header w)(name := [v])\<rparr>"

definition Header_Add :: "string \<Rightarrow> string \<Rightarrow> rwriter \<Rightarrow> rwriter" where
  "Header_Add name v w = w\<lparr>rw_Header := (rw_Header w)(name := rw_Header w name @ [v])\<rparr>"

definition WriteHeader :: "int \<Rightarrow> rwriter \<Rightarrow> rwriter" where
  "WriteHeader code w = (case rw_Sent w of None \<Rightarrow> w\<lparr>rw_Sent := Some (code, rw_Header w)\<rparr> | Some _ \<Rightarrow> w)"

definition SendJSON :: "http_response \<Rightarrow> rwriter \<Rightarrow> rwriter" where
  "SendJSON r w = (let w1 = WriteHeader (rs_status r) (Header_Set ''Content-Type'' ''application/json'' w)
     in w1\<lparr>rw_Body := rw_Body w1 @ [rs_body r]\<rparr>)"

definition refuse :: "int \<Rightarrow> gw_Error \<Rightarrow> rwriter \<Rightarrow> 's \<Rightarrow> hout \<times> rwriter \<times> 's" where
  "refuse code e w s = (HReturned, SendJSON (WriteErrorJSON code e) w, s)"

definition fresh_writer :: rwriter where
  "fresh_writer = \<lparr>rw_Header = (\<lambda>_. []), rw_Sent = None, rw_Body = []\<rparr>"

definition StatusNoContent :: int where "StatusNoContent = 204"
definition StatusConflict :: int where "StatusConflict = 409"
definition StatusRequestEntityTooLarge :: int where "StatusRequestEntityTooLarge = 413"
definition StatusTooManyRequests :: int where "StatusTooManyRequests = 429"

lemmas gate_status_defs = status_defs StatusNoContent_def StatusConflict_def StatusRequestEntityTooLarge_def
  StatusTooManyRequests_def StatusServiceUnavailable_def

datatype origin_error = NotAURL | NotAnOrigin | NotLowercase | DefaultPort

datatype cors_error =
    NoOrigin
  | StarNotAlone
  | BadOrigin string origin_error
  | OriginTwice string
  | MaxAgeUnset
  | NoMethods
  | BadMethod string
  | BadHeaderName string
  | NotAnObject
  | EmptyAccessKey
  | InAccessKey string cors_error
  | AccessKeyUnknown string

datatype wrap_error =
    CORSRefused cors_error
  | EmptyExtraOrigin
  | UnknownBucketGroup string
  | GroupProviderRequired
  | ProviderListsNoGroup
  | NoActionLocks string
  | NoSessionManager string

type_synonym ('ses, 's) wrapper = "('ses, 's) handler \<Rightarrow> (wrap_error, ('ses, 's) handler) result"

section \<open>Cross-origin reads\<close>

record url =
  u_Scheme :: string
  u_Host :: string
  u_Port :: string
  u_User :: bool
  u_Path :: string
  u_RawQuery :: string
  u_ForceQuery :: bool
  u_Fragment :: string

record CorsConf =
  AllowOrigins :: "string list"
  AccessControlMaxAgeSecs :: int

text \<open>\<open>url.Parse\<close> is an argument: a text gives its parts or an error.\<close>

type_synonym url_parser = "string \<Rightarrow> url option"

definition validateOrigin :: "url_parser \<Rightarrow> string \<Rightarrow> origin_error option" where
  "validateOrigin Parse o1 = (case Parse o1 of
     None \<Rightarrow> Some NotAURL
   | Some u \<Rightarrow>
       if (u_Scheme u \<noteq> ''http'' \<and> u_Scheme u \<noteq> ''https'') \<or> u_Host u = [] \<or> u_User u \<or> u_Path u \<noteq> [] \<or>
          u_RawQuery u \<noteq> [] \<or> u_ForceQuery u \<or> u_Fragment u \<noteq> [] then Some NotAnOrigin
       else if o1 \<noteq> ToLower (u_Scheme u @ ''://'' @ u_Host u) then Some NotLowercase
       else if (u_Scheme u = ''https'' \<and> u_Port u = ''443'') \<or> (u_Scheme u = ''http'' \<and> u_Port u = ''80'')
       then Some DefaultPort
       else None)"

fun validate_origins :: "url_parser \<Rightarrow> string set \<Rightarrow> string list \<Rightarrow> cors_error option" where
  "validate_origins Parse seen [] = None"
| "validate_origins Parse seen (o1 # os) = (case validateOrigin Parse o1 of
     Some e \<Rightarrow> Some (BadOrigin o1 e)
   | None \<Rightarrow> if o1 \<in> seen then Some (OriginTwice o1) else validate_origins Parse (insert o1 seen) os)"

definition CorsConf_Validate :: "url_parser \<Rightarrow> CorsConf \<Rightarrow> cors_error option" where
  "CorsConf_Validate Parse c =
     (if AllowOrigins c = [] then Some NoOrigin
      else case (if ''*'' \<in> set (AllowOrigins c)
                 then (if length (AllowOrigins c) > 1 then Some StarNotAlone else None)
                 else validate_origins Parse {} (AllowOrigins c)) of
        Some e \<Rightarrow> Some e
      | None \<Rightarrow> if AccessControlMaxAgeSecs c \<le> 0 then Some MaxAgeUnset else None)"

text \<open>A deployment's settings, with the keys in the order the loop visits them; \<open>None\<close> is a nil map.\<close>

fun validate_confs :: "url_parser \<Rightarrow> (string \<times> CorsConf) list \<Rightarrow> cors_error option" where
  "validate_confs Parse [] = None"
| "validate_confs Parse ((key, c) # cs) =
     (if key = [] then Some EmptyAccessKey
      else case CorsConf_Validate Parse c of
        Some e \<Rightarrow> Some (InAccessKey key e) | None \<Rightarrow> validate_confs Parse cs)"

definition Confs_Validate :: "url_parser \<Rightarrow> (string \<times> CorsConf) list option \<Rightarrow> cors_error option" where
  "Confs_Validate Parse cs = (case cs of None \<Rightarrow> Some NotAnObject | Some kcs \<Rightarrow> validate_confs Parse kcs)"

definition Confs_Conf :: "(string \<times> CorsConf) list \<Rightarrow> string \<Rightarrow> (cors_error, CorsConf) result" where
  "Confs_Conf cs key = (case map_of cs key of None \<Rightarrow> Inl (AccessKeyUnknown key) | Some c \<Rightarrow> Inr c)"

record Policy = CorsConf +
  AllowMethods :: "string list"
  AllowHeaders :: "string list"

definition Policy_Wrap :: "url_parser \<Rightarrow> Policy \<Rightarrow> ('ses, 's) wrapper" where
  "Policy_Wrap Parse p inner = (case CorsConf_Validate Parse (CorsConf.truncate p) of
     Some e \<Rightarrow> Inl (CORSRefused e)
   | None \<Rightarrow>
       if hd (AllowOrigins p) = ''*''
       then Inr (\<lambda>r w s. inner r (Header_Set ''Access-Control-Allow-Origin'' ''*'' w) s)
       else Inr (\<lambda>r w s.
         let w1 = Header_Add ''Vary'' ''Origin'' w;
             origin = Header_Get r ''Origin'';
             w2 = (if origin \<noteq> [] \<and> origin \<in> set (AllowOrigins p)
                   then Header_Set ''Access-Control-Allow-Origin'' origin w1 else w1)
         in inner r w2 s))"

definition isTokenByte :: "char \<Rightarrow> bool" where
  "isTokenByte c = (let k = of_char c :: nat
     in 97 \<le> k \<and> k \<le> 122 \<or> 65 \<le> k \<and> k \<le> 90 \<or> 48 \<le> k \<and> k \<le> 57 \<or>
        c \<in> set ''!#$%&*+-.^_|~'' \<or> k = 39 \<or> k = 96)"

definition isToken :: "string \<Rightarrow> bool" where
  "isToken s \<longleftrightarrow> s \<noteq> [] \<and> list_all isTokenByte s"

text \<open>The request headers a preflight asks for: the first that is not allowed, lowercased.\<close>

fun refused_header :: "string set \<Rightarrow> string list \<Rightarrow> string option" where
  "refused_header headers [] = None"
| "refused_header headers (n # ns) =
     (let name = ToLower (TrimSpace n)
      in if name = [] then refused_header headers ns
         else if name \<notin> headers then Some name else refused_header headers ns)"

definition PreflightHandler :: "url_parser \<Rightarrow> Policy \<Rightarrow> (cors_error, ('ses, 's) handler) result" where
  "PreflightHandler Parse p = (case CorsConf_Validate Parse (CorsConf.truncate p) of
     Some e \<Rightarrow> Inl e
   | None \<Rightarrow>
       if AllowMethods p = [] then Inl NoMethods
       else case List.find (\<lambda>m. m = ''*'' \<or> \<not> isToken m) (AllowMethods p) of
         Some m \<Rightarrow> Inl (BadMethod m)
       | None \<Rightarrow> (case List.find (\<lambda>h. h = ''*'' \<or> \<not> isToken h) (AllowHeaders p) of
           Some h \<Rightarrow> Inl (BadHeaderName h)
         | None \<Rightarrow>
             (let anyOrigin = (hd (AllowOrigins p) = ''*'');
                  headers = ToLower ` set (AllowHeaders p);
                  vary = (if anyOrigin then [] else ''Origin, '') @ ''Access-Control-Request-Method, Access-Control-Request-Headers''
              in Inr (\<lambda>r w s.
                let w1 = Header_Add ''Vary'' vary w;
                    origin = Header_Get r ''Origin'';
                    method = Header_Get r ''Access-Control-Request-Method''
                in if hr_Method r \<noteq> ''OPTIONS'' \<or> origin = [] \<or> method = [] then
                     (HReturned, SendJSON (WriteSimpleErrorJSON StatusBadRequest
                        ''cors: not a preflight request (OPTIONS with Origin and Access-Control-Request-Method)'') w1, s)
                   else if \<not> anyOrigin \<and> origin \<notin> set (AllowOrigins p) then
                     refuse StatusForbidden (WithDetail OriginNotAllowed (''origin: '' @ origin)) w1 s
                   else if method \<notin> set (AllowMethods p) \<and> method \<notin> {''GET'', ''HEAD'', ''POST''} then
                     (HReturned, SendJSON (WriteSimpleErrorJSON StatusForbidden (''cors: method not allowed: '' @ method)) w1, s)
                   else case refused_header headers (Split (CHR '','') (Header_Get r ''Access-Control-Request-Headers'')) of
                     Some name \<Rightarrow>
                       (HReturned, SendJSON (WriteSimpleErrorJSON StatusForbidden (''cors: request header not allowed: '' @ name)) w1, s)
                   | None \<Rightarrow>
                       (let w2 = Header_Set ''Access-Control-Allow-Origin'' (if anyOrigin then ''*'' else origin) w1;
                            w3 = Header_Set ''Access-Control-Allow-Methods'' (join '', '' (AllowMethods p)) w2;
                            w4 = (if join '', '' (AllowHeaders p) \<noteq> []
                                  then Header_Set ''Access-Control-Allow-Headers'' (join '', '' (AllowHeaders p)) w3 else w3);
                            w5 = Header_Set ''Access-Control-Max-Age'' (Itoa (AccessControlMaxAgeSecs p)) w4
                        in (HReturned, WriteHeader StatusNoContent w5, s))))))"

section \<open>The origin of a request, headers, bodies, panics\<close>

definition CheckOriginHeader_Wrap :: "string \<Rightarrow> string list \<Rightarrow> bool \<Rightarrow> ('ses, 's) wrapper" where
  "CheckOriginHeader_Wrap host extraOrigins strict inner =
     (if [] \<in> set extraOrigins then Inl EmptyExtraOrigin
      else Inr (\<lambda>r w s.
        if \<not> strict \<and> IsSafeMethod r then inner r w s
        else
          (let origin = Header_Get r ''Origin''
           in if origin = [] then refuse StatusForbidden (WithDetail OriginNotAllowed ''missing Origin header'') w s
              else if origin \<noteq> host \<and> origin \<notin> set extraOrigins
              then refuse StatusForbidden (WithDetail OriginNotAllowed (''origin: '' @ origin)) w s
              else inner r w s)))"

record SecurityHeaders =
  ContentTypeOptions :: string
  StrictTransport :: string
  ContentSecurityPolicy :: string
  FrameOptions :: string
  ReferrerPolicy :: string
  PermissionsPolicy :: string

definition set_if :: "string \<Rightarrow> string \<Rightarrow> rwriter \<Rightarrow> rwriter" where
  "set_if name v w = (if v \<noteq> [] then Header_Set name v w else w)"

definition SecurityHeaders_Wrap :: "SecurityHeaders \<Rightarrow> ('ses, 's) wrapper" where
  "SecurityHeaders_Wrap m inner = Inr (\<lambda>r w s.
     let w1 = set_if ''X-Content-Type-Options'' (ContentTypeOptions m) w;
         w2 = set_if ''Strict-Transport-Security'' (StrictTransport m) w1;
         w3 = set_if ''Content-Security-Policy'' (ContentSecurityPolicy m) w2;
         w4 = set_if ''X-Frame-Options'' (FrameOptions m) w3;
         w5 = set_if ''Referrer-Policy'' (ReferrerPolicy m) w4;
         w6 = set_if ''Permissions-Policy'' (PermissionsPolicy m) w5
     in inner r w6 s)"

text \<open>\<open>http.MaxBytesReader\<close>: a body that goes on past the limit is cut there and its reading ends in an error.\<close>

definition MaxBytesReader :: "int \<Rightarrow> body \<Rightarrow> body" where
  "MaxBytesReader n b = (if int (length (bd_data b)) > max 0 n then \<lparr>bd_data = take (nat n) (bd_data b), bd_err = True\<rparr> else b)"

definition BodyLimit_Wrap :: "int \<Rightarrow> ('ses, 's) wrapper" where
  "BodyLimit_Wrap limit inner = Inr (\<lambda>r w s.
     if hr_ContentLength r > limit then
       refuse StatusRequestEntityTooLarge (WithDetail ContentLengthTooLarge
         (''max '' @ Itoa limit @ '' < got '' @ Itoa (hr_ContentLength r) @ '' bytes'')) w s
     else inner (r\<lparr>hr_Body := MaxBytesReader limit (hr_Body r)\<rparr>) w s)"

definition RecoverPanic :: "('ses, 's) handler \<Rightarrow> ('ses, 's) handler" where
  "RecoverPanic inner r w s = (case inner r w s of
     (HPanicked p, w1, s1) \<Rightarrow> refuse StatusInternalServerError InternalError w1 s1
   | (HReturned, w1, s1) \<Rightarrow> (HReturned, w1, s1))"

section \<open>Throttling\<close>

datatype verdict = Verdict bool | NoVerdict | VerdictPanic string

text \<open>The interface \<open>throttle.Limiter\<close> over the shared state, its two implementations, and the handle: the
  limiter the application wired, if any, and whether it is admitted in a state.\<close>

record 's limiter =
  lm_HasGroup :: "'s \<Rightarrow> string \<Rightarrow> bool"
  lm_TryAdmit :: "string \<Rightarrow> string \<Rightarrow> time \<Rightarrow> 's \<Rightarrow> verdict \<times> 's"

record 's throttle_handle =
  th_svc :: "'s limiter option"
  th_admitted :: "'s \<Rightarrow> bool"

definition th_Get :: "'s throttle_handle \<Rightarrow> 's \<Rightarrow> 's limiter option" where
  "th_Get h s = (if th_admitted h s then th_svc h else None)"

definition inmem_limiter :: "(LimiterInMemBuckets \<times> 'x) limiter" where
  "inmem_limiter = \<lparr>lm_HasGroup = (\<lambda>s i. HasGroup (fst s) i),
     lm_TryAdmit = (\<lambda>groupID bucketID now s. case InMem_TryAdmit groupID bucketID now (fst s) of
         None \<Rightarrow> (VerdictPanic ''integer divide by zero'', s)
       | Some (v, l) \<Rightarrow> (Verdict v, (l, snd s)))\<rparr>"

definition kvdb_limiter :: "'st kvdb \<Rightarrow> (LimiterKVDBBuckets \<times> 'st) limiter" where
  "kvdb_limiter db = \<lparr>lm_HasGroup = (\<lambda>s i. KV_HasGroup (fst s) i),
     lm_TryAdmit = (\<lambda>groupID bucketID now s. case KV_TryAdmit db groupID bucketID now (fst s) (snd s) of
         (Inr v, l, st) \<Rightarrow> (Verdict v, (l, st))
       | (Inl AdmitPanic, l, st) \<Rightarrow> (VerdictPanic ''integer divide by zero'', (l, st))
       | (Inl _, l, st) \<Rightarrow> (NoVerdict, (l, st)))\<rparr>"

type_synonym 'ses key_provider = "'ses hreq \<Rightarrow> string option"

definition checkBucketGroups :: "'s throttle_handle \<Rightarrow> 's \<Rightarrow> string list \<Rightarrow> wrap_error option" where
  "checkBucketGroups h s groupIDs = (case th_svc h of
     None \<Rightarrow> None
   | Some lm \<Rightarrow> map_option UnknownBucketGroup (List.find (\<lambda>i. \<not> lm_HasGroup lm s i) groupIDs))"

text \<open>\<open>clk\<close> is the clock the request reads.\<close>

definition serveThrottled ::
    "('s \<Rightarrow> time) \<Rightarrow> 's throttle_handle \<Rightarrow> string \<Rightarrow> 'ses key_provider \<Rightarrow> ('ses, 's) handler \<Rightarrow> ('ses, 's) handler" where
  "serveThrottled clk h groupID keyProvider inner r w s = (case th_Get h s of
     None \<Rightarrow> refuse StatusServiceUnavailable (WithDetail ServiceUnavailable ''throttle'') w s
   | Some lm \<Rightarrow> (case keyProvider r of
       None \<Rightarrow> refuse StatusTooManyRequests (WithDetail RateLimited ''throttle key extraction failed'') w s
     | Some key \<Rightarrow> (case lm_TryAdmit lm groupID key (clk s) s of
         (VerdictPanic p, s1) \<Rightarrow> (HPanicked p, w, s1)
       | (NoVerdict, s1) \<Rightarrow> refuse StatusServiceUnavailable (WithDetail ServiceUnavailable ''throttle: no verdict'') w s1
       | (Verdict allowed, s1) \<Rightarrow> if \<not> allowed then refuse StatusTooManyRequests RateLimited w s1 else inner r w s1)))"

text \<open>\<open>s0\<close> is the state when the routes are built.\<close>

definition ThrottleFixedGroup_Wrap ::
    "('s \<Rightarrow> time) \<Rightarrow> 's throttle_handle \<Rightarrow> 's \<Rightarrow> string \<Rightarrow> 'ses key_provider \<Rightarrow> ('ses, 's) wrapper" where
  "ThrottleFixedGroup_Wrap clk h s0 groupID keyProvider inner = (case checkBucketGroups h s0 [groupID] of
     Some e \<Rightarrow> Inl e | None \<Rightarrow> Inr (serveThrottled clk h groupID keyProvider inner))"

record 'ses bucket_group_provider =
  BucketGroupIDs :: "string list"
  BucketGroupID :: "'ses hreq \<Rightarrow> string option"

definition ThrottleDynamicGroup_Wrap ::
    "('s \<Rightarrow> time) \<Rightarrow> 's throttle_handle \<Rightarrow> 's \<Rightarrow> 'ses bucket_group_provider option \<Rightarrow> 'ses key_provider \<Rightarrow> ('ses, 's) wrapper" where
  "ThrottleDynamicGroup_Wrap clk h s0 provider keyProvider inner = (case provider of
     None \<Rightarrow> Inl GroupProviderRequired
   | Some p \<Rightarrow>
       if BucketGroupIDs p = [] then Inl ProviderListsNoGroup
       else case checkBucketGroups h s0 (BucketGroupIDs p) of
         Some e \<Rightarrow> Inl e
       | None \<Rightarrow> Inr (\<lambda>r w s. case BucketGroupID p r of
             None \<Rightarrow> refuse StatusTooManyRequests (WithDetail RateLimited ''throttle bucket group selection failed'') w s
           | Some groupID \<Rightarrow>
               if groupID \<notin> set (BucketGroupIDs p) then
                 refuse StatusInternalServerError (WithDetail InternalError
                   (''throttle bucket group \"'' @ groupID @ ''\" not listed by its provider'')) w s
               else serveThrottled clk h groupID keyProvider inner r w s))"

definition IPThrottleKey :: "ClientIPResolver \<Rightarrow> 'ses key_provider" where
  "IPThrottleKey rs r = Some (ClientIP rs r)"

section \<open>Action locks\<close>

text \<open>The manager's \<open>AcquireDoReleaseAll\<close> on the writer and the state; \<open>None\<close> when the application prepared none. The
  writer and the memory around the manager are packed into the extension of the manager's record.\<close>

type_synonym 's locker =
  "bool \<Rightarrow> string list \<Rightarrow> (rwriter \<times> 's \<Rightarrow> fn_out \<times> rwriter \<times> 's) \<Rightarrow> rwriter \<times> 's \<Rightarrow> lock_result \<times> rwriter \<times> 's"

definition packed_locker ::
    "(bool \<Rightarrow> string list \<Rightarrow> ('m \<Rightarrow> fn_out \<times> 'm) \<Rightarrow> 'm \<Rightarrow> lock_result \<times> 'm) \<Rightarrow> (rwriter \<times> 's \<Rightarrow> 'm) \<Rightarrow> ('m \<Rightarrow> rwriter \<times> 's) \<Rightarrow> 's locker" where
  "packed_locker do_all pack unpack ended ns fn t =
     (case do_all ended ns (\<lambda>M. case fn (unpack M) of (out, t') \<Rightarrow> (out, pack t')) (pack t) of (res, M') \<Rightarrow> (res, unpack M'))"

definition local_locker :: "(ManagerLocal \<times> 'x) locker" where
  "local_locker = packed_locker local_AcquireDoReleaseAll (\<lambda>(w, m, x). ManagerLocal.extend m (w, x))
     (\<lambda>M. (fst (ManagerLocal.more M), ManagerLocal.truncate M, snd (ManagerLocal.more M)))"

definition kvdb_locker :: "'st kvdb \<Rightarrow> ((ManagerKVDB \<times> 'x) \<times> 'st) locker" where
  "kvdb_locker db = packed_locker (kv_do_all db) (\<lambda>(w, (m, x), st). (ManagerKVDB.extend m (w, x), st))
     (\<lambda>(M, st). (fst (ManagerKVDB.more M), (ManagerKVDB.truncate M, snd (ManagerKVDB.more M)), st))"

definition lock_go_error :: "lock_result \<Rightarrow> go_error" where
  "lock_go_error e = (case e of
     Locking.ActionLocked n \<Rightarrow> Structured (WithDetail Errs.ActionLocked n)
   | CtxEnded \<Rightarrow> Plain ''context canceled'' []
   | LedgerError k \<Rightarrow> kv_cause k
   | FnFailed t \<Rightarrow> Plain t []
   | _ \<Rightarrow> Plain [] [])"

definition requireActionLocks :: "'s locker option \<Rightarrow> string \<Rightarrow> wrap_error option" where
  "requireActionLocks mgr wrapper = (if mgr = None then Some (NoActionLocks wrapper) else None)"

definition runActionLocks :: "'s locker \<Rightarrow> string list \<Rightarrow> ('ses, 's) handler \<Rightarrow> ('ses, 's) handler" where
  "runActionLocks lockAll lockKeys inner r w s =
     (case lockAll (hr_ctxEnded r) lockKeys
             (\<lambda>(w, s). case inner (r\<lparr>hr_Locks := Some lockKeys\<rparr>) w s of
                (HReturned, t) \<Rightarrow> (FnOk, t) | (HPanicked p, t) \<Rightarrow> (FnPanic p, t)) (w, s) of
        (Done, w1, s1) \<Rightarrow> (HReturned, w1, s1)
      | (Panicked p, w1, s1) \<Rightarrow> (HPanicked p, w1, s1)
      | (e, w1, s1) \<Rightarrow> refuse StatusConflict (AsStructured (lock_go_error e) Errs.ActionLocked) w1 s1)"

text \<open>The actions with their targets, in the order the loop over the map visits them.\<close>

definition ActionLockPathOnly_Wrap :: "'s locker option \<Rightarrow> (string \<times> string) list \<Rightarrow> ('ses, 's) wrapper" where
  "ActionLockPathOnly_Wrap mgr actions inner = (case requireActionLocks mgr ''ActionLockPathOnly'' of
     Some e \<Rightarrow> Inl e
   | None \<Rightarrow> Inr (\<lambda>r w s.
       runActionLocks (the mgr) (map (\<lambda>(action, targetKey). action @ '':'' @ hr_PathValue r targetKey) actions) inner r w s))"

definition user_lock_keys :: "string \<Rightarrow> (string \<Rightarrow> string) \<Rightarrow> (string \<times> string) list \<Rightarrow> string list" where
  "user_lock_keys uidStr pathValue actions =
     map (\<lambda>(action, targetKey). action @ '':'' @ (if targetKey = ''AuthUID'' then uidStr else pathValue targetKey)) actions"

definition user_locked ::
    "('ses \<Rightarrow> string) \<Rightarrow> 's locker \<Rightarrow> (string \<times> string) list \<Rightarrow> ('ses, 's) handler \<Rightarrow> ('ses, 's) handler" where
  "user_locked UIDStr lockAll actions inner r w s =
     (if ''AuthUID'' \<in> snd ` set actions then
        (case hr_Session r of
           None \<Rightarrow> refuse StatusInternalServerError (WithDetail DataMissingInContext ''SessionData'') w s
         | Some sd \<Rightarrow> runActionLocks lockAll (user_lock_keys (UIDStr sd) (hr_PathValue r) actions) inner r w s)
      else runActionLocks lockAll (user_lock_keys [] (hr_PathValue r) actions) inner r w s)"

record 'uid BearerUserSessionData =
  bu_ID :: string
  bu_UIDStr :: string
  bu_UID :: 'uid
  bu_ClientID :: string
  bu_GroupName :: string

definition ActionLockBearerUser_Wrap ::
    "'s locker option \<Rightarrow> (string \<times> string) list \<Rightarrow> ('uid BearerUserSessionData, 's) wrapper" where
  "ActionLockBearerUser_Wrap mgr actions inner = (case requireActionLocks mgr ''ActionLockBearerUser'' of
     Some e \<Rightarrow> Inl e | None \<Rightarrow> Inr (user_locked bu_UIDStr (the mgr) actions inner))"

definition ActionLockCookieUser_Wrap ::
    "'s locker option \<Rightarrow> (string \<times> string) list \<Rightarrow> ('uid UserSessionData, 's) wrapper" where
  "ActionLockCookieUser_Wrap mgr actions inner = (case requireActionLocks mgr ''ActionLockCookieUser'' of
     Some e \<Rightarrow> Inl e | None \<Rightarrow> Inr (user_locked sd_UIDStr (the mgr) actions inner))"

section \<open>Session gates\<close>

definition ExtractBearerToken :: "string \<Rightarrow> string" where
  "ExtractBearerToken header =
     (if length header > 7 \<and> take 7 header = ''Bearer '' then drop 7 header else [])"

text \<open>The state the bearer gates read: whether the session service is admitted, its manager, and the store.\<close>

record ('st, 'lk, 'up) bearer_world =
  bw_admitted :: bool
  bw_mgr :: "('st, 'lk, 'up) SessionManager"
  bw_st :: 'st

definition allowedGroupsSet :: "('st, 'lk, 'up) SessionManager \<Rightarrow> string list \<Rightarrow> string set" where
  "allowedGroupsSet mgr allowedGroups = (if allowedGroups = [] then dom (sm_GroupConfs mgr) else set allowedGroups)"

definition BearerClient_Wrap ::
    "('st, 'lk, 'up) SessionManager option \<Rightarrow> string list \<Rightarrow> ('ses, 's) wrapper" where
  "BearerClient_Wrap bsm allowedGroups inner = (case bsm of
     None \<Rightarrow> Inl (NoSessionManager ''BearerClient'')
   | Some mgr \<Rightarrow> Inr (\<lambda>r w s.
       let clientID = Header_Get r ''Client-Id''
       in if clientID = [] then refuse StatusUnauthorized (WithDetail BearerClientNotFound ''missing Client-Id header'') w s
          else case sm_ClientConfs mgr clientID of
            None \<Rightarrow> refuse StatusUnauthorized (WithDetail BearerClientNotFound (''unknown client_id: '' @ clientID)) w s
          | Some clientConf \<Rightarrow>
              if grp_Name (cli_Group clientConf) \<notin> allowedGroupsSet mgr allowedGroups
              then refuse StatusForbidden (WithDetail BearerSessionGroupNotAllowed (grp_Name (cli_Group clientConf))) w s
              else inner r w s))"

definition BearerSession_Wrap ::
    "('st, 'lk, 'up) SessionManager option \<Rightarrow> ('ses, ('st, 'lk, 'up) bearer_world) wrapper" where
  "BearerSession_Wrap bsm inner = (case bsm of
     None \<Rightarrow> Inl (NoSessionManager ''BearerSession'')
   | Some _ \<Rightarrow> Inr (\<lambda>r w s.
       if \<not> bw_admitted s \<or> \<not> sm_enabled (bw_mgr s)
       then refuse StatusServiceUnavailable (WithDetail SessionServiceUnavailable ''bearer session'') w s
       else inner r w s))"

text \<open>\<open>H\<close> is the SHA-256 hash in hexadecimal; \<open>ParseUID\<close> is the application's.\<close>

definition BearerUserSession_Wrap ::
    "(string \<Rightarrow> string) \<Rightarrow> (string \<Rightarrow> (string, 'uid) result) \<Rightarrow> ('st, 'lk, 'up) SessionManager option \<Rightarrow> string list \<Rightarrow>
     ('uid BearerUserSessionData, ('st, 'lk, 'up) bearer_world) wrapper" where
  "BearerUserSession_Wrap H ParseUID bsm allowedGroups inner = (case bsm of
     None \<Rightarrow> Inl (NoSessionManager ''BearerUserSession'')
   | Some mgr0 \<Rightarrow> Inr (\<lambda>r w s.
       let mgr = bw_mgr s
       in if \<not> bw_admitted s \<or> \<not> sm_enabled mgr
          then refuse StatusServiceUnavailable (WithDetail SessionServiceUnavailable ''bearer user session'') w s
          else
            (let accessToken = ExtractBearerToken (Header_Get r ''Authorization'')
             in if accessToken = []
                then refuse StatusUnauthorized (WithDetail AccessTokenNotFound ''missing Authorization Bearer header'') w s
                else case GetValue (sm_KVDB mgr) (AccessTokenRowKey (sm_appName mgr) (H accessToken)) (bw_st s) of
                  (Inl err, st1) \<Rightarrow> refuse StatusInternalServerError (Wrap KVDB (kv_cause err)) w (s\<lparr>bw_st := st1\<rparr>)
                | (Inr None, st1) \<Rightarrow> refuse StatusUnauthorized AccessTokenNotFound w (s\<lparr>bw_st := st1\<rparr>)
                | (Inr (Some sid), st1) \<Rightarrow>
                    (case FetchSession mgr sid st1 of
                       (Inl err, st2) \<Rightarrow>
                         refuse StatusInternalServerError (kvdb_failed ''fetching session row'' err) w (s\<lparr>bw_st := st2\<rparr>)
                     | (Inr None, st2) \<Rightarrow> refuse StatusUnauthorized BearerSessionNotFound w (s\<lparr>bw_st := st2\<rparr>)
                     | (Inr (Some row), st2) \<Rightarrow>
                         (let s2 = s\<lparr>bw_st := st2\<rparr>
                          in if row_UID row = []
                             then refuse StatusForbidden (WithDetail BearerSessionShapeMismatch ''user-bound required'') w s2
                             else if row_GroupName row \<notin> allowedGroupsSet mgr0 allowedGroups
                             then refuse StatusForbidden (WithDetail BearerSessionGroupNotAllowed (row_GroupName row)) w s2
                             else case ParseUID (row_UID row) of
                               Inl e \<Rightarrow> refuse StatusInternalServerError
                                 (WithCause (WithDetail KVDB ''parse uid'') (Some (Plain e []))) w s2
                             | Inr uid \<Rightarrow>
                                 inner (r\<lparr>hr_Session := Some \<lparr>bu_ID = sid, bu_UIDStr = row_UID row, bu_UID = uid,
                                   bu_ClientID = row_ClientID row, bu_GroupName = row_GroupName row\<rparr>\<rparr>) w s2)))))"

record ('st, 'lk, 'up) cookie_world =
  cw_admitted :: bool
  cw_mgr :: "('st, 'lk, 'up) CookieManager"
  cw_st :: 'st

definition CookieSession_Wrap ::
    "('st, 'lk, 'up) CookieManager option \<Rightarrow> ('ses, ('st, 'lk, 'up) cookie_world) wrapper" where
  "CookieSession_Wrap csm inner = (case csm of
     None \<Rightarrow> Inl (NoSessionManager ''CookieSession'')
   | Some _ \<Rightarrow> Inr (\<lambda>r w s.
       if \<not> cw_admitted s \<or> \<not> cm_enabled (cw_mgr s)
       then refuse StatusServiceUnavailable (WithDetail SessionServiceUnavailable ''cookie session'') w s
       else inner r w s))"

section \<open>Routes\<close>

text \<open>
  A route table as the application declares it: routes, and groups of declarations under a prefix and a list
  of wrappers. Registering a route wraps its handler and puts it into the mux under its full pattern, or panics
  (\<open>Inl\<close>). \<open>http.ServeMux\<close> is the list of what was registered; it refuses some patterns itself, which the argument
  \<open>accepts\<close> decides.
\<close>

datatype route_panic = EmptySegment string | WrapFailed string wrap_error | MuxRefused string

datatype ('ses, 's) decl =
    Route string "('ses, 's) handler" "('ses, 's) wrapper list"
  | Group string "('ses, 's) decl list" "('ses, 's) wrapper list"

type_synonym ('ses, 's) mux = "(string \<times> ('ses, 's) handler) list"

definition wrap_all :: "('ses, 's) wrapper list \<Rightarrow> ('ses, 's) handler \<Rightarrow> (wrap_error, ('ses, 's) handler) result" where
  "wrap_all ws h = foldr (\<lambda>wrap acc. case acc of Inl e \<Rightarrow> Inl e | Inr g \<Rightarrow> wrap g) ws (Inr h)"

definition BaseRouter_Handle ::
    "(string \<Rightarrow> ('ses, 's) mux \<Rightarrow> bool) \<Rightarrow> string \<Rightarrow> ('ses, 's) handler \<Rightarrow> ('ses, 's) wrapper list \<Rightarrow> ('ses, 's) mux \<Rightarrow>
     (route_panic, ('ses, 's) mux) result" where
  "BaseRouter_Handle accepts pattern h ws m = (case wrap_all ws h of
     Inl e \<Rightarrow> Inl (WrapFailed pattern e)
   | Inr g \<Rightarrow> if accepts pattern m then Inr (m @ [(pattern, g)]) else Inl (MuxRefused pattern))"

definition full_pattern :: "string \<Rightarrow> string \<Rightarrow> string" where
  "full_pattern prefix subpattern = (case Cut (CHR '' '') subpattern of
     Some (method, subpath) \<Rightarrow> method @ '' '' @ prefix @ subpath
   | None \<Rightarrow> prefix @ subpattern)"

fun double_slash :: "string \<Rightarrow> bool" where
  "double_slash (a # b # s) \<longleftrightarrow> a = CHR ''/'' \<and> b = CHR ''/'' \<or> double_slash (b # s)"
| "double_slash _ \<longleftrightarrow> False"

definition RouteGroup_Handle ::
    "(string \<Rightarrow> ('ses, 's) mux \<Rightarrow> bool) \<Rightarrow> string \<Rightarrow> ('ses, 's) wrapper list \<Rightarrow> string \<Rightarrow> ('ses, 's) handler \<Rightarrow> ('ses, 's) wrapper list \<Rightarrow>
     ('ses, 's) mux \<Rightarrow> (route_panic, ('ses, 's) mux) result" where
  "RouteGroup_Handle accepts prefix groupWrappers subpattern h ws m =
     (let fullPattern = full_pattern prefix subpattern
      in if double_slash fullPattern then Inl (EmptySegment fullPattern)
         else case wrap_all ws h of
           Inl e \<Rightarrow> Inl (WrapFailed fullPattern e)
         | Inr g \<Rightarrow> (case wrap_all groupWrappers g of
             Inl e \<Rightarrow> Inl (WrapFailed fullPattern e)
           | Inr g2 \<Rightarrow> BaseRouter_Handle accepts fullPattern g2 [] m))"

text \<open>A group's declarations, run by \<open>batch\<close>; a subgroup owns a list of the group's wrappers and its own.\<close>

fun group_decls and group_decl where
  "group_decls accepts prefix gws [] m = Inr m"
| "group_decls accepts prefix gws (d # ds) m =
     (case group_decl accepts prefix gws d m of Inl e \<Rightarrow> Inl e | Inr m1 \<Rightarrow> group_decls accepts prefix gws ds m1)"
| "group_decl accepts prefix gws (Route sub h ws) m = RouteGroup_Handle accepts prefix gws sub h ws m"
| "group_decl accepts prefix gws (Group subPrefix ds ws) m = group_decls accepts (prefix @ subPrefix) (gws @ ws) ds m"

fun register :: "(string \<Rightarrow> ('ses, 's) mux \<Rightarrow> bool) \<Rightarrow> ('ses, 's) decl list \<Rightarrow> ('ses, 's) mux \<Rightarrow> (route_panic, ('ses, 's) mux) result" where
  "register accepts [] m = Inr m"
| "register accepts (Route pattern h ws # ds) m =
     (case BaseRouter_Handle accepts pattern h ws m of Inl e \<Rightarrow> Inl e | Inr m1 \<Rightarrow> register accepts ds m1)"
| "register accepts (Group prefix ds ws # rest) m =
     (case group_decls accepts prefix ws ds m of Inl e \<Rightarrow> Inl e | Inr m1 \<Rightarrow> register accepts rest m1)"

end
