(* ===== verification/Jwt_Assert.thy ===== *)
theory Jwt_Assert
  imports Web_Gates Cron
begin

text \<open>
  \<open>auth/jwtassert\<close>: machine clients that authenticate each request with a signed assertion bound to its method, target
  and body. Clients and their validation, the signer, the verifier, the two replay caches and the gate.

  The JWT library and JSON decoding are parameters (the record \<open>jwt_lib\<close>): \<open>jl_Parse\<close> is \<open>jwt.Parse\<close> with the options
  the verifier passes, \<open>jl_Sign\<close> signs claims with a key, and \<open>jl_kid\<close> and \<open>jl_iss\<close> are the members read from the decoded header and
  payload before verification. \<open>sha\<close> is SHA-256. Claims are a JSON object; their times are whole seconds. A verification reads
  the clock twice, when it parses (\<open>tp\<close>) and, after it has read the body, when it asks the replay cache (\<open>ta\<close>).
\<close>

section \<open>Clients\<close>

record 'pub JWK =
  jw_Kid :: string
  jw_Public :: "'pub option"

record 'pub Client =
  jc_Name :: string
  jc_ID :: string
  jc_Audience :: string
  jc_PublicKeyDir :: string
  jc_MaxAge :: int
  jc_ClockSkew :: int
  jc_MaxBodyBytes :: int
  jc_jwks :: "'pub JWK list"

datatype jwtassert_error =
    IDRequired
  | AudienceRequired
  | PublicKeyDirRequired
  | MaxAgeNotPositive
  | ClockSkewNegative
  | MaxBodyNotPositive
  | KeysUnreadable string
  | NoPublicKey string
  | NoClient
  | NoSigner
  | ClientNull string
  | InClient string jwtassert_error
  | SharedID string string string
  | ReplayCacheRequired
  | AppNameRequired
  | KVDBRequired
  | PrefixRequired
  | UnknownMode
  | KidRequired
  | KeyPathRequired
  | KeyUnreadable string

definition Client_Validate :: "'pub Client \<Rightarrow> jwtassert_error option" where
  "Client_Validate p =
     (if jc_ID p = [] then Some IDRequired
      else if jc_Audience p = [] then Some AudienceRequired
      else if jc_PublicKeyDir p = [] then Some PublicKeyDirRequired
      else if jc_MaxAge p \<le> 0 then Some MaxAgeNotPositive
      else if jc_ClockSkew p < 0 then Some ClockSkewNegative
      else if jc_MaxBodyBytes p \<le> 0 then Some MaxBodyNotPositive
      else None)"

text \<open>\<open>load\<close> reads a directory of public keys.\<close>

definition LoadKeys :: "(string \<Rightarrow> (string, 'pub JWK list) result) \<Rightarrow> 'pub Client \<Rightarrow> (jwtassert_error, 'pub Client) result" where
  "LoadKeys load p = (case load (jc_PublicKeyDir p) of
     Inl e \<Rightarrow> Inl (KeysUnreadable e)
   | Inr keys \<Rightarrow> if keys = [] then Inl (NoPublicKey (jc_PublicKeyDir p)) else Inr (p\<lparr>jc_jwks := keys\<rparr>))"

definition GetJWKByKID :: "'pub JWK list \<Rightarrow> string \<Rightarrow> 'pub JWK option" where
  "GetJWKByKID keys kid = List.find (\<lambda>k. jw_Kid k = kid) keys"

text \<open>What the file decodes to, in the order the loop visits it; a null entry is \<open>None\<close>.\<close>

fun check_clients :: "(string \<times> 'pub Client option) list \<Rightarrow> jwtassert_error option" where
  "check_clients [] = None"
| "check_clients ((name, c) # cs) = (case c of
     None \<Rightarrow> Some (ClientNull name)
   | Some p \<Rightarrow> (case Client_Validate p of Some e \<Rightarrow> Some (InClient name e) | None \<Rightarrow> check_clients cs))"

definition LoadClientConfs :: "(string \<times> 'pub Client option) list \<Rightarrow> jwtassert_error option" where
  "LoadClientConfs confs = (if confs = [] then Some NoClient else check_clients confs)"

type_synonym 'pub Verifier = "string \<rightharpoonup> 'pub Client"

fun add_verifier_clients ::
    "(string \<Rightarrow> (string, 'pub JWK list) result) \<Rightarrow> (string \<times> 'pub Client) list \<Rightarrow> 'pub Verifier \<Rightarrow> (jwtassert_error, 'pub Verifier) result" where
  "add_verifier_clients load [] byID = Inr byID"
| "add_verifier_clients load ((name, p0) # ps) byID =
     (let p = p0\<lparr>jc_Name := name\<rparr>
      in case Client_Validate p of
           Some e \<Rightarrow> Inl (InClient name e)
         | None \<Rightarrow> (case byID (jc_ID p) of
             Some other \<Rightarrow> Inl (SharedID (jc_Name other) name (jc_ID p))
           | None \<Rightarrow> (case LoadKeys load p of
               Inl e \<Rightarrow> Inl (InClient name e)
             | Inr p1 \<Rightarrow> add_verifier_clients load ps (byID(jc_ID p \<mapsto> p1)))))"

definition NewVerifier ::
    "(string \<Rightarrow> (string, 'pub JWK list) result) \<Rightarrow> (string \<times> 'pub Client) list \<Rightarrow> 'rc option \<Rightarrow> (jwtassert_error, 'pub Verifier \<times> 'rc) result" where
  "NewVerifier load clients replay = (case replay of
     None \<Rightarrow> Inl ReplayCacheRequired
   | Some rc \<Rightarrow> (case add_verifier_clients load clients Map.empty of Inl e \<Rightarrow> Inl e | Inr byID \<Rightarrow> Inr (byID, rc)))"

section \<open>Replay caches\<close>

text \<open>\<open>Admit\<close> at a time of the process's clock, on the state the cache lives in.\<close>

type_synonym 's replay_cache = "time \<Rightarrow> string \<Rightarrow> time \<Rightarrow> 's \<Rightarrow> (kv_error, bool) result \<times> 's"

record ReplayCacheInMemMap =
  ri_ids :: "(string \<rightharpoonup> time) option"
  ri_lastSweep :: time

definition NewReplayCacheInMemMap :: ReplayCacheInMemMap where
  "NewReplayCacheInMemMap = \<lparr>ri_ids = None, ri_lastSweep = time_zero\<rparr>"

definition time_Minute :: duration where "time_Minute = 60 * time_Second"

definition InMemMap_Admit :: "ReplayCacheInMemMap replay_cache" where
  "InMemMap_Admit now i until c0 =
     (let c = (case ri_ids c0 of None \<Rightarrow> \<lparr>ri_ids = Some Map.empty, ri_lastSweep = now\<rparr> | Some _ \<Rightarrow> c0);
          ids = (case ri_ids c of Some m \<Rightarrow> m | None \<Rightarrow> Map.empty)
      in if until < now then (Inr True, c)
         else if (case ids i of Some expiry \<Rightarrow> now < expiry | None \<Rightarrow> False) then (Inr False, c)
         else
           (let ids1 = ids(i \<mapsto> until)
            in if time_Sub now (ri_lastSweep c) \<ge> time_Minute
               then (Inr True, \<lparr>ri_ids = Some (\<lambda>k. case ids1 k of Some expiry \<Rightarrow> if \<not> now < expiry then None else Some expiry | None \<Rightarrow> None),
                      ri_lastSweep = now\<rparr>)
               else (Inr True, c\<lparr>ri_ids := Some ids1\<rparr>)))"

record 'st ReplayCacheKVDB =
  rk_kvdb :: "'st kvdb"
  rk_clock :: Clock
  rk_prefix :: string

definition NewReplayCacheKVDB :: "('st kvdb \<times> Clock) option \<Rightarrow> string \<Rightarrow> (jwtassert_error, 'st ReplayCacheKVDB) result" where
  "NewReplayCacheKVDB kvdb prefix = (case kvdb of
     None \<Rightarrow> Inl KVDBRequired
   | Some (db, clk) \<Rightarrow> if prefix = [] then Inl PrefixRequired else Inr \<lparr>rk_kvdb = db, rk_clock = clk, rk_prefix = prefix\<rparr>)"

definition KVDB_Admit :: "'st ReplayCacheKVDB \<Rightarrow> 'st replay_cache" where
  "KVDB_Admit c now i until st =
     (if \<not> until > now then (Inr True, st)
      else
        (let lifetime0 = time_Sub until now;
             lifetime = (if ReadDurationFrom (rk_clock c) now lifetime0 \<le> 0 then precision (rk_clock c) else lifetime0)
         in SetValueIfNotExists (rk_kvdb c) (rk_prefix c @ i) (Itoa (i64 until)) lifetime st))"

datatype 'st any_cache = InMemCache ReplayCacheInMemMap | KVDBCache "'st ReplayCacheKVDB"

definition NewReplayCache :: "string \<Rightarrow> Mode \<Rightarrow> ('st kvdb \<times> Clock) option \<Rightarrow> (jwtassert_error, 'st any_cache) result" where
  "NewReplayCache appName coordMode kvdb =
     (if appName = [] then Inl AppNameRequired
      else if coordMode = InProc then Inr (InMemCache NewReplayCacheInMemMap)
      else if coordMode = CrossProc then
        (if kvdb = None then Inl KVDBRequired
         else case NewReplayCacheKVDB kvdb (appName @ '':ar:'') of Inl e \<Rightarrow> Inl e | Inr c \<Rightarrow> Inr (KVDBCache c))
      else Inl UnknownMode)"

section \<open>Signing\<close>

type_synonym jclaims = "string \<rightharpoonup> json"

record ('priv, 'pub) jwt_lib =
  jl_kid :: "string \<Rightarrow> string option"
  jl_iss :: "string \<Rightarrow> string option"
  jl_Parse :: "'pub \<Rightarrow> string \<Rightarrow> string \<Rightarrow> duration \<Rightarrow> time \<Rightarrow> string \<Rightarrow> jclaims option"
  jl_Sign :: "'priv \<Rightarrow> string \<Rightarrow> jclaims \<Rightarrow> string option"

definition AuthScheme :: string where "AuthScheme = ''JWTAssert''"
definition ClaimHTTPMethod :: string where "ClaimHTTPMethod = ''htm''"
definition ClaimHTTPTarget :: string where "ClaimHTTPTarget = ''htu''"
definition ClaimBodyHash :: string where "ClaimBodyHash = ''body_hash''"

lemmas claim_names = ClaimHTTPMethod_def ClaimHTTPTarget_def ClaimBodyHash_def

record SignerConf =
  sg_Kid :: string
  sg_PrivateKeyPath :: string
  sg_Audience :: string
  sg_MaxAge :: int

definition SignerConf_Validate :: "SignerConf \<Rightarrow> jwtassert_error option" where
  "SignerConf_Validate c =
     (if sg_Kid c = [] then Some KidRequired
      else if sg_PrivateKeyPath c = [] then Some KeyPathRequired
      else if sg_Audience c = [] then Some AudienceRequired
      else if sg_MaxAge c \<le> 0 then Some MaxAgeNotPositive
      else None)"

fun check_signers :: "(string \<times> SignerConf option) list \<Rightarrow> jwtassert_error option" where
  "check_signers [] = None"
| "check_signers ((i, c) # cs) = (case c of
     None \<Rightarrow> Some (ClientNull i)
   | Some p \<Rightarrow> (case SignerConf_Validate p of Some e \<Rightarrow> Some (InClient i e) | None \<Rightarrow> check_signers cs))"

definition LoadSignerConfs :: "(string \<times> SignerConf option) list \<Rightarrow> jwtassert_error option" where
  "LoadSignerConfs confs = (if confs = [] then Some NoSigner else check_signers confs)"

record 'priv Signer =
  sn_ID :: string
  sn_Audience :: string
  sn_Kid :: string
  sn_PrivateKey :: 'priv
  sn_MaxAge :: duration

text \<open>\<open>readKey\<close> reads and parses a private key file.\<close>

definition NewSigner :: "(string \<Rightarrow> 'priv option) \<Rightarrow> SignerConf \<Rightarrow> string \<Rightarrow> (jwtassert_error, 'priv Signer) result" where
  "NewSigner readKey c i = (case readKey (sg_PrivateKeyPath c) of
     None \<Rightarrow> Inl (KeyUnreadable (sg_Kid c))
   | Some key \<Rightarrow> Inr \<lparr>sn_ID = i, sn_Audience = sg_Audience c, sn_Kid = sg_Kid c, sn_PrivateKey = key, sn_MaxAge = secs (sg_MaxAge c)\<rparr>)"

definition BodyHash :: "(string \<Rightarrow> string) \<Rightarrow> string \<Rightarrow> string" where
  "BodyHash sha body = RawURL_encode (sha body)"

definition Unix :: "time \<Rightarrow> int" where
  "Unix t = t div time_Second"

text \<open>The claims of an assertion at \<open>now\<close> with the generated id \<open>jti\<close>; a nil body is \<open>None\<close>.\<close>

definition sign_claims ::
    "(string \<Rightarrow> string) \<Rightarrow> 'priv Signer \<Rightarrow> time \<Rightarrow> string \<Rightarrow> string \<Rightarrow> string \<Rightarrow> string option \<Rightarrow> jclaims \<Rightarrow> jclaims" where
  "sign_claims sha s now jti method requestTarget body extra =
     (let c = extra(''iss'' \<mapsto> JString (sn_ID s), ''sub'' \<mapsto> JString (sn_ID s), ''aud'' \<mapsto> JString (sn_Audience s),
                ''iat'' \<mapsto> JInt (Unix now), ''exp'' \<mapsto> JInt (Unix (now + sn_MaxAge s)), ''jti'' \<mapsto> JString jti,
                ClaimHTTPMethod \<mapsto> JString method, ClaimHTTPTarget \<mapsto> JString requestTarget)
      in case body of Some b \<Rightarrow> c(ClaimBodyHash \<mapsto> JString (BodyHash sha b)) | None \<Rightarrow> c(ClaimBodyHash := None))"

definition Sign ::
    "(string \<Rightarrow> string) \<Rightarrow> ('priv, 'pub) jwt_lib \<Rightarrow> 'priv Signer \<Rightarrow> time \<Rightarrow> string \<Rightarrow> string \<Rightarrow> string \<Rightarrow> string option \<Rightarrow> jclaims \<Rightarrow> string option" where
  "Sign sha lib s now jti method requestTarget body extra =
     jl_Sign lib (sn_PrivateKey s) (sn_Kid s) (sign_claims sha s now jti method requestTarget body extra)"

definition AuthorizationValue :: "string \<Rightarrow> string" where
  "AuthorizationValue jws = AuthScheme @ '' '' @ jws"

definition SignRequest ::
    "(string \<Rightarrow> string) \<Rightarrow> ('priv, 'pub) jwt_lib \<Rightarrow> 'priv Signer \<Rightarrow> time \<Rightarrow> string \<Rightarrow> string \<Rightarrow> string \<Rightarrow> string option \<Rightarrow> jclaims \<Rightarrow> string option" where
  "SignRequest sha lib s now jti method requestTarget body extra =
     map_option AuthorizationValue (Sign sha lib s now jti method requestTarget body extra)"

section \<open>Verification\<close>

text \<open>\<open>strings.EqualFold\<close>: letters up to case, with the long s and the Kelvin sign, which fold to s and k.\<close>

fun fold_text :: "string \<Rightarrow> string" where
  "fold_text (a # b # c # s) =
     (if a = CHR 0xC5 \<and> b = CHR 0xBF then CHR ''s'' # fold_text (c # s)
      else if a = CHR 0xE2 \<and> b = CHR 0x84 \<and> c = CHR 0xAA then CHR ''k'' # fold_text s
      else lower_char a # fold_text (b # c # s))"
| "fold_text [a, b] = (if a = CHR 0xC5 \<and> b = CHR 0xBF then ''s'' else [lower_char a, lower_char b])"
| "fold_text [a] = [lower_char a]"
| "fold_text [] = []"

definition EqualFold :: "string \<Rightarrow> string \<Rightarrow> bool" where
  "EqualFold a b \<longleftrightarrow> fold_text a = fold_text b"

definition assertionFromHeader :: "'ses hreq \<Rightarrow> (gw_Error, string) result" where
  "assertionFromHeader r =
     (let header = Header_Get r ''Authorization''
      in if header = [] then Inl AssertionNotFound
         else case Cut (CHR '' '') header of
           None \<Rightarrow> Inl AssertionNotFound
         | Some (scheme, rest) \<Rightarrow>
             if \<not> EqualFold scheme AuthScheme then Inl AssertionNotFound
             else (let jws = TrimSpace rest in if jws = [] then Inl AssertionNotFound else Inr jws))"

definition SplitSignedJwtTokenRawParts :: "string \<Rightarrow> (string \<times> string \<times> string) option" where
  "SplitSignedJwtTokenRawParts signedToken = (case Split (CHR ''.'') signedToken of [h, p, sg] \<Rightarrow> Some (h, p, sg) | _ \<Rightarrow> None)"

definition DecodeJwtHeader :: "string \<Rightarrow> string option" where
  "DecodeJwtHeader headerEncoded = RawURL_decode headerEncoded"

text \<open>A member that is missing decodes to the empty string; \<open>None\<close> is a text that does not decode.\<close>

definition peekHeaderAndIssuer :: "('priv, 'pub) jwt_lib \<Rightarrow> string \<Rightarrow> (gw_Error, string \<times> string) result" where
  "peekHeaderAndIssuer lib jws = (case SplitSignedJwtTokenRawParts jws of
     None \<Rightarrow> Inl (WithDetail InvalidAssertion ''malformed'')
   | Some (encodedHeader, encodedPayload, _) \<Rightarrow> (case DecodeJwtHeader encodedHeader of
       None \<Rightarrow> Inl (WithDetail InvalidAssertion ''malformed header'')
     | Some headerBytes \<Rightarrow>
         if jl_kid lib headerBytes = None \<or> jl_kid lib headerBytes = Some [] then Inl (WithDetail InvalidAssertion ''kid required'')
         else (case DecodeJwtHeader encodedPayload of
             None \<Rightarrow> Inl (WithDetail InvalidAssertion ''malformed payload'')
           | Some payloadBytes \<Rightarrow>
               if jl_iss lib payloadBytes = None \<or> jl_iss lib payloadBytes = Some [] then Inl (WithDetail InvalidAssertion ''iss required'')
               else Inr (the (jl_kid lib headerBytes), the (jl_iss lib payloadBytes)))))"

definition claim_string :: "jclaims \<Rightarrow> string \<Rightarrow> string option" where
  "claim_string c k = (case c k of Some (JString t) \<Rightarrow> Some t | _ \<Rightarrow> None)"

text \<open>A numeric date; the library gives none for a claim that is absent, zero or no number.\<close>

definition claim_time :: "jclaims \<Rightarrow> string \<Rightarrow> time option" where
  "claim_time c k = (case c k of Some (JInt n) \<Rightarrow> if n = 0 then None else Some (n * time_Second) | _ \<Rightarrow> None)"

text \<open>\<open>io.LimitReader\<close> of one byte more than allowed, in 64 bits; the body is put back as it was read.\<close>

definition verifyBody :: "(string \<Rightarrow> string) \<Rightarrow> 'ses hreq \<Rightarrow> int \<Rightarrow> jclaims \<Rightarrow> (gw_Error, 'ses hreq) result" where
  "verifyBody sha r maxBytes claims =
     (let limit = i64 (maxBytes + 1); data = bd_data (hr_Body r);
          cut = (int (length data) \<ge> max 0 limit); b = (if cut then take (nat limit) data else data)
      in if \<not> cut \<and> bd_err (hr_Body r) then Inl (Wrap InvalidAssertion (Plain ''reading body'' []))
         else if int (length b) > maxBytes then Inl RequestBodyTooLarge
         else
           (let r1 = r\<lparr>hr_Body := \<lparr>bd_data = b, bd_err = False\<rparr>\<rparr>; claimed = claim_string claims ClaimBodyHash
            in if b = [] \<and> claimed = None then Inr r1
               else if b = [] then Inl (WithDetail InvalidAssertion ''body_hash without body'')
               else case claimed of
                 None \<Rightarrow> Inl (WithDetail InvalidAssertion ''body_hash required'')
               | Some h \<Rightarrow> if h \<noteq> BodyHash sha b then Inl (WithDetail InvalidAssertion ''body_hash mismatch'') else Inr r1))"

text \<open>The checks of the claims once the signature has been verified: the assertion's id and expiry.\<close>

definition check_claims :: "'pub Client \<Rightarrow> 'ses hreq \<Rightarrow> jclaims \<Rightarrow> (gw_Error, string \<times> time) result" where
  "check_claims client r claims =
     (case claim_time claims ''iat'' of
        None \<Rightarrow> Inl (WithDetail InvalidAssertion ''iat required'')
      | Some iat \<Rightarrow>
     (case claim_time claims ''exp'' of
        None \<Rightarrow> Inl (WithDetail InvalidAssertion ''exp required'')
      | Some exp \<Rightarrow>
          if time_Sub exp iat > secs (jc_MaxAge client) then Inl (WithDetail InvalidAssertion ''lifetime exceeds max_age'')
          else
     (case claim_string claims ''jti'' of
        None \<Rightarrow> Inl (WithDetail InvalidAssertion ''jti required'')
      | Some jti \<Rightarrow>
          if jti = [] then Inl (WithDetail InvalidAssertion ''jti required'')
          else if (case claim_string claims ClaimHTTPMethod of Some t \<Rightarrow> t | None \<Rightarrow> []) \<noteq> hr_Method r
          then Inl (WithDetail InvalidAssertion ''htm mismatch'')
          else if (case claim_string claims ClaimHTTPTarget of Some t \<Rightarrow> t | None \<Rightarrow> []) \<noteq> hr_RequestURI r
          then Inl (WithDetail InvalidAssertion ''htu mismatch'')
          else Inr (jti, exp))))"

text \<open>Everything \<open>VerifyRequest\<close> does before it asks the replay cache: the identity, the client, the request with its body
  put back, the id to remember and until when.\<close>

definition check_assertion ::
    "(string \<Rightarrow> string) \<Rightarrow> ('priv, 'pub) jwt_lib \<Rightarrow> 'pub Verifier \<Rightarrow> time \<Rightarrow> 'ses hreq \<Rightarrow>
     (gw_Error, VerifiedIdentity \<times> 'pub Client \<times> 'ses hreq \<times> string \<times> time) result" where
  "check_assertion sha lib v tp r =
     (case assertionFromHeader r of
        Inl e \<Rightarrow> Inl e
      | Inr jws \<Rightarrow>
     (case peekHeaderAndIssuer lib jws of
        Inl e \<Rightarrow> Inl e
      | Inr (kid, issuer) \<Rightarrow>
     (case v issuer of
        None \<Rightarrow> Inl (WithDetail AssertionClientUnknown issuer)
      | Some client \<Rightarrow>
     (case GetJWKByKID (jc_jwks client) kid of
        None \<Rightarrow> Inl (WithDetail InvalidAssertion (''unknown kid '' @ kid))
      | Some jwk \<Rightarrow>
     (case jw_Public jwk of
        None \<Rightarrow> Inl (Wrap InvalidAssertion (Plain ''key'' []))
      | Some pubKey \<Rightarrow>
     (case jl_Parse lib pubKey issuer (jc_Audience client) (secs (jc_ClockSkew client)) tp jws of
        None \<Rightarrow> Inl (Wrap InvalidAssertion (Plain ''jwt'' []))
      | Some claims \<Rightarrow>
     (case check_claims client r claims of
        Inl e \<Rightarrow> Inl e
      | Inr (jti, exp) \<Rightarrow>
     (case verifyBody sha r (jc_MaxBodyBytes client) claims of
        Inl e \<Rightarrow> Inl e
      | Inr r1 \<Rightarrow>
          Inr (\<lparr>id_Method = ''jwtassert'', id_Subject = jc_ID client, id_Claims = claims\<rparr>, client, r1,
               issuer @ [CHR 0x00] @ jti, exp + secs (jc_ClockSkew client))))))))))"

definition VerifyRequest ::
    "(string \<Rightarrow> string) \<Rightarrow> ('priv, 'pub) jwt_lib \<Rightarrow> 'pub Verifier \<Rightarrow> 's replay_cache \<Rightarrow> time \<Rightarrow> time \<Rightarrow> 'ses hreq \<Rightarrow> 's \<Rightarrow>
     (gw_Error, VerifiedIdentity \<times> 'pub Client \<times> 'ses hreq) result \<times> 's" where
  "VerifyRequest sha lib v Admit tp ta r s =
     (case check_assertion sha lib v tp r of
        Inl e \<Rightarrow> (Inl e, s)
      | Inr (identity, client, r1, key, until) \<Rightarrow>
     (case Admit ta key until s of
        (Inl err, s1) \<Rightarrow> (Inl (Wrap AssertionReplayUnknown (Plain ''jwtassert replay cache'' [kv_cause err])), s1)
      | (Inr admitted, s1) \<Rightarrow> (if \<not> admitted then Inl AssertionReplayed else Inr (identity, client, r1), s1)))"

text \<open>The gate; the identity is the value it leaves in the context, and \<open>clk\<close> gives the two readings of the clock.\<close>

definition Gate_Wrap ::
    "(string \<Rightarrow> string) \<Rightarrow> ('priv, 'pub) jwt_lib \<Rightarrow> ('pub Verifier \<times> 's replay_cache) option \<Rightarrow> ('s \<Rightarrow> time \<times> time) \<Rightarrow>
     (VerifiedIdentity, 's) handler \<Rightarrow> (string, (VerifiedIdentity, 's) handler) result" where
  "Gate_Wrap sha lib verifier clk inner = (case verifier of
     None \<Rightarrow> Inl ''jwtassert.Gate: Verifier required''
   | Some (v, Admit) \<Rightarrow> Inr (\<lambda>r w s.
       case VerifyRequest sha lib v Admit (fst (clk s)) (snd (clk s)) r s of
         (Inl e, s1) \<Rightarrow>
           refuse (if IsSameCode e RequestBodyTooLarge then StatusRequestEntityTooLarge
                   else if IsSameCode e AssertionReplayUnknown then StatusServiceUnavailable else StatusUnauthorized) e w s1
       | (Inr (identity, client, r1), s1) \<Rightarrow> inner (r1\<lparr>hr_Session := Some identity\<rparr>) w s1))"

end
