(* ===== verification/Web_Gates_Correct.thy ===== *)
theory Web_Gates_Correct
  imports Web_Gates Bearer_Correct
begin

text \<open>
  What the wrappers guarantee: who the client's address comes from, the rate behind a throttle, exclusion behind an
  action lock, who gets past the bearer gate, which answers let another origin read, and how routes are wrapped. The
  throttle and lock properties rest on the facts of the limiters and of the lock managers.
\<close>

section \<open>The client's address\<close>

lemma Split_join:
  "xs \<noteq> [] \<Longrightarrow> \<forall>x\<in>set xs. c \<notin> set x \<Longrightarrow> Split c (join [c] xs) = xs"
proof (induction "[c]" xs rule: join.induct)
  case (3 x y xs)
  then show ?case using Split_append [of c x "join [c] (y # xs)"] by (simp add: Split_plain)
qed (simp_all add: Split_plain)

text \<open>What the caller wrote stands before the entries the proxies appended.\<close>

definition forwarded :: "string option \<Rightarrow> string list \<Rightarrow> string" where
  "forwarded forged entries = (case forged of None \<Rightarrow> [] | Some f \<Rightarrow> f @ '','') @ join '','' entries"

lemma Split_forwarded:
  assumes "entries \<noteq> []" "\<forall>e\<in>set entries. CHR '','' \<notin> set e"
  shows "\<exists>fs. Split (CHR '','') (forwarded forged entries) = fs @ entries"
  using Split_join [OF assms] by (cases forged) (auto simp: forwarded_def Split_append)

definition hop_trusted :: "ClientIPResolver \<Rightarrow> string \<Rightarrow> bool" where
  "hop_trusted rs h = (case ParseAddr (TrimSpace h) of Some ip \<Rightarrow> isTrusted rs ip | None \<Rightarrow> False)"

lemma first_untrusted_trusted: "list_all (hop_trusted rs) hops \<Longrightarrow> first_untrusted rs hops = None"
  by (induction hops) (auto simp: hop_trusted_def split: option.splits)

definition peer_trusted :: "ClientIPResolver \<Rightarrow> 'ses hreq \<Rightarrow> bool" where
  "peer_trusted rs r = (case ParseAddr (peerAddr r) of Some ip \<Rightarrow> isTrusted rs ip | None \<Rightarrow> False)"

lemma ClientIP_direct: "\<not> peer_trusted rs r \<Longrightarrow> ClientIP rs r = peerAddr r"
  by (auto simp: ClientIP_def peer_trusted_def Let_def split: option.splits)

lemma peer_trusted_some: "peer_trusted rs r \<Longrightarrow> rs_trusted rs \<noteq> []"
  by (auto simp: peer_trusted_def isTrusted_def split: option.splits)

lemma ClientIP_forwarded:
  assumes "peer_trusted rs r" "Header_Get r ''X-Forwarded-For'' = xff" "xff \<noteq> []"
    and "first_untrusted rs (rev (Split (CHR '','') xff)) = Some a"
  shows "ClientIP rs r = a"
  using assms peer_trusted_some [OF assms(1)]
  by (auto simp: ClientIP_def peer_trusted_def Let_def split: option.splits)

lemma forwarded_not_Nil: "entries \<noteq> [] \<Longrightarrow> hd entries \<noteq> [] \<Longrightarrow> forwarded forged entries \<noteq> []"
  by (cases entries; cases "tl entries") (auto simp: forwarded_def split: option.splits)

lemma TrimSpace_Nil: "ParseAddr (TrimSpace s) = Some ip \<Longrightarrow> s \<noteq> []"
proof
  assume h: "ParseAddr (TrimSpace s) = Some ip" "s = []"
  have "TrimSpace [] = []" by code_simp
  moreover have "ParseAddr [] = None" by (simp add: ParseAddr_def)
  ultimately show False using h by simp
qed


definition plain_request :: "string \<Rightarrow> (string \<times> string) list \<Rightarrow> 'ses hreq" where
  "plain_request remote headers = \<lparr>hr_Method = ''POST'', hr_Header = (\<lambda>n. map snd (filter (\<lambda>(k, _). k = n) headers)),
     hr_RemoteAddr = remote, hr_TLS = True, hr_Host = ''app.example'', hr_RequestURI = ''/'', hr_ContentLength = 0,
     hr_Body = \<lparr>bd_data = [], bd_err = False\<rparr>, hr_PathValue = (\<lambda>_. []), hr_Session = None, hr_Locks = None, hr_ctxEnded = False\<rparr>"

definition sample_resolver :: ClientIPResolver where
  "sample_resolver = \<lparr>rs_trusted = [\<lparr>pf_ip = V4 167772160, pf_bits = 8\<rparr>]\<rparr>"

lemma sample_resolver_built: "NewClientIPResolver [''10.0.0.0/8''] = Inr sample_resolver"
  by code_simp


text \<open>
  The walk skips an entry it cannot read instead of stopping there. When a trusted proxy records the client in a form
  that is no plain address (with its port, or \<open>unknown\<close>), the address is taken from what the caller wrote.
\<close>

lemma unreadable_entry_lets_caller_choose:
  assumes "ParseAddr (TrimSpace client) = None" and "list_all (hop_trusted rs) hops"
    and "ParseAddr (TrimSpace chosen) = Some ip" and "\<not> isTrusted rs ip"
    and "list_all (\<lambda>e. CHR '','' \<notin> set e) (chosen # client # hops)"
    and "peer_trusted rs r" and "Header_Get r ''X-Forwarded-For'' = forwarded None (chosen # client # hops)"
  shows "ClientIP rs r = addr_String (Unmap ip)"
proof -
  have "\<forall>e\<in>set (chosen # client # hops). CHR '','' \<notin> set e" using assms(5) by (auto simp: list_all_iff)
  then have "Split (CHR '','') (forwarded None (chosen # client # hops)) = chosen # client # hops"
    using Split_join [of "chosen # client # hops" "CHR '',''"] by (simp add: forwarded_def)
  moreover have "list_all (hop_trusted rs) (rev hops)" using assms(2) by simp
  ultimately have "first_untrusted rs (rev (Split (CHR '','') (forwarded None (chosen # client # hops)))) = Some (addr_String (Unmap ip))"
    using assms(1,3,4) by (simp add: first_untrusted_append first_untrusted_trusted)
  moreover have "forwarded None (chosen # client # hops) \<noteq> []" using forwarded_not_Nil TrimSpace_Nil [OF assms(3)] by simp
  ultimately show ?thesis using ClientIP_forwarded [OF assms(6,7)] by simp
qed

section \<open>Throttling\<close>

text \<open>
  A history of requests and sweeps on the state of a process: its limiter, its clock and the rest, on which the
  handler works.
\<close>

datatype 'ses web_event = Request time "'ses hreq" | Sweep time

fun web_time :: "'ses web_event \<Rightarrow> time" where
  "web_time (Request t _) = t"
| "web_time (Sweep t) = t"

type_synonym 'y proc = "LimiterInMemBuckets \<times> time \<times> 'y"

definition proc_clock :: "'y proc \<Rightarrow> time" where
  "proc_clock s = fst (snd s)"

fun serve_run :: "('ses, 'y proc) handler \<Rightarrow> 'ses web_event list \<Rightarrow> 'y proc \<Rightarrow> 'y proc" where
  "serve_run h [] s = s"
| "serve_run h (Request t r # es) s = serve_run h es (snd (snd (h r fresh_writer (fst s, t, snd (snd s)))))"
| "serve_run h (Sweep t # es) s = serve_run h es (cleanup t (fst s), t, snd (snd s))"

text \<open>A measure of work that the inner handler adds at most one to, and only for requests attributed to \<open>a\<close>; the handler
  leaves the limiter alone.\<close>

definition works_for :: "('ses hreq \<Rightarrow> bool) \<Rightarrow> ('y \<Rightarrow> nat) \<Rightarrow> ('ses, 'y proc) handler \<Rightarrow> bool" where
  "works_for mine \<mu> inner \<longleftrightarrow> (\<forall>r w l t y. \<exists>out w' y'. inner r w (l, t, y) = (out, w', l, t, y') \<and>
     \<mu> y' \<le> \<mu> y + (if mine r then 1 else 0))"

lemma works_forD:
  "works_for mine \<mu> inner \<Longrightarrow> \<exists>out w' y'. inner r w (l, t, y) = (out, w', l, t, y') \<and> \<mu> y' \<le> \<mu> y + (if mine r then 1 else 0)"
  unfolding works_for_def by blast

lemma serveThrottled_inmem:
  assumes "limiter_inv l" and "th_svc h = Some inmem_limiter"
    and "works_for (\<lambda>r. kp r = Some a) \<mu> inner"
  shows "\<exists>out w' l' y'. serveThrottled proc_clock h gid kp inner r w (l, t, y) = (out, w', l', t, y') \<and>
    (l' = l \<and> \<mu> y' \<le> \<mu> y \<or>
     (\<exists>key v. kp r = Some key \<and> InMem_TryAdmit gid key t l = Some (v, l') \<and> \<mu> y' \<le> \<mu> y + (if v \<and> key = a then 1 else 0)))"
proof (cases "th_admitted h (l, t, y)")
  case False
  then show ?thesis by (simp add: serveThrottled_def th_Get_def refuse_def)
next
  case True
  show ?thesis
  proof (cases "kp r")
    case None
    then show ?thesis using True assms(2) by (simp add: serveThrottled_def th_Get_def refuse_def)
  next
    case (Some key)
    obtain v l' where v: "InMem_TryAdmit gid key t l = Some (v, l')" using InMem_TryAdmit_total [OF assms(1)] by blast
    obtain out w' y' where i: "inner r w (l', t, y) = (out, w', l', t, y')" "\<mu> y' \<le> \<mu> y + (if kp r = Some a then 1 else 0)"
      using works_forD [OF assms(3)] by blast
    have run: "serveThrottled proc_clock h gid kp inner r w (l, t, y) =
        (if v then inner r w (l', t, y) else refuse StatusTooManyRequests RateLimited w (l', t, y))"
      using True Some assms(2) v by (simp add: serveThrottled_def th_Get_def inmem_limiter_def proc_clock_def)
    show ?thesis
    proof (cases v)
      case True
      have m: "\<mu> y' \<le> \<mu> y + (if v \<and> key = a then 1 else 0)" using i(2) Some True by simp
      have "serveThrottled proc_clock h gid kp inner r w (l, t, y) = (out, w', l', t, y')" using run i(1) True by simp
      then show ?thesis using v Some m by blast
    next
      case False
      have "\<exists>w'. serveThrottled proc_clock h gid kp inner r w (l, t, y) = (HReturned, w', l', t, y)"
        using run False by (simp add: refuse_def)
      moreover have "\<mu> y \<le> \<mu> y + (if v \<and> key = a then 1 else 0)" by simp
      ultimately show ?thesis using v Some by blast
    qed
  qed
qed

text \<open>A history of requests is one of the limiter: every admission the handler ran on is among them.\<close>

lemma serve_run_events:
  assumes "th_svc h = Some inmem_limiter" and "works_for (\<lambda>r. kp r = Some a) \<mu> inner"
    and "limiter_inv (fst s)" and "sorted (t # map web_time es)" and "\<forall>e\<in>set es. web_time e \<le> t1"
  shows "\<exists>les n s'. lim_run gid a les (fst s) = Some (n, s') \<and>
    sorted (t # map event_time les) \<and> (\<forall>e\<in>set les. event_time e \<le> t1) \<and>
    \<mu> (snd (snd (serve_run (serveThrottled proc_clock h gid kp inner) es s))) \<le> \<mu> (snd (snd s)) + n"
  using assms(3-5)
proof (induction es arbitrary: s t)
  case Nil
  then show ?case by (intro exI [of _ "[]"] exI [of _ 0] exI [of _ "fst s"]) simp
next
  case (Cons e es)
  obtain l c y where s: "s = (l, c, y)" by (cases s)
  have inv: "limiter_inv l" using Cons.prems(1) s by simp
  show ?case
  proof (cases e)
    case (Request t' r)
    have le: "t \<le> t'" "t' \<le> t1" "sorted (t' # map web_time es)" "\<forall>e\<in>set es. web_time e \<le> t1" using Cons.prems Request by auto
    obtain out w' l' y' where r: "serveThrottled proc_clock h gid kp inner r fresh_writer (l, t', y) = (out, w', l', t', y')"
      and c: "l' = l \<and> \<mu> y' \<le> \<mu> y \<or>
        (\<exists>key v. kp r = Some key \<and> InMem_TryAdmit gid key t' l = Some (v, l') \<and> \<mu> y' \<le> \<mu> y + (if v \<and> key = a then 1 else 0))"
      using serveThrottled_inmem [OF inv assms(1,2)] by blast
    have "limiter_inv l'" using c inv limiter_inv_TryAdmit by blast
    then obtain les n s' where ih: "lim_run gid a les l' = Some (n, s')" "sorted (t' # map event_time les)"
        "\<forall>e\<in>set les. event_time e \<le> t1"
        "\<mu> (snd (snd (serve_run (serveThrottled proc_clock h gid kp inner) es (l', t', y')))) \<le> \<mu> y' + n"
      using Cons.IH [of "(l', t', y')" t'] le by auto
    from c show ?thesis
    proof
      assume "l' = l \<and> \<mu> y' \<le> \<mu> y"
      then show ?thesis using ih le r s Request
        by (intro exI [of _ les] exI [of _ n] exI [of _ s']) auto
    next
      assume "\<exists>key v. kp r = Some key \<and> InMem_TryAdmit gid key t' l = Some (v, l') \<and> \<mu> y' \<le> \<mu> y + (if v \<and> key = a then 1 else 0)"
      then obtain key v where "InMem_TryAdmit gid key t' l = Some (v, l')" "\<mu> y' \<le> \<mu> y + (if v \<and> key = a then 1 else 0)" by blast
      then show ?thesis using ih le r s Request
        by (intro exI [of _ "EAdmit gid key t' # les"] exI [of _ "if v \<and> key = a then n + 1 else n"] exI [of _ s']) auto
    qed
  next
    case (Sweep t')
    have le: "t \<le> t'" "t' \<le> t1" "sorted (t' # map web_time es)" "\<forall>e\<in>set es. web_time e \<le> t1" using Cons.prems Sweep by auto
    obtain les n s' where ih: "lim_run gid a les (cleanup t' l) = Some (n, s')" "sorted (t' # map event_time les)"
        "\<forall>e\<in>set les. event_time e \<le> t1"
        "\<mu> (snd (snd (serve_run (serveThrottled proc_clock h gid kp inner) es (cleanup t' l, t', y)))) \<le> \<mu> y + n"
      using Cons.IH [of "(cleanup t' l, t', y)" t'] le limiter_inv_cleanup [OF inv] by auto
    then show ?thesis using le s Sweep
      by (intro exI [of _ "ESweep t' # les"] exI [of _ n] exI [of _ s']) auto
  qed
qed


definition sample_throttle :: "nat proc" where
  "sample_throttle = (snd (SetBucketGroup ''login'' \<lparr>Burst = 2, Increment = 1, IncrPeriod = time_Second\<rparr>
     (NewLimiterInMemBucketsAs ''T'' (60 * time_Second) (60 * time_Second))), 0, 0)"

definition counting_handler :: "ClientIPResolver \<Rightarrow> string \<Rightarrow> (unit, nat proc) handler" where
  "counting_handler rs a r w s = (HReturned, w, fst s, fst (snd s), snd (snd s) + (if ClientIP rs r = a then 1 else 0))"

lemma sample_throttle_facts:
  "limiter_inv (fst sample_throttle)"
  "lim_groups (fst sample_throttle) ''login'' =
     Some \<lparr>grp_conf = \<lparr>Burst = 2, Increment = 1, IncrPeriod = time_Second\<rparr>, grp_buckets = (\<lambda>_. None)\<rparr>"
  "lim_cleanupOlderThan (fst sample_throttle) = 60 * time_Second"
proof -
  have "conf_ok \<lparr>Burst = 2, Increment = 1, IncrPeriod = time_Second\<rparr>" by (simp add: conf_ok_def time_Second_def)
  then show "limiter_inv (fst sample_throttle)" unfolding sample_throttle_def fst_conv
    by (intro limiter_inv_SetBucketGroup) (simp_all add: limiter_inv_def NewLimiterInMemBucketsAs_def)
qed (simp_all add: sample_throttle_def SetBucketGroup_def NewLimiterInMemBucketsAs_def lc_new_def)


section \<open>Action locks\<close>

text \<open>
  How a request behind locks on \<open>keys\<close> can end. Refused: the answer is a 409 that names the lock error, and nothing else
  happened. Or the handler ran, with every key held on top of what was held, what it wrote is the answer, and
  no key is held afterwards, also when it panicked.
\<close>

definition refused_409 :: "('s \<Rightarrow> string \<Rightarrow> bool) \<Rightarrow> ('s \<Rightarrow> 'x) \<Rightarrow> rwriter \<Rightarrow> 's \<Rightarrow> hout \<times> rwriter \<times> 's \<Rightarrow> bool" where
  "refused_409 held rest w s res \<longleftrightarrow> (case res of (out, w', s') \<Rightarrow>
     out = HReturned \<and> (\<forall>k. held s' k = held s k) \<and> rest s' = rest s \<and>
     (\<exists>answer. w' = SendJSON answer w \<and> answers_error answer StatusConflict Errs.ActionLocked))"

definition ran_locked ::
    "('s \<Rightarrow> string \<Rightarrow> bool) \<Rightarrow> ('s \<Rightarrow> 'x) \<Rightarrow> string list \<Rightarrow> ('ses, 's) handler \<Rightarrow> 'ses hreq \<Rightarrow> rwriter \<Rightarrow> 's \<Rightarrow> hout \<times> rwriter \<times> 's \<Rightarrow> bool" where
  "ran_locked held rest keys inner r w s res \<longleftrightarrow> (case res of (out, w', s') \<Rightarrow>
     \<not> hr_ctxEnded r \<and> distinct keys \<and> (\<forall>k\<in>set keys. \<not> held s k) \<and>
     (\<exists>s1 s2. (\<forall>k. held s1 k = (k \<in> set keys \<or> held s k)) \<and> rest s1 = rest s \<and>
        inner (r\<lparr>hr_Locks := Some keys\<rparr>) w s1 = (out, w', s2) \<and>
        (\<forall>k. held s' k = (k \<notin> set keys \<and> held s2 k)) \<and> rest s' = rest s2))"

text \<open>The contract of a lock manager on a request: \<open>lock_all_manager\<close> with the response writer passed along.\<close>

locale request_locks =
  fixes held :: "'s \<Rightarrow> string \<Rightarrow> bool" and rest :: "'s \<Rightarrow> 'x" and lockAll :: "'s locker"
  assumes ended: "lockAll True ns fn (w, s) = (CtxEnded, w, s)"
    and locked: "lockAll False ns fn (w, s) = (res, w', s') \<Longrightarrow>
      (\<forall>out. res \<noteq> fn_result out) \<and> w' = w \<and> (\<forall>k. held s' k = held s k) \<and> rest s' = rest s \<or>
      (\<exists>s1 out s2. distinct ns \<and> (\<forall>n\<in>set ns. \<not> held s n) \<and> (\<forall>k. held s1 k = (k \<in> set ns \<or> held s k)) \<and>
        rest s1 = rest s \<and> fn (w, s1) = (out, w', s2) \<and> res = fn_result out \<and>
        (\<forall>k. held s' k = (k \<notin> set ns \<and> held s2 k)) \<and> rest s' = rest s2)"
begin

lemma runActionLocks_refused:
  assumes "lockAll (hr_ctxEnded r) keys
      (\<lambda>(w, s). case inner (r\<lparr>hr_Locks := Some keys\<rparr>) w s of (HReturned, t) \<Rightarrow> (FnOk, t) | (HPanicked p, t) \<Rightarrow> (FnPanic p, t)) (w, s) = (res, w, s')"
    and "\<forall>out. res \<noteq> fn_result out" and "\<forall>k. held s' k = held s k" and "rest s' = rest s"
  shows "refused_409 held rest w s (runActionLocks lockAll keys inner r w s)"
proof -
  have "res \<noteq> Done" "\<nexists>p. res = Panicked p" using assms(2) fn_result.simps by metis+
  then have "runActionLocks lockAll keys inner r w s = refuse StatusConflict (AsStructured (lock_go_error res) Errs.ActionLocked) w s'"
    using assms(1) by (cases res) (simp_all add: runActionLocks_def)
  moreover have "answers_error (WriteErrorJSON StatusConflict (AsStructured (lock_go_error res) Errs.ActionLocked)) StatusConflict Errs.ActionLocked"
    by (cases res) (simp_all add: lock_go_error_def AsStructured_def kv_cause_def)
  ultimately show ?thesis using assms(3,4) by (auto simp: refused_409_def refuse_def)
qed

lemma runActionLocks_guards:
  "refused_409 held rest w s (runActionLocks lockAll keys inner r w s) \<or>
   ran_locked held rest keys inner r w s (runActionLocks lockAll keys inner r w s)"
proof -
  let ?fn = "\<lambda>(w, s). case inner (r\<lparr>hr_Locks := Some keys\<rparr>) w s of (HReturned, t) \<Rightarrow> (FnOk, t) | (HPanicked p, t) \<Rightarrow> (FnPanic p, t)"
  obtain res w' s' where run: "lockAll (hr_ctxEnded r) keys ?fn (w, s) = (res, w', s')"
    by (cases "lockAll (hr_ctxEnded r) keys ?fn (w, s)") auto
  have ended_no: "\<forall>out. CtxEnded \<noteq> fn_result out" by simp
  show ?thesis
  proof (cases "hr_ctxEnded r")
    case True
    then show ?thesis using runActionLocks_refused [of r keys inner w s res s'] run ended [of keys ?fn w s] ended_no by auto
  next
    case False
    consider "\<forall>out. res \<noteq> fn_result out" "w' = w" "\<forall>k. held s' k = held s k" "rest s' = rest s"
      | s1 out s2 where "distinct keys" "\<forall>n\<in>set keys. \<not> held s n" "\<forall>k. held s1 k = (k \<in> set keys \<or> held s k)"
        "rest s1 = rest s" "?fn (w, s1) = (out, w', s2)" "res = fn_result out"
        "\<forall>k. held s' k = (k \<notin> set keys \<and> held s2 k)" "rest s' = rest s2"
      using locked [of keys ?fn w s res w' s'] run by (simp add: False) blast
    then show ?thesis
    proof cases
      case 1 then show ?thesis using runActionLocks_refused [of r keys inner w s res s'] run by auto
    next
      case 2
      obtain h where h: "inner (r\<lparr>hr_Locks := Some keys\<rparr>) w s1 = (h, w', s2)" and o: "out = (case h of HReturned \<Rightarrow> FnOk | HPanicked p \<Rightarrow> FnPanic p)"
        using 2(5) by (auto split: prod.splits hout.splits)
      have "runActionLocks lockAll keys inner r w s = (h, w', s')"
        using run 2(6) o by (cases h) (simp_all add: runActionLocks_def)
      then show ?thesis using 2 h False by (auto simp: ran_locked_def)
    qed
  qed
qed

end

text \<open>A manager whose record carries the writer and the memory around it keeps that contract.\<close>

locale packed_locks = lock_all_manager holdsM restM do_all
  for holdsM :: "'m \<Rightarrow> string \<Rightarrow> bool" and restM :: "'m \<Rightarrow> rwriter \<times> 'x" and do_all +
  fixes pack :: "rwriter \<times> 's \<Rightarrow> 'm" and unpack :: "'m \<Rightarrow> rwriter \<times> 's"
    and held :: "'s \<Rightarrow> string \<Rightarrow> bool" and rest :: "'s \<Rightarrow> 'x"
  assumes unpack_pack: "unpack (pack t) = t"
    and holds_unpack: "holdsM M k = held (snd (unpack M)) k"
    and rest_unpack: "restM M = (fst (unpack M), rest (snd (unpack M)))"

sublocale packed_locks \<subseteq> request_locks held rest "packed_locker do_all pack unpack"
proof unfold_locales
  fix ns w s res w' s' and fn :: "rwriter \<times> 's \<Rightarrow> fn_out \<times> rwriter \<times> 's"
  let ?g = "\<lambda>M. case fn (unpack M) of (out, t') \<Rightarrow> (out, pack t')"
  show "packed_locker do_all pack unpack True ns fn (w, s) = (CtxEnded, w, s)"
    using ended_refused [of ns ?g "pack (w, s)"] by (simp add: packed_locker_def unpack_pack)
  assume run: "packed_locker do_all pack unpack False ns fn (w, s) = (res, w', s')"
  obtain M' where M: "do_all False ns ?g (pack (w, s)) = (res, M')" and u: "unpack M' = (w', s')"
    using run by (auto simp: packed_locker_def split: prod.splits)
  have laws: "holdsM (pack (w, s)) k = held s k" "restM (pack (w, s)) = (w, rest s)"
    "holdsM M' k = held s' k" "restM M' = (w', rest s')" for k
    using u by (simp_all add: holds_unpack rest_unpack unpack_pack)
  consider "\<forall>out. res \<noteq> fn_result out" "\<forall>k. held s' k = held s k" "(w', rest s') = (w, rest s)"
    | S1 where "distinct ns" "\<forall>n\<in>set ns. \<not> held s n" "\<forall>k. holdsM S1 k = (k \<in> set ns \<or> held s k)" "restM S1 = (w, rest s)"
      "res = fn_result (fst (?g S1))" "\<forall>k. held s' k = (k \<notin> set ns \<and> holdsM (snd (?g S1)) k)" "(w', rest s') = restM (snd (?g S1))"
    using refused_or_ran [OF M] unfolding laws by blast
  then show "(\<forall>out. res \<noteq> fn_result out) \<and> w' = w \<and> (\<forall>k. held s' k = held s k) \<and> rest s' = rest s \<or>
      (\<exists>s1 out s2. distinct ns \<and> (\<forall>n\<in>set ns. \<not> held s n) \<and> (\<forall>k. held s1 k = (k \<in> set ns \<or> held s k)) \<and>
        rest s1 = rest s \<and> fn (w, s1) = (out, w', s2) \<and> res = fn_result out \<and>
        (\<forall>k. held s' k = (k \<notin> set ns \<and> held s2 k)) \<and> rest s' = rest s2)"
  proof cases
    case 2
    obtain s1 where s1: "unpack S1 = (w, s1)" using 2(4) rest_unpack [of S1] by (cases "unpack S1") auto
    obtain out w2 s2 where f: "fn (w, s1) = (out, w2, s2)" by (cases "fn (w, s1)") auto
    have "?g S1 = (out, pack (w2, s2))" using s1 f by simp
    then show ?thesis using 2 s1 f holds_unpack [of S1] rest_unpack [of S1]
      by (intro disjI2 exI [of _ s1] exI [of _ out] exI [of _ s2]) (simp add: holds_unpack rest_unpack unpack_pack)
  qed auto
qed

definition local_held :: "ManagerLocal \<times> 'x \<Rightarrow> string \<Rightarrow> bool" where
  "local_held s n \<longleftrightarrow> ml_held (fst s) n \<noteq> None"

definition kvdb_held :: "(ManagerKVDB \<times> 'x) \<times> 'st \<Rightarrow> string \<Rightarrow> bool" where
  "kvdb_held s n \<longleftrightarrow> km_held (fst (fst s)) n \<noteq> None"

interpretation rll: packed_locks "\<lambda>m n. ml_held m n \<noteq> None" ManagerLocal.more local_AcquireDoReleaseAll
    "\<lambda>(w, m, x). ManagerLocal.extend m (w, x)"
    "\<lambda>M. (fst (ManagerLocal.more M), ManagerLocal.truncate M, snd (ManagerLocal.more M))" local_held snd
  by unfold_locales (auto simp: ManagerLocal.defs local_held_def)

interpretation rlk: packed_locks "\<lambda>s n. km_held (fst s) n \<noteq> None" "\<lambda>s. ManagerKVDB.more (fst s)" "kv_do_all db"
    "\<lambda>(w, (m, x), st). (ManagerKVDB.extend m (w, x), st)"
    "\<lambda>(M, st). (fst (ManagerKVDB.more M), (ManagerKVDB.truncate M, snd (ManagerKVDB.more M)), st)" kvdb_held "\<lambda>s. snd (fst s)"
    for db
  by unfold_locales (auto simp: ManagerKVDB.defs kvdb_held_def)


definition locked_request :: "'ses \<Rightarrow> 'ses hreq" where
  "locked_request ses = (plain_request ''198.51.100.4:5000'' [])\<lparr>hr_Session := Some ses, hr_PathValue := (\<lambda>_. ''7'')\<rparr>"

definition edit_actions :: "(string \<times> string) list" where
  "edit_actions = [(''edit'', ''id''), (''profile'', ''AuthUID'')]"


section \<open>The bearer gate\<close>

definition with_session :: "string \<Rightarrow> SessionRow \<Rightarrow> 'uid \<Rightarrow> 'uid BearerUserSessionData hreq \<Rightarrow> 'uid BearerUserSessionData hreq" where
  "with_session sid row uid r = r\<lparr>hr_Session := Some \<lparr>bu_ID = sid, bu_UIDStr = row_UID row, bu_UID = uid,
     bu_ClientID = row_ClientID row, bu_GroupName = row_GroupName row\<rparr>\<rparr>"

text \<open>The gate in terms of the manager's lookup: what it does once the two reads have returned.\<close>

lemma BearerUserSession_reads:
  assumes "BearerUserSession_Wrap H ParseUID (Some mgr0) allowed inner = Inr served"
    and "bw_admitted s" "sm_enabled (bw_mgr s)" "ExtractBearerToken (Header_Get r ''Authorization'') = tok" "tok \<noteq> []"
    and "GetValue (sm_KVDB (bw_mgr s)) (AccessTokenRowKey (sm_appName (bw_mgr s)) (H tok)) (bw_st s) = (Inr (Some sid), st1)"
    and "FetchSession (bw_mgr s) sid st1 = (Inr (Some row), st2)"
    and "row_UID row \<noteq> []" "row_GroupName row \<in> allowedGroupsSet mgr0 allowed" "ParseUID (row_UID row) = Inr uid"
  shows "served r w s = inner (with_session sid row uid r) w (s\<lparr>bw_st := st2\<rparr>)"
  using assms by (auto simp: BearerUserSession_Wrap_def with_session_def Let_def)

text \<open>Every other course of the gate is a refusal.\<close>

lemma BearerUserSession_cases:
  assumes "BearerUserSession_Wrap H ParseUID (Some mgr0) allowed inner = Inr served"
  shows "(\<exists>code e st'. served r w s = refuse code e w (s\<lparr>bw_st := st'\<rparr>) \<and> code \<in> {401, 403, 500, 503}) \<or>
    (\<exists>sid st1 row st2 uid. bw_admitted s \<and> sm_enabled (bw_mgr s) \<and> ExtractBearerToken (Header_Get r ''Authorization'') \<noteq> [] \<and>
      GetValue (sm_KVDB (bw_mgr s)) (AccessTokenRowKey (sm_appName (bw_mgr s)) (H (ExtractBearerToken (Header_Get r ''Authorization'')))) (bw_st s)
        = (Inr (Some sid), st1) \<and> FetchSession (bw_mgr s) sid st1 = (Inr (Some row), st2) \<and>
      row_UID row \<noteq> [] \<and> row_GroupName row \<in> allowedGroupsSet mgr0 allowed \<and> ParseUID (row_UID row) = Inr uid \<and>
      served r w s = inner (with_session sid row uid r) w (s\<lparr>bw_st := st2\<rparr>))"
proof -
  let ?tok = "ExtractBearerToken (Header_Get r ''Authorization'')"
  have keep: "s = s\<lparr>bw_st := bw_st s\<rparr>" by simp
  have ref: ?thesis if "served r w s = refuse code e w (s\<lparr>bw_st := st'\<rparr>)" "code \<in> {401, 403, 500, 503}" for code e st'
    using that by blast
  have srv: "served = (\<lambda>r w s. case BearerUserSession_Wrap H ParseUID (Some mgr0) allowed inner of Inr h \<Rightarrow> h r w s)"
    using assms by simp
  show ?thesis
  proof (cases "bw_admitted s \<and> sm_enabled (bw_mgr s) \<and> ?tok \<noteq> []")
    case False
    then show ?thesis using ref [of StatusServiceUnavailable _ "bw_st s"] ref [of StatusUnauthorized _ "bw_st s"]
      unfolding srv by (auto simp: BearerUserSession_Wrap_def Let_def gate_status_defs split: if_splits)
  next
    case True
    obtain x st1 where g: "GetValue (sm_KVDB (bw_mgr s)) (AccessTokenRowKey (sm_appName (bw_mgr s)) (H ?tok)) (bw_st s) = (x, st1)" by fastforce
    consider e where "x = Inl e" | "x = Inr None" | sid where "x = Inr (Some sid)" by (metis old.sum.exhaust option.exhaust)
    then show ?thesis
    proof cases
      case (3 sid)
      obtain y st2 where f: "FetchSession (bw_mgr s) sid st1 = (y, st2)" by fastforce
      consider e where "y = Inl e" | "y = Inr None" | row where "y = Inr (Some row)" by (metis old.sum.exhaust option.exhaust)
      then show ?thesis
      proof cases
        case row: (3 row)
        show ?thesis
        proof (cases "row_UID row \<noteq> [] \<and> row_GroupName row \<in> allowedGroupsSet mgr0 allowed \<and> (\<exists>uid. ParseUID (row_UID row) = Inr uid)")
          case ok: True
          then obtain uid where "ParseUID (row_UID row) = Inr uid" by blast
          then show ?thesis using BearerUserSession_reads [OF assms _ _ refl, of s r sid st1 row st2 uid w] True g 3 f row ok by blast
        next
          case no: False
          then show ?thesis using True g 3 f row ref [of StatusForbidden _ st2] ref [of StatusInternalServerError _ st2]
            unfolding srv by (cases "ParseUID (row_UID row)") (auto simp: BearerUserSession_Wrap_def Let_def gate_status_defs split: if_splits)
        qed
      qed (use True g 3 f ref [of StatusUnauthorized _ st2] ref [of StatusInternalServerError _ st2] in
          \<open>simp_all add: srv BearerUserSession_Wrap_def Let_def gate_status_defs\<close>)
    qed (use True g ref [of StatusUnauthorized _ st1] ref [of StatusInternalServerError _ st1] in
        \<open>simp_all add: srv BearerUserSession_Wrap_def Let_def gate_status_defs\<close>)
  qed
qed

text \<open>The two reads of the gate find the session that was created.\<close>

lemma created_token_resolves:
  assumes store: "kvdb_store (sm_KVDB m) view env P"
    and ttl: "ttl_ok P (grp_AccessTTL grp)" "ttl_ok P (grp_RefreshTTL grp)" and now: "is_i64 now"
    and quiet: "undisturbed env (session_keys H (sm_appName m) sid at rt) sid"
    and new: "\<And>g vs. unlisted sid (CapBucketRowKey (sm_appName m) g vs) (view st0)"
    and run: "CreateSession H m now sid at rt grp binds st0 = (Inr issued, st)"
    and fetch: "FetchSessionByAccessToken H m at st = (Inr found, st2)"
    and t: "kv_clock (view st2) \<le> kv_clock (view st0) + min (grp_AccessTTL grp) (grp_RefreshTTL grp) * time_Second"
  shows "\<exists>st1. GetValue (sm_KVDB m) (AccessTokenRowKey (sm_appName m) (H at)) st = (Inr (Some sid), st1) \<and>
    FetchSession m sid st1 = (Inr (Some (created_row H grp binds at rt now)), st2)"
proof -
  let ?k = "AccessTokenRowKey (sm_appName m) (H at)"
  note c = kvdb_store.CreateSession_stores [OF store run refl ttl quiet new]
  have a: "holds (kv_clock (view st0) + grp_AccessTTL grp * time_Second) (view st) ?k (VStr sid)"
    using c(2) by (simp add: session_stored_def)
  have k: "?k \<in> session_keys H (sm_appName m) sid at rt" by (simp add: session_keys_def)
  obtain x st1 where g: "GetValue (sm_KVDB m) ?k st = (Inr x, st1)"
    "(case x of None \<Rightarrow> (Inr None, st1) | Some sid \<Rightarrow> FetchSession m sid st1) = (Inr found, st2)"
    using fetch by (auto simp: FetchSessionByAccessToken_def split: prod.splits sum.splits option.splits)
  have le: "kv_clock (view st2) \<le> kv_clock (view st0) + grp_AccessTTL grp * time_Second"
    "kv_clock (view st2) \<le> kv_clock (view st0) + grp_RefreshTTL grp * time_Second"
    using t by (auto simp: time_Second_def min_def split: if_splits)
  have found: "found = Some (created_row H grp binds at rt now)"
    by (rule kvdb_store.fetch_stored [OF store c(2) now quiet refl k a g le])
  obtain y where y: "x = Some y" using found g(2) by (cases x) auto
  have e1: "env (view st) (view st1)" and gx: "\<exists>mk. kv_get (view st1) ?k = Some (VStr y, mk)"
    using kvdb_store.GetValue_ok [OF store g(1)] y by auto
  have "kv_clock (view st1) \<le> kv_clock (view st2)"
    using undisturbedD(1) [OF quiet kvdb_store.FetchSession_ok(1) [OF store _ refl]] g(2) y by simp
  then have "kv_clock (view st1) \<le> kv_clock (view st0) + grp_AccessTTL grp * time_Second" using le(1) by linarith
  then have "\<exists>mk. kv_get (view st1) ?k = Some (VStr sid, mk)"
    by (rule holds_get [OF undisturbedD(2) [OF quiet e1 k a]])
  then have "y = sid" using gx by auto
  then show ?thesis using g found y by auto
qed

text \<open>Who the handler ran for, in terms of the store.\<close>

definition live_session :: "(kvst \<Rightarrow> kvst \<Rightarrow> bool) \<Rightarrow> string \<Rightarrow> string \<Rightarrow> kvst \<Rightarrow> kvst \<Rightarrow> string \<Rightarrow> SessionRow \<Rightarrow> bool" where
  "live_session env app hash v0 v2 sid row \<longleftrightarrow>
     (\<exists>v mark. env v0 v \<and> kv_get v (AccessTokenRowKey app hash) = Some (VStr sid, mark) \<and> env v v2) \<and>
     row_at app v2 sid = Some row \<and> row_UID row \<noteq> []"

lemma bearer_gate_only_sessions:
  assumes store: "kvdb_store (sm_KVDB m) view env P"
    and wrap: "BearerUserSession_Wrap H ParseUID (Some m) allowed inner = Inr served" and mgr: "bw_mgr s = m"
  shows "(\<exists>code e st'. served r w s = refuse code e w (s\<lparr>bw_st := st'\<rparr>) \<and> code \<in> {401, 403, 500, 503}) \<or>
    (\<exists>sid row uid st'. bw_admitted s \<and>
      live_session env (sm_appName m) (H (ExtractBearerToken (Header_Get r ''Authorization''))) (view (bw_st s)) (view st') sid row \<and>
      row_GroupName row \<in> allowedGroupsSet m allowed \<and> ParseUID (row_UID row) = Inr uid \<and>
      served r w s = inner (with_session sid row uid r) w (s\<lparr>bw_st := st'\<rparr>))"
  using BearerUserSession_cases [OF wrap, of r w s, unfolded mgr]
proof (elim disjE exE conjE, goal_cases)
  case (2 sid st1 row st2 uid)
  have "live_session env (sm_appName m) (H (ExtractBearerToken (Header_Get r ''Authorization''))) (view (bw_st s)) (view st2) sid row"
  proof -
    obtain mark where "env (view (bw_st s)) (view st1)"
        "kv_get (view st1) (AccessTokenRowKey (sm_appName m) (H (ExtractBearerToken (Header_Get r ''Authorization'')))) = Some (VStr sid, mark)"
      using kvdb_store.GetValue_ok [OF store 2(4)] by auto
    moreover note kvdb_store.FetchSession_ok [OF store 2(5) refl]
    ultimately show ?thesis using 2(6) unfolding live_session_def by metis
  qed
  then show ?case using 2 by blast
qed blast

text \<open>
  C4: The bearer gate lets exactly the holders of live sessions through. Behind \<open>BearerUserSession\<close> a handler runs only for
  a request whose token's row names a session whose row is in the store, with a user, in an allowed group, and it sees
  that session; every other request is answered 401, 403, 500 or 503 without it. And the token of a session that was created for
  a user in an allowed group gets through as that user until its lifetime ends, whenever the two reads return.
\<close>

theorem bearer_gate_admits_sessions:
  assumes "kvdb_store (sm_KVDB m) view env P" and "sm_enabled m"
    and "BearerUserSession_Wrap H ParseUID (Some m) allowed inner = Inr served"
    and "bw_mgr s = m" and "bw_mgr s' = m" and "bw_admitted s"
    and "ExtractBearerToken (Header_Get r ''Authorization'') = at" and "at \<noteq> []"
    and "ttl_ok P (grp_AccessTTL grp)" and "ttl_ok P (grp_RefreshTTL grp)" and "is_i64 now"
    and "undisturbed env (session_keys H (sm_appName m) sid at rt) sid"
    and "\<And>g vs. unlisted sid (CapBucketRowKey (sm_appName m) g vs) (view st0)"
    and "CreateSession H m now sid at rt grp binds st0 = (Inr issued, bw_st s)"
    and "binds ''user'' = Some user" and "user \<noteq> []" and "ParseUID user = Inr uid"
    and "grp_Name grp \<in> allowedGroupsSet m allowed"
    and "FetchSessionByAccessToken H m at (bw_st s) = (Inr found, st2)"
    and "kv_clock (view st2) \<le> kv_clock (view st0) + min (grp_AccessTTL grp) (grp_RefreshTTL grp) * time_Second"
  shows "served r w s = inner (with_session sid (created_row H grp binds at rt now) uid r) w (s\<lparr>bw_st := st2\<rparr>) \<and>
    ((\<exists>code e st'. served r' w s' = refuse code e w (s'\<lparr>bw_st := st'\<rparr>) \<and> code \<in> {401, 403, 500, 503}) \<or>
     (\<exists>sid' row uid' st'. bw_admitted s' \<and>
       live_session env (sm_appName m) (H (ExtractBearerToken (Header_Get r' ''Authorization''))) (view (bw_st s')) (view st') sid' row \<and>
       row_GroupName row \<in> allowedGroupsSet m allowed \<and> ParseUID (row_UID row) = Inr uid' \<and>
       served r' w s' = inner (with_session sid' row uid' r') w (s'\<lparr>bw_st := st'\<rparr>)))"
proof
  obtain st1 where g: "GetValue (sm_KVDB m) (AccessTokenRowKey (sm_appName m) (H at)) (bw_st s) = (Inr (Some sid), st1)"
      "FetchSession m sid st1 = (Inr (Some (created_row H grp binds at rt now)), st2)"
    using created_token_resolves [OF assms(1,9-14,19,20)] by blast
  show "served r w s = inner (with_session sid (created_row H grp binds at rt now) uid r) w (s\<lparr>bw_st := st2\<rparr>)"
    by (rule BearerUserSession_reads [OF assms(3,6)])
      (use assms g in \<open>simp_all add: created_row_def at_key_def\<close>)
qed (rule bearer_gate_only_sessions [OF assms(1,3,5)])

definition telling_handler :: "(string BearerUserSessionData, (unit net, unit, unit) bearer_world) handler" where
  "telling_handler r w s = (HPanicked (case hr_Session r of Some sd \<Rightarrow> bu_UID sd | None \<Rightarrow> []), w, s)"

theorem bearer_gate_admits_sessions_witness:
  "let s = \<lparr>bw_admitted = True, bw_mgr = Bearer_Correct.sample_manager, bw_st = snd (sample_create (sample_world []))\<rparr>;
       r = plain_request ''198.51.100.4:5000'' [(''Authorization'', ''Bearer at'')]
   in \<exists>served. BearerUserSession_Wrap sample_H Inr (Some Bearer_Correct.sample_manager) [] telling_handler = Inr served \<and>
     fst (served r fresh_writer s) = HPanicked ''u1''"
proof -
  let ?m = Bearer_Correct.sample_manager
  let ?r = "plain_request ''198.51.100.4:5000'' [(''Authorization'', ''Bearer at'')] :: string BearerUserSessionData hreq"
  obtain st1 where c: "sample_create (sample_world []) = (Inr (''s1'', ''at'', ''rt''), st1)"
    using sample_created by (metis prod.collapse)
  let ?s = "\<lparr>bw_admitted = True, bw_mgr = ?m, bw_st = st1\<rparr>"
  obtain row st2 where f: "FetchSessionByAccessToken sample_H ?m ''at'' st1 = (Inr row, st2)"
    using sample_fetched(1) unfolding c snd_conv
    by (cases "FetchSessionByAccessToken sample_H ?m ''at'' st1"; cases "fst (FetchSessionByAccessToken sample_H ?m ''at'' st1)") auto
  have t: "kv_clock (nt_store st2) = 0" using sample_fetched(2) unfolding c snd_conv f .
  obtain served where w: "BearerUserSession_Wrap sample_H Inr (Some ?m) [] telling_handler = Inr served"
    by (simp add: BearerUserSession_Wrap_def)
  have tok: "ExtractBearerToken (Header_Get ?r ''Authorization'') = ''at''"
    by (simp add: ExtractBearerToken_def Header_Get_def plain_request_def)
  have "served ?r fresh_writer ?s = telling_handler (with_session ''s1''
      (created_row sample_H sample_group [''client'' \<mapsto> ''c1'', ''user'' \<mapsto> ''u1''] ''at'' ''rt'' 7) ''u1'' ?r) fresh_writer (?s\<lparr>bw_st := st2\<rparr>)"
  proof (rule bearer_gate_admits_sessions [where s = ?s and s' = ?s, OF sample_store _ w _ _ _ tok _ sample_ttl _ sample_undisturbed _ _ _ _ _ _ _ _, THEN conjunct1])
    show "unlisted ''s1'' (CapBucketRowKey (sm_appName ?m) g vs) (nt_store (sample_world []))" for g vs
      by (simp add: unlisted_def sample_world_def)
    show "CreateSession sample_H ?m 7 ''s1'' ''at'' ''rt'' sample_group [''client'' \<mapsto> ''c1'', ''user'' \<mapsto> ''u1''] (sample_world []) =
        (Inr (''s1'', ''at'', ''rt''), bw_st ?s)"
      using c by (simp add: sample_create_def)
    show "FetchSessionByAccessToken sample_H ?m ''at'' (bw_st ?s) = (Inr row, st2)" using f by simp
    show "kv_clock (nt_store st2) \<le> kv_clock (nt_store (sample_world [])) + min (grp_AccessTTL sample_group) (grp_RefreshTTL sample_group) * time_Second"
      by (simp add: t sample_world_def sample_group_def time_Second_def)
    show "grp_Name sample_group \<in> allowedGroupsSet ?m []"
      by (simp add: allowedGroupsSet_def sample_group_def Bearer_Correct.sample_manager_def)
  qed (simp_all add: Bearer_Correct.sample_manager_def is_i64_def)
  then show ?thesis using w unfolding c by (simp add: telling_handler_def with_session_def)
qed

section \<open>Cross-origin answers\<close>

definition origin_allowed :: "Policy \<Rightarrow> string \<Rightarrow> bool" where
  "origin_allowed p origin \<longleftrightarrow> AllowOrigins p = [''*''] \<or> origin \<in> set (AllowOrigins p)"

definition requested_headers :: "'ses hreq \<Rightarrow> string set" where
  "requested_headers r = {n. n \<noteq> [] \<and> n \<in> (ToLower \<circ> TrimSpace) ` set (Split (CHR '','') (Header_Get r ''Access-Control-Request-Headers''))}"

definition preflight_allowed :: "Policy \<Rightarrow> 'ses hreq \<Rightarrow> bool" where
  "preflight_allowed p r \<longleftrightarrow> hr_Method r = ''OPTIONS'' \<and> Header_Get r ''Origin'' \<noteq> [] \<and>
     Header_Get r ''Access-Control-Request-Method'' \<noteq> [] \<and> origin_allowed p (Header_Get r ''Origin'') \<and>
     Header_Get r ''Access-Control-Request-Method'' \<in> set (AllowMethods p) \<union> {''GET'', ''HEAD'', ''POST''} \<and>
     requested_headers r \<subseteq> ToLower ` set (AllowHeaders p)"

lemma refused_header_None: "refused_header hs ns = None \<longleftrightarrow> (\<forall>n\<in>set ns. ToLower (TrimSpace n) = [] \<or> ToLower (TrimSpace n) \<in> hs)"
  by (induction ns) (auto simp: Let_def)

lemma refused_requested:
  "refused_header (ToLower ` set (AllowHeaders p)) (Split (CHR '','') (Header_Get r ''Access-Control-Request-Headers'')) = None \<longleftrightarrow>
     requested_headers r \<subseteq> ToLower ` set (AllowHeaders p)"
  by (auto simp: refused_header_None requested_headers_def)

lemma star_stands_alone:
  assumes "CorsConf_Validate Parse (CorsConf.truncate p) = None"
  shows "hd (AllowOrigins p) = ''*'' \<longleftrightarrow> AllowOrigins p = [''*'']"
proof -
  have a: "AllowOrigins (CorsConf.truncate p) = AllowOrigins p" by (simp add: CorsConf.defs)
  have ne: "AllowOrigins p \<noteq> []" using assms by (auto simp: CorsConf_Validate_def a split: if_splits)
  have "''*'' \<in> set (AllowOrigins p) \<Longrightarrow> AllowOrigins p = [''*'']"
    using assms ne by (cases "AllowOrigins p"; cases "tl (AllowOrigins p)") (auto simp: CorsConf_Validate_def a split: if_splits option.splits)
  moreover have "hd (AllowOrigins p) \<in> set (AllowOrigins p)" using ne by simp
  ultimately show ?thesis by (metis list.sel(1))
qed

lemma sent_header_simps [simp]:
  "rw_Sent (Header_Set n v w) = rw_Sent w" "rw_Sent (Header_Add n v w) = rw_Sent w"
  "rw_Header (Header_Set n v w) = (rw_Header w)(n := [v])"
  "rw_Header (Header_Add n v w) = (rw_Header w)(n := rw_Header w n @ [v])"
  "rw_Sent w = None \<Longrightarrow> rw_Sent (WriteHeader code w) = Some (code, rw_Header w)"
  "rw_Sent w = None \<Longrightarrow> rw_Sent (SendJSON resp w) = Some (rs_status resp, (rw_Header w)(''Content-Type'' := [''application/json'']))"
  by (simp_all add: Header_Set_def Header_Add_def WriteHeader_def SendJSON_def Let_def)

lemma status_simps [simp]: "rs_status (WriteErrorJSON c e) = c" "rs_status (WriteSimpleErrorJSON c m) = c"
  by (simp_all add: WriteErrorJSON_def WriteSimpleErrorJSON_def EncodeWriteJSON_def)

text \<open>The answer of a preflight handler, branch by branch.\<close>

lemma preflight_answer:
  assumes h: "PreflightHandler Parse p = Inr preflight" and ok: "CorsConf_Validate Parse (CorsConf.truncate p) = None"
    and w: "rw_Sent w = None" "rw_Header w ''Access-Control-Allow-Origin'' = []"
  shows "\<exists>w' code h. preflight r w s = (HReturned, w', s) \<and> rw_Sent w' = Some (code, h) \<and>
      code = (if preflight_allowed p r then 204 else if hr_Method r = ''OPTIONS'' \<and> Header_Get r ''Origin'' \<noteq> [] \<and>
         Header_Get r ''Access-Control-Request-Method'' \<noteq> [] then 403 else 400) \<and>
      h ''Access-Control-Allow-Origin'' =
        (if preflight_allowed p r then [if AllowOrigins p = [''*''] then ''*'' else Header_Get r ''Origin''] else [])"
proof -
  note star = star_stands_alone [OF ok]
  have methods: "AllowMethods p \<noteq> []" "List.find (\<lambda>m. m = ''*'' \<or> \<not> isToken m) (AllowMethods p) = None"
    "List.find (\<lambda>h. h = ''*'' \<or> \<not> isToken h) (AllowHeaders p) = None"
    using h ok unfolding PreflightHandler_def by (auto split: option.splits if_splits)
  note run = h [symmetric, unfolded PreflightHandler_def ok option.case methods(2,3) Let_def if_not_P [OF methods(1)] star]
  consider "hr_Method r \<noteq> ''OPTIONS'' \<or> Header_Get r ''Origin'' = [] \<or> Header_Get r ''Access-Control-Request-Method'' = []"
    | "hr_Method r = ''OPTIONS''" "Header_Get r ''Origin'' \<noteq> []" "Header_Get r ''Access-Control-Request-Method'' \<noteq> []"
    by blast
  then show ?thesis
  proof cases
    case 1
    then have "\<not> preflight_allowed p r" by (auto simp: preflight_allowed_def)
    then show ?thesis using 1 run w by (auto simp: gate_status_defs)
  next
    case 2
    consider "\<not> origin_allowed p (Header_Get r ''Origin'')"
      | "origin_allowed p (Header_Get r ''Origin'')"
        "Header_Get r ''Access-Control-Request-Method'' \<notin> set (AllowMethods p) \<union> {''GET'', ''HEAD'', ''POST''}"
      | name where "origin_allowed p (Header_Get r ''Origin'')"
        "Header_Get r ''Access-Control-Request-Method'' \<in> set (AllowMethods p) \<union> {''GET'', ''HEAD'', ''POST''}"
        "refused_header (ToLower ` set (AllowHeaders p)) (Split (CHR '','') (Header_Get r ''Access-Control-Request-Headers'')) = Some name"
      | "preflight_allowed p r"
        "refused_header (ToLower ` set (AllowHeaders p)) (Split (CHR '','') (Header_Get r ''Access-Control-Request-Headers'')) = None"
      using 2 refused_requested [of p r] unfolding preflight_allowed_def by (metis option.exhaust)
    then show ?thesis
    proof cases
      case o: 1
      then have "\<not> preflight_allowed p r" by (simp add: preflight_allowed_def)
      then show ?thesis using 2 o run w by (simp add: origin_allowed_def refuse_def gate_status_defs)
    next
      case m: 2
      then have "\<not> preflight_allowed p r" by (simp add: preflight_allowed_def)
      then show ?thesis using 2 m run w by (auto simp: origin_allowed_def gate_status_defs)
    next
      case n: (3 name)
      then have "\<not> preflight_allowed p r" using refused_requested [of p r] by (simp add: preflight_allowed_def)
      then show ?thesis using 2 n run w by (auto simp: origin_allowed_def gate_status_defs)
    next
      case y: 4
      then have "origin_allowed p (Header_Get r ''Origin'')"
          "Header_Get r ''Access-Control-Request-Method'' \<in> set (AllowMethods p) \<union> {''GET'', ''HEAD'', ''POST''}"
        by (simp_all add: preflight_allowed_def)
      then show ?thesis using 2 y run w by (auto simp: origin_allowed_def gate_status_defs)
    qed
  qed
qed

text \<open>
  C31: Other origins are told yes exactly where the policy says so. A preflight handler that was built answers a request with 204 exactly when it
  is a preflight from an allowed origin for an allowed or safelisted method and allowed headers, and otherwise with 400 or
  403 and without a header that allows anything; the wrapper built from the same policy hands the handler a response that allows
  the request's origin exactly when the policy does. Only \<open>["*"]\<close> allows every origin.
\<close>

theorem cors_allows_by_policy:
  assumes "PreflightHandler Parse p = Inr preflight" and "Policy_Wrap Parse p inner = Inr served"
    and "rw_Sent w = None" and "rw_Header w ''Access-Control-Allow-Origin'' = []"
  shows "(\<exists>w' code h. preflight r w s = (HReturned, w', s) \<and> rw_Sent w' = Some (code, h) \<and>
      code = (if preflight_allowed p r then 204 else if hr_Method r = ''OPTIONS'' \<and> Header_Get r ''Origin'' \<noteq> [] \<and>
         Header_Get r ''Access-Control-Request-Method'' \<noteq> [] then 403 else 400) \<and>
      h ''Access-Control-Allow-Origin'' =
        (if preflight_allowed p r then [if AllowOrigins p = [''*''] then ''*'' else Header_Get r ''Origin''] else [])) \<and>
    (\<exists>w'. served r' w s' = inner r' w' s' \<and> rw_Sent w' = None \<and>
      rw_Header w' ''Access-Control-Allow-Origin'' =
        (if AllowOrigins p = [''*''] then [''*'']
         else if Header_Get r' ''Origin'' \<noteq> [] \<and> origin_allowed p (Header_Get r' ''Origin'') then [Header_Get r' ''Origin''] else []))"
proof
  have ok: "CorsConf_Validate Parse (CorsConf.truncate p) = None"
    using assms(2) by (auto simp: Policy_Wrap_def split: option.splits)
  note star = star_stands_alone [OF ok]
  show "\<exists>w' code h. preflight r w s = (HReturned, w', s) \<and> rw_Sent w' = Some (code, h) \<and>
      code = (if preflight_allowed p r then 204 else if hr_Method r = ''OPTIONS'' \<and> Header_Get r ''Origin'' \<noteq> [] \<and>
         Header_Get r ''Access-Control-Request-Method'' \<noteq> [] then 403 else 400) \<and>
      h ''Access-Control-Allow-Origin'' =
        (if preflight_allowed p r then [if AllowOrigins p = [''*''] then ''*'' else Header_Get r ''Origin''] else [])"
    by (rule preflight_answer [OF assms(1) ok assms(3,4)])
  show "\<exists>w'. served r' w s' = inner r' w' s' \<and> rw_Sent w' = None \<and>
      rw_Header w' ''Access-Control-Allow-Origin'' =
        (if AllowOrigins p = [''*''] then [''*'']
         else if Header_Get r' ''Origin'' \<noteq> [] \<and> origin_allowed p (Header_Get r' ''Origin'') then [Header_Get r' ''Origin''] else [])"
  proof (cases "AllowOrigins p = [''*'']")
    case True
    then show ?thesis using assms(2-4) ok
      by (intro exI [of _ "Header_Set ''Access-Control-Allow-Origin'' ''*'' w"]) (auto simp: Policy_Wrap_def)
  next
    case False
    then show ?thesis using assms(2-4) ok star
      by (intro exI [of _ "let w1 = Header_Add ''Vary'' ''Origin'' w in if Header_Get r' ''Origin'' \<noteq> [] \<and> Header_Get r' ''Origin'' \<in> set (AllowOrigins p)
            then Header_Set ''Access-Control-Allow-Origin'' (Header_Get r' ''Origin'') w1 else w1"])
        (auto simp: Policy_Wrap_def Let_def origin_allowed_def)
  qed
qed

definition sample_parse :: url_parser where
  "sample_parse u = (if u = ''https://a.example'' then Some \<lparr>u_Scheme = ''https'', u_Host = ''a.example'', u_Port = [], u_User = False,
     u_Path = [], u_RawQuery = [], u_ForceQuery = False, u_Fragment = []\<rparr> else None)"

definition sample_policy :: Policy where
  "sample_policy = \<lparr>AllowOrigins = [''https://a.example''], AccessControlMaxAgeSecs = 600, AllowMethods = [''PUT''], AllowHeaders = [''X-Token'']\<rparr>"

definition sample_preflight :: "string \<Rightarrow> unit hreq" where
  "sample_preflight origin = (plain_request ''198.51.100.4:5000'' [(''Origin'', origin), (''Access-Control-Request-Method'', ''PUT''),
     (''Access-Control-Request-Headers'', ''x-token'')])\<lparr>hr_Method := ''OPTIONS''\<rparr>"

lemma sample_policy_valid: "CorsConf_Validate sample_parse (CorsConf.truncate sample_policy) = None"
  by code_simp

lemma sample_preflight_allowed:
  "preflight_allowed sample_policy (sample_preflight ''https://a.example'')"
  "\<not> preflight_allowed sample_policy (sample_preflight ''https://evil.example'')"
  by (simp_all only: preflight_allowed_def refused_requested [symmetric]) code_simp+

theorem cors_allows_by_policy_witness:
  "\<exists>preflight served. PreflightHandler sample_parse sample_policy = Inr preflight \<and>
     Policy_Wrap sample_parse sample_policy (\<lambda>r w (s :: unit). (HReturned, w, s)) = Inr served \<and>
     map_option fst (rw_Sent (fst (snd (preflight (sample_preflight ''https://a.example'') fresh_writer ())))) = Some 204 \<and>
     map_option fst (rw_Sent (fst (snd (preflight (sample_preflight ''https://evil.example'') fresh_writer ())))) = Some 403 \<and>
     rw_Header (fst (snd (served (sample_preflight ''https://evil.example'') fresh_writer ()))) ''Access-Control-Allow-Origin'' = []"
proof -
  let ?inner = "\<lambda>(r :: unit hreq) w (s :: unit). (HReturned, w, s)"
  have "List.find (\<lambda>m. m = ''*'' \<or> \<not> isToken m) (AllowMethods sample_policy) = None"
    "List.find (\<lambda>h. h = ''*'' \<or> \<not> isToken h) (AllowHeaders sample_policy) = None" "AllowMethods sample_policy \<noteq> []" by code_simp+
  then obtain preflight :: "(unit, unit) handler" where p: "PreflightHandler sample_parse sample_policy = Inr preflight"
    by (simp add: PreflightHandler_def sample_policy_valid Let_def)
  obtain served where s: "Policy_Wrap sample_parse sample_policy ?inner = Inr served"
    using sample_policy_valid by (cases "hd (AllowOrigins sample_policy) = ''*''") (auto simp: Policy_Wrap_def)
  have w: "rw_Sent fresh_writer = None" "rw_Header fresh_writer ''Access-Control-Allow-Origin'' = []" by (simp_all add: fresh_writer_def)
  have r: "hr_Method (sample_preflight x) = ''OPTIONS''" "Header_Get (sample_preflight x) ''Origin'' = x"
    "Header_Get (sample_preflight x) ''Access-Control-Request-Method'' = ''PUT''" for x
    by (simp_all add: sample_preflight_def plain_request_def Header_Get_def)
  note a = cors_allows_by_policy [OF p s w, of "sample_preflight ''https://a.example''" "()" "sample_preflight ''https://evil.example''" "()"]
  note e = cors_allows_by_policy [OF p s w, of "sample_preflight ''https://evil.example''" "()" "sample_preflight ''https://evil.example''" "()"]
  have "map_option fst (rw_Sent (fst (snd (preflight (sample_preflight ''https://a.example'') fresh_writer ())))) = Some 204"
    using a sample_preflight_allowed(1) by auto
  moreover have "map_option fst (rw_Sent (fst (snd (preflight (sample_preflight ''https://evil.example'') fresh_writer ())))) = Some 403"
    using e sample_preflight_allowed(2) r by auto
  moreover have "rw_Header (fst (snd (served (sample_preflight ''https://evil.example'') fresh_writer ()))) ''Access-Control-Allow-Origin'' = []"
    using a r by (auto simp: origin_allowed_def sample_policy_def)
  ultimately show ?thesis using p s by blast
qed

section \<open>Routes\<close>

text \<open>The routes of a table one by one: the pattern under the prefixes around it, whether a group checks the
  pattern, and the wrappers around the handler, outermost first.\<close>

record ('ses, 's) flat_route =
  fr_in_group :: bool
  fr_pattern :: string
  fr_wrappers :: "('ses, 's) wrapper list"
  fr_handler :: "('ses, 's) handler"

fun flatten_group :: "string \<Rightarrow> ('ses, 's) wrapper list \<Rightarrow> ('ses, 's) decl \<Rightarrow> ('ses, 's) flat_route list" where
  "flatten_group prefix gws (Route sub h ws) =
     [\<lparr>fr_in_group = True, fr_pattern = full_pattern prefix sub, fr_wrappers = gws @ ws, fr_handler = h\<rparr>]"
| "flatten_group prefix gws (Group p ds ws) = concat (map (flatten_group (prefix @ p) (gws @ ws)) ds)"

fun flatten :: "('ses, 's) decl \<Rightarrow> ('ses, 's) flat_route list" where
  "flatten (Route pattern h ws) = [\<lparr>fr_in_group = False, fr_pattern = pattern, fr_wrappers = ws, fr_handler = h\<rparr>]"
| "flatten (Group p ds ws) = concat (map (flatten_group p ws) ds)"

fun register_flat :: "(string \<Rightarrow> ('ses, 's) mux \<Rightarrow> bool) \<Rightarrow> ('ses, 's) flat_route list \<Rightarrow> ('ses, 's) mux \<Rightarrow> (route_panic, ('ses, 's) mux) result" where
  "register_flat accepts [] m = Inr m"
| "register_flat accepts (f # fs) m =
     (if fr_in_group f \<and> double_slash (fr_pattern f) then Inl (EmptySegment (fr_pattern f))
      else case BaseRouter_Handle accepts (fr_pattern f) (fr_handler f) (fr_wrappers f) m of
        Inl e \<Rightarrow> Inl e | Inr m1 \<Rightarrow> register_flat accepts fs m1)"

lemma wrap_all_append: "wrap_all (gws @ ws) h = (case wrap_all ws h of Inl e \<Rightarrow> Inl e | Inr g \<Rightarrow> wrap_all gws g)"
proof -
  have "foldr (\<lambda>wrap acc. case acc of Inl e \<Rightarrow> Inl e | Inr g \<Rightarrow> wrap g) gws (Inl e) = Inl e" for e by (induction gws) auto
  then show ?thesis by (cases "wrap_all ws h") (simp_all add: wrap_all_def)
qed

lemma register_flat_append:
  "register_flat accepts (fs @ gs) m = (case register_flat accepts fs m of Inl e \<Rightarrow> Inl e | Inr m1 \<Rightarrow> register_flat accepts gs m1)"
  by (induction fs arbitrary: m) (auto split: sum.splits)

lemma RouteGroup_Handle_flat:
  "RouteGroup_Handle accepts prefix gws sub h ws m = register_flat accepts (flatten_group prefix gws (Route sub h ws)) m"
  by (auto simp: RouteGroup_Handle_def BaseRouter_Handle_def wrap_all_append wrap_all_def [of "[]"] Let_def split: sum.splits)

lemma group_decls_flat:
  "group_decls accepts prefix gws ds m = register_flat accepts (concat (map (flatten_group prefix gws) ds)) m"
  "group_decl accepts prefix gws d m = register_flat accepts (flatten_group prefix gws d) m"
proof (induction accepts prefix gws ds m and accepts prefix gws d m rule: group_decls_group_decl.induct)
  case (3 accepts prefix gws sub h ws m)
  then show ?case by (simp only: group_decl.simps RouteGroup_Handle_flat)
qed (auto simp: register_flat_append split: sum.splits)

text \<open>
  C38: A table of nested groups is the flat list of its routes. Registering it, for any mux, enters the routes one by one in the order of
  declaration, each under the concatenated prefixes and wrapped by the wrappers of its groups from the outermost to the
  innermost, then by its own; it panics where the first of these entries would. So every route of a group stands behind
  every wrapper of every group around it.
\<close>

theorem groups_wrap_every_route:
  "register accepts ds m = register_flat accepts (concat (map flatten ds)) m \<and>
   wrap_all (outer @ own) h = (case wrap_all own h of Inl e \<Rightarrow> Inl e | Inr g \<Rightarrow> wrap_all outer g)"
proof
  show "register accepts ds m = register_flat accepts (concat (map flatten ds)) m"
  proof (induction ds arbitrary: m)
    case (Cons d ds)
    then show ?case by (cases d) (auto simp: register_flat_append group_decls_flat split: sum.splits)
  qed simp
qed (rule wrap_all_append)

end
