(* ===== verification/Jwt_Assert_Correct.thy ===== *)
theory Jwt_Assert_Correct
  imports Jwt_Assert Web_Gates_Correct
begin

text \<open>
  Machine assertions (\<open>Jwt_Assert\<close>): an assertion that was accepted is not accepted again while it is valid, by either replay
  cache; a request the signer signed is accepted by a verifier that knows the signer's key; and what a body that
  arrives after the assertion has expired does.
\<close>

section \<open>What a verification asks the cache\<close>

text \<open>The parsed claims of a text are those it carries, whatever key and options it was parsed with.\<close>

definition parses_to :: "('priv, 'pub) jwt_lib \<Rightarrow> (string \<Rightarrow> jclaims) \<Rightarrow> bool" where
  "parses_to lib carried \<longleftrightarrow> (\<forall>pub iss aud leeway now jws c. jl_Parse lib pub iss aud leeway now jws = Some c \<longrightarrow> c = carried jws)"

lemma check_assertion_ok:
  assumes "check_assertion sha lib v tp r = Inr (ident, client, r1, key, until)"
  obtains jws kid issuer jwk pub claims jti expiry where
    "assertionFromHeader r = Inr jws" "peekHeaderAndIssuer lib jws = Inr (kid, issuer)" "v issuer = Some client"
    "GetJWKByKID (jc_jwks client) kid = Some jwk" "jw_Public jwk = Some pub"
    "jl_Parse lib pub issuer (jc_Audience client) (secs (jc_ClockSkew client)) tp jws = Some claims"
    "check_claims client r claims = Inr (jti, expiry)"
    "verifyBody sha r (jc_MaxBodyBytes client) claims = Inr r1"
    "key = issuer @ [CHR 0x00] @ jti" "until = expiry + secs (jc_ClockSkew client)"
  using assms unfolding check_assertion_def by (auto split: sum.splits option.splits prod.splits)

lemma check_claims_ok:
  assumes "check_claims client r claims = Inr (jti, expiry)"
  shows "claim_string claims ''jti'' = Some jti" "claim_time claims ''exp'' = Some expiry"
  using assms unfolding check_claims_def by (auto split: option.splits if_splits)

lemma assertionFromHeader_cong:
  "Header_Get r' ''Authorization'' = Header_Get r ''Authorization'' \<Longrightarrow> assertionFromHeader r' = assertionFromHeader r"
  by (simp add: assertionFromHeader_def)

text \<open>The same text asks for the same id until the same moment, whatever the requests that carry it.\<close>

lemma same_assertion_same_key:
  assumes "parses_to lib carried" and "Header_Get r' ''Authorization'' = Header_Get r ''Authorization''"
    and "check_assertion sha lib v tp r = Inr (ident, client, r1, key, until)"
    and "check_assertion sha lib v tp' r' = Inr (ident', client', r1', key', until')"
  shows "key' = key" "until' = until"
proof -
  obtain jws kid issuer jwk pub claims jti expiry where a:
    "assertionFromHeader r = Inr jws" "peekHeaderAndIssuer lib jws = Inr (kid, issuer)" "v issuer = Some client"
    "jl_Parse lib pub issuer (jc_Audience client) (secs (jc_ClockSkew client)) tp jws = Some claims"
    "check_claims client r claims = Inr (jti, expiry)"
    "key = issuer @ [CHR 0x00] @ jti" "until = expiry + secs (jc_ClockSkew client)"
    using check_assertion_ok [OF assms(3)] by metis
  obtain jws' kid' issuer' jwk' pub' claims' jti' expiry' where b:
    "assertionFromHeader r' = Inr jws'" "peekHeaderAndIssuer lib jws' = Inr (kid', issuer')" "v issuer' = Some client'"
    "jl_Parse lib pub' issuer' (jc_Audience client') (secs (jc_ClockSkew client')) tp' jws' = Some claims'"
    "check_claims client' r' claims' = Inr (jti', expiry')"
    "key' = issuer' @ [CHR 0x00] @ jti'" "until' = expiry' + secs (jc_ClockSkew client')"
    using check_assertion_ok [OF assms(4)] by metis
  have "jws' = jws" using a(1) b(1) assertionFromHeader_cong [OF assms(2)] by simp
  moreover from this have "issuer' = issuer" using a(2) b(2) by simp
  moreover from this have "client' = client" using a(3) b(3) by simp
  moreover have "claims' = claims" using a(4) b(4) \<open>jws' = jws\<close> assms(1) unfolding parses_to_def by metis
  ultimately show "key' = key" "until' = until"
    using check_claims_ok [OF a(5)] check_claims_ok [OF b(5)] a(6,7) b(6,7) by simp_all
qed

section \<open>The contract of a replay cache\<close>

text \<open>
  \<open>remembered i lim s\<close>: a cache in state \<open>s\<close> will not admit \<open>i\<close> up to the moment \<open>lim\<close> of the clock its entries live by, which reads
  \<open>clk now s\<close> when a call made at \<open>now\<close> has left \<open>s\<close>. \<open>askable now until\<close> are the questions the cache can represent. \<open>rest lim\<close> is a step of the other callers up to that moment.
\<close>

locale replay_guard =
  fixes Admit :: "'s replay_cache" and askable :: "time \<Rightarrow> time \<Rightarrow> bool" and clk :: "time \<Rightarrow> 's \<Rightarrow> time" and remembered :: "string \<Rightarrow> time \<Rightarrow> 's \<Rightarrow> bool"
    and rest :: "time \<Rightarrow> 's \<Rightarrow> 's \<Rightarrow> bool"
  assumes remembered_refuses: "remembered i lim s \<Longrightarrow> now < until \<Longrightarrow> askable now until \<Longrightarrow>
      Admit now i until s = (Inr ok, s1) \<Longrightarrow> clk now s1 \<le> lim \<Longrightarrow> \<not> ok"
    and remembered_rest: "remembered i lim s \<Longrightarrow> rest lim s s' \<Longrightarrow> remembered i lim s'"
begin

lemma remembered_rests: "(rest lim)\<^sup>*\<^sup>* s s' \<Longrightarrow> remembered i lim s \<Longrightarrow> remembered i lim s'"
  by (induction rule: rtranclp_induct) (blast intro: remembered_rest)+

lemma remembered_not_accepted:
  assumes "remembered key lim s" "(rest lim)\<^sup>*\<^sup>* s s'"
    and "check_assertion sha lib v tp r = Inr (ident, client, r1, key, until)" "ta < until" "askable ta until"
    and "VerifyRequest sha lib v Admit tp ta r s' = (out, s1)" "clk ta s1 \<le> lim"
  shows "out \<noteq> Inr got"
proof
  assume "out = Inr got"
  then have "Admit ta key until s' = (Inr True, s1)"
    using assms(3,6) by (auto simp: VerifyRequest_def split: prod.splits sum.splits if_splits)
  then show False using remembered_refuses [OF remembered_rests [OF assms(2,1)] assms(4,5)] assms(7) by blast
qed

end

subsection \<open>In memory\<close>

definition inmem_remembered :: "string \<Rightarrow> time \<Rightarrow> ReplayCacheInMemMap \<Rightarrow> bool" where
  "inmem_remembered i lim c \<longleftrightarrow> (\<exists>ids expiry. ri_ids c = Some ids \<and> ids i = Some expiry \<and> lim < expiry)"

definition inmem_call :: "time \<Rightarrow> ReplayCacheInMemMap \<Rightarrow> ReplayCacheInMemMap \<Rightarrow> bool" where
  "inmem_call lim c c' \<longleftrightarrow> (\<exists>t i until. t \<le> lim \<and> c' = snd (InMemMap_Admit t i until c))"

lemma InMemMap_Admit_seen:
  assumes "ri_ids c = Some ids"
  shows "InMemMap_Admit now i until c =
    (if until < now then (Inr True, c)
     else if (case ids i of Some expiry \<Rightarrow> now < expiry | None \<Rightarrow> False) then (Inr False, c)
     else (Inr True, if time_Sub now (ri_lastSweep c) \<ge> time_Minute
       then \<lparr>ri_ids = Some (\<lambda>k. case (ids(i \<mapsto> until)) k of Some expiry \<Rightarrow> if \<not> now < expiry then None else Some expiry | None \<Rightarrow> None),
              ri_lastSweep = now\<rparr>
       else c\<lparr>ri_ids := Some (ids(i \<mapsto> until))\<rparr>))"
  using assms by (simp add: InMemMap_Admit_def Let_def)

interpretation imr: replay_guard InMemMap_Admit "\<lambda>_ _. True" "\<lambda>now _. now" inmem_remembered inmem_call
proof
  fix i lim and s :: ReplayCacheInMemMap and now until ok s1
  assume "inmem_remembered i lim s" "now < until" "InMemMap_Admit now i until s = (Inr ok, s1)" "now \<le> lim"
  then show "\<not> ok" by (auto simp: inmem_remembered_def InMemMap_Admit_seen)
next
  fix i lim s s'
  assume "inmem_remembered i lim s" and "inmem_call lim s s'"
  then obtain ids expiry t j until where *: "ri_ids s = Some ids" "ids i = Some expiry" "lim < expiry" "t \<le> lim"
    "s' = snd (InMemMap_Admit t j until s)" unfolding inmem_remembered_def inmem_call_def by blast
  then show "inmem_remembered i lim s'"
    by (cases "j = i") (auto simp: InMemMap_Admit_seen inmem_remembered_def split: if_splits)
qed

lemma InMemMap_Admit_remembers:
  assumes "InMemMap_Admit now i until c = (Inr True, c1)" "lim < until" "now \<le> lim"
  shows "inmem_remembered i lim c1"
  using assms unfolding InMemMap_Admit_def inmem_remembered_def
  by (auto simp: Let_def split: option.splits if_splits)

subsection \<open>In a database\<close>

text \<open>Time does not run backwards and nobody removes or changes the row before its mark.\<close>

definition row_kept :: "(kvst \<Rightarrow> kvst \<Rightarrow> bool) \<Rightarrow> string \<Rightarrow> bool" where
  "row_kept env k \<longleftrightarrow> (\<forall>v v' x mark. env v v' \<longrightarrow> kv_clock v \<le> kv_clock v' \<and>
     (kv_data v k = Some (x, Some mark) \<longrightarrow> kv_clock v' \<le> mark \<longrightarrow> kv_data v' k = Some (x, Some mark)))"

definition kv_remembered :: "('st \<Rightarrow> kvst) \<Rightarrow> string \<Rightarrow> string \<Rightarrow> time \<Rightarrow> 'st \<Rightarrow> bool" where
  "kv_remembered view prefix i lim st \<longleftrightarrow> (\<exists>x mark. kv_data (view st) (prefix @ i) = Some (x, Some mark) \<and> lim \<le> mark)"

definition kv_call :: "(kvst \<Rightarrow> kvst \<Rightarrow> bool) \<Rightarrow> ('st \<Rightarrow> kvst) \<Rightarrow> time \<Rightarrow> 'st \<Rightarrow> 'st \<Rightarrow> bool" where
  "kv_call env view lim st st' \<longleftrightarrow> env (view st) (view st') \<and> kv_clock (view st') \<le> lim"

text \<open>A lifetime the clock can represent.\<close>

definition fits :: "duration \<Rightarrow> duration \<Rightarrow> bool" where
  "fits P d \<longleftrightarrow> 0 < P \<and> is_i64 (2 * P) \<and> is_i64 (d + P)"

lemma KVDB_Admit_writes:
  assumes "now < until" "fits P (until - now)" "precision (rk_clock c) = P"
  obtains d where "KVDB_Admit c now i until st = SetValueIfNotExists (rk_kvdb c) (rk_prefix c @ i) (Itoa (i64 until)) d st"
    "is_i64 (d + P)" "until - now \<le> d" "0 < d"
proof -
  let ?d = "until - now"
  have d: "0 < ?d" "is_i64 (?d + P)" "0 < P" "is_i64 (2 * P)" using assms by (simp_all add: fits_def)
  then have sub: "time_Sub until now = ?d" by (intro time_Sub_exact) (simp add: is_i64_def)
  show thesis
  proof (cases "ReadDurationFrom (rk_clock c) now ?d \<le> 0")
    case True
    have "span_ok P ?d (ReadDurationFrom (rk_clock c) now ?d)"
      using span_ok_ReadDurationFrom [of "rk_clock c" ?d now] d assms(3) by simp
    then have "?d < P" using True by (simp add: span_ok_def)
    moreover have "KVDB_Admit c now i until st = SetValueIfNotExists (rk_kvdb c) (rk_prefix c @ i) (Itoa (i64 until)) P st"
      using True assms(1,3) sub by (simp add: KVDB_Admit_def Let_def)
    moreover have "is_i64 (P + P)" using d(4) by (simp only: mult_2)
    ultimately show thesis using that [of P] d(3) by linarith
  next
    case False
    then have "KVDB_Admit c now i until st = SetValueIfNotExists (rk_kvdb c) (rk_prefix c @ i) (Itoa (i64 until)) ?d st"
      using assms(1) sub by (simp add: KVDB_Admit_def Let_def)
    then show thesis using that [of ?d] d(1,2) by simp
  qed
qed

lemma KVDB_Admit_remembers:
  assumes store: "kvdb_store (rk_kvdb c) view env P" and kept: "row_kept env (rk_prefix c @ i)"
    and fit: "now < until" "fits P (until - now)" "precision (rk_clock c) = P"
    and adm: "KVDB_Admit c now i until st = (Inr True, st1)"
    and lim: "lim \<le> kv_clock (view st) + (until - now) - P"
  shows "kv_remembered view (rk_prefix c) i lim st1"
proof -
  obtain d where d: "SetValueIfNotExists (rk_kvdb c) (rk_prefix c @ i) (Itoa (i64 until)) d st = (Inr True, st1)"
    "is_i64 (d + P)" "until - now \<le> d"
    using KVDB_Admit_writes [OF fit] adm by metis
  obtain v L where L: "env (view st) v" "span_ok P d L" "view st1 = kv_put (rk_prefix c @ i) (VStr (Itoa (i64 until)), kv_mark v L) v"
    using kvdb_store.SetValueIfNotExists_true [OF store d(1,2)] by metis
  have "kv_clock (view st) \<le> kv_clock v" using kept L(1) unfolding row_kept_def by blast
  then have "lim \<le> kv_clock v + L" using L(2) d(3) lim unfolding span_ok_def by linarith
  then show ?thesis using L(3) by (simp add: kv_remembered_def kv_put_def kv_mark_def)
qed

lemma kv_remembered_refuses:
  assumes store: "kvdb_store (rk_kvdb c) view env P" and kept: "row_kept env (rk_prefix c @ i)"
    and mem: "kv_remembered view (rk_prefix c) i lim st"
    and fit: "now < until" "fits P (until - now)" "precision (rk_clock c) = P"
    and adm: "KVDB_Admit c now i until st = (Inr ok, st1)" and clk: "kv_clock (view st1) \<le> lim"
  shows "\<not> ok"
proof
  assume ok
  obtain d where d: "SetValueIfNotExists (rk_kvdb c) (rk_prefix c @ i) (Itoa (i64 until)) d st = (Inr True, st1)" "is_i64 (d + P)"
    using KVDB_Admit_writes [OF fit] adm \<open>ok\<close> by metis
  obtain v L where v: "env (view st) v" "kv_get v (rk_prefix c @ i) = None"
      "view st1 = kv_put (rk_prefix c @ i) (VStr (Itoa (i64 until)), kv_mark v L) v"
    using kvdb_store.SetValueIfNotExists_true [OF store d] by metis
  obtain x mark where m: "kv_data (view st) (rk_prefix c @ i) = Some (x, Some mark)" "lim \<le> mark"
    using mem unfolding kv_remembered_def by blast
  have "kv_clock v \<le> mark" using v(3) clk m(2) by simp
  then have "kv_data v (rk_prefix c @ i) = Some (x, Some mark)" using kept v(1) m(1) unfolding row_kept_def by blast
  then show False using v(2) \<open>kv_clock v \<le> mark\<close> by (simp add: kv_get_def)
qed

lemma KVDB_replay_guard:
  assumes "kvdb_store (rk_kvdb c) view env P" "\<And>i. row_kept env (rk_prefix c @ i)" "precision (rk_clock c) = P"
  shows "replay_guard (KVDB_Admit c) (\<lambda>now until. fits P (until - now)) (\<lambda>_ st. kv_clock (view st))
    (kv_remembered view (rk_prefix c)) (kv_call env view)"
proof
  fix i lim s now until ok s1
  assume "kv_remembered view (rk_prefix c) i lim s" "now < until" "fits P (until - now)"
    "KVDB_Admit c now i until s = (Inr ok, s1)" "kv_clock (view s1) \<le> lim"
  then show "\<not> ok" using kv_remembered_refuses [OF assms(1,2)] assms(3) by blast
next
  fix i lim s s'
  assume "kv_remembered view (rk_prefix c) i lim s" "kv_call env view lim s s'"
  moreover from this obtain x mark where "kv_data (view s) (rk_prefix c @ i) = Some (x, Some mark)" "lim \<le> mark"
    unfolding kv_remembered_def by blast
  ultimately show "kv_remembered view (rk_prefix c) i lim s'"
    using assms(2) [of i] unfolding kv_remembered_def kv_call_def row_kept_def by (meson order_trans)
qed

text \<open>The cache of an instance over the Redis driver.\<close>

definition net_cache :: "string \<Rightarrow> unit net ReplayCacheKVDB" where
  "net_cache prefix = \<lparr>rk_kvdb = net_DB (\<lambda>_ s. s), rk_clock = \<lparr>precision = millis\<rparr>, rk_prefix = prefix\<rparr>"

lemma row_kept_alone: "row_kept (env_of (\<lambda>(_::unit) s. s)) k"
proof -
  have "fold (\<lambda>(_::unit) s. s) ms v = v" for ms and v :: kvst by (induction ms) simp_all
  then show ?thesis by (simp add: row_kept_def env_of_def)
qed

lemma net_cache_store: "kvdb_store (rk_kvdb (net_cache prefix)) nt_store (env_of (\<lambda>(_::unit) s. s)) millis"
  using kvdb_store_net by (simp add: net_cache_def)

interpretation nkr: replay_guard "KVDB_Admit (net_cache prefix)" "\<lambda>now until. fits millis (until - now)"
  "\<lambda>_ st. kv_clock (nt_store st)" "kv_remembered nt_store (rk_prefix (net_cache prefix))" "kv_call (env_of (\<lambda>(_::unit) s. s)) nt_store" for prefix
  by (rule KVDB_replay_guard [OF net_cache_store row_kept_alone]) (simp add: net_cache_def)

section \<open>An assertion is accepted once\<close>

lemma VerifyRequest_admitted:
  assumes "VerifyRequest sha lib v Admit tp ta r s = (Inr got, s1)"
  obtains ident client r1 key until where "check_assertion sha lib v tp r = Inr (ident, client, r1, key, until)"
    "Admit ta key until s = (Inr True, s1)"
  using assms unfolding VerifyRequest_def by (auto split: sum.splits prod.splits if_splits)

lemma kv_calls:
  assumes "\<And>v v'. env v v' \<Longrightarrow> kv_clock v \<le> kv_clock v'" "(\<lambda>a b. env (view a) (view b))\<^sup>*\<^sup>* s s'" "kv_clock (view s') \<le> lim"
  shows "(kv_call env view lim)\<^sup>*\<^sup>* s s'"
  using assms(2,3)
proof (induction rule: rtranclp_induct)
  case (step b d)
  then have "kv_call env view lim b d" "kv_clock (view b) \<le> lim" using assms(1) by (fastforce simp: kv_call_def)+
  then show ?case using step by (meson rtranclp.rtrancl_into_rtrancl)
qed simp

lemma KVDB_Admit_clock:
  assumes store: "kvdb_store (rk_kvdb c) view env P" and kept: "row_kept env k"
    and fit: "now < until" "fits P (until - now)" "precision (rk_clock c) = P"
    and adm: "KVDB_Admit c now i until st = (Inr True, st1)"
  shows "kv_clock (view st) \<le> kv_clock (view st1)"
proof -
  obtain d where d: "SetValueIfNotExists (rk_kvdb c) (rk_prefix c @ i) (Itoa (i64 until)) d st = (Inr True, st1)" "is_i64 (d + P)"
    using KVDB_Admit_writes [OF fit] adm by metis
  obtain v L where "env (view st) v" "view st1 = kv_put (rk_prefix c @ i) (VStr (Itoa (i64 until)), kv_mark v L) v"
    using kvdb_store.SetValueIfNotExists_true [OF store d] by metis
  then show ?thesis using kept unfolding row_kept_def by simp
qed


text \<open>In memory, over any calls the process makes in between: the same, on the process's own clock.\<close>

lemma inmem_accepted_once:
  assumes "parses_to lib carried" and "Header_Get r' ''Authorization'' = Header_Get r ''Authorization''"
    and "check_assertion sha lib v tp r = Inr (ident, client, r1, key, until)"
    and "VerifyRequest sha lib v InMemMap_Admit tp ta r c = (Inr got, c1)"
    and "(inmem_call ta')\<^sup>*\<^sup>* c1 c2" and "ta \<le> ta'" and "ta' < until"
  shows "fst (VerifyRequest sha lib v InMemMap_Admit tp' ta' r' c2) \<noteq> Inr got'"
proof
  obtain out c3 where second: "VerifyRequest sha lib v InMemMap_Admit tp' ta' r' c2 = (out, c3)" by (meson surj_pair)
  assume "fst (VerifyRequest sha lib v InMemMap_Admit tp' ta' r' c2) = Inr got'"
  then have acc: "VerifyRequest sha lib v InMemMap_Admit tp' ta' r' c2 = (Inr got', c3)" using second by simp
  have "InMemMap_Admit ta key until c = (Inr True, c1)"
    using VerifyRequest_admitted [OF assms(4)] assms(3) by (metis Inr_inject Pair_inject)
  then have mem: "inmem_remembered key ta' c1" using InMemMap_Admit_remembers assms(6,7) by blast
  obtain ident' client' r1' key' until' where again: "check_assertion sha lib v tp' r' = Inr (ident', client', r1', key', until')"
    using VerifyRequest_admitted [OF acc] by metis
  note same = same_assertion_same_key [OF assms(1-3) again]
  from imr.remembered_not_accepted [OF mem assms(5) again [unfolded same] assms(7) TrueI acc order_refl] show False by blast
qed

section \<open>A body that arrives too late\<close>

text \<open>
  C26: A request whose body ends after its assertion has expired gets past both replay caches, whatever they remember. The
  expiry is checked when the assertion is parsed (\<open>tp\<close>), before the body is read; the cache is asked after (\<open>ta\<close>), and admits
  what has expired by then without looking it up. So somebody who holds a captured assertion, sends the request with it
  just before it expires and withholds the end of the body until after, is accepted although the assertion was used before.
\<close>

theorem late_body_replays:
  assumes "check_assertion sha lib v tp r = Inr (ident, client, r1, key, until)" and "until < ta"
  shows "VerifyRequest sha lib v (KVDB_Admit c) tp ta r st = (Inr (ident, client, r1), st) \<and>
    fst (VerifyRequest sha lib v InMemMap_Admit tp ta r mem) = Inr (ident, client, r1)"
  using assms by (auto simp: VerifyRequest_def KVDB_Admit_def InMemMap_Admit_def Let_def split: option.splits)

section \<open>What is signed is accepted\<close>

text \<open>
  The library's promise for a key pair: a signed text has three base64 parts, with the key id in the first and the
  claims in the second, and parses to the claims under the public key while they hold for the issuer, the audience and the time.
\<close>

definition claims_hold :: "jclaims \<Rightarrow> string \<Rightarrow> string \<Rightarrow> duration \<Rightarrow> time \<Rightarrow> bool" where
  "claims_hold c iss aud leeway now \<longleftrightarrow>
     claim_string c ''iss'' = Some iss \<and> claim_string c ''sub'' = Some iss \<and> claim_string c ''aud'' = Some aud \<and>
     (case claim_time c ''exp'' of Some e \<Rightarrow> now < e + leeway | None \<Rightarrow> False) \<and>
     (case claim_time c ''iat'' of Some i \<Rightarrow> i - leeway \<le> now | None \<Rightarrow> True) \<and> c ''nbf'' = None"

definition key_pair :: "('priv, 'pub) jwt_lib \<Rightarrow> 'priv \<Rightarrow> 'pub \<Rightarrow> bool" where
  "key_pair lib priv pub \<longleftrightarrow> (\<forall>kid c jws. jl_Sign lib priv kid c = Some jws \<longrightarrow>
     (\<exists>h p sg. jws = RawURL_encode h @ ''.'' @ RawURL_encode p @ ''.'' @ RawURL_encode sg \<and>
       jl_kid lib h = Some kid \<and> jl_iss lib p = claim_string c ''iss'' \<and>
       (\<forall>iss aud leeway now. claims_hold c iss aud leeway now \<longrightarrow> jl_Parse lib pub iss aud leeway now jws = Some c)))"

lemma key_pairD:
  assumes "key_pair lib priv pub" "jl_Sign lib priv kid c = Some jws"
  obtains h p sg where "jws = RawURL_encode h @ ''.'' @ RawURL_encode p @ ''.'' @ RawURL_encode sg" "jl_kid lib h = Some kid"
    "jl_iss lib p = claim_string c ''iss''"
    "\<forall>iss aud leeway now. claims_hold c iss aud leeway now \<longrightarrow> jl_Parse lib pub iss aud leeway now jws = Some c"
proof -
  have "\<exists>h p sg. jws = RawURL_encode h @ ''.'' @ RawURL_encode p @ ''.'' @ RawURL_encode sg \<and> jl_kid lib h = Some kid \<and>
      jl_iss lib p = claim_string c ''iss'' \<and>
      (\<forall>iss aud leeway now. claims_hold c iss aud leeway now \<longrightarrow> jl_Parse lib pub iss aud leeway now jws = Some c)"
    using assms(1)[unfolded key_pair_def, rule_format, OF assms(2)] .
  then show thesis using that by (elim exE conjE)
qed

definition printable :: "char \<Rightarrow> bool" where
  "printable x \<longleftrightarrow> 33 \<le> (of_char x :: nat) \<and> (of_char x :: nat) < 127"

lemma b64_char_printable: "n < 64 \<Longrightarrow> printable (b64_char CHR ''-'' CHR ''_'' n) \<and> b64_char CHR ''-'' CHR ''_'' n \<noteq> CHR ''.''"
proof -
  assume "n < 64"
  then consider "n < 26" | "26 \<le> n" "n < 52" | "52 \<le> n" "n < 62" | "n = 62" | "n = 63" by linarith
  then have "33 \<le> (of_char (b64_char CHR ''-'' CHR ''_'' n) :: nat) \<and> (of_char (b64_char CHR ''-'' CHR ''_'' n) :: nat) < 127 \<and>
    (of_char (b64_char CHR ''-'' CHR ''_'' n) :: nat) \<noteq> 46"
  proof cases
    case 1
    then have "of_char (b64_char CHR ''-'' CHR ''_'' n) = 65 + n" by (simp add: b64_char_def)
    with 1 show ?thesis by simp
  next
    case 2
    then have "of_char (b64_char CHR ''-'' CHR ''_'' n) = 97 + (n - 26)" by (simp add: b64_char_def)
    with 2 show ?thesis by simp
  next
    case 3
    then have "of_char (b64_char CHR ''-'' CHR ''_'' n) = 48 + (n - 52)" by (simp add: b64_char_def)
    with 3 show ?thesis by linarith
  qed (simp_all add: b64_char_def)
  then show ?thesis unfolding printable_def by auto
qed

lemma RawURL_chars: "x \<in> set (RawURL_encode bs) \<Longrightarrow> printable x \<and> x \<noteq> CHR ''.''"
  using b64_sextets_less [of "map of_char bs"] b64_char_printable by (auto simp: RawURL_encode_def of_char_less)

lemma strip_one_printable:
  "list_all (\<lambda>w. w \<noteq> [] \<and> \<not> printable (hd w)) ws \<Longrightarrow> list_all printable s \<Longrightarrow> strip_one ws s = None"
proof (induction ws)
  case (Cons w ws)
  then have "take (length w) s \<noteq> w" by (cases w; cases s) auto
  then show ?case using Cons by simp
qed simp

lemma TrimSpace_printable:
  assumes "list_all printable s"
  shows "TrimSpace s = s"
proof -
  have "list_all (\<lambda>w. w \<noteq> [] \<and> \<not> printable (hd w)) space_texts"
    "list_all (\<lambda>w. w \<noteq> [] \<and> \<not> printable (hd w)) (map rev space_texts)" by code_simp+
  then have "strip_one space_texts s = None" "strip_one (map rev space_texts) (rev s) = None"
    using assms by (auto intro!: strip_one_printable)
  then show ?thesis by (simp add: TrimSpace_def trim_with.simps)
qed

lemma assertion_text:
  assumes "jws = RawURL_encode h @ ''.'' @ RawURL_encode p @ ''.'' @ RawURL_encode sg"
  shows "SplitSignedJwtTokenRawParts jws = Some (RawURL_encode h, RawURL_encode p, RawURL_encode sg)"
    and "Header_Get r ''Authorization'' = AuthorizationValue jws \<Longrightarrow> assertionFromHeader r = Inr jws"
proof -
  have nodot: "CHR ''.'' \<notin> set (RawURL_encode bs)" for bs using RawURL_chars by blast
  show "SplitSignedJwtTokenRawParts jws = Some (RawURL_encode h, RawURL_encode p, RawURL_encode sg)"
    by (simp add: assms SplitSignedJwtTokenRawParts_def Split_append Split_plain nodot)
  have "printable CHR ''.''" by code_simp
  then have "list_all printable jws" using RawURL_chars by (auto simp: assms list_all_iff)
  moreover have "EqualFold ''JWTAssert'' AuthScheme" by code_simp
  moreover have "Cut CHR '' '' (AuthorizationValue jws) = Some (''JWTAssert'', jws)"
    using Cut_append [of "CHR '' ''" "''JWTAssert''" jws] by (simp add: AuthorizationValue_def AuthScheme_def)
  ultimately show "Header_Get r ''Authorization'' = AuthorizationValue jws \<Longrightarrow> assertionFromHeader r = Inr jws"
    by (simp add: assertionFromHeader_def TrimSpace_printable assms AuthorizationValue_def AuthScheme_def)
qed

lemma peek_signed:
  assumes "jws = RawURL_encode h @ ''.'' @ RawURL_encode p @ ''.'' @ RawURL_encode sg"
    and "jl_kid lib h = Some kid" "jl_iss lib p = Some iss" "kid \<noteq> []" "iss \<noteq> []"
  shows "peekHeaderAndIssuer lib jws = Inr (kid, iss)"
  by (simp add: peekHeaderAndIssuer_def assertion_text(1) [OF assms(1)] DecodeJwtHeader_def assms(2-))

lemma verifyBody_sent:
  assumes "hr_Body r = \<lparr>bd_data = b, bd_err = False\<rparr>" "int (length b) \<le> most" "most < 2 ^ 63 - 1"
    and "claim_string claims ClaimBodyHash = (if b = [] then None else Some (BodyHash sha b))"
  shows "verifyBody sha r most claims = Inr r"
proof -
  have i: "i64 (most + 1) = most + 1" using assms(2,3) by (intro i64_id) (simp add: is_i64_def)
  have "r\<lparr>hr_Body := \<lparr>bd_data = b, bd_err = False\<rparr>\<rparr> = r" using assms(1) by simp
  then show ?thesis using assms by (auto simp: verifyBody_def Let_def i)
qed

text \<open>A signer and a verifier that agree on the identity, the audience, the key and the lifetime.\<close>

definition trusts :: "('priv, 'pub) jwt_lib \<Rightarrow> 'pub Verifier \<Rightarrow> 'priv Signer \<Rightarrow> int \<Rightarrow> 'pub Client \<Rightarrow> bool" where
  "trusts lib v s age client \<longleftrightarrow> v (sn_ID s) = Some client \<and> jc_ID client = sn_ID s \<and> jc_Audience client = sn_Audience s \<and>
     (\<exists>jwk pub. GetJWKByKID (jc_jwks client) (sn_Kid s) = Some jwk \<and> jw_Public jwk = Some pub \<and> key_pair lib (sn_PrivateKey s) pub) \<and>
     sn_ID s \<noteq> [] \<and> sn_Kid s \<noteq> [] \<and> sn_MaxAge s = age * time_Second \<and> 0 < age \<and> age \<le> jc_MaxAge client \<and>
     is_i64 (jc_MaxAge client * time_Second) \<and> 0 \<le> jc_ClockSkew client \<and> is_i64 (jc_ClockSkew client * time_Second) \<and>
     jc_MaxBodyBytes client < 2 ^ 63 - 1"

lemma Unix_add: "Unix (t + n * time_Second) = Unix t + n"
  by (simp add: Unix_def time_Second_def)

lemma Unix_le: "Unix t * time_Second \<le> t"
  using div_mult_le [of time_Second t] by (simp add: Unix_def time_Second_def mult.commute)

lemma sign_claims_read:
  assumes "sn_MaxAge s = age * time_Second" "0 < Unix t" "0 < age" "c = sign_claims sha s t jti verb target body extra"
  shows "claim_string c ''iss'' = Some (sn_ID s)" "claim_string c ''sub'' = Some (sn_ID s)"
    "claim_string c ''aud'' = Some (sn_Audience s)" "claim_string c ''jti'' = Some jti"
    "claim_string c ClaimHTTPMethod = Some verb" "claim_string c ClaimHTTPTarget = Some target"
    "claim_time c ''iat'' = Some (Unix t * time_Second)" "claim_time c ''exp'' = Some ((Unix t + age) * time_Second)"
    "claim_string c ClaimBodyHash = map_option (BodyHash sha) body" "c ''nbf'' = extra ''nbf''"
  using assms(1-3) unfolding assms(4)
  by (simp_all add: sign_claims_def Let_def claim_string_def claim_time_def claim_names Unix_add split: option.split)

lemma check_claims_signed:
  assumes "trusts lib v s age client" "0 < Unix t" "jti \<noteq> []"
  shows "check_claims client (r\<lparr>hr_Method := verb, hr_RequestURI := target\<rparr>) (sign_claims sha s t jti verb target body extra) =
    Inr (jti, (Unix t + age) * time_Second)"
proof -
  have tr: "sn_MaxAge s = age * time_Second" "0 < age" "age \<le> jc_MaxAge client" "is_i64 (jc_MaxAge client * time_Second)"
    using assms(1) by (simp_all add: trusts_def)
  have fit: "age * time_Second \<le> jc_MaxAge client * time_Second" using tr(3) by (simp add: time_Second_def)
  have "time_Sub ((Unix t + age) * time_Second) (Unix t * time_Second) = age * time_Second"
    using tr fit by (subst time_Sub_exact) (simp_all add: algebra_simps is_i64_def time_Second_def)
  moreover have "secs (jc_MaxAge client) = jc_MaxAge client * time_Second" using tr(4) by (simp add: secs_def)
  ultimately show ?thesis
    using fit assms(3) sign_claims_read [OF tr(1) assms(2) tr(2) refl] by (simp add: check_claims_def)
qed

lemma signed_checks:
  assumes "trusts lib v s age client" and "0 < Unix t" and "jti \<noteq> []" and "extra ''nbf'' = None"
    and "SignRequest sha lib s t jti (hr_Method r) (hr_RequestURI r) body extra = Some auth"
    and "Header_Get r ''Authorization'' = auth"
    and "hr_Body r = \<lparr>bd_data = (case body of Some b \<Rightarrow> b | None \<Rightarrow> []), bd_err = False\<rparr>" and "body \<noteq> Some []"
    and "int (length (bd_data (hr_Body r))) \<le> jc_MaxBodyBytes client"
    and "t \<le> tp + jc_ClockSkew client * time_Second"
    and "tp < (Unix t + age + jc_ClockSkew client) * time_Second"
  shows "check_assertion sha lib v tp r =
    Inr (\<lparr>id_Method = ''jwtassert'', id_Subject = sn_ID s,
          id_Claims = sign_claims sha s t jti (hr_Method r) (hr_RequestURI r) body extra\<rparr>, client, r,
        sn_ID s @ [CHR 0x00] @ jti, (Unix t + age) * time_Second + secs (jc_ClockSkew client))"
proof -
  let ?c = "sign_claims sha s t jti (hr_Method r) (hr_RequestURI r) body extra"
  have tr: "v (sn_ID s) = Some client" "jc_ID client = sn_ID s" "jc_Audience client = sn_Audience s" "sn_ID s \<noteq> []" "sn_Kid s \<noteq> []"
      "sn_MaxAge s = age * time_Second" "0 < age" "jc_MaxBodyBytes client < 2 ^ 63 - 1"
    and skew: "secs (jc_ClockSkew client) = jc_ClockSkew client * time_Second"
    using assms(1) by (simp_all add: trusts_def secs_def)
  obtain jwk pub where key: "GetJWKByKID (jc_jwks client) (sn_Kid s) = Some jwk" "jw_Public jwk = Some pub" "key_pair lib (sn_PrivateKey s) pub"
    using assms(1) unfolding trusts_def by blast
  note read = sign_claims_read [OF tr(6) assms(2) tr(7) refl]
  obtain jws where jws: "jl_Sign lib (sn_PrivateKey s) (sn_Kid s) ?c = Some jws" "auth = AuthorizationValue jws"
    using assms(5) by (auto simp: SignRequest_def Sign_def)
  obtain h p sg where parts: "jws = RawURL_encode h @ ''.'' @ RawURL_encode p @ ''.'' @ RawURL_encode sg"
      "jl_kid lib h = Some (sn_Kid s)" "jl_iss lib p = claim_string ?c ''iss''"
      and parse: "\<forall>iss aud leeway now. claims_hold ?c iss aud leeway now \<longrightarrow> jl_Parse lib pub iss aud leeway now jws = Some ?c"
    by (rule key_pairD [OF key(3) jws(1)])
  have "claims_hold ?c (sn_ID s) (sn_Audience s) (secs (jc_ClockSkew client)) tp"
    using Unix_le [of t] assms(4,10,11) by (simp add: claims_hold_def read skew algebra_simps)
  then have parsed: "jl_Parse lib pub (sn_ID s) (jc_Audience client) (secs (jc_ClockSkew client)) tp jws = Some ?c"
    using parse tr(3) by simp
  have "check_claims client r ?c = Inr (jti, (Unix t + age) * time_Second)"
    using check_claims_signed [OF assms(1-3), where r = r and verb = "hr_Method r" and target = "hr_RequestURI r"] by simp
  moreover have "verifyBody sha r (jc_MaxBodyBytes client) ?c = Inr r"
    by (rule verifyBody_sent [OF assms(7)]) (use assms(7-9) tr(8) read(9) in \<open>auto split: option.splits\<close>)
  moreover have "assertionFromHeader r = Inr jws" using assertion_text(2) [OF parts(1)] assms(6) jws(2) by simp
  moreover have "peekHeaderAndIssuer lib jws = Inr (sn_Kid s, sn_ID s)"
    using peek_signed [OF parts(1,2)] parts(3) tr(4,5) read(1) by simp
  ultimately show ?thesis using tr(1,2) key(1,2) parsed by (simp add: check_assertion_def)
qed


text \<open>A sample signer and verifier, with a library that knows one signed text.\<close>

definition sample_signer :: "unit Signer" where
  "sample_signer = \<lparr>sn_ID = ''billing'', sn_Audience = ''ledger'', sn_Kid = ''k1'', sn_PrivateKey = (), sn_MaxAge = 60 * time_Second\<rparr>"

definition sample_client :: "unit Client" where
  "sample_client = \<lparr>jc_Name = ''billing'', jc_ID = ''billing'', jc_Audience = ''ledger'', jc_PublicKeyDir = ''keys'', jc_MaxAge = 120,
     jc_ClockSkew = 5, jc_MaxBodyBytes = 1024, jc_jwks = [\<lparr>jw_Kid = ''k1'', jw_Public = Some ()\<rparr>]\<rparr>"

definition sample_digest :: "string \<Rightarrow> string" where "sample_digest b = ''#'' @ b"

definition sample_claims :: jclaims where
  "sample_claims = sign_claims sample_digest sample_signer (1000 * time_Second) ''j1'' ''POST'' ''/'' (Some ''pay'') Map.empty"

definition sample_jws :: string where
  "sample_jws = RawURL_encode ''h'' @ ''.'' @ RawURL_encode ''p'' @ ''.'' @ RawURL_encode ''s''"

definition sample_jwt :: "(unit, unit) jwt_lib" where
  "sample_jwt = \<lparr>jl_kid = (\<lambda>_. Some ''k1''), jl_iss = (\<lambda>_. Some ''billing''),
     jl_Parse = (\<lambda>_ iss aud leeway now jws. if jws = sample_jws \<and> claims_hold sample_claims iss aud leeway now then Some sample_claims else None),
     jl_Sign = (\<lambda>_ kid c. if kid = ''k1'' \<and> c = sample_claims then Some sample_jws else None)\<rparr>"

definition sample_request :: "unit hreq" where
  "sample_request = (plain_request ''198.51.100.4:5000'' [(''Authorization'', AuthorizationValue sample_jws)])
     \<lparr>hr_Body := \<lparr>bd_data = ''pay'', bd_err = False\<rparr>\<rparr>"

lemma sample_parses: "parses_to sample_jwt (\<lambda>_. sample_claims)"
  by (simp add: parses_to_def sample_jwt_def)

lemma sample_trusts: "trusts sample_jwt [''billing'' \<mapsto> sample_client] sample_signer 60 sample_client"
proof -
  have "claim_string sample_claims ''iss'' = Some ''billing''"
    by (simp add: sample_claims_def sign_claims_def claim_string_def claim_names sample_signer_def)
  then have "key_pair sample_jwt () ()" unfolding key_pair_def sample_jwt_def sample_jws_def by (auto split: if_splits)
  then show ?thesis
    by (simp add: trusts_def sample_signer_def sample_client_def GetJWKByKID_def is_i64_def time_Second_def)
qed

lemma sample_request_fields:
  "hr_Method sample_request = ''POST''" "hr_RequestURI sample_request = ''/''"
  "Header_Get sample_request ''Authorization'' = AuthorizationValue sample_jws" "hr_Body sample_request = \<lparr>bd_data = ''pay'', bd_err = False\<rparr>"
  by (simp_all add: sample_request_def plain_request_def Header_Get_def)

lemma sample_signs:
  "SignRequest sample_digest sample_jwt sample_signer (1000 * time_Second) ''j1'' (hr_Method sample_request) (hr_RequestURI sample_request)
     (Some ''pay'') Map.empty = Some (AuthorizationValue sample_jws)"
  by (simp add: SignRequest_def Sign_def sample_jwt_def sample_claims_def sample_request_fields sample_signer_def)

lemma sample_ages: "Unix (1000 * time_Second) = 1000" "jc_ClockSkew sample_client = 5" "jc_MaxBodyBytes sample_client = 1024"
  by (simp_all add: Unix_def time_Second_def sample_client_def)


definition sample_key :: string where "sample_key = ''billing'' @ [CHR 0x00] @ ''j1''"

lemma sample_checked:
  "check_assertion sample_digest sample_jwt [''billing'' \<mapsto> sample_client] (1001 * time_Second) sample_request =
     Inr (\<lparr>id_Method = ''jwtassert'', id_Subject = ''billing'', id_Claims = sample_claims\<rparr>, sample_client, sample_request,
          sample_key, 1065 * time_Second)"
proof -
  have "secs 5 = 5 * time_Second" by (simp add: secs_def time_Second_def i64_def)
  then show ?thesis
    using signed_checks [OF sample_trusts _ _ _ sample_signs sample_request_fields(3), of "1001 * time_Second"]
    by (simp add: sample_ages sample_request_fields sample_claims_def sample_signer_def sample_key_def) (simp add: time_Second_def)
qed

definition sample_verify :: "unit net \<Rightarrow> (gw_Error, VerifiedIdentity \<times> unit Client \<times> unit hreq) result \<times> unit net" where
  "sample_verify = VerifyRequest sample_digest sample_jwt [''billing'' \<mapsto> sample_client] (KVDB_Admit (net_cache ''app:ar:''))
     (1001 * time_Second) (1002 * time_Second) sample_request"

lemma sample_verify_eq:
  "sample_verify st = (case KVDB_Admit (net_cache ''app:ar:'') (1002 * time_Second) sample_key (1065 * time_Second) st of
     (Inl err, st1) \<Rightarrow> (Inl (Wrap AssertionReplayUnknown (Plain ''jwtassert replay cache'' [kv_cause err])), st1)
   | (Inr ok, st1) \<Rightarrow> (if \<not> ok then Inl AssertionReplayed
       else Inr (\<lparr>id_Method = ''jwtassert'', id_Subject = ''billing'', id_Claims = sample_claims\<rparr>, sample_client, sample_request), st1))"
  unfolding sample_verify_def VerifyRequest_def sample_checked by (simp split: sum.split prod.split)

lemma sample_set:
  "\<exists>v. SetValueIfNotExists (net_DB (\<lambda>(_::unit) s. s)) k x (63 * time_Second) (sample_world []) = (Inr True, (sample_world [])\<lparr>nt_store := v\<rparr>) \<and>
     kv_clock v = 0"
proof -
  have "redis_lifetime 0 (63 * time_Second) = 63 * time_Second" by code_simp
  then show ?thesis
    by (simp add: net_DB_def redis_DB_def redis_SetValueIfNotExists_def sample_world_def redis_ref_def roundtrip_def net_send_def
        time_Second_def millis_def doc_SETNX_def eff_SetValueIfNotExists_def kv_get_def dec_bool_def Let_def)
qed

lemma set_clock: "kv_clock (nt_store (snd (SetValueIfNotExists (net_DB (\<lambda>(_::unit) s. s)) k x d st))) = kv_clock (nt_store st)"
proof -
  have "fold (\<lambda>(_::unit) s. s) ms v = v" for ms and v :: kvst by (induction ms) simp_all
  then show ?thesis
    by (auto simp: net_DB_def redis_DB_def redis_SetValueIfNotExists_def redis_ref_def roundtrip_def net_send_def
        doc_SETNX_def Let_def split: prod.split sum.split fault.split list.split)
qed

lemma sample_admit_eq:
  "KVDB_Admit (net_cache ''app:ar:'') (1002 * time_Second) sample_key (1065 * time_Second) st =
     SetValueIfNotExists (net_DB (\<lambda>_ s. s)) (''app:ar:'' @ sample_key) (Itoa (i64 (1065 * time_Second))) (63 * time_Second) st"
proof -
  have "\<not> ReadDurationFrom \<lparr>precision = millis\<rparr> (1002 * time_Second) (63 * time_Second) \<le> 0" by code_simp
  moreover have "time_Sub (1065 * time_Second) (1002 * time_Second) = 63 * time_Second" by code_simp
  moreover have "\<not> 1065 * time_Second \<le> 1002 * time_Second" by (simp add: time_Second_def)
  ultimately show ?thesis by (simp add: KVDB_Admit_def net_cache_def Let_def)
qed


theorem late_body_replays_witness:
  "\<not> isl (fst (VerifyRequest sample_digest sample_jwt [''billing'' \<mapsto> sample_client] (KVDB_Admit (net_cache ''app:ar:''))
     (1001 * time_Second) (1066 * time_Second) sample_request (snd (sample_verify (sample_world [])))))"
  using late_body_replays [OF sample_checked, of "1066 * time_Second" "net_cache ''app:ar:''" "snd (sample_verify (sample_world []))"]
  by (simp add: time_Second_def)

text \<open>
  A signer given an empty body signs a hash of it, and the verifier, which sees a request without a body, refuses
  it: \<open>Sign\<close> distinguishes an absent body from an empty one, a request does not.
\<close>

lemma empty_body_refused:
  assumes "bd_data (hr_Body r) = []" "\<not> bd_err (hr_Body r)" "0 \<le> most" "sn_MaxAge s = age * time_Second" "0 < Unix t" "0 < age"
  shows "verifyBody sha r most (sign_claims sha s t jti verb target (Some []) extra) =
    Inl (WithDetail InvalidAssertion ''body_hash without body'')"
  using assms sign_claims_read(9) [OF assms(4-6) refl, of sha jti verb target "Some []" extra]
  by (simp add: verifyBody_def Let_def)

text \<open>With the largest \<open>max_body_bytes\<close> the limit wraps round, and every body is read as empty.\<close>

lemma largest_limit_reads_nothing:
  "verifyBody sha r (2 ^ 63 - 1) claims = (if claim_string claims ClaimBodyHash = None
     then Inr (r\<lparr>hr_Body := \<lparr>bd_data = [], bd_err = False\<rparr>\<rparr>) else Inl (WithDetail InvalidAssertion ''body_hash without body''))"
  by (simp add: verifyBody_def Let_def i64_def)

end
