(* ===== verification/Sql_Tables.thy ===== *)
theory Sql_Tables
  imports Net_Addr
begin

text \<open>
  \<open>gw/sqldbs\<close>: what a table is declared as and what a database reports. Identifiers, columns and ordered column sets,
  tables with their keys, the schema snapshot, and the verification of declarations against it.
\<close>

section \<open>Identifiers\<close>

definition ident_start :: "char \<Rightarrow> bool" where
  "ident_start c \<longleftrightarrow> c \<in> set ''ABCDEFGHIJKLMNOPQRSTUVWXYZabcdefghijklmnopqrstuvwxyz_''"

definition ident_char :: "char \<Rightarrow> bool" where
  "ident_char c \<longleftrightarrow> ident_start c \<or> c \<in> set ''0123456789''"

definition ident_part :: "string \<Rightarrow> bool" where
  "ident_part p \<longleftrightarrow> p \<noteq> [] \<and> ident_start (hd p) \<and> list_all ident_char (tl p)"

definition IdentifierRegexp :: "string \<Rightarrow> bool" where
  "IdentifierRegexp name \<longleftrightarrow> list_all ident_part (Split (CHR ''.'') name)"

datatype binding_problem =
    NoBindings
  | EmptyColumnName nat
  | ColumnBoundTwice string
  | NotDeclared string
  | NotAPointer string
  | KeyUnbound string

datatype sql_error =
    InvalidIdentifier string
  | BadTableName string sql_error
  | NoKeyColumn string
  | CompositeAutoIncrement string nat
  | InvalidKeyColumn string sql_error
  | InvalidColumn string sql_error
  | NamedTwice string string
  | ChosenTwice string
  | UnknownColumn string
  | WrongKeyWidth string nat nat
  | CompositeKey string nat
  | NilSchema
  | TableNotReported string
  | ColumnNotReported string string
  | KeyDiffers string "string list" "string list"
  | AutoIncrementDiffers string bool bool
  | WrongVerb string string
  | NoColumns
  | LengthMismatch
  | NoAutoIncrement string
  | KeyInserted string
  | NoGeneratedKey string
  | BoundTwice string string
  | KeyNotBound string string
  | NotBound string string
  | NothingToUpdate string
  | AlreadyKeyed string
  | BadBindings string "binding_problem list"
  | KeysNotBound string "string list"
  | TableNotCached string
  | LimitAboveOne
  | NoValues
  | ErrNoRows
  | UnboundRequired string "string list"
  | OfDriver string
  | InCall string sql_error

definition ValidateIdentifier :: "string \<Rightarrow> sql_error option" where
  "ValidateIdentifier name = (if \<not> IdentifierRegexp name then Some (InvalidIdentifier name) else None)"

fun ValidateIdentifiers :: "string list \<Rightarrow> sql_error option" where
  "ValidateIdentifiers [] = None"
| "ValidateIdentifiers (name # names) = (if \<not> IdentifierRegexp name then Some (InvalidIdentifier name) else ValidateIdentifiers names)"

section \<open>Columns\<close>

datatype Column = Column (Column_Name: string)

definition NewColumn :: "string \<Rightarrow> (sql_error, Column) result" where
  "NewColumn name = (if \<not> IdentifierRegexp name then Inl (InvalidIdentifier name) else Inr (Column name))"

record Columns =
  colsMap :: "string \<rightharpoonup> Column"
  cols_order :: "string list"

definition newColumns :: "Column list \<Rightarrow> Columns" where
  "newColumns items = \<lparr>colsMap = fold (\<lambda>col m. m(Column_Name col \<mapsto> col)) items Map.empty, cols_order = map Column_Name items\<rparr>"

definition Columns_Len :: "Columns \<Rightarrow> nat" where "Columns_Len c = length (cols_order c)"

definition Columns_Names :: "Columns \<Rightarrow> string list" where "Columns_Names c = cols_order c"

definition Columns_Find :: "Columns \<Rightarrow> string \<Rightarrow> Column option" where "Columns_Find c name = colsMap c name"

text \<open>The ith column; a name that is not in the map reads as the zero column.\<close>

definition Columns_at :: "Columns \<Rightarrow> nat \<Rightarrow> Column" where
  "Columns_at c i = (case colsMap c (cols_order c ! i) of Some col \<Rightarrow> col | None \<Rightarrow> Column [])"

fun choose_walk :: "Columns \<Rightarrow> string list \<Rightarrow> string set \<Rightarrow> Column list \<Rightarrow> (sql_error, Column list) result" where
  "choose_walk c [] seen chosen = Inr chosen"
| "choose_walk c (name # names) seen chosen =
     (if name \<in> seen then Inl (ChosenTwice name)
      else case Columns_Find c name of
        None \<Rightarrow> Inl (UnknownColumn name)
      | Some col \<Rightarrow> choose_walk c names (insert name seen) (chosen @ [col]))"

definition Choose :: "Columns \<Rightarrow> string list \<Rightarrow> (sql_error, Columns) result" where
  "Choose c names = (if names = [] then Inr c else
     case choose_walk c names {} [] of Inl e \<Rightarrow> Inl e | Inr chosen \<Rightarrow> Inr (newColumns chosen))"

section \<open>Tables\<close>

record Table =
  tb_name :: string
  tb_pkColumns :: Columns
  tb_pkAutoIncrement :: bool
  tb_columns :: Columns
  tb_nonPKColumns :: Columns

fun table_walk ::
    "string \<Rightarrow> (sql_error \<Rightarrow> sql_error) \<Rightarrow> string list \<Rightarrow> string set \<Rightarrow> Column list \<Rightarrow> (sql_error, Column list \<times> string set) result" where
  "table_walk table bad [] seen cols = Inr (cols, seen)"
| "table_walk table bad (colName # names) seen cols = (case NewColumn colName of
     Inl e \<Rightarrow> Inl (bad e)
   | Inr col \<Rightarrow> if colName \<in> seen then Inl (NamedTwice table colName)
       else table_walk table bad names (insert colName seen) (cols @ [col]))"

definition NewTable :: "string \<Rightarrow> string list \<Rightarrow> bool \<Rightarrow> string list \<Rightarrow> (sql_error, Table) result" where
  "NewTable name pkColumns pkAutoIncrement nonPKColumns = (case ValidateIdentifier name of
     Some e \<Rightarrow> Inl (BadTableName name e)
   | None \<Rightarrow>
       if pkColumns = [] then Inl (NoKeyColumn name)
       else if pkAutoIncrement \<and> length pkColumns \<noteq> 1 then Inl (CompositeAutoIncrement name (length pkColumns))
       else (case table_walk name (InvalidKeyColumn name) pkColumns {} [] of
         Inl e \<Rightarrow> Inl e
       | Inr (pkCols, seen) \<Rightarrow> (case table_walk name (InvalidColumn name) nonPKColumns seen [] of
           Inl e \<Rightarrow> Inl e
         | Inr (cols, _) \<Rightarrow> Inr \<lparr>tb_name = name, tb_pkColumns = newColumns pkCols, tb_pkAutoIncrement = pkAutoIncrement,
             tb_columns = newColumns (pkCols @ cols), tb_nonPKColumns = newColumns cols\<rparr>)))"

definition ValidatePK :: "Table \<Rightarrow> 'v list \<Rightarrow> sql_error option" where
  "ValidatePK m pk = (if length pk \<noteq> Columns_Len (tb_pkColumns m)
     then Some (WrongKeyWidth (tb_name m) (Columns_Len (tb_pkColumns m)) (length pk)) else None)"

definition SinglePKColumn :: "Table \<Rightarrow> (sql_error, Column) result" where
  "SinglePKColumn m = (if Columns_Len (tb_pkColumns m) \<noteq> 1 then Inl (CompositeKey (tb_name m) (Columns_Len (tb_pkColumns m)))
     else Inr (Columns_at (tb_pkColumns m) 0))"

section \<open>What a database reports\<close>

record ColumnSchema =
  cs_name :: string
  cs_dataType :: string
  cs_nullable :: bool
  cs_hasDefault :: bool
  cs_defaultExpr :: string

record TableSchema =
  ts_name :: string
  ts_pkColumns :: "string list"
  ts_pkAutoIncrement :: bool
  ts_columns :: "ColumnSchema list"
  ts_byName :: "string \<rightharpoonup> nat"

fun index_columns :: "nat \<Rightarrow> ColumnSchema list \<Rightarrow> (string \<rightharpoonup> nat) \<Rightarrow> (string \<rightharpoonup> nat)" where
  "index_columns i [] m = m"
| "index_columns i (col # cols) m = index_columns (Suc i) cols (m(cs_name col \<mapsto> i))"

definition NewTableSchema :: "string \<Rightarrow> string list \<Rightarrow> bool \<Rightarrow> ColumnSchema list \<Rightarrow> TableSchema" where
  "NewTableSchema name pkColumns pkAutoIncrement columns =
     \<lparr>ts_name = name, ts_pkColumns = pkColumns, ts_pkAutoIncrement = pkAutoIncrement, ts_columns = columns,
      ts_byName = index_columns 0 columns Map.empty\<rparr>"

definition TableSchema_Column :: "TableSchema \<Rightarrow> string \<Rightarrow> ColumnSchema option" where
  "TableSchema_Column t name = (case ts_byName t name of None \<Rightarrow> None | Some i \<Rightarrow> Some (ts_columns t ! i))"

record Schema =
  sch_tables :: "string \<rightharpoonup> TableSchema"
  sch_names :: "string list"

definition NewSchema :: "TableSchema list \<Rightarrow> Schema" where
  "NewSchema tables = \<lparr>sch_tables = fold (\<lambda>tbl m. m(ts_name tbl \<mapsto> tbl)) tables Map.empty, sch_names = map ts_name tables\<rparr>"

definition Schema_Table :: "Schema \<Rightarrow> string \<Rightarrow> TableSchema option" where
  "Schema_Table s name = sch_tables s name"

text \<open>\<open>a\<close> gives the set, and every element of \<open>b\<close> is looked up in it.\<close>

definition equalAsSets :: "string list \<Rightarrow> string list \<Rightarrow> bool" where
  "equalAsSets a b \<longleftrightarrow> length a = length b \<and> list_all (\<lambda>s. s \<in> set a) b"

definition verify_table :: "Schema \<Rightarrow> Table \<Rightarrow> sql_error list" where
  "verify_table schema tbl = (case Schema_Table schema (tb_name tbl) of
     None \<Rightarrow> [TableNotReported (tb_name tbl)]
   | Some ts \<Rightarrow>
       map (ColumnNotReported (tb_name tbl)) (filter (\<lambda>name. TableSchema_Column ts name = None) (Columns_Names (tb_columns tbl))) @
       (if \<not> equalAsSets (Columns_Names (tb_pkColumns tbl)) (ts_pkColumns ts)
        then [KeyDiffers (tb_name tbl) (Columns_Names (tb_pkColumns tbl)) (ts_pkColumns ts)] else []) @
       (if tb_pkAutoIncrement tbl \<noteq> ts_pkAutoIncrement ts
        then [AutoIncrementDiffers (tb_name tbl) (tb_pkAutoIncrement tbl) (ts_pkAutoIncrement ts)] else []))"

definition VerifyTablesAgainstSchema :: "Table list \<Rightarrow> Schema option \<Rightarrow> sql_error list" where
  "VerifyTablesAgainstSchema tables schema = (case schema of
     None \<Rightarrow> [NilSchema]
   | Some s \<Rightarrow> concat (map (verify_table s) tables))"

section \<open>Well-formed tables\<close>

text \<open>The key leads, every name is a valid identifier and occurs once, and each column is found under its name.\<close>

definition columns_of :: "string list \<Rightarrow> Columns \<Rightarrow> bool" where
  "columns_of names c \<longleftrightarrow> cols_order c = names \<and> distinct names \<and> list_all IdentifierRegexp names \<and>
     colsMap c = (\<lambda>n. if n \<in> set names then Some (Column n) else None)"

definition table_ok :: "Table \<Rightarrow> bool" where
  "table_ok m \<longleftrightarrow> IdentifierRegexp (tb_name m) \<and>
     (\<exists>pk rest. pk \<noteq> [] \<and> columns_of pk (tb_pkColumns m) \<and> columns_of rest (tb_nonPKColumns m) \<and> columns_of (pk @ rest) (tb_columns m) \<and>
        (tb_pkAutoIncrement m \<longrightarrow> length pk = 1))"

lemma newColumns_of: "distinct ns \<Longrightarrow> list_all IdentifierRegexp ns \<Longrightarrow> columns_of ns (newColumns (map Column ns))"
proof -
  have "fold (\<lambda>col m. m(Column_Name col \<mapsto> col)) (map Column ns) m = (\<lambda>n. if n \<in> set ns then Some (Column n) else m n)" for m
    by (induction ns arbitrary: m) auto
  then show "distinct ns \<Longrightarrow> list_all IdentifierRegexp ns \<Longrightarrow> ?thesis" by (simp add: columns_of_def newColumns_def o_def)
qed

lemma table_walk_ok:
  "table_walk t bad ns seen cols = Inr (cols', seen') \<Longrightarrow>
     cols' = cols @ map Column ns \<and> seen' = seen \<union> set ns \<and> distinct ns \<and> set ns \<inter> seen = {} \<and> list_all IdentifierRegexp ns"
proof (induction ns arbitrary: seen cols)
  case (Cons n ns)
  from Cons.prems have n: "IdentifierRegexp n" "n \<notin> seen"
    and r: "table_walk t bad ns (insert n seen) (cols @ [Column n]) = Inr (cols', seen')"
    by (auto simp: NewColumn_def split: if_splits)
  from Cons.IH [OF r] n show ?case by auto
qed simp

lemma NewTable_ok:
  assumes "NewTable name pk auto rest = Inr m"
  shows "table_ok m" "tb_name m = name" "columns_of pk (tb_pkColumns m)" "columns_of rest (tb_nonPKColumns m)"
    "columns_of (pk @ rest) (tb_columns m)" "tb_pkAutoIncrement m = auto"
proof -
  from assms obtain pkCols seen cols seen' where w: "table_walk name (InvalidKeyColumn name) pk {} [] = Inr (pkCols, seen)"
      "table_walk name (InvalidColumn name) rest seen [] = Inr (cols, seen')"
    and m: "IdentifierRegexp name" "pk \<noteq> []" "\<not> (auto \<and> length pk \<noteq> 1)" "m = \<lparr>tb_name = name, tb_pkColumns = newColumns pkCols, tb_pkAutoIncrement = auto,
             tb_columns = newColumns (pkCols @ cols), tb_nonPKColumns = newColumns cols\<rparr>"
    by (auto simp: NewTable_def ValidateIdentifier_def split: if_splits sum.splits prod.splits)
  from table_walk_ok [OF w(1)] table_walk_ok [OF w(2)]
  have "pkCols @ cols = map Column (pk @ rest)" "pkCols = map Column pk" "cols = map Column rest" "distinct (pk @ rest)"
    "list_all IdentifierRegexp (pk @ rest)" by auto
  then have "columns_of pk (tb_pkColumns m)" "columns_of rest (tb_nonPKColumns m)" "columns_of (pk @ rest) (tb_columns m)"
    unfolding m(4) using newColumns_of [of pk] newColumns_of [of rest] newColumns_of [of "pk @ rest"] by simp_all
  then show "columns_of pk (tb_pkColumns m)" "columns_of rest (tb_nonPKColumns m)" "columns_of (pk @ rest) (tb_columns m)"
    "tb_name m = name" "table_ok m" "tb_pkAutoIncrement m = auto" using m by (auto simp: table_ok_def)
qed

text \<open>\<open>Choose\<close> narrows to the names asked for, in that order, and only to columns of the set.\<close>

lemma choose_walk_ok:
  assumes "columns_of all c"
  shows "choose_walk c ns seen chosen = Inr cols \<Longrightarrow> cols = chosen @ map Column ns \<and> distinct ns \<and> set ns \<inter> seen = {} \<and> set ns \<subseteq> set all"
proof (induction ns arbitrary: seen chosen)
  case (Cons n ns)
  from Cons.prems have n: "n \<notin> seen" "n \<in> set all" and r: "choose_walk c ns (insert n seen) (chosen @ [Column n]) = Inr cols"
    using assms by (auto simp: Columns_Find_def columns_of_def split: if_splits)
  from Cons.IH [OF r] n show ?case by auto
qed simp

lemma Choose_ok:
  assumes "columns_of all c" "Choose c ns = Inr c'"
  shows "columns_of (if ns = [] then all else ns) c'" "distinct ns" "set ns \<subseteq> set all"
proof -
  have "columns_of (if ns = [] then all else ns) c' \<and> distinct ns \<and> set ns \<subseteq> set all"
  proof (cases "ns = []")
    case False
    then obtain cols where w: "choose_walk c ns {} [] = Inr cols" "c' = newColumns cols"
      using assms(2) by (auto simp: Choose_def split: sum.splits)
    note ok = choose_walk_ok [OF assms(1) w(1)]
    have "list_all IdentifierRegexp ns" using ok assms(1) by (auto simp: columns_of_def list_all_iff)
    then show ?thesis using ok w(2) False newColumns_of by auto
  qed (use assms in \<open>auto simp: Choose_def\<close>)
  then show "columns_of (if ns = [] then all else ns) c'" "distinct ns" "set ns \<subseteq> set all" by auto
qed

end
