(* ===== verification/Sql_Build.thy ===== *)
theory Sql_Build
  imports Sql_Tables
begin

text \<open>
  How SQL text is made: conditions and clauses (\<open>gw/sqldbs\<close>), the two dialects, and the statement builders of the
  drivers (\<open>sqldbs/pgsql/db.go\<close>, \<open>sqldbs/mysql/db.go\<close>). \<open>'v\<close> is the type of bind values. A connection to a server is a
  record of what the drivers call on it, on a state \<open>'st\<close> the server changes.
\<close>

section \<open>Conditions\<close>

datatype BinOp = BinOp (bop: string)

definition OpEq :: BinOp where "OpEq = BinOp ''=''"
definition OpNeq :: BinOp where "OpNeq = BinOp ''!=''"
definition OpGt :: BinOp where "OpGt = BinOp ''>''"
definition OpLt :: BinOp where "OpLt = BinOp ''<''"
definition OpGtEq :: BinOp where "OpGtEq = BinOp ''>=''"
definition OpLtEq :: BinOp where "OpLtEq = BinOp ''<=''"
definition OpLike :: BinOp where "OpLike = BinOp ''LIKE''"
definition OpNotLike :: BinOp where "OpNotLike = BinOp ''NOT LIKE''"

lemmas op_defs = OpEq_def OpNeq_def OpGt_def OpLt_def OpGtEq_def OpLtEq_def OpLike_def OpNotLike_def

datatype 'v Cond =
    BinPred Column BinOp 'v
  | InPred Column "'v list"
  | NotInPred Column "'v list"
  | NullPred Column
  | NotNullPred Column
  | CNot "'v Cond"
  | CAnd "'v Cond list"
  | COr "'v Cond list"

definition questions :: "'v list \<Rightarrow> string" where
  "questions vs = join '', '' (map (\<lambda>_. ''?'') vs)"

fun BindRepr :: "'v Cond \<Rightarrow> string \<times> 'v list" where
  "BindRepr (BinPred c op v) = (Column_Name c @ '' '' @ bop op @ '' ?'', [v])"
| "BindRepr (InPred c vs) = (Column_Name c @ '' IN ('' @ questions vs @ '')'', vs)"
| "BindRepr (NotInPred c vs) = (Column_Name c @ '' NOT IN ('' @ questions vs @ '')'', vs)"
| "BindRepr (NullPred c) = (Column_Name c @ '' IS NULL'', [])"
| "BindRepr (NotNullPred c) = (Column_Name c @ '' IS NOT NULL'', [])"
| "BindRepr (CNot c) = (let (s, args) = BindRepr c in (''NOT ('' @ s @ '')'', args))"
| "BindRepr (CAnd cs) = (case map BindRepr cs of
     [] \<Rightarrow> ([], [])
   | [r] \<Rightarrow> r
   | rs \<Rightarrow> (''('' @ join '' AND '' (map fst rs) @ '')'', concat (map snd rs)))"
| "BindRepr (COr cs) = (case map BindRepr cs of
     [] \<Rightarrow> ([], [])
   | [r] \<Rightarrow> r
   | rs \<Rightarrow> (''('' @ join '' OR '' (map fst rs) @ '')'', concat (map snd rs)))"

section \<open>Dialects\<close>

record SqlClient =
  FirstPlaceholder :: string
  NthPlaceholder :: "nat \<Rightarrow> string"
  InPlaceholders :: "nat \<Rightarrow> nat \<Rightarrow> string"
  QuoteIdentifier :: "string \<Rightarrow> string"

definition double_quote :: "char \<Rightarrow> string \<Rightarrow> string" where
  "double_quote q part = concat (map (\<lambda>c. if c = q then [q, q] else [c]) part)"

definition quote_parts :: "char \<Rightarrow> string \<Rightarrow> string" where
  "quote_parts q name = join ''.'' (map (\<lambda>part. [q] @ double_quote q part @ [q]) (Split (CHR ''.'') name))"

definition dollar :: "nat \<Rightarrow> string" where "dollar n = CHR ''$'' # Itoa (int n)"

definition pgsql_Client :: SqlClient where
  "pgsql_Client = \<lparr>FirstPlaceholder = ''$1'', NthPlaceholder = dollar,
     InPlaceholders = (\<lambda>start cnt. join '','' (map (\<lambda>i. dollar (start + i)) [0..<cnt])),
     QuoteIdentifier = quote_parts (CHR 0x22)\<rparr>"

definition mysql_Client :: SqlClient where
  "mysql_Client = \<lparr>FirstPlaceholder = ''?'', NthPlaceholder = (\<lambda>_. ''?''),
     InPlaceholders = (\<lambda>_ cnt. join '','' (replicate cnt ''?'')),
     QuoteIdentifier = quote_parts (CHR 0x60)\<rparr>"

definition QuoteJoinIdentifiers :: "SqlClient \<Rightarrow> string list \<Rightarrow> string" where
  "QuoteJoinIdentifiers c columns = join '', '' (map (QuoteIdentifier c) columns)"

section \<open>Clauses\<close>

fun number_questions :: "SqlClient \<Rightarrow> nat \<Rightarrow> string \<Rightarrow> string" where
  "number_questions cl n [] = []"
| "number_questions cl n (x # raw) =
     (if x = CHR ''?'' then NthPlaceholder cl n @ number_questions cl (Suc n) raw else x # number_questions cl n raw)"

definition WhereClause_Build :: "'v Cond option \<Rightarrow> SqlClient \<Rightarrow> nat \<Rightarrow> string \<times> 'v list" where
  "WhereClause_Build w dbClient startNth = (case w of
     None \<Rightarrow> ([], [])
   | Some c \<Rightarrow> (let (raw, args) = BindRepr c
       in if raw = [] then ([], []) else ('' WHERE '' @ number_questions dbClient startNth raw, args)))"

definition WherePK :: "SqlClient \<Rightarrow> Table \<Rightarrow> nat \<Rightarrow> string" where
  "WherePK c table startNth =
     (let names = Columns_Names (tb_pkColumns table)
      in join '' AND '' (map (\<lambda>(i, name). QuoteIdentifier c name @ '' = '' @ NthPlaceholder c (startNth + i)) (zip [0..<length names] names)))"

record OrderBy =
  ob_Column :: Column
  ob_Desc :: bool

definition OrderBy_String :: "OrderBy \<Rightarrow> string" where
  "OrderBy_String o' = Column_Name (ob_Column o') @ (if ob_Desc o' then '' DESC'' else '' ASC'')"

definition OrderByClause :: "OrderBy list \<Rightarrow> string" where
  "OrderByClause orderBys = (if orderBys = [] then [] else '' ORDER BY '' @
     join '', '' (map (\<lambda>o'. Column_Name (ob_Column o') @ (if ob_Desc o' then '' DESC'' else '' ASC'')) orderBys))"

definition LimitClause :: "int \<Rightarrow> string" where
  "LimitClause limit = (if limit \<le> 0 then [] else '' LIMIT '' @ Itoa limit)"

record 'v QueryOpts =
  qo_WhereCond :: "'v Cond option"
  qo_OrderBys :: "OrderBy list"
  qo_Limit :: int

text \<open>Statements kept as text: \<open>?\<close> becomes numbered, \<open>??\<close> stays.\<close>

fun replace_static :: "char \<Rightarrow> nat \<Rightarrow> string \<Rightarrow> string" where
  "replace_static p cnt [] = []"
| "replace_static p cnt [x] = (if x = CHR ''?'' then p # Itoa (int cnt) else [x])"
| "replace_static p cnt (x # y # s) =
     (if x = CHR ''?'' \<and> y = CHR ''?'' then ''??'' @ replace_static p cnt s
      else if x = CHR ''?'' then (p # Itoa (int cnt)) @ replace_static p (Suc cnt) (y # s)
      else x # replace_static p cnt (y # s))"

definition ReplaceStaticPlaceholders :: "string \<Rightarrow> char \<Rightarrow> string" where
  "ReplaceStaticPlaceholders sql prefix = (if prefix = CHR ''?'' \<or> prefix = CHR 0x00 then sql else replace_static prefix 1 sql)"

text \<open>\<open>strings.ToUpper\<close> as far as a prefix of ASCII letters can tell: besides the letters, the long s and the dotless i.\<close>

definition upper_char :: "char \<Rightarrow> char" where
  "upper_char c = (let k = of_char c :: nat in if 97 \<le> k \<and> k \<le> 122 then char_of (k - 32) else c)"

fun ToUpper :: "string \<Rightarrow> string" where
  "ToUpper (a # b # s) =
     (if a = CHR 0xC5 \<and> b = CHR 0xBF then CHR ''S'' # ToUpper s
      else if a = CHR 0xC4 \<and> b = CHR 0xB1 then CHR ''I'' # ToUpper s
      else upper_char a # ToUpper (b # s))"
| "ToUpper [a] = [upper_char a]"
| "ToUpper [] = []"

definition CheckRawVerb :: "string \<Rightarrow> string \<Rightarrow> string \<Rightarrow> sql_error option" where
  "CheckRawVerb caller verb query = (if take (length verb) (ToUpper (TrimSpace query)) \<noteq> verb then Some (WrongVerb caller verb) else None)"

type_synonym RawSQLStore = "string \<rightharpoonup> string"

definition RawSQLStore_Set :: "string \<Rightarrow> string \<Rightarrow> RawSQLStore \<Rightarrow> RawSQLStore" where
  "RawSQLStore_Set key rawStmt s = s(key \<mapsto> rawStmt)"

section \<open>Drivers\<close>

text \<open>What a driver calls on its connection: a statement run for its count, for its first row and for its rows, a bulk copy,
  and a statement run for the generated key.\<close>

record ('v, 'row, 'rows, 'st) conn =
  cn_Exec :: "string \<Rightarrow> 'v list \<Rightarrow> 'st \<Rightarrow> (sql_error, int) result \<times> 'st"
  cn_QueryRow :: "string \<Rightarrow> 'v list \<Rightarrow> 'st \<Rightarrow> 'row \<times> 'st"
  cn_Query :: "string \<Rightarrow> 'v list \<Rightarrow> 'st \<Rightarrow> (sql_error, 'rows) result \<times> 'st"
  cn_ScanKey :: "'row \<Rightarrow> (sql_error, int) result"
  cn_CopyFrom :: "string list \<Rightarrow> string list \<Rightarrow> 'v list list \<Rightarrow> 'st \<Rightarrow> (sql_error, int) result \<times> 'st"
  cn_LastInsertId :: "string \<Rightarrow> 'v list \<Rightarrow> 'st \<Rightarrow> (sql_error, int) result \<times> 'st"

subsection \<open>Statements the caller wrote\<close>

definition SelectRowRaw :: "('v, 'row, 'rows, 'st) conn \<Rightarrow> string \<Rightarrow> 'v list \<Rightarrow> 'st \<Rightarrow> (sql_error, 'row) result \<times> 'st" where
  "SelectRowRaw cn query args st = (case CheckRawVerb ''SelectRowRaw'' ''SELECT'' query of
     Some e \<Rightarrow> (Inl e, st) | None \<Rightarrow> (let (row, st1) = cn_QueryRow cn query args st in (Inr row, st1)))"

definition SelectRowsRaw :: "('v, 'row, 'rows, 'st) conn \<Rightarrow> string \<Rightarrow> 'v list \<Rightarrow> 'st \<Rightarrow> (sql_error, 'rows) result \<times> 'st" where
  "SelectRowsRaw cn query args st = (case CheckRawVerb ''SelectRowsRaw'' ''SELECT'' query of
     Some e \<Rightarrow> (Inl e, st) | None \<Rightarrow> cn_Query cn query args st)"

definition InsertRowsRaw :: "('v, 'row, 'rows, 'st) conn \<Rightarrow> string \<Rightarrow> 'v list \<Rightarrow> 'st \<Rightarrow> (sql_error, int) result \<times> 'st" where
  "InsertRowsRaw cn query args st = (case CheckRawVerb ''InsertRowsRaw'' ''INSERT'' query of
     Some e \<Rightarrow> (Inl e, st) | None \<Rightarrow> cn_Exec cn query args st)"

definition UpdateRowsRaw :: "('v, 'row, 'rows, 'st) conn \<Rightarrow> string \<Rightarrow> 'v list \<Rightarrow> 'st \<Rightarrow> (sql_error, int) result \<times> 'st" where
  "UpdateRowsRaw cn query args st = (case CheckRawVerb ''UpdateRowsRaw'' ''UPDATE'' query of
     Some e \<Rightarrow> (Inl e, st) | None \<Rightarrow> cn_Exec cn query args st)"

definition DeleteRowsRaw :: "('v, 'row, 'rows, 'st) conn \<Rightarrow> string \<Rightarrow> 'v list \<Rightarrow> 'st \<Rightarrow> (sql_error, int) result \<times> 'st" where
  "DeleteRowsRaw cn query args st = (case CheckRawVerb ''DeleteRowsRaw'' ''DELETE'' query of
     Some e \<Rightarrow> (Inl e, st) | None \<Rightarrow> cn_Exec cn query args st)"

subsection \<open>PostgreSQL\<close>

definition pg_SelectRow ::
    "('v, 'row, 'rows, 'st) conn \<Rightarrow> Table \<Rightarrow> 'v list \<Rightarrow> string list \<Rightarrow> 'st \<Rightarrow> (sql_error, 'row) result \<times> 'st" where
  "pg_SelectRow cn table pkValue colNames st = (case Choose (tb_columns table) colNames of
     Inl e \<Rightarrow> (Inl (InCall ''SelectRow'' e), st)
   | Inr cols \<Rightarrow> (case ValidatePK table pkValue of
       Some e \<Rightarrow> (Inl (InCall ''SelectRow'' e), st)
     | None \<Rightarrow>
         (let query = ''SELECT '' @ QuoteJoinIdentifiers pgsql_Client (Columns_Names cols) @ '' FROM '' @
                QuoteIdentifier pgsql_Client (tb_name table) @ '' WHERE '' @ WherePK pgsql_Client table 1 @ '' LIMIT 1'';
              (row, st1) = cn_QueryRow cn query pkValue st
          in (Inr row, st1))))"

definition pg_SelectRows ::
    "('v, 'row, 'rows, 'st) conn \<Rightarrow> Table \<Rightarrow> 'v Cond option \<Rightarrow> string list \<Rightarrow> 'st \<Rightarrow> (sql_error, 'rows) result \<times> 'st" where
  "pg_SelectRows cn table whereC colNames st = (case Choose (tb_columns table) colNames of
     Inl e \<Rightarrow> (Inl (InCall ''SelectRows'' e), st)
   | Inr cols \<Rightarrow>
       (let query = ''SELECT '' @ QuoteJoinIdentifiers pgsql_Client (Columns_Names cols) @ '' FROM '' @
              QuoteIdentifier pgsql_Client (tb_name table);
            (whereSQL, whereArgs) = WhereClause_Build whereC pgsql_Client 1
        in cn_Query cn (query @ whereSQL) whereArgs st))"

definition dollars :: "nat \<Rightarrow> string list" where
  "dollars n = map (\<lambda>i. dollar (i + 1)) [0..<n]"

definition pg_InsertRow ::
    "('v, 'row, 'rows, 'st) conn \<Rightarrow> Table \<Rightarrow> string list \<Rightarrow> 'v list \<Rightarrow> 'st \<Rightarrow> sql_error option \<times> 'st" where
  "pg_InsertRow cn table columns values st =
     (if columns = [] then (Some (InCall ''InsertRow'' NoColumns), st)
      else if length columns \<noteq> length values then (Some (InCall ''InsertRow'' LengthMismatch), st)
      else case Choose (tb_columns table) columns of
        Inl e \<Rightarrow> (Some (InCall ''InsertRow'' e), st)
      | Inr _ \<Rightarrow>
          (let query = ''INSERT INTO '' @ QuoteIdentifier pgsql_Client (tb_name table) @ '' ('' @ QuoteJoinIdentifiers pgsql_Client columns @
                 '') VALUES ('' @ join '', '' (dollars (length columns)) @ '')'';
               (r, st1) = cn_Exec cn query values st
           in (case r of Inl e \<Rightarrow> Some e | Inr _ \<Rightarrow> None, st1)))"

definition pg_InsertRows ::
    "('v, 'row, 'rows, 'st) conn \<Rightarrow> Table \<Rightarrow> string list \<Rightarrow> 'v list list \<Rightarrow> 'st \<Rightarrow> (sql_error, int) result \<times> 'st" where
  "pg_InsertRows cn table columns rowValues st =
     (if columns = [] then (Inl (InCall ''InsertRows'' NoColumns), st)
      else case Choose (tb_columns table) columns of
        Inl e \<Rightarrow> (Inl (InCall ''InsertRows'' e), st)
      | Inr _ \<Rightarrow> if rowValues = [] then (Inr 0, st)
          else cn_CopyFrom cn (Split (CHR ''.'') (tb_name table)) columns rowValues st)"

text \<open>The checks both drivers make before an insert with a generated key.\<close>

definition check_auto_insert :: "Table \<Rightarrow> string list \<Rightarrow> (sql_error, Column) result" where
  "check_auto_insert table columns =
     (if \<not> tb_pkAutoIncrement table then Inl (NoAutoIncrement (tb_name table))
      else case SinglePKColumn table of
        Inl e \<Rightarrow> Inl (InCall ''InsertRowAutoIncrementingPK'' e)
      | Inr pkCol \<Rightarrow>
          if columns = [] then Inl (InCall ''InsertRowAutoIncrementingPK'' NoColumns)
          else if Column_Name pkCol \<in> set columns then Inl (KeyInserted (Column_Name pkCol))
          else case Choose (tb_columns table) columns of
            Inl e \<Rightarrow> Inl (InCall ''InsertRowAutoIncrementingPK'' e)
          | Inr _ \<Rightarrow> Inr pkCol)"

definition pg_buildInsertAutoIncrementingPK :: "Table \<Rightarrow> string list \<Rightarrow> (sql_error, string) result" where
  "pg_buildInsertAutoIncrementingPK table columns = (case check_auto_insert table columns of
     Inl e \<Rightarrow> Inl e
   | Inr pkCol \<Rightarrow> Inr (''INSERT INTO '' @ QuoteIdentifier pgsql_Client (tb_name table) @ '' ('' @ QuoteJoinIdentifiers pgsql_Client columns @
       '') VALUES ('' @ join '', '' (dollars (length columns)) @ '') RETURNING '' @ QuoteIdentifier pgsql_Client (Column_Name pkCol)))"

definition pg_InsertRowAutoIncrementingPK ::
    "('v, 'row, 'rows, 'st) conn \<Rightarrow> Table \<Rightarrow> string list \<Rightarrow> 'v list \<Rightarrow> 'st \<Rightarrow> (sql_error, int) result \<times> 'st" where
  "pg_InsertRowAutoIncrementingPK cn table columns values st = (case pg_buildInsertAutoIncrementingPK table columns of
     Inl e \<Rightarrow> (Inl e, st)
   | Inr query \<Rightarrow> (let (row, st1) = cn_QueryRow cn query values st in (cn_ScanKey cn row, st1)))"

definition set_clauses :: "(string \<Rightarrow> string) \<Rightarrow> (nat \<Rightarrow> string) \<Rightarrow> string list \<Rightarrow> string" where
  "set_clauses q ph columns = join '', '' (map (\<lambda>(i, col). q col @ '' = '' @ ph (i + 1)) (zip [0..<length columns] columns))"

definition pg_UpdateRow ::
    "('v, 'row, 'rows, 'st) conn \<Rightarrow> Table \<Rightarrow> 'v list \<Rightarrow> string list \<Rightarrow> 'v list \<Rightarrow> 'st \<Rightarrow> (sql_error, int) result \<times> 'st" where
  "pg_UpdateRow cn table pkValue columns values st =
     (if columns = [] then (Inl (InCall ''UpdateRow'' NoColumns), st)
      else if length columns \<noteq> length values then (Inl (InCall ''UpdateRow'' LengthMismatch), st)
      else case Choose (tb_columns table) columns of
        Inl e \<Rightarrow> (Inl (InCall ''UpdateRow'' e), st)
      | Inr _ \<Rightarrow> (case ValidatePK table pkValue of
          Some e \<Rightarrow> (Inl (InCall ''UpdateRow'' e), st)
        | None \<Rightarrow> cn_Exec cn (''UPDATE '' @ QuoteIdentifier pgsql_Client (tb_name table) @ '' SET '' @
              set_clauses (QuoteIdentifier pgsql_Client) dollar columns @ '' WHERE '' @ WherePK pgsql_Client table (length columns + 1))
            (values @ pkValue) st))"

definition pg_UpdateRows ::
    "('v, 'row, 'rows, 'st) conn \<Rightarrow> Table \<Rightarrow> string list \<Rightarrow> 'v list \<Rightarrow> 'v Cond option \<Rightarrow> 'st \<Rightarrow> (sql_error, int) result \<times> 'st" where
  "pg_UpdateRows cn table columns values whereC st =
     (if columns = [] \<or> length columns \<noteq> length values then (Inl (InCall ''UpdateRows'' LengthMismatch), st)
      else case Choose (tb_columns table) columns of
        Inl e \<Rightarrow> (Inl (InCall ''UpdateRows'' e), st)
      | Inr _ \<Rightarrow>
          (let query = ''UPDATE '' @ QuoteIdentifier pgsql_Client (tb_name table) @ '' SET '' @
                 set_clauses (QuoteIdentifier pgsql_Client) dollar columns;
               (whereSQL, whereArgs) = WhereClause_Build whereC pgsql_Client (length columns + 1)
           in cn_Exec cn (query @ whereSQL) (values @ whereArgs) st))"

definition pg_DeleteRow :: "('v, 'row, 'rows, 'st) conn \<Rightarrow> Table \<Rightarrow> 'v list \<Rightarrow> 'st \<Rightarrow> (sql_error, int) result \<times> 'st" where
  "pg_DeleteRow cn table pkValue st = (case ValidatePK table pkValue of
     Some e \<Rightarrow> (Inl (InCall ''DeleteRow'' e), st)
   | None \<Rightarrow> cn_Exec cn (''DELETE FROM '' @ QuoteIdentifier pgsql_Client (tb_name table) @ '' WHERE '' @ WherePK pgsql_Client table 1) pkValue st)"

definition pg_DeleteRows :: "('v, 'row, 'rows, 'st) conn \<Rightarrow> Table \<Rightarrow> 'v Cond option \<Rightarrow> 'st \<Rightarrow> (sql_error, int) result \<times> 'st" where
  "pg_DeleteRows cn table whereC st =
     (let query = ''DELETE FROM '' @ QuoteIdentifier pgsql_Client (tb_name table);
          (whereSQL, whereArgs) = WhereClause_Build whereC pgsql_Client 1
      in cn_Exec cn (query @ whereSQL) whereArgs st)"

subsection \<open>MySQL\<close>

text \<open>The placeholders of a condition are used as they are.\<close>

definition my_where :: "'v Cond option \<Rightarrow> string \<times> 'v list" where
  "my_where whereC = (case whereC of
     None \<Rightarrow> ([], [])
   | Some c \<Rightarrow> (let (whereRaw, whereArgs) = BindRepr c in if whereRaw \<noteq> [] then ('' WHERE '' @ whereRaw, whereArgs) else ([], [])))"

definition my_SelectRow ::
    "('v, 'row, 'rows, 'st) conn \<Rightarrow> Table \<Rightarrow> 'v list \<Rightarrow> string list \<Rightarrow> 'st \<Rightarrow> (sql_error, 'row) result \<times> 'st" where
  "my_SelectRow cn table pkValue colNames st = (case Choose (tb_columns table) colNames of
     Inl e \<Rightarrow> (Inl (InCall ''SelectRow'' e), st)
   | Inr cols \<Rightarrow> (case ValidatePK table pkValue of
       Some e \<Rightarrow> (Inl (InCall ''SelectRow'' e), st)
     | None \<Rightarrow>
         (let query = ''SELECT '' @ QuoteJoinIdentifiers mysql_Client (Columns_Names cols) @ '' FROM '' @
                QuoteIdentifier mysql_Client (tb_name table) @ '' WHERE '' @ WherePK mysql_Client table 1 @ '' LIMIT 1'';
              (row, st1) = cn_QueryRow cn query pkValue st
          in (Inr row, st1))))"

definition my_SelectRows ::
    "('v, 'row, 'rows, 'st) conn \<Rightarrow> Table \<Rightarrow> 'v Cond option \<Rightarrow> string list \<Rightarrow> 'st \<Rightarrow> (sql_error, 'rows) result \<times> 'st" where
  "my_SelectRows cn table whereC colNames st = (case Choose (tb_columns table) colNames of
     Inl e \<Rightarrow> (Inl (InCall ''SelectRows'' e), st)
   | Inr cols \<Rightarrow>
       (let query = ''SELECT '' @ QuoteJoinIdentifiers mysql_Client (Columns_Names cols) @ '' FROM '' @
              QuoteIdentifier mysql_Client (tb_name table);
            (whereSQL, whereArgs) = my_where whereC
        in cn_Query cn (query @ whereSQL) whereArgs st))"

text \<open>\<open>strings.Repeat (x + ", ", n - 1) + x\<close>.\<close>

definition repeat_list :: "string \<Rightarrow> nat \<Rightarrow> string" where
  "repeat_list x n = concat (replicate (n - 1) (x @ '', '')) @ x"

definition my_InsertRow ::
    "('v, 'row, 'rows, 'st) conn \<Rightarrow> Table \<Rightarrow> string list \<Rightarrow> 'v list \<Rightarrow> 'st \<Rightarrow> sql_error option \<times> 'st" where
  "my_InsertRow cn table columns values st =
     (if columns = [] then (Some (InCall ''InsertRow'' NoColumns), st)
      else if length columns \<noteq> length values then (Some (InCall ''InsertRow'' LengthMismatch), st)
      else case Choose (tb_columns table) columns of
        Inl e \<Rightarrow> (Some (InCall ''InsertRow'' e), st)
      | Inr _ \<Rightarrow>
          (let query = ''INSERT INTO '' @ QuoteIdentifier mysql_Client (tb_name table) @ '' ('' @ QuoteJoinIdentifiers mysql_Client columns @
                 '') VALUES ('' @ repeat_list ''?'' (length columns) @ '')'';
               (r, st1) = cn_Exec cn query values st
           in (case r of Inl e \<Rightarrow> Some e | Inr _ \<Rightarrow> None, st1)))"

definition my_InsertRows ::
    "('v, 'row, 'rows, 'st) conn \<Rightarrow> Table \<Rightarrow> string list \<Rightarrow> 'v list list \<Rightarrow> 'st \<Rightarrow> (sql_error, int) result \<times> 'st" where
  "my_InsertRows cn table columns rowValues st =
     (if columns = [] then (Inl (InCall ''InsertRows'' NoColumns), st)
      else case Choose (tb_columns table) columns of
        Inl e \<Rightarrow> (Inl (InCall ''InsertRows'' e), st)
      | Inr _ \<Rightarrow> if rowValues = [] then (Inr 0, st)
          else cn_Exec cn (''INSERT INTO '' @ QuoteIdentifier mysql_Client (tb_name table) @ '' ('' @ QuoteJoinIdentifiers mysql_Client columns @
                 '') VALUES '' @ repeat_list (''('' @ repeat_list ''?'' (length columns) @ '')'') (length rowValues))
               (concat rowValues) st)"

definition my_buildInsertAutoIncrementingPK :: "Table \<Rightarrow> string list \<Rightarrow> (sql_error, string) result" where
  "my_buildInsertAutoIncrementingPK table columns = (case check_auto_insert table columns of
     Inl e \<Rightarrow> Inl e
   | Inr pkCol \<Rightarrow> Inr (''INSERT INTO '' @ QuoteIdentifier mysql_Client (tb_name table) @ '' ('' @ QuoteJoinIdentifiers mysql_Client columns @
       '') VALUES ('' @ repeat_list ''?'' (length columns) @ '')''))"

definition autoIncrementPK :: "(sql_error, int) result \<Rightarrow> string \<Rightarrow> (sql_error, int) result" where
  "autoIncrementPK lastInsertId table = (case lastInsertId of
     Inl e \<Rightarrow> Inl e | Inr pk \<Rightarrow> if pk = 0 then Inl (NoGeneratedKey table) else Inr pk)"

definition my_InsertRowAutoIncrementingPK ::
    "('v, 'row, 'rows, 'st) conn \<Rightarrow> Table \<Rightarrow> string list \<Rightarrow> 'v list \<Rightarrow> 'st \<Rightarrow> (sql_error, int) result \<times> 'st" where
  "my_InsertRowAutoIncrementingPK cn table columns values st = (case my_buildInsertAutoIncrementingPK table columns of
     Inl e \<Rightarrow> (Inl e, st)
   | Inr query \<Rightarrow> (let (r, st1) = cn_LastInsertId cn query values st in (autoIncrementPK r (tb_name table), st1)))"

definition my_UpdateRow ::
    "('v, 'row, 'rows, 'st) conn \<Rightarrow> Table \<Rightarrow> 'v list \<Rightarrow> string list \<Rightarrow> 'v list \<Rightarrow> 'st \<Rightarrow> (sql_error, int) result \<times> 'st" where
  "my_UpdateRow cn table pkValue columns values st =
     (if columns = [] then (Inl (InCall ''UpdateRow'' NoColumns), st)
      else if length columns \<noteq> length values then (Inl (InCall ''UpdateRow'' LengthMismatch), st)
      else case Choose (tb_columns table) columns of
        Inl e \<Rightarrow> (Inl (InCall ''UpdateRow'' e), st)
      | Inr _ \<Rightarrow> (case ValidatePK table pkValue of
          Some e \<Rightarrow> (Inl (InCall ''UpdateRow'' e), st)
        | None \<Rightarrow> cn_Exec cn (''UPDATE '' @ QuoteIdentifier mysql_Client (tb_name table) @ '' SET '' @
              set_clauses (QuoteIdentifier mysql_Client) (\<lambda>_. ''?'') columns @ '' WHERE '' @ WherePK mysql_Client table (length columns + 1))
            (values @ pkValue) st))"

definition my_UpdateRows ::
    "('v, 'row, 'rows, 'st) conn \<Rightarrow> Table \<Rightarrow> string list \<Rightarrow> 'v list \<Rightarrow> 'v Cond option \<Rightarrow> 'st \<Rightarrow> (sql_error, int) result \<times> 'st" where
  "my_UpdateRows cn table columns values whereC st =
     (if columns = [] \<or> length columns \<noteq> length values then (Inl (InCall ''UpdateRows'' LengthMismatch), st)
      else case Choose (tb_columns table) columns of
        Inl e \<Rightarrow> (Inl (InCall ''UpdateRows'' e), st)
      | Inr _ \<Rightarrow>
          (let query = ''UPDATE '' @ QuoteIdentifier mysql_Client (tb_name table) @ '' SET '' @
                 set_clauses (QuoteIdentifier mysql_Client) (\<lambda>_. ''?'') columns;
               (whereSQL, whereArgs) = my_where whereC
           in cn_Exec cn (query @ whereSQL) (values @ whereArgs) st))"

definition my_DeleteRow :: "('v, 'row, 'rows, 'st) conn \<Rightarrow> Table \<Rightarrow> 'v list \<Rightarrow> 'st \<Rightarrow> (sql_error, int) result \<times> 'st" where
  "my_DeleteRow cn table pkValue st = (case ValidatePK table pkValue of
     Some e \<Rightarrow> (Inl (InCall ''DeleteRow'' e), st)
   | None \<Rightarrow> cn_Exec cn (''DELETE FROM '' @ QuoteIdentifier mysql_Client (tb_name table) @ '' WHERE '' @ WherePK mysql_Client table 1) pkValue st)"

definition my_DeleteRows :: "('v, 'row, 'rows, 'st) conn \<Rightarrow> Table \<Rightarrow> 'v Cond option \<Rightarrow> 'st \<Rightarrow> (sql_error, int) result \<times> 'st" where
  "my_DeleteRows cn table whereC st =
     (let query = ''DELETE FROM '' @ QuoteIdentifier mysql_Client (tb_name table);
          (whereSQL, whereArgs) = my_where whereC
      in cn_Exec cn (query @ whereSQL) whereArgs st)"

end
