(* ===== verification/Sql_Read.thy ===== *)
theory Sql_Read
  imports Sql_Build
begin

text \<open>
  How a server reads the text the drivers build: the lexical structure and the grammar of the statements and conditions
  that occur, as far as they occur. A dialect has its quote character, the words it reserves and what it makes of
  an unquoted name (\<open>dl_fold\<close>: PostgreSQL reads it in lower case). Anonymous placeholders stand for the arguments in the
  order they appear.
\<close>

section \<open>Tokens\<close>

datatype token = Word string | Quoted string | Ph "nat option" | Sym string | Punct char

definition word_char :: "char \<Rightarrow> bool" where "word_char c \<longleftrightarrow> ident_char c \<or> c = CHR ''.''"

definition sym_char :: "char \<Rightarrow> bool" where "sym_char c \<longleftrightarrow> c \<in> set ''=!<>''"

definition digit :: "char \<Rightarrow> bool" where "digit c \<longleftrightarrow> digit_val c \<noteq> None"

text \<open>The rest of a quoted name, in which the quote character is doubled.\<close>

fun read_quoted :: "char \<Rightarrow> string \<Rightarrow> (string \<times> string) option" where
  "read_quoted q [] = None"
| "read_quoted q (c # s) =
     (if c \<noteq> q then map_option (\<lambda>(w, r). (c # w, r)) (read_quoted q s)
      else case s of
        [] \<Rightarrow> Some ([], [])
      | d # r \<Rightarrow> if d = q then map_option (\<lambda>(w, r'). (q # w, r')) (read_quoted q r) else Some ([], s))"

lemma read_quoted_shorter: "read_quoted q s = Some (w, r) \<Longrightarrow> length r < length s"
proof (induction q s arbitrary: w r rule: read_quoted.induct)
  case (2 q c s)
  show ?case
  proof (cases "c \<noteq> q")
    case True
    with 2(3) obtain w' where "read_quoted q s = Some (w', r)" by auto
    from 2(1) [OF True this] show ?thesis by simp
  next
    case False
    then show ?thesis
    proof (cases s)
      case (Cons d t)
      show ?thesis
      proof (cases "d = q")
        case True
        with 2(3) False Cons obtain w' where r: "read_quoted q t = Some (w', r)" by auto
        from False have "\<not> c \<noteq> q" by simp
        from 2(2) [OF this Cons True r] Cons show ?thesis by simp
      qed (use 2(3) False Cons in auto)
    qed (use 2(3) False in auto)
  qed
qed simp

definition cons_token :: "token \<Rightarrow> token list option \<Rightarrow> token list option" where
  "cons_token t ts = map_option (Cons t) ts"

function lex :: "char \<Rightarrow> string \<Rightarrow> token list option" where
  "lex q [] = Some []"
| "lex q (c # s) =
     (if c = q then (case read_quoted q s of None \<Rightarrow> None | Some (w, r) \<Rightarrow> cons_token (Quoted w) (lex q r))
      else if c = CHR '' '' then lex q s
      else if ident_char c then cons_token (Word (c # takeWhile word_char s)) (lex q (dropWhile word_char s))
      else if c = CHR ''?'' then cons_token (Ph None) (lex q s)
      else if c = CHR ''$'' then
        (case ParseUint10 (takeWhile digit s) of
           Some n \<Rightarrow> cons_token (Ph (Some n)) (lex q (dropWhile digit s))
         | None \<Rightarrow> None)
      else if sym_char c then cons_token (Sym (c # takeWhile sym_char s)) (lex q (dropWhile sym_char s))
      else if c \<in> set ''(),.'' then cons_token (Punct c) (lex q s)
      else None)"
  by pat_completeness auto
termination
  by (relation "measure (\<lambda>(_, s). length s)") (auto simp: less_Suc_eq_le length_dropWhile_le dest: read_quoted_shorter)

declare lex.simps(2) [simp del]

fun settle :: "nat \<Rightarrow> token list \<Rightarrow> token list" where
  "settle k [] = []"
| "settle k (Ph None # ts) = Ph (Some k) # settle (Suc k) ts"
| "settle k (t # ts) = t # settle k ts"

section \<open>Conditions\<close>

record Dialect =
  dl_quote :: char
  dl_fold :: "string \<Rightarrow> string"
  dl_reserved :: "string \<Rightarrow> bool"

fun parse_items :: "token list \<Rightarrow> (nat list \<times> token list) option" where
  "parse_items (Ph (Some n) # Punct c # ts) =
     (if c = CHR '','' then map_option (\<lambda>(ns, r). (n # ns, r)) (parse_items ts)
      else if c = CHR '')'' then Some ([n], ts) else None)"
| "parse_items _ = None"

definition parse_list :: "token list \<Rightarrow> (nat list \<times> token list) option" where
  "parse_list ts = (case ts of Punct c # r \<Rightarrow> if c = CHR ''('' then parse_items r else None | _ \<Rightarrow> None)"

definition parse_value :: "Column \<Rightarrow> string \<Rightarrow> token list \<Rightarrow> (nat Cond \<times> token list) option" where
  "parse_value col opt ts = (case ts of Ph (Some n) # r \<Rightarrow> Some (BinPred col (BinOp opt) n, r) | _ \<Rightarrow> None)"

definition parse_pred :: "Column \<Rightarrow> token list \<Rightarrow> (nat Cond \<times> token list) option" where
  "parse_pred col ts = (case ts of
     Sym s # r \<Rightarrow> if s \<in> {''='', ''!='', ''>'', ''<'', ''>='', ''<=''} then parse_value col s r else None
   | Word a # r \<Rightarrow>
       if a = ''LIKE'' then parse_value col ''LIKE'' r
       else if a = ''IN'' then map_option (\<lambda>(ns, r'). (InPred col ns, r')) (parse_list r)
       else if a = ''NOT'' then (case r of
           Word b # r' \<Rightarrow>
             if b = ''LIKE'' then parse_value col ''NOT LIKE'' r'
             else if b = ''IN'' then map_option (\<lambda>(ns, r''). (NotInPred col ns, r'')) (parse_list r') else None
         | _ \<Rightarrow> None)
       else if a = ''IS'' then (case r of
           Word b # r' \<Rightarrow>
             if b = ''NULL'' then Some (NullPred col, r')
             else if b = ''NOT'' then (case r' of Word d # r'' \<Rightarrow> if d = ''NULL'' then Some (NotNullPred col, r'') else None | _ \<Rightarrow> None)
             else None
         | _ \<Rightarrow> None)
       else None
   | _ \<Rightarrow> None)"

definition close_paren :: "('a \<times> token list) option \<Rightarrow> ('a \<times> token list) option" where
  "close_paren r = (case r of Some (x, Punct c # ts) \<Rightarrow> if c = CHR '')'' then Some (x, ts) else None | _ \<Rightarrow> None)"

fun parse_cond :: "Dialect \<Rightarrow> nat \<Rightarrow> token list \<Rightarrow> (nat Cond \<times> token list) option"
  and parse_chain :: "Dialect \<Rightarrow> nat \<Rightarrow> string \<Rightarrow> token list \<Rightarrow> (nat Cond list \<times> token list) option" where
  "parse_cond D 0 ts = None"
| "parse_cond D (Suc f) ts = (case ts of
     Punct p # r \<Rightarrow>
       if p = CHR ''('' then (case parse_cond D f r of
           Some (c, Word w # r1) \<Rightarrow>
             if w = ''AND'' then map_option (\<lambda>(cs, r2). (CAnd (c # cs), r2)) (close_paren (parse_chain D f ''AND'' (Word w # r1)))
             else if w = ''OR'' then map_option (\<lambda>(cs, r2). (COr (c # cs), r2)) (close_paren (parse_chain D f ''OR'' (Word w # r1)))
             else None
         | _ \<Rightarrow> None)
       else None
   | Word w # r \<Rightarrow>
       if w = ''NOT'' then (case r of
           Punct p # r1 \<Rightarrow> if p = CHR ''('' then map_option (\<lambda>(c, r2). (CNot c, r2)) (close_paren (parse_cond D f r1)) else None
         | _ \<Rightarrow> None)
       else if dl_reserved D w then None
       else parse_pred (Column (dl_fold D w)) r
   | _ \<Rightarrow> None)"
| "parse_chain D 0 w ts = None"
| "parse_chain D (Suc f) w ts = (case ts of
     Word a # r \<Rightarrow>
       if a = w then (case parse_cond D f r of
           Some (c, r1) \<Rightarrow> map_option (\<lambda>(cs, r2). (c # cs, r2)) (parse_chain D f w r1)
         | None \<Rightarrow> None)
       else Some ([], ts)
   | _ \<Rightarrow> Some ([], ts))"

section \<open>Statements\<close>

text \<open>What a statement asks for: a selection (of the first row, if limited), an insertion (with the column to be returned), an update, a
  deletion. Without a condition it is about every row.\<close>

datatype 'v ast =
    ASelect "string list" string "'v Cond option" bool
  | AInsert string "string list" "'v list list" "string option"
  | AUpdate string "(string \<times> 'v) list" "'v Cond option"
  | ADelete string "'v Cond option"

fun parse_parts :: "token list \<Rightarrow> (string list \<times> token list) option" where
  "parse_parts (Quoted p # Punct c # ts) =
     (if c = CHR ''.'' then map_option (\<lambda>(ps, r). (p # ps, r)) (parse_parts ts) else Some ([p], Punct c # ts))"
| "parse_parts (Quoted p # ts) = Some ([p], ts)"
| "parse_parts _ = None"

definition parse_name :: "token list \<Rightarrow> (string \<times> token list) option" where
  "parse_name ts = map_option (\<lambda>(ps, r). (join ''.'' ps, r)) (parse_parts ts)"

definition parse_assign :: "token list \<Rightarrow> ((string \<times> nat) \<times> token list) option" where
  "parse_assign ts = (case parse_name ts of
     Some (name, Sym s # Ph (Some n) # r) \<Rightarrow> if s = ''='' then Some ((name, n), r) else None
   | _ \<Rightarrow> None)"

fun parse_sep :: "(token list \<Rightarrow> ('a \<times> token list) option) \<Rightarrow> token \<Rightarrow> nat \<Rightarrow> token list \<Rightarrow> ('a list \<times> token list) option" where
  "parse_sep p s 0 ts = None"
| "parse_sep p s (Suc f) ts = (case p ts of
     None \<Rightarrow> None
   | Some (x, []) \<Rightarrow> Some ([x], [])
   | Some (x, t # r) \<Rightarrow> if t = s then map_option (\<lambda>(xs, r'). (x # xs, r')) (parse_sep p s f r) else Some ([x], t # r))"

definition key_cond :: "(string \<times> 'v) list \<Rightarrow> 'v Cond" where
  "key_cond ps = (case map (\<lambda>(n, v). BinPred (Column n) OpEq v) ps of [c] \<Rightarrow> c | cs \<Rightarrow> CAnd cs)"

definition parse_where :: "Dialect \<Rightarrow> nat \<Rightarrow> token list \<Rightarrow> (nat Cond option \<times> token list) option" where
  "parse_where D f ts = (case ts of
     Word w # r \<Rightarrow>
       if w = ''WHERE'' then (case r of
           Quoted _ # _ \<Rightarrow> map_option (\<lambda>(ps, r'). (Some (key_cond ps), r')) (parse_sep parse_assign (Word ''AND'') f r)
         | _ \<Rightarrow> map_option (\<lambda>(c, r'). (Some c, r')) (parse_cond D f r))
       else Some (None, ts)
   | _ \<Rightarrow> Some (None, ts))"

definition parse_stmt :: "Dialect \<Rightarrow> nat \<Rightarrow> token list \<Rightarrow> nat ast option" where
  "parse_stmt D f ts = (case ts of
     Word w # r \<Rightarrow>
       if w = ''SELECT'' then
         (case parse_sep parse_name (Punct (CHR '','')) f r of
            Some (cols, Word a # r1) \<Rightarrow> if a \<noteq> ''FROM'' then None else (case parse_name r1 of
              Some (table, r2) \<Rightarrow> (case parse_where D f r2 of
                Some (c, r3) \<Rightarrow> if r3 = [] then Some (ASelect cols table c False)
                  else if r3 = [Word ''LIMIT'', Word ''1''] then Some (ASelect cols table c True) else None
              | None \<Rightarrow> None)
            | None \<Rightarrow> None)
          | _ \<Rightarrow> None)
       else if w = ''DELETE'' then
         (case r of
            Word a # r1 \<Rightarrow> if a \<noteq> ''FROM'' then None else (case parse_name r1 of
              Some (table, r2) \<Rightarrow> (case parse_where D f r2 of Some (c, []) \<Rightarrow> Some (ADelete table c) | _ \<Rightarrow> None)
            | None \<Rightarrow> None)
          | _ \<Rightarrow> None)
       else if w = ''UPDATE'' then
         (case parse_name r of
            Some (table, Word a # r1) \<Rightarrow> if a \<noteq> ''SET'' then None else (case parse_sep parse_assign (Punct (CHR '','')) f r1 of
              Some (sets, r2) \<Rightarrow> (case parse_where D f r2 of Some (c, []) \<Rightarrow> Some (AUpdate table sets c) | _ \<Rightarrow> None)
            | None \<Rightarrow> None)
          | _ \<Rightarrow> None)
       else if w = ''INSERT'' then
         (case r of
            Word a # r1 \<Rightarrow> if a \<noteq> ''INTO'' then None else (case parse_name r1 of
              Some (table, Punct p # r2) \<Rightarrow> if p \<noteq> CHR ''('' then None else
                (case close_paren (parse_sep parse_name (Punct (CHR '','')) f r2) of
                   Some (cols, Word b # r3) \<Rightarrow> if b \<noteq> ''VALUES'' then None else (case parse_sep parse_list (Punct (CHR '','')) f r3 of
                     Some (rows, []) \<Rightarrow> Some (AInsert table cols rows None)
                   | Some (rows, Word d # r4) \<Rightarrow> if d \<noteq> ''RETURNING'' then None
                       else (case parse_name r4 of Some (col, []) \<Rightarrow> Some (AInsert table cols rows (Some col)) | _ \<Rightarrow> None)
                   | _ \<Rightarrow> None)
                 | _ \<Rightarrow> None)
            | _ \<Rightarrow> None)
          | _ \<Rightarrow> None)
       else None
   | _ \<Rightarrow> None)"

text \<open>A statement is refused unless its placeholders are exactly its arguments.\<close>

definition read_stmt :: "Dialect \<Rightarrow> string \<Rightarrow> 'v list \<Rightarrow> 'v ast option" where
  "read_stmt D query args = (case lex (dl_quote D) query of
     None \<Rightarrow> None
   | Some ts \<Rightarrow> (case parse_stmt D (length ts + 1) (settle 1 ts) of
       None \<Rightarrow> None
     | Some a \<Rightarrow> if set_ast a = {1..length args} then Some (map_ast (\<lambda>k. args ! (k - 1)) a) else None))"

end
