(* ===== verification/Sql_Correct.thy ===== *)
theory Sql_Correct
  imports Sql_Read
begin

text \<open>
  The text of the builders, read as a server reads it (\<open>Sql_Read\<close>): a condition reads back as the condition, a quoted name as the
  name, and the statements of both drivers as the operation that was asked for.
\<close>

section \<open>Texts and their tokens\<close>

text \<open>\<open>stop\<close> is what may follow a word, a symbol or a number; \<open>open_lexes\<close> are texts that may be followed by anything.\<close>

definition stop :: "string \<Rightarrow> bool" where
  "stop s \<longleftrightarrow> s = [] \<or> hd s \<in> set '' ),''"

definition open_lexes :: "char \<Rightarrow> string \<Rightarrow> token list \<Rightarrow> bool" where
  "open_lexes q s ts \<longleftrightarrow> (\<forall>rest us. lex q rest = Some us \<longrightarrow> lex q (s @ rest) = Some (ts @ us))"

definition lexes :: "char \<Rightarrow> string \<Rightarrow> token list \<Rightarrow> bool" where
  "lexes q s ts \<longleftrightarrow> (\<forall>rest us. stop rest \<longrightarrow> lex q rest = Some us \<longrightarrow> lex q (s @ rest) = Some (ts @ us))"

lemma open_lexesI: "(\<And>rest us. lex q rest = Some us \<Longrightarrow> lex q (s @ rest) = Some (ts @ us)) \<Longrightarrow> open_lexes q s ts"
  by (simp add: open_lexes_def)

lemma lexesI: "(\<And>rest us. stop rest \<Longrightarrow> lex q rest = Some us \<Longrightarrow> lex q (s @ rest) = Some (ts @ us)) \<Longrightarrow> lexes q s ts"
  by (simp add: lexes_def)

lemma open_lexes_lexes: "open_lexes q s ts \<Longrightarrow> lexes q s ts"
  by (simp add: open_lexes_def lexes_def)

lemma lexes_after_open: "open_lexes q a A \<Longrightarrow> lexes q b B \<Longrightarrow> lexes q (a @ b) (A @ B)"
  by (simp add: open_lexes_def lexes_def)

lemma open_lexes_append: "open_lexes q a A \<Longrightarrow> open_lexes q b B \<Longrightarrow> open_lexes q (a @ b) (A @ B)"
  by (simp add: open_lexes_def)

lemma open_lexes_stopped: "lexes q a A \<Longrightarrow> open_lexes q b B \<Longrightarrow> stop b \<Longrightarrow> b \<noteq> [] \<Longrightarrow> open_lexes q (a @ b) (A @ B)"
  by (auto simp: open_lexes_def lexes_def stop_def)

lemma lexes_stopped: "lexes q a A \<Longrightarrow> lexes q b B \<Longrightarrow> stop b \<Longrightarrow> lexes q (a @ b) (A @ B)"
  by (cases b) (auto simp: lexes_def stop_def)

lemma lexes_whole: "lexes q s ts \<Longrightarrow> lex q s = Some ts"
  unfolding lexes_def using lex.simps(1) [of q] by (metis append_Nil2 stop_def)

text \<open>The quote characters of the dialects are no part of any other token.\<close>

definition quote_char :: "char \<Rightarrow> bool" where
  "quote_char q \<longleftrightarrow> q \<in> {CHR 0x22, CHR 0x60}"

lemma ident_char_facts:
  "\<not> ident_char (CHR '' '')" "\<not> ident_char (CHR ''?'')" "\<not> ident_char (CHR ''$'')" "\<not> ident_char (CHR ''('')" "\<not> ident_char (CHR '')'')"
  "\<not> ident_char (CHR '','')" "\<not> ident_char (CHR ''.'')" "\<not> ident_char (CHR ''='')" "\<not> ident_char (CHR ''!'')" "\<not> ident_char (CHR ''<'')"
  "\<not> ident_char (CHR ''>'')" "\<not> ident_char (CHR 0x22)" "\<not> ident_char (CHR 0x60)"
  by code_simp+

lemma quote_char_facts:
  assumes "quote_char q"
  shows "q \<noteq> CHR '' ''" "\<not> ident_char q" "q \<noteq> CHR ''?''" "q \<noteq> CHR ''$''" "\<not> sym_char q" "q \<notin> set ''(),.''"
  using assms by (auto simp: quote_char_def ident_char_facts sym_char_def)

lemma lex_space: "quote_char q \<Longrightarrow> open_lexes q '' '' []"
  by (rule open_lexesI) (auto simp: lex.simps(2) quote_char_def)

lemma lex_punct:
  assumes "quote_char q" "p \<in> set ''(),.''"
  shows "open_lexes q [p] [Punct p]"
proof (rule open_lexesI)
  fix rest us
  assume "lex q rest = Some us"
  moreover have "p \<noteq> q" "p \<noteq> CHR '' ''" "\<not> ident_char p" "p \<noteq> CHR ''?''" "p \<noteq> CHR ''$''" "\<not> sym_char p"
    using assms by (auto simp: quote_char_def ident_char_facts sym_char_def)
  ultimately show "lex q ([p] @ rest) = Some ([Punct p] @ us)" using assms(2) by (simp add: lex.simps(2) cons_token_def)
qed

lemma lex_question: "quote_char q \<Longrightarrow> open_lexes q ''?'' [Ph None]"
  by (rule open_lexesI) (auto simp: lex.simps(2) quote_char_def ident_char_facts cons_token_def)

lemma takeWhile_stopped: "list_all P a \<Longrightarrow> b = [] \<or> \<not> P (hd b) \<Longrightarrow> takeWhile P (a @ b) = a \<and> dropWhile P (a @ b) = b"
  by (induction a) (auto simp: takeWhile_eq_Nil_iff split: list.splits, (cases b; simp)+)

lemma digit_facts: "\<not> digit (CHR '' '')" "\<not> digit (CHR '')'')" "\<not> digit (CHR '','')"
  by code_simp+

lemma stop_not_word: "stop s \<Longrightarrow> s = [] \<or> \<not> word_char (hd s)" "stop s \<Longrightarrow> s = [] \<or> \<not> sym_char (hd s)" "stop s \<Longrightarrow> s = [] \<or> \<not> digit (hd s)"
  by (auto simp: stop_def word_char_def sym_char_def ident_char_facts digit_facts)

lemma lex_word:
  assumes "quote_char q" "ident_char c" "list_all word_char w"
  shows "lexes q (c # w) [Word (c # w)]"
proof (rule lexesI)
  fix rest us
  assume "stop rest" "lex q rest = Some us"
  moreover have "c \<noteq> q" "c \<noteq> CHR '' ''" using assms(2) quote_char_facts(2) [OF assms(1)] ident_char_facts(1) by auto
  ultimately show "lex q ((c # w) @ rest) = Some ([Word (c # w)] @ us)"
    using takeWhile_stopped [OF assms(3) stop_not_word(1)] assms(2) by (simp add: lex.simps(2) cons_token_def)
qed

lemma lex_sym:
  assumes "quote_char q" "sym_char c" "list_all sym_char w"
  shows "lexes q (c # w) [Sym (c # w)]"
proof (rule lexesI)
  fix rest us
  assume "stop rest" "lex q rest = Some us"
  moreover have "c \<noteq> q" "c \<noteq> CHR '' ''" "\<not> ident_char c" "c \<noteq> CHR ''?''" "c \<noteq> CHR ''$''"
    using assms(1,2) by (auto simp: sym_char_def quote_char_def ident_char_facts)
  ultimately show "lex q ((c # w) @ rest) = Some ([Sym (c # w)] @ us)"
    using takeWhile_stopped [OF assms(3) stop_not_word(2)] assms(2) by (simp add: lex.simps(2) cons_token_def)
qed

lemma nat_digits_digit: "list_all digit (nat_digits n)"
  using nat_digits_digits by (fastforce simp: list_all_iff digit_def)

lemma lex_dollar:
  assumes "quote_char q"
  shows "lexes q (dollar n) [Ph (Some n)]"
proof (rule lexesI)
  fix rest us
  assume "stop rest" "lex q rest = Some us"
  moreover have "Itoa (int n) = nat_digits n" by (simp add: Itoa_def)
  ultimately show "lex q (dollar n @ rest) = Some ([Ph (Some n)] @ us)"
    using takeWhile_stopped [OF nat_digits_digit stop_not_word(3)] assms
    by (auto simp: lex.simps(2) dollar_def quote_char_def ident_char_facts cons_token_def)
qed

text \<open>A quoted name is one token whatever it contains.\<close>

lemma read_quoted_double: "rest = [] \<or> hd rest \<noteq> q \<Longrightarrow> read_quoted q (double_quote q part @ q # rest) = Some (part, rest)"
  by (induction part) (auto simp: double_quote_def split: list.splits)

lemma lex_quoted:
  assumes "lex q rest = Some us" "rest = [] \<or> hd rest \<noteq> q"
  shows "lex q (([q] @ double_quote q part @ [q]) @ rest) = Some (Quoted part # us)"
  using read_quoted_double [OF assms(2)] assms(1) by (simp add: lex.simps(2) cons_token_def)

fun quoted_toks :: "string list \<Rightarrow> token list" where
  "quoted_toks [] = []"
| "quoted_toks [p] = [Quoted p]"
| "quoted_toks (p # p' # ps) = Quoted p # Punct (CHR ''.'') # quoted_toks (p' # ps)"

lemma lex_quote_join:
  assumes "quote_char q" "lex q rest = Some us" "rest = [] \<or> hd rest \<noteq> q" "ps \<noteq> []"
  shows "lex q (join ''.'' (map (\<lambda>part. [q] @ double_quote q part @ [q]) ps) @ rest) = Some (quoted_toks ps @ us)"
  using assms(4)
proof (induction ps rule: quoted_toks.induct)
  case (2 p)
  then show ?case using lex_quoted [OF assms(2,3)] by simp
next
  case (3 p p' ps)
  let ?r = "join ''.'' (map (\<lambda>part. [q] @ double_quote q part @ [q]) (p' # ps)) @ rest"
  have "lex q (''.'' @ ?r) = Some (Punct (CHR ''.'') # quoted_toks (p' # ps) @ us)"
    using lex_punct [OF assms(1), of "CHR ''.''"] 3 by (simp add: open_lexes_def)
  moreover have "CHR ''.'' \<noteq> q" using assms(1) by (auto simp: quote_char_def)
  ultimately show ?case using lex_quoted [of q "''.'' @ ?r"] by simp
qed simp

lemma lex_quote_parts:
  assumes "quote_char q"
  shows "lexes q (quote_parts q name) (quoted_toks (Split (CHR ''.'') name))"
proof (rule lexesI)
  fix rest us
  assume "stop rest" "lex q rest = Some us"
  moreover have "rest = [] \<or> hd rest \<noteq> q" using \<open>stop rest\<close> assms by (auto simp: stop_def quote_char_def)
  ultimately show "lex q (quote_parts q name @ rest) = Some (quoted_toks (Split (CHR ''.'') name) @ us)"
    unfolding quote_parts_def by (intro lex_quote_join [OF assms]) auto
qed

fun inter :: "token list \<Rightarrow> token list list \<Rightarrow> token list" where
  "inter S [] = []"
| "inter S [t] = t"
| "inter S (t # t' # ts) = t @ S @ inter S (t' # ts)"

lemma lex_join:
  assumes "open_lexes q sep S" "stop sep" "sep \<noteq> []"
  shows "list_all2 (lexes q) xs Ts \<Longrightarrow> lexes q (join sep xs) (inter S Ts)"
proof (induction xs arbitrary: Ts)
  case Nil
  then show ?case by (simp add: lexes_def)
next
  case step: (Cons x xs)
  then obtain T Ts' where T: "Ts = T # Ts'" "lexes q x T" "list_all2 (lexes q) xs Ts'" by (auto simp: list_all2_Cons1)
  show ?case
  proof (cases xs)
    case Nil
    then show ?thesis using T by simp
  next
    case (Cons y ys)
    then obtain T' Ts'' where T': "Ts' = T' # Ts''" using T(3) by (auto simp: list_all2_Cons1)
    have "lexes q (sep @ join sep xs) (S @ inter S Ts')" using lexes_after_open [OF assms(1) step.IH [OF T(3)]] .
    then have "lexes q (x @ sep @ join sep xs) (T @ S @ inter S Ts')"
      using lexes_stopped [OF T(2)] assms(2,3) by (auto simp: stop_def)
    then show ?thesis using Cons T(1) T' by simp
  qed
qed

section \<open>The text of a condition\<close>

definition qmarks :: "string \<Rightarrow> nat" where "qmarks s = length (filter (\<lambda>x. x = CHR ''?'') s)"

lemma qmarks_simps [simp]:
  "qmarks [] = 0" "qmarks (x # a) = (if x = CHR ''?'' then Suc (qmarks a) else qmarks a)" "qmarks (a @ b) = qmarks a + qmarks b"
  by (simp_all add: qmarks_def)

lemma number_append: "number_questions cl n (a @ b) = number_questions cl n a @ number_questions cl (n + qmarks a) b"
  by (induction a arbitrary: n) (auto simp: qmarks_def)

lemma number_plain: "CHR ''?'' \<notin> set a \<Longrightarrow> number_questions cl n a = a \<and> qmarks a = 0"
  by (induction a) (auto simp: qmarks_def)

definition bin_ops :: "string set" where
  "bin_ops = {''='', ''!='', ''>'', ''<'', ''>='', ''<='', ''LIKE'', ''NOT LIKE''}"

text \<open>Conditions with something in every place: no empty combination, no empty list of values, no zero column or operator.\<close>

fun cond_ok :: "'v Cond \<Rightarrow> bool" where
  "cond_ok (BinPred c opr v) \<longleftrightarrow> IdentifierRegexp (Column_Name c) \<and> bop opr \<in> bin_ops"
| "cond_ok (InPred c vs) \<longleftrightarrow> IdentifierRegexp (Column_Name c) \<and> vs \<noteq> []"
| "cond_ok (NotInPred c vs) \<longleftrightarrow> IdentifierRegexp (Column_Name c) \<and> vs \<noteq> []"
| "cond_ok (NullPred c) \<longleftrightarrow> IdentifierRegexp (Column_Name c)"
| "cond_ok (NotNullPred c) \<longleftrightarrow> IdentifierRegexp (Column_Name c)"
| "cond_ok (CNot c) \<longleftrightarrow> cond_ok c"
| "cond_ok (CAnd cs) \<longleftrightarrow> cs \<noteq> [] \<and> list_all cond_ok cs"
| "cond_ok (COr cs) \<longleftrightarrow> cs \<noteq> [] \<and> list_all cond_ok cs"

definition op_toks :: "string \<Rightarrow> token list" where
  "op_toks s = (if s = ''LIKE'' then [Word ''LIKE''] else if s = ''NOT LIKE'' then [Word ''NOT'', Word ''LIKE''] else [Sym s])"

definition nargs :: "'v Cond \<Rightarrow> nat" where "nargs c = length (snd (BindRepr c))"

definition items_toks :: "(nat \<Rightarrow> token) \<Rightarrow> nat \<Rightarrow> nat \<Rightarrow> token list" where
  "items_toks ph n k = inter [Punct (CHR '','')] (map (\<lambda>i. [ph i]) [n..<n + k])"

fun ctoks :: "(nat \<Rightarrow> token) \<Rightarrow> nat \<Rightarrow> 'v Cond \<Rightarrow> token list"
  and ctoks_list :: "(nat \<Rightarrow> token) \<Rightarrow> nat \<Rightarrow> 'v Cond list \<Rightarrow> token list list" where
  "ctoks ph n (BinPred c opr v) = Word (Column_Name c) # op_toks (bop opr) @ [ph n]"
| "ctoks ph n (InPred c vs) = [Word (Column_Name c), Word ''IN'', Punct (CHR ''('')] @ items_toks ph n (length vs) @ [Punct (CHR '')'')]"
| "ctoks ph n (NotInPred c vs) = [Word (Column_Name c), Word ''NOT'', Word ''IN'', Punct (CHR ''('')] @ items_toks ph n (length vs) @ [Punct (CHR '')'')]"
| "ctoks ph n (NullPred c) = [Word (Column_Name c), Word ''IS'', Word ''NULL'']"
| "ctoks ph n (NotNullPred c) = [Word (Column_Name c), Word ''IS'', Word ''NOT'', Word ''NULL'']"
| "ctoks ph n (CNot c) = [Word ''NOT'', Punct (CHR ''('')] @ ctoks ph n c @ [Punct (CHR '')'')]"
| "ctoks ph n (CAnd cs) = (case ctoks_list ph n cs of [t] \<Rightarrow> t
     | ts \<Rightarrow> Punct (CHR ''('') # inter [Word ''AND''] ts @ [Punct (CHR '')'')])"
| "ctoks ph n (COr cs) = (case ctoks_list ph n cs of [t] \<Rightarrow> t
     | ts \<Rightarrow> Punct (CHR ''('') # inter [Word ''OR''] ts @ [Punct (CHR '')'')])"
| "ctoks_list ph n [] = []"
| "ctoks_list ph n (c # cs) = ctoks ph n c # ctoks_list ph (n + nargs c) cs"

lemma ident_text:
  assumes "IdentifierRegexp s"
  shows "s \<noteq> []" "ident_char (hd s)" "list_all word_char s"
proof -
  obtain p ps where sp: "Split (CHR ''.'') s = p # ps" by (cases "Split (CHR ''.'') s") auto
  have p: "p \<noteq> []" "ident_char (hd p)" using assms sp by (auto simp: IdentifierRegexp_def ident_part_def ident_char_def)
  have "s \<noteq> [] \<and> hd s = hd p" using sp p(1) by (cases s) (auto split: if_splits list.splits)
  then show "s \<noteq> []" "ident_char (hd s)" using p(2) by auto
  have "list_all (list_all ident_char) (Split (CHR ''.'') s) \<Longrightarrow> list_all word_char s"
    by (induction s) (auto simp: word_char_def split: if_splits list.splits)
  moreover have "ident_part x \<Longrightarrow> list_all ident_char x" for x
    by (cases x) (auto simp: ident_part_def ident_char_def)
  ultimately show "list_all word_char s" using assms by (auto simp: IdentifierRegexp_def list_all_iff)
qed

lemma lex_name:
  assumes "quote_char q" "IdentifierRegexp s"
  shows "lexes q s [Word s]"
proof -
  obtain c w where s: "s = c # w" using ident_text(1) [OF assms(2)] by (cases s) auto
  then show ?thesis using lex_word [OF assms(1), of c w] ident_text(2,3) [OF assms(2)] by simp
qed

lemma ident_no_question: "IdentifierRegexp s \<Longrightarrow> CHR ''?'' \<notin> set s"
  using ident_text(3) [of s] ident_char_facts(2) by (auto simp: list_all_iff word_char_def)

lemmas lex_simps = lex.simps(2) cons_token_def ident_char_facts

definition word_text :: "string \<Rightarrow> bool" where "word_text w \<longleftrightarrow> w \<noteq> [] \<and> list_all ident_char w"

lemma kw_text:
  "word_text ''AND''" "word_text ''OR''" "word_text ''NOT''" "word_text ''IN''" "word_text ''IS''" "word_text ''NULL''" "word_text ''LIKE''"
  "word_text ''SELECT''" "word_text ''FROM''" "word_text ''WHERE''" "word_text ''LIMIT''" "word_text ''1''" "word_text ''INSERT''" "word_text ''INTO''"
  "word_text ''VALUES''" "word_text ''RETURNING''" "word_text ''UPDATE''" "word_text ''SET''" "word_text ''DELETE''"
  by code_simp+

lemma lex_kw: "quote_char q \<Longrightarrow> word_text w \<Longrightarrow> lexes q w [Word w]"
  using lex_word [of q "hd w" "tl w"] by (cases w) (auto simp: word_text_def list_all_iff word_char_def)

lemma stop_space: "stop (CHR '' '' # s)" "stop (CHR '')'' # s)" "stop (CHR '','' # s)"
  by (simp_all add: stop_def)

lemma lex_sp: "quote_char q \<Longrightarrow> lexes q s ts \<Longrightarrow> lexes q (CHR '' '' # s) ts"
  using lexes_after_open [OF lex_space] by fastforce

text \<open>A word with a space before it, followed by more that starts with one.\<close>

lemma lex_then:
  assumes "quote_char q" "word_text w" "lexes q (CHR '' '' # s) ts"
  shows "lexes q (CHR '' '' # w @ CHR '' '' # s) (Word w # ts)"
  using lex_sp [OF assms(1) lexes_stopped [OF lex_kw [OF assms(1,2)] assms(3) stop_space(1)]] by simp

lemma lex_paren:
  assumes "quote_char q" "lexes q s ts"
  shows "lexes q (CHR ''('' # s @ '')'') (Punct (CHR ''('') # ts @ [Punct (CHR '')'')])"
proof -
  have "lexes q (s @ '')'') (ts @ [Punct (CHR '')'')])"
    using lexes_stopped [OF assms(2) open_lexes_lexes [OF lex_punct [OF assms(1), of "CHR '')''"]]] by (simp add: stop_def)
  then show ?thesis using lexes_after_open [OF lex_punct [OF assms(1), of "CHR ''(''"]] by simp
qed

lemma lex_comma: "quote_char q \<Longrightarrow> open_lexes q '', '' [Punct (CHR '','')]"
  using open_lexes_append [OF lex_punct lex_space, of q "CHR '',''"] by simp

lemma lex_op:
  assumes "quote_char q" "s \<in> bin_ops"
  shows "lexes q s (op_toks s)"
proof -
  have sym: "lexes q [c] [Sym [c]]" "lexes q [c, d] [Sym [c, d]]" if "sym_char c" "sym_char d" for c d
    using lex_sym [OF assms(1) that(1), of "[]"] lex_sym [OF assms(1) that(1), of "[d]"] that by simp_all
  have ch: "sym_char (CHR ''='')" "sym_char (CHR ''!'')" "sym_char (CHR ''<'')" "sym_char (CHR ''>'')" by code_simp+
  have "lexes q ''NOT LIKE'' [Word ''NOT'', Word ''LIKE'']"
    using lexes_stopped [OF lex_kw [OF assms(1) kw_text(3)] lex_sp [OF assms(1) lex_kw [OF assms(1) kw_text(7)]] stop_space(1)] by simp
  then show ?thesis
    using assms(2) sym [OF ch(1) ch(1)] sym [OF ch(2) ch(1)] sym [OF ch(3) ch(1)] sym [OF ch(4) ch(1)] lex_kw [OF assms(1) kw_text(7)]
    by (auto simp: bin_ops_def op_toks_def)
qed

fun number_list :: "SqlClient \<Rightarrow> nat \<Rightarrow> string list \<Rightarrow> string list" where
  "number_list cl n [] = []"
| "number_list cl n (x # xs) = number_questions cl n x # number_list cl (n + qmarks x) xs"

lemma number_join: "CHR ''?'' \<notin> set sep \<Longrightarrow> number_questions cl n (join sep xs) = join sep (number_list cl n xs)"
proof (induction xs arbitrary: n rule: join.induct [of _ sep])
  case (3 sep x y xs)
  then show ?case by (simp add: number_append number_plain)
qed simp_all

lemma number_list_questions: "number_list cl n (map (\<lambda>_. ''?'') vs) = map (NthPlaceholder cl) [n..<n + length vs]"
  by (induction vs arbitrary: n) (simp_all add: qmarks_def upt_rec)

lemma qmarks_join: "CHR ''?'' \<notin> set sep \<Longrightarrow> qmarks (join sep xs) = sum_list (map qmarks xs)"
  by (induction sep xs rule: join.induct) (simp_all add: number_plain)

definition reads_phs :: "char \<Rightarrow> SqlClient \<Rightarrow> (nat \<Rightarrow> token) \<Rightarrow> bool" where
  "reads_phs q cl ph \<longleftrightarrow> quote_char q \<and> (\<forall>n. lexes q (NthPlaceholder cl n) [ph n])"

lemma lex_questions:
  assumes "reads_phs q cl ph"
  shows "lexes q (number_questions cl n (questions vs)) (items_toks ph n (length vs))"
proof -
  have "list_all2 (lexes q) (map (NthPlaceholder cl) [n..<n + length vs]) (map (\<lambda>i. [ph i]) [n..<n + length vs])"
    using assms by (auto simp: reads_phs_def list_all2_map1 list_all2_map2 intro!: list.rel_refl)
  then show ?thesis
    using lex_join [OF lex_comma, of q] assms
    by (simp add: questions_def items_toks_def number_join number_list_questions reads_phs_def stop_def)
qed

lemma BindRepr_combine:
  "fst (case map BindRepr cs of [] \<Rightarrow> ([], []) | [r] \<Rightarrow> r | rs \<Rightarrow> (''('' @ join sep (map fst rs) @ '')'', concat (map snd rs))) =
     (case cs of [] \<Rightarrow> [] | [c] \<Rightarrow> fst (BindRepr c) | _ \<Rightarrow> ''('' @ join sep (map (fst \<circ> BindRepr) cs) @ '')'')"
  "snd (case map BindRepr cs of [] \<Rightarrow> ([], []) | [r] \<Rightarrow> r | rs \<Rightarrow> (''('' @ join sep (map fst rs) @ '')'', concat (map snd rs))) =
     concat (map (snd \<circ> BindRepr) cs)"
  by (cases cs rule: remdups_adj.cases; simp)+

definition cond_text_ok :: "char \<Rightarrow> SqlClient \<Rightarrow> (nat \<Rightarrow> token) \<Rightarrow> 'v Cond \<Rightarrow> bool" where
  "cond_text_ok q cl ph c \<longleftrightarrow> qmarks (fst (BindRepr c)) = nargs c \<and>
     (\<forall>n. lexes q (number_questions cl n (fst (BindRepr c))) (ctoks ph n c))"

lemma lex_cond_list:
  "list_all (cond_text_ok q cl ph) cs \<Longrightarrow>
     list_all2 (lexes q) (number_list cl n (map (fst \<circ> BindRepr) cs)) (ctoks_list ph n cs) \<and>
     sum_list (map (qmarks \<circ> (fst \<circ> BindRepr)) cs) = length (concat (map (snd \<circ> BindRepr) cs))"
  by (induction cs arbitrary: n) (auto simp: cond_text_ok_def nargs_def)

lemma lex_word_sep:
  assumes "quote_char q" "word_text w"
  shows "open_lexes q (CHR '' '' # w @ '' '') [Word w]"
  using open_lexes_append [OF lex_space [OF assms(1)] open_lexes_stopped [OF lex_kw [OF assms] lex_space [OF assms(1)] stop_space(1)]] by simp

lemma combine_text_ok:
  assumes ph: "reads_phs q cl ph" and w: "word_text w" and cs: "list_all (cond_text_ok q cl ph) cs" "cs \<noteq> []"
    and rep: "fst (BindRepr c) = (case cs of [] \<Rightarrow> [] | [c] \<Rightarrow> fst (BindRepr c) | _ \<Rightarrow> ''('' @ join (CHR '' '' # w @ '' '') (map (fst \<circ> BindRepr) cs) @ '')'')"
    and args: "snd (BindRepr c) = concat (map (snd \<circ> BindRepr) cs)"
    and toks: "\<And>n. ctoks ph n c = (case ctoks_list ph n cs of [t] \<Rightarrow> t | ts \<Rightarrow> Punct (CHR ''('') # inter [Word w] ts @ [Punct (CHR '')'')])"
  shows "cond_text_ok q cl ph c"
proof (cases "tl cs")
  case Nil
  then obtain d where "cs = [d]" using cs(2) by (cases cs) auto
  then show ?thesis using cs(1) rep args toks by (simp add: cond_text_ok_def nargs_def)
next
  case (Cons d' ds)
  then obtain d where cs': "cs = d # d' # ds" using cs(2) by (cases cs) auto
  let ?sep = "CHR '' '' # w @ '' ''"
  have q: "quote_char q" using ph by (simp add: reads_phs_def)
  have sep: "CHR ''?'' \<notin> set ?sep" using w by (auto simp: word_text_def list_all_iff ident_char_facts)
  have t: "fst (BindRepr c) = ''('' @ join ?sep (map (fst \<circ> BindRepr) cs) @ '')''" using rep cs' by simp
  have "lexes q (number_questions cl n (fst (BindRepr c))) (ctoks ph n c)" for n
  proof -
    have "lexes q (join ?sep (number_list cl n (map (fst \<circ> BindRepr) cs))) (inter [Word w] (ctoks_list ph n cs))"
      using lex_join [OF lex_word_sep [OF q w] stop_space(1)] lex_cond_list [OF cs(1)] by simp
    then have "lexes q (''('' @ join ?sep (number_list cl n (map (fst \<circ> BindRepr) cs)) @ '')'')
        (Punct (CHR ''('') # inter [Word w] (ctoks_list ph n cs) @ [Punct (CHR '')'')])"
      using lex_paren [OF q] by simp
    moreover have "ctoks ph n c = Punct (CHR ''('') # inter [Word w] (ctoks_list ph n cs) @ [Punct (CHR '')'')]"
      using toks [of n] cs' by simp
    moreover have "number_questions cl n (fst (BindRepr c)) = ''('' @ join ?sep (number_list cl n (map (fst \<circ> BindRepr) cs)) @ '')''"
      unfolding t using number_join [OF sep] number_append [of cl n "join ?sep (map (fst \<circ> BindRepr) cs)" "'')''"] by simp
    ultimately show ?thesis by simp
  qed
  moreover have "qmarks (fst (BindRepr c)) = nargs c"
    unfolding t nargs_def args using qmarks_join [OF sep] lex_cond_list [OF cs(1)] by (simp add: qmarks_def comp_assoc)
  ultimately show ?thesis by (simp add: cond_text_ok_def)
qed

lemma qmarks_questions: "qmarks (questions vs) = length vs"
  unfolding questions_def by (subst qmarks_join) (simp_all add: o_def qmarks_def sum_list_triv)

lemma in_text_ok:
  assumes ph: "reads_phs q cl ph" and name: "IdentifierRegexp (Column_Name c)" and ws: "ws \<in> {[''IN''], [''NOT'', ''IN'']}"
  shows "qmarks (Column_Name c @ '' '' @ join '' '' ws @ '' ('' @ questions vs @ '')'') = length vs"
    "lexes q (number_questions cl n (Column_Name c @ '' '' @ join '' '' ws @ '' ('' @ questions vs @ '')''))
       (Word (Column_Name c) # map Word ws @ Punct (CHR ''('') # items_toks ph n (length vs) @ [Punct (CHR '')'')])"
proof -
  have q: "quote_char q" using ph by (simp add: reads_phs_def)
  note plain = number_plain [OF ident_no_question [OF name]]
  show "qmarks (Column_Name c @ '' '' @ join '' '' ws @ '' ('' @ questions vs @ '')'') = length vs"
    using plain ws by (auto simp: qmarks_questions)
  let ?tail = "CHR ''('' # number_questions cl n (questions vs) @ '')''"
  let ?T = "Punct (CHR ''('') # items_toks ph n (length vs) @ [Punct (CHR '')'')]"
  have tail: "lexes q (CHR '' '' # ?tail) ?T" by (rule lex_sp [OF q lex_paren [OF q lex_questions [OF ph]]])
  have "lexes q (CHR '' '' # join '' '' ws @ CHR '' '' # ?tail) (map Word ws @ ?T)"
    using ws lex_then [OF q kw_text(4) tail] lex_then [OF q kw_text(3) lex_then [OF q kw_text(4) tail]] by auto
  then have "lexes q (Column_Name c @ CHR '' '' # join '' '' ws @ CHR '' '' # ?tail) (Word (Column_Name c) # map Word ws @ ?T)"
    using lexes_stopped [OF lex_name [OF q name] _ stop_space(1)] by fastforce
  moreover have "number_questions cl n (Column_Name c @ '' '' @ join '' '' ws @ '' ('' @ questions vs @ '')'') =
      Column_Name c @ CHR '' '' # join '' '' ws @ CHR '' '' # ?tail"
    using plain ws by (auto simp: number_append qmarks_def)
  ultimately show "lexes q (number_questions cl n (Column_Name c @ '' '' @ join '' '' ws @ '' ('' @ questions vs @ '')''))
       (Word (Column_Name c) # map Word ws @ Punct (CHR ''('') # items_toks ph n (length vs) @ [Punct (CHR '')'')])" by simp
qed

lemma null_text_ok:
  assumes q: "quote_char q" and name: "IdentifierRegexp (Column_Name c)" and ws: "ws \<in> {[''IS'', ''NULL''], [''IS'', ''NOT'', ''NULL'']}"
  shows "qmarks (Column_Name c @ '' '' @ join '' '' ws) = 0"
    "lexes q (number_questions cl n (Column_Name c @ '' '' @ join '' '' ws)) (Word (Column_Name c) # map Word ws)"
proof -
  note plain = number_plain [OF ident_no_question [OF name]]
  show "qmarks (Column_Name c @ '' '' @ join '' '' ws) = 0" using plain ws by (auto simp: qmarks_def)
  have null: "lexes q (CHR '' '' # ''NULL'') [Word ''NULL'']" by (rule lex_sp [OF q lex_kw [OF q kw_text(6)]])
  have "lexes q (CHR '' '' # join '' '' ws) (map Word ws)"
    using ws lex_then [OF q kw_text(5) null] lex_then [OF q kw_text(5) lex_then [OF q kw_text(3) null]] by auto
  then have "lexes q (Column_Name c @ CHR '' '' # join '' '' ws) (Word (Column_Name c) # map Word ws)"
    using lexes_stopped [OF lex_name [OF q name] _ stop_space(1)] by fastforce
  moreover have "number_questions cl n (Column_Name c @ '' '' @ join '' '' ws) = Column_Name c @ CHR '' '' # join '' '' ws"
    using plain ws by (auto simp: number_append)
  ultimately show "lexes q (number_questions cl n (Column_Name c @ '' '' @ join '' '' ws)) (Word (Column_Name c) # map Word ws)" by simp
qed

lemma bin_text_ok:
  assumes ph: "reads_phs q cl ph" and name: "IdentifierRegexp (Column_Name c)" and opr: "bop opr \<in> bin_ops"
  shows "cond_text_ok q cl ph (BinPred c opr v)"
proof -
  have q: "quote_char q" using ph by (simp add: reads_phs_def)
  have noq: "CHR ''?'' \<notin> set (bop opr)" using opr by (auto simp: bin_ops_def)
  note plain = number_plain [OF ident_no_question [OF name]] number_plain [OF noq]
  have "lexes q (CHR '' '' # NthPlaceholder cl n) [ph n]" for n using ph lex_sp [OF q] by (simp add: reads_phs_def)
  then have "lexes q (Column_Name c @ CHR '' '' # bop opr @ CHR '' '' # NthPlaceholder cl n) (Word (Column_Name c) # op_toks (bop opr) @ [ph n])" for n
    using lexes_stopped [OF lex_name [OF q name] lex_sp [OF q lexes_stopped [OF lex_op [OF q opr] _ stop_space(1)]] stop_space(1)]
    by fastforce
  then show ?thesis using plain by (simp add: cond_text_ok_def nargs_def number_append qmarks_def)
qed

lemma lex_cond:
  assumes ph: "reads_phs q cl ph"
  shows "cond_ok c \<Longrightarrow> cond_text_ok q cl ph c"
proof (induction c)
  case (BinPred c opr v)
  then show ?case by (simp add: bin_text_ok [OF ph])
next
  case (InPred c vs)
  then show ?case using in_text_ok [OF ph, where c = c and ws = "[''IN'']" and vs = vs] by (simp add: cond_text_ok_def nargs_def)
next
  case (NotInPred c vs)
  then show ?case using in_text_ok [OF ph, where c = c and ws = "[''NOT'', ''IN'']" and vs = vs] by (simp add: cond_text_ok_def nargs_def)
next
  case (NullPred c)
  then show ?case using null_text_ok [of q c "[''IS'', ''NULL'']"] ph by (simp add: cond_text_ok_def nargs_def reads_phs_def)
next
  case (NotNullPred c)
  then show ?case using null_text_ok [of q c "[''IS'', ''NOT'', ''NULL'']"] ph by (simp add: cond_text_ok_def nargs_def reads_phs_def)
next
  case (CNot c)
  have q: "quote_char q" using ph by (simp add: reads_phs_def)
  from CNot have c: "qmarks (fst (BindRepr c)) = nargs c" "\<And>n. lexes q (number_questions cl n (fst (BindRepr c))) (ctoks ph n c)"
    by (auto simp: cond_text_ok_def)
  have "lexes q (''NOT'' @ CHR '' '' # CHR ''('' # number_questions cl n (fst (BindRepr c)) @ '')'') (Word ''NOT'' # Punct (CHR ''('') # ctoks ph n c @ [Punct (CHR '')'')])" for n
    using lexes_stopped [OF lex_kw [OF q kw_text(3)] lex_sp [OF q lex_paren [OF q c(2)]] stop_space(1)] by simp
  then show ?case using c(1) by (simp add: cond_text_ok_def nargs_def number_append case_prod_beta Let_def)
next
  case (CAnd cs)
  then have "list_all (cond_text_ok q cl ph) cs" by (auto simp: list_all_iff)
  then show ?case
    by (rule combine_text_ok [OF ph kw_text(1)])
      (use CAnd.prems in \<open>simp_all add: BindRepr_combine [where sep = "'' AND ''"] split: list.split\<close>)
next
  case (COr cs)
  then have "list_all (cond_text_ok q cl ph) cs" by (auto simp: list_all_iff)
  then show ?case
    by (rule combine_text_ok [OF ph kw_text(2)])
      (use COr.prems in \<open>simp_all add: BindRepr_combine [where sep = "'' OR ''"] split: list.split\<close>)
qed

section \<open>Reading a condition back\<close>

text \<open>The condition with the positions of its values in place of the values, combinations of one put aside; and the condition itself so.\<close>

fun refs :: "nat \<Rightarrow> 'v Cond \<Rightarrow> nat Cond"
  and refs_list :: "nat \<Rightarrow> 'v Cond list \<Rightarrow> nat Cond list" where
  "refs n (BinPred c opr v) = BinPred c opr n"
| "refs n (InPred c vs) = InPred c [n..<n + length vs]"
| "refs n (NotInPred c vs) = NotInPred c [n..<n + length vs]"
| "refs n (NullPred c) = NullPred c"
| "refs n (NotNullPred c) = NotNullPred c"
| "refs n (CNot c) = CNot (refs n c)"
| "refs n (CAnd cs) = (case refs_list n cs of [r] \<Rightarrow> r | rs \<Rightarrow> CAnd rs)"
| "refs n (COr cs) = (case refs_list n cs of [r] \<Rightarrow> r | rs \<Rightarrow> COr rs)"
| "refs_list n [] = []"
| "refs_list n (c # cs) = refs n c # refs_list (n + nargs c) cs"

fun flat :: "'v Cond \<Rightarrow> 'v Cond" where
  "flat (CNot c) = CNot (flat c)"
| "flat (CAnd cs) = (case map flat cs of [c] \<Rightarrow> c | cs' \<Rightarrow> CAnd cs')"
| "flat (COr cs) = (case map flat cs of [c] \<Rightarrow> c | cs' \<Rightarrow> COr cs')"
| "flat c = c"

fun cond_cols :: "'v Cond \<Rightarrow> string set" where
  "cond_cols (BinPred c opr v) = {Column_Name c}"
| "cond_cols (InPred c vs) = {Column_Name c}"
| "cond_cols (NotInPred c vs) = {Column_Name c}"
| "cond_cols (NullPred c) = {Column_Name c}"
| "cond_cols (NotNullPred c) = {Column_Name c}"
| "cond_cols (CNot c) = cond_cols c"
| "cond_cols (CAnd cs) = \<Union> (set (map cond_cols cs))"
| "cond_cols (COr cs) = \<Union> (set (map cond_cols cs))"

definition dialect_ok :: "Dialect \<Rightarrow> bool" where
  "dialect_ok D \<longleftrightarrow> quote_char (dl_quote D) \<and> dl_reserved D ''NOT''"

text \<open>Names a server takes unquoted as they are.\<close>

definition usable :: "Dialect \<Rightarrow> string \<Rightarrow> bool" where
  "usable D name \<longleftrightarrow> \<not> dl_reserved D name \<and> dl_fold D name = name"

definition numbered :: "nat \<Rightarrow> token" where "numbered n = Ph (Some n)"

lemma parse_items_toks:
  "0 < k \<Longrightarrow> parse_items (items_toks numbered n k @ Punct (CHR '')'') # ts) = Some ([n..<n + k], ts)"
proof (induction k arbitrary: n)
  case (Suc k)
  show ?case
  proof (cases k)
    case 0
    then show ?thesis by (simp add: items_toks_def numbered_def)
  next
    case (Suc j)
    then have "[n..<n + Suc k] = n # [Suc n..<Suc n + k]" "[Suc n..<Suc n + k] \<noteq> []" by (simp_all add: upt_rec)
    then have "items_toks numbered n (Suc k) = Ph (Some n) # Punct (CHR '','') # items_toks numbered (Suc n) k"
      by (cases "[Suc n..<Suc n + k]") (simp_all add: items_toks_def numbered_def)
    then show ?thesis using Suc.IH [of "Suc n"] Suc \<open>[n..<n + Suc k] = n # [Suc n..<Suc n + k]\<close> by simp
  qed
qed simp

lemma parse_list_toks:
  "vs \<noteq> [] \<Longrightarrow> parse_list (Punct (CHR ''('') # items_toks numbered n (length vs) @ Punct (CHR '')'') # ts) = Some ([n..<n + length vs], ts)"
  using parse_items_toks [of "length vs" n ts] by (simp add: parse_list_def)

definition reads_back :: "Dialect \<Rightarrow> 'v Cond \<Rightarrow> bool" where
  "reads_back D c \<longleftrightarrow> (\<forall>n f ts. length (ctoks numbered n c) \<le> f \<longrightarrow> parse_cond D f (ctoks numbered n c @ ts) = Some (refs n c, ts))"

lemma reads_backD: "reads_back D c \<Longrightarrow> length (ctoks numbered n c) \<le> f \<Longrightarrow> parse_cond D f (ctoks numbered n c @ ts) = Some (refs n c, ts)"
  by (simp add: reads_back_def)

definition chain_toks :: "string \<Rightarrow> token list list \<Rightarrow> token list" where
  "chain_toks w Ts = concat (map (\<lambda>t. Word w # t) Ts)"

lemma inter_chain: "inter [Word w] (t # Ts) = t @ chain_toks w Ts"
  by (induction Ts arbitrary: t) (simp_all add: chain_toks_def)

lemma parse_chain_toks:
  "list_all (reads_back D) cs \<Longrightarrow> length (chain_toks w (ctoks_list numbered n cs)) < f \<Longrightarrow>
     parse_chain D f w (chain_toks w (ctoks_list numbered n cs) @ Punct p # ts) = Some (refs_list n cs, Punct p # ts)"
proof (induction cs arbitrary: n f)
  case Nil
  then show ?case by (cases f) (simp_all add: chain_toks_def)
next
  case (Cons c cs)
  then obtain g where f: "f = Suc g" by (cases f) auto
  let ?r = "chain_toks w (ctoks_list numbered (n + nargs c) cs)"
  have l: "length (ctoks numbered n c) \<le> g" "length ?r < g" using Cons.prems(2) f by (simp_all add: chain_toks_def)
  have c: "reads_back D c" "list_all (reads_back D) cs" using Cons.prems(1) by simp_all
  have "parse_cond D g (ctoks numbered n c @ ?r @ Punct p # ts) = Some (refs n c, ?r @ Punct p # ts)"
    by (rule reads_backD [OF c(1) l(1)])
  then show ?case using Cons.IH [OF c(2) l(2)] f by (simp add: chain_toks_def)
qed

lemma combine_reads_back:
  assumes cs: "list_all (reads_back D) cs" "cs \<noteq> []" and w: "(w, C) \<in> {(''AND'', CAnd), (''OR'', COr)}"
    and toks: "\<And>n. ctoks numbered n c = (case ctoks_list numbered n cs of [t] \<Rightarrow> t | ts \<Rightarrow> Punct (CHR ''('') # inter [Word w] ts @ [Punct (CHR '')'')])"
    and refs: "\<And>n. refs n c = (case refs_list n cs of [r] \<Rightarrow> r | rs \<Rightarrow> C rs)"
  shows "reads_back D c"
proof (cases "tl cs")
  case Nil
  then obtain d where "cs = [d]" using cs(2) by (cases cs) auto
  then show ?thesis using cs(1) toks refs by (simp add: reads_back_def)
next
  case (Cons d' ds)
  then obtain d where cs': "cs = d # d' # ds" using cs(2) by (cases cs) auto
  show ?thesis unfolding reads_back_def
  proof (intro allI impI)
    fix n f ts
    let ?r = "chain_toks w (ctoks_list numbered (n + nargs d) (d' # ds))"
    have t: "ctoks numbered n c = Punct (CHR ''('') # ctoks numbered n d @ ?r @ [Punct (CHR '')'')]"
      using toks [of n] cs' inter_chain [of w "ctoks numbered n d" "ctoks_list numbered (n + nargs d) (d' # ds)"] by simp
    assume "length (ctoks numbered n c) \<le> f"
    then obtain g where f: "f = Suc g" "length (ctoks numbered n d) \<le> g" "length ?r < g" using t by (cases f) auto
    have c: "reads_back D d" "list_all (reads_back D) (d' # ds)" using cs(1) cs' by simp_all
    have head: "parse_cond D g (ctoks numbered n d @ ?r @ Punct (CHR '')'') # ts) = Some (refs n d, ?r @ Punct (CHR '')'') # ts)"
      by (rule reads_backD [OF c(1) f(2)])
    obtain r' where r': "?r = Word w # r'" by (simp add: chain_toks_def)
    have "parse_chain D g w (?r @ Punct (CHR '')'') # ts) = Some (refs_list (n + nargs d) (d' # ds), Punct (CHR '')'') # ts)"
      by (rule parse_chain_toks [OF c(2) f(3)])
    then have "close_paren (parse_chain D g w (Word w # r' @ Punct (CHR '')'') # ts)) = Some (refs_list (n + nargs d) (d' # ds), ts)"
      unfolding r' by (simp add: close_paren_def)
    then have "parse_cond D f (Punct (CHR ''('') # ctoks numbered n d @ ?r @ Punct (CHR '')'') # ts) = Some (C (refs_list n cs), ts)"
      using head w unfolding r' f(1) cs' by auto
    then show "parse_cond D f (ctoks numbered n c @ ts) = Some (refs n c, ts)" using refs [of n] t cs' by simp
  qed
qed

lemma pred_reads_back:
  assumes "dialect_ok D" "usable D (Column_Name c)" "\<And>n. ctoks numbered n p = Word (Column_Name c) # tail n"
    and "\<And>n ts. parse_pred c (tail n @ ts) = Some (refs n p, ts)"
  shows "reads_back D p"
  unfolding reads_back_def
proof (intro allI impI)
  fix n f ts
  assume "length (ctoks numbered n p) \<le> f"
  then obtain g where "f = Suc g" using assms(3) by (cases f) auto
  moreover have "Column_Name c \<noteq> ''NOT''" using assms(1,2) by (auto simp: dialect_ok_def usable_def)
  ultimately show "parse_cond D f (ctoks numbered n p @ ts) = Some (refs n p, ts)"
    using assms(2-4) by (simp add: usable_def)
qed

lemma cond_reads_back:
  assumes D: "dialect_ok D"
  shows "cond_ok c \<Longrightarrow> (\<And>name. name \<in> cond_cols c \<Longrightarrow> usable D name) \<Longrightarrow> reads_back D c"
proof (induction c)
  case (BinPred c opr v)
  obtain s where s: "opr = BinOp s" by (cases opr)
  show ?case
    by (rule pred_reads_back [OF D, of c _ "\<lambda>n. op_toks (bop opr) @ [numbered n]"])
      (use BinPred in \<open>auto simp: s op_toks_def bin_ops_def parse_pred_def parse_value_def numbered_def\<close>)
next
  case (InPred c vs)
  show ?case
    by (rule pred_reads_back [OF D, of c _ "\<lambda>n. [Word ''IN'', Punct (CHR ''('')] @ items_toks numbered n (length vs) @ [Punct (CHR '')'')]"])
      (use InPred parse_list_toks [of vs] in \<open>auto simp: parse_pred_def\<close>)
next
  case (NotInPred c vs)
  show ?case
    by (rule pred_reads_back [OF D, of c _ "\<lambda>n. [Word ''NOT'', Word ''IN'', Punct (CHR ''('')] @ items_toks numbered n (length vs) @ [Punct (CHR '')'')]"])
      (use NotInPred parse_list_toks [of vs] in \<open>auto simp: parse_pred_def\<close>)
next
  case (NullPred c)
  show ?case
    by (rule pred_reads_back [OF D, of c _ "\<lambda>_. [Word ''IS'', Word ''NULL'']"]) (use NullPred in \<open>auto simp: parse_pred_def\<close>)
next
  case (NotNullPred c)
  show ?case
    by (rule pred_reads_back [OF D, of c _ "\<lambda>_. [Word ''IS'', Word ''NOT'', Word ''NULL'']"]) (use NotNullPred in \<open>auto simp: parse_pred_def\<close>)
next
  case (CNot c)
  then have c: "reads_back D c" by simp
  show ?case unfolding reads_back_def
  proof (intro allI impI)
    fix n f ts
    assume "length (ctoks numbered n (CNot c)) \<le> f"
    then obtain g where f: "f = Suc g" "length (ctoks numbered n c) \<le> g" by (cases f) auto
    then show "parse_cond D f (ctoks numbered n (CNot c) @ ts) = Some (refs n (CNot c), ts)"
      using reads_backD [OF c f(2), of "Punct (CHR '')'') # ts"] by (simp add: close_paren_def)
  qed
next
  case (CAnd cs)
  then have "list_all (reads_back D) cs" by (auto simp: list_all_iff)
  then show ?case by (rule combine_reads_back [where w = "''AND''" and C = CAnd]) (use CAnd.prems in simp_all)
next
  case (COr cs)
  then have "list_all (reads_back D) cs" by (auto simp: list_all_iff)
  then show ?case by (rule combine_reads_back [where w = "''OR''" and C = COr]) (use COr.prems in simp_all)
qed

text \<open>Positions stand for the values.\<close>

lemma nargs_simps [simp]:
  "nargs (BinPred c opr v) = 1" "nargs (InPred c vs) = length vs" "nargs (NotInPred c vs) = length vs" "nargs (NullPred c) = 0"
  "nargs (NotNullPred c) = 0" "nargs (CNot d) = nargs d" "nargs (CAnd cs) = sum_list (map nargs cs)" "nargs (COr cs) = sum_list (map nargs cs)"
  using BindRepr_combine(2) [where cs = cs and sep = "'' AND ''"] BindRepr_combine(2) [where cs = cs and sep = "'' OR ''"]
  by (simp_all add: nargs_def [abs_def] case_prod_beta length_concat comp_def)

lemma snd_BindRepr_combine [simp]:
  "snd (BindRepr (CAnd cs)) = concat (map (snd \<circ> BindRepr) cs)" "snd (BindRepr (COr cs)) = concat (map (snd \<circ> BindRepr) cs)"
  using BindRepr_combine(2) [where cs = cs and sep = "'' AND ''"] BindRepr_combine(2) [where cs = cs and sep = "'' OR ''"] by simp_all

lemma refs_bind:
  "(\<And>i. i < nargs c \<Longrightarrow> g (n + i) = snd (BindRepr c) ! i) \<Longrightarrow> map_Cond g (refs n c) = flat c"
  "(\<And>i. i < sum_list (map nargs cs) \<Longrightarrow> g (n + i) = concat (map (snd \<circ> BindRepr) cs) ! i) \<Longrightarrow> map (map_Cond g) (refs_list n cs) = map flat cs"
proof (induction n c and n cs rule: refs_refs_list.induct)
  case (2 n c vs)
  then have "map g [n..<n + length vs] = vs" by (intro nth_equalityI) auto
  then show ?case by simp
next
  case (3 n c vs)
  then have "map g [n..<n + length vs] = vs" by (intro nth_equalityI) auto
  then show ?case by simp
next
  case (6 n c)
  then show ?case by (simp add: case_prod_beta Let_def)
next
  case (7 n cs)
  have "map (map_Cond g) (refs_list n cs) = map flat cs"
    by (rule 7(1)) (use 7(2) in \<open>simp only: nargs_simps snd_BindRepr_combine\<close>)
  then show ?case by (auto simp: Cons_eq_map_conv map_eq_Cons_conv split: list.split)
next
  case (8 n cs)
  have "map (map_Cond g) (refs_list n cs) = map flat cs"
    by (rule 8(1)) (use 8(2) in \<open>simp only: nargs_simps snd_BindRepr_combine\<close>)
  then show ?case by (auto simp: Cons_eq_map_conv map_eq_Cons_conv split: list.split)
next
  case (10 n c cs)
  have "g (n + i) = snd (BindRepr c) ! i" if "i < nargs c" for i
    using that 10(3) [of i] by (simp add: nth_append nargs_def [abs_def])
  moreover have "g (n + nargs c + i) = concat (map (snd \<circ> BindRepr) cs) ! i" if "i < sum_list (map nargs cs)" for i
    using that 10(3) [of "nargs c + i"] by (simp add: nth_append nargs_def [abs_def] add.assoc comp_def)
  ultimately show ?case using 10(1,2) by (simp add: comp_def)
qed simp_all

section \<open>Placeholders\<close>

text \<open>A dialect reads its placeholders as numbers (PostgreSQL) or without (MySQL): \<open>h\<close> is what it sees of the numbers.\<close>

fun anonymise :: "token \<Rightarrow> token" where
  "anonymise (Ph _) = Ph None"
| "anonymise t = t"

definition sees :: "(token \<Rightarrow> token) \<Rightarrow> bool" where "sees h \<longleftrightarrow> h = (\<lambda>t. t) \<or> h = anonymise"

lemma sees_simps [simp]:
  assumes "sees h"
  shows "h (Word w) = Word w" "h (Quoted w) = Quoted w" "h (Sym w) = Sym w" "h (Punct c) = Punct c"
  using assms by (auto simp: sees_def)

fun phs :: "token list \<Rightarrow> nat list" where
  "phs [] = []"
| "phs (Ph (Some n) # ts) = n # phs ts"
| "phs (_ # ts) = phs ts"

lemma phs_append [simp]: "phs (a @ b) = phs a @ phs b"
  by (induction a rule: phs.induct) auto

lemma settle_seen:
  assumes "sees h" "phs ts = [n..<n + k]" "Ph None \<notin> set ts"
  shows "settle n (map h ts) = ts"
proof (cases "h = (\<lambda>t. t)")
  case True
  have "Ph None \<notin> set ts \<Longrightarrow> settle n ts = ts" for n by (induction n ts rule: settle.induct) auto
  then show ?thesis using True assms(3) by simp
next
  case False
  then have h: "h = anonymise" using assms(1) by (simp add: sees_def)
  have "phs ts = [n..<n + k] \<Longrightarrow> Ph None \<notin> set ts \<Longrightarrow> settle n (map anonymise ts) = ts"
  proof (induction ts arbitrary: n k rule: phs.induct)
    case (2 m ts)
    then obtain j where k: "k = Suc j" by (cases k) auto
    then have "[n..<n + k] = n # [Suc n..<Suc n + j]" by (simp add: upt_rec)
    then have "m = n" "phs ts = [Suc n..<Suc n + j]" using 2(2) by simp_all
    then show ?case using 2(1) [of "Suc n" j] 2(3) by simp
  qed auto
  then show ?thesis using h assms(2,3) by simp
qed

lemma map_inter: "map h (inter S Ts) = inter (map h S) (map (map h) Ts)"
  by (induction S Ts rule: inter.induct) auto

lemma ctoks_seen:
  fixes c :: "'v Cond" and cs :: "'v Cond list"
  assumes "sees h"
  shows "map h (ctoks numbered n c) = ctoks (\<lambda>n. h (numbered n)) n c"
    and "map (map h) (ctoks_list numbered n cs) = ctoks_list (\<lambda>n. h (numbered n)) n cs"
proof (induction n c and n cs rule: refs_refs_list.induct)
  case (1 n c opr v)
  then show ?case using assms by (simp add: op_toks_def)
next
  case (7 n cs)
  then show ?case using assms by (cases "ctoks_list numbered n cs" rule: remdups_adj.cases) (auto simp: map_inter simp flip: 7)
next
  case (8 n cs)
  then show ?case using assms by (cases "ctoks_list numbered n cs" rule: remdups_adj.cases) (auto simp: map_inter simp flip: 8)
qed (use assms in \<open>auto simp: items_toks_def map_inter comp_def\<close>)

lemma phs_inter: "phs S = [] \<Longrightarrow> phs (inter S Ts) = concat (map phs Ts)"
  by (induction S Ts rule: inter.induct) auto

lemma phs_items: "phs (items_toks numbered n k) = [n..<n + k]"
proof -
  have "concat (map (\<lambda>x. [x]) xs) = xs" for xs :: "nat list" by (induction xs) simp_all
  then show ?thesis by (simp add: items_toks_def phs_inter comp_def numbered_def)
qed

lemma phs_ctoks:
  fixes c :: "'v Cond" and cs :: "'v Cond list"
  shows "phs (ctoks numbered n c) = [n..<n + nargs c]"
  and "concat (map phs (ctoks_list numbered n cs)) = [n..<n + sum_list (map nargs cs)]"
proof (induction n c and n cs rule: refs_refs_list.induct)
  case (1 n c opr v)
  then show ?case by (simp add: op_toks_def numbered_def)
next
  case (7 n cs)
  then show ?case by (cases "ctoks_list numbered n cs" rule: remdups_adj.cases) (auto simp: phs_inter)
next
  case (8 n cs)
  then show ?case by (cases "ctoks_list numbered n cs" rule: remdups_adj.cases) (auto simp: phs_inter)
next
  case (10 n c cs)
  then show ?case by (simp add: upt_add_eq_append [symmetric] add.assoc del: upt_add_eq_append) (metis le_add1 upt_add_eq_append add.assoc)
qed (auto simp: phs_items)

definition numbered_only :: "token list \<Rightarrow> bool" where "numbered_only ts \<longleftrightarrow> Ph None \<notin> set ts"

lemma numbered_only_simps [simp]:
  "numbered_only []" "numbered_only (t # ts) \<longleftrightarrow> t \<noteq> Ph None \<and> numbered_only ts" "numbered_only (a @ b) \<longleftrightarrow> numbered_only a \<and> numbered_only b"
  by (auto simp: numbered_only_def)

lemma numbered_only_inter: "numbered_only S \<Longrightarrow> list_all numbered_only Ts \<Longrightarrow> numbered_only (inter S Ts)"
  by (induction S Ts rule: inter.induct) auto

lemma numbered_only_items: "numbered_only (items_toks numbered n k)"
  unfolding items_toks_def by (rule numbered_only_inter) (auto simp: numbered_def list_all_iff)

lemma numbered_only_ctoks:
  fixes c :: "'v Cond" and cs :: "'v Cond list"
  shows "numbered_only (ctoks numbered n c)" and "list_all numbered_only (ctoks_list numbered n cs)"
proof (induction n c and n cs rule: refs_refs_list.induct)
  case (1 n c opr v)
  then show ?case by (simp add: op_toks_def numbered_def)
next
  case (7 n cs)
  then show ?case
    by (cases "ctoks_list numbered n cs" rule: remdups_adj.cases) (auto simp: numbered_only_inter)
next
  case (8 n cs)
  then show ?case
    by (cases "ctoks_list numbered n cs" rule: remdups_adj.cases) (auto simp: numbered_only_inter)
qed (auto simp: numbered_only_items)

lemma set_refs:
  fixes c :: "'v Cond" and cs :: "'v Cond list"
  shows "set_Cond (refs n c) = {n..<n + nargs c}"
    and "\<Union> (set_Cond ` set (refs_list n cs)) = {n..<n + sum_list (map nargs cs)}"
proof (induction n c and n cs rule: refs_refs_list.induct)
  case (7 n cs)
  then show ?case by (cases "refs_list n cs" rule: remdups_adj.cases) auto
next
  case (8 n cs)
  then show ?case by (cases "refs_list n cs" rule: remdups_adj.cases) auto
qed auto

section \<open>Reading names and lists\<close>

definition name_toks :: "string \<Rightarrow> token list" where "name_toks name = quoted_toks (Split (CHR ''.'') name)"

definition no_dot :: "token list \<Rightarrow> bool" where "no_dot ts \<longleftrightarrow> (case ts of t # _ \<Rightarrow> t \<noteq> Punct (CHR ''.'') | [] \<Rightarrow> True)"

lemma parse_parts_toks: "ps \<noteq> [] \<Longrightarrow> no_dot rest \<Longrightarrow> parse_parts (quoted_toks ps @ rest) = Some (ps, rest)"
proof (induction ps rule: quoted_toks.induct)
  case (2 p)
  then show ?case by (cases "Quoted p # rest" rule: parse_parts.cases) (auto simp: no_dot_def)
qed auto

lemma join_Split: "join [c] (Split c s) = s"
proof (induction s)
  case (Cons x s)
  then show ?case by (cases "Split c s" rule: remdups_adj.cases) (auto split: list.splits)
qed simp

lemma parse_name_toks: "no_dot rest \<Longrightarrow> parse_name (name_toks name @ rest) = Some (name, rest)"
  by (simp add: parse_name_def name_toks_def parse_parts_toks join_Split)

definition assign_toks :: "nat \<Rightarrow> string \<Rightarrow> token list" where "assign_toks n name = name_toks name @ [Sym ''='', numbered n]"

lemma parse_assign_toks: "parse_assign (assign_toks n name @ rest) = Some ((name, n), rest)"
  using parse_name_toks [of "Sym ''='' # Ph (Some n) # rest" name] by (simp add: parse_assign_def assign_toks_def numbered_def no_dot_def)

lemma parse_sep_toks:
  assumes sep: "no_dot (s # [])" and rest: "no_dot rest" "\<And>r. rest \<noteq> s # r"
  shows "list_all2 (\<lambda>x T. \<forall>r. no_dot r \<longrightarrow> p (T @ r) = Some (x, r)) xs Ts \<Longrightarrow> xs \<noteq> [] \<Longrightarrow> length xs \<le> f \<Longrightarrow>
    parse_sep p s f (inter [s] Ts @ rest) = Some (xs, rest)"
proof (induction xs arbitrary: Ts f)
  case step: (Cons x xs)
  obtain T Ts' where T: "Ts = T # Ts'" "\<And>r. no_dot r \<Longrightarrow> p (T @ r) = Some (x, r)"
    "list_all2 (\<lambda>x T. \<forall>r. no_dot r \<longrightarrow> p (T @ r) = Some (x, r)) xs Ts'" using step.prems(1) by (auto simp: list_all2_Cons1)
  obtain g where f: "f = Suc g" using step.prems(3) by (cases f) auto
  show ?case
  proof (cases xs)
    case Nil
    then have "Ts' = []" using T(3) by simp
    then show ?thesis using T(1) T(2) [OF rest(1)] rest(2) f Nil by (cases rest) auto
  next
    case (Cons y ys)
    then obtain T' Ts'' where T': "Ts' = T' # Ts''" using T(3) by (auto simp: list_all2_Cons1)
    have "parse_sep p s g (inter [s] Ts' @ rest) = Some (xs, rest)" using step.IH [OF T(3)] step.prems(3) Cons f by simp
    moreover have "no_dot (s # inter [s] Ts' @ rest)" using sep by (simp add: no_dot_def)
    ultimately show ?thesis using T(1) T(2) [of "s # inter [s] Ts' @ rest"] T' f by simp
  qed
qed simp

lemma parse_names_toks:
  assumes "no_dot rest" "\<And>r. rest \<noteq> Punct (CHR '','') # r" "names \<noteq> []" "length names \<le> f"
  shows "parse_sep parse_name (Punct (CHR '','')) f (inter [Punct (CHR '','')] (map name_toks names) @ rest) = Some (names, rest)"
  by (rule parse_sep_toks) (use assms in \<open>auto simp: no_dot_def list_all2_map2 parse_name_toks intro!: list.rel_refl\<close>)

definition assigns :: "nat \<Rightarrow> string list \<Rightarrow> (string \<times> nat) list" where
  "assigns n names = zip names [n..<n + length names]"

definition assigns_toks :: "token \<Rightarrow> nat \<Rightarrow> string list \<Rightarrow> token list" where
  "assigns_toks s n names = inter [s] (map (\<lambda>(name, i). assign_toks i name) (assigns n names))"

lemma parse_assigns_toks:
  assumes "no_dot rest" "\<And>r. rest \<noteq> s # r" "no_dot [s]" "names \<noteq> []" "length names \<le> f"
  shows "parse_sep parse_assign s f (assigns_toks s n names @ rest) = Some (assigns n names, rest)"
  unfolding assigns_toks_def
  by (rule parse_sep_toks) (use assms in \<open>auto simp: list_all2_map2 parse_assign_toks assigns_def intro!: list.rel_refl\<close>)

section \<open>Statements\<close>

definition speaks :: "Dialect \<Rightarrow> SqlClient \<Rightarrow> (token \<Rightarrow> token) \<Rightarrow> bool" where
  "speaks D cl h \<longleftrightarrow> dialect_ok D \<and> sees h \<and> QuoteIdentifier cl = quote_parts (dl_quote D) \<and> reads_phs (dl_quote D) cl (\<lambda>n. h (numbered n))"

lemma speaksD:
  assumes "speaks D cl h"
  shows "dialect_ok D" "sees h" "QuoteIdentifier cl = quote_parts (dl_quote D)" "reads_phs (dl_quote D) cl (\<lambda>n. h (numbered n))"
    "quote_char (dl_quote D)"
  using assms by (simp_all add: speaks_def dialect_ok_def)

lemma read_stmtI:
  assumes "sees h" "lexes (dl_quote D) query (map h T)" "phs T = [1..<1 + length args]" "numbered_only T"
    and "\<And>f. length T < f \<Longrightarrow> parse_stmt D f T = Some a" "set_ast a = {1..length args}"
  shows "read_stmt D query args = Some (map_ast (\<lambda>k. args ! (k - 1)) a)"
  using lexes_whole [OF assms(2)] settle_seen [OF assms(1,3)] assms(4-6) by (simp add: read_stmt_def numbered_only_def)

lemma map_name_toks [simp]: "sees h \<Longrightarrow> map h (name_toks name) = name_toks name"
proof -
  have "sees h \<Longrightarrow> map h (quoted_toks ps) = quoted_toks ps" for ps by (induction ps rule: quoted_toks.induct) auto
  then show "sees h \<Longrightarrow> ?thesis" by (simp add: name_toks_def)
qed

lemma name_toks_plain [simp]: "phs (name_toks name) = []" "numbered_only (name_toks name)"
proof -
  have "phs (quoted_toks ps) = [] \<and> numbered_only (quoted_toks ps)" for ps by (induction ps rule: quoted_toks.induct) auto
  then show "phs (name_toks name) = []" "numbered_only (name_toks name)" by (simp_all add: name_toks_def)
qed

lemma name_toks_Quoted: "\<exists>p r. name_toks name = Quoted p # r"
  using Split_not_Nil [of "CHR ''.''" name] unfolding name_toks_def
  by (cases "Split (CHR ''.'') name" rule: quoted_toks.cases) auto

lemma names_plain [simp]:
  "phs (inter [Punct p] (map name_toks names)) = []" "numbered_only (inter [Punct p] (map name_toks names))"
  by (simp_all add: phs_inter numbered_only_inter list_all_iff comp_def)

lemma assigns_plain [simp]:
  assumes "phs [s] = []" "numbered_only [s]"
  shows "phs (assigns_toks s n names) = [n..<n + length names]" "numbered_only (assigns_toks s n names)"
proof -
  have "concat (map (\<lambda>x. phs (case x of (name, i) \<Rightarrow> assign_toks i name)) xs) = map snd xs" for xs
    by (induction xs) (auto simp: assign_toks_def numbered_def)
  then show "phs (assigns_toks s n names) = [n..<n + length names]" using assms by (simp add: assigns_toks_def phs_inter comp_def assigns_def)
  show "numbered_only (assigns_toks s n names)" unfolding assigns_toks_def
    by (rule numbered_only_inter) (use assms in \<open>auto simp: list_all_iff assign_toks_def numbered_def\<close>)
qed

lemma lex_Quote:
  assumes "speaks D cl h"
  shows "lexes (dl_quote D) (QuoteIdentifier cl name) (name_toks name)"
  using lex_quote_parts [OF speaksD(5) [OF assms]] speaksD(3) [OF assms] by (simp add: name_toks_def)

lemma lex_Quotes:
  assumes "speaks D cl h"
  shows "lexes (dl_quote D) (QuoteJoinIdentifiers cl names) (inter [Punct (CHR '','')] (map name_toks names))"
  unfolding QuoteJoinIdentifiers_def
  by (rule lex_join [OF lex_comma [OF speaksD(5) [OF assms]]])
    (auto simp: stop_def list_all2_map1 list_all2_map2 lex_Quote [OF assms] intro!: list.rel_refl)

lemma lex_assign:
  assumes "speaks D cl h"
  shows "lexes (dl_quote D) (QuoteIdentifier cl name @ '' = '' @ NthPlaceholder cl n) (map h (assign_toks n name))"
proof -
  have q: "quote_char (dl_quote D)" by (rule speaksD(5) [OF assms])
  have "lexes (dl_quote D) (NthPlaceholder cl n) [h (numbered n)]" using speaksD(4) [OF assms] by (simp add: reads_phs_def)
  moreover have "lexes (dl_quote D) ''='' [Sym ''='']" using lex_op [OF q, of "''=''"] by (simp add: bin_ops_def op_toks_def)
  ultimately have "lexes (dl_quote D) (CHR '' '' # ''='' @ CHR '' '' # NthPlaceholder cl n) (Sym ''='' # [h (numbered n)])"
    using lex_sp [OF q lexes_stopped [OF _ lex_sp [OF q] stop_space(1)]] by fastforce
  from lexes_stopped [OF lex_Quote [OF assms] this stop_space(1)] show ?thesis
    using speaksD(2) [OF assms] by (simp add: assign_toks_def)
qed

lemma lex_assigns:
  assumes "speaks D cl h" "open_lexes (dl_quote D) sep [s]" "stop sep" "sep \<noteq> []" "h s = s"
  shows "lexes (dl_quote D) (join sep (map (\<lambda>(name, i). QuoteIdentifier cl name @ '' = '' @ NthPlaceholder cl i) (assigns n names)))
     (map h (assigns_toks s n names))"
  unfolding assigns_toks_def map_inter list.map assms(5)
  by (rule lex_join [OF assms(2-4)])
    (auto simp: list_all2_map1 list_all2_map2 comp_def lex_assign [OF assms(1), simplified] intro!: list.rel_refl split: prod.split)

lemma assigns_shift: "map (\<lambda>(i, x). f x (n + i)) (zip [0..<length xs] xs) = map (\<lambda>(x, i). f x i) (assigns n xs)"
  by (rule nth_equalityI) (simp_all add: assigns_def)

lemma WherePK_eq:
  "WherePK cl table n = join '' AND '' (map (\<lambda>(name, i). QuoteIdentifier cl name @ '' = '' @ NthPlaceholder cl i) (assigns n (Columns_Names (tb_pkColumns table))))"
  unfolding WherePK_def Let_def
  using assigns_shift [of "\<lambda>name i. QuoteIdentifier cl name @ '' = '' @ NthPlaceholder cl i" n "Columns_Names (tb_pkColumns table)"] by simp

lemma set_clauses_eq: "set_clauses qt ph cols = join '', '' (map (\<lambda>(name, i). qt name @ '' = '' @ ph i) (assigns 1 cols))"
  unfolding set_clauses_def using assigns_shift [of "\<lambda>name i. qt name @ '' = '' @ ph i" 1 cols] by simp

lemma lex_WherePK:
  assumes "speaks D cl h"
  shows "lexes (dl_quote D) (WherePK cl table n) (map h (assigns_toks (Word ''AND'') n (Columns_Names (tb_pkColumns table))))"
  unfolding WherePK_eq using lex_assigns [OF assms lex_word_sep [OF speaksD(5) [OF assms] kw_text(1)] stop_space(1)] speaksD(2) [OF assms] by simp

lemma lex_sets:
  assumes "speaks D cl h"
  shows "lexes (dl_quote D) (set_clauses (QuoteIdentifier cl) (NthPlaceholder cl) cols) (map h (assigns_toks (Punct (CHR '','')) 1 cols))"
  unfolding set_clauses_eq using lex_assigns [OF assms lex_comma [OF speaksD(5) [OF assms]]] speaksD(2) [OF assms] by (simp add: stop_def)

definition where_toks :: "nat \<Rightarrow> 'v Cond option \<Rightarrow> token list" where
  "where_toks n w = (case w of None \<Rightarrow> [] | Some c \<Rightarrow> Word ''WHERE'' # ctoks numbered n c)"

definition where_nargs :: "'v Cond option \<Rightarrow> nat" where
  "where_nargs w = (case w of None \<Rightarrow> 0 | Some c \<Rightarrow> nargs c)"

definition where_ok :: "Dialect \<Rightarrow> 'v Cond option \<Rightarrow> bool" where
  "where_ok D w \<longleftrightarrow> (case w of None \<Rightarrow> True | Some c \<Rightarrow> cond_ok c \<and> (\<forall>name\<in>cond_cols c. usable D name))"

lemma cond_text_nonempty: "cond_ok c \<Longrightarrow> fst (BindRepr c) \<noteq> []"
proof (induction c)
  case (CAnd cs)
  then show ?case unfolding BindRepr.simps BindRepr_combine by (auto split: list.split simp: list_all_iff)
next
  case (COr cs)
  then show ?case unfolding BindRepr.simps BindRepr_combine by (auto split: list.split simp: list_all_iff)
qed (auto simp: case_prod_beta)

lemma lex_where:
  assumes "speaks D cl h" "where_ok D w"
  shows "lexes (dl_quote D) (fst (WhereClause_Build w cl n)) (map h (where_toks n w))" "stop (fst (WhereClause_Build w cl n))"
    "snd (WhereClause_Build w cl n) = (case w of None \<Rightarrow> [] | Some c \<Rightarrow> snd (BindRepr c))"
proof -
  have "lexes (dl_quote D) (fst (WhereClause_Build w cl n)) (map h (where_toks n w)) \<and> stop (fst (WhereClause_Build w cl n)) \<and>
    snd (WhereClause_Build w cl n) = (case w of None \<Rightarrow> [] | Some c \<Rightarrow> snd (BindRepr c))"
  proof (cases w)
    case None
    then show ?thesis by (simp add: WhereClause_Build_def where_toks_def stop_def lexes_def)
  next
    case (Some c)
    have c: "cond_ok c" "fst (BindRepr c) \<noteq> []" using assms(2) Some cond_text_nonempty by (auto simp: where_ok_def)
    have q: "quote_char (dl_quote D)" by (rule speaksD(5) [OF assms(1)])
    have "lexes (dl_quote D) (number_questions cl n (fst (BindRepr c))) (map h (ctoks numbered n c))"
      using lex_cond [OF speaksD(4) [OF assms(1)] c(1)] by (simp add: cond_text_ok_def ctoks_seen(1) [OF speaksD(2) [OF assms(1)]])
    from lex_then [OF q kw_text(10) lex_sp [OF q this]] have
      "lexes (dl_quote D) ('' WHERE '' @ number_questions cl n (fst (BindRepr c))) (map h (where_toks n w))"
      using Some speaksD(2) [OF assms(1)] by (simp add: where_toks_def)
    then show ?thesis using c(2) Some by (simp add: WhereClause_Build_def case_prod_beta stop_def)
  qed
  then show "lexes (dl_quote D) (fst (WhereClause_Build w cl n)) (map h (where_toks n w))" "stop (fst (WhereClause_Build w cl n))"
    "snd (WhereClause_Build w cl n) = (case w of None \<Rightarrow> [] | Some c \<Rightarrow> snd (BindRepr c))" by blast+
qed

lemma where_plain [simp]: "phs (where_toks n w) = [n..<n + where_nargs w]" "numbered_only (where_toks n w)"
  by (auto simp: where_toks_def where_nargs_def phs_ctoks numbered_only_ctoks split: option.split)

lemma parse_where_toks:
  assumes "dialect_ok D" "where_ok D w" "length (where_toks n w) < f"
  shows "parse_where D f (where_toks n w) = Some (map_option (refs n) w, [])"
proof (cases w)
  case (Some c)
  have c: "reads_back D c" using cond_reads_back [OF assms(1)] assms(2) Some by (auto simp: where_ok_def)
  obtain t r where t: "ctoks numbered n c = t # r" "\<And>x. t \<noteq> Quoted x"
  proof (cases "ctoks numbered n c")
    case Nil
    then show ?thesis using reads_backD [OF c, of n 0 "[]"] by simp
  next
    case (Cons t r)
    moreover have "t \<noteq> Quoted x" for x
      using reads_backD [OF c, of n "Suc (length r)" "[]"] Cons by auto
    ultimately show ?thesis using that by blast
  qed
  have "parse_cond D f (ctoks numbered n c) = Some (refs n c, [])"
    using reads_backD [OF c, of n f "[]"] assms(3) Some by (simp add: where_toks_def)
  then show ?thesis using Some t by (cases t) (auto simp: parse_where_def where_toks_def)
qed (simp add: parse_where_def where_toks_def)

lemma parse_where_key:
  assumes "names \<noteq> []" "length names \<le> f" "no_dot rest" "\<And>r. rest \<noteq> Word ''AND'' # r"
  shows "parse_where D f (Word ''WHERE'' # assigns_toks (Word ''AND'') n names @ rest) = Some (Some (key_cond (assigns n names)), rest)"
proof -
  obtain name names' where "names = name # names'" using assms(1) by (cases names) auto
  moreover from this have "[n..<n + length names] = n # [Suc n..<n + length names]" by (intro upt_conv_Cons) simp
  ultimately have "assigns n names = (name, n) # zip names' [Suc n..<n + length names]" by (simp only: assigns_def zip_Cons_Cons)
  then have "\<exists>p r. assigns_toks (Word ''AND'') n names = Quoted p # r"
    using name_toks_Quoted [of name]
    by (cases "zip names' [Suc n..<n + length names]") (auto simp: assigns_toks_def assign_toks_def split: prod.splits)
  then obtain p r where r: "assigns_toks (Word ''AND'') n names = Quoted p # r" by blast
  have "parse_sep parse_assign (Word ''AND'') f (assigns_toks (Word ''AND'') n names @ rest) = Some (assigns n names, rest)"
    by (rule parse_assigns_toks) (use assms in \<open>simp_all add: no_dot_def\<close>)
  then show ?thesis using r by (simp add: parse_where_def)
qed

end
