(* ===== verification/Sql_Drivers.thy ===== *)
theory Sql_Drivers
  imports Sql_Correct
begin

text \<open>
  The statements of the drivers read as the operation that was asked for, in both dialects; what a condition that constrains
  nothing does; and what a batch of rows of unequal width does.
\<close>

section \<open>Whole statements\<close>

lemma lex_kw_then:
  assumes "quote_char q" "word_text w" "lexes q s ts"
  shows "lexes q (w @ CHR '' '' # s) (Word w # ts)"
  using lexes_stopped [OF lex_kw [OF assms(1,2)] lex_sp [OF assms(1,3)] stop_space(1)] by simp

lemma lex_mid:
  assumes "quote_char q" "lexes q a A" "word_text w" "lexes q s ts"
  shows "lexes q (a @ CHR '' '' # w @ CHR '' '' # s) (A @ Word w # ts)"
  using lexes_stopped [OF assms(2) lex_then [OF assms(1,3) lex_sp [OF assms(1,4)]] stop_space(1)] .

lemma assigns_bind:
  assumes "\<And>i. i < length names \<Longrightarrow> g (n + i) = vs ! i" "length vs = length names"
  shows "map (map_prod id g) (assigns n names) = zip names vs"
  by (rule nth_equalityI) (use assms in \<open>simp_all add: assigns_def\<close>)

lemma set_assigns: "\<Union> (Basic_BNFs.snds ` set (assigns n names)) = {n..<n + length names}"
proof -
  have "\<Union> (Basic_BNFs.snds ` set (assigns n names)) = set (map snd (assigns n names))" by (auto simp: prod_set_defs)
  then show ?thesis by (simp add: assigns_def)
qed

lemma key_cond_map: "map_Cond g (key_cond ps) = key_cond (map (map_prod id g) ps)"
  by (cases ps rule: remdups_adj.cases) (auto simp: key_cond_def)

lemma set_key_cond: "set_Cond (key_cond ps) = snd ` set ps"
  by (cases ps rule: remdups_adj.cases) (auto simp: key_cond_def intro: rev_image_eqI)

lemma where_bind:
  assumes "\<And>i. i < where_nargs w \<Longrightarrow> g (n + i) = (case w of None \<Rightarrow> [] | Some c \<Rightarrow> snd (BindRepr c)) ! i"
  shows "map_option (map_Cond g) (map_option (refs n) w) = map_option flat w"
  using assms refs_bind(1) by (cases w) (auto simp: where_nargs_def)

lemma set_where: "\<Union> (set_Cond ` set_option (map_option (refs n) w)) = {n..<n + where_nargs w}"
  by (cases w) (simp_all add: where_nargs_def set_refs(1))

lemma where_args_length: "length (case w of None \<Rightarrow> [] | Some c \<Rightarrow> snd (BindRepr c)) = where_nargs w"
  by (cases w) (simp_all add: where_nargs_def nargs_def)

lemma no_dot_Cons: "no_dot (t # ts) \<longleftrightarrow> t \<noteq> Punct (CHR ''.'')"
  by (simp add: no_dot_def)

lemma where_toks_rest: "no_dot (where_toks n w)" "where_toks n w \<noteq> Punct p # r"
  by (cases w; simp add: where_toks_def no_dot_def)+

lemma inter_length: "list_all (\<lambda>t. t \<noteq> []) Ts \<Longrightarrow> length Ts \<le> length (inter S Ts)"
proof (induction S Ts rule: inter.induct)
  case (2 S t)
  then show ?case by (cases t) auto
next
  case (3 S t t' ts)
  then show ?case by (cases t) auto
qed simp

lemma names_length: "length names \<le> length (inter [Punct p] (map name_toks names))"
proof -
  have "name_toks name \<noteq> []" for name using name_toks_Quoted [of name] by auto
  then have "list_all (\<lambda>t. t \<noteq> []) (map name_toks names)" by (simp add: list_all_iff)
  from inter_length [OF this] show ?thesis by simp
qed

lemma assigns_length: "length names \<le> length (assigns_toks s n names)"
proof -
  have "list_all (\<lambda>t. t \<noteq> []) (map (\<lambda>(name, i). assign_toks i name) (assigns n names))" by (auto simp: list_all_iff assign_toks_def)
  from inter_length [OF this, of "[s]"] show ?thesis by (simp add: assigns_toks_def assigns_def)
qed

subsection \<open>Selections and deletions\<close>

lemma read_select:
  assumes sp: "speaks D cl h" and w: "where_ok D w" and cols: "cols \<noteq> []"
  shows "read_stmt D (''SELECT '' @ QuoteJoinIdentifiers cl cols @ '' FROM '' @ QuoteIdentifier cl t @ fst (WhereClause_Build w cl 1))
    (snd (WhereClause_Build w cl 1)) = Some (ASelect cols t (map_option flat w) False)"
proof -
  note q = speaksD(5) [OF sp] and D = speaksD(1) [OF sp] and h = speaksD(2) [OF sp]
  let ?args = "snd (WhereClause_Build w cl 1)"
  have args: "?args = (case w of None \<Rightarrow> [] | Some c \<Rightarrow> snd (BindRepr c))" "length ?args = where_nargs w"
    using lex_where(3) [OF sp w] where_args_length by auto
  let ?N = "inter [Punct (CHR '','')] (map name_toks cols)"
  let ?T = "Word ''SELECT'' # ?N @ Word ''FROM'' # name_toks t @ where_toks 1 w"
  have "read_stmt D (''SELECT'' @ CHR '' '' # QuoteJoinIdentifiers cl cols @ CHR '' '' # ''FROM'' @ CHR '' '' # QuoteIdentifier cl t @ fst (WhereClause_Build w cl 1)) ?args =
      Some (map_ast (\<lambda>k. ?args ! (k - 1)) (ASelect cols t (map_option (refs 1) w) False))"
  proof (rule read_stmtI [OF h])
    have "lexes (dl_quote D) (''SELECT'' @ CHR '' '' # QuoteJoinIdentifiers cl cols @ CHR '' '' # ''FROM'' @ CHR '' '' # QuoteIdentifier cl t @ fst (WhereClause_Build w cl 1))
        (Word ''SELECT'' # ?N @ Word ''FROM'' # name_toks t @ map h (where_toks 1 w))"
      by (rule lex_kw_then [OF q kw_text(8) lex_mid [OF q lex_Quotes [OF sp, of cols] kw_text(9) lexes_stopped [OF lex_Quote [OF sp, of t] lex_where(1,2) [OF sp w]]]])
    then show "lexes (dl_quote D) (''SELECT'' @ CHR '' '' # QuoteJoinIdentifiers cl cols @ CHR '' '' # ''FROM'' @ CHR '' '' # QuoteIdentifier cl t @ fst (WhereClause_Build w cl 1)) (map h ?T)"
      using h by (simp add: map_inter comp_def)
    show "phs ?T = [1..<1 + length ?args]" using args(2) by simp
    show "numbered_only ?T" by simp
    show "set_ast (ASelect cols t (map_option (refs 1) w) False) = {1..length ?args}"
      using set_where [of 1 w] args(2) by (auto simp: atLeastLessThanSuc_atLeastAtMost)
  next
    fix f
    assume f: "length ?T < f"
    have "length cols \<le> f" "length (where_toks 1 w) < f" using f names_length [of cols "CHR '',''"] by simp_all
    then show "parse_stmt D f ?T = Some (ASelect cols t (map_option (refs 1) w) False)"
      using parse_names_toks [of "Word ''FROM'' # name_toks t @ where_toks 1 w" cols f] cols
        parse_name_toks [OF where_toks_rest(1) [of 1 w], of t] parse_where_toks [OF D w, of 1 f]
      by (simp add: parse_stmt_def no_dot_def)
  qed
  moreover have "map_option (map_Cond (\<lambda>k. ?args ! (k - 1))) (map_option (refs 1) w) = map_option flat w"
    by (rule where_bind) (simp only: add_diff_cancel_left' args(1))
  ultimately show ?thesis by simp
qed

lemma read_delete:
  assumes sp: "speaks D cl h" and w: "where_ok D w"
  shows "read_stmt D (''DELETE FROM '' @ QuoteIdentifier cl t @ fst (WhereClause_Build w cl 1)) (snd (WhereClause_Build w cl 1)) =
    Some (ADelete t (map_option flat w))"
proof -
  note q = speaksD(5) [OF sp] and D = speaksD(1) [OF sp] and h = speaksD(2) [OF sp]
  let ?args = "snd (WhereClause_Build w cl 1)"
  have args: "?args = (case w of None \<Rightarrow> [] | Some c \<Rightarrow> snd (BindRepr c))" "length ?args = where_nargs w"
    using lex_where(3) [OF sp w] where_args_length by auto
  let ?T = "Word ''DELETE'' # Word ''FROM'' # name_toks t @ where_toks 1 w"
  have "read_stmt D (''DELETE'' @ CHR '' '' # ''FROM'' @ CHR '' '' # QuoteIdentifier cl t @ fst (WhereClause_Build w cl 1)) ?args =
      Some (map_ast (\<lambda>k. ?args ! (k - 1)) (ADelete t (map_option (refs 1) w)))"
  proof (rule read_stmtI [OF h, where T = ?T])
    show "lexes (dl_quote D) (''DELETE'' @ CHR '' '' # ''FROM'' @ CHR '' '' # QuoteIdentifier cl t @ fst (WhereClause_Build w cl 1)) (map h ?T)"
      using lex_kw_then [OF q kw_text(19) lex_kw_then [OF q kw_text(9) lexes_stopped [OF lex_Quote [OF sp, of t] lex_where(1,2) [OF sp w]]]] h by simp
    show "phs ?T = [1..<1 + length ?args]" using args(2) by simp
    show "set_ast (ADelete t (map_option (refs 1) w)) = {1..length ?args}"
      using set_where [of 1 w] args(2) by (auto simp: atLeastLessThanSuc_atLeastAtMost)
    show "parse_stmt D f ?T = Some (ADelete t (map_option (refs 1) w))" if "length ?T < f" for f
      using that parse_name_toks [OF where_toks_rest(1) [of 1 w], of t] parse_where_toks [OF D w, of 1 f] by (simp add: parse_stmt_def)
  qed simp
  moreover have "map_option (map_Cond (\<lambda>k. ?args ! (k - 1))) (map_option (refs 1) w) = map_option flat w"
    by (rule where_bind) (simp only: add_diff_cancel_left' args(1))
  ultimately show ?thesis by simp
qed

text \<open>By key: one comparison per key column, in the order of the key.\<close>

lemma key_bind:
  assumes "\<And>i. i < length names \<Longrightarrow> g (n + i) = vs ! i" "length vs = length names"
  shows "map_Cond g (key_cond (assigns n names)) = key_cond (zip names vs)"
  using assigns_bind [OF assms] by (simp add: key_cond_map)

lemma set_key: "set_Cond (key_cond (assigns n names)) = {n..<n + length names}"
proof -
  have "snd ` set (assigns n names) = set (map snd (assigns n names))" by simp
  then show ?thesis by (simp add: set_key_cond assigns_def del: set_map)
qed

lemma read_delete_key:
  assumes sp: "speaks D cl h" and pk: "Columns_Names (tb_pkColumns table) = names" "names \<noteq> []" "length pkValue = length names"
  shows "read_stmt D (''DELETE FROM '' @ QuoteIdentifier cl t @ '' WHERE '' @ WherePK cl table 1) pkValue =
    Some (ADelete t (Some (key_cond (zip names pkValue))))"
proof -
  note q = speaksD(5) [OF sp] and h = speaksD(2) [OF sp]
  let ?T = "Word ''DELETE'' # Word ''FROM'' # name_toks t @ Word ''WHERE'' # assigns_toks (Word ''AND'') 1 names"
  let ?text = "''DELETE'' @ CHR '' '' # ''FROM'' @ CHR '' '' # QuoteIdentifier cl t @ CHR '' '' # ''WHERE'' @ CHR '' '' # WherePK cl table 1"
  have "read_stmt D ?text pkValue = Some (map_ast (\<lambda>k. pkValue ! (k - 1)) (ADelete t (Some (key_cond (assigns 1 names)))))"
  proof (rule read_stmtI [OF h, where T = ?T])
    show "lexes (dl_quote D) ?text (map h ?T)"
      using lex_kw_then [OF q kw_text(19) lex_kw_then [OF q kw_text(9) lex_mid [OF q lex_Quote [OF sp, of t] kw_text(10) lex_WherePK [OF sp, of table 1]]]] h pk(1) by simp
    show "phs ?T = [1..<1 + length pkValue]" using pk(3) by simp
    show "set_ast (ADelete t (Some (key_cond (assigns 1 names)))) = {1..length pkValue}"
      using set_key [of 1 names] pk(3) by (simp add: atLeastLessThanSuc_atLeastAtMost)
    show "parse_stmt D f ?T = Some (ADelete t (Some (key_cond (assigns 1 names))))" if "length ?T < f" for f
    proof -
      have "length names \<le> f" using that assigns_length [of names "Word ''AND''" 1] by simp
      then show ?thesis
        using parse_name_toks [of "Word ''WHERE'' # assigns_toks (Word ''AND'') 1 names" t] parse_where_key [OF pk(2), of f "[]" D 1]
        by (simp add: parse_stmt_def no_dot_def)
    qed
  qed simp
  then show ?thesis using key_bind [of names "\<lambda>k. pkValue ! (k - 1)" 1 pkValue] pk(3) by simp
qed

lemma read_select_key:
  assumes sp: "speaks D cl h" and pk: "Columns_Names (tb_pkColumns table) = names" "names \<noteq> []" "length pkValue = length names" and cols: "cols \<noteq> []"
  shows "read_stmt D (''SELECT '' @ QuoteJoinIdentifiers cl cols @ '' FROM '' @ QuoteIdentifier cl t @ '' WHERE '' @ WherePK cl table 1 @ '' LIMIT 1'') pkValue =
    Some (ASelect cols t (Some (key_cond (zip names pkValue))) True)"
proof -
  note q = speaksD(5) [OF sp] and h = speaksD(2) [OF sp]
  let ?N = "inter [Punct (CHR '','')] (map name_toks cols)"
  let ?W = "Word ''WHERE'' # assigns_toks (Word ''AND'') 1 names @ [Word ''LIMIT'', Word ''1'']"
  let ?T = "Word ''SELECT'' # ?N @ Word ''FROM'' # name_toks t @ ?W"
  let ?text = "''SELECT'' @ CHR '' '' # QuoteJoinIdentifiers cl cols @ CHR '' '' # ''FROM'' @ CHR '' '' # QuoteIdentifier cl t @ CHR '' '' # ''WHERE'' @ CHR '' '' #
    WherePK cl table 1 @ CHR '' '' # ''LIMIT'' @ CHR '' '' # ''1''"
  have "read_stmt D ?text pkValue = Some (map_ast (\<lambda>k. pkValue ! (k - 1)) (ASelect cols t (Some (key_cond (assigns 1 names))) True))"
  proof (rule read_stmtI [OF h, where T = ?T])
    have one: "lexes (dl_quote D) ''1'' [Word ''1'']" by (rule lex_kw [OF q kw_text(12)])
    show "lexes (dl_quote D) ?text (map h ?T)"
      using lex_kw_then [OF q kw_text(8) lex_mid [OF q lex_Quotes [OF sp, of cols] kw_text(9) lex_mid [OF q lex_Quote [OF sp, of t] kw_text(10)
        lex_mid [OF q lex_WherePK [OF sp, of table 1] kw_text(11) one]]]] h pk(1) by (simp add: map_inter comp_def)
    show "phs ?T = [1..<1 + length pkValue]" using pk(3) by simp
    show "set_ast (ASelect cols t (Some (key_cond (assigns 1 names))) True) = {1..length pkValue}"
      using set_key [of 1 names] pk(3) by (simp add: atLeastLessThanSuc_atLeastAtMost)
    show "parse_stmt D f ?T = Some (ASelect cols t (Some (key_cond (assigns 1 names))) True)" if "length ?T < f" for f
    proof -
      have "length names \<le> f" "length cols \<le> f"
        using that assigns_length [of names "Word ''AND''" 1] names_length [of cols "CHR '',''"] by simp_all
      then show ?thesis
        using parse_names_toks [of "Word ''FROM'' # name_toks t @ ?W" cols f] cols parse_name_toks [of ?W t]
          parse_where_key [OF pk(2), of f "[Word ''LIMIT'', Word ''1'']" D 1]
        by (simp add: parse_stmt_def no_dot_def)
    qed
  qed simp
  then show ?thesis using key_bind [of names "\<lambda>k. pkValue ! (k - 1)" 1 pkValue] pk(3) by simp
qed

subsection \<open>Updates\<close>

lemma read_update:
  assumes sp: "speaks D cl h" and w: "where_ok D w" and cols: "cols \<noteq> []" "length values = length cols"
  shows "read_stmt D (''UPDATE '' @ QuoteIdentifier cl t @ '' SET '' @ set_clauses (QuoteIdentifier cl) (NthPlaceholder cl) cols @
      fst (WhereClause_Build w cl (length cols + 1))) (values @ snd (WhereClause_Build w cl (length cols + 1))) =
    Some (AUpdate t (zip cols values) (map_option flat w))"
proof -
  note q = speaksD(5) [OF sp] and D = speaksD(1) [OF sp] and h = speaksD(2) [OF sp]
  let ?n = "length cols + 1"
  let ?wargs = "snd (WhereClause_Build w cl ?n)" and ?g = "\<lambda>k. (values @ snd (WhereClause_Build w cl ?n)) ! (k - 1)"
  have args: "?wargs = (case w of None \<Rightarrow> [] | Some c \<Rightarrow> snd (BindRepr c))" "length ?wargs = where_nargs w"
    using lex_where(3) [OF sp w] where_args_length by auto
  let ?A = "assigns_toks (Punct (CHR '','')) 1 cols"
  let ?T = "Word ''UPDATE'' # name_toks t @ Word ''SET'' # ?A @ where_toks ?n w"
  let ?text = "''UPDATE'' @ CHR '' '' # QuoteIdentifier cl t @ CHR '' '' # ''SET'' @ CHR '' '' # set_clauses (QuoteIdentifier cl) (NthPlaceholder cl) cols @
    fst (WhereClause_Build w cl ?n)"
  let ?a = "AUpdate t (assigns 1 cols) (map_option (refs ?n) w)"
  have "read_stmt D ?text (values @ ?wargs) = Some (map_ast ?g ?a)"
  proof (rule read_stmtI [OF h, where T = ?T])
    show "lexes (dl_quote D) ?text (map h ?T)"
      using lex_kw_then [OF q kw_text(17) lex_mid [OF q lex_Quote [OF sp, of t] kw_text(18)
        lexes_stopped [OF lex_sets [OF sp, of cols] lex_where(1,2) [OF sp w, of ?n]]]] h by simp
    have "[1..<1 + length cols] @ [?n..<?n + where_nargs w] = [1..<1 + (length cols + where_nargs w)]"
      using upt_add_eq_append [of 1 "1 + length cols" "where_nargs w"] by (simp add: add.assoc)
    then show "phs ?T = [1..<1 + length (values @ ?wargs)]" using args(2) cols(2) by simp
    show "set_ast ?a = {1..length (values @ ?wargs)}"
      using set_where [of ?n w] set_assigns [of 1 cols] args(2) cols(2) by auto
    show "parse_stmt D f ?T = Some ?a" if "length ?T < f" for f
    proof -
      have "length cols \<le> f" "length (where_toks ?n w) < f" using that assigns_length [of cols "Punct (CHR '','')" 1] by simp_all
      moreover have "parse_sep parse_assign (Punct (CHR '','')) f (?A @ where_toks ?n w) = Some (assigns 1 cols, where_toks ?n w)"
        by (rule parse_assigns_toks) (use calculation cols(1) in \<open>simp_all add: where_toks_rest no_dot_Cons\<close>)
      ultimately show ?thesis
        using parse_name_toks [of "Word ''SET'' # ?A @ where_toks ?n w" t] parse_where_toks [OF D w, of ?n f]
        by (simp add: parse_stmt_def no_dot_def)
    qed
  qed simp
  moreover have "map (map_prod id ?g) (assigns 1 cols) = zip cols values"
    by (rule assigns_bind) (use cols(2) in \<open>simp_all add: nth_append\<close>)
  moreover have "map_option (map_Cond ?g) (map_option (refs ?n) w) = map_option flat w"
    by (rule where_bind) (use cols(2) args(1) in \<open>simp add: nth_append\<close>)
  ultimately show ?thesis by simp
qed

lemma read_update_key:
  assumes sp: "speaks D cl h" and cols: "cols \<noteq> []" "length values = length cols"
    and pk: "Columns_Names (tb_pkColumns table) = names" "names \<noteq> []" "length pkValue = length names"
  shows "read_stmt D (''UPDATE '' @ QuoteIdentifier cl t @ '' SET '' @ set_clauses (QuoteIdentifier cl) (NthPlaceholder cl) cols @
      '' WHERE '' @ WherePK cl table (length cols + 1)) (values @ pkValue) =
    Some (AUpdate t (zip cols values) (Some (key_cond (zip names pkValue))))"
proof -
  note q = speaksD(5) [OF sp] and h = speaksD(2) [OF sp]
  let ?n = "length cols + 1" and ?g = "\<lambda>k. (values @ pkValue) ! (k - 1)"
  let ?A = "assigns_toks (Punct (CHR '','')) 1 cols" and ?W = "Word ''WHERE'' # assigns_toks (Word ''AND'') (length cols + 1) names"
  let ?T = "Word ''UPDATE'' # name_toks t @ Word ''SET'' # ?A @ ?W"
  let ?text = "''UPDATE'' @ CHR '' '' # QuoteIdentifier cl t @ CHR '' '' # ''SET'' @ CHR '' '' # set_clauses (QuoteIdentifier cl) (NthPlaceholder cl) cols @
    CHR '' '' # ''WHERE'' @ CHR '' '' # WherePK cl table ?n"
  let ?a = "AUpdate t (assigns 1 cols) (Some (key_cond (assigns ?n names)))"
  have "read_stmt D ?text (values @ pkValue) = Some (map_ast ?g ?a)"
  proof (rule read_stmtI [OF h, where T = ?T])
    show "lexes (dl_quote D) ?text (map h ?T)"
      using lex_kw_then [OF q kw_text(17) lex_mid [OF q lex_Quote [OF sp, of t] kw_text(18)
        lex_mid [OF q lex_sets [OF sp, of cols] kw_text(10) lex_WherePK [OF sp, of table ?n]]]] h pk(1) by simp
    have "[1..<1 + length cols] @ [?n..<?n + length names] = [1..<1 + (length cols + length names)]"
      using upt_add_eq_append [of 1 "1 + length cols" "length names"] by (simp add: add.assoc)
    then show "phs ?T = [1..<1 + length (values @ pkValue)]" using pk(3) cols(2) by simp
    show "set_ast ?a = {1..length (values @ pkValue)}"
      using set_key [of ?n names] set_assigns [of 1 cols] pk(3) cols(2) by auto
    show "parse_stmt D f ?T = Some ?a" if "length ?T < f" for f
    proof -
      have "length cols \<le> f" "length names \<le> f"
        using that assigns_length [of cols "Punct (CHR '','')" 1] assigns_length [of names "Word ''AND''" ?n] by simp_all
      moreover have "parse_sep parse_assign (Punct (CHR '','')) f (?A @ ?W) = Some (assigns 1 cols, ?W)"
        by (rule parse_assigns_toks) (use calculation cols(1) in \<open>auto simp: no_dot_def\<close>)
      ultimately show ?thesis
        using parse_name_toks [of "Word ''SET'' # ?A @ ?W" t] parse_where_key [OF pk(2), of f "[]" D ?n]
        by (simp add: parse_stmt_def no_dot_def)
    qed
  qed simp
  moreover have "map (map_prod id ?g) (assigns 1 cols) = zip cols values"
    by (rule assigns_bind) (use cols(2) in \<open>simp_all add: nth_append\<close>)
  moreover have "map_Cond ?g (key_cond (assigns ?n names)) = key_cond (zip names pkValue)"
    by (rule key_bind) (use cols(2) pk(3) in \<open>simp_all add: nth_append\<close>)
  ultimately show ?thesis by simp
qed

subsection \<open>Insertions\<close>

definition row_toks :: "nat \<Rightarrow> nat \<Rightarrow> token list" where
  "row_toks n k = Punct (CHR ''('') # items_toks numbered n k @ [Punct (CHR '')'')]"

text \<open>\<open>m\<close> rows of \<open>k\<close> placeholders each, from position \<open>n\<close>.\<close>

fun row_starts :: "nat \<Rightarrow> nat \<Rightarrow> nat \<Rightarrow> nat list" where
  "row_starts n k 0 = []"
| "row_starts n k (Suc m) = n # row_starts (n + k) k m"

lemma row_starts_length [simp]: "length (row_starts n k m) = m"
  by (induction m arbitrary: n) simp_all

definition rows_toks :: "nat \<Rightarrow> nat \<Rightarrow> nat \<Rightarrow> token list" where
  "rows_toks n k m = inter [Punct (CHR '','')] (map (\<lambda>i. row_toks i k) (row_starts n k m))"

lemma parse_row: "0 < k \<Longrightarrow> parse_list (row_toks n k @ rest) = Some ([n..<n + k], rest)"
  using parse_items_toks [of k n rest] by (simp add: parse_list_def row_toks_def)

lemma parse_rows_toks:
  assumes "0 < k" "0 < m" "m \<le> f" "no_dot rest" "\<And>r. rest \<noteq> Punct (CHR '','') # r"
  shows "parse_sep parse_list (Punct (CHR '','')) f (rows_toks n k m @ rest) = Some (map (\<lambda>i. [i..<i + k]) (row_starts n k m), rest)"
  unfolding rows_toks_def
  by (rule parse_sep_toks) (use assms in \<open>auto simp: no_dot_def list_all2_map1 list_all2_map2 parse_row intro!: list.rel_refl simp flip: length_greater_0_conv\<close>)

lemma phs_rows: "phs (rows_toks n k m) = [n..<n + m * k]"
proof -
  have "concat (map (phs \<circ> (\<lambda>i. row_toks i k)) (row_starts n k m)) = [n..<n + m * k]"
  proof (induction m arbitrary: n)
    case (Suc m)
    then show ?case using upt_add_eq_append [of n "n + k" "m * k"] by (simp add: row_toks_def phs_items add.assoc)
  qed simp
  then show ?thesis by (simp add: rows_toks_def phs_inter)
qed

lemma rows_plain: "numbered_only (rows_toks n k m)"
  unfolding rows_toks_def by (rule numbered_only_inter) (simp_all add: list_all_iff row_toks_def numbered_only_items)

lemma rows_length: "m \<le> length (rows_toks n k m)"
  using inter_length [of "map (\<lambda>i. row_toks i k) (row_starts n k m)" "[Punct (CHR '','')]"] by (simp add: rows_toks_def list_all_iff row_toks_def)

lemma rows_bind:
  assumes "\<And>i. i < length (concat rows) \<Longrightarrow> g (n + i) = concat rows ! i" "list_all (\<lambda>r. length r = k) rows"
  shows "map (map g) (map (\<lambda>i. [i..<i + k]) (row_starts n k (length rows))) = rows"
  using assms
proof (induction rows arbitrary: n)
  case (Cons r rows)
  have "map g [n..<n + k] = r"
    by (rule nth_equalityI) (use Cons.prems in \<open>auto simp: nth_append\<close>)
  moreover have "g (n + k + i) = concat rows ! i" if "i < length (concat rows)" for i
    using Cons.prems(1) [of "k + i"] Cons.prems(2) that by (simp add: nth_append add.assoc)
  ultimately show ?case using Cons.IH [of "n + k"] Cons.prems(2) by simp
qed simp

lemma set_rows: "\<Union> (set ` set (map (\<lambda>i. [i..<i + k]) (row_starts n k m))) = {n..<n + m * k}"
  by (induction m arbitrary: n) (auto simp: add.assoc)

definition returning :: "SqlClient \<Rightarrow> string option \<Rightarrow> string" where
  "returning cl ret = (case ret of None \<Rightarrow> [] | Some c \<Rightarrow> '' RETURNING '' @ QuoteIdentifier cl c)"

lemma concat_width: "list_all (\<lambda>r. length r = k) rows \<Longrightarrow> length (concat rows) = length rows * k"
  by (induction rows) auto

lemma read_insert:
  assumes sp: "speaks D cl h" and cols: "cols \<noteq> []" and rows: "rows \<noteq> []" "list_all (\<lambda>r. length r = length cols) rows"
    and rt: "lexes (dl_quote D) rt (map h (rows_toks 1 (length cols) (length rows)))"
  shows "read_stmt D (''INSERT INTO '' @ QuoteIdentifier cl t @ '' ('' @ QuoteJoinIdentifiers cl cols @ '') VALUES '' @ rt @ returning cl ret) (concat rows) =
    Some (AInsert t cols rows ret)"
proof -
  note q = speaksD(5) [OF sp] and h = speaksD(2) [OF sp]
  let ?k = "length cols" and ?m = "length rows" and ?g = "\<lambda>k. concat rows ! (k - 1)"
  let ?N = "inter [Punct (CHR '','')] (map name_toks cols)"
  let ?R = "case ret of None \<Rightarrow> [] | Some c \<Rightarrow> Word ''RETURNING'' # name_toks c"
  let ?V = "Word ''VALUES'' # rows_toks 1 ?k ?m @ ?R"
  let ?T = "Word ''INSERT'' # Word ''INTO'' # name_toks t @ Punct (CHR ''('') # ?N @ Punct (CHR '')'') # ?V"
  let ?text = "''INSERT'' @ CHR '' '' # ''INTO'' @ CHR '' '' # QuoteIdentifier cl t @ CHR '' '' # (CHR ''('' # QuoteJoinIdentifiers cl cols @ '')'') @ CHR '' '' # ''VALUES'' @
     CHR '' '' # rt @ returning cl ret"
  let ?a = "AInsert t cols (map (\<lambda>i. [i..<i + ?k]) (row_starts 1 ?k ?m)) ret"
  have len: "length (concat rows) = ?m * ?k" by (rule concat_width [OF rows(2)])
  have "read_stmt D ?text (concat rows) = Some (map_ast ?g ?a)"
  proof (rule read_stmtI [OF h, where T = ?T])
    have "lexes (dl_quote D) (rt @ returning cl ret) (map h (rows_toks 1 ?k ?m) @ ?R)"
    proof (cases ret)
      case (Some c)
      have "lexes (dl_quote D) (CHR '' '' # ''RETURNING'' @ CHR '' '' # QuoteIdentifier cl c) (Word ''RETURNING'' # name_toks c)"
        by (rule lex_then [OF q kw_text(16) lex_sp [OF q lex_Quote [OF sp]]])
      from lexes_stopped [OF rt this stop_space(1)] show ?thesis using Some by (simp add: returning_def)
    qed (use rt in \<open>simp add: returning_def\<close>)
    from lex_mid [OF q lex_paren [OF q lex_Quotes [OF sp, of cols]] kw_text(15) this]
    have "lexes (dl_quote D) ((CHR ''('' # QuoteJoinIdentifiers cl cols @ '')'') @ CHR '' '' # ''VALUES'' @ CHR '' '' # rt @ returning cl ret)
        (Punct (CHR ''('') # ?N @ Punct (CHR '')'') # Word ''VALUES'' # map h (rows_toks 1 ?k ?m) @ ?R)" by simp
    from lex_kw_then [OF q kw_text(13) lex_kw_then [OF q kw_text(14) lexes_stopped [OF lex_Quote [OF sp, of t] lex_sp [OF q this] stop_space(1)]]]
    moreover have "map h ?R = ?R" using h by (simp split: option.split)
    ultimately show "lexes (dl_quote D) ?text (map h ?T)" using h by (simp add: map_inter comp_def)
    show "phs ?T = [1..<1 + length (concat rows)]" using phs_rows [of 1 ?k ?m] len by (simp split: option.split)
    show "numbered_only ?T" using rows_plain by (simp split: option.split)
    have "\<Union> (set ` set (map (\<lambda>i. [i..<i + ?k]) (row_starts 1 ?k ?m))) = {1..?m * ?k}"
      using set_rows [of ?k 1 ?m] by (simp add: atLeastLessThanSuc_atLeastAtMost)
    then show "set_ast ?a = {1..length (concat rows)}" using len by simp
    show "parse_stmt D f ?T = Some ?a" if "length ?T < f" for f
    proof -
      have f: "?k \<le> f" "?m \<le> f" using that names_length [of cols "CHR '',''"] rows_length [of ?m 1 ?k] by simp_all
      have "parse_sep parse_list (Punct (CHR '','')) f (rows_toks 1 ?k ?m @ ?R) = Some (map (\<lambda>i. [i..<i + ?k]) (row_starts 1 ?k ?m), ?R)"
        by (rule parse_rows_toks) (use cols rows f(2) in \<open>auto simp: no_dot_def split: option.split\<close>)
      moreover have "parse_sep parse_name (Punct (CHR '','')) f (?N @ Punct (CHR '')'') # ?V) = Some (cols, Punct (CHR '')'') # ?V)"
        by (rule parse_names_toks) (use cols f(1) in \<open>simp_all add: no_dot_Cons\<close>)
      moreover have "parse_name (name_toks t @ Punct (CHR ''('') # ?N @ Punct (CHR '')'') # ?V) = Some (t, Punct (CHR ''('') # ?N @ Punct (CHR '')'') # ?V)"
        by (rule parse_name_toks) (simp add: no_dot_Cons)
      moreover have "parse_name (name_toks c) = Some (c, [])" for c using parse_name_toks [of "[]" c] by (simp add: no_dot_def)
      ultimately show ?thesis by (cases ret) (simp_all add: parse_stmt_def close_paren_def)
    qed
  qed
  moreover have "map (map ?g) (map (\<lambda>i. [i..<i + ?k]) (row_starts 1 ?k ?m)) = rows"
    by (rule rows_bind [OF _ rows(2)]) simp
  ultimately show ?thesis by simp
qed

lemma repeat_list_one: "repeat_list x (Suc 0) = x" by (simp add: repeat_list_def)

lemma repeat_list_join: "0 < n \<Longrightarrow> repeat_list x n = join '', '' (replicate n x)"
proof (induction n)
  case (Suc n)
  then show ?case by (cases n) (simp_all add: repeat_list_def)
qed simp

section \<open>The two dialects\<close>

text \<open>\<open>NOT\<close> is reserved in both; the other reserved words are a parameter.\<close>

definition pg_dialect :: "(string \<Rightarrow> bool) \<Rightarrow> Dialect" where
  "pg_dialect reserved = \<lparr>dl_quote = CHR 0x22, dl_fold = ToLower, dl_reserved = (\<lambda>w. w = ''NOT'' \<or> reserved w)\<rparr>"

definition my_dialect :: "(string \<Rightarrow> bool) \<Rightarrow> Dialect" where
  "my_dialect reserved = \<lparr>dl_quote = CHR 0x60, dl_fold = (\<lambda>s. s), dl_reserved = (\<lambda>w. w = ''NOT'' \<or> reserved w)\<rparr>"

lemma pg_speaks: "speaks (pg_dialect reserved) pgsql_Client (\<lambda>t. t)"
  by (simp add: speaks_def pg_dialect_def dialect_ok_def quote_char_def sees_def pgsql_Client_def reads_phs_def lex_dollar numbered_def)

lemma my_speaks: "speaks (my_dialect reserved) mysql_Client anonymise"
proof -
  have "quote_char (CHR 0x60)" by (simp add: quote_char_def)
  then have "lexes (CHR 0x60) ''?'' [Ph None]" using open_lexes_lexes [OF lex_question] by blast
  then show ?thesis
    by (simp add: speaks_def my_dialect_def dialect_ok_def quote_char_def sees_def mysql_Client_def reads_phs_def numbered_def)
qed

lemma my_where_eq: "my_where w = WhereClause_Build w mysql_Client n"
proof -
  have "number_questions mysql_Client n s = s" for n s by (induction s arbitrary: n) (auto simp: mysql_Client_def)
  then show ?thesis by (cases w) (auto simp: my_where_def WhereClause_Build_def case_prod_beta Let_def)
qed

section \<open>Drivers over a server\<close>

text \<open>A server carries out what it reads; text it cannot read it refuses.\<close>

record ('v, 'row, 'rows, 'st) server =
  sv_Exec :: "'v ast \<Rightarrow> 'st \<Rightarrow> (sql_error, int) result \<times> 'st"
  sv_QueryRow :: "'v ast \<Rightarrow> 'st \<Rightarrow> 'row \<times> 'st"
  sv_Query :: "'v ast \<Rightarrow> 'st \<Rightarrow> (sql_error, 'rows) result \<times> 'st"
  sv_BadRow :: "sql_error \<Rightarrow> 'row"
  sv_ScanKey :: "'row \<Rightarrow> (sql_error, int) result"
  sv_LastInsertId :: "'v ast \<Rightarrow> 'st \<Rightarrow> (sql_error, int) result \<times> 'st"

definition unread :: sql_error where "unread = OfDriver ''syntax error''"

definition connect :: "Dialect \<Rightarrow> ('v, 'row, 'rows, 'st) server \<Rightarrow> ('v, 'row, 'rows, 'st) conn" where
  "connect D sv = \<lparr>
     cn_Exec = (\<lambda>query args st. case read_stmt D query args of Some a \<Rightarrow> sv_Exec sv a st | None \<Rightarrow> (Inl unread, st)),
     cn_QueryRow = (\<lambda>query args st. case read_stmt D query args of Some a \<Rightarrow> sv_QueryRow sv a st | None \<Rightarrow> (sv_BadRow sv unread, st)),
     cn_Query = (\<lambda>query args st. case read_stmt D query args of Some a \<Rightarrow> sv_Query sv a st | None \<Rightarrow> (Inl unread, st)),
     cn_ScanKey = sv_ScanKey sv,
     cn_CopyFrom = (\<lambda>parts cols rows st. sv_Exec sv (AInsert (join ''.'' parts) cols rows None) st),
     cn_LastInsertId = (\<lambda>query args st. case read_stmt D query args of Some a \<Rightarrow> sv_LastInsertId sv a st | None \<Rightarrow> (Inl unread, st))\<rparr>"

lemma connect_simps [simp]:
  "read_stmt D query args = Some a \<Longrightarrow> cn_Exec (connect D sv) query args st = sv_Exec sv a st"
  "read_stmt D query args = Some a \<Longrightarrow> cn_QueryRow (connect D sv) query args st = sv_QueryRow sv a st"
  "read_stmt D query args = Some a \<Longrightarrow> cn_Query (connect D sv) query args st = sv_Query sv a st"
  "cn_ScanKey (connect D sv) = sv_ScanKey sv"
  "cn_CopyFrom (connect D sv) parts cols rows st = sv_Exec sv (AInsert (join ''.'' parts) cols rows None) st"
  "read_stmt D query args = Some a \<Longrightarrow> cn_LastInsertId (connect D sv) query args st = sv_LastInsertId sv a st"
  by (simp_all add: connect_def)

record ('v, 'row, 'rows, 'st) Executor =
  ex_SelectRow :: "Table \<Rightarrow> 'v list \<Rightarrow> string list \<Rightarrow> 'st \<Rightarrow> (sql_error, 'row) result \<times> 'st"
  ex_SelectRows :: "Table \<Rightarrow> 'v Cond option \<Rightarrow> string list \<Rightarrow> 'st \<Rightarrow> (sql_error, 'rows) result \<times> 'st"
  ex_InsertRow :: "Table \<Rightarrow> string list \<Rightarrow> 'v list \<Rightarrow> 'st \<Rightarrow> sql_error option \<times> 'st"
  ex_InsertRows :: "Table \<Rightarrow> string list \<Rightarrow> 'v list list \<Rightarrow> 'st \<Rightarrow> (sql_error, int) result \<times> 'st"
  ex_InsertRowAutoIncrementingPK :: "Table \<Rightarrow> string list \<Rightarrow> 'v list \<Rightarrow> 'st \<Rightarrow> (sql_error, int) result \<times> 'st"
  ex_UpdateRow :: "Table \<Rightarrow> 'v list \<Rightarrow> string list \<Rightarrow> 'v list \<Rightarrow> 'st \<Rightarrow> (sql_error, int) result \<times> 'st"
  ex_UpdateRows :: "Table \<Rightarrow> string list \<Rightarrow> 'v list \<Rightarrow> 'v Cond option \<Rightarrow> 'st \<Rightarrow> (sql_error, int) result \<times> 'st"
  ex_DeleteRow :: "Table \<Rightarrow> 'v list \<Rightarrow> 'st \<Rightarrow> (sql_error, int) result \<times> 'st"
  ex_DeleteRows :: "Table \<Rightarrow> 'v Cond option \<Rightarrow> 'st \<Rightarrow> (sql_error, int) result \<times> 'st"

definition pg_DB :: "('v, 'row, 'rows, 'st) conn \<Rightarrow> ('v, 'row, 'rows, 'st) Executor" where
  "pg_DB cn = \<lparr>ex_SelectRow = pg_SelectRow cn, ex_SelectRows = pg_SelectRows cn, ex_InsertRow = pg_InsertRow cn, ex_InsertRows = pg_InsertRows cn,
     ex_InsertRowAutoIncrementingPK = pg_InsertRowAutoIncrementingPK cn, ex_UpdateRow = pg_UpdateRow cn, ex_UpdateRows = pg_UpdateRows cn,
     ex_DeleteRow = pg_DeleteRow cn, ex_DeleteRows = pg_DeleteRows cn\<rparr>"

definition my_DB :: "('v, 'row, 'rows, 'st) conn \<Rightarrow> ('v, 'row, 'rows, 'st) Executor" where
  "my_DB cn = \<lparr>ex_SelectRow = my_SelectRow cn, ex_SelectRows = my_SelectRows cn, ex_InsertRow = my_InsertRow cn, ex_InsertRows = my_InsertRows cn,
     ex_InsertRowAutoIncrementingPK = my_InsertRowAutoIncrementingPK cn, ex_UpdateRow = my_UpdateRow cn, ex_UpdateRows = my_UpdateRows cn,
     ex_DeleteRow = my_DeleteRow cn, ex_DeleteRows = my_DeleteRows cn\<rparr>"

text \<open>The methods of a transaction (\<open>tx.go\<close>) are those of the database, on the connection of the transaction.\<close>

definition pg_Tx :: "('v, 'row, 'rows, 'st) conn \<Rightarrow> ('v, 'row, 'rows, 'st) Executor" where
  "pg_Tx tx = pg_DB tx"

definition my_Tx :: "('v, 'row, 'rows, 'st) conn \<Rightarrow> ('v, 'row, 'rows, 'st) Executor" where
  "my_Tx tx = my_DB tx"

text \<open>What the interface promises its callers, in terms of what the server is asked for. \<open>pk\<close> and \<open>all\<close> are the names of the key and of every column.\<close>

definition declares :: "Table \<Rightarrow> string list \<Rightarrow> string list \<Rightarrow> bool" where
  "declares table pk all \<longleftrightarrow> pk \<noteq> [] \<and> all \<noteq> [] \<and> columns_of pk (tb_pkColumns table) \<and> columns_of all (tb_columns table)"

locale sql_executor =
  fixes E :: "('v, 'row, 'rows, 'st) Executor" and sv :: "('v, 'row, 'rows, 'st) server" and D :: Dialect
  assumes SelectRow_law: "declares table pk all \<Longrightarrow> distinct names \<Longrightarrow> set names \<subseteq> set all \<Longrightarrow> length key = length pk \<Longrightarrow>
      ex_SelectRow E table key names st = apfst Inr
        (sv_QueryRow sv (ASelect (if names = [] then all else names) (tb_name table) (Some (key_cond (zip pk key))) True) st)"
    and SelectRows_law: "declares table pk all \<Longrightarrow> distinct names \<Longrightarrow> set names \<subseteq> set all \<Longrightarrow> where_ok D w \<Longrightarrow>
      ex_SelectRows E table w names st =
        sv_Query sv (ASelect (if names = [] then all else names) (tb_name table) (map_option flat w) False) st"
    and InsertRow_law: "declares table pk all \<Longrightarrow> names \<noteq> [] \<Longrightarrow> distinct names \<Longrightarrow> set names \<subseteq> set all \<Longrightarrow> length vs = length names \<Longrightarrow>
      ex_InsertRow E table names vs st =
        apfst (\<lambda>r. case r of Inl e \<Rightarrow> Some e | Inr _ \<Rightarrow> None) (sv_Exec sv (AInsert (tb_name table) names [vs] None) st)"
    and InsertRows_law: "declares table pk all \<Longrightarrow> names \<noteq> [] \<Longrightarrow> distinct names \<Longrightarrow> set names \<subseteq> set all \<Longrightarrow> rows \<noteq> [] \<Longrightarrow>
      list_all (\<lambda>r. length r = length names) rows \<Longrightarrow>
      ex_InsertRows E table names rows st = sv_Exec sv (AInsert (tb_name table) names rows None) st"
    and UpdateRow_law: "declares table pk all \<Longrightarrow> names \<noteq> [] \<Longrightarrow> distinct names \<Longrightarrow> set names \<subseteq> set all \<Longrightarrow> length vs = length names \<Longrightarrow>
      length key = length pk \<Longrightarrow>
      ex_UpdateRow E table key names vs st = sv_Exec sv (AUpdate (tb_name table) (zip names vs) (Some (key_cond (zip pk key)))) st"
    and UpdateRows_law: "declares table pk all \<Longrightarrow> names \<noteq> [] \<Longrightarrow> distinct names \<Longrightarrow> set names \<subseteq> set all \<Longrightarrow> length vs = length names \<Longrightarrow>
      where_ok D w \<Longrightarrow>
      ex_UpdateRows E table names vs w st = sv_Exec sv (AUpdate (tb_name table) (zip names vs) (map_option flat w)) st"
    and DeleteRow_law: "declares table pk all \<Longrightarrow> length key = length pk \<Longrightarrow>
      ex_DeleteRow E table key st = sv_Exec sv (ADelete (tb_name table) (Some (key_cond (zip pk key)))) st"
    and DeleteRows_law: "where_ok D w \<Longrightarrow> ex_DeleteRows E table w st = sv_Exec sv (ADelete (tb_name table) (map_option flat w)) st"

lemma Choose_accepts:
  assumes "columns_of all c" "distinct names" "set names \<subseteq> set all"
  obtains c' where "Choose c names = Inr c'" "Columns_Names c' = (if names = [] then all else names)"
proof -
  have walk: "distinct ns \<Longrightarrow> set ns \<subseteq> set all \<Longrightarrow> set ns \<inter> seen = {} \<Longrightarrow> choose_walk c ns seen acc = Inr (acc @ map Column ns)" for ns seen acc
    using assms(1) by (induction ns arbitrary: seen acc) (auto simp: Columns_Find_def columns_of_def)
  show thesis
  proof (cases "names = []")
    case True
    then show thesis using that assms(1) by (simp add: Choose_def Columns_Names_def columns_of_def)
  next
    case False
    then show thesis using that walk [OF assms(2,3), of "{}" "[]"] by (simp add: Choose_def Columns_Names_def newColumns_def comp_def)
  qed
qed

lemma declaresD:
  assumes "declares table pk all"
  shows "Columns_Names (tb_pkColumns table) = pk" "pk \<noteq> []" "all \<noteq> []" "columns_of all (tb_columns table)"
    "length key = length pk \<Longrightarrow> ValidatePK table key = None"
  using assms by (auto simp: declares_def Columns_Names_def columns_of_def ValidatePK_def Columns_Len_def)

text \<open>The placeholders of an insertion.\<close>

lemma map_items: "sees h \<Longrightarrow> map h (items_toks numbered n k) = items_toks (\<lambda>n. h (numbered n)) n k"
  by (simp add: items_toks_def map_inter comp_def)

lemma lex_row:
  assumes "speaks D cl h"
  shows "lexes (dl_quote D) (CHR ''('' # join '', '' (map (NthPlaceholder cl) [n..<n + k]) @ '')'') (map h (row_toks n k))"
proof -
  have "number_questions cl n (questions (replicate k ())) = join '', '' (map (NthPlaceholder cl) [n..<n + k])"
    using number_list_questions [of cl n "replicate k ()"] by (simp add: questions_def number_join)
  then have "lexes (dl_quote D) (join '', '' (map (NthPlaceholder cl) [n..<n + k])) (items_toks (\<lambda>n. h (numbered n)) n k)"
    using lex_questions [OF speaksD(4) [OF assms], of n "replicate k ()"] by simp
  from lex_paren [OF speaksD(5) [OF assms] this] show ?thesis
    using speaksD(2) [OF assms] by (simp add: row_toks_def map_items)
qed

lemma dollars_eq: "dollars k = map (NthPlaceholder pgsql_Client) [1..<1 + k]"
proof -
  have "[1..<1 + k] = map Suc [0..<k]" by (simp only: map_Suc_upt One_nat_def plus_nat.add_Suc plus_nat.add_0)
  then show ?thesis by (simp only: dollars_def pgsql_Client_def SqlClient.select_convs map_map comp_def Suc_eq_plus1)
qed

lemma my_placeholders: "map (NthPlaceholder mysql_Client) [n..<n + k] = replicate k ''?''"
  by (simp add: mysql_Client_def map_replicate_const)

lemma one_row: "rows_toks n k 1 = row_toks n k" by (simp add: rows_toks_def)

lemma my_rows:
  assumes "speaks D mysql_Client h" "0 < k" "0 < m"
  shows "lexes (dl_quote D) (repeat_list (''('' @ repeat_list ''?'' k @ '')'') m) (map h (rows_toks n k m))"
proof -
  have row: "lexes (dl_quote D) (''('' @ repeat_list ''?'' k @ '')'') (map h (row_toks i k))" for i
    using lex_row [OF assms(1), of i k] assms(2) my_placeholders [of i k] by (simp add: repeat_list_join)
  have "list_all2 (lexes (dl_quote D)) (replicate m (''('' @ repeat_list ''?'' k @ '')'')) (map (\<lambda>i. map h (row_toks i k)) (row_starts n k m))"
    using row by (simp add: list_all2_conv_all_nth)
  then show ?thesis
    using lex_join [OF lex_comma [OF speaksD(5) [OF assms(1)]]] speaksD(2) [OF assms(1)] assms(3)
    by (simp add: repeat_list_join rows_toks_def map_inter comp_def stop_def)
qed

lemma pg_nth: "dollar = NthPlaceholder pgsql_Client" by (simp add: pgsql_Client_def)

lemma pg_SelectRow_law:
  assumes t: "declares table pk all" "distinct names" "set names \<subseteq> set all" "length key = length pk"
  shows "ex_SelectRow (pg_DB (connect (pg_dialect reserved) sv)) table key names st = apfst Inr
      (sv_QueryRow sv (ASelect (if names = [] then all else names) (tb_name table) (Some (key_cond (zip pk key))) True) st)"
proof -
  note sp = pg_speaks [of reserved]
  note d = declaresD [OF t(1)]
  obtain c' where c: "Choose (tb_columns table) names = Inr c'" "Columns_Names c' = (if names = [] then all else names)"
    using Choose_accepts [OF d(4) t(2,3)] .
  show ?thesis
    using read_select_key [OF sp d(1,2) t(4), of "Columns_Names c'" "tb_name table"] c d(3) d(5) [OF t(4)]
    by (simp add: pg_DB_def pg_SelectRow_def case_prod_beta apfst_def map_prod_def)
qed

lemma pg_SelectRows_law:
  assumes t: "declares table pk all" "distinct names" "set names \<subseteq> set all" "where_ok (pg_dialect reserved) w"
  shows "ex_SelectRows (pg_DB (connect (pg_dialect reserved) sv)) table w names st =
      sv_Query sv (ASelect (if names = [] then all else names) (tb_name table) (map_option flat w) False) st"
proof -
  note sp = pg_speaks [of reserved]
  note d = declaresD [OF t(1)]
  obtain c' where c: "Choose (tb_columns table) names = Inr c'" "Columns_Names c' = (if names = [] then all else names)"
    using Choose_accepts [OF d(4) t(2,3)] .
  show ?thesis
    using read_select [OF sp t(4), of "Columns_Names c'" "tb_name table"] c d(3) by (simp add: pg_DB_def pg_SelectRows_def case_prod_beta)
qed

lemma pg_InsertRow_law:
  assumes t: "declares table pk all" "names \<noteq> []" "distinct names" "set names \<subseteq> set all" "length vs = length names"
  shows "ex_InsertRow (pg_DB (connect (pg_dialect reserved) sv)) table names vs st =
      apfst (\<lambda>r. case r of Inl e \<Rightarrow> Some e | Inr _ \<Rightarrow> None) (sv_Exec sv (AInsert (tb_name table) names [vs] None) st)"
proof -
  note sp = pg_speaks [of reserved]
  obtain c' where c: "Choose (tb_columns table) names = Inr c'" using Choose_accepts [OF declaresD(4) [OF t(1)] t(3,4)] .
  have row: "lexes (dl_quote (pg_dialect reserved)) (CHR ''('' # join '', '' (map (NthPlaceholder pgsql_Client) [1..<1 + length names]) @ '')'')
      (map (\<lambda>t. t) (rows_toks 1 (length names) (length [vs])))"
    using lex_row [OF sp, of 1 "length names"] one_row [of 1 "length names"] by simp
  show ?thesis
    using read_insert [OF sp t(2) _ _ row, of "tb_name table" None] c t(2,5)
    by (simp add: pg_DB_def pg_InsertRow_def case_prod_beta dollars_eq returning_def apfst_def map_prod_def)
qed

lemma pg_InsertRows_law:
  assumes t: "declares table pk all" "names \<noteq> []" "distinct names" "set names \<subseteq> set all" "rows \<noteq> []" "list_all (\<lambda>r. length r = length names) rows"
  shows "ex_InsertRows (pg_DB (connect (pg_dialect reserved) sv)) table names rows st = sv_Exec sv (AInsert (tb_name table) names rows None) st"
proof -
  note sp = pg_speaks [of reserved]
  obtain c' where c: "Choose (tb_columns table) names = Inr c'" using Choose_accepts [OF declaresD(4) [OF t(1)] t(3,4)] .
  show ?thesis using c t(2,5) by (simp add: pg_DB_def pg_InsertRows_def join_Split)
qed

lemma pg_UpdateRow_law:
  assumes t: "declares table pk all" "names \<noteq> []" "distinct names" "set names \<subseteq> set all" "length vs = length names" "length key = length pk"
  shows "ex_UpdateRow (pg_DB (connect (pg_dialect reserved) sv)) table key names vs st =
      sv_Exec sv (AUpdate (tb_name table) (zip names vs) (Some (key_cond (zip pk key)))) st"
proof -
  note sp = pg_speaks [of reserved]
  note d = declaresD [OF t(1)]
  obtain c' where c: "Choose (tb_columns table) names = Inr c'" using Choose_accepts [OF d(4) t(3,4)] .
  show ?thesis
    using read_update_key [OF sp t(2,5) d(1,2) t(6), of "tb_name table"] c t(2,5) d(5) [OF t(6)]
    by (simp add: pg_DB_def pg_UpdateRow_def pg_nth)
qed

lemma pg_UpdateRows_law:
  assumes t: "declares table pk all" "names \<noteq> []" "distinct names" "set names \<subseteq> set all" "length vs = length names" "where_ok (pg_dialect reserved) w"
  shows "ex_UpdateRows (pg_DB (connect (pg_dialect reserved) sv)) table names vs w st =
      sv_Exec sv (AUpdate (tb_name table) (zip names vs) (map_option flat w)) st"
proof -
  note sp = pg_speaks [of reserved]
  obtain c' where c: "Choose (tb_columns table) names = Inr c'" using Choose_accepts [OF declaresD(4) [OF t(1)] t(3,4)] .
  show ?thesis
    using read_update [OF sp t(6,2,5), of "tb_name table"] c t(2,5) by (simp add: pg_DB_def pg_UpdateRows_def case_prod_beta pg_nth)
qed

lemma pg_DeleteRow_law:
  assumes t: "declares table pk all" "length key = length pk"
  shows "ex_DeleteRow (pg_DB (connect (pg_dialect reserved) sv)) table key st =
      sv_Exec sv (ADelete (tb_name table) (Some (key_cond (zip pk key)))) st"
proof -
  note sp = pg_speaks [of reserved]
  note d = declaresD [OF t(1)]
  show ?thesis
    using read_delete_key [OF sp d(1,2) t(2), of "tb_name table"] d(5) [OF t(2)] by (simp add: pg_DB_def pg_DeleteRow_def)
qed

lemma pg_DeleteRows_law:
  assumes t: "where_ok (pg_dialect reserved) w"
  shows "ex_DeleteRows (pg_DB (connect (pg_dialect reserved) sv)) table w st = sv_Exec sv (ADelete (tb_name table) (map_option flat w)) st"
  using read_delete [OF pg_speaks t, of "tb_name table"] by (simp add: pg_DB_def pg_DeleteRows_def case_prod_beta)

lemma pg_executor:
  "sql_executor (pg_DB (connect (pg_dialect reserved) sv)) sv (pg_dialect reserved)"
  by unfold_locales (rule pg_SelectRow_law pg_SelectRows_law pg_InsertRow_law pg_InsertRows_law pg_UpdateRow_law pg_UpdateRows_law pg_DeleteRow_law pg_DeleteRows_law; assumption)+

lemma my_nth: "(\<lambda>_. ''?'') = NthPlaceholder mysql_Client" by (simp add: mysql_Client_def)

lemma my_SelectRow_law:
  assumes t: "declares table pk all" "distinct names" "set names \<subseteq> set all" "length key = length pk"
  shows "ex_SelectRow (my_DB (connect (my_dialect reserved) sv)) table key names st = apfst Inr
      (sv_QueryRow sv (ASelect (if names = [] then all else names) (tb_name table) (Some (key_cond (zip pk key))) True) st)"
proof -
  note sp = my_speaks [of reserved]
  note d = declaresD [OF t(1)]
  obtain c' where c: "Choose (tb_columns table) names = Inr c'" "Columns_Names c' = (if names = [] then all else names)"
    using Choose_accepts [OF d(4) t(2,3)] .
  show ?thesis
    using read_select_key [OF sp d(1,2) t(4), of "Columns_Names c'" "tb_name table"] c d(3) d(5) [OF t(4)]
    by (simp add: my_DB_def my_SelectRow_def case_prod_beta apfst_def map_prod_def)
qed

lemma my_SelectRows_law:
  assumes t: "declares table pk all" "distinct names" "set names \<subseteq> set all" "where_ok (my_dialect reserved) w"
  shows "ex_SelectRows (my_DB (connect (my_dialect reserved) sv)) table w names st =
      sv_Query sv (ASelect (if names = [] then all else names) (tb_name table) (map_option flat w) False) st"
proof -
  note sp = my_speaks [of reserved]
  note d = declaresD [OF t(1)]
  obtain c' where c: "Choose (tb_columns table) names = Inr c'" "Columns_Names c' = (if names = [] then all else names)"
    using Choose_accepts [OF d(4) t(2,3)] .
  show ?thesis
    using read_select [OF sp t(4), of "Columns_Names c'" "tb_name table"] c d(3) by (simp add: my_DB_def my_SelectRows_def case_prod_beta my_where_eq [of _ 1])
qed

lemma my_InsertRow_law:
  assumes t: "declares table pk all" "names \<noteq> []" "distinct names" "set names \<subseteq> set all" "length vs = length names"
  shows "ex_InsertRow (my_DB (connect (my_dialect reserved) sv)) table names vs st =
      apfst (\<lambda>r. case r of Inl e \<Rightarrow> Some e | Inr _ \<Rightarrow> None) (sv_Exec sv (AInsert (tb_name table) names [vs] None) st)"
proof -
  note sp = my_speaks [of reserved]
  obtain c' where c: "Choose (tb_columns table) names = Inr c'" using Choose_accepts [OF declaresD(4) [OF t(1)] t(3,4)] .
  have row: "lexes (dl_quote (my_dialect reserved)) (repeat_list (''('' @ repeat_list ''?'' (length names) @ '')'') (length [vs]))
      (map anonymise (rows_toks 1 (length names) (length [vs])))"
    using my_rows [OF sp, of "length names" 1] t(2) by simp
  show ?thesis
    using read_insert [OF sp t(2) _ _ row, of "tb_name table" None] c t(2,5)
    by (simp add: my_DB_def my_InsertRow_def case_prod_beta repeat_list_one returning_def apfst_def map_prod_def)
qed

lemma my_InsertRows_law:
  assumes t: "declares table pk all" "names \<noteq> []" "distinct names" "set names \<subseteq> set all" "rows \<noteq> []" "list_all (\<lambda>r. length r = length names) rows"
  shows "ex_InsertRows (my_DB (connect (my_dialect reserved) sv)) table names rows st = sv_Exec sv (AInsert (tb_name table) names rows None) st"
proof -
  note sp = my_speaks [of reserved]
  obtain c' where c: "Choose (tb_columns table) names = Inr c'" using Choose_accepts [OF declaresD(4) [OF t(1)] t(3,4)] .
  show ?thesis
    using read_insert [OF sp t(2,5,6) my_rows [OF sp], of "tb_name table" None] c t(2,5) by (simp add: my_DB_def my_InsertRows_def returning_def)
qed

lemma my_UpdateRow_law:
  assumes t: "declares table pk all" "names \<noteq> []" "distinct names" "set names \<subseteq> set all" "length vs = length names" "length key = length pk"
  shows "ex_UpdateRow (my_DB (connect (my_dialect reserved) sv)) table key names vs st =
      sv_Exec sv (AUpdate (tb_name table) (zip names vs) (Some (key_cond (zip pk key)))) st"
proof -
  note sp = my_speaks [of reserved]
  note d = declaresD [OF t(1)]
  obtain c' where c: "Choose (tb_columns table) names = Inr c'" using Choose_accepts [OF d(4) t(3,4)] .
  show ?thesis
    using read_update_key [OF sp t(2,5) d(1,2) t(6), of "tb_name table"] c t(2,5) d(5) [OF t(6)]
    by (simp add: my_DB_def my_UpdateRow_def my_nth)
qed

lemma my_UpdateRows_law:
  assumes t: "declares table pk all" "names \<noteq> []" "distinct names" "set names \<subseteq> set all" "length vs = length names" "where_ok (my_dialect reserved) w"
  shows "ex_UpdateRows (my_DB (connect (my_dialect reserved) sv)) table names vs w st =
      sv_Exec sv (AUpdate (tb_name table) (zip names vs) (map_option flat w)) st"
proof -
  note sp = my_speaks [of reserved]
  obtain c' where c: "Choose (tb_columns table) names = Inr c'" using Choose_accepts [OF declaresD(4) [OF t(1)] t(3,4)] .
  show ?thesis
    using read_update [OF sp t(6,2,5), of "tb_name table"] c t(2,5) by (simp add: my_DB_def my_UpdateRows_def case_prod_beta my_nth my_where_eq [of _ "length names + 1"])
qed

lemma my_DeleteRow_law:
  assumes t: "declares table pk all" "length key = length pk"
  shows "ex_DeleteRow (my_DB (connect (my_dialect reserved) sv)) table key st =
      sv_Exec sv (ADelete (tb_name table) (Some (key_cond (zip pk key)))) st"
proof -
  note sp = my_speaks [of reserved]
  note d = declaresD [OF t(1)]
  show ?thesis
    using read_delete_key [OF sp d(1,2) t(2), of "tb_name table"] d(5) [OF t(2)] by (simp add: my_DB_def my_DeleteRow_def)
qed

lemma my_DeleteRows_law:
  assumes t: "where_ok (my_dialect reserved) w"
  shows "ex_DeleteRows (my_DB (connect (my_dialect reserved) sv)) table w st = sv_Exec sv (ADelete (tb_name table) (map_option flat w)) st"
  using read_delete [OF my_speaks t, of "tb_name table"] by (simp add: my_DB_def my_DeleteRows_def case_prod_beta my_where_eq [of _ 1])

lemma my_executor:
  "sql_executor (my_DB (connect (my_dialect reserved) sv)) sv (my_dialect reserved)"
  by unfold_locales (rule my_SelectRow_law my_SelectRows_law my_InsertRow_law my_InsertRows_law my_UpdateRow_law my_UpdateRows_law my_DeleteRow_law my_DeleteRows_law; assumption)+

end
