(* ===== verification/Sql_Models.thy ===== *)
theory Sql_Models
  imports Sql_Drivers Coll
begin

text \<open>
  Models backed by a table (\<open>gw/sqldbs/dbmodel*.go\<close>). A model type has its table and its bindings, which pair a column with
  the field that holds its value; an instance is the values of its fields, by number. What a row gives its destinations is a parameter
  (\<open>sc_Scan\<close>), as is what \<open>Next\<close> yields of a set of rows with the error \<open>Err\<close> reports in the end (\<open>sc_Rows\<close>).
\<close>

section \<open>Models\<close>

text \<open>A field's address, or a value that is not a pointer to a field, with what the drivers bind for it.\<close>

datatype 'v FieldPtr = Ptr nat | NotPtr 'v

type_synonym 'v ColumnFieldBinding = "string \<times> 'v FieldPtr"

type_synonym 'v fields = "nat \<Rightarrow> 'v"

record 'v DBModel =
  md_Table :: Table
  md_ColumnFieldBindings :: "'v ColumnFieldBinding list"
  md_zero :: "'v fields"

record ('v, 'row, 'rows) scanner =
  sc_Scan :: "'row \<Rightarrow> 'v FieldPtr list \<Rightarrow> 'v fields \<Rightarrow> sql_error option \<times> 'v fields"
  sc_Rows :: "'rows \<Rightarrow> 'row list \<times> sql_error option"

text \<open>The drivers dereference the pointers they are given.\<close>

fun deref :: "'v fields \<Rightarrow> 'v FieldPtr \<Rightarrow> 'v" where
  "deref m (Ptr i) = m i"
| "deref m (NotPtr v) = v"

section \<open>\<open>dbmodelcrud.go\<close>\<close>

fun index_bindings ::
    "string \<Rightarrow> 'v ColumnFieldBinding list \<Rightarrow> (string \<rightharpoonup> 'v ColumnFieldBinding) \<Rightarrow> (sql_error, string \<rightharpoonup> 'v ColumnFieldBinding) result" where
  "index_bindings table [] byCol = Inr byCol"
| "index_bindings table (b # bs) byCol =
     (if byCol (fst b) \<noteq> None then Inl (BoundTwice table (fst b)) else index_bindings table bs (byCol(fst b \<mapsto> b)))"

fun take_key ::
    "string \<Rightarrow> string list \<Rightarrow> (string \<rightharpoonup> 'v ColumnFieldBinding) \<Rightarrow> 'v ColumnFieldBinding list \<Rightarrow>
     (sql_error, 'v ColumnFieldBinding list \<times> (string \<rightharpoonup> 'v ColumnFieldBinding)) result" where
  "take_key table [] byCol key = Inr (key, byCol)"
| "take_key table (name # names) byCol key = (case byCol name of
     None \<Rightarrow> Inl (KeyNotBound table name)
   | Some b \<Rightarrow> take_key table names (byCol(name := None)) (key @ [b]))"

definition splitBindingsByKey ::
    "Table \<Rightarrow> 'v ColumnFieldBinding list \<Rightarrow> (sql_error, 'v ColumnFieldBinding list \<times> 'v ColumnFieldBinding list) result" where
  "splitBindingsByKey tbl bindings = (case index_bindings (tb_name tbl) bindings Map.empty of
     Inl e \<Rightarrow> Inl e
   | Inr byCol \<Rightarrow> (case take_key (tb_name tbl) (Columns_Names (tb_pkColumns tbl)) byCol [] of
       Inl e \<Rightarrow> Inl e
     | Inr (key, byCol) \<Rightarrow> Inr (key, filter (\<lambda>b. byCol (fst b) \<noteq> None) bindings)))"

definition pkValueFromBindings :: "'v fields \<Rightarrow> 'v ColumnFieldBinding list \<Rightarrow> 'v list" where
  "pkValueFromBindings m keyBs = map (\<lambda>b. deref m (snd b)) keyBs"

definition HydrateDBModel ::
    "('v, 'row, 'rows) scanner \<Rightarrow> ('v, 'row, 'rows, 'st) Executor \<Rightarrow> 'v DBModel \<Rightarrow> 'v fields \<Rightarrow> 'st \<Rightarrow> (sql_error option \<times> 'v fields) \<times> 'st" where
  "HydrateDBModel sc exec md m st = (case splitBindingsByKey (md_Table md) (md_ColumnFieldBindings md) of
     Inl e \<Rightarrow> ((Some (InCall ''HydrateDBModel'' e), m), st)
   | Inr (keyBs, nonKeyBs) \<Rightarrow>
       (let pkValue = pkValueFromBindings m keyBs;
            selBs = if nonKeyBs = [] then keyBs else nonKeyBs
        in case ex_SelectRow exec (md_Table md) pkValue (map fst selBs) st of
             (Inl e, st1) \<Rightarrow> ((Some (InCall ''HydrateDBModel'' e), m), st1)
           | (Inr row, st1) \<Rightarrow> (sc_Scan sc row (map snd selBs) m, st1)))"

definition FetchDBModel ::
    "('v, 'row, 'rows) scanner \<Rightarrow> ('v, 'row, 'rows, 'st) Executor \<Rightarrow> 'v DBModel \<Rightarrow> 'v list \<Rightarrow> 'st \<Rightarrow> (sql_error, 'v fields) result \<times> 'st" where
  "FetchDBModel sc exec md pkValue st =
     (let bindings = md_ColumnFieldBindings md
      in case ex_SelectRow exec (md_Table md) pkValue (map fst bindings) st of
           (Inl e, st1) \<Rightarrow> (Inl (InCall ''FetchDBModel'' e), st1)
         | (Inr row, st1) \<Rightarrow> (case sc_Scan sc row (map snd bindings) (md_zero md) of
               (Some e, _) \<Rightarrow> (Inl e, st1)
             | (None, m) \<Rightarrow> (Inr m, st1)))"

definition InsertDBModel :: "('v, 'row, 'rows, 'st) Executor \<Rightarrow> 'v DBModel \<Rightarrow> 'v fields \<Rightarrow> 'st \<Rightarrow> sql_error option \<times> 'st" where
  "InsertDBModel exec md m st =
     (let bindings = md_ColumnFieldBindings md;
          (r, st1) = ex_InsertRow exec (md_Table md) (map fst bindings) (map (\<lambda>b. deref m (snd b)) bindings) st
      in (map_option (InCall ''InsertDBModel'') r, st1))"

definition InsertDBModelAutoIncrementingPK ::
    "('v fields \<Rightarrow> 'id) \<Rightarrow> 'id \<Rightarrow> ('v, 'row, 'rows, 'st) Executor \<Rightarrow> 'v DBModel \<Rightarrow> 'v fields \<Rightarrow> 'st \<Rightarrow> (sql_error, int) result \<times> 'st" where
  "InsertDBModelAutoIncrementingPK GetID zeroID exec md m st =
     (if GetID m \<noteq> zeroID then (Inl (AlreadyKeyed (tb_name (md_Table md))), st)
      else case splitBindingsByKey (md_Table md) (md_ColumnFieldBindings md) of
        Inl e \<Rightarrow> (Inl (InCall ''InsertDBModelAutoIncrementingPK'' e), st)
      | Inr (_, nonKeyBs) \<Rightarrow>
          (case ex_InsertRowAutoIncrementingPK exec (md_Table md) (map fst nonKeyBs) (map (\<lambda>b. deref m (snd b)) nonKeyBs) st of
             (Inl e, st1) \<Rightarrow> (Inl (InCall ''InsertDBModelAutoIncrementingPK'' e), st1)
           | (Inr pk, st1) \<Rightarrow> (Inr pk, st1)))"

text \<open>The bindings named, each the first of its column.\<close>

fun pick_bindings :: "string \<Rightarrow> 'v ColumnFieldBinding list \<Rightarrow> string list \<Rightarrow> (sql_error, 'v ColumnFieldBinding list) result" where
  "pick_bindings table nonKeyBs [] = Inr []"
| "pick_bindings table nonKeyBs (name # names) = (case List.find (\<lambda>b. fst b = name) nonKeyBs of
     None \<Rightarrow> Inl (NotBound table name)
   | Some b \<Rightarrow> (case pick_bindings table nonKeyBs names of Inl e \<Rightarrow> Inl e | Inr bs \<Rightarrow> Inr (b # bs)))"

definition UpdateDBModel ::
    "('v, 'row, 'rows, 'st) Executor \<Rightarrow> 'v DBModel \<Rightarrow> 'v fields \<Rightarrow> string list \<Rightarrow> 'st \<Rightarrow> (sql_error, int) result \<times> 'st" where
  "UpdateDBModel exec md m updateColumns st = (case splitBindingsByKey (md_Table md) (md_ColumnFieldBindings md) of
     Inl e \<Rightarrow> (Inl (InCall ''UpdateDBModel'' e), st)
   | Inr (keyBs, nonKeyBs) \<Rightarrow>
       (case (if updateColumns = [] then Inr nonKeyBs else pick_bindings (tb_name (md_Table md)) nonKeyBs updateColumns) of
          Inl e \<Rightarrow> (Inl e, st)
        | Inr writeBs \<Rightarrow>
            if writeBs = [] then (Inl (NothingToUpdate (tb_name (md_Table md))), st)
            else (case ex_UpdateRow exec (md_Table md) (pkValueFromBindings m keyBs) (map fst writeBs) (map (\<lambda>b. deref m (snd b)) writeBs) st of
                    (Inl e, st1) \<Rightarrow> (Inl (InCall ''UpdateDBModel'' e), st1)
                  | (Inr n, st1) \<Rightarrow> (Inr n, st1))))"

definition DeleteDBModel :: "('v, 'row, 'rows, 'st) Executor \<Rightarrow> 'v DBModel \<Rightarrow> 'v fields \<Rightarrow> 'st \<Rightarrow> (sql_error, int) result \<times> 'st" where
  "DeleteDBModel exec md m st = (case splitBindingsByKey (md_Table md) (md_ColumnFieldBindings md) of
     Inl e \<Rightarrow> (Inl (InCall ''DeleteDBModel'' e), st)
   | Inr (keyBs, _) \<Rightarrow> (case ex_DeleteRow exec (md_Table md) (pkValueFromBindings m keyBs) st of
       (Inl e, st1) \<Rightarrow> (Inl (InCall ''DeleteDBModel'' e), st1)
     | (Inr n, st1) \<Rightarrow> (Inr n, st1)))"

section \<open>\<open>dbmodelvalidate.go\<close>\<close>

definition not_pointer :: "'v FieldPtr \<Rightarrow> bool" where
  "not_pointer p = (case p of Ptr _ \<Rightarrow> False | NotPtr _ \<Rightarrow> True)"

text \<open>The problems of the bindings from the \<open>i\<close>th on, and the columns seen in the end.\<close>

fun bindings_walk :: "Table \<Rightarrow> nat \<Rightarrow> 'v ColumnFieldBinding list \<Rightarrow> string set \<Rightarrow> binding_problem list \<times> string set" where
  "bindings_walk tbl i [] seen = ([], seen)"
| "bindings_walk tbl i ((column, ptr) # bs) seen =
     (if column = [] then apfst (Cons (EmptyColumnName i)) (bindings_walk tbl (Suc i) bs seen)
      else apfst ((@) ((if column \<in> seen then [ColumnBoundTwice column] else []) @
             (if Columns_Find (tb_columns tbl) column = None then [NotDeclared column] else []) @
             (if not_pointer ptr then [NotAPointer column] else [])))
           (bindings_walk tbl (Suc i) bs (insert column seen)))"

definition ValidateDBModelBindings :: "'v DBModel \<Rightarrow> sql_error option" where
  "ValidateDBModelBindings md =
     (let tbl = md_Table md; bindings = md_ColumnFieldBindings md;
          (walked, seen) = bindings_walk tbl 0 bindings {};
          problems = (if bindings = [] then [NoBindings] else []) @ walked @
            map KeyUnbound (filter (\<lambda>name. name \<notin> seen) (Columns_Names (tb_pkColumns tbl)))
      in if problems \<noteq> [] then Some (BadBindings (tb_name tbl) problems) else None)"

text \<open>\<open>errors.Join\<close> of several errors is the list of those there are; a database is the schema it has cached.\<close>

definition VerifyAgainstDB :: "Table \<Rightarrow> Schema option \<Rightarrow> sql_error list" where
  "VerifyAgainstDB m cached = VerifyTablesAgainstSchema [m] cached"

definition VetDBModelAgainstDB :: "'v DBModel \<Rightarrow> Schema option \<Rightarrow> sql_error list" where
  "VetDBModelAgainstDB md cached = VerifyAgainstDB (md_Table md) cached @
     (case ValidateDBModelBindings md of None \<Rightarrow> [] | Some e \<Rightarrow> [e])"

definition VetDBModelInsert :: "'v DBModel \<Rightarrow> Schema option \<Rightarrow> sql_error list" where
  "VetDBModelInsert md cached =
     (if VetDBModelAgainstDB md cached \<noteq> [] then VetDBModelAgainstDB md cached
      else case Option.bind cached (\<lambda>s. Schema_Table s (tb_name (md_Table md))) of
        None \<Rightarrow> [TableNotCached (tb_name (md_Table md))]
      | Some tblSchema \<Rightarrow>
          (let bound = set (Columns_Names (tb_columns (md_Table md)));
               problems = filter (\<lambda>col. \<not> (cs_name col \<in> bound \<or> cs_nullable col \<or> cs_hasDefault col)) (ts_columns tblSchema)
           in if problems \<noteq> [] then [UnboundRequired (tb_name (md_Table md)) (map cs_name problems)] else []))"

section \<open>\<open>dbmodelgroup.go\<close>\<close>

text \<open>A member's validator is known by the model type whose bindings it judges. A registration that panics gives the error it panics with.\<close>

record 'v dbModelGroupMember =
  gm_table :: "Table option"
  gm_validate :: "'v DBModel option"

type_synonym 'v DBModelGroup = "'v dbModelGroupMember list"

definition RegisterTableOrPanic ::
    "'v DBModelGroup \<Rightarrow> string \<Rightarrow> string list \<Rightarrow> bool \<Rightarrow> string list \<Rightarrow> (sql_error, Table \<times> 'v DBModelGroup) result" where
  "RegisterTableOrPanic g name pkColumns pkAutoIncrement nonPKColumns = (case NewTable name pkColumns pkAutoIncrement nonPKColumns of
     Inl e \<Rightarrow> Inl e | Inr tbl \<Rightarrow> Inr (tbl, g @ [\<lparr>gm_table = Some tbl, gm_validate = None\<rparr>]))"

text \<open>The bound columns less the key, and the key columns not met.\<close>

fun derive_columns :: "'v ColumnFieldBinding list \<Rightarrow> string set \<Rightarrow> string list \<times> string set" where
  "derive_columns [] pkLeft = ([], pkLeft)"
| "derive_columns (b # bs) pkLeft =
     (if fst b \<in> pkLeft then derive_columns bs (pkLeft - {fst b}) else apfst (Cons (fst b)) (derive_columns bs pkLeft))"

definition RegisterDBModelOrPanic ::
    "'v DBModel \<Rightarrow> 'v DBModelGroup \<Rightarrow> string \<Rightarrow> string list \<Rightarrow> bool \<Rightarrow> (sql_error, Table \<times> 'v DBModelGroup) result" where
  "RegisterDBModelOrPanic md g name pkColumns pkAutoIncrement =
     (let (nonPKColumns, pkLeft) = derive_columns (md_ColumnFieldBindings md) (set pkColumns)
      in if pkLeft \<noteq> {} then Inl (KeysNotBound name (filter (\<lambda>pk. pk \<in> pkLeft) pkColumns))
         else case NewTable name pkColumns pkAutoIncrement nonPKColumns of
           Inl e \<Rightarrow> Inl e
         | Inr tbl \<Rightarrow> Inr (tbl, g @ [\<lparr>gm_table = Some tbl, gm_validate = Some md\<rparr>]))"

definition grp_Tables :: "'v DBModelGroup \<Rightarrow> Table list" where
  "grp_Tables g = List.map_filter gm_table g"

definition grp_VerifyTablesAgainstSchema :: "'v DBModelGroup \<Rightarrow> Schema option \<Rightarrow> sql_error list" where
  "grp_VerifyTablesAgainstSchema g schema = VerifyTablesAgainstSchema (grp_Tables g) schema"

definition grp_ValidateBindings :: "'v DBModelGroup \<Rightarrow> sql_error list" where
  "grp_ValidateBindings g = List.map_filter (\<lambda>m. Option.bind (gm_validate m) ValidateDBModelBindings) g"

definition VetAgainstDB :: "'v DBModelGroup \<Rightarrow> Schema option \<Rightarrow> sql_error list" where
  "VetAgainstDB g cached = grp_VerifyTablesAgainstSchema g cached @ grp_ValidateBindings g"

definition VetDBModelGroupsAgainstDBs :: "('v DBModelGroup \<times> Schema option) list \<Rightarrow> sql_error list" where
  "VetDBModelGroupsAgainstDBs pairs = concat (map (\<lambda>(g, db). VetAgainstDB g db) pairs)"

section \<open>\<open>dbmodelscan.go\<close>\<close>

definition scanDests :: "'v ColumnFieldBinding list \<Rightarrow> 'v FieldPtr list" where
  "scanDests bindings = map snd bindings"

definition ScanRowToDBModel :: "('v, 'row, 'rows) scanner \<Rightarrow> 'v DBModel \<Rightarrow> 'row \<Rightarrow> (sql_error, 'v fields) result" where
  "ScanRowToDBModel sc md row = (case sc_Scan sc row (scanDests (md_ColumnFieldBindings md)) (md_zero md) of
     (Some e, _) \<Rightarrow> Inl e | (None, m) \<Rightarrow> Inr m)"

text \<open>The loop all three readers of several rows share: a row that does not scan ends it, as does the error in the end.\<close>

fun scan_walk :: "('v, 'row, 'rows) scanner \<Rightarrow> 'v DBModel \<Rightarrow> string \<Rightarrow> ('v fields \<Rightarrow> 's \<Rightarrow> 's) \<Rightarrow> 'row list \<Rightarrow> sql_error option \<Rightarrow> 's \<Rightarrow> (sql_error, 's) result" where
  "scan_walk sc md name add [] err s = (case err of Some e \<Rightarrow> Inl (InCall name e) | None \<Rightarrow> Inr s)"
| "scan_walk sc md name add (row # rows) err s = (case sc_Scan sc row (scanDests (md_ColumnFieldBindings md)) (md_zero md) of
     (Some e, _) \<Rightarrow> Inl (InCall name e)
   | (None, m) \<Rightarrow> scan_walk sc md name add rows err (add m s))"

definition ScanRowsToDBModels :: "('v, 'row, 'rows) scanner \<Rightarrow> 'v DBModel \<Rightarrow> 'rows \<Rightarrow> (sql_error, 'v fields list) result" where
  "ScanRowsToDBModels sc md rows = (let (rs, err) = sc_Rows sc rows in scan_walk sc md ''ScanRowsToDBModels'' (\<lambda>m ms. ms @ [m]) rs err [])"

definition ScanRowsToDBModelMap :: "('v fields \<Rightarrow> 'id) \<Rightarrow> ('v, 'row, 'rows) scanner \<Rightarrow> 'v DBModel \<Rightarrow> 'rows \<Rightarrow> (sql_error, 'id \<rightharpoonup> 'v fields) result" where
  "ScanRowsToDBModelMap GetID sc md rows =
     (let (rs, err) = sc_Rows sc rows in scan_walk sc md ''ScanRowsToDBModelMap'' (\<lambda>m ms. ms(GetID m \<mapsto> m)) rs err Map.empty)"

definition ScanRowsToDBModelCollection ::
    "('v fields \<Rightarrow> 'id) \<Rightarrow> ('v, 'row, 'rows) scanner \<Rightarrow> 'v DBModel \<Rightarrow> 'rows \<Rightarrow> (sql_error, ('v fields, 'id) Collection) result" where
  "ScanRowsToDBModelCollection GetID sc md rows =
     (let (rs, err) = sc_Rows sc rows in scan_walk sc md ''ScanRowsToDBModelCollection'' (Add GetID) rs err NewEmptyOrderedCollection)"

section \<open>\<open>dbmodelquery.go\<close>, \<open>dbmodelqueryraw.go\<close>\<close>

definition RawQueryDBModel ::
    "('v, 'row, 'rows) scanner \<Rightarrow> ('v, 'row, 'rows, 'st) conn \<Rightarrow> 'v DBModel \<Rightarrow> string \<Rightarrow> 'v list \<Rightarrow> 'st \<Rightarrow> (sql_error, 'v fields) result \<times> 'st" where
  "RawQueryDBModel sc db md rawSQLStmt args st =
     (let (row, st1) = cn_QueryRow db rawSQLStmt args st in (ScanRowToDBModel sc md row, st1))"

definition RawQueryDBModels ::
    "('v, 'row, 'rows) scanner \<Rightarrow> ('v, 'row, 'rows, 'st) conn \<Rightarrow> 'v DBModel \<Rightarrow> string \<Rightarrow> 'v list \<Rightarrow> 'st \<Rightarrow> (sql_error, 'v fields list) result \<times> 'st" where
  "RawQueryDBModels sc db md rawSQLStmt args st = (case cn_Query db rawSQLStmt args st of
     (Inl e, st1) \<Rightarrow> (Inl e, st1) | (Inr rows, st1) \<Rightarrow> (ScanRowsToDBModels sc md rows, st1))"

definition RawQueryDBModelMap ::
    "('v fields \<Rightarrow> 'id) \<Rightarrow> ('v, 'row, 'rows) scanner \<Rightarrow> ('v, 'row, 'rows, 'st) conn \<Rightarrow> 'v DBModel \<Rightarrow> string \<Rightarrow> 'v list \<Rightarrow> 'st \<Rightarrow>
     (sql_error, 'id \<rightharpoonup> 'v fields) result \<times> 'st" where
  "RawQueryDBModelMap GetID sc db md rawSQLStmt args st = (case cn_Query db rawSQLStmt args st of
     (Inl e, st1) \<Rightarrow> (Inl e, st1) | (Inr rows, st1) \<Rightarrow> (ScanRowsToDBModelMap GetID sc md rows, st1))"

definition RawQueryDBModelCollection ::
    "('v fields \<Rightarrow> 'id) \<Rightarrow> ('v, 'row, 'rows) scanner \<Rightarrow> ('v, 'row, 'rows, 'st) conn \<Rightarrow> 'v DBModel \<Rightarrow> string \<Rightarrow> 'v list \<Rightarrow> 'st \<Rightarrow>
     (sql_error, ('v fields, 'id) Collection) result \<times> 'st" where
  "RawQueryDBModelCollection GetID sc db md rawSQLStmt args st = (case cn_Query db rawSQLStmt args st of
     (Inl e, st1) \<Rightarrow> (Inl e, st1) | (Inr rows, st1) \<Rightarrow> (ScanRowsToDBModelCollection GetID sc md rows, st1))"

definition SelectBaseOf :: "SqlClient \<Rightarrow> 'v DBModel \<Rightarrow> (sql_error, string) result" where
  "SelectBaseOf c md = (case Choose (tb_columns (md_Table md)) (map fst (md_ColumnFieldBindings md)) of
     Inl e \<Rightarrow> Inl e
   | Inr cols \<Rightarrow> Inr (''SELECT '' @ QuoteJoinIdentifiers c (Columns_Names cols) @ '' FROM '' @ QuoteIdentifier c (tb_name (md_Table md))))"

definition QueryDBModelFirst ::
    "('v, 'row, 'rows) scanner \<Rightarrow> SqlClient \<Rightarrow> ('v, 'row, 'rows, 'st) conn \<Rightarrow> 'v DBModel \<Rightarrow> 'v QueryOpts \<Rightarrow> 'st \<Rightarrow> (sql_error, 'v fields) result \<times> 'st" where
  "QueryDBModelFirst sc client db md queryOpts st =
     (if qo_Limit queryOpts > 1 then (Inl LimitAboveOne, st)
      else case SelectBaseOf client md of
        Inl e \<Rightarrow> (Inl (InCall ''QueryDBModelFirst'' e), st)
      | Inr sqlSelectBase \<Rightarrow>
          (let (whereSQL, args) = WhereClause_Build (qo_WhereCond queryOpts) client 1;
               sqlStmt = sqlSelectBase @ whereSQL @ OrderByClause (qo_OrderBys queryOpts) @ LimitClause 1
           in RawQueryDBModel sc db md sqlStmt args st))"

definition QueryDBModelCollection ::
    "('v fields \<Rightarrow> 'id) \<Rightarrow> ('v, 'row, 'rows) scanner \<Rightarrow> SqlClient \<Rightarrow> ('v, 'row, 'rows, 'st) conn \<Rightarrow> 'v DBModel \<Rightarrow> 'v QueryOpts \<Rightarrow> 'st \<Rightarrow>
     (sql_error, ('v fields, 'id) Collection) result \<times> 'st" where
  "QueryDBModelCollection GetID sc client db md queryOpts st = (case SelectBaseOf client md of
     Inl e \<Rightarrow> (Inl (InCall ''QueryDBModelCollection'' e), st)
   | Inr sqlSelectBase \<Rightarrow>
       (let (whereSQL, args) = WhereClause_Build (qo_WhereCond queryOpts) client 1;
            sqlStmt = sqlSelectBase @ whereSQL @ OrderByClause (qo_OrderBys queryOpts) @ LimitClause (qo_Limit queryOpts)
        in RawQueryDBModelCollection GetID sc db md sqlStmt args st))"

definition QueryDBModelCollectionByColumn ::
    "('v fields \<Rightarrow> 'id) \<Rightarrow> ('v, 'row, 'rows) scanner \<Rightarrow> SqlClient \<Rightarrow> ('v, 'row, 'rows, 'st) conn \<Rightarrow> 'v DBModel \<Rightarrow> Column \<Rightarrow> 'v list \<Rightarrow> OrderBy list \<Rightarrow> 'st \<Rightarrow>
     (sql_error, ('v fields, 'id) Collection) result \<times> 'st" where
  "QueryDBModelCollectionByColumn GetID sc client db md column values orderBys st =
     (if values = [] then (Inl NoValues, st)
      else case SelectBaseOf client md of
        Inl e \<Rightarrow> (Inl (InCall ''QueryDBModelCollectionByColumn'' e), st)
      | Inr sqlSelectBase \<Rightarrow>
          (let whereClause =
                 if length values = 1 then '' WHERE '' @ Column_Name column @ '' = '' @ FirstPlaceholder client
                 else '' WHERE '' @ Column_Name column @ '' IN ('' @ InPlaceholders client 1 (length values) @ '')'';
               sqlStmt = sqlSelectBase @ whereClause @ OrderByClause orderBys
           in case SelectRowsRaw db sqlStmt values st of
                (Inl e, st1) \<Rightarrow> (Inl e, st1)
              | (Inr rows, st1) \<Rightarrow> (ScanRowsToDBModelCollection GetID sc md rows, st1)))"

section \<open>\<open>dbmodelcrudcollection.go\<close>, \<open>rowsinglepk.go\<close>\<close>

text \<open>\<open>walk\<close> is the order a range over the map of an unordered collection takes.\<close>

definition InsertDBModelCollection ::
    "('v, 'row, 'rows, 'st) Executor \<Rightarrow> 'v DBModel \<Rightarrow> 'id list \<Rightarrow> ('v fields, 'id) Collection \<Rightarrow> 'st \<Rightarrow> (sql_error, int) result \<times> 'st" where
  "InsertDBModelCollection exec md walk modelCollection st =
     (if Len modelCollection = 0 then (Inr 0, st)
      else
        (let bindings = md_ColumnFieldBindings md;
             rowValues = ForEach (\<lambda>m rows. rows @ [map (\<lambda>b. deref m (snd b)) bindings]) walk modelCollection []
         in case ex_InsertRows exec (md_Table md) (map fst bindings) rowValues st of
              (Inl e, st1) \<Rightarrow> (Inl (InCall ''InsertDBModelCollection'' e), st1)
            | (Inr n, st1) \<Rightarrow> (Inr n, st1)))"

definition UpdateDBModelCollection ::
    "('v, 'row, 'rows, 'st) Executor \<Rightarrow> 'v DBModel \<Rightarrow> 'id list \<Rightarrow> ('v fields, 'id) Collection \<Rightarrow> string list \<Rightarrow> 'st \<Rightarrow> (int \<times> sql_error option) \<times> 'st" where
  "UpdateDBModelCollection exec md walk modelCollection updateColumns st =
     ForEach (\<lambda>m ((total, firstErr), st). if firstErr \<noteq> None then ((total, firstErr), st)
         else case UpdateDBModel exec md m updateColumns st of
           (Inl e, st1) \<Rightarrow> ((total, Some (InCall ''UpdateDBModelCollection'' e)), st1)
         | (Inr n, st1) \<Rightarrow> ((total + n, None), st1))
       walk modelCollection ((0, None), st)"

definition DeleteDBModelCollection ::
    "('id \<Rightarrow> 'v) \<Rightarrow> ('v, 'row, 'rows, 'st) Executor \<Rightarrow> 'v DBModel \<Rightarrow> 'id list \<Rightarrow> ('v fields, 'id) Collection \<Rightarrow> 'st \<Rightarrow> (sql_error, int) result \<times> 'st" where
  "DeleteDBModelCollection any exec md walk modelCollection st =
     (if Len modelCollection = 0 then (Inr 0, st)
      else case SinglePKColumn (md_Table md) of
        Inl e \<Rightarrow> (Inl (InCall ''DeleteDBModelCollection'' e), st)
      | Inr pkCol \<Rightarrow> (case ex_DeleteRows exec (md_Table md) (Some (InPred pkCol (IDsAsAny any walk modelCollection))) st of
            (Inl e, st1) \<Rightarrow> (Inl (InCall ''DeleteDBModelCollection'' e), st1)
          | (Inr n, st1) \<Rightarrow> (Inr n, st1)))"

definition SelectRowSinglePK ::
    "('v, 'row, 'rows, 'st) Executor \<Rightarrow> Table \<Rightarrow> 'v \<Rightarrow> string list \<Rightarrow> 'st \<Rightarrow> (sql_error, 'row) result \<times> 'st" where
  "SelectRowSinglePK exec table key colNames st = ex_SelectRow exec table [key] colNames st"

definition UpdateRowSinglePK ::
    "('v, 'row, 'rows, 'st) Executor \<Rightarrow> Table \<Rightarrow> 'v \<Rightarrow> string list \<Rightarrow> 'v list \<Rightarrow> 'st \<Rightarrow> (sql_error, int) result \<times> 'st" where
  "UpdateRowSinglePK exec table key columns values st = ex_UpdateRow exec table [key] columns values st"

definition DeleteRowSinglePK :: "('v, 'row, 'rows, 'st) Executor \<Rightarrow> Table \<Rightarrow> 'v \<Rightarrow> 'st \<Rightarrow> (sql_error, int) result \<times> 'st" where
  "DeleteRowSinglePK exec table key st = ex_DeleteRow exec table [key] st"

end
