(* ===== verification/Sql_Exec_Correct.thy ===== *)
theory Sql_Exec_Correct
  imports Sql_Drivers
begin

text \<open>
  What the two drivers do to the rows. Both fulfil \<open>sql_executor\<close>, so over the same server they answer alike; over a server
  that keeps its tables as lists of rows and evaluates conditions in three-valued logic, an update or a deletion reaches
  exactly the rows its condition is true of.
\<close>

interpretation pgx: sql_executor "pg_DB (connect (pg_dialect R) sv)" sv "pg_dialect R" for R sv
  by (rule pg_executor)

interpretation myx: sql_executor "my_DB (connect (my_dialect R) sv)" sv "my_dialect R" for R sv
  by (rule my_executor)

interpretation pgt: sql_executor "pg_Tx (connect (pg_dialect R) sv)" sv "pg_dialect R" for R sv
  unfolding pg_Tx_def by (rule pg_executor)

interpretation myt: sql_executor "my_Tx (connect (my_dialect R) sv)" sv "my_dialect R" for R sv
  unfolding my_Tx_def by (rule my_executor)

section \<open>The drivers agree\<close>

lemma NewTable_declares:
  assumes "NewTable name pk auto rest = Inr table"
  shows "declares table pk (pk @ rest)" "tb_name table = name"
proof -
  have "pk \<noteq> []" using assms by (auto simp: NewTable_def split: option.splits if_splits)
  then show "declares table pk (pk @ rest)" "tb_name table = name" using NewTable_ok [OF assms] by (simp_all add: declares_def)
qed

lemmas exec_defs = pg_DB_def my_DB_def pg_SelectRow_def my_SelectRow_def pg_SelectRows_def my_SelectRows_def pg_InsertRow_def my_InsertRow_def
  pg_InsertRows_def my_InsertRows_def pg_UpdateRow_def my_UpdateRow_def pg_UpdateRows_def my_UpdateRows_def pg_DeleteRow_def my_DeleteRow_def

text \<open>A list of names the table refuses is refused before the server is asked; one it accepts is one the laws are about.\<close>

lemma names_accepted:
  assumes "declares table pk all" "\<not> (\<exists>e. Choose (tb_columns table) names = Inl e)"
  shows "distinct names" "set names \<subseteq> set all"
  using Choose_ok(2,3) [OF declaresD(4) [OF assms(1)]] assms(2) by (cases "Choose (tb_columns table) names"; blast)+

lemma key_accepted:
  assumes "declares table pk all" "\<not> (\<exists>e. ValidatePK table key = Some e)"
  shows "length key = length pk"
  using assms(2) declaresD(1) [OF assms(1)] by (auto simp: ValidatePK_def Columns_Len_def Columns_Names_def split: if_splits)

lemma SelectRow_agrees:
  assumes "declares table pk all"
  shows "ex_SelectRow (pg_DB (connect (pg_dialect R) sv)) table key names st = ex_SelectRow (my_DB (connect (my_dialect R') sv)) table key names st"
proof (cases "(\<exists>e. Choose (tb_columns table) names = Inl e) \<or> (\<exists>e. ValidatePK table key = Some e)")
  case True
  then show ?thesis by (auto simp: exec_defs split: sum.split)
next
  case False
  then have a: "\<not> (\<exists>e. Choose (tb_columns table) names = Inl e)" "\<not> (\<exists>e. ValidatePK table key = Some e)" by blast+
  note h = assms names_accepted [OF assms a(1)] key_accepted [OF assms a(2)]
  show ?thesis by (simp only: pgx.SelectRow_law [OF h] myx.SelectRow_law [OF h])
qed

lemma SelectRows_agrees:
  assumes "declares table pk all" "where_ok (pg_dialect R) w" "where_ok (my_dialect R') w"
  shows "ex_SelectRows (pg_DB (connect (pg_dialect R) sv)) table w names st = ex_SelectRows (my_DB (connect (my_dialect R') sv)) table w names st"
proof (cases "\<exists>e. Choose (tb_columns table) names = Inl e")
  case True
  then show ?thesis by (auto simp: exec_defs)
next
  case False
  note h = assms(1) names_accepted [OF assms(1) False]
  show ?thesis by (simp only: pgx.SelectRows_law [OF h assms(2)] myx.SelectRows_law [OF h assms(3)])
qed

lemma InsertRow_agrees:
  assumes "declares table pk all"
  shows "ex_InsertRow (pg_DB (connect (pg_dialect R) sv)) table names vs st = ex_InsertRow (my_DB (connect (my_dialect R') sv)) table names vs st"
proof (cases "names = [] \<or> length names \<noteq> length vs \<or> (\<exists>e. Choose (tb_columns table) names = Inl e)")
  case True
  then show ?thesis by (auto simp: exec_defs)
next
  case False
  then have a: "names \<noteq> []" "length vs = length names" "\<not> (\<exists>e. Choose (tb_columns table) names = Inl e)" by simp_all
  note h = assms a(1) names_accepted [OF assms a(3)] a(2)
  show ?thesis by (simp only: pgx.InsertRow_law [OF h] myx.InsertRow_law [OF h])
qed

lemma InsertRows_agrees:
  assumes "declares table pk all" "list_all (\<lambda>r. length r = length names) rows"
  shows "ex_InsertRows (pg_DB (connect (pg_dialect R) sv)) table names rows st = ex_InsertRows (my_DB (connect (my_dialect R') sv)) table names rows st"
proof (cases "names = [] \<or> rows = [] \<or> (\<exists>e. Choose (tb_columns table) names = Inl e)")
  case True
  then show ?thesis by (auto simp: exec_defs split: sum.split)
next
  case False
  then have a: "names \<noteq> []" "rows \<noteq> []" "\<not> (\<exists>e. Choose (tb_columns table) names = Inl e)" by simp_all
  note h = assms(1) a(1) names_accepted [OF assms(1) a(3)] a(2) assms(2)
  show ?thesis by (simp only: pgx.InsertRows_law [OF h] myx.InsertRows_law [OF h])
qed

lemma UpdateRow_agrees:
  assumes "declares table pk all"
  shows "ex_UpdateRow (pg_DB (connect (pg_dialect R) sv)) table key names vs st = ex_UpdateRow (my_DB (connect (my_dialect R') sv)) table key names vs st"
proof (cases "names = [] \<or> length names \<noteq> length vs \<or> (\<exists>e. Choose (tb_columns table) names = Inl e) \<or> (\<exists>e. ValidatePK table key = Some e)")
  case True
  then show ?thesis by (auto simp: exec_defs split: sum.split)
next
  case False
  then have a: "names \<noteq> []" "length vs = length names" "\<not> (\<exists>e. Choose (tb_columns table) names = Inl e)"
    "\<not> (\<exists>e. ValidatePK table key = Some e)" by simp_all
  note h = assms a(1) names_accepted [OF assms a(3)] a(2) key_accepted [OF assms a(4)]
  show ?thesis by (simp only: pgx.UpdateRow_law [OF h] myx.UpdateRow_law [OF h])
qed

lemma UpdateRows_agrees:
  assumes "declares table pk all" "where_ok (pg_dialect R) w" "where_ok (my_dialect R') w"
  shows "ex_UpdateRows (pg_DB (connect (pg_dialect R) sv)) table names vs w st = ex_UpdateRows (my_DB (connect (my_dialect R') sv)) table names vs w st"
proof (cases "names = [] \<or> length names \<noteq> length vs \<or> (\<exists>e. Choose (tb_columns table) names = Inl e)")
  case True
  then show ?thesis by (auto simp: exec_defs)
next
  case False
  then have a: "names \<noteq> []" "length vs = length names" "\<not> (\<exists>e. Choose (tb_columns table) names = Inl e)" by simp_all
  note h = assms(1) a(1) names_accepted [OF assms(1) a(3)] a(2)
  show ?thesis by (simp only: pgx.UpdateRows_law [OF h assms(2)] myx.UpdateRows_law [OF h assms(3)])
qed

lemma DeleteRow_agrees:
  assumes "declares table pk all"
  shows "ex_DeleteRow (pg_DB (connect (pg_dialect R) sv)) table key st = ex_DeleteRow (my_DB (connect (my_dialect R') sv)) table key st"
proof (cases "\<exists>e. ValidatePK table key = Some e")
  case True
  then show ?thesis by (auto simp: exec_defs)
next
  case False
  note h = assms key_accepted [OF assms False]
  show ?thesis by (simp only: pgx.DeleteRow_law [OF h] myx.DeleteRow_law [OF h])
qed

section \<open>A server that keeps lists of rows\<close>

text \<open>Three-valued logic, over the server's comparison of values (\<open>None\<close>: unknown) and its test for null.\<close>

type_synonym 'v cmp = "string \<Rightarrow> 'v \<Rightarrow> 'v \<Rightarrow> bool option"

definition and3 :: "bool option list \<Rightarrow> bool option" where
  "and3 bs = (if Some False \<in> set bs then Some False else if None \<in> set bs then None else Some True)"

definition or3 :: "bool option list \<Rightarrow> bool option" where
  "or3 bs = (if Some True \<in> set bs then Some True else if None \<in> set bs then None else Some False)"

fun truth :: "'v cmp \<Rightarrow> ('v \<Rightarrow> bool) \<Rightarrow> (string \<Rightarrow> 'v) \<Rightarrow> 'v Cond \<Rightarrow> bool option" where
  "truth cmp isnull r (BinPred c opr v) = cmp (bop opr) (r (Column_Name c)) v"
| "truth cmp isnull r (InPred c vs) = or3 (map (cmp ''='' (r (Column_Name c))) vs)"
| "truth cmp isnull r (NotInPred c vs) = map_option Not (or3 (map (cmp ''='' (r (Column_Name c))) vs))"
| "truth cmp isnull r (NullPred c) = Some (isnull (r (Column_Name c)))"
| "truth cmp isnull r (NotNullPred c) = Some (\<not> isnull (r (Column_Name c)))"
| "truth cmp isnull r (CNot c) = map_option Not (truth cmp isnull r c)"
| "truth cmp isnull r (CAnd cs) = and3 (map (truth cmp isnull r) cs)"
| "truth cmp isnull r (COr cs) = or3 (map (truth cmp isnull r) cs)"

definition meets :: "'v cmp \<Rightarrow> ('v \<Rightarrow> bool) \<Rightarrow> 'v Cond option \<Rightarrow> (string \<Rightarrow> 'v) \<Rightarrow> bool" where
  "meets cmp isnull w r \<longleftrightarrow> (case w of None \<Rightarrow> True | Some c \<Rightarrow> truth cmp isnull r c = Some True)"

definition assign :: "(string \<times> 'v) list \<Rightarrow> (string \<Rightarrow> 'v) \<Rightarrow> string \<Rightarrow> 'v" where
  "assign sets r = (\<lambda>c. case map_of sets c of Some v \<Rightarrow> v | None \<Rightarrow> r c)"

text \<open>Columns an insertion leaves out take a default; nothing is refused, and no key is generated.\<close>

definition rows_exec :: "'v cmp \<Rightarrow> ('v \<Rightarrow> bool) \<Rightarrow> 'v \<Rightarrow> 'v ast \<Rightarrow> (string \<Rightarrow> (string \<Rightarrow> 'v) list) \<Rightarrow>
    (sql_error, int) result \<times> (string \<Rightarrow> (string \<Rightarrow> 'v) list)" where
  "rows_exec cmp isnull dflt a st = (case a of
     ADelete t w \<Rightarrow> (Inr (int (length (filter (meets cmp isnull w) (st t)))), st(t := filter (\<lambda>r. \<not> meets cmp isnull w r) (st t)))
   | AUpdate t sets w \<Rightarrow> (Inr (int (length (filter (meets cmp isnull w) (st t)))),
       st(t := map (\<lambda>r. if meets cmp isnull w r then assign sets r else r) (st t)))
   | AInsert t cols rows ret \<Rightarrow> (Inr (int (length rows)), st(t := st t @ map (\<lambda>vs. assign (zip cols vs) (\<lambda>_. dflt)) rows))
   | ASelect cols t w one \<Rightarrow> (Inr 0, st))"

definition rows_query :: "'v cmp \<Rightarrow> ('v \<Rightarrow> bool) \<Rightarrow> 'v ast \<Rightarrow> (string \<Rightarrow> (string \<Rightarrow> 'v) list) \<Rightarrow> 'v list list" where
  "rows_query cmp isnull a st = (case a of
     ASelect cols t w one \<Rightarrow> (\<lambda>rs. if one then take 1 rs else rs) (map (\<lambda>r. map r cols) (filter (meets cmp isnull w) (st t)))
   | _ \<Rightarrow> [])"

definition rows_server :: "'v cmp \<Rightarrow> ('v \<Rightarrow> bool) \<Rightarrow> 'v \<Rightarrow>
    ('v, (sql_error, 'v list) result, 'v list list, string \<Rightarrow> (string \<Rightarrow> 'v) list) server" where
  "rows_server cmp isnull dflt = \<lparr>
     sv_Exec = rows_exec cmp isnull dflt,
     sv_QueryRow = (\<lambda>a st. (case rows_query cmp isnull a st of [] \<Rightarrow> Inl ErrNoRows | vs # _ \<Rightarrow> Inr vs, st)),
     sv_Query = (\<lambda>a st. (Inr (rows_query cmp isnull a st), st)),
     sv_BadRow = Inl,
     sv_ScanKey = (\<lambda>_. Inl unread),
     sv_LastInsertId = (\<lambda>_ st. (Inl unread, st))\<rparr>"

lemma truth_one:
  "truth cmp isnull r (case cs of [c] \<Rightarrow> c | cs' \<Rightarrow> CAnd cs') = and3 (map (truth cmp isnull r) cs)"
  "truth cmp isnull r (case cs of [c] \<Rightarrow> c | cs' \<Rightarrow> COr cs') = or3 (map (truth cmp isnull r) cs)"
proof -
  have "and3 [b] = b" "or3 [b] = b" for b by (cases b; auto simp: and3_def or3_def)+
  then show "truth cmp isnull r (case cs of [c] \<Rightarrow> c | cs' \<Rightarrow> CAnd cs') = and3 (map (truth cmp isnull r) cs)"
    "truth cmp isnull r (case cs of [c] \<Rightarrow> c | cs' \<Rightarrow> COr cs') = or3 (map (truth cmp isnull r) cs)"
    by (auto split: list.split)
qed

lemma truth_flat: "truth cmp isnull r (flat c) = truth cmp isnull r c"
proof (induction c)
  case (CAnd cs)
  then have "map (truth cmp isnull r) (map flat cs) = map (truth cmp isnull r) cs" by simp
  then show ?case by (simp only: flat.simps truth_one truth.simps)
next
  case (COr cs)
  then have "map (truth cmp isnull r) (map flat cs) = map (truth cmp isnull r) cs" by simp
  then show ?case by (simp only: flat.simps truth_one truth.simps)
qed auto

lemma meets_flat [simp]: "meets cmp isnull (map_option flat w) = meets cmp isnull w"
  by (auto simp: meets_def truth_flat fun_eq_iff split: option.split)

lemma truth_key:
  assumes "length key = length pk"
  shows "truth cmp isnull r (key_cond (zip pk key)) = Some True \<longleftrightarrow> list_all2 (\<lambda>c v. cmp ''='' (r c) v = Some True) pk key"
proof -
  have "truth cmp isnull r (key_cond (zip pk key)) = and3 (map (\<lambda>x. cmp ''='' (r (fst x)) (snd x)) (zip pk key))"
    by (simp only: key_cond_def truth_one map_map comp_def case_prod_beta truth.simps OpEq_def BinOp.sel Column.sel)
  moreover have "and3 bs = Some True \<longleftrightarrow> (\<forall>b\<in>set bs. b = Some True)" for bs
    by (auto simp: and3_def) (metis (full_types) option.exhaust)
  ultimately show ?thesis using assms by (auto simp: list_all2_iff)
qed

section \<open>Properties\<close>


definition users :: Table where
  "users = (case NewTable ''users'' [''id''] True [''name'', ''age''] of Inr t \<Rightarrow> t)"

lemma users_made: "NewTable ''users'' [''id''] True [''name'', ''age''] = Inr users" "tb_name users = ''users''"
proof -
  have "\<not> isl (NewTable ''users'' [''id''] True [''name'', ''age''])" by code_simp
  then show "NewTable ''users'' [''id''] True [''name'', ''age''] = Inr users" by (cases "NewTable ''users'' [''id''] True [''name'', ''age'']") (simp_all add: users_def)
  then show "tb_name users = ''users''" by (rule NewTable_declares(2))
qed

definition grown :: "nat Cond" where
  "grown = CAnd [BinPred (Column ''age'') OpGtEq 18, COr [InPred (Column ''id'') [1, 2], NullPred (Column ''name'')]]"

lemma grown_ok: "where_ok (pg_dialect (\<lambda>_. False)) (Some grown)" "where_ok (my_dialect (\<lambda>_. False)) (Some grown)"
  by code_simp+

definition nat_cmp :: "nat cmp" where
  "nat_cmp opr a b = (if a = 0 \<or> b = 0 then None else if opr = ''='' then Some (a = b) else if opr = ''>='' then Some (b \<le> a) else None)"

abbreviation nat_server :: "(nat, (sql_error, nat list) result, nat list list, string \<Rightarrow> (string \<Rightarrow> nat) list) server" where
  "nat_server \<equiv> rows_server nat_cmp (\<lambda>v. v = 0) 0"

definition some_users :: "string \<Rightarrow> (string \<Rightarrow> nat) list" where
  "some_users = (\<lambda>_. [])(''users'' := map (\<lambda>vs. assign (zip [''id'', ''name'', ''age''] vs) (\<lambda>_. 0)) [[1, 7, 17], [2, 8, 20], [3, 0, 30], [4, 9, 40]])"




text \<open>C27: no row satisfies a disjunction of nothing, yet \<open>DeleteRows\<close> of either driver, given one, issues a deletion without a
  condition: every row of the table goes. (\<open>WhereClause.Build\<close> and the MySQL driver take the empty text of an empty combination for no condition.)\<close>

theorem empty_or_deletes_every_row:
  assumes "sv = rows_server cmp isnull dflt"
    and "E = pg_DB (connect (pg_dialect R) sv) \<or> E = my_DB (connect (my_dialect R) sv)"
  shows "truth cmp isnull r (COr []) = Some False \<and>
    ex_DeleteRows E table (Some (COr [])) st = (Inr (int (length (st (tb_name table)))), st(tb_name table := []))"
proof -
  have "ex_DeleteRows E table (Some (COr [])) st = ex_DeleteRows E table None st"
    using assms(2) by (auto simp: pg_DB_def my_DB_def pg_DeleteRows_def my_DeleteRows_def WhereClause_Build_def my_where_def)
  moreover have "ex_DeleteRows E table None st = sv_Exec sv (ADelete (tb_name table) None) st"
    using assms(2) pgx.DeleteRows_law [of R None] myx.DeleteRows_law [of R None] by (auto simp: where_ok_def)
  ultimately show ?thesis by (simp add: or3_def assms(1) rows_server_def rows_exec_def meets_def)
qed

theorem empty_or_deletes_every_row_witness:
  "fst (ex_DeleteRows (pg_DB (connect (pg_dialect (\<lambda>_. False)) nat_server)) users (Some (COr [])) some_users) = Inr 4"
  using empty_or_deletes_every_row [OF refl disjI1 [OF refl], where cmp = nat_cmp and isnull = "\<lambda>v. v = 0" and dflt = 0 and R = "\<lambda>_. False"
    and table = users and st = some_users]
  by (simp add: users_made(2) some_users_def)

text \<open>The number of values of a row is not looked at by MySQL's driver: rows whose values add up to the placeholders are inserted, cut anew.\<close>

lemma unequal_rows_shift:
  assumes t: "declares table pk all" "names \<noteq> []" "distinct names" "set names \<subseteq> set all" "rows \<noteq> []"
    and cut: "list_all (\<lambda>r. length r = length names) rows'" "length rows' = length rows" "concat rows' = concat rows"
  shows "ex_InsertRows (my_DB (connect (my_dialect R) sv)) table names rows st = sv_Exec sv (AInsert (tb_name table) names rows' None) st"
proof -
  have "rows' \<noteq> []" using t(5) cut(2) by auto
  then have "ex_InsertRows (my_DB (connect (my_dialect R) sv)) table names rows st = ex_InsertRows (my_DB (connect (my_dialect R) sv)) table names rows' st"
    using t(5) cut(2,3) by (simp add: my_DB_def my_InsertRows_def split: sum.split)
  then show ?thesis using my_InsertRows_law [OF t(1-4) \<open>rows' \<noteq> []\<close> cut(1)] by simp
qed

lemma equalAsSets_iff:
  assumes "distinct a" "distinct b"
  shows "equalAsSets a b \<longleftrightarrow> set a = set b"
proof
  assume e: "equalAsSets a b"
  then have "set b \<subseteq> set a" "card (set b) = card (set a)" using assms by (auto simp: equalAsSets_def list_all_iff distinct_card)
  then show "set a = set b" using card_subset_eq by (metis finite_set)
next
  assume "set a = set b"
  then show "equalAsSets a b" using assms by (metis equalAsSets_def distinct_card list_all_iff)
qed

lemma index_columns_dom: "dom (index_columns i cols m) = dom m \<union> cs_name ` set cols"
  by (induction cols arbitrary: i m) auto

lemma reported_columns: "TableSchema_Column (NewTableSchema n pk auto cols) name = None \<longleftrightarrow> name \<notin> cs_name ` set cols"
  using index_columns_dom [of 0 cols Map.empty] by (auto simp: TableSchema_Column_def NewTableSchema_def domIff split: option.split)

lemma schema_lookup:
  assumes "distinct (map ts_name tss)"
  shows "Schema_Table (NewSchema tss) name = Some ts \<longleftrightarrow> ts \<in> set tss \<and> ts_name ts = name"
proof -
  have "distinct (map ts_name xs) \<Longrightarrow> ts_name ` set xs \<inter> dom m = {} \<Longrightarrow>
      fold (\<lambda>tbl m. m(ts_name tbl \<mapsto> tbl)) xs m name = Some ts \<longleftrightarrow> m name = Some ts \<or> ts \<in> set xs \<and> ts_name ts = name" for xs m
  proof (induction xs arbitrary: m)
    case (Cons x xs)
    then have d: "distinct (map ts_name xs)" "ts_name ` set xs \<inter> dom (m(ts_name x \<mapsto> x)) = {}" by auto
    show ?case using Cons.prems by (auto simp only: fold_simps Cons.IH [OF d] list.set) (auto split: if_splits)
  qed simp
  from this [OF assms, of Map.empty] show ?thesis by (simp add: Schema_Table_def NewSchema_def)
qed

text \<open>A report of a table, and a declaration it bears out.\<close>

definition reported :: "TableSchema \<Rightarrow> bool" where
  "reported ts \<longleftrightarrow> distinct (ts_pkColumns ts) \<and> ts = NewTableSchema (ts_name ts) (ts_pkColumns ts) (ts_pkAutoIncrement ts) (ts_columns ts)"

definition bears_out :: "TableSchema \<Rightarrow> Table \<Rightarrow> bool" where
  "bears_out ts t \<longleftrightarrow> ts_name ts = tb_name t \<and> set (Columns_Names (tb_columns t)) \<subseteq> cs_name ` set (ts_columns ts) \<and>
     set (Columns_Names (tb_pkColumns t)) = set (ts_pkColumns ts) \<and> tb_pkAutoIncrement t = ts_pkAutoIncrement ts"

lemma verify_table_iff:
  assumes "distinct (map ts_name tss)" "list_all reported tss" "table_ok t"
  shows "verify_table (NewSchema tss) t = [] \<longleftrightarrow> list_ex (\<lambda>ts. bears_out ts t) tss"
proof (cases "Schema_Table (NewSchema tss) (tb_name t)")
  case None
  then have "ts_name ts \<noteq> tb_name t" if "ts \<in> set tss" for ts using schema_lookup [OF assms(1), of "tb_name t" ts] that by auto
  then show ?thesis using None by (auto simp: verify_table_def bears_out_def list_ex_iff)
next
  case (Some ts)
  then have ts: "ts \<in> set tss" "ts_name ts = tb_name t" using schema_lookup [OF assms(1)] by auto
  have only: "list_ex (\<lambda>ts. bears_out ts t) tss \<longleftrightarrow> bears_out ts t"
  proof -
    have "ts' = ts" if "ts' \<in> set tss" "bears_out ts' t" for ts'
      using that schema_lookup [OF assms(1), of "tb_name t" ts'] Some by (simp add: bears_out_def)
    then show ?thesis using ts(1) by (auto simp: list_ex_iff)
  qed
  have r: "reported ts" using assms(2) ts(1) by (simp add: list_all_iff)
  then have col: "TableSchema_Column ts name = None \<longleftrightarrow> name \<notin> cs_name ` set (ts_columns ts)" for name
    using reported_columns [of "ts_name ts" "ts_pkColumns ts" "ts_pkAutoIncrement ts" "ts_columns ts" name] by (metis reported_def)
  have "distinct (Columns_Names (tb_pkColumns t))" using assms(3) by (auto simp: table_ok_def columns_of_def Columns_Names_def)
  moreover have "distinct (ts_pkColumns ts)" using r by (simp add: reported_def)
  ultimately have "verify_table (NewSchema tss) t = [] \<longleftrightarrow> bears_out ts t"
    using Some ts(2) by (auto simp: verify_table_def bears_out_def filter_empty_conv col equalAsSets_iff)
  then show ?thesis using only by simp
qed

text \<open>C39: \<open>VerifyTablesAgainstSchema\<close> finds nothing wrong exactly when the database reports every table declared, with at least the columns
  declared, the declared key as a set, and the declared stance on generated keys.\<close>

theorem verified_iff_borne_out:
  assumes "distinct (map ts_name tss)" "list_all reported tss" "list_all table_ok tables"
  shows "VerifyTablesAgainstSchema tables (Some (NewSchema tss)) = [] \<longleftrightarrow> list_all (\<lambda>t. list_ex (\<lambda>ts. bears_out ts t) tss) tables"
  using assms(3) verify_table_iff [OF assms(1,2)] by (auto simp: VerifyTablesAgainstSchema_def list_all_iff)

theorem verified_iff_borne_out_witness:
  "VerifyTablesAgainstSchema [users] (Some (NewSchema [NewTableSchema ''users'' [''id''] True
     [\<lparr>cs_name = ''id'', cs_dataType = ''bigint'', cs_nullable = False, cs_hasDefault = False, cs_defaultExpr = []\<rparr>,
      \<lparr>cs_name = ''name'', cs_dataType = ''bigint'', cs_nullable = True, cs_hasDefault = False, cs_defaultExpr = []\<rparr>,
      \<lparr>cs_name = ''email'', cs_dataType = ''bigint'', cs_nullable = True, cs_hasDefault = False, cs_defaultExpr = []\<rparr>]])) \<noteq> []"
proof -
  note ok = NewTable_ok [OF users_made(1)]
  have "Columns_Names (tb_columns users) = [''id'', ''name'', ''age'']" using ok(5) by (simp add: columns_of_def Columns_Names_def)
  then show ?thesis
    using ok(1) by (subst verified_iff_borne_out) (simp_all add: reported_def NewTableSchema_def bears_out_def)
qed

end
