(* ===== verification/Sql_Models_Correct.thy ===== *)
theory Sql_Models_Correct
  imports Sql_Models Sql_Exec_Correct
begin

text \<open>
  What the operations on models ask of a database, proved once for every driver that fulfils \<open>sql_executor\<close>, and
  what they come to over rows in tables: an inserted model is fetched back, an update reaches the row of the model's key.
\<close>

section \<open>Bindings\<close>

lemma bindings_walk_clean:
  "bindings_walk tbl i bs seen = ([], seen') \<Longrightarrow> seen' = seen \<union> fst ` set bs \<and> distinct (map fst bs) \<and> fst ` set bs \<inter> seen = {} \<and>
     list_all (\<lambda>b. Columns_Find (tb_columns tbl) (fst b) \<noteq> None \<and> \<not> not_pointer (snd b)) bs"
proof (induction bs arbitrary: i seen)
  case (Cons b bs)
  obtain column ptr where b: "b = (column, ptr)" by (cases b)
  obtain w s where r: "bindings_walk tbl (Suc i) bs (insert column seen) = (w, s)" by (cases "bindings_walk tbl (Suc i) bs (insert column seen)")
  from Cons.prems b r have "column \<noteq> []" "column \<notin> seen" "Columns_Find (tb_columns tbl) column \<noteq> None" "\<not> not_pointer ptr" "w = []" "s = seen'"
    by (auto simp: apfst_def map_prod_def split: if_splits prod.splits)
  with Cons.IH [of "Suc i" "insert column seen"] r b show ?case by auto
qed simp

text \<open>Bindings that passed: of declared columns, each bound once and to a field, the key among them.\<close>

definition bound_well :: "string list \<Rightarrow> string list \<Rightarrow> 'v ColumnFieldBinding list \<Rightarrow> bool" where
  "bound_well pk all bs \<longleftrightarrow> bs \<noteq> [] \<and> distinct (map fst bs) \<and> fst ` set bs \<subseteq> set all \<and> set pk \<subseteq> fst ` set bs \<and> list_all (\<lambda>b. \<not> not_pointer (snd b)) bs"

lemma validated_bound_well:
  assumes "declares (md_Table md) pk all" "ValidateDBModelBindings md = None"
  shows "bound_well pk all (md_ColumnFieldBindings md)"
proof -
  obtain w s where r: "bindings_walk (md_Table md) 0 (md_ColumnFieldBindings md) {} = (w, s)" by fastforce
  with assms(2) have v: "w = []" "md_ColumnFieldBindings md \<noteq> []" "filter (\<lambda>name. name \<notin> s) (Columns_Names (tb_pkColumns (md_Table md))) = []"
    by (auto simp: ValidateDBModelBindings_def Let_def split: if_splits)
  from v(3) have "set pk \<subseteq> s" using declaresD(1) [OF assms(1)] by (auto simp: filter_empty_conv)
  then show ?thesis
    using bindings_walk_clean [of "md_Table md" 0 "md_ColumnFieldBindings md" "{}" s] r v(1,2) declaresD(4) [OF assms(1)]
    by (auto simp: bound_well_def list_all_iff Columns_Find_def columns_of_def split: if_splits)
qed

definition field_of :: "'v ColumnFieldBinding list \<Rightarrow> string \<Rightarrow> 'v FieldPtr" where
  "field_of bs c = the (map_of bs c)"

lemma index_bindings_ok:
  "distinct (map fst bs) \<Longrightarrow> fst ` set bs \<inter> dom byCol = {} \<Longrightarrow>
     index_bindings t bs byCol = Inr (\<lambda>c. if c \<in> fst ` set bs then Some (c, field_of bs c) else byCol c)"
proof (induction bs arbitrary: byCol)
  case (Cons b bs)
  have "fst ` set bs \<inter> dom (byCol(fst b \<mapsto> b)) = {}" "distinct (map fst bs)" using Cons.prems by (simp_all add: Int_insert_right)
  then have "index_bindings t bs (byCol(fst b \<mapsto> b)) = Inr (\<lambda>c. if c \<in> fst ` set bs then Some (c, field_of bs c) else (byCol(fst b \<mapsto> b)) c)"
    using Cons.IH by blast
  moreover have "byCol (fst b) = None" using Cons.prems(2) by auto
  ultimately show ?case using Cons.prems(1) by (cases b) (auto simp: field_of_def fun_eq_iff image_iff)
qed simp

lemma take_key_ok:
  "distinct names \<Longrightarrow> (\<And>n. n \<in> set names \<Longrightarrow> byCol n = Some (f n)) \<Longrightarrow>
     take_key t names byCol key = Inr (key @ map f names, \<lambda>c. if c \<in> set names then None else byCol c)"
proof (induction names arbitrary: byCol key)
  case (Cons n names)
  have "take_key t names (byCol(n := None)) (key @ [f n]) = Inr ((key @ [f n]) @ map f names, \<lambda>c. if c \<in> set names then None else (byCol(n := None)) c)"
    using Cons.prems by (intro Cons.IH) auto
  then show ?case using Cons.prems(2) [of n] by (auto simp: fun_eq_iff)
qed (simp add: fun_eq_iff)

lemma split_ok:
  assumes "declares tbl pk all" "bound_well pk all bs"
  shows "splitBindingsByKey tbl bs = Inr (map (\<lambda>c. (c, field_of bs c)) pk, filter (\<lambda>b. fst b \<notin> set pk) bs)"
proof -
  let ?f = "\<lambda>c. if c \<in> fst ` set bs then Some (c, field_of bs c) else None"
  have "index_bindings (tb_name tbl) bs Map.empty = Inr ?f" using assms(2) index_bindings_ok [of bs Map.empty] by (simp add: bound_well_def)
  moreover have "take_key (tb_name tbl) pk ?f [] = Inr (map (\<lambda>c. (c, field_of bs c)) pk, \<lambda>c. if c \<in> set pk then None else ?f c)"
  proof -
    have "distinct pk" using assms(1) by (simp add: declares_def columns_of_def)
    moreover have "?f n = Some (n, field_of bs n)" if "n \<in> set pk" for n using that assms(2) by (auto simp: bound_well_def)
    ultimately show ?thesis by (subst take_key_ok [where f = "\<lambda>c. (c, field_of bs c)"]) simp_all
  qed
  moreover have "filter (\<lambda>b. (if fst b \<in> set pk then None else ?f (fst b)) \<noteq> None) bs = filter (\<lambda>b. fst b \<notin> set pk) bs"
    by (rule filter_cong) auto
  ultimately show ?thesis using declaresD(1) [OF assms(1)] by (simp add: splitBindingsByKey_def)
qed

lemma field_of_bound: "distinct (map fst bs) \<Longrightarrow> b \<in> set bs \<Longrightarrow> field_of bs (fst b) = snd b"
  by (cases b) (simp add: field_of_def)

section \<open>What models ask of a database\<close>

text \<open>The value a model holds for a column, and for every column of its key.\<close>

definition value_in :: "'v DBModel \<Rightarrow> 'v fields \<Rightarrow> string \<Rightarrow> 'v" where
  "value_in md m c = deref m (field_of (md_ColumnFieldBindings md) c)"

lemma values_bound:
  assumes "distinct (map fst (md_ColumnFieldBindings md))" "set bs \<subseteq> set (md_ColumnFieldBindings md)"
  shows "map (\<lambda>b. deref m (snd b)) bs = map (value_in md m) (map fst bs)"
  unfolding map_map comp_def value_in_def
  by (rule map_cong [OF refl]) (simp add: field_of_bound [OF assms(1) subsetD [OF assms(2)]])

lemma key_values: "pkValueFromBindings m (map (\<lambda>c. (c, field_of (md_ColumnFieldBindings md) c)) pk) = map (value_in md m) pk"
  by (simp add: pkValueFromBindings_def value_in_def)

lemma pick_ok:
  assumes "distinct (map fst bs)"
  shows "set names \<subseteq> fst ` set bs \<Longrightarrow> \<exists>ps. pick_bindings t bs names = Inr ps \<and> map fst ps = names \<and> set ps \<subseteq> set bs"
proof (induction names)
  case (Cons n names)
  from Cons.prems obtain b where b: "List.find (\<lambda>b. fst b = n) bs = Some b"
    by (cases "List.find (\<lambda>b. fst b = n) bs") (auto simp: find_None_iff)
  then have "fst b = n" "b \<in> set bs" by (auto simp: find_Some_iff)
  with Cons b show ?case by auto
qed simp

context sql_executor
begin

lemma InsertDBModel_asks:
  assumes "declares (md_Table md) pk all" "bound_well pk all (md_ColumnFieldBindings md)"
  shows "InsertDBModel E md m st = apfst (\<lambda>r. case r of Inl e \<Rightarrow> Some (InCall ''InsertDBModel'' e) | Inr _ \<Rightarrow> None)
    (sv_Exec sv (AInsert (tb_name (md_Table md)) (map fst (md_ColumnFieldBindings md)) [map (value_in md m) (map fst (md_ColumnFieldBindings md))] None) st)"
proof -
  let ?bs = "md_ColumnFieldBindings md"
  have h: "map fst ?bs \<noteq> []" "distinct (map fst ?bs)" "set (map fst ?bs) \<subseteq> set all" using assms(2) by (auto simp: bound_well_def)
  have "length (map (value_in md m) (map fst ?bs)) = length (map fst ?bs)" by simp
  note e = InsertRow_law [OF assms(1) h this, of st]
  show ?thesis unfolding InsertDBModel_def Let_def values_bound [OF h(2) subset_refl] e
    by (simp add: case_prod_beta apfst_def map_prod_def split: sum.split)
qed

lemma FetchDBModel_asks:
  assumes "declares (md_Table md) pk all" "bound_well pk all (md_ColumnFieldBindings md)" "length key = length pk"
  shows "FetchDBModel sc E md key st =
    (let (row, st1) = sv_QueryRow sv (ASelect (map fst (md_ColumnFieldBindings md)) (tb_name (md_Table md)) (Some (key_cond (zip pk key))) True) st
     in (ScanRowToDBModel sc md row, st1))"
proof -
  let ?bs = "md_ColumnFieldBindings md"
  have h: "map fst ?bs \<noteq> []" "distinct (map fst ?bs)" "set (map fst ?bs) \<subseteq> set all" using assms(2) by (auto simp: bound_well_def)
  show ?thesis
    using SelectRow_law [OF assms(1) h(2,3) assms(3), of st] h(1)
    by (simp add: FetchDBModel_def ScanRowToDBModel_def scanDests_def case_prod_beta apfst_def map_prod_def Let_def split: prod.split option.split)
qed

lemma UpdateDBModel_asks:
  assumes d: "declares (md_Table md) pk all" "bound_well pk all (md_ColumnFieldBindings md)"
    and cols: "distinct cols" "set cols \<subseteq> fst ` set (md_ColumnFieldBindings md) - set pk"
    and names: "names = (if cols = [] then filter (\<lambda>c. c \<notin> set pk) (map fst (md_ColumnFieldBindings md)) else cols)" "names \<noteq> []"
  shows "UpdateDBModel E md m cols st = apfst (\<lambda>r. case r of Inl e \<Rightarrow> Inl (InCall ''UpdateDBModel'' e) | Inr n \<Rightarrow> Inr n)
    (sv_Exec sv (AUpdate (tb_name (md_Table md)) (zip names (map (value_in md m) names)) (Some (key_cond (zip pk (map (value_in md m) pk))))) st)"
proof -
  let ?bs = "md_ColumnFieldBindings md" and ?nk = "filter (\<lambda>b. fst b \<notin> set pk) (md_ColumnFieldBindings md)"
  have u: "distinct (map fst ?bs)" "distinct (map fst ?nk)" "fst ` set ?bs \<subseteq> set all" using d(2) by (auto simp: bound_well_def distinct_map_filter)
  obtain ws where ws: "(if cols = [] then Inr ?nk else pick_bindings (tb_name (md_Table md)) ?nk cols) = Inr ws" "map fst ws = names" "set ws \<subseteq> set ?bs"
  proof (cases "cols = []")
    case True
    then show thesis using that [of ?nk] names(1) by (auto simp: filter_map comp_def)
  next
    case False
    have "set cols \<subseteq> fst ` set ?nk" using cols(2) by auto
    from pick_ok [OF u(2) this, of "tb_name (md_Table md)"] obtain ps where
      "pick_bindings (tb_name (md_Table md)) ?nk cols = Inr ps" "map fst ps = cols" "set ps \<subseteq> set ?nk" by blast
    then show thesis using that [of ps] False names(1) by auto
  qed
  have n: "distinct names" "set names \<subseteq> set all" using ws(2,3) names(1) cols u by (auto split: if_splits)
  have w: "ws \<noteq> []" "map (\<lambda>b. deref m (snd b)) ws = map (value_in md m) names" using ws names(2) values_bound [OF u(1) ws(3)] by auto

  have "UpdateDBModel E md m cols st = (case ex_UpdateRow E (md_Table md) (map (value_in md m) pk) names (map (value_in md m) names) st of
      (Inl e, st1) \<Rightarrow> (Inl (InCall ''UpdateDBModel'' e), st1) | (Inr n, st1) \<Rightarrow> (Inr n, st1))"
    using ws(1,2) w by (simp add: UpdateDBModel_def split_ok [OF d] key_values)
  then show ?thesis
    using UpdateRow_law [OF d(1) names(2) n, of "map (value_in md m) names" "map (value_in md m) pk" st]
    by (simp add: apfst_def map_prod_def split: prod.split sum.split)
qed

lemma DeleteDBModel_asks:
  assumes "declares (md_Table md) pk all" "bound_well pk all (md_ColumnFieldBindings md)"
  shows "DeleteDBModel E md m st = apfst (\<lambda>r. case r of Inl e \<Rightarrow> Inl (InCall ''DeleteDBModel'' e) | Inr n \<Rightarrow> Inr n)
    (sv_Exec sv (ADelete (tb_name (md_Table md)) (Some (key_cond (zip pk (map (value_in md m) pk))))) st)"
proof -
  have "DeleteDBModel E md m st = (case ex_DeleteRow E (md_Table md) (map (value_in md m) pk) st of
      (Inl e, st1) \<Rightarrow> (Inl (InCall ''DeleteDBModel'' e), st1) | (Inr n, st1) \<Rightarrow> (Inr n, st1))"
    by (simp add: DeleteDBModel_def split_ok [OF assms] key_values)
  then show ?thesis
    using DeleteRow_law [OF assms(1), of "map (value_in md m) pk" st] by (simp add: apfst_def map_prod_def split: prod.split sum.split)
qed

end

section \<open>Models over rows in tables\<close>

text \<open>A row scans into as many fields as it has values, in order.\<close>

definition put_field :: "'v FieldPtr \<times> 'v \<Rightarrow> 'v fields \<Rightarrow> 'v fields" where
  "put_field d m = (case fst d of Ptr i \<Rightarrow> m(i := snd d) | NotPtr _ \<Rightarrow> m)"

definition scan_row :: "(sql_error, 'v list) result \<Rightarrow> 'v FieldPtr list \<Rightarrow> 'v fields \<Rightarrow> sql_error option \<times> 'v fields" where
  "scan_row row dests m = (case row of
     Inl e \<Rightarrow> (Some e, m)
   | Inr vs \<Rightarrow> if length vs \<noteq> length dests \<or> list_ex not_pointer dests then (Some unread, m) else (None, fold put_field (zip dests vs) m))"

definition rows_scanner :: "('v, (sql_error, 'v list) result, 'v list list) scanner" where
  "rows_scanner = \<lparr>sc_Scan = scan_row, sc_Rows = (\<lambda>rs. (map Inr rs, None))\<rparr>"

lemma fold_put_field:
  assumes "list_all (\<lambda>p. \<not> not_pointer p) ps"
  shows "p \<in> set ps \<Longrightarrow> deref (fold put_field (zip ps (map (deref m) ps)) m0) p = deref m p"
proof -
  have keep: "m1 i = m i \<or> Ptr i \<in> set ps \<Longrightarrow> fold put_field (zip ps (map (deref m) ps)) m1 i = m i" if "list_all (\<lambda>p. \<not> not_pointer p) ps" for ps m1 i
    using that
  proof (induction ps arbitrary: m1)
    case (Cons p ps)
    then obtain j where "p = Ptr j" by (cases p) (auto simp: not_pointer_def)
    then have s: "fold put_field (zip (p # ps) (map (deref m) (p # ps))) m1 = fold put_field (zip ps (map (deref m) ps)) (m1(j := m j))"
      by (simp add: put_field_def)
    show ?case unfolding s by (rule Cons.IH) (use Cons.prems \<open>p = Ptr j\<close> in auto)
  qed simp
  show "p \<in> set ps \<Longrightarrow> ?thesis" using keep [OF assms] assms by (cases p) (simp_all add: list_all_iff not_pointer_def)
qed

text \<open>The databases of the statements below: either driver, over rows in tables.\<close>

definition over_rows :: "Dialect \<Rightarrow> ('v, (sql_error, 'v list) result, 'v list list, string \<Rightarrow> (string \<Rightarrow> 'v) list) Executor \<Rightarrow> 'v cmp \<Rightarrow> ('v \<Rightarrow> bool) \<Rightarrow> 'v \<Rightarrow> bool" where
  "over_rows D E cmp isnull dflt \<longleftrightarrow> (\<exists>R. D = pg_dialect R \<and> E = pg_DB (connect D (rows_server cmp isnull dflt)) \<or>
     D = my_dialect R \<and> E = my_DB (connect D (rows_server cmp isnull dflt)))"

lemma over_rows_executor: "over_rows D E cmp isnull dflt \<Longrightarrow> sql_executor E (rows_server cmp isnull dflt) D"
  using pgx.sql_executor_axioms myx.sql_executor_axioms by (auto simp: over_rows_def)

definition has_key :: "'v cmp \<Rightarrow> string list \<Rightarrow> 'v list \<Rightarrow> (string \<Rightarrow> 'v) \<Rightarrow> bool" where
  "has_key cmp pk key r \<longleftrightarrow> list_all2 (\<lambda>c v. cmp ''='' (r c) v = Some True) pk key"

lemma meets_key: "length key = length pk \<Longrightarrow> meets cmp isnull (Some (key_cond (zip pk key))) = has_key cmp pk key"
  by (simp add: fun_eq_iff meets_def has_key_def truth_key)

section \<open>Properties\<close>

text \<open>C20: a model comes back as it went in. When the bindings passed \<open>ValidateDBModelBindings\<close>, the table has no row of the model's key,
  and the values of the key equal themselves, \<open>InsertDBModel\<close> succeeds and \<open>FetchDBModel\<close> with that key then gives an instance with the
  same value in every bound field: through either driver, whatever the width of the key and the order of the bindings.\<close>

theorem inserted_model_fetched:
  assumes t: "NewTable name pk auto rest = Inr (md_Table md)" "ValidateDBModelBindings md = None" "over_rows D E cmp isnull dflt"
    and key: "key = map (value_in md m) pk" "list_all (\<lambda>v. cmp ''='' v v = Some True) key" "list_all (\<lambda>r. \<not> has_key cmp pk key r) (st name)"
    and ins: "InsertDBModel E md m st = (r, st1)" and get: "FetchDBModel rows_scanner E md key st1 = (q, st2)"
  shows "r = None \<and> st2 = st1 \<and> (\<exists>m'. q = Inr m' \<and> list_all (\<lambda>b. deref m' (snd b) = deref m (snd b)) (md_ColumnFieldBindings md))"
proof -
  let ?bs = "md_ColumnFieldBindings md" and ?sv = "rows_server cmp isnull dflt"
  note d = NewTable_declares [OF t(1)] and w = validated_bound_well [OF NewTable_declares(1) [OF t(1)] t(2)] and ex = over_rows_executor [OF t(3)]
  have len: "length key = length pk" by (simp add: key(1))
  define new where "new = assign (zip (map fst ?bs) (map (value_in md m) (map fst ?bs))) (\<lambda>_. dflt)"
  have row: "new c = value_in md m c" if "c \<in> fst ` set ?bs" for c
    using that unfolding new_def assign_def map_of_zip_map by simp
  from ins have i: "r = None" "st1 = st(name := st name @ [new])"
    using sql_executor.InsertDBModel_asks [OF ex d(1) w, of m st] by (auto simp: rows_server_def rows_exec_def d(2) new_def)
  have own: "has_key cmp pk key new"
  proof -
    have "new c = value_in md m c" if "c \<in> set pk" for c using that w by (intro row) (auto simp: bound_well_def)
    then show ?thesis using key(2) by (auto simp: has_key_def key(1) list_all2_conv_all_nth list_all_length)
  qed
  have f: "filter (has_key cmp pk key) (st1 name) = [new]" using key(3) own i(2) by (auto simp: filter_empty_conv list_all_iff)
  have v: "map new (map fst ?bs) = map (deref m) (map snd ?bs)"
    using values_bound [of md ?bs m] w row by (auto simp: bound_well_def)
  have rq: "rows_query cmp isnull (ASelect (map fst ?bs) name (Some (key_cond (zip pk key))) True) st1 = [map (deref m) (map snd ?bs)]"
    unfolding v [symmetric] by (simp add: rows_query_def meets_key [OF len] f)
  have "q = ScanRowToDBModel rows_scanner md (Inr (map (deref m) (map snd ?bs)))" "st2 = st1"
    using get rq sql_executor.FetchDBModel_asks [OF ex d(1) w len, of rows_scanner st1] by (auto simp: rows_server_def d(2))
  moreover have p: "list_all (\<lambda>p. \<not> not_pointer p) (map snd ?bs)" using w by (auto simp: bound_well_def list_all_iff)
  ultimately have "q = Inr (fold put_field (zip (map snd ?bs) (map (deref m) (map snd ?bs))) (md_zero md))" "st2 = st1"
    by (auto simp: ScanRowToDBModel_def rows_scanner_def scan_row_def scanDests_def list_ex_iff list_all_iff)
  then show ?thesis using i(1) fold_put_field [OF p] by (auto simp: list_all_iff)
qed

definition user_model :: "nat DBModel" where
  "user_model = \<lparr>md_Table = users, md_ColumnFieldBindings = [(''id'', Ptr 0), (''age'', Ptr 2), (''name'', Ptr 1)], md_zero = (\<lambda>_. 0)\<rparr>"

definition user_five :: "nat fields" where "user_five = (\<lambda>_. 0)(0 := 5, 1 := 7, 2 := 33)"

lemma user_model_ok:
  "NewTable ''users'' [''id''] True [''name'', ''age''] = Inr (md_Table user_model)" "ValidateDBModelBindings user_model = None"
  "over_rows (my_dialect (\<lambda>_. False)) (my_DB (connect (my_dialect (\<lambda>_. False)) nat_server)) nat_cmp (\<lambda>v. v = 0) 0"
proof -
  show "NewTable ''users'' [''id''] True [''name'', ''age''] = Inr (md_Table user_model)" by (simp add: user_model_def users_made(1))
  show "ValidateDBModelBindings user_model = None"
    using NewTable_ok [OF users_made(1)]
    by (simp add: ValidateDBModelBindings_def user_model_def not_pointer_def Columns_Find_def Columns_Names_def columns_of_def)
  show "over_rows (my_dialect (\<lambda>_. False)) (my_DB (connect (my_dialect (\<lambda>_. False)) nat_server)) nat_cmp (\<lambda>v. v = 0) 0"
    by (auto simp: over_rows_def)
qed

theorem inserted_model_fetched_witness:
  "\<exists>m'. fst (FetchDBModel rows_scanner (my_DB (connect (my_dialect (\<lambda>_. False)) nat_server)) user_model [5]
      (snd (InsertDBModel (my_DB (connect (my_dialect (\<lambda>_. False)) nat_server)) user_model user_five some_users))) = Inr m' \<and> m' 1 = 7"
proof -
  have "[5] = map (value_in user_model user_five) [''id'']" "list_all (\<lambda>v. nat_cmp ''='' v v = Some True) [5]"
    "list_all (\<lambda>r. \<not> has_key nat_cmp [''id''] [5] r) (some_users ''users'')"
    by (simp_all add: value_in_def field_of_def user_model_def user_five_def nat_cmp_def has_key_def some_users_def assign_def)
  from inserted_model_fetched [where st = some_users, OF user_model_ok this prod.collapse [symmetric] prod.collapse [symmetric]]
  show ?thesis by (auto simp: user_model_def user_five_def)
qed



section \<open>Vetting\<close>

lemma derive_columns_bound: "derive_columns bs left = (cols, {}) \<Longrightarrow> set cols \<subseteq> fst ` set bs \<and> left \<subseteq> fst ` set bs"
proof (induction bs arbitrary: left cols)
  case (Cons b bs)
  show ?case
  proof (cases "fst b \<in> left")
    case True
    with Cons.IH [of "left - {fst b}" cols] Cons.prems show ?thesis by auto
  next
    case False
    then obtain cs where "derive_columns bs left = (cs, {})" "cols = fst b # cs" using Cons.prems by (cases "derive_columns bs left") auto
    with Cons.IH show ?thesis by auto
  qed
qed simp

text \<open>C28: a model registered with \<open>RegisterDBModelOrPanic\<close> and passed by \<open>VetDBModelInsert\<close> can be inserted as far as the reported table
  goes: its bindings are in order, and every column the database reports is bound, may be null or has a default.\<close>

theorem vetted_insert_complete:
  assumes "RegisterDBModelOrPanic md g name pk auto = Inr (md_Table md, g')"
    and "distinct (map ts_name tss)" "ts \<in> set tss" "ts_name ts = name" "VetDBModelInsert md (Some (NewSchema tss)) = []"
  shows "bound_well pk (Columns_Names (tb_columns (md_Table md))) (md_ColumnFieldBindings md) \<and>
    list_all (\<lambda>col. cs_name col \<in> fst ` set (md_ColumnFieldBindings md) \<or> cs_nullable col \<or> cs_hasDefault col) (ts_columns ts)"
proof -
  obtain cols where c: "derive_columns (md_ColumnFieldBindings md) (set pk) = (cols, {})" "NewTable name pk auto cols = Inr (md_Table md)"
    using assms(1) by (auto simp: RegisterDBModelOrPanic_def split: prod.splits if_splits sum.splits)
  note d = NewTable_declares [OF c(2)] and b = derive_columns_bound [OF c(1)]
  have n: "Columns_Names (tb_columns (md_Table md)) = pk @ cols" using NewTable_ok(5) [OF c(2)] by (simp add: columns_of_def Columns_Names_def)
  have "Schema_Table (NewSchema tss) name = Some ts" using schema_lookup [OF assms(2)] assms(3,4) by simp
  then have v: "ValidateDBModelBindings md = None"
    "filter (\<lambda>col. \<not> (cs_name col \<in> set (pk @ cols) \<or> cs_nullable col \<or> cs_hasDefault col)) (ts_columns ts) = []"
    using assms(5) d(2) n by (auto simp: VetDBModelInsert_def VetDBModelAgainstDB_def Let_def split: option.splits if_splits)
  show ?thesis using validated_bound_well [OF d(1) v(1)] n v(2) b by (auto simp: filter_empty_conv list_all_iff)
qed

definition full_model :: "nat DBModel" where
  "full_model = \<lparr>md_Table = users, md_ColumnFieldBindings = [(''id'', Ptr 0), (''name'', Ptr 1), (''age'', Ptr 2)], md_zero = (\<lambda>_. 0)\<rparr>"

definition report :: "string \<Rightarrow> bool \<Rightarrow> bool \<Rightarrow> ColumnSchema" where
  "report name nullable hasDefault = \<lparr>cs_name = name, cs_dataType = ''bigint'', cs_nullable = nullable, cs_hasDefault = hasDefault, cs_defaultExpr = []\<rparr>"

definition users_report :: TableSchema where
  "users_report = NewTableSchema ''users'' [''id''] True [report ''id'' False False, report ''name'' False False, report ''age'' True False, report ''made'' False True]"

lemma users_columns: "Columns_Names (tb_columns users) = [''id'', ''name'', ''age'']" "Columns_Names (tb_pkColumns users) = [''id'']" "tb_pkAutoIncrement users"
    "Columns_Find (tb_columns users) c = (if c \<in> {''id'', ''name'', ''age''} then Some (Column c) else None)"
  using NewTable_ok [OF users_made(1)] by (simp_all add: columns_of_def Columns_Names_def Columns_Find_def)

lemma users_verified: "VerifyAgainstDB users (Some (NewSchema [users_report])) = []"
  by (simp add: VerifyAgainstDB_def VerifyTablesAgainstSchema_def verify_table_def Schema_Table_def NewSchema_def users_report_def NewTableSchema_def users_made(2)
      users_columns TableSchema_Column_def report_def equalAsSets_def)

lemma full_model_vetted: "VetDBModelInsert full_model (Some (NewSchema [users_report])) = []"
  using users_verified
  by (simp add: VetDBModelInsert_def VetDBModelAgainstDB_def full_model_def ValidateDBModelBindings_def not_pointer_def users_columns
      Schema_Table_def NewSchema_def users_report_def NewTableSchema_def users_made(2) report_def)

theorem vetted_insert_complete_witness:
  "list_all (\<lambda>col. cs_name col \<in> {''id'', ''name'', ''age''} \<or> cs_nullable col \<or> cs_hasDefault col) (ts_columns users_report)"
proof -
  have "RegisterDBModelOrPanic full_model [] ''users'' [''id''] True = Inr (md_Table full_model, [\<lparr>gm_table = Some users, gm_validate = Some full_model\<rparr>])"
    by (simp add: RegisterDBModelOrPanic_def full_model_def users_made(1))
  from vetted_insert_complete [OF this _ _ _ full_model_vetted, of users_report] show ?thesis
    by (simp add: full_model_def users_report_def NewTableSchema_def)
qed

text \<open>For a model on a table declared apart, the verdict is about the columns the table declares and not about those the model binds: a projection
  that leaves out a column which must have a value passes.\<close>

definition slim_model :: "nat DBModel" where
  "slim_model = full_model\<lparr>md_ColumnFieldBindings := [(''id'', Ptr 0)]\<rparr>"

lemma vet_insert_ignores_bindings:
  assumes "md_Table md' = md_Table md" "ValidateDBModelBindings md = None" "ValidateDBModelBindings md' = None"
  shows "VetDBModelInsert md' cached = VetDBModelInsert md cached"
  unfolding VetDBModelInsert_def VetDBModelAgainstDB_def assms by (rule refl)

lemma slim_model_passes:
  "VetDBModelInsert slim_model (Some (NewSchema [users_report])) = []" "''name'' \<notin> fst ` set (md_ColumnFieldBindings slim_model)"
proof -
  have "ValidateDBModelBindings slim_model = None" "ValidateDBModelBindings full_model = None"
    by (simp_all add: ValidateDBModelBindings_def slim_model_def full_model_def not_pointer_def users_columns)
  then show "VetDBModelInsert slim_model (Some (NewSchema [users_report])) = []"
    using full_model_vetted vet_insert_ignores_bindings [of slim_model full_model] by (simp add: slim_model_def)
  show "''name'' \<notin> fst ` set (md_ColumnFieldBindings slim_model)" by (simp add: slim_model_def)
qed

text \<open>A group that passes has every table borne out and every model's bindings in order.\<close>

lemma vetted_group:
  assumes "VetAgainstDB g cached = []" "gm \<in> set g"
  shows "gm_table gm = Some t \<Longrightarrow> VerifyAgainstDB t cached = []" "gm_validate gm = Some md \<Longrightarrow> ValidateDBModelBindings md = None"
  using assms by (auto simp: VetAgainstDB_def grp_VerifyTablesAgainstSchema_def grp_ValidateBindings_def grp_Tables_def VerifyAgainstDB_def
      VerifyTablesAgainstSchema_def List.map_filter_def filter_empty_conv split: option.splits)

text \<open>A query for a collection without order or limit asks for the rows its condition is true of.\<close>

lemma QueryDBModelCollection_asks:
  assumes sp: "speaks D cl h" and d: "declares (md_Table md) pk all" "bound_well pk all (md_ColumnFieldBindings md)"
    and q: "where_ok D (qo_WhereCond opts)" "qo_OrderBys opts = []" "qo_Limit opts \<le> 0"
  shows "QueryDBModelCollection GetID sc cl (connect D sv) md opts st =
    (case sv_Query sv (ASelect (map fst (md_ColumnFieldBindings md)) (tb_name (md_Table md)) (map_option flat (qo_WhereCond opts)) False) st of
       (Inl e, st1) \<Rightarrow> (Inl e, st1) | (Inr rows, st1) \<Rightarrow> (ScanRowsToDBModelCollection GetID sc md rows, st1))"
proof -
  let ?names = "map fst (md_ColumnFieldBindings md)"
  have h: "?names \<noteq> []" "distinct ?names" "set ?names \<subseteq> set all" using d(2) by (auto simp: bound_well_def)
  obtain c where c: "Choose (tb_columns (md_Table md)) ?names = Inr c" "Columns_Names c = ?names"
    using Choose_accepts [OF declaresD(4) [OF d(1)] h(2,3)] h(1) by (metis (full_types))
  note rs = read_select [OF sp q(1) h(1), of "tb_name (md_Table md)"]
  have "QueryDBModelCollection GetID sc cl (connect D sv) md opts st = RawQueryDBModelCollection GetID sc (connect D sv) md
      (''SELECT '' @ QuoteJoinIdentifiers cl ?names @ '' FROM '' @ QuoteIdentifier cl (tb_name (md_Table md)) @ fst (WhereClause_Build (qo_WhereCond opts) cl 1))
      (snd (WhereClause_Build (qo_WhereCond opts) cl 1)) st"
    by (simp add: QueryDBModelCollection_def SelectBaseOf_def c OrderByClause_def LimitClause_def q(2,3) case_prod_beta)
  then show ?thesis unfolding RawQueryDBModelCollection_def connect_simps(3) [OF rs] .
qed

end
