(* ===== verification/Spec2Isabelle.thy ===== *)
theory Spec2Isabelle
  imports Throttle_KVDB Locking Jobsched Core_Walks Cookie_Correct Pubsub_Correct Coll_Correct Jwt_Assert_Correct Sql_Models_Correct
begin

text \<open>
  \<^bold>\<open>A verification of gwf, a Go web application framework.\<close>

  \<^bold>\<open>The program.\<close> An application builds a \<open>Core\<close> (\<open>gw/framework\<close>), registers services with
  the services they depend on, and starts them; the core starts them dependencies first, hands out
  gated handles, and terminates them dependents first. Services follow one lifecycle (\<open>gw/svc\<close>).
  Several instances of an application share state through a key-value database (\<open>gw/kvdbs\<close>, with
  the Redis driver \<open>kvdbs/redis\<close>): rate limits (\<open>gw/throttle\<close>), named locks
  (\<open>gw/locking\<close>), the ledger of scheduled jobs (\<open>gw/jobsched\<close>), bearer sessions
  (\<open>gw/web/session/bearer\<close>) and cookie sessions (\<open>gw/web/session/cookie\<close>). Inside one instance a broker carries messages to local subscribers
  (\<open>gw/pubsubs\<close>), and a keyring seals values for storage (\<open>gw/security\<close>). Requests reach their handlers through routes and handler
  wrappers (\<open>gw/web\<close>), which resolve the client's address, limit rates, take locks and demand sessions or signed assertions
  (\<open>auth/jwtassert\<close>). Application data are models in SQL tables (\<open>gw/sqldbs\<close>, with the drivers \<open>sqldbs/pgsql\<close> and \<open>sqldbs/mysql\<close>),
  read into collections (\<open>gw/coll\<close>). Errors are structured values (\<open>gw/errs\<close>).

  \<^bold>\<open>Layout.\<close>
  \<^item> \<open>Gwf_Prelude\<close>: 64-bit integers, time, decimal text, the reachability relation.
  \<^item> \<open>Errs\<close>: \<open>gw/errs\<close>, errors, sentinels, error sets; membership is identity.
  \<^item> \<open>Svc_Lifecycle\<close>: \<open>gw/svc\<close>; the locale \<open>service\<close> is the contract of \<open>svc.Service\<close>, \<open>lifecycle_part\<close>
    lifts it to a record that embeds a lifecycle.
  \<^item> \<open>Clock\<close>: \<open>gw/clock\<close>, clocks with a precision and the spans they read.
  \<^item> \<open>KVDB_Contract\<close>: \<open>gw/kvdbs/db.go\<close>; one act per method on an abstract store, and the locale
    \<open>kvdb_store\<close>: a call runs its act at one moment while other clients move the store.
  \<^item> \<open>KVDB_Redis\<close>, \<open>KVDB_Redis_Correct\<close>: \<open>kvdbs/redis/db.go\<close> with its scripts over documented Redis commands
    (locale \<open>redis_server\<close>); \<open>redis_driver\<close> is a sublocale of \<open>kvdb_store\<close>, and \<open>net_DB\<close> is a concrete instance with other
    clients and lost round trips that the witnesses run on.
  \<^item> \<open>Throttle_InMem\<close>, \<open>Throttle_KVDB\<close>: the two limiters of \<open>gw/throttle\<close>; rate bounds, and that the second refines the first.
  \<^item> \<open>Locking\<close>: both lock managers of \<open>gw/locking\<close> (locales \<open>lock_manager\<close>, \<open>lock_all_manager\<close>) and all instances as a step relation.
  \<^item> \<open>Cron\<close>, \<open>Jobsched\<close>: \<open>gw/coord\<close> and \<open>gw/jobsched\<close>; bit-set schedules, the scheduler, and the ledger (locale \<open>job_ledger\<close>).
  \<^item> \<open>Service_Graph\<close>, \<open>Core_Walks\<close>: registration, levels and handles, and the start and shutdown walks of \<open>gw/framework/core.go\<close>.
  \<^item> \<open>Web_Http\<close>, \<open>Bearer_Sessions\<close>, \<open>Bearer_Correct\<close>: HTTP answers, bearer sessions with their handlers and configuration.
  \<^item> \<open>Pubsub\<close>, \<open>Pubsub_Correct\<close>: \<open>gw/pubsubs\<close>; the local subscription manager with its lock stripes, its goroutines interleaved, and the broker.
  \<^item> \<open>Keyring\<close>: \<open>gw/security\<close>; cipher contexts, the keyring, base64, over an abstract AEAD.
  \<^item> \<open>Coll\<close>, \<open>Coll_Correct\<close>: \<open>gw/coll\<close> and \<open>gw/collgrp\<close>; ordered collections refine lists, collections stay well formed.
  \<^item> \<open>Cookie_Sessions\<close>, \<open>Cookie_Correct\<close>: \<open>gw/web/session/cookie\<close>; session rows, cookies, the login and logout handlers and the wrappers.
  \<^item> \<open>Net_Addr\<close>, \<open>Web_Requests\<close>, \<open>Web_Gates\<close>, \<open>Web_Gates_Correct\<close>: addresses and prefixes as the standard library reads them, \<open>gw/web/requests\<close>,
    \<open>gw/web/cors\<close>, \<open>gw/web/handlerwrappers\<close> and \<open>gw/web/routing\<close>; what runs a handler and for whom (locale \<open>request_locks\<close> for the action locks).
  \<^item> \<open>Jwt_Assert\<close>, \<open>Jwt_Assert_Correct\<close>: \<open>auth/jwtassert\<close>; signing and verifying requests, the replay caches (locale \<open>replay_guard\<close>).
  \<^item> \<open>Sql_Tables\<close>, \<open>Sql_Build\<close>: tables, schemas, conditions, clauses and the statements the two drivers build.
  \<^item> \<open>Sql_Read\<close>, \<open>Sql_Correct\<close>, \<open>Sql_Drivers\<close>: a reader of the fragment of SQL that occurs, which has no counterpart in the code and says what a server
    makes of a text; every statement reads back as what was asked for, so both drivers fulfil the locale \<open>sql_executor\<close>.
  \<^item> \<open>Sql_Exec_Correct\<close>: the drivers agree over one server; what they do to rows in tables, with conditions in three-valued logic.
  \<^item> \<open>Sql_Models\<close>, \<open>Sql_Models_Correct\<close>: \<open>gw/sqldbs/dbmodel*.go\<close>; operations on models, proved once inside \<open>sql_executor\<close>.

  \<^bold>\<open>How the code is represented.\<close> A struct is a record, an operation one function of the same
  name (prefixed where two packages share it), a fallible call a sum with the error on the
  left, a Go map a HOL map (a finite map where the code ranges over it, with the order of the range as an argument \<open>walk\<close>).
  Every operation on the database takes and returns the world; random tokens and
  the time a call reads are its arguments. Goroutines are steps: where an interleaving matters there
  is an inductive step relation over all instances, and the property is an invariant of its reachable states.
  Where the code leaves 64-bit arithmetic the wrap is written out (\<open>i64\<close>) or the type is a word.

  \<^bold>\<open>Bounds and fuel.\<close> The compare-and-set loop of the database limiter has the retry bound of the code as
  its recursion argument, and the reader of SQL takes the number of tokens as fuel, which is enough by the theorems that it
  reads every statement back; every other loop is structural or has its termination proved.

  \<^bold>\<open>What the theorems show.\<close> Each property names its claim (C1, C2, ...) in the text before
  it. Safety across instances: mutual exclusion of locks, one run per planned minute, one rotation per refresh token, rate bounds with unsynchronised clocks.
  Refinement: the Redis driver implements the interface, the database limiter the in-memory one. Order and completion of boot and shutdown.
  Gates: a handler runs only for a live session, an unused assertion, within its rate, with its locks held. Round trips of sessions, sealed values,
  signed requests and models. Statements reach exactly the rows asked for. Functional behaviour of registration, schedules, session creation and configuration.
  Several properties record where the code does not do what its comments say.

  \<^bold>\<open>Not modelled.\<close> The HTTP server and sockets (\<open>gw/web/service.go\<close>, \<open>gw/web/sse\<close>, \<open>gw/uds\<close>, \<open>udscmds\<close>), file and JSON decoding,
  SQL connections, commit and rollback, prepared statements and the reading of schemas out of a server, the loaders of relations between models,
  the Redis broker, OpenID Connect and the upstream token exchange, password hashing, S3 and PDF output, the command line tools: they pass bytes to and
  from libraries and services. Cryptographic primitives, the JWT library, the URL parser, generated tokens, time zones, Redis and SQL servers
  and the bodies of user callbacks are parameters; what the proofs use of them are named hypotheses or laws of locales (\<open>redis_server\<close>, the cipher locales of
  \<open>Cookie_Correct\<close>), which the witnesses instantiate.
\<close>

end
